(* ===== verification/Prelude.thy ===== *)
theory Prelude
  imports Main "HOL-Library.Word" "HOL-Library.Monad_Syntax"
begin

text \<open>Shared vocabulary of the development: the machine integer types of the SH-2 target (char is 8
  bits, short 16, int and pointers 32, little endian), the byte-addressed memory with its readers and
  writers, the little-endian encodings, and the generic facts on them that the component theories
  use through the collections \<^verbatim>\<open>mem_simps\<close> and \<^verbatim>\<open>fw_simps\<close>.\<close>

unbundle bit_operations_syntax

type_synonym u8 = "8 word"
type_synonym u16 = "16 word"
type_synonym u32 = "32 word"

text \<open>A memory maps byte addresses to bytes. Pointers are \<^typ>\<open>u32\<close>, and NULL is 0.\<close>

type_synonym memory = "u32 \<Rightarrow> u8"

named_theorems mem_simps "reading what was written, and frame rules of the byte memory"
named_theorems fw_simps "selector-after-operation rules of the firmware's straight-line operations"

subsection \<open>Byte ranges\<close>

definition rd_bytes :: "u32 \<Rightarrow> nat \<Rightarrow> memory \<Rightarrow> u8 list" where
  "rd_bytes p n m = map (\<lambda>i. m (p + of_nat i)) [0..<n]"

definition wr_bytes :: "u32 \<Rightarrow> u8 list \<Rightarrow> memory \<Rightarrow> memory" where
  "wr_bytes p bs m = (\<lambda>a. let k = unat (a - p) in if k < length bs then bs ! k else m a)"

definition in_range :: "u32 \<Rightarrow> u32 \<Rightarrow> nat \<Rightarrow> bool" where
  "in_range a p n \<longleftrightarrow> unat (a - p) < n"

definition disjoint_ranges :: "u32 \<Rightarrow> nat \<Rightarrow> u32 \<Rightarrow> nat \<Rightarrow> bool" where
  "disjoint_ranges p n q k \<longleftrightarrow> (\<forall>i<n. \<not> in_range (p + of_nat i) q k)"

subsection \<open>Little-endian halfwords and words\<close>

definition bytes16 :: "u16 \<Rightarrow> u8 list" where
  "bytes16 w = [ucast w, ucast (drop_bit 8 w)]"

definition bytes32 :: "u32 \<Rightarrow> u8 list" where
  "bytes32 w = [ucast w, ucast (drop_bit 8 w), ucast (drop_bit 16 w), ucast (drop_bit 24 w)]"

definition le16 :: "u8 \<Rightarrow> u8 \<Rightarrow> u16" where
  "le16 a b = ucast a OR push_bit 8 (ucast b)"

definition le32 :: "u8 \<Rightarrow> u8 \<Rightarrow> u8 \<Rightarrow> u8 \<Rightarrow> u32" where
  "le32 a b c d = ucast a OR push_bit 8 (ucast b) OR push_bit 16 (ucast c) OR push_bit 24 (ucast d)"

definition ld16 :: "memory \<Rightarrow> u32 \<Rightarrow> u16" where
  "ld16 m p = le16 (m p) (m (p + 1))"

definition ld32 :: "memory \<Rightarrow> u32 \<Rightarrow> u32" where
  "ld32 m p = le32 (m p) (m (p + 1)) (m (p + 2)) (m (p + 3))"

definition st8 :: "u32 \<Rightarrow> u8 \<Rightarrow> memory \<Rightarrow> memory" where
  "st8 p v m = m(p := v)"

definition st16 :: "u32 \<Rightarrow> u16 \<Rightarrow> memory \<Rightarrow> memory" where
  "st16 p v m = wr_bytes p (bytes16 v) m"

definition st32 :: "u32 \<Rightarrow> u32 \<Rightarrow> memory \<Rightarrow> memory" where
  "st32 p v m = wr_bytes p (bytes32 v) m"

subsection \<open>Loops over a list\<close>

text \<open>A for loop whose body may not return.\<close>

primrec foldM :: "('x \<Rightarrow> 's \<Rightarrow> 's option) \<Rightarrow> 'x list \<Rightarrow> 's \<Rightarrow> 's option" where
  "foldM f [] s = Some s"
| "foldM f (x # xs) s = do { s \<leftarrow> f x s; foldM f xs s }"

lemma foldM_append [simp]: "foldM f (xs @ ys) s = do { s \<leftarrow> foldM f xs s; foldM f ys s }"
  by (induction xs arbitrary: s) (auto split: Option.bind_splits)

lemma foldM_cong:
  "xs = ys \<Longrightarrow> (\<And>x s. x \<in> set ys \<Longrightarrow> f x s = g x s) \<Longrightarrow> foldM f xs s = foldM g ys s"
  by (induction ys arbitrary: s xs) (auto split: Option.bind_splits)

text \<open>Induction with an invariant over a prefix.\<close>

lemma foldM_invariant:
  assumes "P [] s"
    and "\<And>ys x s. P ys s \<Longrightarrow> x \<in> set xs \<Longrightarrow> \<exists>s'. f x s = Some s' \<and> P (ys @ [x]) s'"
  shows "\<exists>s'. foldM f xs s = Some s' \<and> P xs s'"
  using assms(2)
proof (induction xs rule: rev_induct)
  case Nil
  then show ?case using assms(1) by simp
next
  case (snoc x xs)
  then obtain s' where "foldM f xs s = Some s'" "P xs s'"
    by fastforce
  with snoc.prems show ?case
    by fastforce
qed

subsection \<open>Facts on byte ranges\<close>

lemma unat_of_nat32 [simp]: "n < 4294967296 \<Longrightarrow> unat (of_nat n :: u32) = n"
  by (simp add: unat_of_nat take_bit_nat_eq_self)

lemma rd_bytes_0 [simp]: "rd_bytes p 0 m = []"
  by (simp add: rd_bytes_def)

lemma length_rd_bytes [simp]: "length (rd_bytes p n m) = n"
  by (simp add: rd_bytes_def)

lemma nth_rd_bytes: "i < n \<Longrightarrow> rd_bytes p n m ! i = m (p + of_nat i)"
  by (simp add: rd_bytes_def)

lemma wr_bytes_hit: "unat (a - p) < length bs \<Longrightarrow> wr_bytes p bs m a = bs ! unat (a - p)"
  by (simp add: wr_bytes_def Let_def)

lemma wr_bytes_miss: "\<not> in_range a p (length bs) \<Longrightarrow> wr_bytes p bs m a = m a"
  by (simp add: wr_bytes_def in_range_def Let_def)

lemma wr_bytes_Nil [simp]: "wr_bytes p [] m = m"
  by (simp add: wr_bytes_def fun_eq_iff Let_def)

lemma rd_wr_same [mem_simps]:
  "length bs = n \<Longrightarrow> n < 4294967296 \<Longrightarrow> rd_bytes p n (wr_bytes p bs m) = bs"
  by (rule nth_equalityI) (auto simp: nth_rd_bytes wr_bytes_hit)

lemma rd_wr_disjoint [mem_simps]:
  "disjoint_ranges p n q (length bs) \<Longrightarrow> rd_bytes p n (wr_bytes q bs m) = rd_bytes p n m"
  by (rule nth_equalityI) (auto simp: nth_rd_bytes disjoint_ranges_def wr_bytes_miss)

lemma disjoint_rangesI:
  assumes "unat p + n \<le> 4294967296" "unat q + k \<le> 4294967296"
    "unat p + n \<le> unat q \<or> unat q + k \<le> unat p"
  shows "disjoint_ranges p n q k"
proof -
  have "\<not> unat (p + of_nat i - q) < k" if "i < n" for i
  proof -
    have "unat (p + of_nat i) = unat p + i"
      using assms(1) that by (simp add: unat_word_ariths(1))
    then show ?thesis
      using assms that by (auto simp: unat_sub_if_size word_size)
  qed
  then show ?thesis
    by (simp add: disjoint_ranges_def in_range_def)
qed

lemma disjoint_rangesD:
  "disjoint_ranges p n q k \<Longrightarrow> in_range a p n \<Longrightarrow> \<not> in_range a q k"
proof -
  assume d: "disjoint_ranges p n q k" and a: "in_range a p n"
  have "p + of_nat (unat (a - p)) = a"
    by (simp only: of_nat_unat) simp
  with d a show ?thesis
    unfolding disjoint_ranges_def in_range_def by metis
qed

lemma rd_bytes_append:
  "rd_bytes p (n + k) m = rd_bytes p n m @ rd_bytes (p + of_nat n) k m"
  by (rule nth_equalityI) (auto simp: nth_rd_bytes nth_append algebra_simps of_nat_diff)

lemma rd_wr_prefix:
  assumes "n \<le> length bs" "length bs < 4294967296"
  shows "rd_bytes p n (wr_bytes p bs m) = take n bs"
  by (rule nth_equalityI) (use assms in \<open>auto simp: nth_rd_bytes wr_bytes_hit\<close>)

lemma rd_bytes_cong:
  "(\<And>i. i < n \<Longrightarrow> m (p + of_nat i) = m' (p + of_nat i)) \<Longrightarrow> rd_bytes p n m = rd_bytes p n m'"
  by (simp add: rd_bytes_def)

lemma length_bytes [simp]: "length (bytes16 w) = 2" "length (bytes32 v) = 4"
  by (simp_all add: bytes16_def bytes32_def)

lemma le16_bytes [simp]: "le16 (ucast (w::u16)) (ucast (drop_bit 8 w)) = w"
  by (rule bit_word_eqI) (auto simp: le16_def bit_simps)

lemma le32_bytes [simp]:
  "le32 (ucast (w::u32)) (ucast (drop_bit 8 w)) (ucast (drop_bit 16 w)) (ucast (drop_bit 24 w)) = w"
proof (rule bit_word_eqI)
  fix n assume n: "n < LENGTH(32)"
  consider "n < 8" | "8 \<le> n" "n < 16" | "16 \<le> n" "n < 24" | "24 \<le> n"
    by linarith
  then show "bit (le32 (ucast w) (ucast (drop_bit 8 w)) (ucast (drop_bit 16 w)) (ucast (drop_bit 24 w)) :: u32) n
      = bit w n"
    using n by cases (auto simp: le32_def bit_simps)
qed

lemma ld32_rd_bytes:
  "ld32 m p = le32 (rd_bytes p 4 m ! 0) (rd_bytes p 4 m ! 1) (rd_bytes p 4 m ! 2) (rd_bytes p 4 m ! 3)"
  by (simp add: ld32_def nth_rd_bytes)

lemma ld16_rd_bytes: "ld16 m p = le16 (rd_bytes p 2 m ! 0) (rd_bytes p 2 m ! 1)"
  by (simp add: ld16_def nth_rd_bytes)

lemma ld32_st32 [mem_simps, simp]: "ld32 (st32 p v m) p = v"
  by (simp add: ld32_rd_bytes st32_def rd_wr_same) (simp add: bytes32_def)

lemma ld16_st16 [mem_simps, simp]: "ld16 (st16 p v m) p = v"
  by (simp add: ld16_rd_bytes st16_def rd_wr_same) (simp add: bytes16_def)

lemma bytes32_le32 [simp]: "bytes32 (le32 a b c d) = [a, b, c, d]"
  by (auto simp: bytes32_def le32_def bit_simps intro!: bit_word_eqI) (drule bit_imp_le_length, simp)+

lemma bytes16_le16 [simp]: "bytes16 (le16 a b) = [a, b]"
  by (auto simp: bytes16_def le16_def bit_simps intro!: bit_word_eqI) (drule bit_imp_le_length, simp)+

lemma in_range_self [simp]: "in_range p p n \<longleftrightarrow> 0 < n"
  by (simp add: in_range_def)

lemma in_range_offset:
  assumes "in_range a (p + k) n" "unat k + n \<le> m" "m \<le> 4294967296"
  shows "in_range a p m"
proof -
  have lt: "unat (a - (p + k)) < n"
    using assms(1) by (simp add: in_range_def)
  have "unat (a - p) = unat ((a - (p + k)) + k)"
    by simp
  also have "\<dots> = unat (a - (p + k)) + unat k"
    using assms(2,3) lt by (subst unat_word_ariths(1)) simp
  finally have "unat (a - p) = unat (a - (p + k)) + unat k" .
  then show ?thesis
    using assms lt by (simp add: in_range_def)
qed

lemma disjoint_ranges_shift:
  "disjoint_ranges (b + p) n (b + q) k = disjoint_ranges p n q k"
  by (simp add: disjoint_ranges_def in_range_def algebra_simps)

lemma st8_wr: "st8 p v m = wr_bytes p [v] m"
  by (auto simp: st8_def wr_bytes_def Let_def fun_eq_iff unat_eq_zero)

lemma st8_miss: "\<not> in_range a p 1 \<Longrightarrow> st8 p v m a = m a"
  by (simp add: st8_wr wr_bytes_miss)

lemma wr_bytes_at:
  "k < length bs \<Longrightarrow> length bs \<le> 4294967296 \<Longrightarrow> wr_bytes p bs m (p + of_nat k) = bs ! k"
  by (simp add: wr_bytes_hit)

subsection \<open>Facts on words and lists\<close>

lemma unat_Suc_lt: "unat (w::u32) < n \<Longrightarrow> n < 4294967296 \<Longrightarrow> unat (w + 1) = unat w + 1"
  by (simp add: unat_word_ariths)

lemma of_nat_unat_id [simp]: "(of_nat (unat w) :: u32) = w"
  by simp

lemma unat_u8_u32 [simp]: "unat (ucast (b :: u8) :: u32) = unat b"
proof -
  have "unat b < 2 ^ 8"
    using unsigned_less [of b] by simp
  then show ?thesis
    by (simp add: unsigned_ucast_eq take_bit_nat_eq_self)
qed

lemma unat_u16_u32 [simp]: "unat (ucast (b :: u16) :: u32) = unat b"
proof -
  have "unat b < 2 ^ 16"
    using unsigned_less [of b] by simp
  then show ?thesis
    by (simp add: unsigned_ucast_eq take_bit_nat_eq_self)
qed

lemma unat_ucast_u8: "k < 256 \<Longrightarrow> unat (ucast (of_nat k :: u32) :: u8) = k"
  by (simp add: unsigned_ucast_eq take_bit_nat_eq_self)

lemma unat_of_nat8: "k < 256 \<Longrightarrow> unat (of_nat k :: u8) = k"
  by (simp add: unat_of_nat take_bit_nat_eq_self)

lemma unat_of_nat16: "k < 65536 \<Longrightarrow> unat (of_nat k :: u16) = k"
  by (simp add: unat_of_nat take_bit_nat_eq_self)

lemma unat_inj32: "unat a = unat b \<Longrightarrow> a = (b :: u32)"
  by (metis of_nat_unat_id)

lemma unat_lt32: "unat (w :: u32) < 4294967296"
  using unsigned_less [of w, where ?'a = nat] by simp

lemma unat_lt8: "unat (w :: u8) < 256"
  using unsigned_less [of w, where ?'a = nat] by simp

lemma unat_neg_1: "unat (- 1 :: u32) = 4294967295"
  by (simp add: unsigned_minus_1_eq_mask mask_eq_exp_minus_1)

lemma unat_minus_1: "(w::u32) \<noteq> 0 \<Longrightarrow> unat (w - 1) = unat w - 1"
  by (rule unat_minus_one)

lemma fold_list_update_length [simp]:
  "length (fold (\<lambda>(i, x) xs. xs[i := x]) ps xs) = length xs"
  by (induction ps arbitrary: xs) auto

subsection \<open>Adjacent writes\<close>

lemma wr_bytes_append:
  assumes "length bs + length cs < 4294967296"
  shows "wr_bytes (p + of_nat (length bs)) cs (wr_bytes p bs m) = wr_bytes p (bs @ cs) m"
proof
  fix a
  let ?k = "unat (a - p)"
  have n: "unat (of_nat (length bs) :: u32) = length bs"
    using assms by simp
  have k: "unat (a - (p + of_nat (length bs))) = (if length bs \<le> ?k then ?k - length bs else 4294967296 + ?k - length bs)"
    unfolding diff_diff_eq [symmetric] unat_sub_if_size [of "a - p"] n by (simp add: word_size add.commute [of "unat (a - p)"])
  show "wr_bytes (p + of_nat (length bs)) cs (wr_bytes p bs m) a = wr_bytes p (bs @ cs) m a"
  proof (cases "?k < length bs")
    case True
    then have "\<not> 4294967296 + ?k - length bs < length cs"
      using assms by linarith
    with True show ?thesis
      unfolding wr_bytes_def Let_def k by (simp add: nth_append)
  next
    case False
    then show ?thesis
      unfolding wr_bytes_def Let_def k by (auto simp: nth_append)
  qed
qed

lemma ld32_cong: "rd_bytes p 4 m = rd_bytes p 4 m' \<Longrightarrow> ld32 m p = ld32 m' p"
  by (simp add: ld32_rd_bytes)

lemma four_bytes: "st8 (p + 2) c (st8 (p + 3) d (st8 (p + 1) b (st8 p a m))) = wr_bytes p [a, b, c, d] m"
proof
  fix x
  show "st8 (p + 2) c (st8 (p + 3) d (st8 (p + 1) b (st8 p a m))) x = wr_bytes p [a, b, c, d] m x"
  proof (cases "unat (x - p) < 4")
    case True
    then have "unat (x - p) = 0 \<or> unat (x - p) = 1 \<or> unat (x - p) = 2 \<or> unat (x - p) = 3"
      by arith
    moreover have "x = p + of_nat k" if "unat (x - p) = k" for k
    proof -
      have "x = p + of_nat (unat (x - p))"
        by simp
      then show ?thesis
        unfolding that .
    qed
    ultimately have "x = p + of_nat 0 \<or> x = p + of_nat 1 \<or> x = p + of_nat 2 \<or> x = p + of_nat 3"
      by blast
    then have "x = p \<or> x = p + 1 \<or> x = p + 2 \<or> x = p + 3"
      by simp
    then show ?thesis
      by (auto simp: st8_def wr_bytes_def Let_def nth_Cons')
  next
    case False
    then have "x \<noteq> p" "x \<noteq> p + 1" "x \<noteq> p + 2" "x \<noteq> p + 3"
      by auto
    with False show ?thesis
      by (simp add: st8_def wr_bytes_def Let_def)
  qed
qed

end
