(* ===== verification/State.thy ===== *)
theory State
  imports Prelude
begin

text \<open>The data of the firmware: the DMA descriptors and queues of carlfw/include/dma.h, the
  superframe headers, bit fields and responses of include/shared/wlan.h and fwcmd.h, the global
  context \<^verbatim>\<open>struct firmware_context_struct\<close> of carlfw/include/carl9170.h, and the machine
  around it (registers, byte memory, typed memory of descriptors and superframe headers). The
  encoders of the bit-field structs give the layout the compiler chooses (least significant field
  first), which the host driver relies on.\<close>

subsection \<open>DMA descriptors and queues (carlfw/include/dma.h)\<close>

record dma_desc =
  dd_status :: u16
  dd_ctrl :: u16
  dd_dataSize :: u16
  dd_totalLen :: u16
  dd_lastAddr :: u32
  dd_dataAddr :: u32
  dd_nextAddr :: u32

record dma_queue =
  q_head :: u32
  q_terminator :: u32

type_synonym desc_heap = "u32 \<Rightarrow> dma_desc"

text \<open>The queues of the context, named by the member they are.\<close>

datatype qref = UpQ | DownQ | TxQ nat | RetryQ | RxQ | CabQ nat

subsection \<open>Transmit headers (include/shared/wlan.h)\<close>

record tx_hw_mac_control =
  mc_erp_prot :: "2 word"
  mc_no_ack :: bool
  mc_backoff :: bool
  mc_burst :: bool
  mc_ampdu :: bool
  mc_enc_mode :: "2 word"
  mc_hw_mmic :: bool
  mc_hw_duration :: bool
  mc_qos_queue :: "2 word"
  mc_disable_txop :: bool
  mc_txop_rifs :: bool
  mc_ba_end :: bool
  mc_probe :: bool

record tx_hw_phy_control =
  pc_modulation :: "2 word"
  pc_preamble :: bool
  pc_bandwidth :: "2 word"
  pc_unused5 :: bool
  pc_heavy_clip :: "3 word"
  pc_tx_power :: "6 word"
  pc_chains :: "3 word"
  pc_mcs :: "7 word"
  pc_unused25 :: "6 word"
  pc_short_gi :: bool

record tx_rate_info =
  ri_tries :: "3 word"
  ri_erp_prot :: "2 word"
  ri_ampdu :: bool
  ri_free :: "2 word"

record tx_superdesc =
  sd_len :: u16
  sd_rix :: u8
  sd_cnt :: u8
  sd_cookie :: u8
  sd_ampdu_density :: "3 word"
  sd_ampdu_factor :: "2 word"
  sd_ampdu_commit_density :: bool
  sd_ampdu_commit_factor :: bool
  sd_ampdu_unused_bit :: bool
  sd_queue :: "2 word"
  sd_assign_seq :: bool
  sd_vif_id :: "3 word"
  sd_fill_in_tsf :: bool
  sd_cab :: bool
  sd_padding2 :: u8
  sd_ri :: "tx_rate_info list"
  sd_rr :: "tx_hw_phy_control list"

record tx_hwdesc =
  hd_length :: u16
  hd_mac :: tx_hw_mac_control
  hd_phy :: tx_hw_phy_control

record tx_superframe =
  sf_s :: tx_superdesc
  sf_hdr :: tx_hwdesc

text \<open>The bytes that follow the two headers (\<^verbatim>\<open>f.data\<close>) live in the byte memory, at this
  offset from the superframe.\<close>

definition superframe_data :: "u32 \<Rightarrow> u32" where
  "superframe_data super = super + 32"

subsection \<open>Layout of the bit fields\<close>

definition bitv :: "bool \<Rightarrow> 'a::len word" where
  "bitv b = of_bool b"

definition mac_control_set :: "tx_hw_mac_control \<Rightarrow> u16" where
  "mac_control_set m =
     ucast (mc_erp_prot m) OR push_bit 2 (bitv (mc_no_ack m)) OR push_bit 3 (bitv (mc_backoff m)) OR
     push_bit 4 (bitv (mc_burst m)) OR push_bit 5 (bitv (mc_ampdu m)) OR
     push_bit 6 (ucast (mc_enc_mode m)) OR push_bit 8 (bitv (mc_hw_mmic m)) OR
     push_bit 9 (bitv (mc_hw_duration m)) OR push_bit 10 (ucast (mc_qos_queue m)) OR
     push_bit 12 (bitv (mc_disable_txop m)) OR push_bit 13 (bitv (mc_txop_rifs m)) OR
     push_bit 14 (bitv (mc_ba_end m)) OR push_bit 15 (bitv (mc_probe m))"

definition mac_control_of :: "u16 \<Rightarrow> tx_hw_mac_control" where
  "mac_control_of w =
     \<lparr> mc_erp_prot = ucast w, mc_no_ack = bit w 2, mc_backoff = bit w 3, mc_burst = bit w 4,
       mc_ampdu = bit w 5, mc_enc_mode = ucast (drop_bit 6 w), mc_hw_mmic = bit w 8,
       mc_hw_duration = bit w 9, mc_qos_queue = ucast (drop_bit 10 w), mc_disable_txop = bit w 12,
       mc_txop_rifs = bit w 13, mc_ba_end = bit w 14, mc_probe = bit w 15 \<rparr>"

definition phy_control_set :: "tx_hw_phy_control \<Rightarrow> u32" where
  "phy_control_set p =
     ucast (pc_modulation p) OR push_bit 2 (bitv (pc_preamble p)) OR
     push_bit 3 (ucast (pc_bandwidth p)) OR push_bit 5 (bitv (pc_unused5 p)) OR
     push_bit 6 (ucast (pc_heavy_clip p)) OR push_bit 9 (ucast (pc_tx_power p)) OR
     push_bit 15 (ucast (pc_chains p)) OR push_bit 18 (ucast (pc_mcs p)) OR
     push_bit 25 (ucast (pc_unused25 p)) OR push_bit 31 (bitv (pc_short_gi p))"

definition phy_control_of :: "u32 \<Rightarrow> tx_hw_phy_control" where
  "phy_control_of w =
     \<lparr> pc_modulation = ucast w, pc_preamble = bit w 2, pc_bandwidth = ucast (drop_bit 3 w),
       pc_unused5 = bit w 5, pc_heavy_clip = ucast (drop_bit 6 w),
       pc_tx_power = ucast (drop_bit 9 w), pc_chains = ucast (drop_bit 15 w),
       pc_mcs = ucast (drop_bit 18 w), pc_unused25 = ucast (drop_bit 25 w),
       pc_short_gi = bit w 31 \<rparr>"

definition rate_info_set :: "tx_rate_info \<Rightarrow> u8" where
  "rate_info_set r = ucast (ri_tries r) OR push_bit 3 (ucast (ri_erp_prot r)) OR
     push_bit 5 (bitv (ri_ampdu r)) OR push_bit 6 (ucast (ri_free r))"

definition ampdu_settings :: "tx_superdesc \<Rightarrow> u8" where
  "ampdu_settings d = ucast (sd_ampdu_density d) OR push_bit 3 (ucast (sd_ampdu_factor d)) OR
     push_bit 5 (bitv (sd_ampdu_commit_density d)) OR push_bit 6 (bitv (sd_ampdu_commit_factor d)) OR
     push_bit 7 (bitv (sd_ampdu_unused_bit d))"

definition superdesc_misc :: "tx_superdesc \<Rightarrow> u8" where
  "superdesc_misc d = ucast (sd_queue d) OR push_bit 2 (bitv (sd_assign_seq d)) OR
     push_bit 3 (ucast (sd_vif_id d)) OR push_bit 6 (bitv (sd_fill_in_tsf d)) OR
     push_bit 7 (bitv (sd_cab d))"

text \<open>The superdescriptor as the host sees it, \<^verbatim>\<open>struct _carl9170_tx_superdesc\<close>.\<close>

definition superdesc_bytes :: "tx_superdesc \<Rightarrow> u8 list" where
  "superdesc_bytes d = bytes16 (sd_len d) @ [sd_rix d, sd_cnt d, sd_cookie d, ampdu_settings d,
     superdesc_misc d, sd_padding2 d] @ map rate_info_set (sd_ri d) @
     concat (map (bytes32 \<circ> phy_control_set) (sd_rr d))"

definition hwdesc_bytes :: "tx_hwdesc \<Rightarrow> u8 list" where
  "hwdesc_bytes h = bytes16 (hd_length h) @ bytes16 (mac_control_set (hd_mac h)) @
     bytes32 (phy_control_set (hd_phy h))"

subsection \<open>Responses and caches (include/shared/fwcmd.h, carlfw/include/carl9170.h)\<close>

record tx_status =
  ts_cookie :: u8
  ts_queue :: "2 word"
  ts_rix :: "2 word"
  ts_tries :: "3 word"
  ts_success :: bool

definition tx_status_info :: "tx_status \<Rightarrow> u8" where
  "tx_status_info t = ucast (ts_queue t) OR push_bit 2 (ucast (ts_rix t)) OR
     push_bit 4 (ucast (ts_tries t)) OR push_bit 7 (bitv (ts_success t))"

definition tx_status_bytes :: "tx_status \<Rightarrow> u8 list" where
  "tx_status_bytes t = [ts_cookie t, tx_status_info t]"

record bar_ctx =
  bc_ta :: "u8 list"
  bc_ra :: "u8 list"
  bc_start_seq_num :: u16
  bc_control :: u16

record tally_rsp =
  ta_active :: u32
  ta_cca :: u32
  ta_tx_time :: u32
  ta_rx_total :: u32
  ta_rx_overrun :: u32
  ta_tick :: u32

definition tally_bytes :: "tally_rsp \<Rightarrow> u8 list" where
  "tally_bytes t = concat (map bytes32 [ta_active t, ta_cca t, ta_tx_time t, ta_rx_total t,
     ta_rx_overrun t, ta_tick t])"

record wol_cmd_data =
  wc_flags :: u32
  wc_mac :: "u8 list"
  wc_bssid :: "u8 list"
  wc_null_interval :: u32
  wc_free_for_use2 :: u32
  wc_mask :: u32
  wc_pattern :: "u8 list"

subsection \<open>The firmware context (carlfw/include/carl9170.h)\<close>

text \<open>Callbacks of the firmware's own descriptor (\<^verbatim>\<open>fw_desc_callback_t\<close>): the functions the code
  passes to \<^verbatim>\<open>wlan_tx_fw\<close>.\<close>

datatype fw_desc_callback = CbNone | CbWolTxStatus

record wlan_context =
  w_ampdu_prev :: "u32 list"
  w_last_super_num :: "u32 list"
  w_last_super :: "u32 list"
  w_mac_reset :: u32
  w_soft_int :: u32
  w_rx_filter :: u32
  w_sequence :: "u32 list"
  w_cab_queue_len :: "u32 list"
  w_cab_flush_time :: u32
  w_cab_flush_trigger :: "u32 list"
  w_tx_status_pending :: u32
  w_tx_status_head_idx :: u32
  w_tx_status_tail_idx :: u32
  w_tx_status_cache :: "tx_status list"
  w_fw_desc :: u32
  w_fw_desc_available :: u32
  w_fw_desc_data :: u32
  w_fw_desc_callback :: fw_desc_callback
  w_ba_cache :: "bar_ctx list"
  w_ba_tail_idx :: u32
  w_ba_head_idx :: u32
  w_queued_ba :: u32
  w_queued_bar :: u32

record usb_context =
  u_config :: u32
  u_interface_setting :: u32
  u_alternate_interface_setting :: u32
  u_device_feature :: u32
  u_ep0_action :: u32
  u_ep0_txrx_buffer :: u32
  u_ep0_txrx_len :: u32
  u_ep0_txrx_pos :: u32
  u_cfg_desc :: u32
  u_os_cfg_desc :: u32
  u_int_pending :: u32
  u_int_desc_available :: u32
  u_int_head_index :: u32
  u_int_tail_index :: u32
  u_int_desc :: u32
  u_put_index :: u32
  u_put_buffer :: "u8 list"

record phy_context =
  p_frequency :: u32
  p_ht_settings :: u32
  p_state :: u32
  p_psm_state :: u32

record wol_context =
  wo_cmd :: wol_cmd_data
  wo_last_beacon :: u32
  wo_lost_null :: u32
  wo_last_null :: u32
  wo_wake_up :: bool

subsection \<open>The machine\<close>

text \<open>The memory-mapped registers. A write stores the value and is logged. A read returns what the
  device answers at that point of the run, when the environment \<^verbatim>\<open>hw_dev\<close> gives an answer for it,
  and the last value written otherwise. Every read advances \<^verbatim>\<open>hw_now\<close>, so two reads of one
  volatile register may differ.\<close>

record machine =
  hw_regs :: "u32 \<Rightarrow> u32"
  hw_dev :: "nat \<Rightarrow> u32 \<Rightarrow> u32 option"
  hw_now :: nat
  hw_log :: "(u32 \<times> u32) list"

text \<open>The build options the modelled code tests, and the addresses the linker chooses.\<close>

record fw_config =
  cf_wol :: bool
  cf_wol_probe_req :: bool
  cf_wol_probe_req_ssid :: "u8 list"
  cf_80mhz :: bool
  cf_queue_bump :: bool
  cf_usb_modeswitch :: bool
  cf_int_buf :: u32
  cf_usb_hs_config :: u32
  cf_usb_fs_config :: u32

text \<open>The whole state: \<^verbatim>\<open>fw\<close> (fields \<^verbatim>\<open>f_\<close>), its queues, the byte memory, the memory of
  descriptors and superframe headers, the registers and the build. \<^verbatim>\<open>f_messages\<close> records what was
  handed to \<^verbatim>\<open>send_cmd_to_host\<close> (type, ext, payload) for the properties; no code reads it.\<close>

record fw_state =
  f_ticks_per_usec :: u32
  f_counter :: u32
  f_watchdog_enable :: u32
  f_reboot :: u32
  f_suspend_mode :: u32
  f_wlan :: wlan_context
  f_usb :: usb_context
  f_phy :: phy_context
  f_tally_clock :: u32
  f_tally :: tally_rsp
  f_tx_time :: u32
  f_wol :: wol_context
  f_cached_gpio :: u32
  f_printf_uc :: bool
  f_queues :: "qref \<Rightarrow> dma_queue"
  f_descs :: "u32 \<Rightarrow> dma_desc"
  f_supers :: "u32 \<Rightarrow> tx_superframe"
  f_ram :: memory
  f_hw :: machine
  f_cfg :: fw_config
  f_messages :: "(u8 \<times> u8 \<times> u8 list) list"

subsection \<open>SRAM layout (\<^verbatim>\<open>struct ar9170_dma_memory\<close>, carlfw/include/dma.h)\<close>

definition roundup :: "nat \<Rightarrow> nat \<Rightarrow> nat" where
  "roundup x a = (x + a - 1) div a * a"

definition CARL9170_INTF_NUM :: nat where "CARL9170_INTF_NUM = 2"

definition AR9170_TERMINATOR_NUMBER :: nat where
  "AR9170_TERMINATOR_NUMBER = 10 + 1 + CARL9170_INTF_NUM"

definition AR9170_BLOCK_SIZE :: nat where "AR9170_BLOCK_SIZE = 256 + 64"

definition DESCRIPTOR_SIZE :: nat where "DESCRIPTOR_SIZE = 20"

definition BLOCK_ALIGNMENT :: nat where "BLOCK_ALIGNMENT = 64"

definition SRAM_OFFSET :: nat where "SRAM_OFFSET = 0x100000"

definition SRAM_SIZE :: nat where "SRAM_SIZE = 0x18000"

text \<open>\<^verbatim>\<open>struct carl9170_sram_reserved\<close>: the BlockAck superframe (24 + 8 + 28 bytes, rounded to 16),
  the command, the response block and a beacon per interface.\<close>

definition BA_BUFFER_LEN :: nat where "BA_BUFFER_LEN = roundup (24 + 8 + 28) 16"

definition BCN_LENGTH_MAX :: nat where "BCN_LENGTH_MAX = 512 - 32"

definition SRAM_RESERVED :: nat where
  "SRAM_RESERVED = BA_BUFFER_LEN + 64 + AR9170_BLOCK_SIZE + CARL9170_INTF_NUM * BCN_LENGTH_MAX"

definition NONBLOCK_DESCRIPTORS_SIZE_ALIGNED :: nat where
  "NONBLOCK_DESCRIPTORS_SIZE_ALIGNED =
     roundup (DESCRIPTOR_SIZE * AR9170_TERMINATOR_NUMBER) BLOCK_ALIGNMENT"

definition AR9170_BLOCK_NUMBER :: nat where
  "AR9170_BLOCK_NUMBER = (SRAM_SIZE - SRAM_RESERVED - NONBLOCK_DESCRIPTORS_SIZE_ALIGNED) div
     (AR9170_BLOCK_SIZE + DESCRIPTOR_SIZE)"

definition AR9170_TX_BLOCK_NUMBER :: nat where
  "AR9170_TX_BLOCK_NUMBER = AR9170_BLOCK_NUMBER * 2 div (1 + 2)"

text \<open>Offsets of the members of \<^verbatim>\<open>dma_mem\<close>.\<close>

definition block_offset :: nat where
  "block_offset = DESCRIPTOR_SIZE * AR9170_TERMINATOR_NUMBER"

definition data_offset :: nat where
  "data_offset = roundup (block_offset + DESCRIPTOR_SIZE * AR9170_BLOCK_NUMBER) BLOCK_ALIGNMENT"

definition reserved_offset :: nat where
  "reserved_offset = roundup (data_offset + AR9170_BLOCK_SIZE * AR9170_BLOCK_NUMBER) BLOCK_ALIGNMENT"

definition terminator_addr :: "nat \<Rightarrow> u32" where
  "terminator_addr i = of_nat (SRAM_OFFSET + DESCRIPTOR_SIZE * i)"

definition block_addr :: "nat \<Rightarrow> u32" where
  "block_addr i = of_nat (SRAM_OFFSET + block_offset + DESCRIPTOR_SIZE * i)"

definition data_addr :: "nat \<Rightarrow> u32" where
  "data_addr i = of_nat (SRAM_OFFSET + data_offset + AR9170_BLOCK_SIZE * i)"

definition reserved_ba :: u32 where "reserved_ba = of_nat (SRAM_OFFSET + reserved_offset)"

definition reserved_cmd :: u32 where "reserved_cmd = reserved_ba + of_nat BA_BUFFER_LEN"

definition reserved_rsp :: u32 where "reserved_rsp = reserved_cmd + 64"

definition reserved_bcn :: "nat \<Rightarrow> u32" where
  "reserved_bcn vif = reserved_rsp + of_nat AR9170_BLOCK_SIZE + of_nat (vif * BCN_LENGTH_MAX)"

lemmas layout_defs = roundup_def CARL9170_INTF_NUM_def AR9170_TERMINATOR_NUMBER_def
  AR9170_BLOCK_SIZE_def DESCRIPTOR_SIZE_def BLOCK_ALIGNMENT_def SRAM_OFFSET_def SRAM_SIZE_def
  BA_BUFFER_LEN_def BCN_LENGTH_MAX_def SRAM_RESERVED_def NONBLOCK_DESCRIPTORS_SIZE_ALIGNED_def
  AR9170_BLOCK_NUMBER_def AR9170_TX_BLOCK_NUMBER_def block_offset_def data_offset_def
  reserved_offset_def terminator_addr_def block_addr_def data_addr_def reserved_ba_def
  reserved_cmd_def reserved_rsp_def reserved_bcn_def

subsection \<open>The zeroed context\<close>

text \<open>\<^verbatim>\<open>start\<close> clears the context; memory and registers are arbitrary then, and zero here, for a state to
  start examples from.\<close>

definition zero_desc :: dma_desc where
  "zero_desc = \<lparr> dd_status = 0, dd_ctrl = 0, dd_dataSize = 0, dd_totalLen = 0, dd_lastAddr = 0,
     dd_dataAddr = 0, dd_nextAddr = 0 \<rparr>"

definition zero_super :: tx_superframe where
  "zero_super = \<lparr> sf_s = \<lparr> sd_len = 0, sd_rix = 0, sd_cnt = 0, sd_cookie = 0, sd_ampdu_density = 0,
       sd_ampdu_factor = 0, sd_ampdu_commit_density = False, sd_ampdu_commit_factor = False,
       sd_ampdu_unused_bit = False, sd_queue = 0, sd_assign_seq = False, sd_vif_id = 0,
       sd_fill_in_tsf = False, sd_cab = False, sd_padding2 = 0,
       sd_ri = replicate 4 \<lparr> ri_tries = 0, ri_erp_prot = 0, ri_ampdu = False, ri_free = 0 \<rparr>,
       sd_rr = replicate 3 (phy_control_of 0) \<rparr>,
     sf_hdr = \<lparr> hd_length = 0, hd_mac = mac_control_of 0, hd_phy = phy_control_of 0 \<rparr> \<rparr>"

definition zero_state :: "fw_config \<Rightarrow> fw_state" where
  "zero_state c = \<lparr> f_ticks_per_usec = 0, f_counter = 0, f_watchdog_enable = 0, f_reboot = 0,
     f_suspend_mode = 0,
     f_wlan = \<lparr> w_ampdu_prev = replicate 5 0, w_last_super_num = replicate 5 0,
       w_last_super = replicate 5 0, w_mac_reset = 0, w_soft_int = 0, w_rx_filter = 0,
       w_sequence = replicate 2 0, w_cab_queue_len = replicate 2 0, w_cab_flush_time = 0,
       w_cab_flush_trigger = replicate 2 0, w_tx_status_pending = 0, w_tx_status_head_idx = 0,
       w_tx_status_tail_idx = 0,
       w_tx_status_cache = replicate 30 \<lparr> ts_cookie = 0, ts_queue = 0, ts_rix = 0, ts_tries = 0, ts_success = False \<rparr>,
       w_fw_desc = 0, w_fw_desc_available = 0, w_fw_desc_data = 0, w_fw_desc_callback = CbNone,
       w_ba_cache = replicate 4 \<lparr> bc_ta = replicate 6 0, bc_ra = replicate 6 0, bc_start_seq_num = 0, bc_control = 0 \<rparr>,
       w_ba_tail_idx = 0, w_ba_head_idx = 0, w_queued_ba = 0, w_queued_bar = 0 \<rparr>,
     f_usb = \<lparr> u_config = 0, u_interface_setting = 0, u_alternate_interface_setting = 0,
       u_device_feature = 0, u_ep0_action = 0, u_ep0_txrx_buffer = 0, u_ep0_txrx_len = 0,
       u_ep0_txrx_pos = 0, u_cfg_desc = 0, u_os_cfg_desc = 0, u_int_pending = 0,
       u_int_desc_available = 0, u_int_head_index = 0, u_int_tail_index = 0, u_int_desc = 0,
       u_put_index = 0, u_put_buffer = replicate 60 0 \<rparr>,
     f_phy = \<lparr> p_frequency = 0, p_ht_settings = 0, p_state = 0, p_psm_state = 0 \<rparr>,
     f_tally_clock = 0,
     f_tally = \<lparr> ta_active = 0, ta_cca = 0, ta_tx_time = 0, ta_rx_total = 0, ta_rx_overrun = 0, ta_tick = 0 \<rparr>,
     f_tx_time = 0,
     f_wol = \<lparr> wo_cmd = \<lparr> wc_flags = 0, wc_mac = replicate 6 0, wc_bssid = replicate 6 0, wc_null_interval = 0,
         wc_free_for_use2 = 0, wc_mask = 0, wc_pattern = replicate 32 0 \<rparr>,
       wo_last_beacon = 0, wo_lost_null = 0, wo_last_null = 0, wo_wake_up = False \<rparr>,
     f_cached_gpio = 0, f_printf_uc = False, f_queues = (\<lambda>_. \<lparr> q_head = 0, q_terminator = 0 \<rparr>), f_descs = (\<lambda>_. zero_desc),
     f_supers = (\<lambda>_. zero_super), f_ram = (\<lambda>_. 0),
     f_hw = \<lparr> hw_regs = (\<lambda>_. 0), hw_dev = (\<lambda>_ _. None), hw_now = 0, hw_log = [] \<rparr>,
     f_cfg = c, f_messages = [] \<rparr>"

text \<open>The default build, with the response ring at some address outside of the SRAM.\<close>

definition default_config :: fw_config where
  "default_config = \<lparr> cf_wol = False, cf_wol_probe_req = False, cf_wol_probe_req_ssid = [],
     cf_80mhz = False, cf_queue_bump = False, cf_usb_modeswitch = False, cf_int_buf = 0x203000, cf_usb_hs_config = 0x204000,
     cf_usb_fs_config = 0x204100 \<rparr>"

end
