(* ===== verification/Hw.thy ===== *)
theory Hw
  imports Prelude
begin

text \<open>The constants of the code that the theories use, by the file that defines them: register
  addresses, bit masks, command and response codes. Each is an abbreviation of its numeral, at the
  width of its use.\<close>

subsection \<open>include/shared/hw.h\<close>

abbreviation (input) AR9170_BCN_CTRL_READY where "AR9170_BCN_CTRL_READY \<equiv> 1"
abbreviation (input) AR9170_CAM_MAX_USER where "AR9170_CAM_MAX_USER \<equiv> 0x40"
abbreviation (input) AR9170_DMA_TRIGGER_RXQ where "AR9170_DMA_TRIGGER_RXQ \<equiv> 0x100"
abbreviation (input) AR9170_GPIO_REG_PORT_DATA where "AR9170_GPIO_REG_PORT_DATA \<equiv> 0x1D0104"
abbreviation (input) AR9170_GPIO_REG_PORT_TYPE where "AR9170_GPIO_REG_PORT_TYPE \<equiv> 0x1D0100"
abbreviation (input) AR9170_MAC_AMPDU_DENSITY where "AR9170_MAC_AMPDU_DENSITY \<equiv> 7"
abbreviation (input) AR9170_MAC_AMPDU_DENSITY_S where "AR9170_MAC_AMPDU_DENSITY_S \<equiv> 0"
abbreviation (input) AR9170_MAC_AMPDU_FACTOR where "AR9170_MAC_AMPDU_FACTOR \<equiv> 0x7F0000"
abbreviation (input) AR9170_MAC_AMPDU_FACTOR_S where "AR9170_MAC_AMPDU_FACTOR_S \<equiv> 0x10"
abbreviation (input) AR9170_MAC_BACKOFF_CCA where "AR9170_MAC_BACKOFF_CCA \<equiv> 0x1000000"
abbreviation (input) AR9170_MAC_BACKOFF_TX_PE where "AR9170_MAC_BACKOFF_TX_PE \<equiv> 0x10000000"
abbreviation (input) AR9170_MAC_CAM_ADDR_WRITE where "AR9170_MAC_CAM_ADDR_WRITE \<equiv> 0x80000000"
abbreviation (input) AR9170_MAC_CAM_HOST_PENDING where "AR9170_MAC_CAM_HOST_PENDING \<equiv> 0x80000000"
abbreviation (input) AR9170_MAC_CAM_STATE_READ_PENDING where "AR9170_MAC_CAM_STATE_READ_PENDING \<equiv> 0x40000000"
abbreviation (input) AR9170_MAC_CAM_STATE_WRITE_PENDING where "AR9170_MAC_CAM_STATE_WRITE_PENDING \<equiv> 0x80000000"
abbreviation (input) AR9170_MAC_INT_ATIM where "AR9170_MAC_INT_ATIM \<equiv> 0x10"
abbreviation (input) AR9170_MAC_INT_CFG_BCN where "AR9170_MAC_INT_CFG_BCN \<equiv> 0x40"
abbreviation (input) AR9170_MAC_INT_PRETBTT where "AR9170_MAC_INT_PRETBTT \<equiv> 0x4000"
abbreviation (input) AR9170_MAC_INT_RETRY_FAIL where "AR9170_MAC_INT_RETRY_FAIL \<equiv> 4"
abbreviation (input) AR9170_MAC_INT_RXC where "AR9170_MAC_INT_RXC \<equiv> 2"
abbreviation (input) AR9170_MAC_INT_TXC where "AR9170_MAC_INT_TXC \<equiv> 1"
abbreviation (input) AR9170_MAC_POWER_STATE_CTRL_RESET where "AR9170_MAC_POWER_STATE_CTRL_RESET \<equiv> 0x20"
abbreviation (input) AR9170_MAC_REG_ACK_TPC where "AR9170_MAC_REG_ACK_TPC \<equiv> 0x1C3694"
abbreviation (input) AR9170_MAC_REG_AFTER_PNP where "AR9170_MAC_REG_AFTER_PNP \<equiv> 0x1C3648"
abbreviation (input) AR9170_MAC_REG_AMPDU_DENSITY where "AR9170_MAC_REG_AMPDU_DENSITY \<equiv> 0x1C3BA0"
abbreviation (input) AR9170_MAC_REG_AMPDU_FACTOR where "AR9170_MAC_REG_AMPDU_FACTOR \<equiv> 0x1C3B9C"
abbreviation (input) AR9170_MAC_REG_BACKOFF_STATUS where "AR9170_MAC_REG_BACKOFF_STATUS \<equiv> 0x1C36C8"
abbreviation (input) AR9170_MAC_REG_BCN_ADDR where "AR9170_MAC_REG_BCN_ADDR \<equiv> 0x1C3D84"
abbreviation (input) AR9170_MAC_REG_BCN_COUNT where "AR9170_MAC_REG_BCN_COUNT \<equiv> 0x1C3D9C"
abbreviation (input) AR9170_MAC_REG_BCN_CTRL where "AR9170_MAC_REG_BCN_CTRL \<equiv> 0x1C3D94"
abbreviation (input) AR9170_MAC_REG_BCN_LENGTH where "AR9170_MAC_REG_BCN_LENGTH \<equiv> 0x1C3D88"
abbreviation (input) AR9170_MAC_REG_BSSID_L where "AR9170_MAC_REG_BSSID_L \<equiv> 0x1C3618"
abbreviation (input) AR9170_MAC_REG_CAM_ADDR where "AR9170_MAC_REG_CAM_ADDR \<equiv> 0x1C370C"
abbreviation (input) AR9170_MAC_REG_CAM_DATA0 where "AR9170_MAC_REG_CAM_DATA0 \<equiv> 0x1C3720"
abbreviation (input) AR9170_MAC_REG_CAM_DATA1 where "AR9170_MAC_REG_CAM_DATA1 \<equiv> 0x1C3724"
abbreviation (input) AR9170_MAC_REG_CAM_DATA2 where "AR9170_MAC_REG_CAM_DATA2 \<equiv> 0x1C3728"
abbreviation (input) AR9170_MAC_REG_CAM_DATA3 where "AR9170_MAC_REG_CAM_DATA3 \<equiv> 0x1C372C"
abbreviation (input) AR9170_MAC_REG_CAM_MODE where "AR9170_MAC_REG_CAM_MODE \<equiv> 0x1C3700"
abbreviation (input) AR9170_MAC_REG_CAM_ROLL_CALL_TBL_H where "AR9170_MAC_REG_CAM_ROLL_CALL_TBL_H \<equiv> 0x1C3708"
abbreviation (input) AR9170_MAC_REG_CAM_ROLL_CALL_TBL_L where "AR9170_MAC_REG_CAM_ROLL_CALL_TBL_L \<equiv> 0x1C3704"
abbreviation (input) AR9170_MAC_REG_CAM_STATE where "AR9170_MAC_REG_CAM_STATE \<equiv> 0x1C373C"
abbreviation (input) AR9170_MAC_REG_DMA_RXQ_ADDR where "AR9170_MAC_REG_DMA_RXQ_ADDR \<equiv> 0x1C3D28"
abbreviation (input) AR9170_MAC_REG_DMA_STATUS where "AR9170_MAC_REG_DMA_STATUS \<equiv> 0x1C3D3C"
abbreviation (input) AR9170_MAC_REG_DMA_TRIGGER where "AR9170_MAC_REG_DMA_TRIGGER \<equiv> 0x1C3D30"
abbreviation (input) AR9170_MAC_REG_DMA_TXQ_ADDR where "AR9170_MAC_REG_DMA_TXQ_ADDR \<equiv> 0x1C3D00"
abbreviation (input) AR9170_MAC_REG_DMA_TXQ_CURR_ADDR where "AR9170_MAC_REG_DMA_TXQ_CURR_ADDR \<equiv> 0x1C3D04"
abbreviation (input) AR9170_MAC_REG_DMA_TXQ_LAST_ADDR where "AR9170_MAC_REG_DMA_TXQ_LAST_ADDR \<equiv> 0x1C3D40"
abbreviation (input) AR9170_MAC_REG_INT_CTRL where "AR9170_MAC_REG_INT_CTRL \<equiv> 0x1C3510"
abbreviation (input) AR9170_MAC_REG_MAC_ADDR_L where "AR9170_MAC_REG_MAC_ADDR_L \<equiv> 0x1C3610"
abbreviation (input) AR9170_MAC_REG_POWER_STATE_CTRL where "AR9170_MAC_REG_POWER_STATE_CTRL \<equiv> 0x1C3500"
abbreviation (input) AR9170_MAC_REG_QOS_PRIORITY_VIRTUAL_CCA where "AR9170_MAC_REG_QOS_PRIORITY_VIRTUAL_CCA \<equiv> 0x1C3B40"
abbreviation (input) AR9170_MAC_REG_RTS_CTS_RATE where "AR9170_MAC_REG_RTS_CTS_RATE \<equiv> 0x1C3638"
abbreviation (input) AR9170_MAC_REG_RTS_CTS_TPC where "AR9170_MAC_REG_RTS_CTS_TPC \<equiv> 0x1C3BB4"
abbreviation (input) AR9170_MAC_REG_RX_CONTROL where "AR9170_MAC_REG_RX_CONTROL \<equiv> 0x1C3C40"
abbreviation (input) AR9170_MAC_REG_RX_OVERRUN where "AR9170_MAC_REG_RX_OVERRUN \<equiv> 0x1C36B0"
abbreviation (input) AR9170_MAC_REG_RX_TOTAL where "AR9170_MAC_REG_RX_TOTAL \<equiv> 0x1C36A0"
abbreviation (input) AR9170_MAC_REG_TSF_H where "AR9170_MAC_REG_TSF_H \<equiv> 0x1C3518"
abbreviation (input) AR9170_MAC_REG_TSF_L where "AR9170_MAC_REG_TSF_L \<equiv> 0x1C3514"
abbreviation (input) AR9170_MAC_RX_CTRL_DEAGG where "AR9170_MAC_RX_CTRL_DEAGG \<equiv> 1"
abbreviation (input) AR9170_MAC_VIRTUAL_CCA_ALL where "AR9170_MAC_VIRTUAL_CCA_ALL \<equiv> 0xF8000"
abbreviation (input) AR9170_PTA_DMA_MODE_CTRL_DISABLE_USB where "AR9170_PTA_DMA_MODE_CTRL_DISABLE_USB \<equiv> 2"
abbreviation (input) AR9170_PTA_DMA_MODE_CTRL_RESET where "AR9170_PTA_DMA_MODE_CTRL_RESET \<equiv> 1"
abbreviation (input) AR9170_PTA_INT_FLAG_DN where "AR9170_PTA_INT_FLAG_DN \<equiv> 1"
abbreviation (input) AR9170_PTA_INT_FLAG_UP where "AR9170_PTA_INT_FLAG_UP \<equiv> 2"
abbreviation (input) AR9170_PTA_REG_DMA_MODE_CTRL where "AR9170_PTA_REG_DMA_MODE_CTRL \<equiv> 0x1E2148"
abbreviation (input) AR9170_PTA_REG_DMA_STATUS where "AR9170_PTA_REG_DMA_STATUS \<equiv> 0x1E2134"
abbreviation (input) AR9170_PTA_REG_DN_CURR_ADDRH where "AR9170_PTA_REG_DN_CURR_ADDRH \<equiv> 0x1E213C"
abbreviation (input) AR9170_PTA_REG_DN_CURR_ADDRL where "AR9170_PTA_REG_DN_CURR_ADDRL \<equiv> 0x1E2138"
abbreviation (input) AR9170_PTA_REG_DN_DMA_ADDRH where "AR9170_PTA_REG_DN_DMA_ADDRH \<equiv> 0x1E210C"
abbreviation (input) AR9170_PTA_REG_DN_DMA_ADDRL where "AR9170_PTA_REG_DN_DMA_ADDRL \<equiv> 0x1E2108"
abbreviation (input) AR9170_PTA_REG_DN_DMA_TRIGGER where "AR9170_PTA_REG_DN_DMA_TRIGGER \<equiv> 0x1E212C"
abbreviation (input) AR9170_PTA_REG_INT_FLAG where "AR9170_PTA_REG_INT_FLAG \<equiv> 0x1E2100"
abbreviation (input) AR9170_PTA_REG_UP_DMA_ADDRH where "AR9170_PTA_REG_UP_DMA_ADDRH \<equiv> 0x1E2114"
abbreviation (input) AR9170_PTA_REG_UP_DMA_ADDRL where "AR9170_PTA_REG_UP_DMA_ADDRL \<equiv> 0x1E2110"
abbreviation (input) AR9170_PTA_REG_UP_DMA_TRIGGER where "AR9170_PTA_REG_UP_DMA_TRIGGER \<equiv> 0x1E2130"
abbreviation (input) AR9170_PWR_PLL_ADDAC_DIV where "AR9170_PWR_PLL_ADDAC_DIV \<equiv> 0xFFC"
abbreviation (input) AR9170_PWR_PLL_ADDAC_DIV_S where "AR9170_PWR_PLL_ADDAC_DIV_S \<equiv> 2"
abbreviation (input) AR9170_PWR_REG_BASE where "AR9170_PWR_REG_BASE \<equiv> 0x1D4000"
abbreviation (input) AR9170_PWR_REG_CLOCK_SEL where "AR9170_PWR_REG_CLOCK_SEL \<equiv> 0x1D4008"
abbreviation (input) AR9170_PWR_REG_PLL_ADDAC where "AR9170_PWR_REG_PLL_ADDAC \<equiv> 0x1D4014"
abbreviation (input) AR9170_PWR_REG_RESET where "AR9170_PWR_REG_RESET \<equiv> 0x1D4004"
abbreviation (input) AR9170_PWR_REG_WATCH_DOG_MAGIC where "AR9170_PWR_REG_WATCH_DOG_MAGIC \<equiv> 0x1D4020"
abbreviation (input) AR9170_PWR_RESET_COMMIT_RESET_MASK where "AR9170_PWR_RESET_COMMIT_RESET_MASK \<equiv> 1"
abbreviation (input) AR9170_PWR_RESET_DMA_MASK where "AR9170_PWR_RESET_DMA_MASK \<equiv> 4"
abbreviation (input) AR9170_PWR_RESET_WLAN_MASK where "AR9170_PWR_RESET_WLAN_MASK \<equiv> 2"
abbreviation (input) AR9170_RAND_REG_NUM where "AR9170_RAND_REG_NUM \<equiv> 0x1D0000"
abbreviation (input) AR9170_TIMER_REG_CLOCK_HIGH where "AR9170_TIMER_REG_CLOCK_HIGH \<equiv> 0x1C1044"
abbreviation (input) AR9170_TIMER_REG_CLOCK_LOW where "AR9170_TIMER_REG_CLOCK_LOW \<equiv> 0x1C1040"
abbreviation (input) AR9170_TIMER_REG_CONTROL where "AR9170_TIMER_REG_CONTROL \<equiv> 0x1C1024"
abbreviation (input) AR9170_TIMER_REG_INTERRUPT where "AR9170_TIMER_REG_INTERRUPT \<equiv> 0x1C1028"
abbreviation (input) AR9170_TIMER_REG_TIMER0 where "AR9170_TIMER_REG_TIMER0 \<equiv> 0x1C1010"
abbreviation (input) AR9170_TIMER_REG_WATCH_DOG where "AR9170_TIMER_REG_WATCH_DOG \<equiv> 0x1C1000"
abbreviation (input) AR9170_UART_LINE_STS_TRANSMITTER_EMPTY where "AR9170_UART_LINE_STS_TRANSMITTER_EMPTY \<equiv> 0x40"
abbreviation (input) AR9170_UART_LINE_STS_TX_FIFO_NEAR_EMPTY where "AR9170_UART_LINE_STS_TX_FIFO_NEAR_EMPTY \<equiv> 0x20"
abbreviation (input) AR9170_UART_REG_DIVISOR_LSB where "AR9170_UART_REG_DIVISOR_LSB \<equiv> 0x1C0028"
abbreviation (input) AR9170_UART_REG_LINE_STATUS where "AR9170_UART_REG_LINE_STATUS \<equiv> 0x1C001C"
abbreviation (input) AR9170_UART_REG_REMAINDER where "AR9170_UART_REG_REMAINDER \<equiv> 0x1C004C"
abbreviation (input) AR9170_UART_REG_TX_HOLDING where "AR9170_UART_REG_TX_HOLDING \<equiv> 0x1C0004"
abbreviation (input) AR9170_USB_DEVICE_ADDRESS_CONFIGURE where "AR9170_USB_DEVICE_ADDRESS_CONFIGURE \<equiv> 0x80"
abbreviation (input) AR9170_USB_DMA_CTL_DOWN_STREAM where "AR9170_USB_DMA_CTL_DOWN_STREAM \<equiv> 0x40"
abbreviation (input) AR9170_USB_DMA_CTL_ENABLE_FROM_DEVICE where "AR9170_USB_DMA_CTL_ENABLE_FROM_DEVICE \<equiv> 2"
abbreviation (input) AR9170_USB_DMA_CTL_ENABLE_TO_DEVICE where "AR9170_USB_DMA_CTL_ENABLE_TO_DEVICE \<equiv> 1"
abbreviation (input) AR9170_USB_DMA_CTL_HIGH_SPEED where "AR9170_USB_DMA_CTL_HIGH_SPEED \<equiv> 4"
abbreviation (input) AR9170_USB_DMA_CTL_UP_PACKET_MODE where "AR9170_USB_DMA_CTL_UP_PACKET_MODE \<equiv> 8"
abbreviation (input) AR9170_USB_DMA_CTL_UP_STREAM_8K where "AR9170_USB_DMA_CTL_UP_STREAM_8K \<equiv> 0x10"
abbreviation (input) AR9170_USB_EP_CMD where "AR9170_USB_EP_CMD \<equiv> 4"
abbreviation (input) AR9170_USB_EP_IN_STALL where "AR9170_USB_EP_IN_STALL \<equiv> 8"
abbreviation (input) AR9170_USB_EP_IN_TOGGLE where "AR9170_USB_EP_IN_TOGGLE \<equiv> 0x10"
abbreviation (input) AR9170_USB_EP_IRQ where "AR9170_USB_EP_IRQ \<equiv> 3"
abbreviation (input) AR9170_USB_EP_OUT_STALL where "AR9170_USB_EP_OUT_STALL \<equiv> 8"
abbreviation (input) AR9170_USB_EP_OUT_TOGGLE where "AR9170_USB_EP_OUT_TOGGLE \<equiv> 0x10"
abbreviation (input) AR9170_USB_EP_RX where "AR9170_USB_EP_RX \<equiv> 2"
abbreviation (input) AR9170_USB_EP_TX where "AR9170_USB_EP_TX \<equiv> 1"
abbreviation (input) AR9170_USB_INTR_DISABLE_IN_INT where "AR9170_USB_INTR_DISABLE_IN_INT \<equiv> 0x40"
abbreviation (input) AR9170_USB_INTR_DISABLE_OUT_INT where "AR9170_USB_INTR_DISABLE_OUT_INT \<equiv> 0xC0"
abbreviation (input) AR9170_USB_INTR_SRC0_ABORT where "AR9170_USB_INTR_SRC0_ABORT \<equiv> 0x80"
abbreviation (input) AR9170_USB_INTR_SRC0_END where "AR9170_USB_INTR_SRC0_END \<equiv> 0x10"
abbreviation (input) AR9170_USB_INTR_SRC0_FAIL where "AR9170_USB_INTR_SRC0_FAIL \<equiv> 8"
abbreviation (input) AR9170_USB_INTR_SRC0_IN where "AR9170_USB_INTR_SRC0_IN \<equiv> 2"
abbreviation (input) AR9170_USB_INTR_SRC0_OUT where "AR9170_USB_INTR_SRC0_OUT \<equiv> 4"
abbreviation (input) AR9170_USB_INTR_SRC0_SETUP where "AR9170_USB_INTR_SRC0_SETUP \<equiv> 1"
abbreviation (input) AR9170_USB_INTR_SRC7_RX0BYTE where "AR9170_USB_INTR_SRC7_RX0BYTE \<equiv> 0x80"
abbreviation (input) AR9170_USB_INTR_SRC7_TX0BYTE where "AR9170_USB_INTR_SRC7_TX0BYTE \<equiv> 0x40"
abbreviation (input) AR9170_USB_INTR_SRC7_USB_RESET where "AR9170_USB_INTR_SRC7_USB_RESET \<equiv> 2"
abbreviation (input) AR9170_USB_INTR_SRC7_USB_RESUME where "AR9170_USB_INTR_SRC7_USB_RESUME \<equiv> 8"
abbreviation (input) AR9170_USB_INTR_SRC7_USB_SUSPEND where "AR9170_USB_INTR_SRC7_USB_SUSPEND \<equiv> 4"
abbreviation (input) AR9170_USB_MAIN_CTRL_ENABLE_GLOBAL_INT where "AR9170_USB_MAIN_CTRL_ENABLE_GLOBAL_INT \<equiv> 4"
abbreviation (input) AR9170_USB_MAIN_CTRL_GO_TO_SUSPEND where "AR9170_USB_MAIN_CTRL_GO_TO_SUSPEND \<equiv> 8"
abbreviation (input) AR9170_USB_MAIN_CTRL_HIGHSPEED where "AR9170_USB_MAIN_CTRL_HIGHSPEED \<equiv> 0x40"
abbreviation (input) AR9170_USB_MAIN_CTRL_REMOTE_WAKEUP where "AR9170_USB_MAIN_CTRL_REMOTE_WAKEUP \<equiv> 1"
abbreviation (input) AR9170_USB_NUM_EXTRA_EP where "AR9170_USB_NUM_EXTRA_EP \<equiv> 4"
abbreviation (input) AR9170_USB_REG_CX_CONFIG_STATUS where "AR9170_USB_REG_CX_CONFIG_STATUS \<equiv> 0x1E100B"
abbreviation (input) AR9170_USB_REG_DEVICE_ADDRESS where "AR9170_USB_REG_DEVICE_ADDRESS \<equiv> 0x1E1001"
abbreviation (input) AR9170_USB_REG_DMA_CTL where "AR9170_USB_REG_DMA_CTL \<equiv> 0x1E1108"
abbreviation (input) AR9170_USB_REG_EP0_DATA where "AR9170_USB_REG_EP0_DATA \<equiv> 0x1E100C"
abbreviation (input) AR9170_USB_REG_EP3_BYTE_COUNT_HIGH where "AR9170_USB_REG_EP3_BYTE_COUNT_HIGH \<equiv> 0x1E10AE"
abbreviation (input) AR9170_USB_REG_EP4_BYTE_COUNT_HIGH where "AR9170_USB_REG_EP4_BYTE_COUNT_HIGH \<equiv> 0x1E10AF"
abbreviation (input) AR9170_USB_REG_EP4_BYTE_COUNT_LOW where "AR9170_USB_REG_EP4_BYTE_COUNT_LOW \<equiv> 0x1E10BF"
abbreviation (input) AR9170_USB_REG_EP4_DATA where "AR9170_USB_REG_EP4_DATA \<equiv> 0x1E10FC"
abbreviation (input) AR9170_USB_REG_EP_IN_MAX_SIZE_HIGH where "AR9170_USB_REG_EP_IN_MAX_SIZE_HIGH \<equiv> 0x1E103F"
abbreviation (input) AR9170_USB_REG_EP_IN_MAX_SIZE_LOW where "AR9170_USB_REG_EP_IN_MAX_SIZE_LOW \<equiv> 0x1E103E"
abbreviation (input) AR9170_USB_REG_EP_MAP where "AR9170_USB_REG_EP_MAP \<equiv> 0x1E1030"
abbreviation (input) AR9170_USB_REG_EP_OUT_MAX_SIZE_HIGH where "AR9170_USB_REG_EP_OUT_MAX_SIZE_HIGH \<equiv> 0x1E105F"
abbreviation (input) AR9170_USB_REG_FIFO_CONFIG where "AR9170_USB_REG_FIFO_CONFIG \<equiv> 0x1E1090"
abbreviation (input) AR9170_USB_REG_FIFO_MAP where "AR9170_USB_REG_FIFO_MAP \<equiv> 0x1E1080"
abbreviation (input) AR9170_USB_REG_FIFO_SIZE where "AR9170_USB_REG_FIFO_SIZE \<equiv> 0x1E1100"
abbreviation (input) AR9170_USB_REG_INTR_GROUP where "AR9170_USB_REG_INTR_GROUP \<equiv> 0x1E1020"
abbreviation (input) AR9170_USB_REG_INTR_MASK_BYTE_4 where "AR9170_USB_REG_INTR_MASK_BYTE_4 \<equiv> 0x1E1015"
abbreviation (input) AR9170_USB_REG_INTR_MASK_BYTE_6 where "AR9170_USB_REG_INTR_MASK_BYTE_6 \<equiv> 0x1E1017"
abbreviation (input) AR9170_USB_REG_INTR_SOURCE_0 where "AR9170_USB_REG_INTR_SOURCE_0 \<equiv> 0x1E1021"
abbreviation (input) AR9170_USB_REG_INTR_SOURCE_7 where "AR9170_USB_REG_INTR_SOURCE_7 \<equiv> 0x1E1028"
abbreviation (input) AR9170_USB_REG_MAIN_CTRL where "AR9170_USB_REG_MAIN_CTRL \<equiv> 0x1E1000"
abbreviation (input) AR9170_USB_REG_MAX_AGG_UPLOAD where "AR9170_USB_REG_MAX_AGG_UPLOAD \<equiv> 0x1E1110"
abbreviation (input) AR9170_USB_REG_UPLOAD_TIME_CTL where "AR9170_USB_REG_UPLOAD_TIME_CTL \<equiv> 0x1E1114"
abbreviation (input) AR9170_USB_REG_WAKE_UP where "AR9170_USB_REG_WAKE_UP \<equiv> 0x1E1120"
abbreviation (input) AR9170_USB_WAKE_UP_WAKE where "AR9170_USB_WAKE_UP_WAKE \<equiv> 1"

subsection \<open>include/shared/wlan.h\<close>

abbreviation (input) AR9170_RX_ERROR_DECRYPT where "AR9170_RX_ERROR_DECRYPT \<equiv> 4"
abbreviation (input) AR9170_RX_ERROR_FCS where "AR9170_RX_ERROR_FCS \<equiv> 8"
abbreviation (input) AR9170_RX_ERROR_PLCP where "AR9170_RX_ERROR_PLCP \<equiv> 0x20"
abbreviation (input) AR9170_RX_ERROR_WRONG_RA where "AR9170_RX_ERROR_WRONG_RA \<equiv> 0x10"
abbreviation (input) AR9170_RX_HEAD_LEN where "AR9170_RX_HEAD_LEN \<equiv> 0xC"
abbreviation (input) AR9170_RX_MACSTATUS_LEN where "AR9170_RX_MACSTATUS_LEN \<equiv> 4"
abbreviation (input) AR9170_RX_PHYSTATUS_LEN where "AR9170_RX_PHYSTATUS_LEN \<equiv> 0x14"
abbreviation (input) AR9170_RX_PHY_RATE_CCK_11M where "AR9170_RX_PHY_RATE_CCK_11M \<equiv> 0x6E"
abbreviation (input) AR9170_RX_PHY_RATE_CCK_2M where "AR9170_RX_PHY_RATE_CCK_2M \<equiv> 0x14"
abbreviation (input) AR9170_RX_PHY_RATE_CCK_5M where "AR9170_RX_PHY_RATE_CCK_5M \<equiv> 0x37"
abbreviation (input) AR9170_RX_STATUS_MODULATION where "AR9170_RX_STATUS_MODULATION \<equiv> 3"
abbreviation (input) AR9170_RX_STATUS_MODULATION_CCK where "AR9170_RX_STATUS_MODULATION_CCK \<equiv> 0"
abbreviation (input) AR9170_RX_STATUS_MODULATION_HT where "AR9170_RX_STATUS_MODULATION_HT \<equiv> 2"
abbreviation (input) AR9170_RX_STATUS_MPDU where "AR9170_RX_STATUS_MPDU \<equiv> 0x30"
abbreviation (input) AR9170_RX_STATUS_MPDU_FIRST where "AR9170_RX_STATUS_MPDU_FIRST \<equiv> 0x20"
abbreviation (input) AR9170_RX_STATUS_MPDU_LAST where "AR9170_RX_STATUS_MPDU_LAST \<equiv> 0x10"
abbreviation (input) AR9170_RX_STATUS_MPDU_SINGLE where "AR9170_RX_STATUS_MPDU_SINGLE \<equiv> 0"
abbreviation (input) AR9170_RX_STATUS_SHORT_PREAMBLE where "AR9170_RX_STATUS_SHORT_PREAMBLE \<equiv> 8"
abbreviation (input) AR9170_TXQ_VO where "AR9170_TXQ_VO \<equiv> 3"
abbreviation (input) AR9170_TXRX_PHY_RATE_OFDM_6M where "AR9170_TXRX_PHY_RATE_OFDM_6M \<equiv> 0xB"
abbreviation (input) AR9170_TX_MAC_PROT_RTS where "AR9170_TX_MAC_PROT_RTS \<equiv> 1"
abbreviation (input) AR9170_TX_PHY_BW_20MHZ where "AR9170_TX_PHY_BW_20MHZ \<equiv> 0"
abbreviation (input) AR9170_TX_PHY_MOD_OFDM where "AR9170_TX_PHY_MOD_OFDM \<equiv> 1"
abbreviation (input) AR9170_TX_PHY_RATE_CCK_11M where "AR9170_TX_PHY_RATE_CCK_11M \<equiv> 3"
abbreviation (input) AR9170_TX_PHY_RATE_CCK_1M where "AR9170_TX_PHY_RATE_CCK_1M \<equiv> 0"
abbreviation (input) AR9170_TX_PHY_RATE_CCK_2M where "AR9170_TX_PHY_RATE_CCK_2M \<equiv> 1"
abbreviation (input) AR9170_TX_PHY_RATE_CCK_5M where "AR9170_TX_PHY_RATE_CCK_5M \<equiv> 2"
abbreviation (input) AR9170_TX_PHY_TXCHAIN_1 where "AR9170_TX_PHY_TXCHAIN_1 \<equiv> 1"
abbreviation (input) AR9170_TX_PHY_TXCHAIN_2 where "AR9170_TX_PHY_TXCHAIN_2 \<equiv> 5"

subsection \<open>include/shared/fwcmd.h\<close>

abbreviation (input) CARL9170FW_PHY_HT_DYN2040 where "CARL9170FW_PHY_HT_DYN2040 \<equiv> 8"
abbreviation (input) CARL9170FW_PHY_HT_ENABLE where "CARL9170FW_PHY_HT_ENABLE \<equiv> 4"
abbreviation (input) CARL9170_BCN_CTRL_CAB_TRIGGER where "CARL9170_BCN_CTRL_CAB_TRIGGER \<equiv> 1"
abbreviation (input) CARL9170_CMD_ASYNC_FLAG where "CARL9170_CMD_ASYNC_FLAG \<equiv> 0x40"
abbreviation (input) CARL9170_CMD_BCN_CTRL where "CARL9170_CMD_BCN_CTRL \<equiv> 5"
abbreviation (input) CARL9170_CMD_DKEY where "CARL9170_CMD_DKEY \<equiv> 0x11"
abbreviation (input) CARL9170_CMD_ECHO where "CARL9170_CMD_ECHO \<equiv> 2"
abbreviation (input) CARL9170_CMD_EKEY where "CARL9170_CMD_EKEY \<equiv> 0x10"
abbreviation (input) CARL9170_CMD_FREQUENCY where "CARL9170_CMD_FREQUENCY \<equiv> 0x20"
abbreviation (input) CARL9170_CMD_FREQ_START where "CARL9170_CMD_FREQ_START \<equiv> 0x23"
abbreviation (input) CARL9170_CMD_PSM where "CARL9170_CMD_PSM \<equiv> 0x24"
abbreviation (input) CARL9170_CMD_READ_TSF where "CARL9170_CMD_READ_TSF \<equiv> 6"
abbreviation (input) CARL9170_CMD_REBOOT where "CARL9170_CMD_REBOOT \<equiv> 4"
abbreviation (input) CARL9170_CMD_RF_INIT where "CARL9170_CMD_RF_INIT \<equiv> 0x21"
abbreviation (input) CARL9170_CMD_RREG where "CARL9170_CMD_RREG \<equiv> 0"
abbreviation (input) CARL9170_CMD_RX_FILTER where "CARL9170_CMD_RX_FILTER \<equiv> 7"
abbreviation (input) CARL9170_CMD_SWRST where "CARL9170_CMD_SWRST \<equiv> 3"
abbreviation (input) CARL9170_CMD_TALLY where "CARL9170_CMD_TALLY \<equiv> 9"
abbreviation (input) CARL9170_CMD_WOL where "CARL9170_CMD_WOL \<equiv> 8"
abbreviation (input) CARL9170_CMD_WREG where "CARL9170_CMD_WREG \<equiv> 1"
abbreviation (input) CARL9170_CMD_WREGB where "CARL9170_CMD_WREGB \<equiv> 0xA"
abbreviation (input) CARL9170_MAX_CMD_PAYLOAD_LEN where "CARL9170_MAX_CMD_PAYLOAD_LEN \<equiv> 0x3C"
abbreviation (input) CARL9170_PSM_SLEEP where "CARL9170_PSM_SLEEP \<equiv> 0x1000"
abbreviation (input) CARL9170_PSM_SOFTWARE where "CARL9170_PSM_SOFTWARE \<equiv> 0"
abbreviation (input) CARL9170_PSM_WAKE where "CARL9170_PSM_WAKE \<equiv> 0"
abbreviation (input) CARL9170_RSP_ATIM where "CARL9170_RSP_ATIM \<equiv> 0xC3"
abbreviation (input) CARL9170_RSP_BEACON_CONFIG where "CARL9170_RSP_BEACON_CONFIG \<equiv> 0xC2"
abbreviation (input) CARL9170_RSP_BOOT where "CARL9170_RSP_BOOT \<equiv> 0xCF"
abbreviation (input) CARL9170_RSP_GPIO where "CARL9170_RSP_GPIO \<equiv> 0xCE"
abbreviation (input) CARL9170_RSP_HEXDUMP where "CARL9170_RSP_HEXDUMP \<equiv> 0xCC"
abbreviation (input) CARL9170_RSP_PRETBTT where "CARL9170_RSP_PRETBTT \<equiv> 0xC0"
abbreviation (input) CARL9170_RSP_TEXT where "CARL9170_RSP_TEXT \<equiv> 0xCA"
abbreviation (input) CARL9170_RSP_TXCOMP where "CARL9170_RSP_TXCOMP \<equiv> 0xC1"
abbreviation (input) CARL9170_RSP_TX_STATUS_NUM where "CARL9170_RSP_TX_STATUS_NUM \<equiv> 0x1E"
abbreviation (input) CARL9170_RX_FILTER_BAD where "CARL9170_RX_FILTER_BAD \<equiv> 1"
abbreviation (input) CARL9170_RX_FILTER_CTL_BACKR where "CARL9170_RX_FILTER_CTL_BACKR \<equiv> 0x20"
abbreviation (input) CARL9170_RX_FILTER_CTL_OTHER where "CARL9170_RX_FILTER_CTL_OTHER \<equiv> 8"
abbreviation (input) CARL9170_RX_FILTER_CTL_PSPOLL where "CARL9170_RX_FILTER_CTL_PSPOLL \<equiv> 0x10"
abbreviation (input) CARL9170_RX_FILTER_DATA where "CARL9170_RX_FILTER_DATA \<equiv> 0x80"
abbreviation (input) CARL9170_RX_FILTER_DECRY_FAIL where "CARL9170_RX_FILTER_DECRY_FAIL \<equiv> 4"
abbreviation (input) CARL9170_RX_FILTER_EVERYTHING where "CARL9170_RX_FILTER_EVERYTHING \<equiv> 0xFFFFFFFF"
abbreviation (input) CARL9170_RX_FILTER_MGMT where "CARL9170_RX_FILTER_MGMT \<equiv> 0x40"
abbreviation (input) CARL9170_RX_FILTER_OTHER_RA where "CARL9170_RX_FILTER_OTHER_RA \<equiv> 2"
abbreviation (input) CARL9170_TX_MAX_RATE_TRIES where "CARL9170_TX_MAX_RATE_TRIES \<equiv> 7"
abbreviation (input) CARL9170_TX_MAX_RETRY_RATES where "CARL9170_TX_MAX_RETRY_RATES \<equiv> 3"
abbreviation (input) CARL9170_WOL_DISCONNECT where "CARL9170_WOL_DISCONNECT \<equiv> 1"
abbreviation (input) CARL9170_WOL_MAGIC_PKT where "CARL9170_WOL_MAGIC_PKT \<equiv> 2"

subsection \<open>include/shared/phy.h\<close>

abbreviation (input) AR9170_PHY_ACTIVE_DIS where "AR9170_PHY_ACTIVE_DIS \<equiv> 0"
abbreviation (input) AR9170_PHY_ACTIVE_EN where "AR9170_PHY_ACTIVE_EN \<equiv> 1"
abbreviation (input) AR9170_PHY_ADC_CTL_OFF_PWDADC where "AR9170_PHY_ADC_CTL_OFF_PWDADC \<equiv> 0x8000"
abbreviation (input) AR9170_PHY_ADC_CTL_OFF_PWDDAC where "AR9170_PHY_ADC_CTL_OFF_PWDDAC \<equiv> 0x2000"
abbreviation (input) AR9170_PHY_ADC_SCTL_SEL_EXTERNAL_RADIO where "AR9170_PHY_ADC_SCTL_SEL_EXTERNAL_RADIO \<equiv> 1"
abbreviation (input) AR9170_PHY_ADC_SCTL_SEL_INTERNAL_ADDAC where "AR9170_PHY_ADC_SCTL_SEL_INTERNAL_ADDAC \<equiv> 0"
abbreviation (input) AR9170_PHY_AGC_CONTROL_CAL where "AR9170_PHY_AGC_CONTROL_CAL \<equiv> 1"
abbreviation (input) AR9170_PHY_AGC_CONTROL_NF where "AR9170_PHY_AGC_CONTROL_NF \<equiv> 2"
abbreviation (input) AR9170_PHY_ANALOG_SWAP_AB where "AR9170_PHY_ANALOG_SWAP_AB \<equiv> 1"
abbreviation (input) AR9170_PHY_ANALOG_SWAP_ALT_CHAIN where "AR9170_PHY_ANALOG_SWAP_ALT_CHAIN \<equiv> 0x40"
abbreviation (input) AR9170_PHY_HALFGI_DSC_EXP where "AR9170_PHY_HALFGI_DSC_EXP \<equiv> 0xF"
abbreviation (input) AR9170_PHY_HALFGI_DSC_EXP_S where "AR9170_PHY_HALFGI_DSC_EXP_S \<equiv> 0"
abbreviation (input) AR9170_PHY_HALFGI_DSC_MAN where "AR9170_PHY_HALFGI_DSC_MAN \<equiv> 0x7FFF0"
abbreviation (input) AR9170_PHY_HALFGI_DSC_MAN_S where "AR9170_PHY_HALFGI_DSC_MAN_S \<equiv> 4"
abbreviation (input) AR9170_PHY_REG_ACTIVE where "AR9170_PHY_REG_ACTIVE \<equiv> 0x1C581C"
abbreviation (input) AR9170_PHY_REG_ADC_CTL where "AR9170_PHY_REG_ADC_CTL \<equiv> 0x1C582C"
abbreviation (input) AR9170_PHY_REG_ADC_SERIAL_CTL where "AR9170_PHY_REG_ADC_SERIAL_CTL \<equiv> 0x1C5830"
abbreviation (input) AR9170_PHY_REG_AGC_CONTROL where "AR9170_PHY_REG_AGC_CONTROL \<equiv> 0x1C5860"
abbreviation (input) AR9170_PHY_REG_ANALOG_SWAP where "AR9170_PHY_REG_ANALOG_SWAP \<equiv> 0x1C6268"
abbreviation (input) AR9170_PHY_REG_CCA_THRESHOLD where "AR9170_PHY_REG_CCA_THRESHOLD \<equiv> 0x1C5968"
abbreviation (input) AR9170_PHY_REG_HALFGI where "AR9170_PHY_REG_HALFGI \<equiv> 0x1C59D0"
abbreviation (input) AR9170_PHY_REG_SWITCH_CHAIN_0 where "AR9170_PHY_REG_SWITCH_CHAIN_0 \<equiv> 0x1C5960"
abbreviation (input) AR9170_PHY_REG_SWITCH_CHAIN_2 where "AR9170_PHY_REG_SWITCH_CHAIN_2 \<equiv> 0x1C7960"
abbreviation (input) AR9170_PHY_REG_TEST2 where "AR9170_PHY_REG_TEST2 \<equiv> 0x1C5808"
abbreviation (input) AR9170_PHY_REG_TIMING3 where "AR9170_PHY_REG_TIMING3 \<equiv> 0x1C5814"
abbreviation (input) AR9170_PHY_TIMING3_DSC_EXP where "AR9170_PHY_TIMING3_DSC_EXP \<equiv> 0x1E000"
abbreviation (input) AR9170_PHY_TIMING3_DSC_EXP_S where "AR9170_PHY_TIMING3_DSC_EXP_S \<equiv> 0xD"
abbreviation (input) AR9170_PHY_TIMING3_DSC_MAN where "AR9170_PHY_TIMING3_DSC_MAN \<equiv> 0xFFFE0000"
abbreviation (input) AR9170_PHY_TIMING3_DSC_MAN_S where "AR9170_PHY_TIMING3_DSC_MAN_S \<equiv> 0x11"

subsection \<open>carlfw/include/dma.h\<close>

abbreviation (input) AR9170_CTRL_BAFAIL where "AR9170_CTRL_BAFAIL \<equiv> 2"
abbreviation (input) AR9170_CTRL_FAIL where "AR9170_CTRL_FAIL \<equiv> 3"
abbreviation (input) AR9170_CTRL_FS_BIT where "AR9170_CTRL_FS_BIT \<equiv> 0x200"
abbreviation (input) AR9170_CTRL_LS_BIT where "AR9170_CTRL_LS_BIT \<equiv> 0x100"
abbreviation (input) AR9170_CTRL_TXFAIL where "AR9170_CTRL_TXFAIL \<equiv> 1"
abbreviation (input) AR9170_OWN_BITS where "AR9170_OWN_BITS \<equiv> 3"
abbreviation (input) AR9170_OWN_BITS_HW where "AR9170_OWN_BITS_HW \<equiv> 1"
abbreviation (input) AR9170_OWN_BITS_SW where "AR9170_OWN_BITS_SW \<equiv> 0"

subsection \<open>carlfw/include/cam.h\<close>

abbreviation (input) COUNTER_START_ADDR where "COUNTER_START_ADDR \<equiv> 0xA3"
abbreviation (input) DEFAULT_ENCRY_TYPE where "DEFAULT_ENCRY_TYPE \<equiv> 0x1A"
abbreviation (input) ENCRY_TYPE_START_ADDR where "ENCRY_TYPE_START_ADDR \<equiv> 0x18"
abbreviation (input) KEY_START_ADDR where "KEY_START_ADDR \<equiv> 0x1B"

subsection \<open>carlfw/include/config.h\<close>

abbreviation (input) CARL9170_GPIO_MASK where "CARL9170_GPIO_MASK \<equiv> 4"
abbreviation (input) CARL9170_INT_RQ_CACHES where "CARL9170_INT_RQ_CACHES \<equiv> 0x10"
abbreviation (input) CARL9170_TBTT_DELTA where "CARL9170_TBTT_DELTA \<equiv> 7"
abbreviation (input) CARL9170_TX_STATUS_NUM where "CARL9170_TX_STATUS_NUM \<equiv> 0x1E"
abbreviation (input) CONFIG_CARL9170FW_BACK_REQS_NUM where "CONFIG_CARL9170FW_BACK_REQS_NUM \<equiv> 4"
abbreviation (input) CONFIG_CARL9170FW_RX_FRAME_LEN where "CONFIG_CARL9170FW_RX_FRAME_LEN \<equiv> 0x2000"

subsection \<open>carlfw/include/carl9170.h\<close>

abbreviation (input) CARL9170_AWAKE_HOST where "CARL9170_AWAKE_HOST \<equiv> 2"
abbreviation (input) CARL9170_CAB_TRIGGER_ARMED where "CARL9170_CAB_TRIGGER_ARMED \<equiv> 1"
abbreviation (input) CARL9170_CAB_TRIGGER_DEFER where "CARL9170_CAB_TRIGGER_DEFER \<equiv> 2"
abbreviation (input) CARL9170_CAB_TRIGGER_EMPTY where "CARL9170_CAB_TRIGGER_EMPTY \<equiv> 0"
abbreviation (input) CARL9170_EP0_STALL where "CARL9170_EP0_STALL \<equiv> 1"
abbreviation (input) CARL9170_EP0_TRIGGER where "CARL9170_EP0_TRIGGER \<equiv> 2"
abbreviation (input) CARL9170_HOST_AWAKE where "CARL9170_HOST_AWAKE \<equiv> 0"
abbreviation (input) CARL9170_HOST_SUSPENDED where "CARL9170_HOST_SUSPENDED \<equiv> 1"
abbreviation (input) CARL9170_MAC_RESET_FORCE where "CARL9170_MAC_RESET_FORCE \<equiv> 3"
abbreviation (input) CARL9170_MAC_RESET_OFF where "CARL9170_MAC_RESET_OFF \<equiv> 0"
abbreviation (input) CARL9170_MAC_RESET_RESET where "CARL9170_MAC_RESET_RESET \<equiv> 2"
abbreviation (input) CARL9170_PHY_OFF where "CARL9170_PHY_OFF \<equiv> 0"
abbreviation (input) CARL9170_PHY_ON where "CARL9170_PHY_ON \<equiv> 1"

subsection \<open>include/linux/ieee80211.h\<close>

abbreviation (input) FCS_LEN where "FCS_LEN \<equiv> 4"
abbreviation (input) IEEE80211_BAR_CTRL_CBMTID_COMPRESSED_BA where "IEEE80211_BAR_CTRL_CBMTID_COMPRESSED_BA \<equiv> 4"
abbreviation (input) IEEE80211_BAR_CTRL_MULTI_TID where "IEEE80211_BAR_CTRL_MULTI_TID \<equiv> 2"
abbreviation (input) IEEE80211_FCTL_FROMDS where "IEEE80211_FCTL_FROMDS \<equiv> 0x200"
abbreviation (input) IEEE80211_FCTL_FTYPE where "IEEE80211_FCTL_FTYPE \<equiv> 0xC"
abbreviation (input) IEEE80211_FCTL_MOREDATA where "IEEE80211_FCTL_MOREDATA \<equiv> 0x2000"
abbreviation (input) IEEE80211_FCTL_ORDER where "IEEE80211_FCTL_ORDER \<equiv> 0x8000"
abbreviation (input) IEEE80211_FCTL_RETRY where "IEEE80211_FCTL_RETRY \<equiv> 0x800"
abbreviation (input) IEEE80211_FCTL_STYPE where "IEEE80211_FCTL_STYPE \<equiv> 0xF0"
abbreviation (input) IEEE80211_FCTL_TODS where "IEEE80211_FCTL_TODS \<equiv> 0x100"
abbreviation (input) IEEE80211_FTYPE_CTL where "IEEE80211_FTYPE_CTL \<equiv> 4"
abbreviation (input) IEEE80211_FTYPE_DATA where "IEEE80211_FTYPE_DATA \<equiv> 8"
abbreviation (input) IEEE80211_FTYPE_MGMT where "IEEE80211_FTYPE_MGMT \<equiv> 0"
abbreviation (input) IEEE80211_QOS_CTL_TID_MASK where "IEEE80211_QOS_CTL_TID_MASK \<equiv> 0xF"
abbreviation (input) IEEE80211_SCTL_FRAG where "IEEE80211_SCTL_FRAG \<equiv> 0xF"
abbreviation (input) IEEE80211_SCTL_SEQ where "IEEE80211_SCTL_SEQ \<equiv> 0xFFF0"
abbreviation (input) IEEE80211_STYPE_BACK where "IEEE80211_STYPE_BACK \<equiv> 0x90"
abbreviation (input) IEEE80211_STYPE_BACK_REQ where "IEEE80211_STYPE_BACK_REQ \<equiv> 0x80"
abbreviation (input) IEEE80211_STYPE_BEACON where "IEEE80211_STYPE_BEACON \<equiv> 0x80"
abbreviation (input) IEEE80211_STYPE_DEAUTH where "IEEE80211_STYPE_DEAUTH \<equiv> 0xC0"
abbreviation (input) IEEE80211_STYPE_DISASSOC where "IEEE80211_STYPE_DISASSOC \<equiv> 0xA0"
abbreviation (input) IEEE80211_STYPE_NULLFUNC where "IEEE80211_STYPE_NULLFUNC \<equiv> 0x40"
abbreviation (input) IEEE80211_STYPE_PROBE_REQ where "IEEE80211_STYPE_PROBE_REQ \<equiv> 0x40"
abbreviation (input) IEEE80211_STYPE_PSPOLL where "IEEE80211_STYPE_PSPOLL \<equiv> 0xA0"
abbreviation (input) IEEE80211_STYPE_QOS_DATA where "IEEE80211_STYPE_QOS_DATA \<equiv> 0x80"
abbreviation (input) WLAN_EID_SSID where "WLAN_EID_SSID \<equiv> 0"
abbreviation (input) WLAN_EID_TIM where "WLAN_EID_TIM \<equiv> 5"

subsection \<open>include/linux/ch9.h\<close>

abbreviation (input) USB_CLASS_VENDOR_SPEC where "USB_CLASS_VENDOR_SPEC \<equiv> 0xFF"
abbreviation (input) USB_CONFIG_ATT_ONE where "USB_CONFIG_ATT_ONE \<equiv> 0x80"
abbreviation (input) USB_CONFIG_ATT_WAKEUP where "USB_CONFIG_ATT_WAKEUP \<equiv> 0x20"
abbreviation (input) USB_DEVICE_REMOTE_WAKEUP where "USB_DEVICE_REMOTE_WAKEUP \<equiv> 1"
abbreviation (input) USB_DEVICE_SELF_POWERED where "USB_DEVICE_SELF_POWERED \<equiv> 0"
abbreviation (input) USB_DIR_IN where "USB_DIR_IN \<equiv> 0x80"
abbreviation (input) USB_DIR_MASK where "USB_DIR_MASK \<equiv> 0x80"
abbreviation (input) USB_DIR_OUT where "USB_DIR_OUT \<equiv> 0"
abbreviation (input) USB_DT_CONFIG where "USB_DT_CONFIG \<equiv> 2"
abbreviation (input) USB_DT_CONFIG_SIZE where "USB_DT_CONFIG_SIZE \<equiv> 9"
abbreviation (input) USB_DT_DEVICE where "USB_DT_DEVICE \<equiv> 1"
abbreviation (input) USB_DT_DEVICE_QUALIFIER where "USB_DT_DEVICE_QUALIFIER \<equiv> 6"
abbreviation (input) USB_DT_ENDPOINT where "USB_DT_ENDPOINT \<equiv> 5"
abbreviation (input) USB_DT_ENDPOINT_SIZE where "USB_DT_ENDPOINT_SIZE \<equiv> 7"
abbreviation (input) USB_DT_INTERFACE where "USB_DT_INTERFACE \<equiv> 4"
abbreviation (input) USB_DT_INTERFACE_SIZE where "USB_DT_INTERFACE_SIZE \<equiv> 9"
abbreviation (input) USB_DT_OTHER_SPEED_CONFIG where "USB_DT_OTHER_SPEED_CONFIG \<equiv> 7"
abbreviation (input) USB_DT_STRING where "USB_DT_STRING \<equiv> 3"
abbreviation (input) USB_ENDPOINT_XFER_BULK where "USB_ENDPOINT_XFER_BULK \<equiv> 2"
abbreviation (input) USB_ENDPOINT_XFER_INT where "USB_ENDPOINT_XFER_INT \<equiv> 3"
abbreviation (input) USB_RECIP_DEVICE where "USB_RECIP_DEVICE \<equiv> 0"
abbreviation (input) USB_RECIP_ENDPOINT where "USB_RECIP_ENDPOINT \<equiv> 2"
abbreviation (input) USB_RECIP_INTERFACE where "USB_RECIP_INTERFACE \<equiv> 1"
abbreviation (input) USB_RECIP_MASK where "USB_RECIP_MASK \<equiv> 0x1F"
abbreviation (input) USB_REQ_CLEAR_FEATURE where "USB_REQ_CLEAR_FEATURE \<equiv> 1"
abbreviation (input) USB_REQ_GET_CONFIGURATION where "USB_REQ_GET_CONFIGURATION \<equiv> 8"
abbreviation (input) USB_REQ_GET_DESCRIPTOR where "USB_REQ_GET_DESCRIPTOR \<equiv> 6"
abbreviation (input) USB_REQ_GET_INTERFACE where "USB_REQ_GET_INTERFACE \<equiv> 0xA"
abbreviation (input) USB_REQ_GET_STATUS where "USB_REQ_GET_STATUS \<equiv> 0"
abbreviation (input) USB_REQ_SET_ADDRESS where "USB_REQ_SET_ADDRESS \<equiv> 5"
abbreviation (input) USB_REQ_SET_CONFIGURATION where "USB_REQ_SET_CONFIGURATION \<equiv> 9"
abbreviation (input) USB_REQ_SET_FEATURE where "USB_REQ_SET_FEATURE \<equiv> 3"
abbreviation (input) USB_REQ_SET_INTERFACE where "USB_REQ_SET_INTERFACE \<equiv> 0xB"
abbreviation (input) USB_SUBCLASS_VENDOR_SPEC where "USB_SUBCLASS_VENDOR_SPEC \<equiv> 0xFF"
abbreviation (input) USB_TYPE_CLASS where "USB_TYPE_CLASS \<equiv> 0x20"
abbreviation (input) USB_TYPE_MASK where "USB_TYPE_MASK \<equiv> 0x60"
abbreviation (input) USB_TYPE_STANDARD where "USB_TYPE_STANDARD \<equiv> 0"
abbreviation (input) USB_TYPE_VENDOR where "USB_TYPE_VENDOR \<equiv> 0x40"

end
