(* ===== verification/Io.thy ===== *)
theory Io
  imports State Hw
begin

text \<open>Register access (carlfw/include/io.h), the TSF and queue address registers of
  carlfw/include/wl.h, the triggers of hostif.h and gpio.h and the USB register helpers of usb.h. A
  read returns the value and the state after it; a write returns the state.\<close>

definition set_reg :: "u32 \<Rightarrow> u32 \<Rightarrow> fw_state \<Rightarrow> fw_state" where
  "set_reg a v s = f_hw_update (\<lambda>h. h\<lparr>hw_regs := (hw_regs h)(a := v), hw_log := hw_log h @ [(a, v)]\<rparr>) s"

definition peek :: "u32 \<Rightarrow> fw_state \<Rightarrow> u32" where
  "peek a s = (case hw_dev (f_hw s) (hw_now (f_hw s)) a of None \<Rightarrow> hw_regs (f_hw s) a | Some v \<Rightarrow> v)"

definition tick :: "fw_state \<Rightarrow> fw_state" where
  "tick s = f_hw_update (\<lambda>h. h\<lparr>hw_now := Suc (hw_now h)\<rparr>) s"

definition get_reg :: "u32 \<Rightarrow> fw_state \<Rightarrow> u32 \<times> fw_state" where
  "get_reg a s = (peek a s, tick s)"

definition orl :: "u32 \<Rightarrow> u32 \<Rightarrow> fw_state \<Rightarrow> fw_state" where
  "orl a v s = (let (x, s) = get_reg a s in set_reg a (x OR v) s)"

definition andl :: "u32 \<Rightarrow> u32 \<Rightarrow> fw_state \<Rightarrow> fw_state" where
  "andl a v s = (let (x, s) = get_reg a s in set_reg a (x AND v) s)"

definition xorl :: "u32 \<Rightarrow> u32 \<Rightarrow> fw_state \<Rightarrow> fw_state" where
  "xorl a v s = (let (x, s) = get_reg a s in set_reg a (x XOR v) s)"

definition incl :: "u32 \<Rightarrow> fw_state \<Rightarrow> fw_state" where
  "incl a s = (let (x, s) = get_reg a s in set_reg a (x + 1) s)"

text \<open>Byte and halfword access to a register: the low bits of its value.\<close>

definition getb :: "u32 \<Rightarrow> fw_state \<Rightarrow> u8 \<times> fw_state" where
  "getb a s = (let (x, s) = get_reg a s in (ucast x, s))"

definition getw :: "u32 \<Rightarrow> fw_state \<Rightarrow> u16 \<times> fw_state" where
  "getw a s = (let (x, s) = get_reg a s in (ucast x, s))"

definition setb :: "u32 \<Rightarrow> u8 \<Rightarrow> fw_state \<Rightarrow> fw_state" where
  "setb a v s = set_reg a (hw_regs (f_hw s) a AND NOT 0xFF OR ucast v) s"

definition andb :: "u32 \<Rightarrow> u8 \<Rightarrow> fw_state \<Rightarrow> fw_state" where
  "andb a v s = (let (x, s) = getb a s in setb a (x AND v) s)"

definition orb :: "u32 \<Rightarrow> u32 \<Rightarrow> fw_state \<Rightarrow> fw_state" where
  "orb a v s = (let (x, s) = getb a s in setb a (ucast (ucast x OR v)) s)"

text \<open>\<^verbatim>\<open>readl_async\<close>: the do-while loop reads until a read equals the first one or eleven reads
  were made. Its first argument is \<^verbatim>\<open>i\<close>.\<close>

function readl_async_loop :: "nat \<Rightarrow> u32 \<Rightarrow> u32 \<Rightarrow> fw_state \<Rightarrow> u32 \<times> fw_state" where
  "readl_async_loop i read a s =
     (let (tmp, s) = get_reg a s; i = i + 1
      in if tmp \<noteq> read \<and> i \<le> 10 then readl_async_loop i read a s else (read, s))"
  by auto
termination by (relation "measure (\<lambda>(i, _). 11 - i)") auto

declare readl_async_loop.simps [simp del]

definition readl_async :: "u32 \<Rightarrow> fw_state \<Rightarrow> u32 \<times> fw_state" where
  "readl_async a s = (let (read, s) = get_reg a s in readl_async_loop 0 read a s)"

definition get_async :: "u32 \<Rightarrow> fw_state \<Rightarrow> u32 \<times> fw_state" where
  "get_async a s = readl_async a s"

subsection \<open>What a register access changes\<close>

text \<open>Everything but the registers is the same in both states; \<^verbatim>\<open>same_core\<close> is the frame of the
  register operations.\<close>

definition same_core :: "fw_state \<Rightarrow> fw_state \<Rightarrow> bool" where
  "same_core s t \<longleftrightarrow> (\<exists>h. t = s\<lparr>f_hw := h\<rparr> \<and> hw_dev h = hw_dev (f_hw s))"

lemma same_coreI: "hw_dev h = hw_dev (f_hw s) \<Longrightarrow> same_core s (s\<lparr>f_hw := h\<rparr>)"
  by (auto simp: same_core_def)

lemma same_core_updateI: "hw_dev (g (f_hw s)) = hw_dev (f_hw s) \<Longrightarrow> same_core s (f_hw_update g s)"
  by (cases s) (auto simp: same_core_def)

lemma same_core_refl [simp]: "same_core s s"
  using same_coreI [of "f_hw s" s] by simp

lemma same_core_trans: "same_core s t \<Longrightarrow> same_core t u \<Longrightarrow> same_core s u"
  by (auto simp: same_core_def)

lemma same_core_set_reg [simp]: "same_core s (set_reg a v s)"
  by (simp add: set_reg_def same_core_updateI)

lemma same_core_setb [simp]: "same_core s (setb a v s)"
  by (simp add: setb_def)

lemma same_core_tick [simp]: "same_core s (tick s)"
  by (simp add: tick_def same_core_updateI)

lemma fields_same_core:
  assumes "same_core s t"
  shows "f_ticks_per_usec t = f_ticks_per_usec s" "f_counter t = f_counter s"
    "f_watchdog_enable t = f_watchdog_enable s" "f_reboot t = f_reboot s"
    "f_suspend_mode t = f_suspend_mode s" "f_wlan t = f_wlan s" "f_usb t = f_usb s"
    "f_phy t = f_phy s" "f_tally_clock t = f_tally_clock s" "f_tally t = f_tally s"
    "f_tx_time t = f_tx_time s" "f_wol t = f_wol s" "f_cached_gpio t = f_cached_gpio s" "f_printf_uc t = f_printf_uc s"
    "f_queues t = f_queues s" "f_descs t = f_descs s" "f_supers t = f_supers s" "f_ram t = f_ram s"
    "f_cfg t = f_cfg s" "f_messages t = f_messages s" "hw_dev (f_hw t) = hw_dev (f_hw s)"
  using assms by (auto simp: same_core_def)

end
