(* ===== verification/Dma.thy ===== *)
theory Dma
  imports Io
begin

text \<open>The DMA descriptor queues (carlfw/src/dma.c, carlfw/include/dma.h): a queue is a chain of
  descriptors from \<^verbatim>\<open>head\<close> to \<^verbatim>\<open>terminator\<close>, cut into packets by \<^verbatim>\<open>lastAddr\<close>. The operations are
  first given on a descriptor memory and one queue, with the abstraction \<^verbatim>\<open>queue_ok\<close> to a list of
  packets and the refinement lemmas, then lifted to the firmware state.\<close>

subsection \<open>Operations\<close>

definition clear_descriptor :: "u32 \<Rightarrow> desc_heap \<Rightarrow> desc_heap" where
  "clear_descriptor d h = h(d := \<lparr> dd_status = AR9170_OWN_BITS_SW, dd_ctrl = 0, dd_dataSize = 0,
     dd_totalLen = 0, dd_lastAddr = d, dd_dataAddr = 0, dd_nextAddr = d \<rparr>)"

definition fill_descriptor :: "u32 \<Rightarrow> u16 \<Rightarrow> u32 \<Rightarrow> desc_heap \<Rightarrow> desc_heap" where
  "fill_descriptor d sz data h = h(d := \<lparr> dd_status = AR9170_OWN_BITS_SW, dd_ctrl = 0,
     dd_dataSize = sz, dd_totalLen = 0, dd_lastAddr = d, dd_dataAddr = data, dd_nextAddr = 0 \<rparr>)"

definition init_queue :: "u32 \<Rightarrow> dma_queue" where
  "init_queue d = \<lparr> q_head = d, q_terminator = d \<rparr>"

definition queue_empty :: "dma_queue \<Rightarrow> bool" where
  "queue_empty q \<longleftrightarrow> q_head q = q_terminator q"

definition is_terminator :: "dma_queue \<Rightarrow> u32 \<Rightarrow> bool" where
  "is_terminator q d \<longleftrightarrow> q_terminator q = d"

definition reclaim_mark :: "u32 \<Rightarrow> dma_desc \<Rightarrow> dma_desc" where
  "reclaim_mark d x = x\<lparr> dd_status := AR9170_OWN_BITS_HW, dd_ctrl := 0, dd_totalLen := 0,
     dd_dataSize := of_nat AR9170_BLOCK_SIZE, dd_lastAddr := d \<rparr>"

partial_function (option) reclaim_loop ::
    "u32 \<Rightarrow> u32 \<Rightarrow> desc_heap \<Rightarrow> (u32 \<times> desc_heap) option" where
  "reclaim_loop tmp lst h =
     (let h = h(tmp := reclaim_mark tmp (h tmp))
      in if tmp = lst then Some (tmp, h) else reclaim_loop (dd_nextAddr (h tmp)) lst h)"

text \<open>Steps 3 to 5 of both operations: the first descriptor's content moves to the terminator, and
  the first descriptor becomes the new terminator.\<close>

definition swap_terminator :: "u16 \<Rightarrow> dma_queue \<Rightarrow> u32 \<Rightarrow> desc_heap \<Rightarrow> dma_queue \<times> desc_heap" where
  "swap_terminator st q desc h =
     (let tdesc = (h desc)\<lparr> dd_status := st \<rparr>;
          h = clear_descriptor desc h;
          h = h(q_terminator q := tdesc);
          h = h(q_terminator q := (h (q_terminator q))
                  \<lparr> dd_status := dd_status (h (q_terminator q)) OR AR9170_OWN_BITS_HW \<rparr>)
      in (q\<lparr> q_terminator := desc \<rparr>, h))"

definition dma_reclaim :: "dma_queue \<Rightarrow> u32 \<Rightarrow> desc_heap \<Rightarrow> (dma_queue \<times> desc_heap) option" where
  "dma_reclaim q desc h =
     do { (tmp, h) \<leftarrow> reclaim_loop desc (dd_lastAddr (h desc)) h;
          let h = h(tmp := (h tmp)\<lparr> dd_nextAddr := desc \<rparr>);
          let h = h(desc := (h desc)\<lparr> dd_lastAddr := q_terminator q \<rparr>);
          Some (swap_terminator 0 q desc h) }"

partial_function (option) put_loop :: "u32 \<Rightarrow> u32 \<Rightarrow> desc_heap \<Rightarrow> desc_heap option" where
  "put_loop desc tmp h =
     (let h = h(tmp := (h tmp)\<lparr> dd_totalLen := dd_totalLen (h desc) \<rparr>);
          h = h(tmp := (h tmp)\<lparr> dd_status := AR9170_OWN_BITS_HW \<rparr>);
          h = h(tmp := (h tmp)\<lparr> dd_lastAddr := dd_lastAddr (h desc) \<rparr>)
      in if dd_lastAddr (h desc) = tmp then Some h else put_loop desc (dd_nextAddr (h tmp)) h)"

definition dma_put :: "dma_queue \<Rightarrow> u32 \<Rightarrow> desc_heap \<Rightarrow> (dma_queue \<times> desc_heap) option" where
  "dma_put q desc h =
     do { h \<leftarrow> put_loop desc desc h;
          let l = dd_lastAddr (h desc);
          let h = h(l := (h l)\<lparr> dd_nextAddr := desc \<rparr>);
          let h = (if dd_lastAddr (h desc) = desc
                   then h(desc := (h desc)\<lparr> dd_lastAddr := q_terminator q \<rparr>) else h);
          Some (swap_terminator (dd_status (h desc) AND NOT AR9170_OWN_BITS) q desc h) }"

text \<open>\<^verbatim>\<open>dma_unlink_head\<close>; NULL is \<^verbatim>\<open>None\<close>.\<close>

definition dma_unlink_head :: "dma_queue \<Rightarrow> desc_heap \<Rightarrow> u32 option \<times> dma_queue \<times> desc_heap" where
  "dma_unlink_head q h =
     (if queue_empty q then (None, q, h)
      else let desc = q_head q;
               q = q\<lparr> q_head := dd_nextAddr (h (dd_lastAddr (h desc))) \<rparr>;
               h = h(dd_lastAddr (h desc) := (h (dd_lastAddr (h desc)))
                       \<lparr> dd_nextAddr := dd_lastAddr (h desc) \<rparr>);
               h = h(dd_lastAddr (h desc) := (h (dd_lastAddr (h desc)))
                       \<lparr> dd_lastAddr := dd_lastAddr (h desc) \<rparr>)
           in (Some desc, q, h))"

definition dma_dequeue_bits :: "dma_queue \<Rightarrow> u16 \<Rightarrow> desc_heap \<Rightarrow> u32 option \<times> dma_queue \<times> desc_heap" where
  "dma_dequeue_bits q bits h =
     (if dd_status (h (q_head q)) AND AR9170_OWN_BITS = bits then dma_unlink_head q h
      else (None, q, h))"

definition dma_dequeue_not_bits :: "dma_queue \<Rightarrow> u16 \<Rightarrow> desc_heap \<Rightarrow> u32 option \<times> dma_queue \<times> desc_heap" where
  "dma_dequeue_not_bits q bits h =
     (if dd_status (h (q_head q)) AND AR9170_OWN_BITS \<noteq> bits then dma_unlink_head q h
      else (None, q, h))"

partial_function (option) queue_len_loop :: "dma_queue \<Rightarrow> u32 \<Rightarrow> u32 \<Rightarrow> desc_heap \<Rightarrow> u32 option" where
  "queue_len_loop q desc i h =
     (if desc \<noteq> q_terminator q then queue_len_loop q (dd_nextAddr (h desc)) (i + 1) h else Some i)"

definition queue_len :: "dma_queue \<Rightarrow> desc_heap \<Rightarrow> u32 option" where
  "queue_len q h = queue_len_loop q (q_head q) 0 h"

definition dma_rearm :: "u32 \<Rightarrow> desc_heap \<Rightarrow> desc_heap" where
  "dma_rearm d h = h(d := (h d)\<lparr> dd_status := (dd_status (h d) AND NOT AR9170_OWN_BITS)
     OR AR9170_OWN_BITS_HW \<rparr>)"

definition dma_fix_downqueue :: "u32 \<Rightarrow> desc_heap \<Rightarrow> desc_heap" where
  "dma_fix_downqueue d h = h(d := (h d)\<lparr> dd_status := AR9170_OWN_BITS_HW, dd_ctrl := 0,
     dd_dataSize := 0, dd_totalLen := of_nat AR9170_BLOCK_SIZE, dd_lastAddr := d \<rparr>)"

subsection \<open>Packets and queues as lists\<close>

fun chain :: "desc_heap \<Rightarrow> u32 list \<Rightarrow> bool" where
  "chain h (x # y # zs) \<longleftrightarrow> dd_nextAddr (h x) = y \<and> chain h (y # zs)"
| "chain h _ \<longleftrightarrow> True"

text \<open>A packet: a chain of distinct descriptors whose first one knows the last.\<close>

definition packet_ok :: "desc_heap \<Rightarrow> u32 list \<Rightarrow> bool" where
  "packet_ok h p \<longleftrightarrow> p \<noteq> [] \<and> distinct p \<and> chain h p \<and> dd_lastAddr (h (hd p)) = last p"

fun queue_chain :: "desc_heap \<Rightarrow> u32 \<Rightarrow> u32 list list \<Rightarrow> u32 \<Rightarrow> bool" where
  "queue_chain h x [] t \<longleftrightarrow> x = t"
| "queue_chain h x (p # ps) t \<longleftrightarrow>
     packet_ok h p \<and> x = hd p \<and> queue_chain h (dd_nextAddr (h (last p))) ps t"

definition queue_ok :: "desc_heap \<Rightarrow> dma_queue \<Rightarrow> u32 list list \<Rightarrow> bool" where
  "queue_ok h q ps \<longleftrightarrow> queue_chain h (q_head q) ps (q_terminator q) \<and>
     distinct (concat ps @ [q_terminator q])"

text \<open>The contents of a packet, which is what survives the exchange with the terminator: for each
  descriptor, the buffer it points to, its fill level and its control bits.\<close>

definition contents :: "desc_heap \<Rightarrow> u32 list \<Rightarrow> (u32 \<times> u16 \<times> u16) list" where
  "contents h p = map (\<lambda>d. (dd_dataAddr (h d), dd_dataSize (h d), dd_ctrl (h d))) p"

text \<open>All descriptors of a packet belong to the hardware.\<close>

definition hw_owned :: "desc_heap \<Rightarrow> u32 list \<Rightarrow> bool" where
  "hw_owned h p \<longleftrightarrow> (\<forall>d \<in> set p. dd_status (h d) AND AR9170_OWN_BITS = AR9170_OWN_BITS_HW)"


lemma chain_Cons: "chain h (x # ys) \<longleftrightarrow> (ys \<noteq> [] \<longrightarrow> dd_nextAddr (h x) = hd ys \<and> chain h ys)"
  by (cases ys) auto

lemma chain_cong:
  "(\<And>d. d \<in> set (butlast p) \<Longrightarrow> dd_nextAddr (h d) = dd_nextAddr (h' d)) \<Longrightarrow> chain h p = chain h' p"
  by (induction h p rule: chain.induct) auto

lemma packet_ok_cong:
  assumes "\<And>d. d \<in> set p \<Longrightarrow> h d = h' d"
  shows "packet_ok h p = packet_ok h' p"
  using chain_cong [of p h h'] assms in_set_butlastD [of _ p]
  by (cases "p = []") (auto simp: packet_ok_def)

lemma packet_ends: "packet_ok h p \<Longrightarrow> hd p \<in> set p \<and> last p \<in> set p"
  by (simp add: packet_ok_def)

lemma chain_snoc: "chain h (ys @ [x, y]) \<longleftrightarrow> chain h (ys @ [x]) \<and> dd_nextAddr (h x) = y"
  by (induction ys) (auto simp: chain_Cons hd_append)

lemma queue_chain_cong:
  "(\<And>d. d \<in> set (concat ps) \<Longrightarrow> h d = h' d) \<Longrightarrow> queue_chain h x ps t = queue_chain h' x ps t"
proof (induction ps arbitrary: x)
  case (Cons p ps)
  have "packet_ok h p = packet_ok h' p"
    using Cons.prems by (intro packet_ok_cong) auto
  moreover have "packet_ok h p \<Longrightarrow> h (last p) = h' (last p)"
    using Cons.prems by (auto simp: packet_ok_def)
  ultimately show ?case
    using Cons by auto
qed simp

lemma contents_cong: "(\<And>d. d \<in> set p \<Longrightarrow> h d = h' d) \<Longrightarrow> contents h p = contents h' p"
  by (simp add: contents_def)

lemma queue_chain_append:
  "queue_chain h x (ps @ [p]) t \<longleftrightarrow>
     packet_ok h p \<and> queue_chain h x ps (hd p) \<and> dd_nextAddr (h (last p)) = t"
  by (induction ps arbitrary: x) auto

lemma queue_ok_empty: "queue_ok h q ps \<Longrightarrow> queue_empty q \<longleftrightarrow> ps = []"
  by (cases ps) (auto simp: queue_ok_def queue_empty_def packet_ok_def dest: hd_in_set)

lemma queue_ok_init [simp]: "queue_ok h (init_queue d) []"
  by (simp add: queue_ok_def init_queue_def)

subsection \<open>The marking loops\<close>

text \<open>What \<^verbatim>\<open>put_loop\<close> leaves, in closed form.\<close>

definition put_mark :: "u16 \<Rightarrow> u32 \<Rightarrow> u32 list \<Rightarrow> desc_heap \<Rightarrow> desc_heap" where
  "put_mark len l ys h = (\<lambda>d. if d \<in> set ys
     then (h d)\<lparr> dd_status := AR9170_OWN_BITS_HW, dd_totalLen := len, dd_lastAddr := l \<rparr> else h d)"

lemma put_loop_step:
  "put_loop desc d h =
     (let h' = h(d := (h d)\<lparr> dd_status := AR9170_OWN_BITS_HW, dd_totalLen := dd_totalLen (h desc),
                dd_lastAddr := dd_lastAddr (h desc) \<rparr>)
      in if dd_lastAddr (h desc) = d then Some h' else put_loop desc (dd_nextAddr (h d)) h')"
proof -
  have eq: "h(d := x\<lparr> dd_totalLen := a, dd_status := b, dd_lastAddr := c \<rparr>) =
      h(d := x\<lparr> dd_status := b, dd_totalLen := a, dd_lastAddr := c \<rparr>)" for h x a b c
    by (rule ext) simp
  show ?thesis
    by (subst put_loop.simps) (auto simp: Let_def eq)
qed

lemma put_loop_mark:
  assumes "ys \<noteq> []" "distinct ys" "chain h ys" "dd_lastAddr (h desc) = last ys"
  shows "put_loop desc (hd ys) h = Some (put_mark (dd_totalLen (h desc)) (last ys) ys h)"
  using assms
proof (induction ys arbitrary: h)
  case (Cons y ys)
  let ?m = "(h y)\<lparr> dd_status := 1, dd_totalLen := dd_totalLen (h desc), dd_lastAddr := last (y # ys) \<rparr>"
  let ?h = "h(y := ?m)"
  show ?case
  proof (cases "ys = []")
    case True
    then show ?thesis
      using Cons.prems by (subst put_loop_step) (auto simp: put_mark_def fun_eq_iff Let_def)
  next
    case False
    have ne: "last ys \<noteq> y"
      using False Cons.prems by auto
    have step: "put_loop desc y h = put_loop desc (hd ys) ?h"
      using False ne Cons.prems
      by (subst put_loop_step) (auto simp: Let_def chain_Cons)
    have "chain h ys"
      using False Cons.prems by (simp add: chain_Cons)
    then have ch: "chain ?h ys"
      using Cons.prems(2) chain_cong [of ys h ?h] in_set_butlastD [of _ ys] by fastforce
    have "put_loop desc (hd ys) ?h = Some (put_mark (dd_totalLen (?h desc)) (last ys) ys ?h)"
      using Cons.prems False by (intro Cons.IH [where h = ?h, OF False _ ch]) simp_all
    moreover have "put_mark (dd_totalLen (?h desc)) (last ys) ys ?h =
        put_mark (dd_totalLen (h desc)) (last (y # ys)) (y # ys) h"
      using False Cons.prems(2) by (auto simp: put_mark_def fun_eq_iff)
    ultimately show ?thesis
      using step by simp
  qed
qed simp

definition reclaim_marks :: "u32 list \<Rightarrow> desc_heap \<Rightarrow> desc_heap" where
  "reclaim_marks ys h = (\<lambda>d. if d \<in> set ys then reclaim_mark d (h d) else h d)"

lemma reclaim_loop_marks:
  assumes "ys \<noteq> []" "distinct ys" "chain h ys"
  shows "reclaim_loop (hd ys) (last ys) h = Some (last ys, reclaim_marks ys h)"
  using assms
proof (induction ys arbitrary: h)
  case (Cons y ys)
  let ?h = "h(y := reclaim_mark y (h y))"
  show ?case
  proof (cases "ys = []")
    case True
    then show ?thesis
      by (subst reclaim_loop.simps) (auto simp: reclaim_marks_def fun_eq_iff)
  next
    case False
    have ne: "last ys \<noteq> y"
      using False Cons.prems by auto
    have "chain h ys"
      using False Cons.prems by (simp add: chain_Cons)
    then have ch: "chain ?h ys"
      using Cons.prems(2) chain_cong [of ys h ?h] in_set_butlastD [of _ ys] by fastforce
    have "reclaim_loop y (last ys) h = reclaim_loop (hd ys) (last ys) ?h"
      using False ne Cons.prems
      by (subst reclaim_loop.simps) (auto simp: Let_def chain_Cons reclaim_mark_def)
    also have "\<dots> = Some (last ys, reclaim_marks ys ?h)"
      using Cons.prems(2) by (intro Cons.IH [where h = ?h, OF False _ ch]) simp_all
    also have "reclaim_marks ys ?h = reclaim_marks (y # ys) h"
      using Cons.prems(2) by (auto simp: reclaim_marks_def fun_eq_iff)
    finally show ?thesis
      using False by simp
  qed
qed simp

subsection \<open>Putting a packet\<close>

text \<open>The packet as the queue stores it: the terminator stands in for its first descriptor.\<close>

definition stored :: "u32 \<Rightarrow> u32 list \<Rightarrow> u32 list" where
  "stored t p = t # tl p"

definition put_result :: "u32 \<Rightarrow> u32 list \<Rightarrow> desc_heap \<Rightarrow> desc_heap" where
  "put_result t p h = (\<lambda>x.
     if x = t then (h (hd p))\<lparr> dd_status := 1, dd_lastAddr := last (stored t p),
                     dd_nextAddr := if tl p = [] then hd p else dd_nextAddr (h (hd p)) \<rparr>
     else if x = hd p then clear_descriptor x h x
     else if x \<in> set (tl p) then (h x)\<lparr> dd_status := 1, dd_totalLen := dd_totalLen (h (hd p)),
                     dd_lastAddr := last p,
                     dd_nextAddr := if x = last p then hd p else dd_nextAddr (h x) \<rparr>
     else h x)"

lemma dma_put_result:
  assumes p: "packet_ok h p" and t: "q_terminator q \<notin> set p"
  shows "dma_put q (hd p) h = Some (q\<lparr> q_terminator := hd p \<rparr>, put_result (q_terminator q) p h)"
proof -
  let ?d = "hd p" and ?t = "q_terminator q"
  let ?m = "put_mark (dd_totalLen (h ?d)) (last p) p h"
  have loop: "put_loop ?d ?d h = Some ?m"
    using p by (intro put_loop_mark) (auto simp: packet_ok_def)
  have d: "?d \<in> set p" "?d \<noteq> ?t" "last p \<in> set p" "last p \<noteq> ?t"
    using packet_ends [OF p] t by metis+
  have last_d: "last p = ?d \<longleftrightarrow> tl p = []"
    using p by (cases p) (auto simp: packet_ok_def)
  have mem: "x \<in> set p \<longleftrightarrow> x = ?d \<or> x \<in> set (tl p)" for x
    using p by (cases p) (auto simp: packet_ok_def)
  have lt: "tl p \<noteq> [] \<Longrightarrow> last (stored ?t p) = last p" "tl p = [] \<Longrightarrow> last (stored ?t p) = ?t"
    by (cases p; simp add: stored_def)+
  have nd: "?d \<notin> set (tl p)"
    using p by (cases p) (auto simp: packet_ok_def)
  show ?thesis
  proof (cases "tl p = []")
    case True
    then have "last p = ?d" using last_d by simp
    with True d lt show ?thesis
      by (auto simp: dma_put_def loop Let_def swap_terminator_def clear_descriptor_def put_mark_def
          put_result_def fun_eq_iff mem)
  next
    case False
    then have "last p \<noteq> ?d" using last_d by simp
    moreover have "last p \<in> set (tl p)"
      using \<open>last p \<noteq> ?d\<close> d mem by blast
    ultimately show ?thesis
      using False d lt nd
      by (auto simp: dma_put_def loop Let_def swap_terminator_def clear_descriptor_def put_mark_def
          put_result_def fun_eq_iff mem)
  qed
qed

lemma put_result_other: "x \<noteq> t \<Longrightarrow> x \<notin> set p \<Longrightarrow> p \<noteq> [] \<Longrightarrow> put_result t p h x = h x"
  by (cases p) (auto simp: put_result_def)

lemma put_result_packet:
  assumes p: "packet_ok h p" and t: "t \<notin> set p"
  shows "packet_ok (put_result t p h) (stored t p)"
    and "dd_nextAddr (put_result t p h (last (stored t p))) = hd p"
    and "contents (put_result t p h) (stored t p) = contents h p"
    and "hw_owned (put_result t p h) (stored t p)"
    and "\<forall>x \<in> set (stored t p). dd_totalLen (put_result t p h x) = dd_totalLen (h (hd p))"
proof -
  obtain d ys where pd: "p = d # ys"
    using p by (cases p) (auto simp: packet_ok_def)
  have ds: "distinct ys" "d \<notin> set ys" "t \<noteq> d" "t \<notin> set ys"
    using p t pd by (auto simp: packet_ok_def)
  have ch: "chain h ys"
    using p pd by (auto simp: packet_ok_def chain_Cons)
  have blast_last: "x \<in> set (butlast ys) \<Longrightarrow> x \<noteq> last ys" for x
    using ds(1) by (induction ys) (auto split: if_splits)
  have ch': "chain (put_result t p h) ys"
  proof -
    have "dd_nextAddr (h x) = dd_nextAddr (put_result t p h x)" if "x \<in> set (butlast ys)" for x
      using that ds blast_last [OF that] pd by (auto simp: put_result_def dest: in_set_butlastD)
    then show ?thesis
      using ch chain_cong [of ys h "put_result t p h"] by blast
  qed
  have nx: "ys \<noteq> [] \<Longrightarrow> dd_nextAddr (h d) = hd ys"
    using p pd by (auto simp: packet_ok_def chain_Cons)
  show "packet_ok (put_result t p h) (stored t p)"
    using ds ch' nx pd by (auto simp: packet_ok_def stored_def chain_Cons) (auto simp: put_result_def stored_def)
  show "dd_nextAddr (put_result t p h (last (stored t p))) = hd p"
    using ds pd by (auto simp: put_result_def stored_def)
  show "contents (put_result t p h) (stored t p) = contents h p"
    using ds pd by (auto simp: put_result_def stored_def contents_def)
  show "hw_owned (put_result t p h) (stored t p)"
    using ds pd by (auto simp: put_result_def stored_def hw_owned_def)
  show "\<forall>x \<in> set (stored t p). dd_totalLen (put_result t p h x) = dd_totalLen (h (hd p))"
    using ds pd by (auto simp: put_result_def stored_def)
qed

text \<open>A queue keeps its packets when descriptors outside of it change.\<close>

lemma put_result_queue:
  assumes q: "queue_ok h q ps" and p: "packet_ok h p"
    and dis: "set p \<inter> set (concat ps) = {}" and t: "q_terminator q \<notin> set p"
  shows "queue_ok (put_result (q_terminator q) p h) (q\<lparr> q_terminator := hd p \<rparr>)
           (ps @ [stored (q_terminator q) p])"
proof -
  let ?t = "q_terminator q" and ?h = "put_result (q_terminator q) p h"
  have ne: "p \<noteq> []" "distinct p"
    using p by (auto simp: packet_ok_def)
  have keep: "h x = ?h x" if "x \<in> set (concat ps)" for x
    using that q dis ne by (subst put_result_other) (auto simp: queue_ok_def)
  have "queue_chain ?h (q_head q) ps ?t"
    using q queue_chain_cong [of ps h ?h] keep by (simp add: queue_ok_def)
  moreover have "hd (stored ?t p) = ?t"
    by (simp add: stored_def)
  moreover have "distinct (concat (ps @ [stored ?t p]) @ [hd p])"
    using q ne dis t by (cases p) (auto simp: queue_ok_def stored_def)
  ultimately show ?thesis
    using put_result_packet [OF p t] by (simp add: queue_ok_def queue_chain_append)
qed

subsection \<open>Reclaiming a packet\<close>

definition reclaim_result :: "u32 \<Rightarrow> u32 list \<Rightarrow> desc_heap \<Rightarrow> desc_heap" where
  "reclaim_result t p h = (\<lambda>x.
     if x = t then (reclaim_mark t (h (hd p)))
                     \<lparr> dd_nextAddr := if tl p = [] then hd p else dd_nextAddr (h (hd p)) \<rparr>
     else if x = hd p then clear_descriptor x h x
     else if x \<in> set (tl p) then (reclaim_mark x (h x))
                     \<lparr> dd_nextAddr := if x = last p then hd p else dd_nextAddr (h x) \<rparr>
     else h x)"

lemma dma_reclaim_result:
  assumes p: "packet_ok h p" and t: "q_terminator q \<notin> set p"
  shows "dma_reclaim q (hd p) h =
           Some (q\<lparr> q_terminator := hd p \<rparr>, reclaim_result (q_terminator q) p h)"
proof -
  let ?d = "hd p" and ?t = "q_terminator q"
  have loop: "reclaim_loop ?d (dd_lastAddr (h ?d)) h = Some (last p, reclaim_marks p h)"
    using p by (simp add: packet_ok_def reclaim_loop_marks)
  have d: "?d \<in> set p" "?d \<noteq> ?t" "last p \<in> set p" "last p \<noteq> ?t"
    using packet_ends [OF p] t by metis+
  have last_d: "last p = ?d \<longleftrightarrow> tl p = []"
    using p by (cases p) (auto simp: packet_ok_def)
  have mem: "x \<in> set p \<longleftrightarrow> x = ?d \<or> x \<in> set (tl p)" for x
    using p by (cases p) (auto simp: packet_ok_def)
  have nd: "?d \<notin> set (tl p)"
    using p by (cases p) (auto simp: packet_ok_def)
  show ?thesis
  proof (cases "tl p = []")
    case True
    then have "last p = ?d" using last_d by simp
    with True d show ?thesis
      by (auto simp: dma_reclaim_def loop Let_def swap_terminator_def clear_descriptor_def
          reclaim_marks_def reclaim_mark_def reclaim_result_def fun_eq_iff mem)
  next
    case False
    then have "last p \<noteq> ?d" using last_d by simp
    moreover have "last p \<in> set (tl p)"
      using \<open>last p \<noteq> ?d\<close> d mem by blast
    ultimately show ?thesis
      using False d nd
      by (auto simp: dma_reclaim_def loop Let_def swap_terminator_def clear_descriptor_def
          reclaim_marks_def reclaim_mark_def reclaim_result_def fun_eq_iff mem)
  qed
qed

text \<open>A reclaimed packet goes back as free blocks: single descriptors, owned by the hardware, of the
  full block size, each still pointing to its own buffer.\<close>

lemma reclaim_result_other: "x \<noteq> t \<Longrightarrow> x \<notin> set p \<Longrightarrow> p \<noteq> [] \<Longrightarrow> reclaim_result t p h x = h x"
  by (cases p) (auto simp: reclaim_result_def)

definition singles :: "u32 list \<Rightarrow> u32 list list" where
  "singles xs = map (\<lambda>x. [x]) xs"

lemma concat_singles [simp]: "concat (singles xs) = xs"
  by (induction xs) (auto simp: singles_def)

lemma queue_chain_singles:
  assumes "\<And>x. x \<in> set xs \<Longrightarrow> dd_lastAddr (h x) = x" "chain h (xs @ [t])"
  shows "queue_chain h (hd (xs @ [t])) (singles xs) t"
  using assms
proof (induction xs)
  case (Cons x xs)
  then show ?case
    by (cases xs) (auto simp: singles_def packet_ok_def)
qed (simp add: singles_def)

lemma queue_chain_app:
  "queue_chain h x (ps @ qs) t \<longleftrightarrow> (\<exists>y. queue_chain h x ps y \<and> queue_chain h y qs t)"
  by (induction ps arbitrary: x) auto

lemma reclaim_result_queue:
  assumes q: "queue_ok h q ps" and p: "packet_ok h p"
    and dis: "set p \<inter> set (concat ps) = {}" and t: "q_terminator q \<notin> set p"
  shows "queue_ok (reclaim_result (q_terminator q) p h) (q\<lparr> q_terminator := hd p \<rparr>)
           (ps @ singles (stored (q_terminator q) p))"
    and "\<forall>x \<in> set (stored (q_terminator q) p).
           let d = reclaim_result (q_terminator q) p h x
           in dd_status d = AR9170_OWN_BITS_HW \<and> dd_dataSize d = of_nat AR9170_BLOCK_SIZE \<and>
              dd_totalLen d = 0 \<and> dd_ctrl d = 0"
    and "map (dd_dataAddr \<circ> reclaim_result (q_terminator q) p h) (stored (q_terminator q) p) =
           map (dd_dataAddr \<circ> h) p"
proof -
  let ?t = "q_terminator q" and ?h = "reclaim_result (q_terminator q) p h"
  obtain d ys where pd: "p = d # ys"
    using p by (cases p) (auto simp: packet_ok_def)
  have ds: "distinct ys" "d \<notin> set ys" "?t \<noteq> d" "?t \<notin> set ys" "p \<noteq> []"
    using p t pd by (auto simp: packet_ok_def)
  have keep: "h x = ?h x" if "x \<in> set (concat ps)" for x
    using that q dis ds by (subst reclaim_result_other) (auto simp: queue_ok_def)
  have old: "queue_chain ?h (q_head q) ps ?t"
    using q queue_chain_cong [of ps h ?h] keep by (simp add: queue_ok_def)
  have nl: "x \<in> set (butlast ys) \<Longrightarrow> x \<noteq> last ys" for x
    using ds(1) by (induction ys) (auto split: if_splits)
  have "dd_nextAddr (h x) = dd_nextAddr (?h x)" if "x \<in> set (butlast ys)" for x
    using that ds nl [OF that] pd by (auto simp: reclaim_result_def reclaim_mark_def dest: in_set_butlastD)
  then have ch: "chain ?h ys"
    using p pd chain_cong [of ys h ?h] by (auto simp: packet_ok_def chain_Cons)
  have chd: "chain ?h (ys @ [d])"
  proof (cases ys rule: rev_cases)
    case (snoc zs z)
    with snoc ch ds pd show ?thesis
      by (auto simp: chain_snoc reclaim_result_def reclaim_mark_def)
  qed simp
  have "chain ?h (stored ?t p @ [d])"
    using p pd chd ds by (cases ys) (auto simp: stored_def packet_ok_def reclaim_result_def reclaim_mark_def)
  moreover have "x \<in> set (stored ?t p) \<Longrightarrow> dd_lastAddr (?h x) = x" for x
    using ds pd by (auto simp: stored_def reclaim_result_def reclaim_mark_def)
  ultimately have "queue_chain ?h ?t (singles (stored ?t p)) d"
    using queue_chain_singles [of "stored ?t p" ?h d] by (simp add: stored_def)
  moreover have "distinct (concat (ps @ singles (stored ?t p)) @ [hd p])"
    using q p dis t pd by (auto simp: queue_ok_def stored_def packet_ok_def)
  ultimately show "queue_ok ?h (q\<lparr> q_terminator := hd p \<rparr>) (ps @ singles (stored ?t p))"
    using old pd by (auto simp: queue_ok_def queue_chain_app)
  show "\<forall>x \<in> set (stored ?t p). let d = ?h x in dd_status d = 1 \<and>
      dd_dataSize d = of_nat AR9170_BLOCK_SIZE \<and> dd_totalLen d = 0 \<and> dd_ctrl d = 0"
    using ds pd by (auto simp: stored_def reclaim_result_def reclaim_mark_def)
  show "map (dd_dataAddr \<circ> ?h) (stored ?t p) = map (dd_dataAddr \<circ> h) p"
    using ds pd by (auto simp: stored_def reclaim_result_def reclaim_mark_def)
qed

subsection \<open>Unlinking the head\<close>

definition unlink_result :: "u32 list \<Rightarrow> desc_heap \<Rightarrow> desc_heap" where
  "unlink_result p h = h(last p := (h (last p))\<lparr> dd_nextAddr := last p, dd_lastAddr := last p \<rparr>)"

lemma dma_unlink_head_result:
  assumes "queue_ok h q (p # ps)"
  shows "dma_unlink_head q h =
    (Some (hd p), q\<lparr> q_head := dd_nextAddr (h (last p)) \<rparr>, unlink_result p h)"
proof -
  have "q_head q = hd p" "dd_lastAddr (h (hd p)) = last p" "\<not> queue_empty q"
    using assms queue_ok_empty [OF assms] by (auto simp: queue_ok_def packet_ok_def)
  then show ?thesis
    by (cases "last p = hd p")
      (auto simp: dma_unlink_head_def Let_def unlink_result_def fun_eq_iff)
qed

lemma unlink_result_packet:
  assumes "packet_ok h p"
  shows "packet_ok (unlink_result p h) p" "contents (unlink_result p h) p = contents h p"
    "dd_status (unlink_result p h x) = dd_status (h x)"
    "dd_totalLen (unlink_result p h x) = dd_totalLen (h x)"
proof -
  have nl: "distinct ys \<Longrightarrow> x \<in> set (butlast ys) \<Longrightarrow> x \<noteq> last ys" for x and ys :: "u32 list"
    by (induction ys) (auto split: if_splits)
  have "chain (unlink_result p h) p"
    using assms nl [of p] chain_cong [of p h "unlink_result p h"]
    by (auto simp: packet_ok_def unlink_result_def)
  then show "packet_ok (unlink_result p h) p"
    using assms by (auto simp: packet_ok_def unlink_result_def)
qed (auto simp: contents_def unlink_result_def)

lemma unlink_result_queue:
  assumes "queue_ok h q (p # ps)"
  shows "queue_ok (unlink_result p h) (q\<lparr> q_head := dd_nextAddr (h (last p)) \<rparr>) ps"
proof -
  have "last p \<in> set p"
    using assms by (auto simp: queue_ok_def packet_ok_def)
  then have "h x = unlink_result p h x" if "x \<in> set (concat ps)" for x
    using assms that by (auto simp: queue_ok_def unlink_result_def)
  then show ?thesis
    using assms queue_chain_cong [of ps h "unlink_result p h"] by (auto simp: queue_ok_def)
qed

subsection \<open>The queue operations refine the operations on lists of packets\<close>

text \<open>C2. \<^verbatim>\<open>dma_put\<close> returns, and appends the packet at the tail of the queue: all contents, old and
  new, are found again in order, the new packet is handed to the hardware with the total length of
  its first descriptor on every descriptor, and no other descriptor changes.\<close>

theorem dma_put_appends:
  assumes "queue_ok h q ps" "packet_ok h p" "set p \<inter> set (concat ps) = {}" "q_terminator q \<notin> set p"
  shows "\<exists>q' h' p'. dma_put q (hd p) h = Some (q', h') \<and> queue_ok h' q' (ps @ [p']) \<and>
     map (contents h') (ps @ [p']) = map (contents h) (ps @ [p]) \<and> hw_owned h' p' \<and>
     (\<forall>x \<in> set p'. dd_totalLen (h' x) = dd_totalLen (h (hd p))) \<and>
     (\<forall>x. x \<notin> insert (q_terminator q) (set p) \<longrightarrow> h' x = h x)"
proof -
  let ?t = "q_terminator q" and ?h = "put_result (q_terminator q) p h"
  have ne: "p \<noteq> []"
    using assms by (auto simp: packet_ok_def)
  have other: "?h x = h x" if "x \<noteq> ?t" "x \<notin> set p" for x
    using that ne by (rule put_result_other)
  have "contents ?h r = contents h r" if "r \<in> set ps" for r
    using that assms other by (intro contents_cong other) (auto simp: queue_ok_def)
  then show ?thesis
    using dma_put_result [OF assms(2,4)] put_result_queue [OF assms] put_result_packet [OF assms(2,4)] other
    by (intro exI [of _ "q\<lparr> q_terminator := hd p \<rparr>"] exI [of _ ?h] exI [of _ "stored ?t p"]) auto
qed

text \<open>A heap with a free two-descriptor packet and a queue of one terminator, for the witnesses.\<close>

definition example_heap :: desc_heap where
  "example_heap = (\<lambda>x. \<lparr> dd_status = 0, dd_ctrl = 0, dd_dataSize = 320, dd_totalLen = 400,
     dd_lastAddr = (if x = 40 then 60 else x), dd_dataAddr = x * 100,
     dd_nextAddr = (if x = 40 then 60 else x) \<rparr>)"

lemma example_packet: "packet_ok example_heap [40, 60]"
  by (simp add: packet_ok_def example_heap_def)

theorem dma_put_appends_witness:
  "\<exists>q' h' p'. dma_put (init_queue 20) 40 example_heap = Some (q', h') \<and> queue_ok h' q' [p'] \<and>
     contents h' p' = contents example_heap [40, 60]"
  using dma_put_appends [OF queue_ok_init [of example_heap 20] example_packet]
  by (auto simp: init_queue_def)

text \<open>C3. \<^verbatim>\<open>dma_reclaim\<close> returns, and gives the packet back as free blocks: each of its buffers becomes a
  packet of its own at the tail of the queue, in order, owned by the hardware, of the full block
  size and empty; the packets already queued are untouched.\<close>

theorem dma_reclaim_recycles:
  assumes "queue_ok h q ps" "packet_ok h p" "set p \<inter> set (concat ps) = {}" "q_terminator q \<notin> set p"
  shows "\<exists>q' h' xs. dma_reclaim q (hd p) h = Some (q', h') \<and> queue_ok h' q' (ps @ singles xs) \<and>
     map (\<lambda>x. dd_dataAddr (h' x)) xs = map (\<lambda>x. dd_dataAddr (h x)) p \<and>
     (\<forall>x \<in> set xs. dd_status (h' x) = AR9170_OWN_BITS_HW \<and> dd_dataSize (h' x) = 320 \<and>
        dd_totalLen (h' x) = 0 \<and> dd_ctrl (h' x) = 0) \<and>
     map (contents h') ps = map (contents h) ps"
proof -
  let ?t = "q_terminator q" and ?h = "reclaim_result (q_terminator q) p h"
  have ne: "p \<noteq> []"
    using assms by (auto simp: packet_ok_def)
  have "contents ?h r = contents h r" if "r \<in> set ps" for r
    using that assms ne by (intro contents_cong reclaim_result_other) (auto simp: queue_ok_def)
  then show ?thesis
    using dma_reclaim_result [OF assms(2,4)] reclaim_result_queue [OF assms]
    by (intro exI [of _ "q\<lparr> q_terminator := hd p \<rparr>"] exI [of _ ?h] exI [of _ "stored ?t p"])
      (auto simp: Let_def comp_def AR9170_BLOCK_SIZE_def)
qed

theorem dma_reclaim_recycles_witness:
  "\<exists>q' h' xs. dma_reclaim (init_queue 20) 40 example_heap = Some (q', h') \<and>
     queue_ok h' q' (singles xs) \<and> map (\<lambda>x. dd_dataAddr (h' x)) xs = [4000, 6000]"
proof -
  have buffers: "map (\<lambda>x. dd_dataAddr (example_heap x)) [40, 60] = [4000, 6000]"
    by (simp add: example_heap_def)
  obtain q' h' xs where "dma_reclaim (init_queue 20) 40 example_heap = Some (q', h')"
      "queue_ok h' q' (singles xs)" "map (\<lambda>x. dd_dataAddr (h' x)) xs = map (\<lambda>x. dd_dataAddr (example_heap x)) [40, 60]"
    using dma_reclaim_recycles [OF queue_ok_init [of example_heap 20] example_packet]
    by (auto simp: init_queue_def simp del: list.map map_eq_Cons_conv)
  then show ?thesis
    unfolding buffers by (intro exI conjI)
qed

text \<open>C4. \<^verbatim>\<open>dma_unlink_head\<close> returns NULL exactly on an empty queue, which it leaves alone; otherwise it
  takes the first packet out, complete and with its contents, and the queue holds the others.\<close>

theorem dma_unlink_head_first:
  assumes "queue_ok h q ps"
  shows "case ps of [] \<Rightarrow> dma_unlink_head q h = (None, q, h)
     | p # rest \<Rightarrow> \<exists>q' h'. dma_unlink_head q h = (Some (hd p), q', h') \<and> queue_ok h' q' rest \<and>
         packet_ok h' p \<and> map (contents h') (p # rest) = map (contents h) ps"
proof (cases ps)
  case Nil
  then show ?thesis
    using queue_ok_empty [OF assms] by (simp add: dma_unlink_head_def)
next
  case (Cons p rest)
  have p: "packet_ok h p" "last p \<in> set p"
    using assms Cons by (auto simp: queue_ok_def packet_ok_def)
  have "contents (unlink_result p h) r = contents h r" for r
    by (auto simp: contents_def unlink_result_def)
  with Cons p show ?thesis
    using dma_unlink_head_result [of h q p rest] unlink_result_queue [of h q p rest]
      unlink_result_packet(1) [OF p(1)] assms by auto
qed

theorem dma_unlink_head_first_witness:
  "\<exists>q' h'. dma_unlink_head \<lparr> q_head = 40, q_terminator = 80 \<rparr>
      (example_heap(60 := (example_heap 60)\<lparr> dd_nextAddr := 80 \<rparr>)) = (Some 40, q', h') \<and> queue_ok h' q' []"
  using dma_unlink_head_first [of "example_heap(60 := (example_heap 60)\<lparr> dd_nextAddr := 80 \<rparr>)"
      "\<lparr> q_head = 40, q_terminator = 80 \<rparr>" "[[40, 60]]"]
  by (auto simp: queue_ok_def packet_ok_def example_heap_def)

subsection \<open>The queues of the firmware\<close>

definition with_queue :: "qref \<Rightarrow> dma_queue \<times> desc_heap \<Rightarrow> fw_state \<Rightarrow> fw_state" where
  "with_queue r qh s = s\<lparr> f_queues := (f_queues s)(r := fst qh), f_descs := snd qh \<rparr>"

definition put :: "qref \<Rightarrow> u32 \<Rightarrow> fw_state \<Rightarrow> fw_state option" where
  "put r d s = do { qh \<leftarrow> dma_put (f_queues s r) d (f_descs s); Some (with_queue r qh s) }"

definition reclaim :: "qref \<Rightarrow> u32 \<Rightarrow> fw_state \<Rightarrow> fw_state option" where
  "reclaim r d s = do { qh \<leftarrow> dma_reclaim (f_queues s r) d (f_descs s); Some (with_queue r qh s) }"

definition unlink_head :: "qref \<Rightarrow> fw_state \<Rightarrow> u32 option \<times> fw_state" where
  "unlink_head r s = (let (d, qh) = dma_unlink_head (f_queues s r) (f_descs s) in (d, with_queue r qh s))"

definition dequeue_bits :: "qref \<Rightarrow> u16 \<Rightarrow> fw_state \<Rightarrow> u32 option \<times> fw_state" where
  "dequeue_bits r bits s =
     (let (d, qh) = dma_dequeue_bits (f_queues s r) bits (f_descs s) in (d, with_queue r qh s))"

definition dequeue_not_bits :: "qref \<Rightarrow> u16 \<Rightarrow> fw_state \<Rightarrow> u32 option \<times> fw_state" where
  "dequeue_not_bits r bits s =
     (let (d, qh) = dma_dequeue_not_bits (f_queues s r) bits (f_descs s) in (d, with_queue r qh s))"

definition upd_desc :: "u32 \<Rightarrow> (dma_desc \<Rightarrow> dma_desc) \<Rightarrow> fw_state \<Rightarrow> fw_state" where
  "upd_desc d g s = s\<lparr> f_descs := (f_descs s)(d := g (f_descs s d)) \<rparr>"

definition payload :: "u32 \<Rightarrow> fw_state \<Rightarrow> u32" where
  "payload d s = dd_dataAddr (f_descs s d)"

abbreviation queue_is :: "qref \<Rightarrow> fw_state \<Rightarrow> u32 list list \<Rightarrow> bool" where
  "queue_is r s ps \<equiv> queue_ok (f_descs s) (f_queues s r) ps"

subsection \<open>Setting the queues up\<close>

definition init_queues :: "(qref \<Rightarrow> dma_queue) \<Rightarrow> qref \<Rightarrow> dma_queue" where
  "init_queues qs r = (case r of
       UpQ \<Rightarrow> init_queue (terminator_addr 0)
     | DownQ \<Rightarrow> init_queue (terminator_addr 1)
     | TxQ j \<Rightarrow> if j < 5 then init_queue (terminator_addr (2 + j)) else qs r
     | RetryQ \<Rightarrow> init_queue (terminator_addr 7)
     | RxQ \<Rightarrow> init_queue (terminator_addr 8)
     | CabQ j \<Rightarrow> if j < CARL9170_INTF_NUM then init_queue (terminator_addr (11 + j)) else qs r)"

definition init_block :: "nat \<Rightarrow> fw_state \<Rightarrow> fw_state option" where
  "init_block i s =
     reclaim (if i < AR9170_TX_BLOCK_NUMBER then DownQ else RxQ) (block_addr i)
       (s\<lparr> f_descs := fill_descriptor (block_addr i) (of_nat AR9170_BLOCK_SIZE) (data_addr i) (f_descs s) \<rparr>)"

definition set_wlan_txq_dma_addr :: "u32 \<Rightarrow> u32 \<Rightarrow> fw_state \<Rightarrow> fw_state" where
  "set_wlan_txq_dma_addr q v = set_reg (AR9170_MAC_REG_DMA_TXQ_ADDR + push_bit 3 q) v"

definition set_dma_addresses :: "fw_state \<Rightarrow> fw_state" where
  "set_dma_addresses s =
     (let hd = (\<lambda>r. q_head (f_queues s r));
          s = set_reg AR9170_PTA_REG_DN_DMA_ADDRH (drop_bit 16 (hd DownQ)) s;
          s = set_reg AR9170_PTA_REG_DN_DMA_ADDRL (hd DownQ AND 0xFFFF) s;
          s = set_reg AR9170_PTA_REG_UP_DMA_ADDRH (drop_bit 16 (hd UpQ)) s;
          s = set_reg AR9170_PTA_REG_UP_DMA_ADDRL (hd UpQ AND 0xFFFF) s;
          s = fold (\<lambda>i. set_wlan_txq_dma_addr (of_nat i) (hd (TxQ i))) [0..<5] s
      in set_reg AR9170_MAC_REG_DMA_RXQ_ADDR (hd RxQ) s)"

definition init_terminators :: "fw_state \<Rightarrow> fw_state" where
  "init_terminators s =
     (let s = s\<lparr> f_descs := fold (\<lambda>i. clear_descriptor (terminator_addr i))
                           [0..<AR9170_TERMINATOR_NUMBER] (f_descs s) \<rparr>;
          s = s\<lparr> f_queues := init_queues (f_queues s) \<rparr>;
          s = f_usb_update (u_int_desc_update (\<lambda>_. terminator_addr 9)) s
      in f_wlan_update (w_fw_desc_update (\<lambda>_. terminator_addr 10)) s)"

definition init_service_descs :: "fw_state \<Rightarrow> fw_state" where
  "init_service_descs s =
     (let d = u_int_desc (f_usb s);
          s = upd_desc d (\<lambda>x. x\<lparr> dd_dataSize := of_nat AR9170_BLOCK_SIZE \<rparr>) s;
          s = upd_desc d (\<lambda>x. x\<lparr> dd_dataAddr := reserved_rsp \<rparr>) s;
          s = f_ram_update (wr_bytes (payload d s) (replicate 12 0xFF)) s;
          s = f_ram_update (wr_bytes (payload d s + 12) (replicate (AR9170_BLOCK_SIZE - 12) 0)) s;
          s = f_usb_update (u_int_desc_available_update (\<lambda>_. 1)) s;
          s = f_ram_update (wr_bytes (payload (w_fw_desc (f_wlan s)) s) (replicate 128 0)) s
      in f_wlan_update (w_fw_desc_available_update (\<lambda>_. 1)) s)"

definition dma_init_descriptors :: "fw_state \<Rightarrow> fw_state option" where
  "dma_init_descriptors s =
     do { s \<leftarrow> foldM init_block [0..<AR9170_BLOCK_NUMBER] (init_terminators s);
          Some (init_service_descs (set_dma_addresses s)) }"

lemma init_service_descs_fields:
  assumes "u_int_desc (f_usb s) = d" "w_fw_desc (f_wlan s) = e" "d \<noteq> e"
  shows "f_queues (init_service_descs s) = f_queues s"
    "x \<noteq> d \<Longrightarrow> f_descs (init_service_descs s) x = f_descs s x"
    "payload d (init_service_descs s) = reserved_rsp"
    "u_int_desc (f_usb (init_service_descs s)) = d"
    "u_int_desc_available (f_usb (init_service_descs s)) = 1"
    "w_fw_desc_available (f_wlan (init_service_descs s)) = 1"
    "f_ram (init_service_descs s) = wr_bytes (payload e s) (replicate 128 0)
       (wr_bytes (reserved_rsp + 12) (replicate 308 0) (wr_bytes reserved_rsp (replicate 12 0xFF) (f_ram s)))"
  using assms by (simp_all add: init_service_descs_def Let_def upd_desc_def payload_def AR9170_BLOCK_SIZE_def)

text \<open>Adding freshly filled blocks to a queue of free blocks.\<close>

definition add_block :: "u32 \<Rightarrow> u32 \<Rightarrow> dma_queue \<times> desc_heap \<Rightarrow> (dma_queue \<times> desc_heap) option" where
  "add_block d a qh =
     dma_reclaim (fst qh) d (fill_descriptor d (of_nat AR9170_BLOCK_SIZE) a (snd qh))"

definition free_block :: "dma_desc \<Rightarrow> bool" where
  "free_block x \<longleftrightarrow> dd_status x = AR9170_OWN_BITS_HW \<and> dd_dataSize x = of_nat AR9170_BLOCK_SIZE \<and>
     dd_totalLen x = 0 \<and> dd_ctrl x = 0"

definition free_queue :: "desc_heap \<Rightarrow> dma_queue \<Rightarrow> u32 list \<Rightarrow> u32 list \<Rightarrow> bool" where
  "free_queue h q xs as \<longleftrightarrow> queue_ok h q (singles xs) \<and> (\<forall>x \<in> set xs. free_block (h x)) \<and>
     map (dd_dataAddr \<circ> h) xs = as"

lemma free_queue_cong:
  assumes "free_queue h q xs as" "\<And>x. x \<in> set xs \<Longrightarrow> h' x = h x"
  shows "free_queue h' q xs as"
  using assms queue_chain_cong [of "singles xs" h h']
  by (auto simp: free_queue_def queue_ok_def)

lemma add_block_free:
  assumes "free_queue h q xs as" "d \<notin> set xs" "d \<noteq> q_terminator q"
  shows "\<exists>h'. add_block d a (q, h) = Some (q\<lparr> q_terminator := d \<rparr>, h') \<and>
     free_queue h' (q\<lparr> q_terminator := d \<rparr>) (xs @ [q_terminator q]) (as @ [a]) \<and>
     (\<forall>x. x \<noteq> d \<and> x \<noteq> q_terminator q \<longrightarrow> h' x = h x)"
proof -
  let ?h = "fill_descriptor d (of_nat AR9170_BLOCK_SIZE) a h"
  let ?h' = "reclaim_result (q_terminator q) [d] ?h"
  have p: "packet_ok ?h [d]"
    by (simp add: packet_ok_def fill_descriptor_def)
  have q: "free_queue ?h q xs as"
    using assms(2) by (intro free_queue_cong [OF assms(1)]) (auto simp: fill_descriptor_def)
  have t: "q_terminator q \<notin> set xs"
    using assms(1) by (auto simp: free_queue_def queue_ok_def)
  have res: "add_block d a (q, h) = Some (q\<lparr> q_terminator := d \<rparr>, ?h')"
    using dma_reclaim_result [OF p, of q] assms(3) by (simp add: add_block_def)
  have "queue_ok ?h' (q\<lparr> q_terminator := d \<rparr>) (singles xs @ singles [q_terminator q])"
    using reclaim_result_queue(1) [OF _ p, of q "singles xs"] q assms
    by (simp add: free_queue_def stored_def)
  moreover have other: "?h' x = h x" if "x \<noteq> d" "x \<noteq> q_terminator q" for x
    using that by (subst reclaim_result_other) (auto simp: fill_descriptor_def)
  moreover have "\<forall>x \<in> set xs. free_block (?h' x)" "map (dd_dataAddr \<circ> ?h') xs = as"
    using assms(1) assms(2) t other by (fastforce simp: free_queue_def)+
  moreover have "free_block (?h' (q_terminator q))" "dd_dataAddr (?h' (q_terminator q)) = a"
    by (auto simp: reclaim_result_def reclaim_mark_def free_block_def fill_descriptor_def)
  ultimately have "free_queue ?h' (q\<lparr> q_terminator := d \<rparr>) (xs @ [q_terminator q]) (as @ [a])"
    by (simp add: free_queue_def singles_def)
  with res other show ?thesis
    by blast
qed

text \<open>The blocks \<^verbatim>\<open>is\<close> added one after the other to an empty queue: each descriptor takes the place of
  the terminator before it, and the buffers come out in the order of the loop.\<close>

lemma add_blocks:
  assumes "distinct (t # map block_addr is)"
  shows "\<exists>h'. foldM (\<lambda>i. add_block (block_addr i) (data_addr i)) is (init_queue t, h) =
       Some (\<lparr> q_head = t, q_terminator = last (t # map block_addr is) \<rparr>, h') \<and>
     free_queue h' \<lparr> q_head = t, q_terminator = last (t # map block_addr is) \<rparr>
       (butlast (t # map block_addr is)) (map data_addr is) \<and>
     (\<forall>x. x \<notin> set (t # map block_addr is) \<longrightarrow> h' x = h x)"
  using assms
proof (induction "is" rule: rev_induct)
  case Nil
  show ?case
    using queue_ok_init [of h t] by (simp add: init_queue_def free_queue_def singles_def)
next
  case (snoc i "is")
  let ?ds = "t # map block_addr is"
  obtain h1 where h1: "foldM (\<lambda>i. add_block (block_addr i) (data_addr i)) is (init_queue t, h) =
       Some (\<lparr> q_head = t, q_terminator = last ?ds \<rparr>, h1)"
     "free_queue h1 \<lparr> q_head = t, q_terminator = last ?ds \<rparr> (butlast ?ds) (map data_addr is)"
     "\<forall>x. x \<notin> set ?ds \<longrightarrow> h1 x = h x"
    using snoc by auto
  have "block_addr i \<notin> set ?ds"
    using snoc.prems by auto
  then have "block_addr i \<notin> set (butlast ?ds)" "block_addr i \<noteq> last ?ds"
    using in_set_butlastD [of "block_addr i" ?ds] last_in_set [of ?ds] by (fastforce, metis list.distinct(1))
  then obtain h2 where h2: "add_block (block_addr i) (data_addr i)
        (\<lparr> q_head = t, q_terminator = last ?ds \<rparr>, h1) =
        Some (\<lparr> q_head = t, q_terminator = block_addr i \<rparr>, h2)"
     "free_queue h2 \<lparr> q_head = t, q_terminator = block_addr i \<rparr> (butlast ?ds @ [last ?ds])
        (map data_addr is @ [data_addr i])"
     "\<forall>x. x \<noteq> block_addr i \<and> x \<noteq> last ?ds \<longrightarrow> h2 x = h1 x"
    using add_block_free [OF h1(2), of "block_addr i" "data_addr i"] by auto
  have "last ?ds \<in> set ?ds"
    by (rule last_in_set) simp
  then have "\<forall>x. x \<notin> set (?ds @ [block_addr i]) \<longrightarrow> h2 x = h x"
    using h1(3) h2(3) by (metis Un_iff list.set_intros(1) set_append)
  moreover have "butlast ?ds @ [last ?ds] = ?ds"
    by (rule append_butlast_last_id) simp
  moreover have "butlast (t # map block_addr (is @ [i])) = ?ds" "last (t # map block_addr (is @ [i])) = block_addr i"
    using butlast_snoc [of ?ds "block_addr i"] by auto
  ultimately show ?case
    using h1(1) h2(1,2) by auto
qed

lemma layout_numbers:
  "AR9170_BLOCK_NUMBER = 284" "AR9170_TX_BLOCK_NUMBER = 189" "AR9170_TERMINATOR_NUMBER = 13"
  "AR9170_BLOCK_SIZE = 320" "CARL9170_INTF_NUM = 2"
  by (simp_all add: layout_defs)

lemma unat_terminator: "i < 13 \<Longrightarrow> unat (terminator_addr i) = 0x100000 + 20 * i"
  unfolding terminator_addr_def by (subst unat_of_nat32) (simp_all add: layout_defs)

lemma unat_block: "i < 284 \<Longrightarrow> unat (block_addr i) = 0x100104 + 20 * i"
  unfolding block_addr_def by (subst unat_of_nat32) (simp_all add: layout_defs)

lemma unat_data: "i < 284 \<Longrightarrow> unat (data_addr i) = 0x101740 + 320 * i"
  unfolding data_addr_def by (subst unat_of_nat32) (simp_all add: layout_defs)

lemma block_inj: "i < 284 \<Longrightarrow> j < 284 \<Longrightarrow> block_addr i = block_addr j \<longleftrightarrow> i = j"
  by (rule iffI, drule arg_cong [where f = unat]) (simp_all add: unat_block)

lemma terminator_inj: "i < 13 \<Longrightarrow> j < 13 \<Longrightarrow> terminator_addr i = terminator_addr j \<longleftrightarrow> i = j"
  by (rule iffI, drule arg_cong [where f = unat]) (simp_all add: unat_terminator)

lemma terminator_block: "i < 13 \<Longrightarrow> j < 284 \<Longrightarrow> terminator_addr i \<noteq> block_addr j"
  by (rule notI, drule arg_cong [where f = unat]) (simp add: unat_terminator unat_block)

lemma block_terminator: "i < 13 \<Longrightarrow> j < 284 \<Longrightarrow> block_addr j \<noteq> terminator_addr i"
  using terminator_block by metis

lemma init_block_add:
  "init_block i s = do { qh \<leftarrow> add_block (block_addr i) (data_addr i)
       (f_queues s (if i < 189 then DownQ else RxQ), f_descs s);
     Some (with_queue (if i < 189 then DownQ else RxQ) qh s) }"
  by (simp add: init_block_def reclaim_def add_block_def layout_numbers with_queue_def)

lemma foldM_init_block:
  assumes "\<forall>i \<in> set is. (if i < 189 then DownQ else RxQ) = r"
  shows "foldM init_block is s = do {
     qh \<leftarrow> foldM (\<lambda>i. add_block (block_addr i) (data_addr i)) is (f_queues s r, f_descs s);
     Some (with_queue r qh s) }"
  using assms
proof (induction "is" arbitrary: s)
  case (Cons i "is")
  show ?case
    using Cons by (cases "add_block (block_addr i) (data_addr i) (f_queues s r, f_descs s)")
      (auto simp: init_block_add with_queue_def split: Option.bind_splits)
qed (simp add: with_queue_def)

text \<open>The descriptors of the two rings after the loop.\<close>

definition down_ring :: "u32 list" where
  "down_ring = butlast (terminator_addr 1 # map block_addr [0..<189])"

definition rx_ring :: "u32 list" where
  "rx_ring = butlast (terminator_addr 8 # map block_addr [189..<284])"

lemma map_block_distinct: "j \<le> 284 \<Longrightarrow> k < 13 \<Longrightarrow> distinct (terminator_addr k # map block_addr [i..<j])"
  by (auto simp: distinct_map inj_on_def block_inj terminator_block dest: terminator_block [of k])

lemma init_blocks:
  assumes "f_queues s DownQ = init_queue (terminator_addr 1)"
    "f_queues s RxQ = init_queue (terminator_addr 8)"
  shows "\<exists>s'. foldM init_block [0..<AR9170_BLOCK_NUMBER] s = Some s' \<and>
     free_queue (f_descs s') (f_queues s' DownQ) down_ring (map data_addr [0..<189]) \<and>
     free_queue (f_descs s') (f_queues s' RxQ) rx_ring (map data_addr [189..<284]) \<and>
     s' = s\<lparr> f_queues := (f_queues s)(DownQ := f_queues s' DownQ, RxQ := f_queues s' RxQ),
             f_descs := f_descs s' \<rparr> \<and>
     (\<forall>x. x \<noteq> terminator_addr 1 \<and> x \<noteq> terminator_addr 8 \<and> x \<notin> block_addr ` {..<284} \<longrightarrow>
          f_descs s' x = f_descs s x)"
proof -
  let ?add = "\<lambda>i. add_block (block_addr i) (data_addr i)"
  let ?D = "terminator_addr 1 # map block_addr [0..<189]"
  let ?R = "terminator_addr 8 # map block_addr [189..<284]"
  obtain h1 where h1: "foldM ?add [0..<189] (init_queue (terminator_addr 1), f_descs s) =
       Some (\<lparr> q_head = terminator_addr 1, q_terminator = last ?D \<rparr>, h1)"
     "free_queue h1 \<lparr> q_head = terminator_addr 1, q_terminator = last ?D \<rparr> down_ring (map data_addr [0..<189])"
     "\<forall>x. x \<notin> set ?D \<longrightarrow> h1 x = f_descs s x"
    unfolding down_ring_def
    using add_blocks [OF map_block_distinct [of 189 1 0], of "f_descs s"] by (auto simp del: upt_conv_Cons upt_rec)
  obtain h2 where h2: "foldM ?add [189..<284] (init_queue (terminator_addr 8), h1) =
       Some (\<lparr> q_head = terminator_addr 8, q_terminator = last ?R \<rparr>, h2)"
     "free_queue h2 \<lparr> q_head = terminator_addr 8, q_terminator = last ?R \<rparr> rx_ring (map data_addr [189..<284])"
     "\<forall>x. x \<notin> set ?R \<longrightarrow> h2 x = h1 x"
    unfolding rx_ring_def
    using add_blocks [OF map_block_distinct [of 284 8 189], of h1] by auto
  have "x \<notin> set ?R" if "x \<in> set down_ring" for x
    using in_set_butlastD [OF that [unfolded down_ring_def]] terminator_inj [of 1 8]
    by (auto simp: block_inj terminator_block block_terminator)
  then have d2: "free_queue h2 \<lparr> q_head = terminator_addr 1, q_terminator = last ?D \<rparr> down_ring (map data_addr [0..<189])"
    using h1(2) h2(3) by (metis free_queue_cong)
  have frame: "\<forall>x. x \<noteq> terminator_addr 1 \<and> x \<noteq> terminator_addr 8 \<and> x \<notin> block_addr ` {..<284} \<longrightarrow>
      h2 x = f_descs s x"
    using h1(3) h2(3) by (auto simp: image_iff simp del: upt_rec_numeral)
  have split: "[0..<AR9170_BLOCK_NUMBER] = [0..<189] @ [189..<284]"
    using upt_add_eq_append [of 0 189 95] by (simp add: layout_numbers)
  have "foldM init_block [0..<189] s = Some (with_queue DownQ (\<lparr> q_head = terminator_addr 1, q_terminator = last ?D \<rparr>, h1) s)"
    using assms h1(1) by (subst foldM_init_block [where r = DownQ]) auto
  moreover have "foldM init_block [189..<284] (with_queue DownQ (\<lparr> q_head = terminator_addr 1, q_terminator = last ?D \<rparr>, h1) s) =
      Some (with_queue RxQ (\<lparr> q_head = terminator_addr 8, q_terminator = last ?R \<rparr>, h2)
        (with_queue DownQ (\<lparr> q_head = terminator_addr 1, q_terminator = last ?D \<rparr>, h1) s))"
    using assms h2(1) by (subst foldM_init_block [where r = RxQ]) (auto simp: with_queue_def)
  ultimately show ?thesis
    unfolding split using d2 h2(2) frame by (simp add: with_queue_def)
qed

lemma fold_clear_dataAddr:
  "d \<in> set (map terminator_addr is) \<Longrightarrow>
     dd_dataAddr (fold (\<lambda>i. clear_descriptor (terminator_addr i)) is h d) = 0"
  by (induction "is" rule: rev_induct) (auto simp: clear_descriptor_def)

lemma set_dma_addresses_core: "same_core s (set_dma_addresses s)"
  unfolding set_dma_addresses_def set_wlan_txq_dma_addr_def Let_def
  by (simp add: upt_rec) (meson same_core_set_reg same_core_trans)

text \<open>\<^verbatim>\<open>dma_init_descriptors\<close> returns, whatever the state before; the host-to-device queue then holds
  189 free blocks and the receive queue 95, all owned by the hardware, pointing to the 284 data
  blocks in order; the other queues are empty, and the response descriptor points to the response
  buffer, whose first twelve bytes are the 0xff header of interrupt transfers.\<close>

theorem dma_init_descriptors_rings:
  "\<exists>s'. dma_init_descriptors s = Some s' \<and>
     free_queue (f_descs s') (f_queues s' DownQ) down_ring (map data_addr [0..<189]) \<and>
     free_queue (f_descs s') (f_queues s' RxQ) rx_ring (map data_addr [189..<284]) \<and>
     list_all (\<lambda>r. queue_is r s' []) ([UpQ, RetryQ, CabQ 0, CabQ 1] @ map TxQ [0..<5]) \<and>
     u_int_desc_available (f_usb s') = 1 \<and> w_fw_desc_available (f_wlan s') = 1 \<and>
     payload (u_int_desc (f_usb s')) s' = reserved_rsp \<and>
     rd_bytes reserved_rsp 12 (f_ram s') = replicate 12 0xFF"
proof -
  define s1 where "s1 = init_terminators s"
  have q1: "f_queues s1 = init_queues (f_queues s)"
    by (simp add: s1_def init_terminators_def)
  obtain s2 where s2: "foldM init_block [0..<AR9170_BLOCK_NUMBER] s1 = Some s2"
      "free_queue (f_descs s2) (f_queues s2 DownQ) down_ring (map data_addr [0..<189])"
      "free_queue (f_descs s2) (f_queues s2 RxQ) rx_ring (map data_addr [189..<284])"
      "s2 = s1\<lparr> f_queues := (f_queues s1)(DownQ := f_queues s2 DownQ, RxQ := f_queues s2 RxQ),
             f_descs := f_descs s2 \<rparr>"
      "\<forall>x. x \<noteq> terminator_addr 1 \<and> x \<noteq> terminator_addr 8 \<and> x \<notin> block_addr ` {..<284} \<longrightarrow>
          f_descs s2 x = f_descs s1 x"
    using init_blocks [of s1] by (auto simp: q1 init_queues_def)
  define s3 where "s3 = set_dma_addresses s2"
  note f3 = fields_same_core [OF set_dma_addresses_core [of s2, folded s3_def]]
  have u2: "u_int_desc (f_usb s2) = terminator_addr 9"
    by (subst s2(4)) (simp add: s1_def init_terminators_def)
  have w2: "w_fw_desc (f_wlan s2) = terminator_addr 10"
    by (subst s2(4)) (simp add: s1_def init_terminators_def)
  have q2: "f_queues s2 r = init_queues (f_queues s) r" if "r \<noteq> DownQ" "r \<noteq> RxQ" for r
    using that by (subst s2(4)) (simp add: q1)
  have d10: "dd_dataAddr (f_descs s2 (terminator_addr 10)) = 0"
  proof -
    have "f_descs s2 (terminator_addr 10) = f_descs s1 (terminator_addr 10)"
      by (rule s2(5) [rule_format]) (auto simp: terminator_inj terminator_block)
    then show ?thesis
      using fold_clear_dataAddr [of "terminator_addr 10" "[0..<AR9170_TERMINATOR_NUMBER]" "f_descs s"]
      by (simp add: s1_def init_terminators_def layout_numbers del: upt_rec_numeral)
  qed
  have d3: "u_int_desc (f_usb s3) = terminator_addr 9" "w_fw_desc (f_wlan s3) = terminator_addr 10"
    "terminator_addr 9 \<noteq> terminator_addr 10" "payload (terminator_addr 10) s3 = 0"
    using u2 w2 d10 by (simp_all add: f3 terminator_inj payload_def)
  note fin = init_service_descs_fields [OF d3(1-3)]
  let ?t = "init_service_descs s3"
  have eq: "dma_init_descriptors s = Some ?t"
    using s2(1) by (simp add: dma_init_descriptors_def s1_def s3_def)
  have nine: "terminator_addr 9 \<notin> set down_ring" "terminator_addr 9 \<notin> set rx_ring"
    by (auto simp: down_ring_def rx_ring_def terminator_inj terminator_block
        simp del: upt_rec_numeral dest!: in_set_butlastD)
  have keep: "f_descs ?t x = f_descs s2 x" if "x \<in> set down_ring \<or> x \<in> set rx_ring" for x
    using that nine fin(2) [of x] f3 by metis
  have "free_queue (f_descs ?t) (f_queues ?t DownQ) down_ring (map data_addr [0..<189])"
    unfolding fin f3 using keep by (intro free_queue_cong [OF s2(2)]) blast
  moreover have "free_queue (f_descs ?t) (f_queues ?t RxQ) rx_ring (map data_addr [189..<284])"
    unfolding fin f3 using keep by (intro free_queue_cong [OF s2(3)]) blast
  moreover have "rd_bytes reserved_rsp 12 (f_ram ?t) = replicate 12 0xFF"
  proof -
    have "disjoint_ranges reserved_rsp 12 0 128" "disjoint_ranges reserved_rsp 12 (reserved_rsp + 12) 308"
      by (rule disjoint_rangesI; simp add: layout_defs)+
    then show ?thesis
      by (simp add: fin d3(4) mem_simps)
  qed
  moreover have "list_all (\<lambda>r. queue_is r ?t []) ([UpQ, RetryQ, CabQ 0, CabQ 1] @ map TxQ [0..<5])"
    by (simp add: fin f3 q2 init_queues_def layout_numbers upt_rec)
  ultimately show ?thesis
    using eq fin(3-6) by auto
qed

end
