(* ===== verification/Queues.thy ===== *)
theory Queues
  imports Dma
begin

text \<open>The queues of the firmware together. The interface the handlers use is a locale: a state that
  stores packets in queues, from which a handler takes packets, works on them and gives them back.
  The laws of the locale are proved for the model's operations on \<^typ>\<open>fw_state\<close>; the loops that
  drain a queue are verified once, inside the locale.\<close>

subsection \<open>The interface\<close>

locale packet_store =
  fixes ok :: "'s \<Rightarrow> ('q \<Rightarrow> 'p list) \<Rightarrow> bool"
    and detached :: "'s \<Rightarrow> ('q \<Rightarrow> 'p list) \<Rightarrow> 'p \<Rightarrow> bool"
    and handle :: "'p \<Rightarrow> 'd"
    and refs :: "'q set"
    and take_head :: "'q \<Rightarrow> 's \<Rightarrow> 'd option \<times> 's"
  assumes take_empty: "ok s Q \<Longrightarrow> r \<in> refs \<Longrightarrow> Q r = [] \<Longrightarrow> take_head r s = (None, s)"
    and take_first: "ok s Q \<Longrightarrow> r \<in> refs \<Longrightarrow> Q r = p # ps \<Longrightarrow>
       \<exists>s'. take_head r s = (Some (handle p), s') \<and> ok s' (Q(r := ps)) \<and> detached s' (Q(r := ps)) p"
begin

text \<open>\<^verbatim>\<open>while ((desc = dma_unlink_head(q))) body(desc)\<close>, with a count of the iterations left.\<close>

fun drain_n :: "nat \<Rightarrow> ('d \<Rightarrow> 's \<Rightarrow> 's option) \<Rightarrow> 'q \<Rightarrow> 's \<Rightarrow> 's option" where
  "drain_n 0 body r s = None"
| "drain_n (Suc n) body r s =
     (case take_head r s of (None, s) \<Rightarrow> Some s
      | (Some d, s) \<Rightarrow> do { s \<leftarrow> body d s; drain_n n body r s })"

text \<open>If every round keeps the invariant \<^verbatim>\<open>I\<close>, which records the packets done so far, and leaves the
  rest of the drained queue alone, the loop ends after one round per packet, having treated the
  packets in the order of the queue.\<close>

lemma drain_steps:
  assumes "ok s Q" "r \<in> refs" "I s Q did"
    and step: "\<And>s Q p ps did. ok s Q \<Longrightarrow> I s Q did \<Longrightarrow> Q r = p # ps \<Longrightarrow>
       \<exists>s1 s2 Q2. take_head r s = (Some (handle p), s1) \<and> body (handle p) s1 = Some s2 \<and>
         ok s2 Q2 \<and> I s2 Q2 (did @ [p]) \<and> Q2 r = ps"
  shows "\<exists>s' Q'. drain_n (Suc (length (Q r))) body r s = Some s' \<and> ok s' Q' \<and> Q' r = [] \<and>
     I s' Q' (did @ Q r)"
  using assms(1-3)
proof (induction "Q r" arbitrary: s Q did)
  case Nil
  then show ?case
    using take_empty [of s Q r] by (auto intro!: exI [of _ Q])
next
  case (Cons p ps)
  have Qr: "Q r = p # ps"
    using Cons.hyps by simp
  obtain s1 s2 Q2 where s2: "take_head r s = (Some (handle p), s1)" "body (handle p) s1 = Some s2"
      "ok s2 Q2" "I s2 Q2 (did @ [p])" "Q2 r = ps"
    using step [OF Cons.prems(1,3) Qr] by blast
  then have "\<exists>s' Q'. drain_n (Suc (length (Q2 r))) body r s2 = Some s' \<and> ok s' Q' \<and> Q' r = [] \<and>
      I s' Q' ((did @ [p]) @ Q2 r)"
    using Cons.prems(2) Cons.hyps(1) [of Q2 s2 "did @ [p]"] by simp
  then show ?case
    using s2 Qr by simp
qed

text \<open>The usual case: the body works on the packet it got and the queue.\<close>

lemma drain_all:
  assumes "ok s Q" "r \<in> refs" "I s Q did"
    and take: "\<And>s Q p ps s' did. ok s Q \<Longrightarrow> I s Q did \<Longrightarrow> Q r = p # ps \<Longrightarrow>
       take_head r s = (Some (handle p), s') \<Longrightarrow> I s' (Q(r := ps)) did"
    and body: "\<And>s Q p did. ok s Q \<Longrightarrow> detached s Q p \<Longrightarrow> I s Q did \<Longrightarrow>
       \<exists>s' Q'. body (handle p) s = Some s' \<and> ok s' Q' \<and> I s' Q' (did @ [p]) \<and> Q' r = Q r"
  shows "\<exists>s' Q'. drain_n (Suc (length (Q r))) body r s = Some s' \<and> ok s' Q' \<and> Q' r = [] \<and>
     I s' Q' (did @ Q r)"
proof (rule drain_steps [where I = I, OF assms(1-3)])
  fix s Q p ps did
  assume q: "ok s Q" "I s Q did" "Q r = p # ps"
  obtain s1 where s1: "take_head r s = (Some (handle p), s1)" "ok s1 (Q(r := ps))"
      "detached s1 (Q(r := ps)) p"
    using take_first [OF q(1) assms(2) q(3)] by blast
  then show "\<exists>s1 s2 Q2. take_head r s = (Some (handle p), s1) \<and> body (handle p) s1 = Some s2 \<and>
      ok s2 Q2 \<and> I s2 Q2 (did @ [p]) \<and> Q2 r = ps"
    using body [OF s1(2,3) take [OF q s1(1)]] by fastforce
qed

end

text \<open>A store that packets can also be given to.\<close>

locale packet_fifo = packet_store ok detached handle refs take_head
  for ok :: "'s \<Rightarrow> ('q \<Rightarrow> 'p list) \<Rightarrow> bool" and detached :: "'s \<Rightarrow> ('q \<Rightarrow> 'p list) \<Rightarrow> 'p \<Rightarrow> bool"
    and handle :: "'p \<Rightarrow> 'd" and refs :: "'q set" and take_head :: "'q \<Rightarrow> 's \<Rightarrow> 'd option \<times> 's" +
  fixes give :: "'q \<Rightarrow> 'd \<Rightarrow> 's \<Rightarrow> 's option"
    and view :: "'s \<Rightarrow> 'p \<Rightarrow> 'c"
  assumes take_view: "ok s Q \<Longrightarrow> r \<in> refs \<Longrightarrow> view (snd (take_head r s)) x = view s x"
    and give_last: "ok s Q \<Longrightarrow> r \<in> refs \<Longrightarrow> detached s Q p \<Longrightarrow>
       \<exists>s' p'. give r (handle p) s = Some s' \<and> ok s' (Q(r := Q r @ [p'])) \<and> view s' p' = view s p \<and>
         (\<forall>q \<in> refs. map (view s') (Q q) = map (view s) (Q q))"
begin

text \<open>Moving the first packet of one queue to the tail of another keeps every packet's contents, and
  their order.\<close>

lemma move_first:
  assumes "ok s Q" "r \<in> refs" "q \<in> refs" "Q r = p # ps"
  shows "\<exists>s1 s2 p'. take_head r s = (Some (handle p), s1) \<and> give q (handle p) s1 = Some s2 \<and>
     ok s2 ((Q(r := ps))(q := (Q(r := ps)) q @ [p'])) \<and> view s2 p' = view s p \<and>
     (\<forall>x \<in> refs. map (view s2) ((Q(r := ps)) x) = map (view s) ((Q(r := ps)) x))"
proof -
  obtain s1 where s1: "take_head r s = (Some (handle p), s1)" "ok s1 (Q(r := ps))"
      "detached s1 (Q(r := ps)) p"
    using take_first [OF assms(1,2,4)] by blast
  have v: "view s1 x = view s x" for x
    using take_view [OF assms(1,2), of x] s1(1) by simp
  show ?thesis
    using give_last [OF s1(2) assms(3) s1(3)] s1(1) v by auto
qed

end

subsection \<open>The firmware's queues\<close>

definition all_queues :: "qref set" where
  "all_queues = {UpQ, DownQ, RetryQ, RxQ} \<union> TxQ ` {..<5} \<union> CabQ ` {..<CARL9170_INTF_NUM}"

definition queue_set :: "fw_state \<Rightarrow> (qref \<Rightarrow> u32 list list) \<Rightarrow> qref \<Rightarrow> u32 set" where
  "queue_set s Q r = insert (q_terminator (f_queues s r)) (set (concat (Q r)))"

text \<open>Every queue is well formed and no two of them share a descriptor.\<close>

definition queues_ok :: "fw_state \<Rightarrow> (qref \<Rightarrow> u32 list list) \<Rightarrow> bool" where
  "queues_ok s Q \<longleftrightarrow> (\<forall>r \<in> all_queues. queue_is r s (Q r)) \<and>
     (\<forall>r \<in> all_queues. \<forall>q \<in> all_queues. r \<noteq> q \<longrightarrow> queue_set s Q r \<inter> queue_set s Q q = {})"

text \<open>A packet that is in no queue.\<close>

definition detached :: "fw_state \<Rightarrow> (qref \<Rightarrow> u32 list list) \<Rightarrow> u32 list \<Rightarrow> bool" where
  "detached s Q p \<longleftrightarrow> packet_ok (f_descs s) p \<and> (\<forall>r \<in> all_queues. set p \<inter> queue_set s Q r = {})"

definition packet_contents :: "fw_state \<Rightarrow> u32 list \<Rightarrow> (u32 \<times> u16 \<times> u16) list" where
  "packet_contents s p = contents (f_descs s) p"

text \<open>What the queues depend on: their heads and terminators and the links of the descriptors.\<close>

definition same_links :: "fw_state \<Rightarrow> fw_state \<Rightarrow> bool" where
  "same_links s t \<longleftrightarrow> f_queues s = f_queues t \<and>
     (\<forall>d. dd_nextAddr (f_descs s d) = dd_nextAddr (f_descs t d) \<and>
          dd_lastAddr (f_descs s d) = dd_lastAddr (f_descs t d))"

lemma same_links_refl [simp]: "same_links s s"
  by (simp add: same_links_def)

lemma same_links_trans: "same_links s t \<Longrightarrow> same_links t u \<Longrightarrow> same_links s u"
  by (simp add: same_links_def)

lemma packet_ok_links:
  assumes "\<And>d. dd_nextAddr (h d) = dd_nextAddr (h' d) \<and> dd_lastAddr (h d) = dd_lastAddr (h' d)"
  shows "packet_ok h p = packet_ok h' p"
  using assms chain_cong [of p h h'] by (simp add: packet_ok_def)

lemma queue_chain_links:
  assumes "\<And>d. dd_nextAddr (h d) = dd_nextAddr (h' d) \<and> dd_lastAddr (h d) = dd_lastAddr (h' d)"
  shows "queue_chain h x ps t = queue_chain h' x ps t"
  using assms packet_ok_links [of h h'] by (induction ps arbitrary: x) auto

lemma queues_ok_links: "same_links s t \<Longrightarrow> queues_ok s Q = queues_ok t Q"
  using queue_chain_links [of "f_descs s" "f_descs t"]
  by (simp add: same_links_def queues_ok_def queue_ok_def queue_set_def)

lemma detached_links: "same_links s t \<Longrightarrow> detached s Q p = detached t Q p"
  using packet_ok_links [of "f_descs s" "f_descs t"]
  by (simp add: same_links_def detached_def queue_set_def)

lemma same_core_links: "same_core s t \<Longrightarrow> same_links s t"
  by (simp add: same_links_def fields_same_core)

lemma queue_ok_frame:
  assumes "queue_ok h q ps" "\<And>d. d \<in> set (concat ps) \<Longrightarrow> h d = h' d"
  shows "queue_ok h' q ps"
  using assms queue_chain_cong [of ps h h'] by (simp add: queue_ok_def)

lemma unlink_head_empty: "queues_ok s Q \<Longrightarrow> r \<in> all_queues \<Longrightarrow> Q r = [] \<Longrightarrow> unlink_head r s = (None, s)"
  using queue_ok_empty [of "f_descs s" "f_queues s r" "[]"]
  by (auto simp: unlink_head_def dma_unlink_head_def with_queue_def queues_ok_def)

lemma unlink_head_first:
  assumes "queues_ok s Q" "r \<in> all_queues" "Q r = p # ps"
  shows "\<exists>s'. unlink_head r s = (Some (hd p), s') \<and> queues_ok s' (Q(r := ps)) \<and> detached s' (Q(r := ps)) p \<and>
     s' = with_queue r ((f_queues s r)\<lparr> q_head := dd_nextAddr (f_descs s (last p)) \<rparr>, unlink_result p (f_descs s)) s"
proof -
  let ?q = "(f_queues s r)\<lparr> q_head := dd_nextAddr (f_descs s (last p)) \<rparr>"
  let ?h = "unlink_result p (f_descs s)"
  let ?s = "with_queue r (?q, ?h) s"
  have q: "queue_ok (f_descs s) (f_queues s r) (p # ps)"
    using assms by (metis queues_ok_def)
  have un: "unlink_head r s = (Some (hd p), ?s)"
    using dma_unlink_head_result [OF q] by (simp add: unlink_head_def)
  have pk: "packet_ok (f_descs s) p" "last p \<in> set p"
    using q by (auto simp: queue_ok_def packet_ok_def)
  have sets: "queue_set ?s (Q(r := ps)) x \<subseteq> queue_set s Q x" "x \<noteq> r \<Longrightarrow> queue_set ?s (Q(r := ps)) x = queue_set s Q x" for x
    using assms(3) by (auto simp: queue_set_def with_queue_def)
  have own: "queue_ok ?h ?q ps"
    using unlink_result_queue [OF q] .
  have "queue_is x ?s ((Q(r := ps)) x)" if "x \<in> all_queues" for x
  proof (cases "x = r")
    case False
    then have "queue_set s Q x \<inter> queue_set s Q r = {}" "queue_is x s (Q x)"
      using assms that by (auto simp: queues_ok_def)
    then have "last p \<notin> set (concat (Q x))"
      using pk(2) assms(3) by (auto simp: queue_set_def)
    then have "queue_ok ?h (f_queues s x) (Q x)"
      by (intro queue_ok_frame [OF \<open>queue_is x s (Q x)\<close>]) (auto simp: unlink_result_def)
    with False show ?thesis
      by (simp add: with_queue_def)
  qed (use own in \<open>simp add: with_queue_def\<close>)
  moreover have "queue_set ?s (Q(r := ps)) x \<inter> queue_set ?s (Q(r := ps)) y = {}"
    if "x \<in> all_queues" "y \<in> all_queues" "x \<noteq> y" for x y
    using assms(1) that sets(1) unfolding queues_ok_def by blast
  ultimately have ok: "queues_ok ?s (Q(r := ps))"
    by (simp add: queues_ok_def)
  have "set p \<inter> queue_set ?s (Q(r := ps)) x = {}" if "x \<in> all_queues" for x
  proof (cases "x = r")
    case True
    then show ?thesis
      using q by (auto simp: queue_ok_def queue_set_def with_queue_def)
  next
    case False
    then have "queue_set s Q x \<inter> queue_set s Q r = {}"
      using assms that by (auto simp: queues_ok_def)
    then show ?thesis
      using sets(2) [OF False] assms(3) by (auto simp: queue_set_def)
  qed
  then have "detached ?s (Q(r := ps)) p"
    using unlink_result_packet(1) [OF pk(1)] by (simp add: detached_def with_queue_def)
  with un ok show ?thesis
    by blast
qed

text \<open>The put and reclaim operations: a detached packet joins a queue.\<close>

lemma add_result_queues:
  assumes ok: "queues_ok s Q" and r: "r \<in> all_queues" and p: "detached s Q p"
    and own: "queue_ok h' ((f_queues s r)\<lparr> q_terminator := hd p \<rparr>) (Q r @ new)"
    and new: "set (concat new) = insert (q_terminator (f_queues s r)) (set (tl p))"
    and frame: "\<And>d. d \<noteq> q_terminator (f_queues s r) \<Longrightarrow> d \<notin> set p \<Longrightarrow> h' d = f_descs s d"
  shows "queues_ok (with_queue r ((f_queues s r)\<lparr> q_terminator := hd p \<rparr>, h') s) (Q(r := Q r @ new))"
    and "x \<in> all_queues \<Longrightarrow> map (contents h') (Q x) = map (packet_contents s) (Q x)"
proof -
  let ?q = "(f_queues s r)\<lparr> q_terminator := hd p \<rparr>"
  let ?s = "with_queue r (?q, h') s"
  have ne: "p \<noteq> []"
    using p by (auto simp: detached_def packet_ok_def)
  have sets: "queue_set ?s (Q(r := Q r @ new)) r = queue_set s Q r \<union> set p"
    using new ne by (cases p) (auto simp: queue_set_def with_queue_def)
  have sets': "x \<noteq> r \<Longrightarrow> queue_set ?s (Q(r := Q r @ new)) x = queue_set s Q x" for x
    by (auto simp: queue_set_def with_queue_def)
  have fr: "h' d = f_descs s d" if "d \<in> set (concat (Q x))" "x \<in> all_queues" for d x
  proof (rule frame)
    show "d \<notin> set p"
      using p that by (auto simp: detached_def queue_set_def)
    show "d \<noteq> q_terminator (f_queues s r)"
    proof (cases "x = r")
      case True
      then show ?thesis
        using ok r that by (auto simp: queues_ok_def queue_ok_def)
    next
      case False
      then have "queue_set s Q x \<inter> queue_set s Q r = {}"
        using ok r that by (auto simp: queues_ok_def)
      then show ?thesis
        using that by (auto simp: queue_set_def)
    qed
  qed
  have "queue_is x ?s ((Q(r := Q r @ new)) x)" if "x \<in> all_queues" for x
  proof (cases "x = r")
    case False
    have "queue_is x s (Q x)"
      using ok that by (simp add: queues_ok_def)
    then have "queue_ok h' (f_queues s x) (Q x)"
      by (rule queue_ok_frame) (simp add: fr [OF _ that] del: set_concat)
    with False show ?thesis
      by (simp add: with_queue_def)
  qed (use own in \<open>simp add: with_queue_def\<close>)
  moreover have "queue_set ?s (Q(r := Q r @ new)) x \<inter> queue_set ?s (Q(r := Q r @ new)) y = {}"
    if "x \<in> all_queues" "y \<in> all_queues" "x \<noteq> y" for x y
  proof -
    have "queue_set s Q x \<inter> queue_set s Q y = {}" "set p \<inter> queue_set s Q x = {}" "set p \<inter> queue_set s Q y = {}"
      using ok p that by (auto simp: queues_ok_def detached_def)
    then have "(queue_set s Q x \<union> set p) \<inter> queue_set s Q y = {}" "queue_set s Q x \<inter> (queue_set s Q y \<union> set p) = {}"
      "queue_set s Q x \<inter> queue_set s Q y = {}"
      by blast+
    then show ?thesis
      using sets sets' \<open>x \<noteq> y\<close> by metis
  qed
  ultimately show "queues_ok ?s (Q(r := Q r @ new))"
    by (simp add: queues_ok_def)
  show "x \<in> all_queues \<Longrightarrow> map (contents h') (Q x) = map (packet_contents s) (Q x)"
    unfolding packet_contents_def by (rule map_cong [OF refl contents_cong], rule fr) auto
qed

lemma detachedD:
  assumes "detached s Q p" "queues_ok s Q" "r \<in> all_queues"
  shows "packet_ok (f_descs s) p" "q_terminator (f_queues s r) \<notin> set p" "set p \<inter> set (concat (Q r)) = {}"
    "queue_is r s (Q r)"
  using assms by (auto simp: detached_def queue_set_def queues_ok_def)

lemma put_detached:
  assumes "queues_ok s Q" "r \<in> all_queues" "detached s Q p"
  shows "\<exists>s' p'. put r (hd p) s = Some s' \<and> queues_ok s' (Q(r := Q r @ [p'])) \<and>
     packet_contents s' p' = packet_contents s p \<and>
     (\<forall>x \<in> all_queues. map (packet_contents s') (Q x) = map (packet_contents s) (Q x)) \<and>
     hw_owned (f_descs s') p' \<and> p' = q_terminator (f_queues s r) # tl p \<and>
     s' = with_queue r ((f_queues s r)\<lparr> q_terminator := hd p \<rparr>, put_result (q_terminator (f_queues s r)) p (f_descs s)) s"
proof -
  note d = detachedD [OF assms(3,1,2)]
  let ?t = "q_terminator (f_queues s r)"
  let ?h = "put_result ?t p (f_descs s)"
  have ne: "p \<noteq> []"
    using d(1) by (auto simp: packet_ok_def)
  have own: "queue_ok ?h ((f_queues s r)\<lparr> q_terminator := hd p \<rparr>) (Q r @ [stored ?t p])"
    using put_result_queue [OF d(4,1,3,2)] .
  have new: "set (concat [stored ?t p]) = insert ?t (set (tl p))"
    by (simp add: stored_def)
  have frame: "\<And>d. d \<noteq> ?t \<Longrightarrow> d \<notin> set p \<Longrightarrow> ?h d = f_descs s d"
    using ne by (intro put_result_other)
  note add = add_result_queues [OF assms own new frame]
  show ?thesis
    using dma_put_result [OF d(1,2)] add put_result_packet [OF d(1,2)]
    by (intro exI [of _ "with_queue r ((f_queues s r)\<lparr> q_terminator := hd p \<rparr>, ?h) s"] exI [of _ "stored ?t p"])
      (simp add: put_def packet_contents_def with_queue_def stored_def)
qed

lemma reclaim_detached:
  assumes "queues_ok s Q" "r \<in> all_queues" "detached s Q p"
  shows "\<exists>s' xs. reclaim r (hd p) s = Some s' \<and> queues_ok s' (Q(r := Q r @ singles xs)) \<and>
     map (\<lambda>x. dd_dataAddr (f_descs s' x)) xs = map (\<lambda>x. dd_dataAddr (f_descs s x)) p \<and>
     (\<forall>x \<in> set xs. free_block (f_descs s' x)) \<and> xs = q_terminator (f_queues s r) # tl p \<and>
     (\<forall>x \<in> all_queues. map (packet_contents s') (Q x) = map (packet_contents s) (Q x)) \<and>
     s' = with_queue r ((f_queues s r)\<lparr> q_terminator := hd p \<rparr>, reclaim_result (q_terminator (f_queues s r)) p (f_descs s)) s"
proof -
  note d = detachedD [OF assms(3,1,2)]
  let ?t = "q_terminator (f_queues s r)"
  let ?h = "reclaim_result ?t p (f_descs s)"
  have ne: "p \<noteq> []"
    using d(1) by (auto simp: packet_ok_def)
  note res = reclaim_result_queue [OF d(4,1,3,2)]
  have new: "set (concat (singles (stored ?t p))) = insert ?t (set (tl p))"
    by (simp add: stored_def)
  have frame: "\<And>d. d \<noteq> ?t \<Longrightarrow> d \<notin> set p \<Longrightarrow> ?h d = f_descs s d"
    using ne by (intro reclaim_result_other)
  note add = add_result_queues [OF assms res(1) new frame]
  show ?thesis
    using dma_reclaim_result [OF d(1,2)] add res
    by (intro exI [of _ "with_queue r ((f_queues s r)\<lparr> q_terminator := hd p \<rparr>, ?h) s"] exI [of _ "stored ?t p"])
      (simp add: reclaim_def packet_contents_def with_queue_def stored_def free_block_def Let_def comp_def)
qed

subsection \<open>The firmware's queues meet the interface\<close>

interpretation fw: packet_fifo queues_ok detached hd all_queues unlink_head put packet_contents
proof unfold_locales
  show "unlink_head r s = (None, s)" if "queues_ok s Q" "r \<in> all_queues" "Q r = []" for s Q r
    using that by (rule unlink_head_empty)
  show "\<exists>s'. unlink_head r s = (Some (hd p), s') \<and> queues_ok s' (Q(r := ps)) \<and> detached s' (Q(r := ps)) p"
    if "queues_ok s Q" "r \<in> all_queues" "Q r = p # ps" for s Q r p ps
    using unlink_head_first [OF that] by blast
  show "packet_contents (snd (unlink_head r s)) x = packet_contents s x"
    if "queues_ok s Q" "r \<in> all_queues" for s Q r x
  proof (cases "Q r")
    case (Cons p ps)
    then show ?thesis
      using unlink_head_first [OF that] by (auto simp: packet_contents_def contents_def with_queue_def unlink_result_def)
  qed (use unlink_head_empty [OF that] in simp)
  show "\<exists>s' p'. put r (hd p) s = Some s' \<and> queues_ok s' (Q(r := Q r @ [p'])) \<and>
      packet_contents s' p' = packet_contents s p \<and>
      (\<forall>q \<in> all_queues. map (packet_contents s') (Q q) = map (packet_contents s) (Q q))"
    if "queues_ok s Q" "r \<in> all_queues" "detached s Q p" for s Q r p
    using put_detached [OF that] by blast
qed

text \<open>The terminator each queue starts with.\<close>

fun queue_index :: "qref \<Rightarrow> nat" where
  "queue_index UpQ = 0"
| "queue_index DownQ = 1"
| "queue_index (TxQ j) = 2 + j"
| "queue_index RetryQ = 7"
| "queue_index RxQ = 8"
| "queue_index (CabQ j) = 11 + j"

lemma init_queues_index:
  assumes "r \<in> all_queues"
  shows "init_queues qs r = init_queue (terminator_addr (queue_index r)) \<and> queue_index r < 13"
  using assms by (auto simp: all_queues_def init_queues_def layout_numbers)

lemma queue_index_inj: "r \<in> all_queues \<Longrightarrow> q \<in> all_queues \<Longrightarrow> queue_index r = queue_index q \<Longrightarrow> r = q"
  by (auto simp: all_queues_def layout_numbers)

lemma queues_ok_init:
  assumes "f_queues s = init_queues qs"
  shows "queues_ok s (\<lambda>_. [])"
proof -
  have "queue_set s (\<lambda>_. []) r = {terminator_addr (queue_index r)}" "queue_is r s []" if "r \<in> all_queues" for r
    using init_queues_index [OF that, of qs] assms by (simp_all add: queue_set_def init_queue_def queue_ok_def)
  moreover have "terminator_addr (queue_index r) \<noteq> terminator_addr (queue_index q)"
    if "r \<in> all_queues" "q \<in> all_queues" "r \<noteq> q" for r q
    using that init_queues_index queue_index_inj terminator_inj by metis
  ultimately show ?thesis
    by (simp add: queues_ok_def)
qed

subsection \<open>The loops over a queue (the macros of dma.h)\<close>

text \<open>\<^verbatim>\<open>for_each_desc\<close> and \<^verbatim>\<open>for_each_desc_not_bits\<close> with their body.\<close>

partial_function (option) for_each_desc ::
    "(u32 \<Rightarrow> fw_state \<Rightarrow> fw_state option) \<Rightarrow> qref \<Rightarrow> fw_state \<Rightarrow> fw_state option" where
  "for_each_desc body r s =
     (case unlink_head r s of (d, s) \<Rightarrow>
        (case d of None \<Rightarrow> Some s | Some d \<Rightarrow> do { s \<leftarrow> body d s; for_each_desc body r s }))"

partial_function (option) for_each_desc_not_bits ::
    "(u32 \<Rightarrow> fw_state \<Rightarrow> fw_state option) \<Rightarrow> qref \<Rightarrow> u16 \<Rightarrow> fw_state \<Rightarrow> fw_state option" where
  "for_each_desc_not_bits body r bits s =
     (case dequeue_not_bits r bits s of (d, s) \<Rightarrow>
        (case d of None \<Rightarrow> Some s | Some d \<Rightarrow> do { s \<leftarrow> body d s; for_each_desc_not_bits body r bits s }))"

text \<open>\<^verbatim>\<open>__for_each_desc_bits\<close> with the empty body: where its variable stops.\<close>

partial_function (option) walk_desc_bits :: "dma_queue \<Rightarrow> u16 \<Rightarrow> u32 \<Rightarrow> desc_heap \<Rightarrow> u32 option" where
  "walk_desc_bits q bits desc h =
     (if desc \<noteq> q_terminator q \<and> dd_status (h desc) AND AR9170_OWN_BITS = bits
      then walk_desc_bits q bits (dd_nextAddr (h (dd_lastAddr (h desc)))) h else Some desc)"

lemma for_each_desc_drain:
  "fw.drain_n n body r s = Some s' \<Longrightarrow> for_each_desc body r s = Some s'"
proof (induction n arbitrary: s)
  case (Suc n)
  then show ?case
    by (subst for_each_desc.simps) (auto split: prod.splits option.splits Option.bind_splits)
qed simp

text \<open>Draining a queue under an invariant, on the loop of the code.\<close>

lemma for_each_desc_steps:
  assumes "queues_ok s Q" "r \<in> all_queues" "I s Q did"
    and "\<And>s Q p ps did. queues_ok s Q \<Longrightarrow> I s Q did \<Longrightarrow> Q r = p # ps \<Longrightarrow>
       \<exists>s1 s2 Q2. unlink_head r s = (Some (hd p), s1) \<and> body (hd p) s1 = Some s2 \<and>
         queues_ok s2 Q2 \<and> I s2 Q2 (did @ [p]) \<and> Q2 r = ps"
  shows "\<exists>s' Q'. for_each_desc body r s = Some s' \<and> queues_ok s' Q' \<and> Q' r = [] \<and> I s' Q' (did @ Q r)"
proof -
  have "\<exists>s' Q'. fw.drain_n (Suc (length (Q r))) body r s = Some s' \<and> queues_ok s' Q' \<and> Q' r = [] \<and>
      I s' Q' (did @ Q r)"
    by (rule fw.drain_steps [where I = I]) (use assms in blast)+
  then show ?thesis
    using for_each_desc_drain by blast
qed

lemma for_each_desc_all:
  assumes "queues_ok s Q" "r \<in> all_queues" "I s Q"
    and "\<And>s Q p ps s'. queues_ok s Q \<Longrightarrow> I s Q \<Longrightarrow> Q r = p # ps \<Longrightarrow>
       unlink_head r s = (Some (hd p), s') \<Longrightarrow> I s' (Q(r := ps))"
    and "\<And>s Q p. queues_ok s Q \<Longrightarrow> detached s Q p \<Longrightarrow> I s Q \<Longrightarrow>
       \<exists>s' Q'. body (hd p) s = Some s' \<and> queues_ok s' Q' \<and> I s' Q' \<and> Q' r = Q r"
  shows "\<exists>s' Q'. for_each_desc body r s = Some s' \<and> queues_ok s' Q' \<and> Q' r = [] \<and> I s' Q'"
proof -
  have "\<exists>s' Q'. fw.drain_n (Suc (length (Q r))) body r s = Some s' \<and> queues_ok s' Q' \<and> Q' r = [] \<and> I s' Q'"
    by (rule fw.drain_all [where I = "\<lambda>s Q did. I s Q"]) (use assms in blast)+
  then show ?thesis
    using for_each_desc_drain by blast
qed

text \<open>The walk stops at the first packet whose status differs, or at the terminator.\<close>

definition first_other :: "u16 \<Rightarrow> desc_heap \<Rightarrow> u32 \<Rightarrow> u32 list list \<Rightarrow> u32" where
  "first_other bits h t ps =
     (case dropWhile (\<lambda>p. dd_status (h (hd p)) AND AR9170_OWN_BITS = bits) ps of [] \<Rightarrow> t | p # _ \<Rightarrow> hd p)"

lemma walk_desc_bits_stops:
  assumes "queue_chain h x ps (q_terminator q)" "q_terminator q \<notin> set (concat ps)"
  shows "walk_desc_bits q bits x h = Some (first_other bits h (q_terminator q) ps)"
  using assms
proof (induction ps arbitrary: x)
  case Nil
  then show ?case
    by (subst walk_desc_bits.simps) (simp add: first_other_def)
next
  case (Cons p ps)
  have p: "packet_ok h p" "x = hd p" "dd_lastAddr (h x) = last p" "hd p \<noteq> q_terminator q"
    using Cons.prems packet_ends [of h p] by (force simp: packet_ok_def)+
  then show ?case
    using Cons by (subst walk_desc_bits.simps) (auto simp: first_other_def)
qed

end
