(* ===== verification/Ring.thy ===== *)
theory Ring
  imports Prelude
begin

text \<open>The interface of a ring buffer of fixed capacity, as the response ring, the transmit status ring
  and the BlockAck request ring are used: a push below capacity appends, a pop returns the oldest
  entry. The facts on sequences of operations are proved here once.\<close>

locale ring =
  fixes inv :: "'s \<Rightarrow> bool"
    and items :: "'s \<Rightarrow> 'a list"
    and cap :: nat
    and valid :: "'a \<Rightarrow> bool"
    and push :: "'a \<Rightarrow> 's \<Rightarrow> 's"
    and pop :: "'s \<Rightarrow> 'a \<times> 's"
  assumes push_last: "inv s \<Longrightarrow> valid x \<Longrightarrow> length (items s) < cap \<Longrightarrow>
       inv (push x s) \<and> items (push x s) = items s @ [x]"
    and pop_first: "inv s \<Longrightarrow> items s = x # xs \<Longrightarrow>
       fst (pop s) = x \<and> inv (snd (pop s)) \<and> items (snd (pop s)) = xs"
begin

fun pops :: "nat \<Rightarrow> 's \<Rightarrow> 'a list \<times> 's" where
  "pops 0 s = ([], s)"
| "pops (Suc n) s = (let (x, s) = pop s; (xs, s) = pops n s in (x # xs, s))"

lemma push_all:
  "inv s \<Longrightarrow> list_all valid xs \<Longrightarrow> length (items s) + length xs \<le> cap \<Longrightarrow>
     inv (fold push xs s) \<and> items (fold push xs s) = items s @ xs"
proof (induction xs arbitrary: s)
  case (Cons x xs)
  then show ?case
    using push_last [of s x] Cons.IH [of "push x s"] by auto
qed simp

lemma pop_all: "inv s \<Longrightarrow> \<exists>t. pops (length (items s)) s = (items s, t) \<and> inv t \<and> items t = []"
proof (induction "items s" arbitrary: s)
  case (Cons x xs)
  then show ?case
    using pop_first [of s x xs] Cons.hyps(1) [of "snd (pop s)"]
    by (cases "pop s") (force simp: Cons.hyps(2) [symmetric] split: prod.splits)
qed simp

text \<open>First in, first out: whatever is pushed below capacity comes out complete and in order.\<close>

lemma fifo:
  assumes "inv s" "list_all valid xs" "length (items s) + length xs \<le> cap"
  shows "\<exists>t. pops (length (items s) + length xs) (fold push xs s) = (items s @ xs, t) \<and> items t = []"
  using push_all [OF assms] pop_all [of "fold push xs s"] by auto

end

subsection \<open>Index arithmetic of a ring\<close>

text \<open>The entries of a ring of \<^verbatim>\<open>n\<close> slots with \<^verbatim>\<open>k\<close> entries from \<^verbatim>\<open>h\<close> on.\<close>

definition ring_list :: "nat \<Rightarrow> (nat \<Rightarrow> 'a) \<Rightarrow> nat \<Rightarrow> nat \<Rightarrow> 'a list" where
  "ring_list n f h k = map (\<lambda>i. f ((h + i) mod n)) [0..<k]"

lemma length_ring_list [simp]: "length (ring_list n f h k) = k"
  by (simp add: ring_list_def)

lemma ring_list_Nil [simp]: "ring_list n f h 0 = []"
  by (simp add: ring_list_def)

lemma ring_list_snoc:
  "(\<And>i. i < k \<Longrightarrow> f' ((h + i) mod n) = f ((h + i) mod n)) \<Longrightarrow>
     ring_list n f' h (Suc k) = ring_list n f h k @ [f' ((h + k) mod n)]"
  by (simp add: ring_list_def)

lemma ring_list_Cons:
  "h < n \<Longrightarrow> ring_list n f h (Suc k) = f h # ring_list n f ((h + 1) mod n) k"
  by (simp add: ring_list_def upt_conv_Cons map_Suc_upt [symmetric] mod_simps comp_def del: upt_Suc)

lemma ring_index_ne:
  assumes "i < k" "k < n"
  shows "(h + i) mod n \<noteq> (h + k) mod (n::nat)"
proof
  assume "(h + i) mod n = (h + k) mod n"
  then have "n dvd (h + k) - (h + i)"
    using assms by (subst mod_eq_dvd_iff_nat [symmetric]) auto
  then have "n dvd k - i"
    by simp
  then show False
    using assms by (auto dest: dvd_imp_le)
qed

end
