(* ===== verification/HostChannel.thy ===== *)
theory HostChannel
  imports Queues Ring
begin

text \<open>The message channel to the host (carlfw/usb/main.c up to \<^verbatim>\<open>send_cmd_to_host\<close>, the register
  helpers of carlfw/include/usb.h): a ring of sixteen 64-byte slots, filled by
  \<^verbatim>\<open>send_cmd_to_host\<close> and the command handler and emptied into the response descriptor by
  \<^verbatim>\<open>usb_status_in\<close>. The slots lie in the byte memory from \<^verbatim>\<open>cf_int_buf\<close> on; a slot starts with the
  header \<^verbatim>\<open>len, cmd, seq, ext\<close>.\<close>

subsection \<open>Register helpers (carlfw/include/usb.h, hostif.h)\<close>

definition usb_detect_highspeed :: "fw_state \<Rightarrow> bool \<times> fw_state" where
  "usb_detect_highspeed s = (let (v, s) = getb AR9170_USB_REG_MAIN_CTRL s
     in (v AND AR9170_USB_MAIN_CTRL_HIGHSPEED \<noteq> 0, s))"

definition usb_configured :: "fw_state \<Rightarrow> bool \<times> fw_state" where
  "usb_configured s = (let (v, s) = getb AR9170_USB_REG_DEVICE_ADDRESS s
     in (v AND AR9170_USB_DEVICE_ADDRESS_CONFIGURE \<noteq> 0, s))"

definition usb_enable_remote_wakeup :: "fw_state \<Rightarrow> fw_state" where
  "usb_enable_remote_wakeup = orb AR9170_USB_REG_MAIN_CTRL AR9170_USB_MAIN_CTRL_REMOTE_WAKEUP"

definition usb_disable_remote_wakeup :: "fw_state \<Rightarrow> fw_state" where
  "usb_disable_remote_wakeup = andb AR9170_USB_REG_MAIN_CTRL (NOT AR9170_USB_MAIN_CTRL_REMOTE_WAKEUP)"

definition usb_enable_global_int :: "fw_state \<Rightarrow> fw_state" where
  "usb_enable_global_int = orb AR9170_USB_REG_MAIN_CTRL AR9170_USB_MAIN_CTRL_ENABLE_GLOBAL_INT"

definition usb_trigger_out :: "fw_state \<Rightarrow> fw_state" where
  "usb_trigger_out = andb AR9170_USB_REG_INTR_MASK_BYTE_4 (NOT AR9170_USB_INTR_DISABLE_OUT_INT)"

definition usb_reset_out :: "fw_state \<Rightarrow> fw_state" where
  "usb_reset_out = orb AR9170_USB_REG_INTR_MASK_BYTE_4 AR9170_USB_INTR_DISABLE_OUT_INT"

definition usb_trigger_in :: "fw_state \<Rightarrow> fw_state" where
  "usb_trigger_in = andb AR9170_USB_REG_INTR_MASK_BYTE_6 (NOT AR9170_USB_INTR_DISABLE_IN_INT)"

definition usb_reset_in :: "fw_state \<Rightarrow> fw_state" where
  "usb_reset_in = orb AR9170_USB_REG_INTR_MASK_BYTE_6 AR9170_USB_INTR_DISABLE_IN_INT"

definition usb_ep3_xfer_done :: "fw_state \<Rightarrow> fw_state" where
  "usb_ep3_xfer_done = orb AR9170_USB_REG_EP3_BYTE_COUNT_HIGH 0x08"

definition usb_suspend_ack :: "fw_state \<Rightarrow> fw_state" where
  "usb_suspend_ack = andb AR9170_USB_REG_INTR_SOURCE_7 (NOT (push_bit 2 1))"

definition usb_resume_ack :: "fw_state \<Rightarrow> fw_state" where
  "usb_resume_ack = andb AR9170_USB_REG_INTR_SOURCE_7 (NOT (push_bit 3 1))"

definition usb_reset_ack :: "fw_state \<Rightarrow> fw_state" where
  "usb_reset_ack = andb AR9170_USB_REG_INTR_SOURCE_7 (NOT (push_bit 1 1))"

definition usb_data_out0Byte :: "fw_state \<Rightarrow> fw_state" where
  "usb_data_out0Byte = andb AR9170_USB_REG_INTR_SOURCE_7 (NOT (push_bit 7 1))"

definition usb_data_in0Byte :: "fw_state \<Rightarrow> fw_state" where
  "usb_data_in0Byte = andb AR9170_USB_REG_INTR_SOURCE_7 (NOT (push_bit 6 1))"

definition usb_stop_down_queue :: "fw_state \<Rightarrow> fw_state" where
  "usb_stop_down_queue = andl AR9170_USB_REG_DMA_CTL (NOT AR9170_USB_DMA_CTL_ENABLE_TO_DEVICE)"

definition usb_start_down_queue :: "fw_state \<Rightarrow> fw_state" where
  "usb_start_down_queue = orl AR9170_USB_REG_DMA_CTL AR9170_USB_DMA_CTL_ENABLE_TO_DEVICE"

definition usb_clear_input_ep_toggle :: "u32 \<Rightarrow> fw_state \<Rightarrow> fw_state" where
  "usb_clear_input_ep_toggle ep =
     andl (AR9170_USB_REG_EP_IN_MAX_SIZE_HIGH + push_bit 1 ep) (NOT AR9170_USB_EP_IN_TOGGLE)"

definition usb_clear_input_ep_stall :: "u32 \<Rightarrow> fw_state \<Rightarrow> fw_state" where
  "usb_clear_input_ep_stall ep =
     andl (AR9170_USB_REG_EP_IN_MAX_SIZE_HIGH + push_bit 1 ep) (NOT AR9170_USB_EP_IN_STALL)"

definition usb_set_input_ep_toggle :: "u32 \<Rightarrow> fw_state \<Rightarrow> fw_state" where
  "usb_set_input_ep_toggle ep =
     orl (AR9170_USB_REG_EP_IN_MAX_SIZE_HIGH + push_bit 1 ep) AR9170_USB_EP_IN_TOGGLE"

definition usb_clear_output_ep_toggle :: "u32 \<Rightarrow> fw_state \<Rightarrow> fw_state" where
  "usb_clear_output_ep_toggle ep =
     andl (AR9170_USB_REG_EP_OUT_MAX_SIZE_HIGH + push_bit 1 ep) (NOT AR9170_USB_EP_OUT_TOGGLE)"

definition usb_set_output_ep_toggle :: "u32 \<Rightarrow> fw_state \<Rightarrow> fw_state" where
  "usb_set_output_ep_toggle ep =
     orl (AR9170_USB_REG_EP_OUT_MAX_SIZE_HIGH + push_bit 1 ep) AR9170_USB_EP_OUT_TOGGLE"

definition usb_clear_output_ep_stall :: "u32 \<Rightarrow> fw_state \<Rightarrow> fw_state" where
  "usb_clear_output_ep_stall ep =
     andl (AR9170_USB_REG_EP_OUT_MAX_SIZE_HIGH + push_bit 1 ep) (NOT AR9170_USB_EP_OUT_STALL)"

definition down_trigger :: "fw_state \<Rightarrow> fw_state" where
  "down_trigger = set_reg AR9170_PTA_REG_DN_DMA_TRIGGER 1"

definition up_trigger :: "fw_state \<Rightarrow> fw_state" where
  "up_trigger = set_reg AR9170_PTA_REG_UP_DMA_TRIGGER 1"

subsection \<open>The ring\<close>

definition int_slot :: "fw_state \<Rightarrow> u32 \<Rightarrow> u32" where
  "int_slot s i = cf_int_buf (f_cfg s) + 64 * i"

definition get_int_buf :: "fw_state \<Rightarrow> u32 \<times> fw_state" where
  "get_int_buf s =
     (let u = f_usb s; tmp = int_slot s (u_int_tail_index u);
          s = f_ram_update (st8 (tmp + 2) (ucast (u_int_tail_index u))) s;
          u = u\<lparr> u_int_tail_index := u_int_tail_index u + 1 \<rparr>;
          u = u\<lparr> u_int_tail_index := u_int_tail_index u mod CARL9170_INT_RQ_CACHES \<rparr>;
          u = (if u_int_pending u \<noteq> CARL9170_INT_RQ_CACHES
               then u\<lparr> u_int_pending := u_int_pending u + 1 \<rparr> else u)
      in (tmp, s\<lparr> f_usb := u \<rparr>))"

text \<open>NULL is \<^verbatim>\<open>None\<close>.\<close>

definition dequeue_int_buf :: "u32 \<Rightarrow> fw_state \<Rightarrow> u32 option \<times> fw_state" where
  "dequeue_int_buf space s =
     (let u = f_usb s
      in if 0 < u_int_pending u then
           let tmp = int_slot s (u_int_head_index u)
           in if ucast (f_ram s tmp) + 8 > space then (None, s)
              else (Some tmp, s\<lparr> f_usb := u\<lparr>
                      u_int_head_index := (u_int_head_index u + 1) mod CARL9170_INT_RQ_CACHES,
                      u_int_pending := u_int_pending u - 1 \<rparr> \<rparr>)
         else (None, s))"

text \<open>\<^verbatim>\<open>body\<close> is what lies from the body pointer on; \<^verbatim>\<open>len\<close> bytes of it are copied.\<close>

definition send_cmd_to_host :: "u8 \<Rightarrow> u8 \<Rightarrow> u8 \<Rightarrow> u8 list \<Rightarrow> fw_state \<Rightarrow> fw_state" where
  "send_cmd_to_host len type ext body s =
     (let (resp, s) = get_int_buf s;
          s = f_ram_update (st8 resp len) s;
          s = f_ram_update (st8 (resp + 1) type) s;
          s = f_ram_update (st8 (resp + 3) ext) s;
          s = f_ram_update (wr_bytes (resp + 4) (take (unat len) body)) s;
          s = s\<lparr> f_messages := f_messages s @ [(type, ext, take (unat len) body)] \<rparr>
      in usb_trigger_in s)"

text \<open>\<^verbatim>\<open>usb_reg_out\<close> and \<^verbatim>\<open>usb_handler\<close>, which call the command handler, are in the theory of the USB
  events. \<^verbatim>\<open>usb_status_in\<close>: the loop copies messages while the next one fits.\<close>

lemma dequeue_int_buf_pending:
  "(Some p, s') = dequeue_int_buf space s \<Longrightarrow>
     unat (u_int_pending (f_usb s')) < unat (u_int_pending (f_usb s))"
  by (auto simp: dequeue_int_buf_def Let_def word_gt_0 unat_minus_one split: if_splits)
    (simp add: unat_gt_0)

function status_in_loop :: "u32 \<Rightarrow> u32 \<Rightarrow> fw_state \<Rightarrow> u32 \<times> fw_state" where
  "status_in_loop rem tlen s =
     (if u_int_pending (f_usb s) = 0 then (tlen, s)
      else case dequeue_int_buf rem s of
          (None, s) \<Rightarrow> (tlen, s)
        | (Some rsp, s') \<Rightarrow>
            let elen = ucast (f_ram s' rsp) + 4;
                s' = f_ram_update (wr_bytes (payload (u_int_desc (f_usb s')) s' + tlen)
                       (rd_bytes rsp (unat elen) (f_ram s'))) s'
            in status_in_loop (rem - elen) (tlen + elen) s')"
  by pat_completeness auto
termination
  by (relation "measure (\<lambda>(_, _, s). unat (u_int_pending (f_usb s)))")
    (auto dest: dequeue_int_buf_pending)

declare status_in_loop.simps [simp del]

definition usb_status_in :: "fw_state \<Rightarrow> fw_state option" where
  "usb_status_in s =
     (if u_int_desc_available (f_usb s) = 0 then Some s
      else
        let s = f_usb_update (u_int_desc_available_update (\<lambda>_. 0)) s;
            s = usb_reset_in s;
            (tlen, s) = status_in_loop (of_nat (AR9170_BLOCK_SIZE - 12)) 12 s
        in if tlen = 12 then Some (f_usb_update (u_int_desc_available_update (\<lambda>_. 1)) s)
           else
             let d = u_int_desc (f_usb s);
                 s = upd_desc d (\<lambda>x. x\<lparr> dd_ctrl := AR9170_CTRL_FS_BIT OR AR9170_CTRL_LS_BIT,
                       dd_totalLen := ucast tlen, dd_dataSize := ucast tlen \<rparr>) s
             in do { s \<leftarrow> put UpQ d s;
                     let s = set_reg AR9170_PTA_REG_UP_DMA_TRIGGER 1 s;
                     Some (usb_trigger_out s) })"

subsection \<open>Text and hex dumps over USB\<close>

text \<open>A write to \<^verbatim>\<open>put_buffer\<close>: the array has 60 bytes, and \<^verbatim>\<open>fw.phy.frequency\<close> follows it in
  \<^verbatim>\<open>struct firmware_context_struct\<close>, so a write to index 60 changes its low byte.\<close>

definition set_put_buffer :: "u32 \<Rightarrow> u8 \<Rightarrow> fw_state \<Rightarrow> fw_state" where
  "set_put_buffer i v s =
     (if i < CARL9170_MAX_CMD_PAYLOAD_LEN
      then f_usb_update (\<lambda>u. u\<lparr> u_put_buffer := (u_put_buffer u)[unat i := v] \<rparr>) s
      else f_phy_update (\<lambda>p. p\<lparr> p_frequency := p_frequency p AND NOT 0xFF OR ucast v \<rparr>) s)"

definition usb_putc :: "u8 \<Rightarrow> fw_state \<Rightarrow> fw_state" where
  "usb_putc c s =
     (let s = set_put_buffer (u_put_index (f_usb s)) c s;
          s = f_usb_update (u_put_index_update (\<lambda>i. i + 1)) s;
          n = u_put_index (f_usb s)
      in if n = CARL9170_MAX_CMD_PAYLOAD_LEN \<or> c = 0 then
           let s = set_put_buffer n 0 s;
               s = send_cmd_to_host (ucast ((n + 3) div 4 * 4)) CARL9170_RSP_TEXT (ucast n)
                     (u_put_buffer (f_usb s)) s
           in f_usb_update (u_put_index_update (\<lambda>_. 0)) s
         else s)"

definition hex_block :: "int \<Rightarrow> int" where
  "hex_block len = min ((len + 3) div 4 * 4) 60"

function usb_print_hex_dump :: "u32 \<Rightarrow> int \<Rightarrow> fw_state \<Rightarrow> fw_state" where
  "usb_print_hex_dump buf len s =
     (if len > 0 then
        let block = hex_block len;
            s = send_cmd_to_host (word_of_int block) CARL9170_RSP_HEXDUMP (word_of_int len)
                  (rd_bytes buf (nat block) (f_ram s)) s
        in usb_print_hex_dump (buf + word_of_int block) (len - block) s
      else s)"
  by pat_completeness auto
termination
proof (relation "measure (\<lambda>(_, len, _). nat len)")
  fix len :: int
  assume "0 < len"
  then have "4 \<le> hex_block len"
    unfolding hex_block_def min_def by presburger
  then show "((buf + word_of_int x, len - x, t), buf, len, s) \<in> measure (\<lambda>(_, len, _). nat len)"
    if "x = hex_block len" for x and buf :: u32 and s t :: fw_state
    using \<open>0 < len\<close> that by simp
qed simp

declare usb_print_hex_dump.simps [simp del]

subsection \<open>The ring as a list of messages\<close>

definition msg_at :: "memory \<Rightarrow> u32 \<Rightarrow> u8 \<times> u8 \<times> u8 list" where
  "msg_at m p = (m (p + 1), m (p + 3), rd_bytes (p + 4) (unat (m p)) m)"

definition int_ring_ok :: "fw_state \<Rightarrow> bool" where
  "int_ring_ok s \<longleftrightarrow> (let u = f_usb s in
     unat (u_int_pending u) \<le> 16 \<and> unat (u_int_head_index u) < 16 \<and>
     unat (u_int_tail_index u) = (unat (u_int_head_index u) + unat (u_int_pending u)) mod 16 \<and>
     (\<forall>i < unat (u_int_pending u).
        unat (f_ram s (int_slot s (of_nat ((unat (u_int_head_index u) + i) mod 16)))) \<le> 60))"

definition int_ring_msgs :: "fw_state \<Rightarrow> (u8 \<times> u8 \<times> u8 list) list" where
  "int_ring_msgs s = ring_list 16 (\<lambda>i. msg_at (f_ram s) (int_slot s (of_nat i)))
     (unat (u_int_head_index (f_usb s))) (unat (u_int_pending (f_usb s)))"

text \<open>A message is stored by \<^verbatim>\<open>send_cmd_to_host\<close> and fetched by \<^verbatim>\<open>dequeue_int_buf\<close>.\<close>

definition int_push :: "u8 \<times> u8 \<times> u8 list \<Rightarrow> fw_state \<Rightarrow> fw_state" where
  "int_push x s = (case x of (cmd, ext, body) \<Rightarrow> send_cmd_to_host (of_nat (length body)) cmd ext body s)"

definition int_pop :: "fw_state \<Rightarrow> (u8 \<times> u8 \<times> u8 list) \<times> fw_state" where
  "int_pop s = (case dequeue_int_buf 308 s of (Some p, s') \<Rightarrow> (msg_at (f_ram s') p, s')
     | (None, s') \<Rightarrow> (undefined, s'))"

lemma slots_disjoint:
  assumes "i < 16" "j < 16" "i \<noteq> j"
  shows "disjoint_ranges (int_slot s (of_nat i)) 64 (int_slot s (of_nat j)) 64"
proof -
  have "unat (64 * of_nat k :: u32) = 64 * k" if "k < 16" for k
    using that by (simp add: unat_word_ariths(2))
  then have "disjoint_ranges (64 * of_nat i) 64 (64 * of_nat j) 64"
    using assms by (intro disjoint_rangesI) auto
  then show ?thesis
    by (simp add: int_slot_def disjoint_ranges_shift)
qed

lemma same_core_andb [simp]: "same_core s (andb a v s)"
  unfolding andb_def getb_def get_reg_def setb_def Let_def split_beta
  by (auto intro: same_core_trans [OF same_core_tick])

lemma same_core_orb [simp]: "same_core s (orb a v s)"
  unfolding orb_def getb_def get_reg_def setb_def Let_def split_beta
  by (auto intro: same_core_trans [OF same_core_tick])

lemma same_core_orl [simp]: "same_core s (orl a v s)"
  unfolding orl_def get_reg_def Let_def split_beta
  by (auto intro: same_core_trans [OF same_core_tick])

lemma same_core_andl [simp]: "same_core s (andl a v s)"
  unfolding andl_def get_reg_def Let_def split_beta
  by (auto intro: same_core_trans [OF same_core_tick])

text \<open>What \<^verbatim>\<open>send_cmd_to_host\<close> does to the memory and the ring indices.\<close>

lemma send_cmd_fields:
  fixes s len type ext body
  defines "t \<equiv> send_cmd_to_host len type ext body s"
    and "p \<equiv> int_slot s (u_int_tail_index (f_usb s))"
  shows "f_ram t = wr_bytes (p + 4) (take (unat len) body) (st8 (p + 3) ext (st8 (p + 1) type
      (st8 p len (st8 (p + 2) (ucast (u_int_tail_index (f_usb s))) (f_ram s)))))"
    and "u_int_head_index (f_usb t) = u_int_head_index (f_usb s)"
    and "u_int_tail_index (f_usb t) = (u_int_tail_index (f_usb s) + 1) mod 16"
    and "u_int_pending (f_usb t) = (if u_int_pending (f_usb s) = 16 then 16 else u_int_pending (f_usb s) + 1)"
    and "f_cfg t = f_cfg s" "f_descs t = f_descs s" "f_queues t = f_queues s"
    and "f_messages t = f_messages s @ [(type, ext, take (unat len) body)]"
    and "f_wlan t = f_wlan s" "f_phy t = f_phy s" "f_supers t = f_supers s"
    and "u_int_desc (f_usb t) = u_int_desc (f_usb s)" "u_int_desc_available (f_usb t) = u_int_desc_available (f_usb s)"
    and "u_put_index (f_usb t) = u_put_index (f_usb s)" "u_put_buffer (f_usb t) = u_put_buffer (f_usb s)"
  unfolding t_def p_def send_cmd_to_host_def get_int_buf_def Let_def split_beta usb_trigger_in_def
  by (simp_all add: fields_same_core [OF same_core_andb])

lemma send_slot:
  fixes len type ext :: u8 and body :: "u8 list" and s :: fw_state
  assumes "length body \<le> 60" "unat len = length body"
  defines "t \<equiv> send_cmd_to_host len type ext body s"
    and "p \<equiv> int_slot s (u_int_tail_index (f_usb s))"
  shows "msg_at (f_ram t) p = (type, ext, body)" "f_ram t p = len"
    "\<And>a. \<not> in_range a p 64 \<Longrightarrow> f_ram t a = f_ram s a"
proof -
  have n: "\<not> in_range p (p + 4) (length body)" "\<not> in_range (p + 1) (p + 4) (length body)"
      "\<not> in_range (p + 3) (p + 4) (length body)"
    using assms(1) by (simp_all add: in_range_def unat_neg_1)
  show len: "f_ram t p = len"
    using n assms(2) send_cmd_fields(1) [of len type ext body s, folded t_def p_def]
    by (simp add: wr_bytes_miss st8_def)
  have hdr: "f_ram t (p + 1) = type" "f_ram t (p + 3) = ext"
    using n assms(2) send_cmd_fields(1) [of len type ext body s, folded t_def p_def]
    by (simp_all add: wr_bytes_miss st8_def)
  have "rd_bytes (p + 4) (length body) (f_ram t) = body"
    using assms(1,2) send_cmd_fields(1) [of len type ext body s, folded t_def p_def] by (simp add: rd_wr_same)
  then show "msg_at (f_ram t) p = (type, ext, body)"
    using hdr assms(2) len by (simp add: msg_at_def)
  show "f_ram t a = f_ram s a" if "\<not> in_range a p 64" for a
  proof -
    have "\<not> in_range a (p + 4) (length body)" "\<not> in_range a (p + 3) 1" "\<not> in_range a (p + 2) 1"
      "\<not> in_range a (p + 1) 1" "\<not> in_range a p 1"
      using that assms(1) in_range_offset [of a p 4 "length body" 64] in_range_offset [of a p 3 1 64]
        in_range_offset [of a p 2 1 64] in_range_offset [of a p 1 1 64] in_range_offset [of a p 0 1 64]
      by auto
    then show ?thesis
      using assms(2) send_cmd_fields(1) [of len type ext body s, folded t_def p_def]
      by (simp add: wr_bytes_miss st8_miss)
  qed
qed

lemma msg_at_cong:
  assumes "\<And>a. in_range a p 64 \<Longrightarrow> m a = m' a" "unat (m p) \<le> 60"
  shows "msg_at m p = msg_at m' p"
proof -
  have b: "m (p + of_nat k) = m' (p + of_nat k)" if "k < 64" for k
    using that by (intro assms(1)) (simp add: in_range_def)
  have "rd_bytes (p + 4) (unat (m p)) m = rd_bytes (p + 4) (unat (m p)) m'"
  proof (rule rd_bytes_cong)
    fix i assume "i < unat (m p)"
    then show "m (p + 4 + of_nat i) = m' (p + 4 + of_nat i)"
      using b [of "4 + i"] assms(2) by (simp add: add.assoc)
  qed
  then show ?thesis
    using b [of 0] b [of 1] b [of 3] by (simp add: msg_at_def)
qed

text \<open>Taking the oldest message.\<close>

definition popped :: "fw_state \<Rightarrow> fw_state" where
  "popped s = s\<lparr> f_usb := (f_usb s)\<lparr> u_int_head_index := (u_int_head_index (f_usb s) + 1) mod 16,
      u_int_pending := u_int_pending (f_usb s) - 1 \<rparr> \<rparr>"

lemma popped_fields [simp]:
  "f_ram (popped s) = f_ram s" "f_cfg (popped s) = f_cfg s" "f_descs (popped s) = f_descs s"
  "f_queues (popped s) = f_queues s" "int_slot (popped s) i = int_slot s i"
  "u_int_desc (f_usb (popped s)) = u_int_desc (f_usb s)" "payload d (popped s) = payload d s"
  by (simp_all add: popped_def int_slot_def payload_def)

lemma int_popped:
  assumes inv: "int_ring_ok s" and pos: "u_int_pending (f_usb s) \<noteq> 0"
  shows "f_ram (popped s) = f_ram s" "int_ring_ok (popped s)"
    "ring_list 16 f (unat (u_int_head_index (f_usb s))) (unat (u_int_pending (f_usb s))) =
       f (unat (u_int_head_index (f_usb s))) #
       ring_list 16 f (unat (u_int_head_index (f_usb (popped s)))) (unat (u_int_pending (f_usb (popped s))))"
    "unat (f_ram s (int_slot s (u_int_head_index (f_usb s)))) \<le> 60"
    "unat (u_int_pending (f_usb (popped s))) < unat (u_int_pending (f_usb s))"
proof -
  let ?h = "unat (u_int_head_index (f_usb s))" and ?k = "unat (u_int_pending (f_usb s))"
  have h: "?h < 16" "?k \<le> 16" "unat (u_int_tail_index (f_usb s)) = (?h + ?k) mod 16"
    using inv by (auto simp: int_ring_ok_def Let_def)
  obtain n where n: "?k = Suc n"
    using pos by (metis not0_implies_Suc unat_eq_zero)
  have lens: "\<forall>i < ?k. unat (f_ram s (int_slot s (of_nat ((?h + i) mod 16)))) \<le> 60"
    using inv by (simp add: int_ring_ok_def Let_def)
  have n': "unat (u_int_pending (f_usb (popped s))) = n"
    using n pos by (simp add: popped_def unat_minus_1)
  have h': "unat (u_int_head_index (f_usb (popped s))) = (?h + 1) mod 16"
    using h unat_Suc_lt [of "u_int_head_index (f_usb s)" 16] by (simp add: popped_def unat_mod_distrib)
  have t': "u_int_tail_index (f_usb (popped s)) = u_int_tail_index (f_usb s)"
    by (simp add: popped_def)
  have shift: "((?h + 1) mod 16 + i) mod 16 = (?h + Suc i) mod 16" for i
    by (simp add: mod_simps)
  have "unat (f_ram s (int_slot s (of_nat (((?h + 1) mod 16 + i) mod 16)))) \<le> 60" if "i < n" for i
  proof -
    have "Suc i < ?k"
      using that n by simp
    then show ?thesis
      unfolding shift using lens by blast
  qed
  moreover have "(?h + ?k) mod 16 = ((?h + 1) mod 16 + n) mod 16"
    unfolding shift n ..
  ultimately show "int_ring_ok (popped s)"
    using h n n' h' t' unfolding int_ring_ok_def Let_def by simp
  show "unat (f_ram s (int_slot s (u_int_head_index (f_usb s)))) \<le> 60"
    using lens n h by (fastforce dest: spec [of _ 0])
  show "ring_list 16 f ?h ?k = f ?h # ring_list 16 f (unat (u_int_head_index (f_usb (popped s)))) (unat (u_int_pending (f_usb (popped s))))"
    unfolding n n' h' by (rule ring_list_Cons [OF h(1)])
  show "unat (u_int_pending (f_usb (popped s))) < ?k"
    using n n' by simp
qed (simp add: popped_def)

lemma dequeue_fits:
  assumes "int_ring_ok s" "u_int_pending (f_usb s) \<noteq> 0"
    "unat (f_ram s (int_slot s (u_int_head_index (f_usb s)))) + 8 \<le> unat space"
  shows "dequeue_int_buf space s = (Some (int_slot s (u_int_head_index (f_usb s))), popped s)"
proof -
  have "\<not> ucast (f_ram s (int_slot s (u_int_head_index (f_usb s)))) + 8 > space"
    using assms(3) int_popped(4) [OF assms(1,2)] by (simp add: word_less_nat_alt unat_word_ariths(1))
  then show ?thesis
    using assms(2) by (simp add: dequeue_int_buf_def Let_def word_gt_0 popped_def)
qed

lemma dequeue_none:
  assumes "int_ring_ok s" "u_int_pending (f_usb s) \<noteq> 0"
    "\<not> unat (f_ram s (int_slot s (u_int_head_index (f_usb s)))) + 8 \<le> unat space"
  shows "dequeue_int_buf space s = (None, s)"
proof -
  have "ucast (f_ram s (int_slot s (u_int_head_index (f_usb s)))) + 8 > space"
    using assms(3) int_popped(4) [OF assms(1,2)] by (simp add: word_less_nat_alt unat_word_ariths(1))
  then show ?thesis
    using assms(2) by (simp add: dequeue_int_buf_def Let_def word_gt_0)
qed

interpretation int_ring: ring int_ring_ok int_ring_msgs 16 "\<lambda>(cmd, ext, body). length body \<le> 60"
  int_push int_pop
proof
  fix s :: fw_state and x :: "u8 \<times> u8 \<times> u8 list"
  assume inv: "int_ring_ok s" and v: "case x of (cmd, ext, body) \<Rightarrow> length body \<le> 60"
    and l: "length (int_ring_msgs s) < 16"
  obtain cmd ext body where x: "x = (cmd, ext, body)"
    by (cases x)
  let ?t = "int_push x s"
  let ?h = "unat (u_int_head_index (f_usb s))" and ?k = "unat (u_int_pending (f_usb s))"
  have len: "length body \<le> 60" "unat (of_nat (length body) :: u8) = length body"
    using v x by (auto simp: unat_of_nat take_bit_nat_eq_self)
  have k: "?k < 16"
    using l by (simp add: int_ring_msgs_def)
  have tail: "unat (u_int_tail_index (f_usb s)) = (?h + ?k) mod 16" "?h < 16"
    using inv by (auto simp: int_ring_ok_def Let_def)
  then have tail': "u_int_tail_index (f_usb s) = of_nat ((?h + ?k) mod 16)"
    by (metis of_nat_unat_id)
  note f = send_cmd_fields [of "of_nat (length body)" cmd ext body s]
  note sl = send_slot [OF len, where type = cmd and ext = ext and s = s]
  have t: "?t = send_cmd_to_host (of_nat (length body)) cmd ext body s"
    by (simp add: int_push_def x)
  have p': "unat (u_int_pending (f_usb ?t)) = Suc ?k"
    using k f(4) t unat_Suc_lt [of "u_int_pending (f_usb s)" 16] by auto
  have h': "u_int_head_index (f_usb ?t) = u_int_head_index (f_usb s)"
    using f(2) t by simp
  have slot: "int_slot ?t i = int_slot s i" for i
    using f(5) t by (simp add: int_slot_def)
  have tl': "unat (u_int_tail_index (f_usb ?t)) = (?h + Suc ?k) mod 16"
    using f(3) t tail unat_Suc_lt [of "u_int_tail_index (f_usb s)" 16]
    by (simp add: unat_mod_distrib mod_simps)
  have same: "f_ram ?t a = f_ram s a" if "i < ?k" "in_range a (int_slot s (of_nat ((?h + i) mod 16))) 64" for a i
  proof -
    have "(?h + i) mod 16 \<noteq> (?h + ?k) mod 16"
      using that k by (intro ring_index_ne) auto
    then have "disjoint_ranges (int_slot s (of_nat ((?h + i) mod 16))) 64 (int_slot s (of_nat ((?h + ?k) mod 16))) 64"
      by (intro slots_disjoint) auto
    then show ?thesis
      using disjoint_rangesD that(2) sl(3) tail' t by metis
  qed
  have old_len: "unat (f_ram s (int_slot s (of_nat ((?h + i) mod 16)))) \<le> 60" if "i < ?k" for i
    using inv that by (auto simp: int_ring_ok_def Let_def)
  have "unat (f_ram ?t (int_slot s (of_nat ((?h + i) mod 16)))) \<le> 60" if "i < Suc ?k" for i
  proof (cases "i = ?k")
    case True
    then show ?thesis
      using sl(2) len tail' t by simp
  next
    case False
    then show ?thesis
      using that old_len [of i] same [of i "int_slot s (of_nat ((?h + i) mod 16))"] by simp
  qed
  then have "int_ring_ok ?t"
    using k tail tl' p' h' slot by (auto simp: int_ring_ok_def Let_def)
  moreover have "int_ring_msgs ?t = int_ring_msgs s @ [msg_at (f_ram ?t) (int_slot s (of_nat ((?h + ?k) mod 16)))]"
    unfolding int_ring_msgs_def p' h' slot
    by (rule ring_list_snoc, rule msg_at_cong [symmetric], rule same [symmetric]) (use old_len in auto)
  moreover have "msg_at (f_ram ?t) (int_slot s (of_nat ((?h + ?k) mod 16))) = x"
    using sl(1) tail' t x by simp
  ultimately show "int_ring_ok ?t \<and> int_ring_msgs ?t = int_ring_msgs s @ [x]"
    by simp
next
  fix s :: fw_state and x :: "u8 \<times> u8 \<times> u8 list" and xs
  assume inv: "int_ring_ok s" and m: "int_ring_msgs s = x # xs"
  then have pos: "u_int_pending (f_usb s) \<noteq> 0"
    by (auto simp: int_ring_msgs_def)
  note step = int_popped [OF inv pos]
  have "dequeue_int_buf 308 s = (Some (int_slot s (u_int_head_index (f_usb s))), popped s)"
    using step(4) by (intro dequeue_fits [OF inv pos]) simp
  then have "int_pop s = (msg_at (f_ram s) (int_slot s (u_int_head_index (f_usb s))), popped s)"
    by (simp add: int_pop_def popped_def)
  moreover have "int_ring_msgs s = msg_at (f_ram s) (int_slot s (u_int_head_index (f_usb s))) # int_ring_msgs (popped s)"
    by (simp add: int_ring_msgs_def step(3))
  ultimately show "fst (int_pop s) = x \<and> int_ring_ok (snd (int_pop s)) \<and> int_ring_msgs (snd (int_pop s)) = xs"
    using m step(2) by simp
qed

subsection \<open>Sending the batch\<close>

definition raw_at :: "memory \<Rightarrow> u32 \<Rightarrow> u8 list" where
  "raw_at m p = rd_bytes p (4 + unat (m p)) m"

definition int_ring_raws :: "fw_state \<Rightarrow> u8 list list" where
  "int_ring_raws s = ring_list 16 (\<lambda>i. raw_at (f_ram s) (int_slot s (of_nat i)))
     (unat (u_int_head_index (f_usb s))) (unat (u_int_pending (f_usb s)))"

text \<open>The longest prefix the loop takes: the next message must leave four bytes of room.\<close>

fun fitting :: "nat \<Rightarrow> u8 list list \<Rightarrow> u8 list list" where
  "fitting rem [] = []"
| "fitting rem (m # ms) = (if length m + 4 \<le> rem then m # fitting (rem - length m) ms else [])"

lemma fitting_fits: "length (concat (fitting rem ms)) \<le> rem"
  by (induction rem ms rule: fitting.induct) auto

lemma slot_in_ring:
  assumes "i < 16" "in_range a (int_slot s (of_nat i)) 64"
  shows "in_range a (cf_int_buf (f_cfg s)) 1024"
proof (rule in_range_offset)
  show "in_range a (cf_int_buf (f_cfg s) + 64 * of_nat i) 64"
    using assms(2) by (simp add: int_slot_def)
  show "unat (64 * of_nat i :: u32) + 64 \<le> 1024"
    using assms(1) by (simp add: unat_word_ariths(2))
qed simp

lemma ring_memory_cong:
  assumes "f_usb t = f_usb s" "f_cfg t = f_cfg s"
    and m: "\<And>a. in_range a (cf_int_buf (f_cfg s)) 1024 \<Longrightarrow> f_ram t a = f_ram s a"
  shows "int_ring_ok t = int_ring_ok s"
    and "int_ring_ok s \<Longrightarrow> int_ring_raws t = int_ring_raws s"
proof -
  have slot: "int_slot t i = int_slot s i" for i
    using assms(2) by (simp add: int_slot_def)
  have m': "f_ram t (int_slot s (of_nat i) + of_nat k) = f_ram s (int_slot s (of_nat i) + of_nat k)"
    if "i < 16" "k < 64" for i k
    by (rule m, rule slot_in_ring [OF that(1)]) (use that in \<open>simp add: in_range_def\<close>)
  have m0: "f_ram t (int_slot s (of_nat i)) = f_ram s (int_slot s (of_nat i))" if "i < 16" for i
    using m' [of i 0] that by simp
  have m1: "f_ram t (int_slot s (of_nat (j mod 16))) = f_ram s (int_slot s (of_nat (j mod 16)))" for j
    by (rule m0) simp
  show "int_ring_ok t = int_ring_ok s"
    unfolding int_ring_ok_def Let_def assms(1) slot m1 ..
  assume ok: "int_ring_ok s"
  have raw: "raw_at (f_ram t) (int_slot s (of_nat (j mod 16))) = raw_at (f_ram s) (int_slot s (of_nat (j mod 16)))"
    if "unat (f_ram s (int_slot s (of_nat (j mod 16)))) \<le> 60" for j
    unfolding raw_at_def m1 using that by (intro rd_bytes_cong m') auto
  show "int_ring_raws t = int_ring_raws s"
    unfolding int_ring_raws_def ring_list_def assms(1) slot
    using ok by (intro map_cong refl raw) (simp add: int_ring_ok_def Let_def)
qed

text \<open>Only the ring's indices and the memory change.\<close>

definition ring_frame :: "fw_state \<Rightarrow> fw_state \<Rightarrow> bool" where
  "ring_frame s t \<longleftrightarrow>
     (\<exists>h k m. t = s\<lparr> f_usb := (f_usb s)\<lparr> u_int_head_index := h, u_int_pending := k \<rparr>, f_ram := m \<rparr>)"

lemma ring_frame_refl [simp]: "ring_frame s s"
  unfolding ring_frame_def
  by (rule exI [of _ "u_int_head_index (f_usb s)"], rule exI [of _ "u_int_pending (f_usb s)"],
      rule exI [of _ "f_ram s"]) simp

lemma ring_frame_trans: "ring_frame s t \<Longrightarrow> ring_frame t u \<Longrightarrow> ring_frame s u"
  unfolding ring_frame_def by auto (intro exI, rule refl)

lemma ring_frame_popped: "ring_frame s (f_ram_update g (popped s))"
  unfolding ring_frame_def popped_def
  by (rule exI [of _ "(u_int_head_index (f_usb s) + 1) mod 16"], rule exI [of _ "u_int_pending (f_usb s) - 1"],
      rule exI [of _ "g (f_ram s)"]) (cases s, simp)

lemma status_in_loop_spec:
  assumes "int_ring_ok s" "unat rem + unat tlen \<le> 320"
    and "payload (u_int_desc (f_usb s)) s = buf"
    and "disjoint_ranges (cf_int_buf (f_cfg s)) 1024 buf 320"
  shows "\<exists>tlen' s'. status_in_loop rem tlen s = (tlen', s') \<and>
     (let ms = fitting (unat rem) (int_ring_raws s)
      in unat tlen' = unat tlen + length (concat ms) \<and> int_ring_ok s' \<and>
         int_ring_raws s' = drop (length ms) (int_ring_raws s) \<and>
         rd_bytes buf (unat tlen') (f_ram s') = rd_bytes buf (unat tlen) (f_ram s) @ concat ms) \<and>
     ring_frame s s'"
  using assms
proof (induction "unat (u_int_pending (f_usb s))" arbitrary: rem tlen s rule: less_induct)
  case less
  note [simp] = less.prems(3)
  show ?case
  proof (cases "u_int_pending (f_usb s) = 0")
    case True
    then show ?thesis
      using less.prems by (subst status_in_loop.simps)
        (simp add: int_ring_raws_def)
  next
    case pos: False
    let ?p = "int_slot s (u_int_head_index (f_usb s))"
    note step = int_popped [OF less.prems(1) pos]
    have raws: "int_ring_raws s = raw_at (f_ram s) ?p # int_ring_raws (popped s)"
      by (simp add: int_ring_raws_def step(3))
    have len: "length (raw_at (f_ram s) ?p) = 4 + unat (f_ram s ?p)" "unat (f_ram s ?p) \<le> 60"
      using step(4) by (simp_all add: raw_at_def)
    show ?thesis
    proof (cases "unat (f_ram s ?p) + 8 \<le> unat rem")
      case False
      then show ?thesis
        using less.prems pos raws len dequeue_none [OF less.prems(1) pos False]
        by (subst status_in_loop.simps)
          simp
    next
      case True
      let ?elen = "ucast (f_ram s ?p) + 4 :: u32"
      have elen: "unat ?elen = 4 + unat (f_ram s ?p)"
        using len(2) by (simp add: unat_word_ariths(1))
      let ?raw = "raw_at (f_ram s) ?p"
      let ?s1 = "f_ram_update (wr_bytes (buf + tlen) ?raw) (popped s)"
      have loop: "status_in_loop rem tlen s = status_in_loop (rem - ?elen) (tlen + ?elen) ?s1"
        using pos dequeue_fits [OF less.prems(1) pos True] elen
        by (subst status_in_loop.simps) (simp add: Let_def raw_at_def)
      have n1: "unat (rem - ?elen) = unat rem - unat ?elen" "unat (tlen + ?elen) = unat tlen + unat ?elen"
        using True elen less.prems(2) by (simp_all add: unat_sub_if_size unat_word_ariths(1) word_size)
      have fr: "f_ram ?s1 a = f_ram s a" if "in_range a (cf_int_buf (f_cfg s)) 1024" for a
      proof -
        have "\<not> in_range a buf 320"
          using disjoint_rangesD [OF less.prems(4) that] .
        then have "\<not> in_range a (buf + tlen) (length ?raw)"
          using in_range_offset [of a buf tlen "length ?raw" 320] True len less.prems(2) by auto
        then show ?thesis
          by (simp add: wr_bytes_miss)
      qed
      have cong: "int_ring_ok ?s1" "int_ring_raws ?s1 = int_ring_raws (popped s)"
        using ring_memory_cong [of ?s1 "popped s"] fr step(2) by simp_all
      obtain tl' s' where ih: "status_in_loop (rem - ?elen) (tlen + ?elen) ?s1 = (tl', s')"
        "unat tl' = unat (tlen + ?elen) + length (concat (fitting (unat (rem - ?elen)) (int_ring_raws ?s1)))"
        "int_ring_ok s'" "int_ring_raws s' = drop (length (fitting (unat (rem - ?elen)) (int_ring_raws ?s1))) (int_ring_raws ?s1)"
        "rd_bytes buf (unat tl') (f_ram s') = rd_bytes buf (unat (tlen + ?elen)) (f_ram ?s1) @
            concat (fitting (unat (rem - ?elen)) (int_ring_raws ?s1))"
        "ring_frame ?s1 s'"
        using less.hyps [of ?s1 "rem - ?elen" "tlen + ?elen"] cong(1) step(5) n1 elen True less.prems
        by (auto simp: Let_def payload_def)
      have rd: "rd_bytes buf (unat (tlen + ?elen)) (f_ram ?s1) = rd_bytes buf (unat tlen) (f_ram s) @ ?raw"
      proof -
        have "disjoint_ranges (buf + 0) (unat tlen) (buf + tlen) (length ?raw)"
          unfolding disjoint_ranges_shift using elen len True less.prems(2) by (intro disjoint_rangesI) auto
        then have "rd_bytes buf (unat tlen) (f_ram ?s1) = rd_bytes buf (unat tlen) (f_ram s)"
          by (simp add: rd_wr_disjoint)
        moreover have "rd_bytes (buf + tlen) (unat ?elen) (f_ram ?s1) = ?raw"
          using elen len by (simp add: rd_wr_same)
        ultimately show ?thesis
          unfolding n1(2) rd_bytes_append by simp
      qed
      have fit: "fitting (unat rem) (int_ring_raws s) = ?raw # fitting (unat (rem - ?elen)) (int_ring_raws ?s1)"
        using True len n1(1) elen cong(2) by (simp add: raws)
      let ?ms = "fitting (unat (rem - ?elen)) (int_ring_raws ?s1)"
      show ?thesis
        unfolding loop ih(1) fit Let_def
      proof (intro exI conjI)
        show "(tl', s') = (tl', s')" ..
        show "unat tl' = unat tlen + length (concat (?raw # ?ms))"
          using ih(2) n1(2) elen len by simp
        show "int_ring_raws s' = drop (length (?raw # ?ms)) (int_ring_raws s)"
          using ih(4) raws cong(2) by simp
        show "rd_bytes buf (unat tl') (f_ram s') = rd_bytes buf (unat tlen) (f_ram s) @ concat (?raw # ?ms)"
          using ih(5) rd by simp
        show "ring_frame s s'"
          using ring_frame_trans [OF ring_frame_popped ih(6)] .
      qed (rule ih(3))
    qed
  qed
qed

subsection \<open>Properties of the channel\<close>

definition example_state :: fw_state where
  "example_state = (zero_state default_config)
     \<lparr> f_queues := init_queues (\<lambda>_. init_queue 0),
       f_descs := (\<lambda>_. zero_desc)(terminator_addr 9 := zero_desc\<lparr> dd_lastAddr := terminator_addr 9, dd_dataAddr := reserved_rsp \<rparr>) \<rparr>
     \<lparr> f_usb := (f_usb (zero_state default_config))\<lparr> u_int_desc := terminator_addr 9, u_int_desc_available := 1 \<rparr> \<rparr>"

lemma example_state_fields:
  "u_int_desc (f_usb example_state) = terminator_addr 9" "u_int_desc_available (f_usb example_state) = 1"
  "u_int_pending (f_usb example_state) = 0" "u_int_head_index (f_usb example_state) = 0"
  "u_int_tail_index (f_usb example_state) = 0" "f_cfg example_state = default_config"
  "f_queues example_state = init_queues (\<lambda>_. init_queue 0)" "f_ram example_state = (\<lambda>_. 0)"
  "f_descs example_state = (\<lambda>_. zero_desc)(terminator_addr 9 := zero_desc\<lparr> dd_lastAddr := terminator_addr 9,
     dd_dataAddr := reserved_rsp \<rparr>)"
  "int_slot example_state i = 0x203000 + 64 * i"
  by (simp_all add: example_state_def zero_state_def int_slot_def default_config_def)

lemma example_state_ring: "int_ring_ok example_state" "int_ring_msgs example_state = []"
  by (simp_all add: example_state_def zero_state_def int_ring_ok_def int_ring_msgs_def Let_def)

text \<open>C8. Messages for the host are delivered in the order they were sent: while the ring does not
  overflow, the messages passed to \<^verbatim>\<open>send_cmd_to_host\<close> are appended, complete, to those pending, and
  taking them out one after the other gives them back in that order.\<close>

theorem host_messages_fifo:
  assumes "int_ring_ok s" "list_all (\<lambda>(cmd, ext, body). length body \<le> 60) xs"
    "length (int_ring_msgs s) + length xs \<le> 16"
  shows "int_ring_msgs (fold int_push xs s) = int_ring_msgs s @ xs \<and>
     fst (int_ring.pops (length (int_ring_msgs s) + length xs) (fold int_push xs s)) = int_ring_msgs s @ xs"
  using int_ring.push_all [OF assms] int_ring.fifo [OF assms] by auto

theorem host_messages_fifo_witness:
  "int_ring_msgs (fold int_push [(0xC1, 2, [1, 2, 3, 4]), (0xC0, 0, [])] example_state) =
     [(0xC1, 2, [1, 2, 3, 4]), (0xC0, 0, [])]"
  using host_messages_fifo [of example_state "[(0xC1, 2, [1, 2, 3, 4]), (0xC0, 0, [])]"]
  by (simp add: example_state_ring)

text \<open>C20. When the ring is full, the next message does not displace the oldest one cleanly: the write
  goes to the slot of the head, and the head stays, so the newest message is the one delivered next,
  before the fifteen older ones, and the indices no longer describe the ring.\<close>

theorem host_ring_overflow:
  assumes "int_ring_ok s" "length (int_ring_msgs s) = 16" "length body \<le> 60"
  shows "fst (int_pop (int_push (cmd, ext, body) s)) = (cmd, ext, body) \<and>
     \<not> int_ring_ok (int_push (cmd, ext, body) s)"
proof -
  let ?t = "send_cmd_to_host (of_nat (length body)) cmd ext body s"
  note f = send_cmd_fields [of "of_nat (length body)" cmd ext body s]
  have len: "unat (of_nat (length body) :: u8) = length body"
    using assms(3) by (auto simp: unat_of_nat take_bit_nat_eq_self)
  have k: "unat (u_int_pending (f_usb s)) = 16"
    using assms(2) by (simp add: int_ring_msgs_def)
  then have p: "u_int_pending (f_usb s) = 16"
    by (metis of_nat_unat_id of_nat_numeral)
  have "unat (u_int_tail_index (f_usb s)) = unat (u_int_head_index (f_usb s))" "unat (u_int_head_index (f_usb s)) < 16"
    using assms(1) k by (auto simp: int_ring_ok_def Let_def)
  then have tail: "u_int_tail_index (f_usb s) = u_int_head_index (f_usb s)" "unat (u_int_head_index (f_usb s)) < 16"
    by (metis of_nat_unat_id, simp)
  note sl = send_slot [OF assms(3) len, where type = cmd and ext = ext and s = s]
  have slot: "int_slot ?t i = int_slot s i" for i
    using f(5) by (simp add: int_slot_def)
  have "\<not> ucast (f_ram ?t (int_slot s (u_int_head_index (f_usb s)))) + 8 > (308 :: u32)"
    using sl(2) tail len assms(3) by (simp add: word_less_nat_alt unat_word_ariths(1))
  then have "dequeue_int_buf 308 ?t = (Some (int_slot s (u_int_head_index (f_usb s))), popped ?t)"
    using f(2,4) p slot by (simp add: dequeue_int_buf_def Let_def popped_def)
  then have pop: "fst (int_pop ?t) = (cmd, ext, body)"
    using sl(1) tail by (simp add: int_pop_def)
  have "unat (u_int_tail_index (f_usb ?t)) = (unat (u_int_head_index (f_usb s)) + 1) mod 16"
    using f(3) tail unat_Suc_lt [of "u_int_head_index (f_usb s)" 16] by (simp add: unat_mod_distrib)
  moreover have "(unat (u_int_head_index (f_usb s)) + 1) mod 16 \<noteq> (unat (u_int_head_index (f_usb s)) + 16) mod 16"
    using tail(2) by (simp add: mod_Suc)
  ultimately have "\<not> int_ring_ok ?t"
    using f(2,4) p by (auto simp: int_ring_ok_def Let_def)
  with pop show ?thesis
    by (simp add: int_push_def)
qed

theorem host_ring_overflow_witness:
  "fst (int_pop (int_push (0xC1, 1, [7]) (fold int_push (replicate 16 (0xC0, 0, [])) example_state))) = (0xC1, 1, [7])"
proof -
  have "int_ring_ok (fold int_push (replicate 16 (0xC0, 0, [])) example_state)"
    "int_ring_msgs (fold int_push (replicate 16 (0xC0, 0, [])) example_state) = replicate 16 (0xC0, 0, [])"
    using int_ring.push_all [of example_state "replicate 16 (0xC0, 0, [])"]
    by (simp_all add: example_state_ring list_all_iff)
  then show ?thesis
    using host_ring_overflow [where s = "fold int_push (replicate 16 (0xC0, 0, [])) example_state"
        and body = "[7]" and cmd = "0xC1" and ext = 1] by simp
qed

text \<open>C21. \<^verbatim>\<open>usb_status_in\<close> packs messages into the interrupt transfer: with the response descriptor free it
  copies, behind the 12-byte header of the response buffer, as many of the oldest messages as fit,
  whole and in order, drops exactly those from the ring, and queues the descriptor with the total
  length (at most the 320 bytes of the buffer) for upload; with nothing pending it keeps the
  descriptor.\<close>

theorem usb_status_in_packs:
  assumes "int_ring_ok s" "u_int_desc_available (f_usb s) \<noteq> 0" "queues_ok s Q"
    and "detached s Q [u_int_desc (f_usb s)]"
    and "disjoint_ranges (cf_int_buf (f_cfg s)) 1024 (payload (u_int_desc (f_usb s)) s) 320"
  defines "ms \<equiv> fitting 308 (int_ring_raws s)" and "buf \<equiv> payload (u_int_desc (f_usb s)) s"
  shows "\<exists>s'. usb_status_in s = Some s' \<and> int_ring_ok s' \<and>
     int_ring_raws s' = drop (length ms) (int_ring_raws s) \<and>
     rd_bytes (buf + 12) (length (concat ms)) (f_ram s') = concat ms \<and> 12 + length (concat ms) \<le> 320 \<and>
     (if concat ms = [] then u_int_desc_available (f_usb s') = 1 \<and> queues_ok s' Q
      else u_int_desc_available (f_usb s') = 0 \<and> (\<exists>p. queues_ok s' (Q(UpQ := Q UpQ @ [p])) \<and>
        packet_contents s' p = [(buf, of_nat (12 + length (concat ms)), 0x300)]))"
proof -
  let ?d = "u_int_desc (f_usb s)"
  let ?s1 = "usb_reset_in (f_usb_update (u_int_desc_available_update (\<lambda>_. 0)) s)"
  have core: "same_core (f_usb_update (u_int_desc_available_update (\<lambda>_. 0)) s) ?s1"
    by (simp add: usb_reset_in_def)
  note f1 = fields_same_core [OF core]
  have ring1: "int_ring_ok ?s1" "int_ring_raws ?s1 = int_ring_raws s"
    using assms(1) by (simp_all add: int_ring_ok_def int_ring_raws_def Let_def f1 int_slot_def)
  have links1: "same_links s ?s1"
    by (simp add: same_links_def f1)
  obtain tlen s2 where s2: "status_in_loop 308 12 ?s1 = (tlen, s2)"
    "unat tlen = 12 + length (concat ms)" "int_ring_ok s2" "int_ring_raws s2 = drop (length ms) (int_ring_raws s)"
    "rd_bytes buf (unat tlen) (f_ram s2) = rd_bytes buf 12 (f_ram ?s1) @ concat ms" "ring_frame ?s1 s2"
    using status_in_loop_spec [of ?s1 308 12 buf] ring1 assms(5)
    by (auto simp: Let_def f1 payload_def buf_def ms_def)
  have l: "12 + length (concat ms) \<le> 320"
    using fitting_fits [of 308 "int_ring_raws s"] by (simp add: ms_def)
  have rd: "rd_bytes (buf + 12) (length (concat ms)) (f_ram s2) = concat ms"
    using s2(2,5) rd_bytes_append [of buf 12 "length (concat ms)" "f_ram s2"] by simp
  have fr2: "f_queues s2 = f_queues ?s1" "f_descs s2 = f_descs ?s1" "u_int_desc (f_usb s2) = ?d"
      "f_cfg s2 = f_cfg s" "u_int_desc_available (f_usb s2) = 0"
    using s2(6) by (auto simp: ring_frame_def f1)
  have links2: "same_links s s2"
    using links1 fr2 by (simp add: same_links_def)
  show ?thesis
  proof (cases "tlen = 12")
    case True
    then have "concat ms = []"
      using s2(2) by simp
    moreover have "usb_status_in s = Some (f_usb_update (u_int_desc_available_update (\<lambda>_. 1)) s2)"
      using s2(1) True assms(2) by (simp add: usb_status_in_def AR9170_BLOCK_SIZE_def)
    moreover have "same_links s2 (f_usb_update (u_int_desc_available_update (\<lambda>_. 1)) s2)"
      by (simp add: same_links_def)
    ultimately show ?thesis
      using s2(3,4) links2 assms(3) queues_ok_links l rd
      by (auto simp: int_ring_ok_def int_ring_raws_def int_slot_def Let_def)
  next
    case False
    let ?s3 = "upd_desc ?d (\<lambda>x. x\<lparr> dd_ctrl := 0x300, dd_totalLen := ucast tlen, dd_dataSize := ucast tlen \<rparr>) s2"
    have links3: "same_links s ?s3"
      using links2 by (auto simp: same_links_def upd_desc_def)
    have q3: "queues_ok ?s3 Q" "detached ?s3 Q [?d]"
      using assms(3,4) queues_ok_links [OF links3] detached_links [OF links3] by auto
    obtain s4 p where s4: "put UpQ ?d ?s3 = Some s4" "queues_ok s4 (Q(UpQ := Q UpQ @ [p]))"
      "packet_contents s4 p = packet_contents ?s3 [?d]"
      "s4 = with_queue UpQ ((f_queues ?s3 UpQ)\<lparr> q_terminator := ?d \<rparr>, put_result (q_terminator (f_queues ?s3 UpQ)) [?d] (f_descs ?s3)) ?s3"
      using put_detached [OF q3(1) _ q3(2), of UpQ] by (auto simp: all_queues_def)
    let ?s5 = "usb_trigger_out (set_reg AR9170_PTA_REG_UP_DMA_TRIGGER 1 s4)"
    have c5: "same_core s4 ?s5"
      unfolding usb_trigger_out_def by (rule same_core_trans [OF same_core_set_reg same_core_andb])
    have eq: "usb_status_in s = Some ?s5"
      using s2(1) False assms(2) s4(1) fr2(3) by (simp add: usb_status_in_def AR9170_BLOCK_SIZE_def)
    have "ucast tlen = (of_nat (unat tlen) :: u16)"
      by simp
    then have tl: "ucast tlen = (of_nat (12 + length (concat ms)) :: u16)"
      unfolding s2(2) .
    have "dd_dataAddr (f_descs s ?d) = buf"
      by (simp add: buf_def payload_def)
    then have "packet_contents s4 p = [(buf, of_nat (12 + length (concat ms)), 0x300)]"
      using s4(3) fr2(2) tl f1 by (simp add: packet_contents_def contents_def upd_desc_def)
    moreover have "int_ring_ok ?s5" "int_ring_raws ?s5 = int_ring_raws s2" "f_ram ?s5 = f_ram s2"
        "u_int_desc_available (f_usb ?s5) = 0"
    proof -
      have "f_usb s4 = f_usb s2" "f_ram s4 = f_ram s2" "f_cfg s4 = f_cfg s2"
        by (simp_all add: s4(4) with_queue_def upd_desc_def)
      then have "f_usb ?s5 = f_usb s2" "f_ram ?s5 = f_ram s2" "f_cfg ?s5 = f_cfg s2"
        by (simp_all add: fields_same_core [OF c5])
      then show "int_ring_ok ?s5" "int_ring_raws ?s5 = int_ring_raws s2" "f_ram ?s5 = f_ram s2"
          "u_int_desc_available (f_usb ?s5) = 0"
        using s2(3) fr2(5) by (simp_all add: int_ring_ok_def int_ring_raws_def int_slot_def Let_def)
    qed
    moreover have "queues_ok ?s5 (Q(UpQ := Q UpQ @ [p]))" "packet_contents ?s5 p = packet_contents s4 p"
      using s4(2) queues_ok_links [OF same_core_links [OF c5]] fields_same_core [OF c5]
      by (auto simp: packet_contents_def)
    moreover have "concat ms \<noteq> []"
      using False s2(2) by (metis add_0_right list.size(3) of_nat_unat_id of_nat_numeral)
    ultimately show ?thesis
      using eq s2(4) rd l by auto
  qed
qed

theorem usb_status_in_packs_witness:
  "\<exists>s'. usb_status_in (int_push (0xC0, 0, [1, 2, 3, 4]) example_state) = Some s' \<and> int_ring_raws s' = [] \<and>
     (\<exists>p. queues_ok s' ((\<lambda>_. [])(UpQ := [p])) \<and> packet_contents s' p = [(reserved_rsp, 20, 0x300)])"
proof -
  let ?s = "int_push (0xC0, 0, [1, 2, 3, 4]) example_state"
  note f = send_cmd_fields [of 4 "0xC0" 0 "[1, 2, 3, 4]" example_state]
  have ring: "int_ring_ok ?s"
    using int_ring.push_last [of example_state "(0xC0, 0, [1, 2, 3, 4])"] by (simp add: example_state_ring)
  have p: "int_push (0xC0, 0, [1, 2, 3, 4]) example_state = send_cmd_to_host 4 0xC0 0 [1, 2, 3, 4] example_state"
    by (simp add: int_push_def)
  have u: "u_int_desc (f_usb ?s) = terminator_addr 9" "payload (terminator_addr 9) ?s = reserved_rsp"
      "u_int_desc_available (f_usb ?s) = 1" "f_cfg ?s = default_config"
    using f by (simp_all add: p payload_def example_state_fields)
  have q: "queues_ok ?s (\<lambda>_. [])"
    using f by (intro queues_ok_init) (simp add: p example_state_fields)
  have "terminator_addr 9 \<noteq> terminator_addr (queue_index r)" if "r \<in> all_queues" for r
    using that by (auto simp: all_queues_def layout_numbers terminator_inj)
  then have d: "detached ?s (\<lambda>_. []) [terminator_addr 9]"
    using f by (auto simp: detached_def packet_ok_def queue_set_def p example_state_fields
        init_queues_index init_queue_def)
  have dis: "disjoint_ranges (cf_int_buf (f_cfg ?s)) 1024 reserved_rsp 320"
    by (rule disjoint_rangesI) (simp_all add: u default_config_def layout_defs)
  have slot: "int_slot ?s i = 0x203000 + 64 * i" for i
    using u(4) by (simp add: int_slot_def default_config_def)
  have raws: "int_ring_raws ?s = [[4, 0xC0, 0, 0, 1, 2, 3, 4]]"
    unfolding int_ring_raws_def slot
    by (simp add: p f example_state_fields ring_list_def raw_at_def rd_bytes_def
        wr_bytes_def st8_def Let_def upt_rec unat_neg_1)
  show ?thesis
    using usb_status_in_packs [OF ring _ q, unfolded u(1,2)] d dis u(3) by (simp add: raws) blast
qed

subsection \<open>Text\<close>

text \<open>A character that does not fill the buffer is stored.\<close>

lemma usb_putc_store:
  assumes "c \<noteq> 0" "unat (u_put_index (f_usb s)) < 59"
  shows "usb_putc c s = f_usb_update (\<lambda>u. u\<lparr> u_put_buffer := (u_put_buffer u)[unat (u_put_index u) := c],
     u_put_index := u_put_index u + 1 \<rparr>) s"
proof -
  have "u_put_index (f_usb s) < 60"
    using assms(2) by (simp add: word_less_nat_alt)
  moreover have "u_put_index (f_usb s) + 1 \<noteq> 60"
    using assms(2) unat_Suc_lt [of "u_put_index (f_usb s)" 59] by auto
  ultimately show ?thesis
    using assms by (cases s) (simp add: usb_putc_def set_put_buffer_def Let_def)
qed

lemma usb_putc_stores:
  assumes "0 \<notin> set cs" "unat (u_put_index (f_usb s)) + length cs \<le> 59" "length (u_put_buffer (f_usb s)) = 60"
  shows "\<exists>b. fold usb_putc cs s = f_usb_update (\<lambda>u. u\<lparr> u_put_buffer := b,
      u_put_index := u_put_index u + of_nat (length cs) \<rparr>) s \<and> length b = 60 \<and>
     take (unat (u_put_index (f_usb s)) + length cs) b = take (unat (u_put_index (f_usb s))) (u_put_buffer (f_usb s)) @ cs"
  using assms
proof (induction cs arbitrary: s)
  case Nil
  then show ?case
    by (intro exI [of _ "u_put_buffer (f_usb s)"]) (cases s, simp)
next
  case (Cons c cs)
  let ?i = "unat (u_put_index (f_usb s))"
  let ?t = "f_usb_update (\<lambda>u. u\<lparr> u_put_buffer := (u_put_buffer u)[unat (u_put_index u) := c],
     u_put_index := u_put_index u + 1 \<rparr>) s"
  have put: "usb_putc c s = ?t"
    using Cons.prems by (intro usb_putc_store) auto
  have i: "unat (u_put_index (f_usb ?t)) = ?i + 1"
    using Cons.prems(2) unat_Suc_lt [of "u_put_index (f_usb s)" 60] by simp
  have "0 \<notin> set cs" "unat (u_put_index (f_usb ?t)) + length cs \<le> 59" "length (u_put_buffer (f_usb ?t)) = 60"
    using i Cons.prems by auto
  from Cons.IH [OF this] obtain b where b: "fold usb_putc cs ?t = f_usb_update (\<lambda>u. u\<lparr> u_put_buffer := b,
      u_put_index := u_put_index u + of_nat (length cs) \<rparr>) ?t" "length b = 60"
     "take (?i + 1 + length cs) b = take (?i + 1) ((u_put_buffer (f_usb s))[?i := c]) @ cs"
    unfolding i by auto
  have "take (?i + 1) ((u_put_buffer (f_usb s))[?i := c]) = take ?i (u_put_buffer (f_usb s)) @ [c]"
    using Cons.prems(2,3) by (simp add: take_Suc_conv_app_nth)
  then show ?case
    using put b by (intro exI [of _ b]) (simp add: comp_def algebra_simps)
qed

text \<open>A printed text that fits in one message (58 characters) reaches the host whole: its characters
  up to the terminating NUL, each passed to \<^verbatim>\<open>usb_putc\<close>, make one text message that carries them in
  order, padded to a multiple of four bytes, with their number in the \<^verbatim>\<open>ext\<close> field.\<close>

theorem usb_text_message:
  assumes "0 \<notin> set cs" "length cs \<le> 58" "u_put_index (f_usb s) = 0" "length (u_put_buffer (f_usb s)) = 60"
  shows "\<exists>body. f_messages (fold usb_putc (cs @ [0]) s) =
       f_messages s @ [(0xCA, of_nat (length cs + 1), body)] \<and>
     take (length cs + 1) body = cs @ [0] \<and> length body = (length cs + 4) div 4 * 4 \<and>
     u_put_index (f_usb (fold usb_putc (cs @ [0]) s)) = 0"
proof -
  let ?n = "length cs"
  obtain b where b: "fold usb_putc cs s = f_usb_update (\<lambda>u. u\<lparr> u_put_buffer := b,
      u_put_index := u_put_index u + of_nat (length cs) \<rparr>) s" "length b = 60" "take ?n b = cs"
    using usb_putc_stores [of cs s] assms by auto
  define t where "t = fold usb_putc cs s"
  have t: "u_put_index (f_usb t) = of_nat ?n" "u_put_buffer (f_usb t) = b" "f_messages t = f_messages s"
    using b assms(3) by (simp_all add: t_def)
  have idx: "(of_nat ?n :: u32) < 60" "(of_nat ?n + 1 :: u32) < 60" "unat (of_nat ?n + 1 :: u32) = ?n + 1"
      "unat (of_nat ?n :: u32) = ?n"
    using assms(2) by (simp_all add: word_less_nat_alt unat_word_ariths(1))
  have ext: "ucast (of_nat ?n + 1 :: u32) = (of_nat (?n + 1) :: u8)"
    using of_nat_unat [of "of_nat ?n + 1 :: u32", where ?'a = u8] unfolding idx(3) by simp
  have small: "(?n + 4) div 4 * 4 \<le> 60" "?n + 1 \<le> (?n + 4) div 4 * 4"
    using assms(2) by presburger+
  have "unat (of_nat ?n + 1 + 3 :: u32) = ?n + 4"
    using assms(2) by (simp add: unat_word_ariths(1))
  then have "unat ((of_nat ?n + 1 + 3 :: u32) div 4 * 4) = (?n + 4) div 4 * 4"
    using small by (simp add: unat_word_ariths(2) unat_div)
  then have len: "(of_nat ?n + 1 + 3 :: u32) div 4 * 4 = of_nat ((?n + 4) div 4 * 4)"
    by (metis of_nat_unat_id)
  have len8: "unat (ucast (of_nat ((?n + 4) div 4 * 4) :: u32) :: u8) = (?n + 4) div 4 * 4"
    using small by (intro unat_ucast_u8) simp
  let ?body = "take ((?n + 4) div 4 * 4) (b[?n := 0, ?n + 1 := 0])"
  have "f_messages (usb_putc 0 t) = f_messages t @ [(0xCA, ucast (of_nat ?n + 1 :: u32),
      take (unat (ucast ((of_nat ?n + 1 + 3 :: u32) div 4 * 4) :: u8)) (b[?n := 0, ?n + 1 := 0]))]"
    "u_put_index (f_usb (usb_putc 0 t)) = 0"
    using idx by (simp_all add: usb_putc_def set_put_buffer_def Let_def t(1,2) send_cmd_fields)
  moreover have "take (?n + 1) ?body = cs @ [0]"
    using b(2,3) small assms(2) by (simp add: min_def take_Suc_conv_app_nth)
  ultimately show ?thesis
    using small b(2) t(3) unfolding len len8 ext
    by (intro exI [of _ ?body]) (simp add: t_def)
qed

theorem usb_text_message_witness:
  "\<exists>body. f_messages (fold usb_putc ([0x4F, 0x4B] @ [0]) example_state) = [(0xCA, 3, body)] \<and>
     take (Suc (Suc (Suc 0))) body = [0x4F, 0x4B, 0]"
proof -
  have "u_put_index (f_usb example_state) = 0" "length (u_put_buffer (f_usb example_state)) = 60"
    "f_messages example_state = []"
    by (simp_all add: example_state_def zero_state_def)
  then show ?thesis
    using usb_text_message [of "[0x4F, 0x4B]" example_state] by auto
qed

text \<open>The sixtieth character of a text overflows the buffer: the terminating zero is written to
  \<^verbatim>\<open>put_buffer[60]\<close>, one past the end, which is the low byte of \<^verbatim>\<open>fw.phy.frequency\<close>.\<close>

theorem usb_putc_overflow:
  assumes "u_put_index (f_usb s) = 59"
  shows "p_frequency (f_phy (usb_putc c s)) = p_frequency (f_phy s) AND NOT 0xFF"
  using assms by (simp add: usb_putc_def set_put_buffer_def Let_def send_cmd_fields)

theorem usb_putc_overflow_witness:
  "p_frequency (f_phy (usb_putc 0x41 (example_state
      \<lparr> f_usb := (f_usb example_state)\<lparr> u_put_index := 59 \<rparr>,
        f_phy := (f_phy example_state)\<lparr> p_frequency := 0x985 \<rparr> \<rparr>))) = 0x900"
  by (subst usb_putc_overflow) simp_all

end
