(* ===== verification/Timer.thy ===== *)
theory Timer
  imports HostChannel
begin

text \<open>The timer and clock of the CPU (carlfw/src/timer.c up to \<^verbatim>\<open>clock_set\<close>, carlfw/include/timer.h),
  the GPIO port (carlfw/src/gpio.c, carlfw/include/gpio.h). The timer interrupt, which calls into
  the WLAN component, is in the theory Wlan. The busy-waiting loops may not end, so they are
  partial functions; when they end and when they cannot is proved below.\<close>

subsection \<open>Operations\<close>

datatype cpu_clock_t = AHB_40MHZ_OSC | AHB_20_22MHZ | AHB_40_44MHZ | AHB_80_88MHZ

fun clock_code :: "cpu_clock_t \<Rightarrow> u32" where
  "clock_code AHB_40MHZ_OSC = 0"
| "clock_code AHB_20_22MHZ = 1"
| "clock_code AHB_40_44MHZ = 2"
| "clock_code AHB_80_88MHZ = 3"

text \<open>The two reads are unsequenced in C; the high half is read first here.\<close>

definition get_clock_counter :: "fw_state \<Rightarrow> u32 \<times> fw_state" where
  "get_clock_counter s = (let (hi, s) = get_reg AR9170_TIMER_REG_CLOCK_HIGH s;
      (lo, s) = get_reg AR9170_TIMER_REG_CLOCK_LOW s in (push_bit 16 hi OR lo, s))"

definition is_after_msecs :: "u32 \<Rightarrow> u32 \<Rightarrow> fw_state \<Rightarrow> bool \<times> fw_state" where
  "is_after_msecs t0 msecs s = (let (t, s) = get_clock_counter s
     in ((t - t0) div 1000 > msecs * f_ticks_per_usec s, s))"

partial_function (option) delay_loop :: "u32 \<Rightarrow> u32 \<Rightarrow> fw_state \<Rightarrow> fw_state option" where
  "delay_loop t1 wt s =
     (let (t2, s) = get_clock_counter s; dt = (t2 - t1) div 1000
      in if dt \<ge> wt then Some s else delay_loop t1 wt s)"

definition delay :: "u32 \<Rightarrow> fw_state \<Rightarrow> fw_state option" where
  "delay msec s = (let wt = msec * f_ticks_per_usec s; (t1, s) = get_clock_counter s in delay_loop t1 wt s)"

partial_function (option) udelay_loop :: "u32 \<Rightarrow> u32 \<Rightarrow> fw_state \<Rightarrow> fw_state option" where
  "udelay_loop t1 usec s =
     (let (t2, s) = get_clock_counter s; dt = t2 - t1
      in if dt \<ge> usec * f_ticks_per_usec s then Some s else udelay_loop t1 usec s)"

definition udelay :: "u32 \<Rightarrow> fw_state \<Rightarrow> fw_state option" where
  "udelay usec s = (let (t1, s) = get_clock_counter s in udelay_loop t1 usec s)"

definition timer_init :: "nat \<Rightarrow> u32 \<Rightarrow> fw_state \<Rightarrow> fw_state" where
  "timer_init timer interval s =
     (let s = orl AR9170_TIMER_REG_CONTROL (push_bit timer 1) s;
          s = set_reg (AR9170_TIMER_REG_TIMER0 + push_bit 2 (of_nat timer)) (interval - 1) s
      in orl AR9170_TIMER_REG_INTERRUPT (push_bit timer 1) s)"

text \<open>The switch falls through from \<^verbatim>\<open>AHB_20_22MHZ\<close> to the halving of the 40 MHz clocks.\<close>

definition clock_set :: "cpu_clock_t \<Rightarrow> bool \<Rightarrow> fw_state \<Rightarrow> fw_state" where
  "clock_set clk on s =
     (let s = (if p_frequency (f_phy s) < 3000000 then set_reg AR9170_PWR_REG_PLL_ADDAC 0x5163 s
               else set_reg AR9170_PWR_REG_PLL_ADDAC 0x5143 s);
          (v, s) = get_reg AR9170_PWR_REG_PLL_ADDAC s;
          s = f_ticks_per_usec_update (\<lambda>_. drop_bit AR9170_PWR_PLL_ADDAC_DIV_S (v AND AR9170_PWR_PLL_ADDAC_DIV)) s;
          s = set_reg AR9170_PWR_REG_CLOCK_SEL ((if on then 0x70 else 0x600) OR clock_code clk) s
      in case clk of
           AHB_20_22MHZ \<Rightarrow> f_ticks_per_usec_update (drop_bit 1) (f_ticks_per_usec_update (drop_bit 1) s)
         | AHB_40MHZ_OSC \<Rightarrow> f_ticks_per_usec_update (drop_bit 1) s
         | AHB_40_44MHZ \<Rightarrow> f_ticks_per_usec_update (drop_bit 1) s
         | AHB_80_88MHZ \<Rightarrow> s)"

definition led_init :: "fw_state \<Rightarrow> fw_state" where
  "led_init = set_reg AR9170_GPIO_REG_PORT_TYPE 3"

definition led_set :: "u32 \<Rightarrow> fw_state \<Rightarrow> fw_state" where
  "led_set ledstate = set_reg AR9170_GPIO_REG_PORT_DATA ledstate"

definition get_random_u16 :: "fw_state \<Rightarrow> u16 \<times> fw_state" where
  "get_random_u16 = getw AR9170_RAND_REG_NUM"

definition gpio_timer :: "fw_state \<Rightarrow> fw_state" where
  "gpio_timer s =
     (let (v, s) = get_reg AR9170_GPIO_REG_PORT_DATA s; cur = v AND CARL9170_GPIO_MASK
      in if cur \<noteq> f_cached_gpio s then
           let s = f_cached_gpio_update (\<lambda>_. cur) s
           in send_cmd_to_host 4 CARL9170_RSP_GPIO 0 (bytes32 (f_cached_gpio s)) s
         else s)"

subsection \<open>Frames\<close>

lemma same_core_clock [simp]: "same_core s (snd (get_clock_counter s))"
  by (simp add: get_clock_counter_def get_reg_def Let_def same_core_trans [OF same_core_tick])

lemma same_core_is_after [simp]: "same_core s (snd (is_after_msecs t0 m s))"
  by (simp add: is_after_msecs_def split_beta Let_def)

lemma same_core_delay_loop: "delay_loop t1 wt s = Some s' \<Longrightarrow> same_core s s'"
proof (erule delay_loop.raw_induct [where P = "\<lambda>t wt s s'. same_core s s'", rotated])
  fix loop t1 wt s s'
  assume "\<And>t wt s y. loop t wt s = Some y \<Longrightarrow> same_core s y"
    and "(let (t2, s) = get_clock_counter s; dt = (t2 - t1) div 1000 in if wt \<le> dt then Some s else loop t1 wt s) = Some s'"
  then show "same_core s s'"
    by (auto simp: Let_def split_beta split: if_splits intro: same_core_trans [OF same_core_clock])
qed

lemma same_core_delay: "delay msec s = Some s' \<Longrightarrow> same_core s s'"
  by (auto simp: delay_def Let_def split_beta dest!: same_core_delay_loop intro: same_core_trans [OF same_core_clock])

lemma same_core_udelay_loop: "udelay_loop t1 usec s = Some s' \<Longrightarrow> same_core s s'"
proof (erule udelay_loop.raw_induct [where P = "\<lambda>t wt s s'. same_core s s'", rotated])
  fix loop t1 wt s s'
  assume "\<And>t wt s y. loop t wt s = Some y \<Longrightarrow> same_core s y"
    and "(let (t2, s) = get_clock_counter s; dt = t2 - t1 in if wt * f_ticks_per_usec s \<le> dt then Some s else loop t1 wt s) = Some s'"
  then show "same_core s s'"
    by (auto simp: Let_def split_beta split: if_splits intro: same_core_trans [OF same_core_clock])
qed

lemma same_core_udelay: "udelay usec s = Some s' \<Longrightarrow> same_core s s'"
  by (auto simp: udelay_def Let_def split_beta dest!: same_core_udelay_loop intro: same_core_trans [OF same_core_clock])

subsection \<open>When the delays end\<close>

text \<open>The state after \<^verbatim>\<open>k\<close> more reads of the clock, and what the next read gives.\<close>

definition after_reads :: "nat \<Rightarrow> fw_state \<Rightarrow> fw_state" where
  "after_reads k s = ((\<lambda>s. snd (get_clock_counter s)) ^^ k) s"

definition clock_at :: "nat \<Rightarrow> fw_state \<Rightarrow> u32" where
  "clock_at k s = fst (get_clock_counter (after_reads k s))"

lemma after_reads_simps [simp]:
  "after_reads 0 s = s" "after_reads (Suc k) s = after_reads k (snd (get_clock_counter s))"
  by (simp_all add: after_reads_def funpow_Suc_right del: funpow.simps(2))

lemma clock_at_Suc: "clock_at (Suc k) s = clock_at k (snd (get_clock_counter s))"
  by (simp add: clock_at_def)

lemma delay_loop_returns:
  "wt \<le> (clock_at k s - t1) div 1000 \<Longrightarrow> \<exists>s'. delay_loop t1 wt s = Some s'"
proof (induction k arbitrary: s)
  case 0
  then show ?case
    by (subst delay_loop.simps) (simp add: clock_at_def Let_def split_beta)
next
  case (Suc k)
  then show ?case
    by (subst delay_loop.simps) (simp add: clock_at_Suc Let_def split_beta)
qed

lemma delay_loop_first:
  "\<forall>j < k. \<not> wt \<le> (clock_at j s - t1) div 1000 \<Longrightarrow> wt \<le> (clock_at k s - t1) div 1000 \<Longrightarrow>
     delay_loop t1 wt s = Some (after_reads (Suc k) s)"
proof (induction k arbitrary: s)
  case 0
  then show ?case
    by (subst delay_loop.simps) (simp add: clock_at_def Let_def split_beta)
next
  case (Suc k)
  have first: "\<not> wt \<le> (fst (get_clock_counter s) - t1) div 1000"
    using Suc.prems(1) by (force simp: clock_at_def)
  have "\<not> wt \<le> (clock_at j (snd (get_clock_counter s)) - t1) div 1000" if "j < k" for j
    using Suc.prems(1) that by (force simp: clock_at_Suc [symmetric])
  then have "delay_loop t1 wt (snd (get_clock_counter s)) = Some (after_reads (Suc k) (snd (get_clock_counter s)))"
    using Suc.IH Suc.prems(2) by (simp add: clock_at_Suc)
  then show ?case
    using first by (subst delay_loop.simps) (simp add: Let_def split_beta)
qed

lemma delay_loop_returned: "delay_loop t1 wt s = Some s' \<Longrightarrow> \<exists>k. wt \<le> (clock_at k s - t1) div 1000"
proof (erule delay_loop.raw_induct [where P = "\<lambda>t1 wt s s'. \<exists>k. wt \<le> (clock_at k s - t1) div 1000", rotated])
  fix loop t1 wt s s'
  assume IH: "\<And>t1 wt s y. loop t1 wt s = Some y \<Longrightarrow> \<exists>k. wt \<le> (clock_at k s - t1) div 1000"
    and body: "(let (t2, s) = get_clock_counter s; dt = (t2 - t1) div 1000 in if wt \<le> dt then Some s else loop t1 wt s) = Some s'"
  show "\<exists>k. wt \<le> (clock_at k s - t1) div 1000"
  proof (cases "wt \<le> (clock_at 0 s - t1) div 1000")
    case False
    then have "loop t1 wt (snd (get_clock_counter s)) = Some s'"
      using body by (simp add: Let_def split_beta clock_at_def)
    then show ?thesis
      using IH clock_at_Suc by metis
  qed blast
qed

lemma same_core_reads: "same_core s (after_reads k s)"
proof (induction k arbitrary: s)
  case (Suc k)
  then show ?case
    using same_core_trans [OF same_core_clock] by simp
qed simp

text \<open>At the read with number \<^verbatim>\<open>k + 1\<close> after the first one, the clock has advanced by 1000 ticks for each of the
  \<^verbatim>\<open>msec * ticks_per_usec\<close> (a product of 32 bits), that is by \<^verbatim>\<open>msec\<close> milliseconds.\<close>

definition time_passed :: "u32 \<Rightarrow> fw_state \<Rightarrow> nat \<Rightarrow> bool" where
  "time_passed msec s k \<longleftrightarrow> 1000 * unat (msec * f_ticks_per_usec s) \<le> unat (clock_at (Suc k) s - clock_at 0 s)"

lemma le_div_1000: "wt \<le> x div 1000 \<longleftrightarrow> 1000 * unat wt \<le> unat x" for wt x :: u32
  by (simp add: word_le_nat_alt unat_div less_eq_div_iff_mult_less_eq mult.commute)

text \<open>C23. A delay waits: it reads the clock until the clock has advanced by the time asked for since the first
  read, and returns at the first read at which it has, neither earlier nor later; it does not return when no
  read shows that. It changes nothing but the registers.\<close>

theorem delay_waits:
  "delay msec s = (if \<exists>k. time_passed msec s k then Some (after_reads (LEAST k. time_passed msec s k) (after_reads 2 s)) else None) \<and>
   same_core s (after_reads k s)"
proof
  let ?wt = "msec * f_ticks_per_usec s" and ?s = "snd (get_clock_counter s)" and ?t = "clock_at 0 s"
  have delay: "delay msec s = delay_loop ?t ?wt ?s"
    by (simp add: delay_def Let_def split_beta clock_at_def)
  have passed: "time_passed msec s k \<longleftrightarrow> ?wt \<le> (clock_at k ?s - ?t) div 1000" for k
    by (simp add: time_passed_def le_div_1000 clock_at_Suc)
  show "delay msec s = (if \<exists>k. time_passed msec s k then Some (after_reads (LEAST k. time_passed msec s k) (after_reads 2 s)) else None)"
  proof (cases "\<exists>k. time_passed msec s k")
    case True
    then have least: "time_passed msec s (LEAST k. time_passed msec s k)"
      by (rule LeastI_ex)
    have "delay_loop ?t ?wt ?s = Some (after_reads (Suc (LEAST k. time_passed msec s k)) ?s)"
      by (rule delay_loop_first) (use least not_less_Least [of _ "time_passed msec s"] passed in blast)+
    then show ?thesis
      using True by (simp add: delay numeral_2_eq_2)
  next
    case False
    then have "delay_loop ?t ?wt ?s = None"
      using delay_loop_returned [of ?t ?wt ?s] passed by (cases "delay_loop ?t ?wt ?s") blast+
    then show ?thesis
      using False by (simp add: delay)
  qed
  show "same_core s (after_reads k s)"
    by (rule same_core_reads)
qed

text \<open>A machine at 22 MHz whose counter runs.\<close>

definition ticking_state :: fw_state where
  "ticking_state = (zero_state default_config)\<lparr> f_ticks_per_usec := 22, f_hw := \<lparr> hw_regs = (\<lambda>_. 0),
     hw_dev = (\<lambda>n a. if a = AR9170_TIMER_REG_CLOCK_LOW then Some (of_nat n * 20000) else None),
     hw_now = 0, hw_log = [] \<rparr> \<rparr>"

text \<open>There the time of three milliseconds has passed at the second read after the first, not at the first.\<close>

lemma time_passed_sample: "\<not> time_passed 3 ticking_state 0" "time_passed 3 ticking_state 1"
  by (simp_all add: time_passed_def ticking_state_def zero_state_def clock_at_def get_clock_counter_def get_reg_def peek_def tick_def Let_def)

text \<open>A delay whose product of milliseconds and ticks exceeds 4294967 never returns, whatever the
  clock does: the elapsed 32-bit count divided by 1000 cannot reach it (97 seconds at 44 MHz).\<close>

theorem delay_never_returns:
  assumes "4294967 < unat (msec * f_ticks_per_usec s)"
  shows "delay msec s = None"
proof (rule ccontr)
  assume "delay msec s \<noteq> None"
  then obtain t u s' where "delay_loop t (msec * f_ticks_per_usec s) u = Some s'"
    by (auto simp: delay_def Let_def split_beta)
  then obtain x where "msec * f_ticks_per_usec s \<le> (x - t) div 1000"
    using delay_loop_returned by blast
  then have "unat (msec * f_ticks_per_usec s) \<le> unat (x - t) div 1000"
    by (simp add: word_le_nat_alt unat_div)
  with unat_lt32 [of "x - t"] assms show False
    by linarith
qed

theorem delay_never_returns_witness: "delay 200000 ticking_state = None"
  by (rule delay_never_returns) (simp add: ticking_state_def zero_state_def)

text \<open>The clock rate in ticks per microsecond that \<^verbatim>\<open>clock_set\<close> computes, when the PLL register
  reads back what was written: 88, 44 or 22 in the 2.4 GHz band, 80, 40 or 20 above.\<close>

theorem clock_set_ticks:
  assumes "hw_dev (f_hw s) (hw_now (f_hw s)) AR9170_PWR_REG_PLL_ADDAC = None"
  shows "f_ticks_per_usec (clock_set clk on s) =
     (if p_frequency (f_phy s) < 3000000 then 88 else 80) div
     (case clk of AHB_20_22MHZ \<Rightarrow> 4 | AHB_80_88MHZ \<Rightarrow> 1 | _ \<Rightarrow> 2)"
  using assms by (cases clk) (simp_all add: clock_set_def Let_def get_reg_def peek_def set_reg_def tick_def)

theorem clock_set_ticks_witness:
  "f_ticks_per_usec (clock_set AHB_40_44MHZ True (zero_state default_config)) = 44"
  by (subst clock_set_ticks) (simp_all add: zero_state_def)

text \<open>\<^verbatim>\<open>is_after_msecs\<close> compares the ticks that passed since \<^verbatim>\<open>t0\<close>, across a wrap of the
  counter, as long as less than 2^32 ticks passed and the product does not overflow.\<close>

theorem is_after_msecs_elapsed:
  assumes "e < 4294967296" "fst (get_clock_counter s) = t0 + of_nat e"
    "msecs * unat (f_ticks_per_usec s) < 4294967296"
  shows "fst (is_after_msecs t0 (of_nat msecs) s) \<longleftrightarrow> msecs * unat (f_ticks_per_usec s) * 1000 + 1000 \<le> e"
proof -
  let ?p = "of_nat msecs * f_ticks_per_usec s"
  have "?p = of_nat (msecs * unat (f_ticks_per_usec s))"
    by simp
  then have p: "unat ?p = msecs * unat (f_ticks_per_usec s)"
    using assms(3) unat_of_nat32 by metis
  have "fst (is_after_msecs t0 (of_nat msecs) s) \<longleftrightarrow> ?p < of_nat e div 1000"
    using assms(2) by (simp add: is_after_msecs_def Let_def split_beta fields_same_core [OF same_core_clock])
  also have "\<dots> \<longleftrightarrow> msecs * unat (f_ticks_per_usec s) < e div 1000"
    using assms(1) by (simp add: word_less_nat_alt unat_div p)
  also have "\<dots> \<longleftrightarrow> msecs * unat (f_ticks_per_usec s) * 1000 + 1000 \<le> e"
    by linarith
  finally show ?thesis .
qed

theorem is_after_msecs_elapsed_witness: "fst (is_after_msecs (- 30000) (of_nat 1) ticking_state)"
  by (subst is_after_msecs_elapsed [where e = 50000])
    (simp_all add: ticking_state_def zero_state_def get_clock_counter_def get_reg_def peek_def tick_def Let_def)

end
