(* ===== verification/Wl.thy ===== *)
theory Wl
  imports Timer
begin

text \<open>Access to frames and superframes: the frame control predicates of
  include/linux/ieee80211.h that the firmware uses, and the helpers of carlfw/include/wl.h. A frame is
  given by its address in the byte memory; the two headers of a superframe are in the typed memory
  \<^verbatim>\<open>f_supers\<close>, under the address of the superframe.\<close>

subsection \<open>Frame headers (include/linux/ieee80211.h)\<close>

definition ieee80211_has_a4 :: "u16 \<Rightarrow> bool" where
  "ieee80211_has_a4 fc \<longleftrightarrow> (let tmp = IEEE80211_FCTL_TODS OR IEEE80211_FCTL_FROMDS in fc AND tmp = tmp)"

definition ieee80211_has_order :: "u16 \<Rightarrow> bool" where
  "ieee80211_has_order fc \<longleftrightarrow> fc AND IEEE80211_FCTL_ORDER \<noteq> 0"

definition ieee80211_is_ctl :: "u16 \<Rightarrow> bool" where
  "ieee80211_is_ctl fc \<longleftrightarrow> fc AND IEEE80211_FCTL_FTYPE = IEEE80211_FTYPE_CTL"

definition ieee80211_is_data :: "u16 \<Rightarrow> bool" where
  "ieee80211_is_data fc \<longleftrightarrow> fc AND IEEE80211_FCTL_FTYPE = IEEE80211_FTYPE_DATA"

definition ieee80211_is_data_qos :: "u16 \<Rightarrow> bool" where
  "ieee80211_is_data_qos fc \<longleftrightarrow> fc AND (IEEE80211_FCTL_FTYPE OR IEEE80211_STYPE_QOS_DATA) =
     IEEE80211_FTYPE_DATA OR IEEE80211_STYPE_QOS_DATA"

text \<open>The predicates on type and subtype.\<close>

definition is_kind :: "u16 \<Rightarrow> u16 \<Rightarrow> bool" where
  "is_kind fc k \<longleftrightarrow> fc AND (IEEE80211_FCTL_FTYPE OR IEEE80211_FCTL_STYPE) = k"

definition ieee80211_is_back_req :: "u16 \<Rightarrow> bool" where
  "ieee80211_is_back_req fc \<longleftrightarrow> is_kind fc (IEEE80211_FTYPE_CTL OR IEEE80211_STYPE_BACK_REQ)"

definition ieee80211_is_beacon :: "u16 \<Rightarrow> bool" where
  "ieee80211_is_beacon fc \<longleftrightarrow> is_kind fc (IEEE80211_FTYPE_MGMT OR IEEE80211_STYPE_BEACON)"

definition ieee80211_is_deauth :: "u16 \<Rightarrow> bool" where
  "ieee80211_is_deauth fc \<longleftrightarrow> is_kind fc (IEEE80211_FTYPE_MGMT OR IEEE80211_STYPE_DEAUTH)"

definition ieee80211_is_disassoc :: "u16 \<Rightarrow> bool" where
  "ieee80211_is_disassoc fc \<longleftrightarrow> is_kind fc (IEEE80211_FTYPE_MGMT OR IEEE80211_STYPE_DISASSOC)"

definition ieee80211_is_probe_req :: "u16 \<Rightarrow> bool" where
  "ieee80211_is_probe_req fc \<longleftrightarrow> is_kind fc (IEEE80211_FTYPE_MGMT OR IEEE80211_STYPE_PROBE_REQ)"

definition ieee80211_is_first_frag :: "u16 \<Rightarrow> bool" where
  "ieee80211_is_first_frag seq_ctrl \<longleftrightarrow> seq_ctrl AND IEEE80211_SCTL_FRAG = 0"

definition ieee80211_hdrlen :: "u16 \<Rightarrow> u32" where
  "ieee80211_hdrlen fc =
     (let hdrlen = (if ieee80211_has_a4 fc then 30 else 24)
      in if ieee80211_is_data_qos fc
         then if ieee80211_has_order fc then hdrlen + 2 + 4 else hdrlen + 2
         else hdrlen)"

text \<open>The members of \<^verbatim>\<open>struct ieee80211_hdr\<close> and its relatives, by offset.\<close>

definition i3e_frame_control :: "memory \<Rightarrow> u32 \<Rightarrow> u16" where
  "i3e_frame_control m hdr = ld16 m hdr"

definition set_frame_control :: "u32 \<Rightarrow> u16 \<Rightarrow> fw_state \<Rightarrow> fw_state" where
  "set_frame_control hdr v = f_ram_update (st16 hdr v)"

abbreviation (input) i3e_addr1 :: "u32 \<Rightarrow> u32" where "i3e_addr1 hdr \<equiv> hdr + 4"
abbreviation (input) i3e_addr2 :: "u32 \<Rightarrow> u32" where "i3e_addr2 hdr \<equiv> hdr + 10"
abbreviation (input) i3e_addr3 :: "u32 \<Rightarrow> u32" where "i3e_addr3 hdr \<equiv> hdr + 16"
abbreviation (input) i3e_seq_ctrl :: "u32 \<Rightarrow> u32" where "i3e_seq_ctrl hdr \<equiv> hdr + 22"
abbreviation (input) probe_resp_timestamp :: "u32 \<Rightarrow> u32" where "probe_resp_timestamp mgmt \<equiv> mgmt + 24"
abbreviation (input) beacon_variable :: "u32 \<Rightarrow> u32" where "beacon_variable mgmt \<equiv> mgmt + 36"
abbreviation (input) probe_req_variable :: "u32 \<Rightarrow> u32" where "probe_req_variable mgmt \<equiv> mgmt + 24"

definition ieee80211_get_qos_ctl :: "memory \<Rightarrow> u32 \<Rightarrow> u32" where
  "ieee80211_get_qos_ctl m hdr = (if ieee80211_has_a4 (i3e_frame_control m hdr) then hdr + 30 else hdr + 24)"

subsection \<open>Superframes\<close>

definition ar9170_tx_length_check :: "u16 \<Rightarrow> bool" where
  "ar9170_tx_length_check len \<longleftrightarrow> unat len > 32 + 24 + FCS_LEN"

text \<open>\<^verbatim>\<open>get_super\<close> goes back from the hidden position (the frame after the superdescriptor).\<close>

definition get_super :: "u32 \<Rightarrow> fw_state \<Rightarrow> u32" where
  "get_super desc s = payload desc s - 24"

definition hide_super :: "u32 \<Rightarrow> fw_state \<Rightarrow> fw_state" where
  "hide_super desc = upd_desc desc (\<lambda>d. d\<lparr> dd_dataAddr := dd_dataAddr d + 24,
     dd_dataSize := dd_dataSize d - 24, dd_totalLen := dd_totalLen d - 24 \<rparr>)"

definition unhide_super :: "u32 \<Rightarrow> fw_state \<Rightarrow> fw_state" where
  "unhide_super desc = upd_desc desc (\<lambda>d. d\<lparr> dd_dataAddr := dd_dataAddr d - 24,
     dd_dataSize := dd_dataSize d + 24, dd_totalLen := dd_totalLen d + 24 \<rparr>)"

text \<open>Access to the header structs.\<close>

definition super_s :: "u32 \<Rightarrow> fw_state \<Rightarrow> tx_superdesc" where
  "super_s super s = sf_s (f_supers s super)"

definition super_hdr :: "u32 \<Rightarrow> fw_state \<Rightarrow> tx_hwdesc" where
  "super_hdr super s = sf_hdr (f_supers s super)"

definition upd_super :: "u32 \<Rightarrow> (tx_superframe \<Rightarrow> tx_superframe) \<Rightarrow> fw_state \<Rightarrow> fw_state" where
  "upd_super super g s = s\<lparr> f_supers := (f_supers s)(super := g (f_supers s super)) \<rparr>"

abbreviation upd_s :: "u32 \<Rightarrow> (tx_superdesc \<Rightarrow> tx_superdesc) \<Rightarrow> fw_state \<Rightarrow> fw_state" where
  "upd_s super g \<equiv> upd_super super (sf_s_update g)"

abbreviation upd_mac :: "u32 \<Rightarrow> (tx_hw_mac_control \<Rightarrow> tx_hw_mac_control) \<Rightarrow> fw_state \<Rightarrow> fw_state" where
  "upd_mac super g \<equiv> upd_super super (sf_hdr_update (hd_mac_update g))"

abbreviation upd_phy :: "u32 \<Rightarrow> (tx_hw_phy_control \<Rightarrow> tx_hw_phy_control) \<Rightarrow> fw_state \<Rightarrow> fw_state" where
  "upd_phy super g \<equiv> upd_super super (sf_hdr_update (hd_phy_update g))"

subsection \<open>Registers of the MAC (carlfw/include/wl.h)\<close>

definition set_wlan_txq_dma_curr_addr :: "u32 \<Rightarrow> u32 \<Rightarrow> fw_state \<Rightarrow> fw_state" where
  "set_wlan_txq_dma_curr_addr q v = set_reg (AR9170_MAC_REG_DMA_TXQ_CURR_ADDR + push_bit 3 q) v"

definition get_wlan_txq_dma_addr :: "u32 \<Rightarrow> fw_state \<Rightarrow> u32 \<times> fw_state" where
  "get_wlan_txq_dma_addr q = get_reg (AR9170_MAC_REG_DMA_TXQ_ADDR + push_bit 3 q)"

definition get_wlan_txq_addr :: "u32 \<Rightarrow> fw_state \<Rightarrow> u32 \<times> fw_state" where
  "get_wlan_txq_addr q = get_reg (AR9170_MAC_REG_DMA_TXQ_CURR_ADDR + push_bit 3 q)"

definition get_wlan_txq_last_addr :: "u32 \<Rightarrow> fw_state \<Rightarrow> u32 \<times> fw_state" where
  "get_wlan_txq_last_addr q = get_reg (AR9170_MAC_REG_DMA_TXQ_LAST_ADDR + push_bit 2 q)"

definition wlan_trigger :: "u32 \<Rightarrow> fw_state \<Rightarrow> fw_state" where
  "wlan_trigger queue_bit = set_reg AR9170_MAC_REG_DMA_TRIGGER queue_bit"

definition read_tsf :: "fw_state \<Rightarrow> (u32 \<times> u32) \<times> fw_state" where
  "read_tsf s = (let (lo, s) = get_reg AR9170_MAC_REG_TSF_L s; (hi, s) = get_reg AR9170_MAC_REG_TSF_H s
     in ((lo, hi), s))"

text \<open>\<^verbatim>\<open>compare_ether_address\<close>, on the two words read at each address.\<close>

definition compare_ether_address :: "u32 \<times> u32 \<Rightarrow> u32 \<times> u32 \<Rightarrow> bool" where
  "compare_ether_address d0 d1 \<longleftrightarrow>
     (fst d0 XOR fst d1) OR ucast (ucast (snd d0 XOR snd d1) :: u16) = 0"

subsection \<open>Received frames (carlfw/include/wl.h)\<close>

definition ar9170_get_rx_macstatus_status :: "u32 \<Rightarrow> fw_state \<Rightarrow> u8" where
  "ar9170_get_rx_macstatus_status desc s =
     (let l = dd_lastAddr (f_descs s desc)
      in f_ram s (payload l s + ucast (dd_dataSize (f_descs s l)) - 1))"

text \<open>When the last descriptor holds the status byte only, the loop walks to the one before it.\<close>

partial_function (option) rx_second_last :: "u32 \<Rightarrow> fw_state \<Rightarrow> u32 option" where
  "rx_second_last desc s =
     (if dd_lastAddr (f_descs s desc) \<noteq> dd_nextAddr (f_descs s desc)
      then rx_second_last (dd_nextAddr (f_descs s desc)) s else Some desc)"

definition ar9170_get_rx_macstatus_error :: "u32 \<Rightarrow> fw_state \<Rightarrow> u8 option" where
  "ar9170_get_rx_macstatus_error desc s =
     (let l = dd_lastAddr (f_descs s desc)
      in if dd_dataSize (f_descs s l) = 1 then
           do { d \<leftarrow> rx_second_last desc s;
                Some (f_ram s (payload d s + (ucast (dd_dataSize (f_descs s d)) - 1))) }
         else Some (f_ram s (payload l s + (ucast (dd_dataSize (f_descs s l)) - (4 - 2)))))"

definition ar9170_get_rx_i3e :: "u32 \<Rightarrow> fw_state \<Rightarrow> u32" where
  "ar9170_get_rx_i3e desc s =
     (if (ar9170_get_rx_macstatus_status desc s AND AR9170_RX_STATUS_MPDU) AND AR9170_RX_STATUS_MPDU_LAST = 0
      then payload desc s + 12 else payload desc s)"

definition ar9170_get_rx_head :: "u32 \<Rightarrow> fw_state \<Rightarrow> u32 option" where
  "ar9170_get_rx_head desc s =
     (if (ar9170_get_rx_macstatus_status desc s AND AR9170_RX_STATUS_MPDU) AND AR9170_RX_STATUS_MPDU_LAST = 0
      then Some (payload desc s) else None)"

definition ar9170_rx_to_phy :: "u32 \<Rightarrow> fw_state \<Rightarrow> u32" where
  "ar9170_rx_to_phy rx s =
     (case ar9170_get_rx_head rx s of
        None \<Rightarrow> 0
      | Some head \<Rightarrow>
          let mac_status = ar9170_get_rx_macstatus_status rx s;
              plcp = (\<lambda>i. f_ram s (head + i));
              modulation = mac_status AND AR9170_RX_STATUS_MODULATION;
              phy = (phy_control_of 0)\<lparr> pc_modulation := ucast modulation, pc_chains := AR9170_TX_PHY_TXCHAIN_1 \<rparr>;
              phy =
                (if modulation = AR9170_RX_STATUS_MODULATION_CCK then
                   phy\<lparr> pc_preamble := (mac_status AND AR9170_RX_STATUS_SHORT_PREAMBLE \<noteq> 0),
                        pc_mcs := if plcp 0 = AR9170_RX_PHY_RATE_CCK_2M then AR9170_TX_PHY_RATE_CCK_2M
                          else if plcp 0 = AR9170_RX_PHY_RATE_CCK_5M then AR9170_TX_PHY_RATE_CCK_5M
                          else if plcp 0 = AR9170_RX_PHY_RATE_CCK_11M then AR9170_TX_PHY_RATE_CCK_11M
                          else AR9170_TX_PHY_RATE_CCK_1M \<rparr>
                 else if modulation = AR9170_RX_STATUS_MODULATION_HT then
                   phy\<lparr> pc_bandwidth := if plcp 3 AND 0x80 \<noteq> 0 then 2 else 0,
                        pc_short_gi := (plcp 6 AND 0x80 \<noteq> 0),
                        pc_mcs := ucast (plcp 6 AND 0x7) \<rparr>
                 else phy\<lparr> pc_mcs := ucast (plcp 0 AND 0xf) \<rparr>)
          in phy_control_set phy)"

text \<open>The length of the frame without the status that the hardware adds: the subtraction is unsigned.\<close>

definition ar9170_get_rx_mpdu_len :: "u32 \<Rightarrow> fw_state \<Rightarrow> u32" where
  "ar9170_get_rx_mpdu_len desc s =
     (let mpdu_len = ucast (dd_totalLen (f_descs s desc)) - AR9170_RX_MACSTATUS_LEN;
          st = ar9170_get_rx_macstatus_status desc s AND AR9170_RX_STATUS_MPDU
      in if st = AR9170_RX_STATUS_MPDU_LAST then mpdu_len - AR9170_RX_PHYSTATUS_LEN
         else if st = AR9170_RX_STATUS_MPDU_SINGLE
           then mpdu_len - AR9170_RX_PHYSTATUS_LEN - AR9170_RX_HEAD_LEN
         else if st = AR9170_RX_STATUS_MPDU_FIRST then mpdu_len - AR9170_RX_HEAD_LEN
         else mpdu_len)"

end
