(* ===== verification/WlanTx.thy ===== *)
theory WlanTx
  imports Wl
begin

text \<open>The transmit path (carlfw/src/wlantx.c): the life of a frame from \<^verbatim>\<open>wlan_tx\<close> through the
  hardware queues to its status report, the retry logic, aggregation marks, the firmware's own
  frames, and the broadcast traffic that is held back until the DTIM beacon. \<^verbatim>\<open>_wlan_tx\<close> and
  \<^verbatim>\<open>__wlan_tx\<close> are \<^verbatim>\<open>wlan_tx_first\<close> and \<^verbatim>\<open>wlan_tx_try\<close> here.\<close>

definition upd_nth :: "nat \<Rightarrow> ('a \<Rightarrow> 'a) \<Rightarrow> 'a list \<Rightarrow> 'a list" where
  "upd_nth i f xs = xs[i := f (xs ! i)]"

definition BIT :: "nat \<Rightarrow> u32" where
  "BIT n = push_bit n 1"

subsection \<open>Waking up a queue\<close>

definition wlan_txunstuck :: "nat \<Rightarrow> fw_state \<Rightarrow> fw_state option" where
  "wlan_txunstuck qidx s =
     (let queue = f_queues s (TxQ qidx)
      in do { iter \<leftarrow> walk_desc_bits queue AR9170_OWN_BITS_SW (q_head queue) (f_descs s);
              let s = set_wlan_txq_dma_addr (of_nat qidx) (iter OR 1) s;
              Some (wlan_trigger (BIT qidx) s) })"

definition wlan_txupdate :: "nat \<Rightarrow> fw_state \<Rightarrow> fw_state option" where
  "wlan_txupdate qidx s =
     (let queue = f_queues s (TxQ qidx)
      in do { iter \<leftarrow> walk_desc_bits queue AR9170_OWN_BITS_SW (q_head queue) (f_descs s);
              let s = set_wlan_txq_dma_addr (of_nat qidx) iter s;
              Some (wlan_trigger (BIT qidx) s) })"

primrec bump_shift :: "nat \<Rightarrow> u32 \<times> u32 \<Rightarrow> u32 \<times> u32" where
  "bump_shift 0 st = st"
| "bump_shift (Suc offset) st = bump_shift offset (drop_bit 4 (fst st), drop_bit 4 (snd st))"

definition wlan_dma_bump :: "nat \<Rightarrow> fw_state \<Rightarrow> fw_state option" where
  "wlan_dma_bump qidx s =
     (if cf_queue_bump (f_cfg s) then
        let (status, s) = get_reg AR9170_MAC_REG_DMA_STATUS s;
            (trigger, s) = get_reg AR9170_MAC_REG_DMA_TRIGGER s;
            (status, trigger) = bump_shift qidx (drop_bit 12 status, drop_bit 12 trigger);
            status = status AND 0xf; trigger = trigger AND 0xf
        in if trigger = 0xa \<and> status = 0x8 then wlan_txunstuck qidx s else wlan_txupdate qidx s
      else Some s)"

subsection \<open>Transmit status\<close>

text \<open>What lies in the context from \<^verbatim>\<open>tx_status_cache[i]\<close> on: the rest of the cache, then the
  pointer \<^verbatim>\<open>fw_desc\<close>.\<close>

definition status_cache_bytes :: "nat \<Rightarrow> fw_state \<Rightarrow> u8 list" where
  "status_cache_bytes i s =
     concat (map tx_status_bytes (drop i (w_tx_status_cache (f_wlan s)))) @ bytes32 (w_fw_desc (f_wlan s))"

definition tx_status_len :: "fw_state \<Rightarrow> u32" where
  "tx_status_len s = min (min (w_tx_status_pending (f_wlan s)) CARL9170_RSP_TX_STATUS_NUM)
     (CARL9170_TX_STATUS_NUM - w_tx_status_head_idx (f_wlan s))"

function wlan_send_buffered_tx_status :: "fw_state \<Rightarrow> fw_state" where
  "wlan_send_buffered_tx_status s =
     (if w_tx_status_pending (f_wlan s) \<noteq> 0 then
        let len = tx_status_len s;
            s = send_cmd_to_host (ucast ((len * 2 + 3) AND NOT 3)) CARL9170_RSP_TXCOMP (ucast len)
                  (status_cache_bytes (unat (w_tx_status_head_idx (f_wlan s))) s) s;
            s = f_wlan_update (w_tx_status_pending_update (\<lambda>p. p - len)) s;
            s = f_wlan_update (w_tx_status_head_idx_update (\<lambda>h. h + len)) s;
            s = f_wlan_update (w_tx_status_head_idx_update (\<lambda>h. h mod CARL9170_TX_STATUS_NUM)) s
        in wlan_send_buffered_tx_status s
      else s)"
  by pat_completeness auto

lemma send_cmd_wlan [simp]: "f_wlan (send_cmd_to_host len type ext body s) = f_wlan s"
  by (simp add: send_cmd_fields)

lemma tx_status_len_0:
  "w_tx_status_pending (f_wlan s) \<noteq> 0 \<Longrightarrow> tx_status_len s = 0 \<Longrightarrow> w_tx_status_head_idx (f_wlan s) = 30"
  by (auto simp: tx_status_len_def min_def split: if_splits)

lemma tx_status_len_le: "tx_status_len s \<le> w_tx_status_pending (f_wlan s)"
  unfolding tx_status_len_def by (rule min.coboundedI1, rule min.cobounded1)

termination wlan_send_buffered_tx_status
proof (relation "measures [\<lambda>s. unat (w_tx_status_pending (f_wlan s)),
    \<lambda>s. if w_tx_status_head_idx (f_wlan s) = 30 then 1 else 0]", goal_cases)
  case (2 s len s1 s2 s3 s4)
  have le: "unat len \<le> unat (w_tx_status_pending (f_wlan s))"
    using tx_status_len_le [of s] 2 by (simp add: word_le_nat_alt)
  then have p: "unat (w_tx_status_pending (f_wlan s) - len) = unat (w_tx_status_pending (f_wlan s)) - unat len"
    by (simp add: unat_sub word_le_nat_alt)
  show ?case
  proof (cases "len = 0")
    case True
    then show ?thesis
      using tx_status_len_0 [of s] 2 by simp
  next
    case False
    then have "0 < unat len"
      by (simp add: unat_gt_0)
    then show ?thesis
      using 2 le p by simp
  qed
qed simp

declare wlan_send_buffered_tx_status.simps [simp del]

text \<open>\<^verbatim>\<open>wlan_get_tx_status_buffer\<close> gives the index of the entry it returns a pointer to.\<close>

definition wlan_get_tx_status_buffer :: "fw_state \<Rightarrow> nat \<times> fw_state" where
  "wlan_get_tx_status_buffer s =
     (let tmp = unat (w_tx_status_tail_idx (f_wlan s));
          s = f_wlan_update (w_tx_status_tail_idx_update (\<lambda>t. t + 1)) s;
          s = f_wlan_update (w_tx_status_tail_idx_update (\<lambda>t. t mod CARL9170_TX_STATUS_NUM)) s;
          s = (if w_tx_status_pending (f_wlan s) = CARL9170_TX_STATUS_NUM
               then wlan_send_buffered_tx_status s else s);
          s = f_wlan_update (w_tx_status_pending_update (\<lambda>p. p + 1)) s
      in (tmp, s))"

definition upd_status :: "nat \<Rightarrow> (tx_status \<Rightarrow> tx_status) \<Rightarrow> fw_state \<Rightarrow> fw_state" where
  "upd_status i g = f_wlan_update (w_tx_status_cache_update (upd_nth i g))"

definition wlan_tx_complete :: "u32 \<Rightarrow> bool \<Rightarrow> fw_state \<Rightarrow> fw_state" where
  "wlan_tx_complete super txs s =
     (let (status, s) = wlan_get_tx_status_buffer s;
          s = upd_status status (ts_cookie_update (\<lambda>_. sd_cookie (super_s super s))) s;
          s = upd_status status (ts_queue_update (\<lambda>_. sd_queue (super_s super s))) s;
          s = upd_s super (sd_cookie_update (\<lambda>_. 0)) s;
          s = upd_status status (ts_rix_update (\<lambda>_. ucast (sd_rix (super_s super s)))) s;
          s = upd_status status (ts_tries_update (\<lambda>_. ucast (sd_cnt (super_s super s)))) s
      in upd_status status (ts_success_update (\<lambda>_. txs)) s)"

subsection \<open>Retries and aggregation\<close>

definition wlan_tx_consume_retry :: "u32 \<Rightarrow> fw_state \<Rightarrow> bool \<times> fw_state" where
  "wlan_tx_consume_retry super s =
     (let d = super_s super s; rix = sd_rix d
      in if unat (sd_cnt d) \<ge> unat (ri_tries (sd_ri d ! unat rix)) then
           if rix = CARL9170_TX_MAX_RETRY_RATES then (False, s)
           else if phy_control_set (sd_rr d ! unat rix) = 0 then (False, s)
           else
             let s = upd_phy super (\<lambda>_. sd_rr d ! unat rix) s;
                 s = upd_s super (sd_rix_update (\<lambda>r. r + 1)) s;
                 d = super_s super s;
                 s = upd_mac super (mc_erp_prot_update (\<lambda>_. ri_erp_prot (sd_ri d ! unat (sd_rix d)))) s;
                 s = upd_mac super (mc_ampdu_update (\<lambda>_. ri_ampdu (sd_ri d ! unat (sd_rix d)))) s;
                 s = upd_s super (sd_cnt_update (\<lambda>_. 1)) s
             in (True, s)
         else (True, upd_s super (sd_cnt_update (\<lambda>c. c + 1)) s))"

definition get_tid :: "memory \<Rightarrow> u32 \<Rightarrow> u16" where
  "get_tid m hdr = ucast (m (ieee80211_get_qos_ctl m hdr) AND IEEE80211_QOS_CTL_TID_MASK)"

definition same_hdr :: "memory \<Rightarrow> u32 \<Rightarrow> u32 \<Rightarrow> bool" where
  "same_hdr m d0 d1 \<longleftrightarrow>
     (ld32 m d0 XOR ld32 m d1) OR (ld32 m (d0 + 4) XOR ld32 m (d1 + 4)) OR
     (ld32 m (d0 + 8) XOR ld32 m (d1 + 8)) OR (ld32 m (d0 + 12) XOR ld32 m (d1 + 12)) OR
     (ld32 m (d0 + 16) XOR ld32 m (d1 + 16)) = 0"

definition same_aggr :: "memory \<Rightarrow> u32 \<Rightarrow> u32 \<Rightarrow> bool" where
  "same_aggr m a b \<longleftrightarrow> get_tid m a = get_tid m b \<or> same_hdr m a b"

definition wlan_tx_ampdu_reset :: "nat \<Rightarrow> fw_state \<Rightarrow> fw_state" where
  "wlan_tx_ampdu_reset qidx = f_wlan_update (w_ampdu_prev_update (upd_nth qidx (\<lambda>_. 0)))"

definition wlan_tx_ampdu_end :: "nat \<Rightarrow> fw_state \<Rightarrow> fw_state" where
  "wlan_tx_ampdu_end qidx s =
     (let ht_prev = w_ampdu_prev (f_wlan s) ! qidx;
          s = (if ht_prev \<noteq> 0 then upd_mac ht_prev (mc_ba_end_update (\<lambda>_. True)) s else s)
      in wlan_tx_ampdu_reset qidx s)"

definition super_queue :: "u32 \<Rightarrow> fw_state \<Rightarrow> nat" where
  "super_queue super s = unat (sd_queue (super_s super s))"

definition super_vif :: "u32 \<Rightarrow> fw_state \<Rightarrow> nat" where
  "super_vif super s = unat (sd_vif_id (super_s super s))"

definition wlan_tx_ampdu :: "u32 \<Rightarrow> fw_state \<Rightarrow> fw_state" where
  "wlan_tx_ampdu super s =
     (let qidx = super_queue super s; ht_prev = w_ampdu_prev (f_wlan s) ! qidx
      in if mc_ampdu (hd_mac (super_hdr super s)) then
           let s = (if ht_prev \<noteq> 0 \<and>
                       \<not> same_aggr (f_ram s) (superframe_data super) (superframe_data ht_prev)
                    then upd_mac ht_prev (mc_ba_end_update (\<lambda>_. True)) s
                    else upd_mac super (mc_ba_end_update (\<lambda>_. False)) s)
           in f_wlan_update (w_ampdu_prev_update (upd_nth qidx (\<lambda>_. super))) s
         else wlan_tx_ampdu_end qidx s)"

subsection \<open>Transmission\<close>

text \<open>\<^verbatim>\<open>__wlan_tx\<close>: for all tries.\<close>

definition wlan_tx_try :: "u32 \<Rightarrow> fw_state \<Rightarrow> fw_state option" where
  "wlan_tx_try desc s =
     (let super = get_super desc s;
          s = (if sd_fill_in_tsf (super_s super s) then
                 let ((lo, hi), s) = read_tsf s
                 in f_ram_update (wr_bytes (probe_resp_timestamp (superframe_data super)) (bytes32 lo @ bytes32 hi)) s
               else s);
          s = wlan_tx_ampdu super s
      in put (TxQ (super_queue super s)) desc s)"

definition wlan_assign_seq :: "u32 \<Rightarrow> nat \<Rightarrow> fw_state \<Rightarrow> fw_state" where
  "wlan_assign_seq hdr vif s =
     (let a = i3e_seq_ctrl hdr;
          s = f_ram_update (\<lambda>m. st16 a (ld16 m a AND NOT IEEE80211_SCTL_SEQ) m) s;
          s = f_ram_update (\<lambda>m. st16 a (ld16 m a OR ucast (w_sequence (f_wlan s) ! vif)) m) s
      in if ieee80211_is_first_frag (ld16 (f_ram s) a)
         then f_wlan_update (w_sequence_update (upd_nth vif (\<lambda>q. q + 0x10))) s else s)"

text \<open>\<^verbatim>\<open>_wlan_tx\<close>: prepares a frame for the first transmission. \<^verbatim>\<open>MOD_VAL\<close> replaces the bits of a mask.\<close>

definition MOD_VAL :: "u32 \<Rightarrow> nat \<Rightarrow> u32 \<Rightarrow> u32 \<Rightarrow> u32" where
  "MOD_VAL reg sh value newvalue = (value AND NOT reg) OR (push_bit sh newvalue AND reg)"

definition wlan_tx_first :: "u32 \<Rightarrow> fw_state \<Rightarrow> fw_state" where
  "wlan_tx_first desc s =
     (let super = get_super desc s;
          s = (if sd_assign_seq (super_s super s)
               then wlan_assign_seq (superframe_data super) (super_vif super s) s else s);
          s = (if sd_ampdu_commit_density (super_s super s) then
                 let (v, s) = get_reg AR9170_MAC_REG_AMPDU_DENSITY s
                 in set_reg AR9170_MAC_REG_AMPDU_DENSITY
                      (MOD_VAL AR9170_MAC_AMPDU_DENSITY AR9170_MAC_AMPDU_DENSITY_S v
                         (ucast (sd_ampdu_density (super_s super s)))) s
               else s)
      in if sd_ampdu_commit_factor (super_s super s) then
           let (v, s) = get_reg AR9170_MAC_REG_AMPDU_FACTOR s
           in set_reg AR9170_MAC_REG_AMPDU_FACTOR
                (MOD_VAL AR9170_MAC_AMPDU_FACTOR AR9170_MAC_AMPDU_FACTOR_S v
                   (push_bit (unat (sd_ampdu_factor (super_s super s))) 8)) s
         else s)"

text \<open>The callbacks of the firmware's own descriptor; \<^verbatim>\<open>wlan_wol_connect_callback\<close> is the only one
  that the code passes.\<close>

definition wlan_wol_connect_callback :: "bool \<Rightarrow> fw_state \<Rightarrow> fw_state" where
  "wlan_wol_connect_callback success s =
     (if success then f_wol_update (wo_lost_null_update (\<lambda>_. 0)) s
      else f_wol_update (wo_lost_null_update (\<lambda>n. n + 1)) s)"

definition call_fw_desc_callback :: "bool \<Rightarrow> fw_state \<Rightarrow> fw_state" where
  "call_fw_desc_callback success s =
     (case w_fw_desc_callback (f_wlan s) of CbNone \<Rightarrow> s | CbWolTxStatus \<Rightarrow> wlan_wol_connect_callback success s)"

text \<open>The end of \<^verbatim>\<open>wlan_tx_status\<close>, for a frame that leaves the queue: the result is \<^verbatim>\<open>!txfail\<close>.\<close>

definition wlan_tx_finish :: "qref \<Rightarrow> u32 \<Rightarrow> bool \<Rightarrow> bool \<Rightarrow> fw_state \<Rightarrow> (bool \<times> fw_state) option" where
  "wlan_tx_finish queue desc txfail success s =
     (let super = get_super desc s; qidx = super_queue super s; (_, s) = unlink_head queue s
      in do { s \<leftarrow> (if txfail then wlan_txunstuck qidx s else Some s);
              let s = unhide_super desc s;
              if super = w_fw_desc_data (f_wlan s) then
                let s = f_wlan_update (w_fw_desc_update (\<lambda>_. desc)) s;
                    s = f_wlan_update (w_fw_desc_available_update (\<lambda>_. 1)) s
                in Some (\<not> txfail, call_fw_desc_callback success s)
              else
                let s = (if sd_cab (super_s super s)
                         then f_wlan_update (w_cab_queue_len_update (upd_nth (super_vif super s) (\<lambda>n. n - 1))) s
                         else s);
                    s = wlan_tx_complete super success s;
                    s = (if ieee80211_is_back_req (i3e_frame_control (f_ram s) (superframe_data super))
                         then f_wlan_update (w_queued_bar_update (\<lambda>n. n - 1)) s else s)
                in do { s \<leftarrow> reclaim DownQ desc s; Some (\<not> txfail, down_trigger s) } })"

definition wlan_tx_status :: "qref \<Rightarrow> u32 \<Rightarrow> fw_state \<Rightarrow> (bool \<times> fw_state) option" where
  "wlan_tx_status queue desc s =
     (let super = get_super desc s; qidx = super_queue super s;
          s = f_wlan_update (w_last_super_num_update (upd_nth qidx (\<lambda>_. 0))) s;
          ctrl = dd_ctrl (f_descs s desc)
      in if ctrl AND AR9170_CTRL_FAIL \<noteq> 0 then
           let txfail = (ctrl AND AR9170_CTRL_TXFAIL \<noteq> 0);
               s = upd_desc desc (dd_ctrl_update (\<lambda>c. c AND NOT (AR9170_CTRL_TXFAIL OR AR9170_CTRL_BAFAIL))) s;
               (again, s) = wlan_tx_consume_retry super s
           in if again then
                let s = (if \<not> mc_ampdu (hd_mac (super_hdr super s))
                         then set_frame_control (superframe_data super)
                                (i3e_frame_control (f_ram s) (superframe_data super) OR IEEE80211_FCTL_RETRY) s
                         else s)
                in if txfail then
                     let s = s\<lparr> f_descs := dma_rearm desc (f_descs s) \<rparr>
                     in do { s \<leftarrow> wlan_txunstuck qidx s; Some (\<not> txfail, s) }
                   else
                     let (_, s) = unlink_head queue s
                     in do { s \<leftarrow> put RetryQ desc s; Some (\<not> txfail, s) }
              else wlan_tx_finish queue desc txfail False s
         else wlan_tx_finish queue desc False True s)"

text \<open>\<^verbatim>\<open>__while_desc_bits\<close> with its body.\<close>

partial_function (option) tx_status_loop :: "qref \<Rightarrow> fw_state \<Rightarrow> fw_state option" where
  "tx_status_loop queue s =
     (let q = f_queues s queue; desc = q_head q
      in if \<not> queue_empty q \<and> dd_status (f_descs s desc) AND AR9170_OWN_BITS = AR9170_OWN_BITS_SW
         then do { r \<leftarrow> wlan_tx_status queue desc s;
                   if fst r then tx_status_loop queue (snd r) else Some (snd r) }
         else Some s)"

definition tx_completion :: "nat \<Rightarrow> fw_state \<Rightarrow> fw_state option" where
  "tx_completion i s =
     do { s \<leftarrow> tx_status_loop (TxQ i) s;
          let s = wlan_tx_ampdu_reset i s;
          s \<leftarrow> for_each_desc wlan_tx_try RetryQ s;
          let s = wlan_tx_ampdu_end i s;
          Some (if \<not> queue_empty (f_queues s (TxQ i)) then wlan_trigger (BIT i) s else s) }"

definition handle_wlan_tx_completion :: "fw_state \<Rightarrow> fw_state option" where
  "handle_wlan_tx_completion s = foldM tx_completion [4, 3, 2, 1, 0] s"

text \<open>The interface number of a frame comes from the host and is not checked: beyond the array
  \<^verbatim>\<open>cab_queue\<close> the behaviour is undefined, which is \<^verbatim>\<open>None\<close>.\<close>

definition wlan_tx :: "u32 \<Rightarrow> fw_state \<Rightarrow> fw_state option" where
  "wlan_tx desc s =
     (let super = payload desc s;
          s = (if ieee80211_is_back_req (i3e_frame_control (f_ram s) (superframe_data super))
               then f_wlan_update (w_queued_bar_update (\<lambda>n. n + 1)) s else s);
          s = upd_s super (sd_rix_update (\<lambda>_. 0)) s;
          s = upd_s super (sd_cnt_update (\<lambda>_. 1)) s;
          s = hide_super desc s
      in if sd_cab (super_s super s) then
           let vif = super_vif super s;
               s = f_wlan_update (w_cab_queue_len_update (upd_nth vif (\<lambda>n. n + 1))) s
           in if vif < CARL9170_INTF_NUM then put (CabQ vif) desc s else None
         else
           let s = wlan_tx_first desc s
           in do { s \<leftarrow> wlan_tx_try desc s; Some (wlan_trigger (BIT (super_queue super s)) s) })"

definition wlan_tx_fw :: "u32 \<Rightarrow> fw_desc_callback \<Rightarrow> fw_state \<Rightarrow> fw_state option" where
  "wlan_tx_fw super cb s =
     (if w_fw_desc_available (f_wlan s) = 0 then Some s
      else
        let s = f_wlan_update (w_fw_desc_available_update (\<lambda>_. 0)) s;
            d = w_fw_desc (f_wlan s); len = sd_len (super_s super s);
            s = upd_desc d (\<lambda>x. x\<lparr> dd_ctrl := AR9170_CTRL_FS_BIT OR AR9170_CTRL_LS_BIT,
                  dd_status := AR9170_OWN_BITS_SW, dd_totalLen := len, dd_dataSize := len,
                  dd_dataAddr := super, dd_nextAddr := d, dd_lastAddr := d \<rparr>) s;
            s = f_wlan_update (w_fw_desc_data_update (\<lambda>_. super)) s;
            s = f_wlan_update (w_fw_desc_callback_update (\<lambda>_. cb)) s
        in wlan_tx d s)"

subsection \<open>BlockAck responses\<close>

definition wlan_send_buffered_ba :: "fw_state \<Rightarrow> fw_state option" where
  "wlan_send_buffered_ba s =
     (if w_queued_ba (f_wlan s) = 0 then Some s
      else if w_fw_desc_available (f_wlan s) = 0 then Some s
      else
        let baf = reserved_ba; ba = superframe_data baf;
            ctx = w_ba_cache (f_wlan s) ! unat (w_ba_head_idx (f_wlan s));
            s = f_wlan_update (w_ba_head_idx_update (\<lambda>h. (h + 1) mod CONFIG_CARL9170FW_BACK_REQS_NUM)) s;
            s = f_wlan_update (w_queued_ba_update (\<lambda>n. n - 1)) s;
            s = upd_s baf (\<lambda>d. d\<lparr> sd_len := 24 + 8 + 28,
                  sd_ri := upd_nth 0 (ri_tries_update (\<lambda>_. 1)) (sd_ri d), sd_cookie := 0,
                  sd_queue := AR9170_TXQ_VO \<rparr>) s;
            s = upd_super baf (sf_hdr_update (hd_length_update (\<lambda>_. 28 + FCS_LEN))) s;
            s = upd_mac baf (mc_no_ack_update (\<lambda>_. True)) s;
            s = upd_phy baf (\<lambda>p. p\<lparr> pc_modulation := 1, pc_tx_power := 34, pc_chains := 1,
                  pc_mcs := AR9170_TXRX_PHY_RATE_OFDM_6M \<rparr>) s;
            s = f_ram_update (st16 ba (IEEE80211_FTYPE_CTL OR IEEE80211_STYPE_BACK)) s;
            s = f_ram_update (st16 (ba + 2) 0) s;
            s = f_ram_update (wr_bytes (ba + 4) (bc_ta ctx)) s;
            s = f_ram_update (wr_bytes (ba + 10) (bc_ra ctx)) s;
            s = f_ram_update (wr_bytes (ba + 20) (replicate 8 0)) s;
            s = f_ram_update (st16 (ba + 16) (bc_control ctx OR 1)) s;
            s = f_ram_update (st16 (ba + 18) (bc_start_seq_num ctx)) s
        in wlan_tx_fw baf CbNone s)"

subsection \<open>Traffic after the DTIM beacon\<close>

definition cab_release :: "nat \<Rightarrow> u32 \<Rightarrow> fw_state \<Rightarrow> fw_state option" where
  "cab_release vif desc s =
     (let super = get_super desc s; hdr = superframe_data super; fc = i3e_frame_control (f_ram s) hdr;
          s = (if \<not> queue_empty (f_queues s (CabQ vif))
               then set_frame_control hdr (fc OR IEEE80211_FCTL_MOREDATA) s
               else set_frame_control hdr (fc AND NOT IEEE80211_FCTL_MOREDATA) s);
          s = wlan_tx_first desc s
      in do { s \<leftarrow> wlan_tx_try desc s; Some (wlan_trigger (BIT (super_queue super s)) s) })"

definition wlan_cab_flush_queue :: "nat \<Rightarrow> fw_state \<Rightarrow> fw_state option" where
  "wlan_cab_flush_queue vif s = for_each_desc (cab_release vif) (CabQ vif) s"

text \<open>\<^verbatim>\<open>beacon_find_ie\<close>: the loop over the information elements. Pointers are compared as addresses.\<close>

function find_ie_loop :: "memory \<Rightarrow> u8 \<Rightarrow> nat \<Rightarrow> nat \<Rightarrow> nat option" where
  "find_ie_loop m ie end pos =
     (if pos < end then
        let len = unat (m (of_nat (pos + 1)))
        in if pos + 2 + len > end then None
           else if m (of_nat pos) = ie then Some pos
           else find_ie_loop m ie end (pos + len + 2)
      else None)"
  by pat_completeness auto
termination by (relation "measure (\<lambda>(_, _, end, pos). end - pos)") auto

declare find_ie_loop.simps [simp del]

definition beacon_find_ie :: "memory \<Rightarrow> u8 \<Rightarrow> u32 \<Rightarrow> u32 \<Rightarrow> u32 option" where
  "beacon_find_ie m ie addr len =
     map_option of_nat (find_ie_loop m ie (unat (addr + (len - FCS_LEN))) (unat (beacon_variable addr)))"

definition wlan_modify_beacon :: "nat \<Rightarrow> u32 \<Rightarrow> u32 \<Rightarrow> fw_state \<Rightarrow> fw_state" where
  "wlan_modify_beacon vif addr len s =
     (let s = (case beacon_find_ie (f_ram s) WLAN_EID_TIM addr len of
          None \<Rightarrow> s
        | Some p \<Rightarrow>
            let ie = p + 2;
                s = (if \<not> queue_empty (f_queues s (CabQ vif)) \<and> f_ram s ie = 0
                     then f_wlan_update (w_cab_flush_trigger_update (upd_nth vif (\<lambda>_. CARL9170_CAB_TRIGGER_ARMED))) s
                     else if w_cab_queue_len (f_wlan s) ! vif = 0 \<and> w_cab_flush_trigger (f_wlan s) ! vif \<noteq> 0
                     then let s = f_ram_update (\<lambda>m. st8 (ie + 2) (m (ie + 2) AND NOT 1) m) s
                          in f_wlan_update (w_cab_flush_trigger_update (upd_nth vif (\<lambda>_. CARL9170_CAB_TRIGGER_EMPTY))) s
                     else s)
            in if w_cab_flush_trigger (f_wlan s) ! vif \<noteq> 0
               then f_ram_update (\<lambda>m. st8 (ie + 2) (m (ie + 2) OR 1) m) s else s)
      in wlan_assign_seq addr vif s)"

definition send_buffered_cab :: "nat \<Rightarrow> fw_state \<Rightarrow> fw_state option" where
  "send_buffered_cab i s =
     (if w_cab_flush_trigger (f_wlan s) ! i = CARL9170_CAB_TRIGGER_ARMED then
        let (due, s) = is_after_msecs (w_cab_flush_time (f_wlan s)) CARL9170_TBTT_DELTA s
        in if due then
             do { s \<leftarrow> wlan_cab_flush_queue i s;
                  Some (f_wlan_update (w_cab_flush_trigger_update (upd_nth i (\<lambda>_. CARL9170_CAB_TRIGGER_DEFER))) s) }
           else Some s
      else Some s)"

definition wlan_send_buffered_cab :: "fw_state \<Rightarrow> fw_state option" where
  "wlan_send_buffered_cab s = foldM send_buffered_cab [0..<CARL9170_INTF_NUM] s"

end
