(* ===== verification/Wol.thy ===== *)
theory Wol
  imports WlanTx
begin

text \<open>Wake on WLAN (carlfw/src/wol.c). The build options are \<^verbatim>\<open>cf_wol\<close>
  (\<^verbatim>\<open>CONFIG_CARL9170FW_WOL\<close> with \<^verbatim>\<open>WOL_NL80211_TRIGGERS\<close>) and \<^verbatim>\<open>cf_wol_probe_req\<close>
  (\<^verbatim>\<open>WOL_PROBE_REQUEST\<close>, with its SSID). Without \<^verbatim>\<open>cf_wol\<close> the functions are the empty ones of
  carlfw/include/wol.h. The MAC address and BSSID registers are read as bytes.\<close>

subsection \<open>Operations\<close>

definition reg_byte :: "u32 \<Rightarrow> nat \<Rightarrow> fw_state \<Rightarrow> u8" where
  "reg_byte a i s = ucast (drop_bit (8 * (i mod 4)) (hw_regs (f_hw s) (a + 4 * of_nat (i div 4))))"

text \<open>A \<^verbatim>\<open>memcpy\<close> of six bytes to a pair of registers.\<close>

definition set_reg_bytes6 :: "u32 \<Rightarrow> u8 list \<Rightarrow> fw_state \<Rightarrow> fw_state" where
  "set_reg_bytes6 a bs s =
     (let s = set_reg a (le32 (bs ! 0) (bs ! 1) (bs ! 2) (bs ! 3)) s
      in set_reg (a + 4) (hw_regs (f_hw s) (a + 4) AND NOT 0xFFFF OR ucast (le16 (bs ! 4) (bs ! 5))) s)"

text \<open>\<^verbatim>\<open>memcpy(&fw.wol.cmd, cmd, sizeof(cmd))\<close>: the size is that of the pointer, four bytes, so only
  \<^verbatim>\<open>flags\<close>, the first member, is copied.\<close>

definition wol_cmd :: "u32 \<Rightarrow> fw_state \<Rightarrow> fw_state" where
  "wol_cmd cmd s =
     (if cf_wol (f_cfg s)
      then f_wol_update (wo_cmd_update (wc_flags_update (\<lambda>_. ld32 (f_ram s) cmd))) s else s)"

definition wol_prepare :: "fw_state \<Rightarrow> fw_state" where
  "wol_prepare s =
     (if cf_wol (f_cfg s) then
        let s = set_reg_bytes6 AR9170_MAC_REG_MAC_ADDR_L (wc_mac (wo_cmd (f_wol s))) s;
            s = set_reg_bytes6 AR9170_MAC_REG_BSSID_L (wc_bssid (wo_cmd (f_wol s))) s;
            s = set_reg AR9170_MAC_REG_RX_CONTROL AR9170_MAC_RX_CTRL_DEAGG s;
            s = f_wlan_update (w_rx_filter_update (\<lambda>_. CARL9170_RX_FILTER_EVERYTHING)) s;
            s = wlan_trigger AR9170_DMA_TRIGGER_RXQ s;
            (t, s) = get_clock_counter s
        in f_wol_update (\<lambda>w. w\<lparr> wo_last_beacon := t, wo_last_null := t \<rparr>) s
      else s)"

text \<open>The scanner for magic packets: \<^verbatim>\<open>found\<close> counts the bytes of the pattern seen so far.\<close>

definition magic_step :: "(nat \<Rightarrow> u8) \<Rightarrow> u8 \<Rightarrow> nat \<Rightarrow> nat" where
  "magic_step mac d found =
     (let found = (if found \<ge> 6 then if d = mac (found mod 6) then found + 1 else 0 else found)
      in if found < 6 then if d = 0xff then found + 1 else 0 else found)"

fun magic_loop :: "(nat \<Rightarrow> u8) \<Rightarrow> nat \<Rightarrow> u8 list \<Rightarrow> bool" where
  "magic_loop mac found [] \<longleftrightarrow> False"
| "magic_loop mac found (d # ds) \<longleftrightarrow>
     (let found = magic_step mac d found in if found = 6 + 16 * 6 then True else magic_loop mac found ds)"

definition wlan_rx_wol_magic_packet :: "u32 \<Rightarrow> u32 \<Rightarrow> fw_state \<Rightarrow> bool" where
  "wlan_rx_wol_magic_packet hdr len s =
     (let hl = ieee80211_hdrlen (i3e_frame_control (f_ram s) hdr)
      in magic_loop (\<lambda>i. reg_byte AR9170_MAC_REG_MAC_ADDR_L i s) 0
           (rd_bytes (hdr + hl) (unat len - unat hl) (f_ram s)))"

definition wlan_wol_connection_monitor :: "fw_state \<Rightarrow> fw_state option" where
  "wlan_wol_connection_monitor s =
     (if w_fw_desc_available (f_wlan s) = 0 then Some s
      else
        let nullf = reserved_cmd; null = superframe_data nullf;
            s = upd_super nullf (\<lambda>_. zero_super) s;
            s = f_ram_update (wr_bytes null (replicate 32 0)) s;
            s = upd_s nullf (\<lambda>d. d\<lparr> sd_len := 24 + 8 + 30,
                  sd_ri := upd_nth 0 (ri_tries_update (\<lambda>_. 3)) (sd_ri d), sd_assign_seq := True,
                  sd_queue := AR9170_TXQ_VO \<rparr>) s;
            s = upd_super nullf (sf_hdr_update (hd_length_update (\<lambda>_. 30 + FCS_LEN))) s;
            s = upd_mac nullf (\<lambda>m. m\<lparr> mc_backoff := True, mc_hw_duration := True,
                  mc_erp_prot := AR9170_TX_MAC_PROT_RTS \<rparr>) s;
            s = upd_phy nullf (\<lambda>p. p\<lparr> pc_modulation := AR9170_TX_PHY_MOD_OFDM,
                  pc_bandwidth := AR9170_TX_PHY_BW_20MHZ, pc_chains := AR9170_TX_PHY_TXCHAIN_2,
                  pc_tx_power := 29, pc_mcs := AR9170_TXRX_PHY_RATE_OFDM_6M \<rparr>) s;
            s = f_ram_update (st16 null (IEEE80211_FTYPE_DATA OR IEEE80211_STYPE_NULLFUNC OR IEEE80211_FCTL_TODS)) s;
            cmd = wo_cmd (f_wol s);
            s = f_ram_update (wr_bytes (i3e_addr1 null) (wc_bssid cmd)) s;
            s = f_ram_update (wr_bytes (i3e_addr2 null) (wc_mac cmd)) s;
            s = f_ram_update (wr_bytes (i3e_addr3 null) (wc_bssid cmd)) s
        in wlan_tx_fw nullf CbWolTxStatus s)"

definition wlan_rx_wol_disconnect :: "u32 \<Rightarrow> u32 \<Rightarrow> fw_state \<Rightarrow> bool \<times> fw_state" where
  "wlan_rx_wol_disconnect rx_filter hdr s =
     (let fc = i3e_frame_control (f_ram s) hdr
      in if rx_filter AND CARL9170_RX_FILTER_OTHER_RA = 0 \<and>
            (ieee80211_is_deauth fc \<or> ieee80211_is_disassoc fc) then (True, s)
         else if ieee80211_is_beacon fc \<and>
            compare_ether_address (ld32 (f_ram s) (i3e_addr3 hdr), ld32 (f_ram s) (i3e_addr3 hdr + 4))
              (hw_regs (f_hw s) AR9170_MAC_REG_BSSID_L, hw_regs (f_hw s) (AR9170_MAC_REG_BSSID_L + 4)) then
           let (t, s) = get_clock_counter s
           in (False, f_wol_update (wo_last_beacon_update (\<lambda>_. t)) s)
         else (False, s))"

text \<open>The information element to compare with, and the comparison loop with its counter.\<close>

definition probe_req :: "fw_state \<Rightarrow> u8 list" where
  "probe_req s = [WLAN_EID_SSID, of_nat (length (cf_wol_probe_req_ssid (f_cfg s)))] @ cf_wol_probe_req_ssid (f_cfg s)"

definition wlan_rx_wol_probe_ssid :: "u32 \<Rightarrow> u32 \<Rightarrow> fw_state \<Rightarrow> bool" where
  "wlan_rx_wol_probe_ssid hdr len s \<longleftrightarrow>
     ieee80211_is_probe_req (i3e_frame_control (f_ram s) hdr) \<and>
     (let end = hdr + len; data = probe_req_variable hdr
      in list_all (\<lambda>i. \<not> (data > end \<or> probe_req s ! i \<noteq> f_ram s (data + of_nat i)))
           [0..<length (cf_wol_probe_req_ssid (f_cfg s)) + 1])"

definition wake_up_or :: "bool \<Rightarrow> fw_state \<Rightarrow> fw_state" where
  "wake_up_or b = f_wol_update (wo_wake_up_update (\<lambda>w. w \<or> b))"

definition wol_rx :: "u32 \<Rightarrow> u32 \<Rightarrow> u32 \<Rightarrow> fw_state \<Rightarrow> fw_state" where
  "wol_rx rx_filter hdr len s =
     (if cf_wol (f_cfg s) then
        let flags = (\<lambda>s. wc_flags (wo_cmd (f_wol s)));
            s = (if flags s AND CARL9170_WOL_DISCONNECT \<noteq> 0 \<and> rx_filter AND CARL9170_RX_FILTER_MGMT \<noteq> 0
                 then let (b, s) = wlan_rx_wol_disconnect rx_filter hdr s in wake_up_or b s else s);
            s = (if flags s AND CARL9170_WOL_MAGIC_PKT \<noteq> 0 \<and> rx_filter AND CARL9170_RX_FILTER_DATA \<noteq> 0
                 then wake_up_or (wlan_rx_wol_magic_packet hdr len s) s else s)
        in if cf_wol_probe_req (f_cfg s) \<and> rx_filter AND CARL9170_RX_FILTER_MGMT \<noteq> 0
           then wake_up_or (wlan_rx_wol_probe_ssid hdr len s) s else s
      else s)"

definition wol_janitor :: "fw_state \<Rightarrow> fw_state option" where
  "wol_janitor s =
     (if cf_wol (f_cfg s) \<and> f_suspend_mode s = CARL9170_HOST_SUSPENDED then
        do { s \<leftarrow>
               (if wc_flags (wo_cmd (f_wol s)) AND CARL9170_WOL_DISCONNECT \<noteq> 0 then
                  let (late, s) = is_after_msecs (wo_last_beacon (f_wol s)) 10000 s;
                      s = (if late then wake_up_or True s else s)
                  in do { s \<leftarrow>
                            (if wc_null_interval (wo_cmd (f_wol s)) \<noteq> 0 then
                               let (due, s) = is_after_msecs (wo_last_null (f_wol s)) (wc_null_interval (wo_cmd (f_wol s))) s
                               in if due then wlan_wol_connection_monitor s else Some s
                             else Some s);
                          Some (if 5 \<le> wo_lost_null (f_wol s) then wake_up_or True s else s) }
                else Some s);
             Some (if wo_wake_up (f_wol s) then
                     let s = f_suspend_mode_update (\<lambda>_. CARL9170_AWAKE_HOST) s
                     in set_reg AR9170_USB_REG_WAKE_UP AR9170_USB_WAKE_UP_WAKE s
                   else s) }
      else Some s)"

subsection \<open>Magic packets\<close>

text \<open>The pattern of a magic packet for a station.\<close>

definition magic_pattern :: "(nat \<Rightarrow> u8) \<Rightarrow> u8 list" where
  "magic_pattern mac = replicate 6 0xff @ map (\<lambda>i. mac (i mod 6)) [0..<96]"

lemma magic_pattern_length [simp]: "length (magic_pattern mac) = 102"
  by (simp add: magic_pattern_def)

lemma magic_pattern_nth:
  "k < 102 \<Longrightarrow> magic_pattern mac ! k = (if k < 6 then 0xff else mac (k mod 6))"
proof -
  assume k: "k < 102"
  have m: "(k - 6) mod 6 = k mod 6" if "6 \<le> k"
    using that by (simp add: le_mod_geq)
  have u: "[0..<96] ! (k - 6) = k - 6" if "6 \<le> k"
    using that k nth_upt [of 0 "k - 6" 96] by simp
  show ?thesis
    using k m u by (auto simp: magic_pattern_def nth_append simp del: upt_Suc upt_rec_numeral)
qed

text \<open>What the scanner has seen: the last \<^verbatim>\<open>found\<close> bytes are the start of the pattern.\<close>

definition magic_seen :: "(nat \<Rightarrow> u8) \<Rightarrow> u8 list \<Rightarrow> nat \<Rightarrow> bool" where
  "magic_seen mac seen found \<longleftrightarrow> (\<exists>pre. seen = pre @ take found (magic_pattern mac)) \<and> found \<le> 102"

lemma magic_seen_0 [simp]: "magic_seen mac seen 0"
  by (simp add: magic_seen_def)

lemma magic_seen_Suc:
  assumes "magic_seen mac seen found" "found < 102" "d = magic_pattern mac ! found"
  shows "magic_seen mac (seen @ [d]) (Suc found)"
  using assms by (auto simp: magic_seen_def take_Suc_conv_app_nth)

lemma magic_step_seen:
  assumes "magic_seen mac seen found" "found < 102"
  shows "magic_seen mac (seen @ [d]) (magic_step mac d found)"
proof -
  have one: "magic_seen mac (seen @ [0xff]) 1"
    using magic_seen_Suc [of mac seen 0 "0xff"] by (simp add: magic_pattern_nth)
  show ?thesis
    using magic_seen_Suc [OF assms] assms(2) one
    by (cases "found < 6") (auto simp: magic_step_def Let_def magic_pattern_nth)
qed

lemma magic_loop_sound:
  "magic_loop mac found ds \<Longrightarrow> magic_seen mac seen found \<Longrightarrow> found < 102 \<Longrightarrow>
     \<exists>pre post. seen @ ds = pre @ magic_pattern mac @ post"
proof (induction mac found ds arbitrary: seen rule: magic_loop.induct)
  case (2 mac found d ds)
  let ?f = "magic_step mac d found"
  have s: "magic_seen mac (seen @ [d]) ?f"
    using magic_step_seen 2(3,4) by blast
  show ?case
  proof (cases "?f = 102")
    case True
    then obtain pre where "seen @ [d] = pre @ magic_pattern mac"
      using s by (auto simp: magic_seen_def)
    then have "seen @ d # ds = pre @ magic_pattern mac @ ds"
      by (metis append.assoc append_Cons append_Nil)
    then show ?thesis
      by blast
  next
    case False
    have "?f < 102"
      using s False by (simp add: magic_seen_def)
    then show ?thesis
      using 2(1) [OF refl _ _ s] 2(2) False by (simp add: Let_def)
  qed
qed simp

lemma magic_loop_short: "magic_loop mac found ds \<Longrightarrow> found < 102 \<Longrightarrow> 102 \<le> found + length ds"
proof (induction mac found ds rule: magic_loop.induct)
  case (2 mac found d ds)
  have "magic_step mac d found \<le> Suc found"
    by (simp add: magic_step_def Let_def)
  then show ?case
    using 2 by (cases "magic_step mac d found = 102") (auto simp: Let_def)
qed simp

lemma magic_loop_run:
  "k \<le> 102 \<Longrightarrow> 0 < k \<Longrightarrow> magic_loop mac (102 - k) (drop (102 - k) (magic_pattern mac) @ rest)"
proof (induction k)
  case (Suc k)
  have lt: "102 - Suc k < 102"
    by simp
  have next_byte: "drop (102 - Suc k) (magic_pattern mac) = magic_pattern mac ! (102 - Suc k) # drop (102 - k) (magic_pattern mac)"
    using Suc.prems Cons_nth_drop_Suc [of "102 - Suc k" "magic_pattern mac"]
      Suc_diff_Suc [of k 102] by simp
  have "magic_step mac (magic_pattern mac ! (102 - Suc k)) (102 - Suc k) = 102 - k"
    using Suc.prems magic_pattern_nth [OF lt, of mac] by (auto simp: magic_step_def Let_def)
  then show ?case
    using Suc unfolding next_byte by (cases "k = 0") (auto simp: Let_def)
qed simp

text \<open>Seven \<^verbatim>\<open>0xff\<close> bytes leave the count at one, and the first byte of the address resets it.\<close>

lemma magic_loop_ff: "magic_loop mac found (replicate n 0xff @ ds) = magic_loop mac (found + n) ds"
  if "found + n \<le> 6"
  using that by (induction n arbitrary: found) (auto simp: magic_step_def Let_def)

lemma magic_loop_reset: "mac 0 \<noteq> 0xff \<Longrightarrow> magic_loop mac 6 (0xff # ds) = magic_loop mac 1 ds"
  by (auto simp: magic_step_def Let_def)

lemma magic_extra_ff:
  assumes "mac 0 \<noteq> 0xff"
  shows "\<not> magic_loop mac 0 (0xff # magic_pattern mac)"
proof -
  let ?copies = "map (\<lambda>i. mac (i mod 6)) [0..<96]"
  have "0xff # magic_pattern mac = replicate 6 0xff @ 0xff # ?copies"
    unfolding magic_pattern_def by (metis replicate_app_Cons_same append_Cons)
  then have "magic_loop mac 0 (0xff # magic_pattern mac) = magic_loop mac 6 (0xff # ?copies)"
    using magic_loop_ff [of 0 6 mac "0xff # ?copies"] by simp
  also have "\<dots> = magic_loop mac 1 ?copies"
    using assms by (rule magic_loop_reset)
  also have "\<not> \<dots>"
    using magic_loop_short [of mac 1 ?copies] by auto
  finally show ?thesis .
qed

text \<open>C19. A wake-up by a magic packet is never spurious: the frame contains six \<^verbatim>\<open>0xff\<close> bytes followed by
  sixteen copies of the station's address, without a gap. A pattern at the start of the body is
  found, whatever follows. A pattern with one more \<^verbatim>\<open>0xff\<close> in front of it is missed: the seventh
  \<^verbatim>\<open>0xff\<close> resets the count to one instead of keeping it at six.\<close>

theorem magic_packet_scanner:
  "(magic_loop mac 0 ds \<longrightarrow> (\<exists>pre post. ds = pre @ magic_pattern mac @ post)) \<and>
   magic_loop mac 0 (magic_pattern mac @ rest) \<and>
   (mac 0 \<noteq> 0xff \<longrightarrow> \<not> magic_loop mac 0 (0xff # magic_pattern mac))"
  using magic_loop_sound [of mac 0 ds "[]"] magic_loop_run [of 102 mac rest] magic_extra_ff [of mac]
  by simp

theorem magic_packet_scanner_witness:
  "magic_loop (\<lambda>i. of_nat i) 0 (magic_pattern (\<lambda>i. of_nat i) @ [1]) \<and>
   (\<exists>pre post. magic_pattern (\<lambda>i. of_nat i) @ [1] = pre @ magic_pattern (\<lambda>i. of_nat i) @ post) \<and>
   \<not> magic_loop (\<lambda>i. of_nat i) 0 (0xff # magic_pattern (\<lambda>i. of_nat i))"
  using magic_packet_scanner [of "\<lambda>i. of_nat i" "magic_pattern (\<lambda>i. of_nat i) @ [1]" "[1]"] by simp

subsection \<open>Probe requests and the configuration\<close>

text \<open>The wake-up by a probe request compares the element id, the length and all bytes of the
  configured SSID but the last one with the frame: the loop makes \<^verbatim>\<open>ssid_len + 1\<close> rounds for the
  \<^verbatim>\<open>ssid_len + 2\<close> bytes of the element. Only the start of the element is checked against the end of
  the frame.\<close>

theorem wlan_rx_wol_probe_ssid_prefix:
  "wlan_rx_wol_probe_ssid hdr len s \<longleftrightarrow>
     ieee80211_is_probe_req (i3e_frame_control (f_ram s) hdr) \<and> hdr + 24 \<le> hdr + len \<and>
     rd_bytes (hdr + 24) (length (cf_wol_probe_req_ssid (f_cfg s)) + 1) (f_ram s) = butlast (probe_req s)"
proof -
  let ?n = "length (cf_wol_probe_req_ssid (f_cfg s)) + 1"
  have len: "length (probe_req s) = Suc ?n"
    by (simp add: probe_req_def)
  have "rd_bytes (hdr + 24) ?n (f_ram s) = butlast (probe_req s) \<longleftrightarrow>
      (\<forall>i < ?n. f_ram s (hdr + 24 + of_nat i) = probe_req s ! i)"
    using len by (auto simp: list_eq_iff_nth_eq nth_rd_bytes nth_butlast)
  moreover have "list_all (\<lambda>i. \<not> (hdr + 24 > hdr + len \<or> probe_req s ! i \<noteq> f_ram s (hdr + 24 + of_nat i))) [0..<?n] \<longleftrightarrow>
      hdr + 24 \<le> hdr + len \<and> (\<forall>i < ?n. f_ram s (hdr + 24 + of_nat i) = probe_req s ! i)"
    by (force simp: list_all_iff simp del: upt_Suc)
  ultimately show ?thesis
    by (simp only: wlan_rx_wol_probe_ssid_def Let_def)
qed

text \<open>Configuring the wake-up copies the flags only: \<^verbatim>\<open>sizeof(cmd)\<close> is the size of a pointer, so the
  addresses, the interval of null frames and the pattern of the command never arrive, and
  \<^verbatim>\<open>wol_prepare\<close> programs the addresses the context had before (zero after start).\<close>

theorem wol_cmd_flags_only:
  assumes "cf_wol (f_cfg s)"
  shows "wo_cmd (f_wol (wol_cmd cmd s)) = (wo_cmd (f_wol s))\<lparr> wc_flags := ld32 (f_ram s) cmd \<rparr> \<and>
     hw_regs (f_hw (wol_prepare (wol_cmd cmd s))) AR9170_MAC_REG_MAC_ADDR_L =
       le32 (wc_mac (wo_cmd (f_wol s)) ! 0) (wc_mac (wo_cmd (f_wol s)) ! 1)
         (wc_mac (wo_cmd (f_wol s)) ! 2) (wc_mac (wo_cmd (f_wol s)) ! 3)"
  using assms
  by (simp add: wol_cmd_def wol_prepare_def Let_def set_reg_bytes6_def wlan_trigger_def set_reg_def
      get_clock_counter_def get_reg_def tick_def)

theorem wol_cmd_flags_only_witness:
  "wc_flags (wo_cmd (f_wol (wol_cmd 0x100000 (zero_state (default_config\<lparr> cf_wol := True \<rparr>))))) = 0"
  using wol_cmd_flags_only [of "zero_state (default_config\<lparr> cf_wol := True \<rparr>)" "0x100000"]
  by (simp add: zero_state_def ld32_def le32_def)

end
