(* ===== verification/Drain.thy ===== *)
theory Drain
  imports Queues
begin

text \<open>The loop \<^verbatim>\<open>for_each_desc_not_bits\<close> of carlfw/include/dma.h: it takes the packets at the head of a
  queue that the hardware has given back, and stops at the first one the hardware still owns. Its body
  may append to the queue it drains, as the receive handler does.\<close>

subsection \<open>The status of a packet\<close>

definition own_bits :: "fw_state \<Rightarrow> u32 list \<Rightarrow> u16" where
  "own_bits s p = dd_status (f_descs s (hd p)) AND AR9170_OWN_BITS"

text \<open>The packets the loop takes: the prefix that is not in the given state.\<close>

definition ready :: "u16 \<Rightarrow> fw_state \<Rightarrow> u32 list list \<Rightarrow> u32 list list" where
  "ready bits s ps = takeWhile (\<lambda>p. own_bits s p \<noteq> bits) ps"

definition blocked :: "u16 \<Rightarrow> fw_state \<Rightarrow> u32 list list \<Rightarrow> bool" where
  "blocked bits s ps \<longleftrightarrow> ps = [] \<or> own_bits s (hd ps) = bits"

lemma ready_split: "\<exists>R. ps = ready bits s ps @ R \<and> blocked bits s R"
  using hd_dropWhile [of "\<lambda>p. own_bits s p \<noteq> bits" ps]
  by (intro exI [of _ "dropWhile (\<lambda>p. own_bits s p \<noteq> bits) ps"]) (auto simp: ready_def blocked_def)

lemma ready_ne: "p \<in> set (ready bits s ps) \<Longrightarrow> own_bits s p \<noteq> bits"
  by (auto simp: ready_def dest: set_takeWhileD)

lemma blocked_append:
  "blocked bits s R \<Longrightarrow> (\<And>p. p \<in> set N \<Longrightarrow> own_bits s p = bits) \<Longrightarrow> blocked bits s (R @ N)"
  by (cases R; cases N) (auto simp: blocked_def)

lemma blocked_cong:
  "(\<And>p. p \<in> set R \<Longrightarrow> own_bits t p = own_bits s p) \<Longrightarrow> blocked bits t R = blocked bits s R"
  by (cases R) (auto simp: blocked_def)

subsection \<open>Packets and descriptors elsewhere\<close>

text \<open>What a put or reclaim writes is outside of the packets that are in queues.\<close>

lemma queued_elsewhere:
  assumes "queues_ok s Q" "r \<in> all_queues" "x \<in> all_queues" "d \<in> set (concat (Q x))"
  shows "d \<noteq> q_terminator (f_queues s r)"
proof (cases "x = r")
  case True
  then show ?thesis
    using assms by (auto simp: queues_ok_def queue_ok_def)
next
  case False
  then have "queue_set s Q x \<inter> queue_set s Q r = {}"
    using assms by (auto simp: queues_ok_def)
  then show ?thesis
    using assms(4) by (auto simp: queue_set_def)
qed

lemma detached_elsewhere:
  "detached s Q p \<Longrightarrow> x \<in> all_queues \<Longrightarrow> d \<in> set (concat (Q x)) \<Longrightarrow> d \<notin> set p"
  by (auto simp: detached_def queue_set_def)

lemma detached_ne: "detached s Q p \<Longrightarrow> p \<noteq> []"
  by (auto simp: detached_def packet_ok_def)

lemma put_elsewhere:
  assumes "queues_ok s Q" "r \<in> all_queues" "detached s Q p" "put r (hd p) s = Some s'"
    "x \<in> all_queues" "d \<in> set (concat (Q x))"
  shows "f_descs s' d = f_descs s d"
proof -
  have "f_descs s' = put_result (q_terminator (f_queues s r)) p (f_descs s)"
    using put_detached [OF assms(1-3)] assms(4) by (auto simp: with_queue_def)
  then show ?thesis
    using put_result_other [OF queued_elsewhere [OF assms(1,2,5,6)] detached_elsewhere [OF assms(3,5,6)]
        detached_ne [OF assms(3)]] by simp
qed

lemma reclaim_elsewhere:
  assumes "queues_ok s Q" "r \<in> all_queues" "detached s Q p" "reclaim r (hd p) s = Some s'"
    "x \<in> all_queues" "d \<in> set (concat (Q x))"
  shows "f_descs s' d = f_descs s d"
proof -
  have "f_descs s' = reclaim_result (q_terminator (f_queues s r)) p (f_descs s)"
    using reclaim_detached [OF assms(1-3)] assms(4) by (auto simp: with_queue_def)
  then show ?thesis
    using reclaim_result_other [OF queued_elsewhere [OF assms(1,2,5,6)] detached_elsewhere [OF assms(3,5,6)]
        detached_ne [OF assms(3)]] by simp
qed

lemma queue_member_ne: "queue_is r s ps \<Longrightarrow> p \<in> set ps \<Longrightarrow> p \<noteq> []"
proof -
  have "queue_chain h x ps t \<Longrightarrow> p \<in> set ps \<Longrightarrow> p \<noteq> []" for h x t
    by (induction ps arbitrary: x) (auto simp: packet_ok_def)
  then show "queue_is r s ps \<Longrightarrow> p \<in> set ps \<Longrightarrow> p \<noteq> []"
    by (auto simp: queue_ok_def)
qed

lemma own_bits_elsewhere:
  assumes "queues_ok s Q" "x \<in> all_queues" "p \<in> set (Q x)"
    "\<And>d. d \<in> set (concat (Q x)) \<Longrightarrow> f_descs s' d = f_descs s d"
  shows "own_bits s' p = own_bits s p"
proof -
  have "hd p \<in> set p"
    using assms queue_member_ne [of s x "Q x" p] by (auto simp: queues_ok_def)
  then have "hd p \<in> set (concat (Q x))"
    using assms(3) by auto
  then show ?thesis
    using assms(4) by (simp add: own_bits_def)
qed

lemma own_bits_unlink:
  assumes "queues_ok s Q" "r \<in> all_queues" "Q r = p # ps" "unlink_head r s = (Some d, s')"
  shows "own_bits s' x = own_bits s x"
  using unlink_head_first [OF assms(1-3)] assms(4)
  by (auto simp: own_bits_def with_queue_def unlink_result_def)

lemma free_block_own: "free_block (f_descs s x) \<Longrightarrow> own_bits s [x] = AR9170_OWN_BITS_HW"
  by (simp add: own_bits_def free_block_def)

lemma hw_owned_own: "hw_owned (f_descs s) p \<Longrightarrow> p \<noteq> [] \<Longrightarrow> own_bits s p = AR9170_OWN_BITS_HW"
  by (simp add: own_bits_def hw_owned_def)

text \<open>A packet that \<^verbatim>\<open>dma_unlink_head\<close> took: its last descriptor points to itself.\<close>

definition poisoned :: "fw_state \<Rightarrow> u32 list \<Rightarrow> bool" where
  "poisoned s p \<longleftrightarrow> dd_nextAddr (f_descs s (last p)) = last p \<and> dd_lastAddr (f_descs s (last p)) = last p"

lemma unlinked_poisoned:
  assumes "queues_ok s Q" "r \<in> all_queues" "Q r = p # ps" "unlink_head r s = (Some d, s')"
  shows "poisoned s' p"
  using unlink_head_first [OF assms(1-3)] assms(4) by (auto simp: poisoned_def with_queue_def unlink_result_def)

subsection \<open>The loop\<close>

lemma dequeue_not_bits_first:
  assumes "queues_ok s Q" "r \<in> all_queues" "Q r = p # ps"
  shows "dequeue_not_bits r bits s = (if own_bits s p \<noteq> bits then unlink_head r s else (None, s))"
proof -
  have "q_head (f_queues s r) = hd p"
    using assms by (auto simp: queues_ok_def queue_ok_def)
  then show ?thesis
    by (simp add: dequeue_not_bits_def dma_dequeue_not_bits_def unlink_head_def own_bits_def with_queue_def)
qed

lemma dequeue_not_bits_empty:
  assumes "queues_ok s Q" "r \<in> all_queues" "Q r = []"
  shows "dequeue_not_bits r bits s = (None, s)"
  using unlink_head_empty [OF assms]
  by (auto simp: dequeue_not_bits_def dma_dequeue_not_bits_def unlink_head_def with_queue_def Let_def split: prod.splits)

text \<open>Every round takes the first packet; it may append packets to the queue as long as the loop still
  stops where it would have stopped.\<close>

lemma for_each_not_bits_steps:
  assumes "queues_ok s Q" "r \<in> all_queues" "I s Q did" "Q r = P @ R"
    and "\<And>p. p \<in> set P \<Longrightarrow> own_bits s p \<noteq> bits" "blocked bits s R"
    and step: "\<And>s Q p ps R did. queues_ok s Q \<Longrightarrow> I s Q did \<Longrightarrow> Q r = p # ps @ R \<Longrightarrow> blocked bits s R \<Longrightarrow>
       own_bits s p \<noteq> bits \<Longrightarrow> \<exists>s1 s2 Q2 R2. unlink_head r s = (Some (hd p), s1) \<and> body (hd p) s1 = Some s2 \<and>
         queues_ok s2 Q2 \<and> I s2 Q2 (did @ [p]) \<and> Q2 r = ps @ R2 \<and> blocked bits s2 R2 \<and>
         (\<forall>p' \<in> set ps. own_bits s2 p' = own_bits s p')"
  shows "\<exists>s' Q'. for_each_desc_not_bits body r bits s = Some s' \<and> queues_ok s' Q' \<and>
     I s' Q' (did @ P) \<and> blocked bits s' (Q' r)"
  using assms(1,3-6)
proof (induction P arbitrary: s Q R did)
  case Nil
  have "dequeue_not_bits r bits s = (None, s)"
  proof (cases R)
    case Nil
    then have "Q r = []"
      using Nil.prems by simp
    then show ?thesis
      by (rule dequeue_not_bits_empty [OF Nil.prems(1) assms(2)])
  next
    case (Cons p ps)
    then have "Q r = p # ps" "own_bits s p = bits"
      using Nil.prems by (simp_all add: blocked_def)
    then show ?thesis
      using dequeue_not_bits_first [OF Nil.prems(1) \<open>r \<in> all_queues\<close>, of p ps bits] by simp
  qed
  then have "for_each_desc_not_bits body r bits s = Some s"
    by (subst for_each_desc_not_bits.simps) simp
  then show ?case
    using Nil.prems by (intro exI [of _ s] exI [of _ Q]) simp
next
  case (Cons p P)
  have Qr: "Q r = p # P @ R"
    using Cons.prems(3) by simp
  obtain s1 s2 Q2 R2 where s2: "unlink_head r s = (Some (hd p), s1)" "body (hd p) s1 = Some s2"
      "queues_ok s2 Q2" "I s2 Q2 (did @ [p])" "Q2 r = P @ R2" "blocked bits s2 R2"
      "\<forall>p' \<in> set P. own_bits s2 p' = own_bits s p'"
    using step [OF Cons.prems(1,2) Qr Cons.prems(5)] Cons.prems(4) by auto
  have "own_bits s2 p' \<noteq> bits" if "p' \<in> set P" for p'
    using s2(7) Cons.prems(4) that by simp
  then obtain s' Q' where s': "for_each_desc_not_bits body r bits s2 = Some s'" "queues_ok s' Q'"
      "I s' Q' ((did @ [p]) @ P)" "blocked bits s' (Q' r)"
    using Cons.IH [OF s2(3-5) _ s2(6)] by blast
  have "dequeue_not_bits r bits s = (Some (hd p), s1)"
    using dequeue_not_bits_first [OF Cons.prems(1) assms(2) Qr] Cons.prems(4) s2(1) by simp
  then have "for_each_desc_not_bits body r bits s = Some s'"
    using s2(2) s'(1) by (subst for_each_desc_not_bits.simps) simp
  then show ?case
    using s' by (intro exI [of _ s'] exI [of _ Q']) simp
qed

end
