(* ===== verification/TxStatus.thy ===== *)
theory TxStatus
  imports WlanTx
begin

text \<open>Transmit status reports (carlfw/src/wlantx.c): the cache of \<^verbatim>\<open>CARL9170_TX_STATUS_NUM\<close> entries
  is a ring that meets the interface of the theory Ring, and no report is lost or reordered on
  the way to the host. The retry logic makes finitely many attempts.\<close>

subsection \<open>The cache as a list\<close>

definition status_ring_ok :: "fw_state \<Rightarrow> bool" where
  "status_ring_ok s \<longleftrightarrow> (let w = f_wlan s in
     length (w_tx_status_cache w) = 30 \<and> unat (w_tx_status_pending w) \<le> 30 \<and>
     unat (w_tx_status_head_idx w) < 30 \<and>
     unat (w_tx_status_tail_idx w) = (unat (w_tx_status_head_idx w) + unat (w_tx_status_pending w)) mod 30)"

definition pending_status :: "fw_state \<Rightarrow> tx_status list" where
  "pending_status s = ring_list 30 (\<lambda>i. w_tx_status_cache (f_wlan s) ! i)
     (unat (w_tx_status_head_idx (f_wlan s))) (unat (w_tx_status_pending (f_wlan s)))"

text \<open>The status bytes in the messages handed to the host: a message carries \<^verbatim>\<open>ext\<close> of them.\<close>

definition status_payload :: "u8 \<times> u8 \<times> u8 list \<Rightarrow> u8 list" where
  "status_payload x = (case x of (type, ext, body) \<Rightarrow>
     if type = CARL9170_RSP_TXCOMP then take (2 * unat ext) body else [])"

definition reported_status :: "fw_state \<Rightarrow> u8 list" where
  "reported_status s = concat (map status_payload (f_messages s))"

lemma tx_status_bytes_length [simp]: "length (tx_status_bytes t) = 2"
  by (simp add: tx_status_bytes_def)

lemma length_status_bytes [simp]: "length (concat (map tx_status_bytes ts)) = 2 * length ts"
  by (induction ts) auto

lemma take_status_bytes:
  "take (2 * n) (concat (map tx_status_bytes ts)) = concat (map tx_status_bytes (take n ts))"
proof (induction ts arbitrary: n)
  case (Cons t ts)
  then show ?case
    by (cases n) (auto simp: tx_status_bytes_def)
qed simp

text \<open>A run of the ring that does not wrap.\<close>

lemma ring_list_run:
  "h + k \<le> n \<Longrightarrow> 0 < k \<Longrightarrow> length xs = n \<Longrightarrow> ring_list n (\<lambda>i. xs ! i) h k = take k (drop h xs)"
  by (rule nth_equalityI) (auto simp: ring_list_def)

lemma ring_list_add:
  "ring_list n f h (j + k) = ring_list n f h j @ ring_list n f ((h + j) mod n) k"
  by (rule nth_equalityI) (auto simp: ring_list_def nth_append mod_simps ac_simps)

subsection \<open>Sending the pending entries\<close>

text \<open>One round of the loop.\<close>

definition tx_status_round :: "fw_state \<Rightarrow> fw_state" where
  "tx_status_round s =
     (let len = tx_status_len s;
          s = send_cmd_to_host (ucast ((len * 2 + 3) AND NOT 3)) CARL9170_RSP_TXCOMP (ucast len)
                (status_cache_bytes (unat (w_tx_status_head_idx (f_wlan s))) s) s;
          s = f_wlan_update (w_tx_status_pending_update (\<lambda>p. p - len)) s;
          s = f_wlan_update (w_tx_status_head_idx_update (\<lambda>h. h + len)) s
      in f_wlan_update (w_tx_status_head_idx_update (\<lambda>h. h mod CARL9170_TX_STATUS_NUM)) s)"

lemma send_status_step:
  "wlan_send_buffered_tx_status s =
     (if w_tx_status_pending (f_wlan s) \<noteq> 0 then wlan_send_buffered_tx_status (tx_status_round s) else s)"
  by (subst wlan_send_buffered_tx_status.simps) (simp add: tx_status_round_def Let_def)

text \<open>What a round, and hence the loop, leaves alone.\<close>

definition status_frame :: "fw_state \<Rightarrow> fw_state \<Rightarrow> bool" where
  "status_frame s t \<longleftrightarrow> f_queues t = f_queues s \<and> f_descs t = f_descs s \<and> f_supers t = f_supers s \<and>
     f_cfg t = f_cfg s \<and>
     (f_wlan t)\<lparr> w_tx_status_pending := 0, w_tx_status_head_idx := 0 \<rparr> =
     (f_wlan s)\<lparr> w_tx_status_pending := 0, w_tx_status_head_idx := 0 \<rparr>"

lemma status_frame_refl [simp]: "status_frame s s"
  by (simp add: status_frame_def)

lemma status_frame_trans: "status_frame s t \<Longrightarrow> status_frame t u \<Longrightarrow> status_frame s u"
  by (simp add: status_frame_def)

lemma round_frame: "status_frame s (tx_status_round s)"
  by (simp add: status_frame_def tx_status_round_def Let_def send_cmd_fields)

lemma send_status_frame: "status_frame s (wlan_send_buffered_tx_status s)"
proof (induction s rule: wlan_send_buffered_tx_status.induct)
  case (1 s)
  show ?case
  proof (cases "w_tx_status_pending (f_wlan s) = 0")
    case True
    then show ?thesis
      by (subst send_status_step) simp
  next
    case False
    then have "status_frame (tx_status_round s) (wlan_send_buffered_tx_status (tx_status_round s))"
      using 1 [OF False refl refl refl refl refl] by (simp add: tx_status_round_def Let_def comp_assoc)
    then show ?thesis
      using False by (subst send_status_step) (simp add: status_frame_trans [OF round_frame])
  qed
qed

lemma tx_status_len_ok:
  assumes "status_ring_ok s"
  shows "unat (tx_status_len s) = min (unat (w_tx_status_pending (f_wlan s))) (30 - unat (w_tx_status_head_idx (f_wlan s)))"
proof -
  have "unat (30 - w_tx_status_head_idx (f_wlan s)) = 30 - unat (w_tx_status_head_idx (f_wlan s))"
    using assms by (subst unat_sub) (simp_all add: status_ring_ok_def Let_def word_le_nat_alt)
  then show ?thesis
    using assms by (auto simp: tx_status_len_def status_ring_ok_def Let_def min_def word_le_nat_alt)
qed

lemma status_payload_len:
  fixes len :: u32
  assumes "unat len \<le> 30"
  shows "2 * unat (ucast len :: u8) = 2 * unat len" "2 * unat len \<le> unat (ucast ((len * 2 + 3) AND NOT 3) :: u8)"
proof -
  have "list_all (\<lambda>k. 2 * k \<le> unat (ucast ((of_nat k * 2 + 3 :: u32) AND NOT 3) :: u8)) [0..<31]"
    by (simp add: upt_rec)
  then have "2 * unat len \<le> unat (ucast ((of_nat (unat len) * 2 + 3 :: u32) AND NOT 3) :: u8)"
    using assms unfolding list_all_iff by (rule_tac bspec) auto
  then show "2 * unat len \<le> unat (ucast ((len * 2 + 3) AND NOT 3) :: u8)"
    unfolding of_nat_unat_id .
  show "2 * unat (ucast len :: u8) = 2 * unat len"
    using assms unat_ucast_u8 [of "unat len"] by simp
qed

lemma round_spec:
  assumes ok: "status_ring_ok s" and ne: "w_tx_status_pending (f_wlan s) \<noteq> 0"
  shows "status_ring_ok (tx_status_round s)"
    "reported_status (tx_status_round s) @ concat (map tx_status_bytes (pending_status (tx_status_round s))) =
     reported_status s @ concat (map tx_status_bytes (pending_status s))"
    "unat (w_tx_status_pending (f_wlan (tx_status_round s))) < unat (w_tx_status_pending (f_wlan s))"
proof -
  let ?t = "tx_status_round s" and ?len = "tx_status_len s"
  let ?h = "unat (w_tx_status_head_idx (f_wlan s))" and ?p = "unat (w_tx_status_pending (f_wlan s))"
  let ?cache = "w_tx_status_cache (f_wlan s)"
  define k where "k = unat ?len"
  have k: "k = min ?p (30 - ?h)"
    using tx_status_len_ok [OF ok] by (simp add: k_def)
  have r: "?p \<le> 30" "?h < 30" "length ?cache = 30" "0 < ?p"
    using ok ne by (auto simp: status_ring_ok_def Let_def unat_gt_0)
  have kp: "k \<le> ?p" "?h + k \<le> 30" "0 < k"
    using k r by auto
  have p': "unat (w_tx_status_pending (f_wlan s) - ?len) = ?p - k"
    using tx_status_len_le [of s] by (simp add: unat_sub k_def)
  have "unat (w_tx_status_head_idx (f_wlan s) + ?len) = ?h + k"
    using kp(2) by (subst unat_word_ariths(1)) (simp add: k_def)
  then have h': "unat ((w_tx_status_head_idx (f_wlan s) + ?len) mod 30) = (?h + k) mod 30"
    by (simp add: unat_mod)
  have f: "w_tx_status_pending (f_wlan ?t) = w_tx_status_pending (f_wlan s) - ?len"
      "w_tx_status_head_idx (f_wlan ?t) = (w_tx_status_head_idx (f_wlan s) + ?len) mod 30"
      "w_tx_status_tail_idx (f_wlan ?t) = w_tx_status_tail_idx (f_wlan s)" "w_tx_status_cache (f_wlan ?t) = ?cache"
    by (simp_all add: tx_status_round_def Let_def)
  show "unat (w_tx_status_pending (f_wlan ?t)) < ?p"
    using f(1) p' kp r by simp
  have "((?h + k) mod 30 + (?p - k)) mod 30 = (?h + ?p) mod 30"
    using kp by (subst mod_add_left_eq) simp
  then show "status_ring_ok ?t"
    using ok f p' h' kp r by (simp add: status_ring_ok_def Let_def)
  have "k \<le> 30"
    using kp by simp
  note len = status_payload_len [of ?len, folded k_def, OF this]
  have "2 * k \<le> length (concat (map tx_status_bytes (drop ?h ?cache)))"
    using kp r by simp
  then have body: "take (2 * k) (status_cache_bytes ?h s) = concat (map tx_status_bytes (take k (drop ?h ?cache)))"
    unfolding status_cache_bytes_def by (subst take_append) (simp add: take_status_bytes)
  have "f_messages ?t = f_messages s @ [(0xC1, ucast ?len,
      take (unat (ucast ((?len * 2 + 3) AND NOT 3) :: u8)) (status_cache_bytes ?h s))]"
    by (simp add: tx_status_round_def Let_def send_cmd_fields)
  then have rep: "reported_status ?t = reported_status s @ concat (map tx_status_bytes (take k (drop ?h ?cache)))"
    using len body by (simp add: reported_status_def status_payload_def min_absorb1)
  have "pending_status s = take k (drop ?h ?cache) @ pending_status ?t"
    using ring_list_add [of 30 "\<lambda>i. ?cache ! i" ?h k "?p - k"] ring_list_run [of ?h k 30 ?cache] kp r
    by (simp add: pending_status_def f p' h')
  then show "reported_status ?t @ concat (map tx_status_bytes (pending_status ?t)) =
     reported_status s @ concat (map tx_status_bytes (pending_status s))"
    using rep by simp
qed

lemma send_status_spec:
  assumes "status_ring_ok s"
  defines "t \<equiv> wlan_send_buffered_tx_status s"
  shows "status_ring_ok t" "w_tx_status_pending (f_wlan t) = 0"
    "reported_status t = reported_status s @ concat (map tx_status_bytes (pending_status s))"
proof -
  have "status_ring_ok (wlan_send_buffered_tx_status s) \<and>
      w_tx_status_pending (f_wlan (wlan_send_buffered_tx_status s)) = 0 \<and>
      reported_status (wlan_send_buffered_tx_status s) =
        reported_status s @ concat (map tx_status_bytes (pending_status s))"
    using assms(1)
  proof (induction "unat (w_tx_status_pending (f_wlan s))" arbitrary: s rule: less_induct)
    case less
    show ?case
    proof (cases "w_tx_status_pending (f_wlan s) = 0")
      case True
      then show ?thesis
        using less.prems by (subst (1 2 3) send_status_step) (simp add: pending_status_def)
    next
      case False
      note r = round_spec [OF less.prems False]
      show ?thesis
        using less.hyps [OF r(3,1)] r(2) False by (subst (1 2 3) send_status_step) simp
    qed
  qed
  then show "status_ring_ok t" "w_tx_status_pending (f_wlan t) = 0"
    "reported_status t = reported_status s @ concat (map tx_status_bytes (pending_status s))"
    by (simp_all add: t_def)
qed

subsection \<open>Storing an entry\<close>

text \<open>The entry that \<^verbatim>\<open>wlan_tx_complete\<close> makes of a frame.\<close>

definition frame_status :: "u32 \<Rightarrow> bool \<Rightarrow> fw_state \<Rightarrow> tx_status" where
  "frame_status super txs s = (let d = super_s super s in
     \<lparr> ts_cookie = sd_cookie d, ts_queue = sd_queue d, ts_rix = ucast (sd_rix d), ts_tries = ucast (sd_cnt d),
       ts_success = txs \<rparr>)"

text \<open>Room for an entry: the ring after the flush of a full one.\<close>

definition with_room :: "fw_state \<Rightarrow> fw_state" where
  "with_room s = (if w_tx_status_pending (f_wlan s) = 30 then wlan_send_buffered_tx_status s else s)"

definition status_push :: "tx_status \<Rightarrow> fw_state \<Rightarrow> fw_state" where
  "status_push x s = f_wlan_update (\<lambda>w. w\<lparr>
     w_tx_status_cache := (w_tx_status_cache w)[unat (w_tx_status_tail_idx w) := x],
     w_tx_status_tail_idx := (w_tx_status_tail_idx w + 1) mod 30,
     w_tx_status_pending := w_tx_status_pending w + 1 \<rparr>) s"

definition status_pop :: "fw_state \<Rightarrow> tx_status \<times> fw_state" where
  "status_pop s = (w_tx_status_cache (f_wlan s) ! unat (w_tx_status_head_idx (f_wlan s)),
     f_wlan_update (\<lambda>w. w\<lparr> w_tx_status_head_idx := (w_tx_status_head_idx w + 1) mod 30,
       w_tx_status_pending := w_tx_status_pending w - 1 \<rparr>) s)"

lemma Suc_mod_index: "unat (i :: u32) < 30 \<Longrightarrow> unat ((i + 1) mod 30) = (unat i + 1) mod 30"
  using unat_Suc_lt [of i 30] by (simp add: unat_mod)

interpretation status_ring: ring status_ring_ok pending_status 30 "\<lambda>_. True" status_push status_pop
proof unfold_locales
  fix s :: fw_state and x :: tx_status
  assume ok: "status_ring_ok s" and len: "length (pending_status s) < 30"
  let ?w = "f_wlan s"
  let ?h = "unat (w_tx_status_head_idx ?w)" and ?p = "unat (w_tx_status_pending ?w)"
  let ?t = "unat (w_tx_status_tail_idx ?w)"
  have p: "?p < 30" "?h < 30" "?t = (?h + ?p) mod 30" "length (w_tx_status_cache ?w) = 30"
    using ok len by (auto simp: status_ring_ok_def Let_def pending_status_def)
  have p1: "unat (w_tx_status_pending ?w + 1) = Suc ?p"
    using p(1) unat_Suc_lt [of "w_tx_status_pending ?w" 30] by simp
  have t1: "unat ((w_tx_status_tail_idx ?w + 1) mod 30) = (?t + 1) mod 30"
    using p(3) by (intro Suc_mod_index) simp
  have "((?h + ?p) mod 30 + 1) mod 30 = (?h + Suc ?p) mod 30"
    by (simp add: mod_simps)
  then have ok': "status_ring_ok (status_push x s)"
    using p p1 t1 by (simp add: status_ring_ok_def Let_def status_push_def)
  have "ring_list 30 (\<lambda>i. (w_tx_status_cache ?w)[?t := x] ! i) ?h (Suc ?p) =
      ring_list 30 (\<lambda>i. w_tx_status_cache ?w ! i) ?h ?p @ [(w_tx_status_cache ?w)[?t := x] ! ((?h + ?p) mod 30)]"
    using p ring_index_ne [of _ ?p 30 ?h] by (intro ring_list_snoc) fastforce
  moreover have "(w_tx_status_cache ?w)[?t := x] ! ((?h + ?p) mod 30) = x"
    using p by simp
  ultimately have "pending_status (status_push x s) = pending_status s @ [x]"
    using p1 by (simp add: pending_status_def status_push_def)
  with ok' show "status_ring_ok (status_push x s) \<and> pending_status (status_push x s) = pending_status s @ [x]"
    by blast
next
  fix s :: fw_state and x :: tx_status and xs :: "tx_status list"
  assume ok: "status_ring_ok s" and ne: "pending_status s = x # xs"
  let ?w = "f_wlan s"
  let ?h = "unat (w_tx_status_head_idx ?w)" and ?p = "unat (w_tx_status_pending ?w)"
  have p: "?p \<le> 30" "?h < 30" "0 < ?p" "length (w_tx_status_cache ?w) = 30"
    using ok ne by (auto simp: status_ring_ok_def Let_def pending_status_def intro!: gr0I)
  then have pw: "w_tx_status_pending ?w \<noteq> 0"
    by auto
  then have p1: "unat (w_tx_status_pending ?w - 1) = ?p - 1"
    by (rule unat_minus_1)
  have h1: "unat ((w_tx_status_head_idx ?w + 1) mod 30) = (?h + 1) mod 30"
    using p(2) by (rule Suc_mod_index)
  have "((?h + 1) mod 30 + (?p - 1)) mod 30 = (?h + ?p) mod 30"
    using p(3) by (subst mod_add_left_eq) simp
  then have ok': "status_ring_ok (snd (status_pop s))"
    using ok p p1 h1 by (simp add: status_ring_ok_def Let_def status_pop_def)
  obtain k where k: "?p = Suc k"
    using p(3) by (cases ?p) auto
  have "pending_status s = w_tx_status_cache ?w ! ?h # ring_list 30 (\<lambda>i. w_tx_status_cache ?w ! i) ((?h + 1) mod 30) k"
    unfolding pending_status_def k using p(2) by (rule ring_list_Cons)
  then have "fst (status_pop s) = x \<and> pending_status (snd (status_pop s)) = xs"
    using ne p1 h1 k by (simp add: pending_status_def status_pop_def)
  with ok' show "fst (status_pop s) = x \<and> status_ring_ok (snd (status_pop s)) \<and> pending_status (snd (status_pop s)) = xs"
    by blast
qed

text \<open>Sending does not look at the tail index.\<close>

lemma send_cmd_f_wlan:
  "send_cmd_to_host len type ext body (f_wlan_update g s) = f_wlan_update g (send_cmd_to_host len type ext body s)"
  by (rule fw_state.equality) (simp_all add: send_cmd_to_host_def get_int_buf_def Let_def int_slot_def
      usb_trigger_in_def andb_def getb_def get_reg_def peek_def tick_def setb_def set_reg_def cong: option.case_cong)

abbreviation upd_tail :: "(u32 \<Rightarrow> u32) \<Rightarrow> fw_state \<Rightarrow> fw_state" where
  "upd_tail g \<equiv> f_wlan_update (w_tx_status_tail_idx_update g)"

lemma round_tail: "tx_status_round (upd_tail g s) = upd_tail g (tx_status_round s)"
  by (simp add: tx_status_round_def Let_def send_cmd_f_wlan tx_status_len_def status_cache_bytes_def)

lemma send_status_tail:
  "wlan_send_buffered_tx_status (upd_tail g s) = upd_tail g (wlan_send_buffered_tx_status s)"
proof (induction s rule: wlan_send_buffered_tx_status.induct)
  case (1 s)
  show ?case
  proof (cases "w_tx_status_pending (f_wlan s) = 0")
    case True
    then show ?thesis
      by (subst (1 2) send_status_step) simp
  next
    case False
    then have "wlan_send_buffered_tx_status (upd_tail g (tx_status_round s)) =
        upd_tail g (wlan_send_buffered_tx_status (tx_status_round s))"
      using 1 [OF False refl refl refl refl refl] by (simp add: tx_status_round_def Let_def comp_assoc)
    then show ?thesis
      using False by (subst (1 2) send_status_step) (simp add: round_tail)
  qed
qed

lemma with_room_frame: "status_frame s (with_room s)"
  by (simp add: with_room_def send_status_frame)

lemma status_frame_wlan:
  assumes "status_frame s t"
  shows "w_tx_status_tail_idx (f_wlan t) = w_tx_status_tail_idx (f_wlan s)"
    "w_tx_status_cache (f_wlan t) = w_tx_status_cache (f_wlan s)"
    "w_ampdu_prev (f_wlan t) = w_ampdu_prev (f_wlan s)" "w_sequence (f_wlan t) = w_sequence (f_wlan s)"
    "w_queued_bar (f_wlan t) = w_queued_bar (f_wlan s)" "w_cab_queue_len (f_wlan t) = w_cab_queue_len (f_wlan s)"
    "w_fw_desc_data (f_wlan t) = w_fw_desc_data (f_wlan s)" "w_fw_desc (f_wlan t) = w_fw_desc (f_wlan s)"
    "f_queues t = f_queues s" "f_descs t = f_descs s" "f_supers t = f_supers s"
proof -
  have e: "(f_wlan t)\<lparr> w_tx_status_pending := 0, w_tx_status_head_idx := 0 \<rparr> =
     (f_wlan s)\<lparr> w_tx_status_pending := 0, w_tx_status_head_idx := 0 \<rparr>"
    using assms by (simp add: status_frame_def)
  show "w_tx_status_tail_idx (f_wlan t) = w_tx_status_tail_idx (f_wlan s)"
    "w_tx_status_cache (f_wlan t) = w_tx_status_cache (f_wlan s)"
    "w_ampdu_prev (f_wlan t) = w_ampdu_prev (f_wlan s)" "w_sequence (f_wlan t) = w_sequence (f_wlan s)"
    "w_queued_bar (f_wlan t) = w_queued_bar (f_wlan s)" "w_cab_queue_len (f_wlan t) = w_cab_queue_len (f_wlan s)"
    "w_fw_desc_data (f_wlan t) = w_fw_desc_data (f_wlan s)" "w_fw_desc (f_wlan t) = w_fw_desc (f_wlan s)"
    using arg_cong [OF e, of w_tx_status_tail_idx] arg_cong [OF e, of w_tx_status_cache]
      arg_cong [OF e, of w_ampdu_prev] arg_cong [OF e, of w_sequence] arg_cong [OF e, of w_queued_bar]
      arg_cong [OF e, of w_cab_queue_len] arg_cong [OF e, of w_fw_desc_data] arg_cong [OF e, of w_fw_desc]
    by simp_all
  show "f_queues t = f_queues s" "f_descs t = f_descs s" "f_supers t = f_supers s"
    using assms by (simp_all add: status_frame_def)
qed

lemma get_tx_status_buffer_room:
  "wlan_get_tx_status_buffer s = (unat (w_tx_status_tail_idx (f_wlan s)),
     f_wlan_update (\<lambda>w. w\<lparr> w_tx_status_tail_idx := (w_tx_status_tail_idx w + 1) mod 30,
       w_tx_status_pending := w_tx_status_pending w + 1 \<rparr>) (with_room s))"
  by (simp add: wlan_get_tx_status_buffer_def Let_def with_room_def send_status_tail comp_def)

text \<open>Storing the report is a push on the ring, after a flush when it is full.\<close>

lemma tx_complete_push:
  "wlan_tx_complete super txs s =
     upd_s super (sd_cookie_update (\<lambda>_. 0)) (status_push (frame_status super txs s) (with_room s))"
proof -
  have five: "upd_nth i (\<lambda>t. t\<lparr> ts_cookie := a, ts_queue := b, ts_rix := c, ts_tries := d, ts_success := e \<rparr>) xs =
      xs[i := \<lparr> ts_cookie = a, ts_queue = b, ts_rix = c, ts_tries = d, ts_success = e \<rparr>]"
    for i and xs :: "tx_status list" and a b c d e
    by (cases "xs ! i") (simp add: upd_nth_def)
  have nest: "upd_nth i f (upd_nth i g xs) = upd_nth i (\<lambda>x. f (g x)) xs" for i f g and xs :: "tx_status list"
    by (cases "i < length xs") (simp_all add: upd_nth_def list_update_beyond)
  show ?thesis
    using status_frame_wlan [OF with_room_frame [of s]]
    by (intro fw_state.equality)
      (simp_all add: wlan_tx_complete_def get_tx_status_buffer_room Let_def upd_status_def status_push_def
        frame_status_def super_s_def upd_super_def nest five)
qed

lemma with_room_spec:
  assumes "status_ring_ok s"
  shows "status_ring_ok (with_room s)" "length (pending_status (with_room s)) < 30"
    "reported_status (with_room s) @ concat (map tx_status_bytes (pending_status (with_room s))) =
     reported_status s @ concat (map tx_status_bytes (pending_status s))"
proof -
  have "w_tx_status_pending (f_wlan s) \<noteq> 30 \<Longrightarrow> unat (w_tx_status_pending (f_wlan s)) < 30"
    using assms unat_inj32 [of "w_tx_status_pending (f_wlan s)" 30]
    by (auto simp: status_ring_ok_def Let_def le_less)
  then show "status_ring_ok (with_room s)" "length (pending_status (with_room s)) < 30"
    "reported_status (with_room s) @ concat (map tx_status_bytes (pending_status (with_room s))) =
     reported_status s @ concat (map tx_status_bytes (pending_status s))"
    using send_status_spec [OF assms] assms by (auto simp: with_room_def pending_status_def)
qed

text \<open>C6. No transmit status is lost: a report that is stored, also into a full cache, keeps the ring
  well formed, and the next flush leaves the cache empty and has handed to the host every report
  from before, in order, and then the new one.\<close>

theorem tx_status_no_loss:
  assumes "status_ring_ok s"
  shows "status_ring_ok (wlan_tx_complete super txs s) \<and>
     reported_status (wlan_send_buffered_tx_status (wlan_tx_complete super txs s)) =
       reported_status s @ concat (map tx_status_bytes (pending_status s)) @ tx_status_bytes (frame_status super txs s) \<and>
     pending_status (wlan_send_buffered_tx_status (wlan_tx_complete super txs s)) = []"
proof -
  let ?x = "frame_status super txs s"
  let ?t = "wlan_tx_complete super txs s"
  note room = with_room_spec [OF assms]
  have push: "status_ring_ok (status_push ?x (with_room s))"
      "pending_status (status_push ?x (with_room s)) = pending_status (with_room s) @ [?x]"
    using status_ring.push_last [OF room(1) TrueI room(2)] by blast+
  have ring: "status_ring_ok ?t" "pending_status ?t = pending_status (with_room s) @ [?x]"
      "reported_status ?t = reported_status (with_room s)"
    using push by (simp_all add: tx_complete_push status_ring_ok_def Let_def pending_status_def
        reported_status_def upd_super_def status_push_def)
  have "pending_status (wlan_send_buffered_tx_status ?t) = []"
    using send_status_spec [OF ring(1)] by (simp add: pending_status_def)
  then show ?thesis
    using ring(1) send_status_spec [OF ring(1)] ring(2,3) room(3) by simp
qed

theorem tx_status_no_loss_witness:
  "reported_status (wlan_send_buffered_tx_status (wlan_tx_complete 0x110000 True (zero_state default_config))) = [0, 0x80]"
proof -
  have ok: "status_ring_ok (zero_state default_config)"
    by (simp add: status_ring_ok_def zero_state_def)
  have z: "reported_status (zero_state default_config) = []" "pending_status (zero_state default_config) = []"
    by (simp_all add: reported_status_def pending_status_def zero_state_def)
  have fs: "tx_status_bytes (frame_status 0x110000 True (zero_state default_config)) = [0, 0x80]"
    by (simp add: frame_status_def super_s_def zero_state_def zero_super_def tx_status_bytes_def
        tx_status_info_def bitv_def)
  show ?thesis
    using tx_status_no_loss [OF ok, of "0x110000" True] by (simp add: z fs)
qed

subsection \<open>Retries\<close>

text \<open>The attempts that are left: those with the current rate, and at least one for every later rate.\<close>

definition tries_left :: "tx_superdesc \<Rightarrow> nat" where
  "tries_left d = unat (ri_tries (sd_ri d ! unat (sd_rix d))) - unat (sd_cnt d) +
     sum_list (map (\<lambda>r. max 1 (unat (ri_tries r))) (drop (Suc (unat (sd_rix d))) (sd_ri d)))"

definition rates_ok :: "tx_superdesc \<Rightarrow> bool" where
  "rates_ok d \<longleftrightarrow> length (sd_ri d) = 4 \<and> length (sd_rr d) = 3 \<and> unat (sd_rix d) \<le> 3"

lemma unat_lt_3word: "unat (w :: 3 word) < 8"
  using unsigned_less [of w, where ?'a = nat] by simp

text \<open>C24. The retry decision never leaves the rate tables (the rate index stays at most 3, and the
  entries it reads exist), and every attempt it grants uses up one of a finite number: a frame is
  sent at most as often as its rate tables say. The rate it goes on with is the next one of the table.\<close>

theorem wlan_tx_consume_retry_bounded:
  assumes "rates_ok (super_s super s)" "wlan_tx_consume_retry super s = (True, s')"
  shows "rates_ok (super_s super s') \<and> tries_left (super_s super s') < tries_left (super_s super s) \<and>
     (sd_rix (super_s super s') \<noteq> sd_rix (super_s super s) \<longrightarrow>
        hd_phy (super_hdr super s') = sd_rr (super_s super s) ! unat (sd_rix (super_s super s)) \<and>
        sd_rix (super_s super s') = sd_rix (super_s super s) + 1 \<and> sd_cnt (super_s super s') = 1)"
proof (cases "unat (ri_tries (sd_ri (super_s super s) ! unat (sd_rix (super_s super s)))) \<le> unat (sd_cnt (super_s super s))")
  case True
  let ?d = "super_s super s" and ?d' = "super_s super s'"
  let ?r = "unat (sd_rix ?d)"
  have ne: "sd_rix ?d \<noteq> 3"
    using assms(2) True by (auto simp: wlan_tx_consume_retry_def Let_def)
  have res: "sd_rix ?d' = sd_rix ?d + 1" "sd_cnt ?d' = 1" "sd_ri ?d' = sd_ri ?d" "sd_rr ?d' = sd_rr ?d"
      "hd_phy (super_hdr super s') = sd_rr ?d ! ?r"
    using assms(2) True ne
    by (auto simp: wlan_tx_consume_retry_def Let_def super_s_def super_hdr_def upd_super_def split: if_splits)
  have "?r \<noteq> 3"
    using ne unsigned_word_eqI [of "sd_rix ?d" 3, where ?'a = nat] by auto
  then have r: "?r < 3"
    using assms(1) by (simp add: rates_ok_def)
  then have r': "unat (sd_rix ?d + 1) = Suc ?r"
    by (simp add: unat_word_ariths(1))
  have "drop (Suc ?r) (sd_ri ?d) = sd_ri ?d ! Suc ?r # drop (Suc (Suc ?r)) (sd_ri ?d)"
    using assms(1) r by (intro Cons_nth_drop_Suc [symmetric]) (simp add: rates_ok_def)
  then have "tries_left ?d' < tries_left ?d"
    using r' True by (simp add: tries_left_def res)
  then show ?thesis
    using assms(1) r r' res by (simp add: rates_ok_def)
next
  case False
  let ?d = "super_s super s" and ?d' = "super_s super s'"
  have res: "?d' = ?d\<lparr> sd_cnt := sd_cnt ?d + 1 \<rparr>"
    using assms(2) False
    by (auto simp: wlan_tx_consume_retry_def Let_def super_s_def upd_super_def)
  have "unat (sd_cnt ?d) < 8"
    using False unat_lt_3word [of "ri_tries (sd_ri ?d ! unat (sd_rix ?d))"] by linarith
  then have "unat (sd_cnt ?d + 1) = unat (sd_cnt ?d) + 1"
    by (simp add: unat_word_ariths(1))
  then show ?thesis
    using assms(1) False by (simp add: rates_ok_def tries_left_def res)
qed

definition retry_desc :: tx_superdesc where
  "retry_desc = (sf_s zero_super)\<lparr> sd_ri := \<lparr> ri_tries = 3, ri_erp_prot = 0, ri_ampdu = False, ri_free = 0 \<rparr> #
     replicate 3 \<lparr> ri_tries = 0, ri_erp_prot = 0, ri_ampdu = False, ri_free = 0 \<rparr>, sd_cnt := 1 \<rparr>"

definition retry_state :: fw_state where
  "retry_state = (zero_state default_config)\<lparr> f_supers := (\<lambda>_. zero_super\<lparr> sf_s := retry_desc \<rparr>) \<rparr>"

theorem wlan_tx_consume_retry_bounded_witness:
  "tries_left (super_s 0 (snd (wlan_tx_consume_retry 0 retry_state))) < 5"
proof -
  have d: "super_s 0 retry_state = retry_desc"
    by (simp add: super_s_def retry_state_def)
  have ok: "rates_ok (super_s 0 retry_state)" and left: "tries_left (super_s 0 retry_state) = 5"
    unfolding d by (simp_all add: rates_ok_def tries_left_def retry_desc_def zero_super_def sum_list_replicate)
  have "fst (wlan_tx_consume_retry 0 retry_state)"
    by (simp add: wlan_tx_consume_retry_def Let_def d) (simp add: retry_desc_def zero_super_def)
  then have "wlan_tx_consume_retry 0 retry_state = (True, snd (wlan_tx_consume_retry 0 retry_state))"
    by (cases "wlan_tx_consume_retry 0 retry_state") simp
  from wlan_tx_consume_retry_bounded [OF ok this] show ?thesis
    by (simp add: left)
qed

end
