(* ===== verification/TxPath.thy ===== *)
theory TxPath
  imports TxStatus
begin

text \<open>What the transmit path does to the queues (carlfw/src/wlantx.c): the frames held back until the
  DTIM beacon leave in order with the right \<^verbatim>\<open>More Data\<close> marks.\<close>

subsection \<open>Frames\<close>

text \<open>What preparing a frame leaves alone: the queues, the descriptors and the superdescriptors.\<close>

definition tx_frame :: "fw_state \<Rightarrow> fw_state \<Rightarrow> bool" where
  "tx_frame s t \<longleftrightarrow> f_queues t = f_queues s \<and> f_descs t = f_descs s \<and> f_cfg t = f_cfg s \<and>
     (\<forall>x. sf_s (f_supers t x) = sf_s (f_supers s x))"

lemma tx_frame_refl [simp]: "tx_frame s s"
  by (simp add: tx_frame_def)

lemma tx_frame_trans: "tx_frame s t \<Longrightarrow> tx_frame t u \<Longrightarrow> tx_frame s u"
  by (simp add: tx_frame_def)

lemma tx_frame_core: "same_core s t \<Longrightarrow> tx_frame s t"
  by (simp add: tx_frame_def fields_same_core)

lemma tx_frame_links: "tx_frame s t \<Longrightarrow> same_links s t"
  by (simp add: tx_frame_def same_links_def)

lemma tx_frame_updates [simp]:
  "tx_frame s (f_wlan_update g s)" "tx_frame s (f_ram_update m s)" "tx_frame s (set_reg a v s)" "tx_frame s (tick s)"
  "tx_frame s (upd_super x (sf_hdr_update h) s)"
  by (simp_all add: tx_frame_def upd_super_def set_reg_def tick_def)

text \<open>Where a frame starts, and the queue it goes to, from the contents of its packet.\<close>

definition frame_of :: "(u32 \<times> u16 \<times> u16) list \<Rightarrow> u32" where
  "frame_of c = superframe_data (fst (hd c) - 24)"

definition queue_of :: "fw_state \<Rightarrow> (u32 \<times> u16 \<times> u16) list \<Rightarrow> nat" where
  "queue_of s c = super_queue (fst (hd c) - 24) s"

lemma tx_frame_queue: "tx_frame s t \<Longrightarrow> super_queue x t = super_queue x s"
  by (simp add: tx_frame_def super_queue_def super_s_def)

lemma tx_frame_super: "tx_frame s t \<Longrightarrow> super_s x t = super_s x s \<and> get_super d t = get_super d s"
  by (simp add: tx_frame_def super_s_def get_super_def payload_def)

lemma tx_frame_ampdu: "tx_frame s (wlan_tx_ampdu x s)" "tx_frame s (wlan_tx_ampdu_end i s)"
  "tx_frame s (wlan_tx_ampdu_reset i s)"
  by (simp_all add: wlan_tx_ampdu_def wlan_tx_ampdu_end_def wlan_tx_ampdu_reset_def Let_def tx_frame_def upd_super_def)

lemma ram_ampdu [simp]: "f_ram (wlan_tx_ampdu x s) = f_ram s" "f_ram (wlan_tx_ampdu_end i s) = f_ram s"
  by (simp_all add: wlan_tx_ampdu_def wlan_tx_ampdu_end_def wlan_tx_ampdu_reset_def Let_def upd_super_def)

lemma super_queue_less: "super_queue x s < 4"
  using unsigned_less [of "sd_queue (super_s x s)", where ?'a = nat] by (simp add: super_queue_def)

lemma TxQ_in [simp]: "TxQ (super_queue x s) \<in> all_queues"
  using super_queue_less [of x s] by (auto simp: all_queues_def)

lemma st16_miss: "\<not> in_range a p 2 \<Longrightarrow> st16 p v m a = m a"
  by (simp add: st16_def wr_bytes_miss)

lemma assign_seq_frame: "tx_frame s (wlan_assign_seq hdr vif s)"
  by (simp add: wlan_assign_seq_def Let_def tx_frame_def)

lemma assign_seq_ram: "\<not> in_range a (hdr + 22) 2 \<Longrightarrow> f_ram (wlan_assign_seq hdr vif s) a = f_ram s a"
  by (simp add: wlan_assign_seq_def Let_def st16_miss)

lemma tx_first_frame: "tx_frame s (wlan_tx_first d s)"
proof -
  have mod: "tx_frame s (if b then set_reg a v (tick s) else s)" for b a v s
    by (simp add: tx_frame_trans [OF tx_frame_updates(4)])
  have seq: "tx_frame s (if b then wlan_assign_seq h i s else s)" for b h i s
    by (simp add: assign_seq_frame)
  show ?thesis
    unfolding wlan_tx_first_def Let_def get_reg_def split_beta snd_conv fst_conv
    by (rule tx_frame_trans [OF tx_frame_trans [OF seq mod] mod])
qed

lemma tx_first_ram:
  assumes "\<not> in_range a (superframe_data (get_super d s) + 22) 2"
  shows "f_ram (wlan_tx_first d s) a = f_ram s a"
  using assign_seq_ram [OF assms]
  by (simp add: wlan_tx_first_def Let_def get_reg_def set_reg_def tick_def)

lemma read_tsf_frame: "tx_frame s (snd (read_tsf s))" "f_ram (snd (read_tsf s)) = f_ram s"
  by (simp_all add: read_tsf_def Let_def get_reg_def split_beta tx_frame_trans [OF tx_frame_updates(4)])
    (simp add: tick_def)

text \<open>The state a try puts the packet in.\<close>

definition tx_prepared :: "u32 \<Rightarrow> fw_state \<Rightarrow> fw_state" where
  "tx_prepared d s =
     (let super = get_super d s;
          s = (if sd_fill_in_tsf (super_s super s) then
                 f_ram_update (wr_bytes (probe_resp_timestamp (superframe_data super))
                   (bytes32 (fst (fst (read_tsf s))) @ bytes32 (snd (fst (read_tsf s))))) (snd (read_tsf s))
               else s)
      in wlan_tx_ampdu super s)"

lemma tx_prepared_frame: "tx_frame s (tx_prepared d s)"
proof -
  have "tx_frame s (if b then f_ram_update g (snd (read_tsf s)) else s)" for b g
    by (simp add: tx_frame_trans [OF read_tsf_frame(1)])
  then show ?thesis
    unfolding tx_prepared_def Let_def by (rule tx_frame_trans) (rule tx_frame_ampdu)
qed

lemma wlan_tx_try_put: "wlan_tx_try d s = put (TxQ (super_queue (get_super d s) s)) d (tx_prepared d s)"
proof -
  have "wlan_tx_try d s = put (TxQ (super_queue (get_super d s) (tx_prepared d s))) d (tx_prepared d s)"
    by (simp add: wlan_tx_try_def tx_prepared_def Let_def split_beta)
  then show ?thesis
    by (simp add: tx_frame_queue [OF tx_prepared_frame])
qed

lemma tx_prepared_ram:
  assumes "\<not> in_range a (superframe_data (get_super d s) + 24) 8"
  shows "f_ram (tx_prepared d s) a = f_ram s a"
  using assms by (simp add: tx_prepared_def Let_def wr_bytes_miss read_tsf_frame)

text \<open>A try appends the packet to the queue its header names, whatever else it does.\<close>

lemma wlan_tx_try_appends:
  assumes "queues_ok s Q" "detached s Q p"
  defines "r \<equiv> TxQ (super_queue (get_super (hd p) s) s)"
  shows "\<exists>s' p'. wlan_tx_try (hd p) s = Some s' \<and> queues_ok s' (Q(r := Q r @ [p'])) \<and>
     packet_contents s' p' = packet_contents s p \<and>
     (\<forall>x \<in> all_queues. map (packet_contents s') (Q x) = map (packet_contents s) (Q x)) \<and>
     (\<forall>x. sf_s (f_supers s' x) = sf_s (f_supers s x)) \<and>
     (\<forall>a. \<not> in_range a (superframe_data (get_super (hd p) s) + 24) 8 \<longrightarrow> f_ram s' a = f_ram s a)"
proof -
  let ?t = "tx_prepared (hd p) s"
  have l: "same_links s ?t"
    by (rule tx_frame_links [OF tx_prepared_frame])
  have "queues_ok ?t Q" "detached ?t Q p"
    using assms(1,2) queues_ok_links [OF l] detached_links [OF l] by simp_all
  moreover have "r \<in> all_queues"
    by (simp add: r_def)
  ultimately obtain s' p' where s': "put r (hd p) ?t = Some s'" "queues_ok s' (Q(r := Q r @ [p']))"
      "packet_contents s' p' = packet_contents ?t p"
      "\<forall>x \<in> all_queues. map (packet_contents s') (Q x) = map (packet_contents ?t) (Q x)"
      "s' = with_queue r ((f_queues ?t r)\<lparr> q_terminator := hd p \<rparr>, put_result (q_terminator (f_queues ?t r)) p (f_descs ?t)) ?t"
    using put_detached [of ?t Q r p] by blast
  have c: "packet_contents ?t = packet_contents s"
    using tx_prepared_frame [of s "hd p"] by (auto simp: tx_frame_def packet_contents_def)
  have "wlan_tx_try (hd p) s = Some s'"
    by (simp only: wlan_tx_try_put s'(1) [unfolded r_def])
  moreover have "sf_s (f_supers s' x) = sf_s (f_supers s x)" for x
    using tx_prepared_frame [of s "hd p"] by (simp add: s'(5) with_queue_def tx_frame_def)
  moreover have "f_ram s' a = f_ram s a"
    if "\<not> in_range a (superframe_data (get_super (hd p) s) + 24) 8" for a
    using tx_prepared_ram [OF that] by (simp add: s'(5) with_queue_def)
  ultimately show ?thesis
    using s'(2,3,4) c by metis
qed

subsection \<open>Traffic after the DTIM beacon\<close>

definition more_data :: "fw_state \<Rightarrow> (u32 \<times> u16 \<times> u16) list \<Rightarrow> bool" where
  "more_data s c \<longleftrightarrow> i3e_frame_control (f_ram s) (frame_of c) AND IEEE80211_FCTL_MOREDATA \<noteq> 0"

lemma ld16_cong: "m p = m' p \<Longrightarrow> m (p + 1) = m' (p + 1) \<Longrightarrow> ld16 m p = ld16 m' p"
  by (simp add: ld16_def)

lemma mask_or_clear: "(w OR m) AND m = m" "(w AND NOT m) AND m = 0" for w m :: "'a::len word"
  by (rule bit_word_eqI; auto simp: bit_simps)+

lemma not_in_range_below:
  assumes "unat (j :: u32) < unat k" "unat k + n \<le> 4294967296"
  shows "\<not> in_range (p + j) (p + k) n"
proof -
  have "unat (j - k) = 4294967296 + unat j - unat k"
    using assms(1) by (simp add: unat_sub_if_size word_size)
  then show ?thesis
    using assms by (simp add: in_range_def)
qed

lemma set_frame_control_fields:
  "tx_frame s (set_frame_control hdr v s)" "f_ram (set_frame_control hdr v s) = st16 hdr v (f_ram s)"
  by (simp_all add: set_frame_control_def)

text \<open>Releasing one frame.\<close>

lemma cab_release_spec:
  assumes "queues_ok s Q" "detached s Q p"
  defines "c \<equiv> packet_contents s p"
  shows "\<exists>s' p'. cab_release vif (hd p) s = Some s' \<and>
     queues_ok s' (Q(TxQ (queue_of s c) := Q (TxQ (queue_of s c)) @ [p'])) \<and> packet_contents s' p' = c \<and>
     (\<forall>x \<in> all_queues. map (packet_contents s') (Q x) = map (packet_contents s) (Q x)) \<and>
     (\<forall>x. sf_s (f_supers s' x) = sf_s (f_supers s x)) \<and>
     (\<forall>a. \<not> in_range a (frame_of c) 32 \<longrightarrow> f_ram s' a = f_ram s a) \<and>
     (more_data s' c \<longleftrightarrow> \<not> queue_empty (f_queues s (CabQ vif)))"
proof -
  let ?d = "hd p"
  let ?super = "get_super ?d s"
  let ?hdr = "superframe_data ?super"
  let ?fc = "i3e_frame_control (f_ram s) ?hdr"
  let ?v = "if \<not> queue_empty (f_queues s (CabQ vif)) then ?fc OR 0x2000 else ?fc AND NOT 0x2000"
  let ?s1 = "set_frame_control ?hdr ?v s"
  let ?s2 = "wlan_tx_first ?d ?s1"
  have ne: "p \<noteq> []"
    using assms(2) by (auto simp: detached_def packet_ok_def)
  then have c: "fst (hd c) = payload ?d s"
    by (simp add: c_def packet_contents_def contents_def payload_def hd_map)
  have q: "queue_of s c = super_queue ?super s" "frame_of c = ?hdr"
    by (simp_all add: queue_of_def frame_of_def c get_super_def)
  have f2: "tx_frame s ?s2"
    by (rule tx_frame_trans [OF set_frame_control_fields(1) tx_first_frame])
  note sup = tx_frame_super [OF f2] tx_frame_super [OF set_frame_control_fields(1) [of s ?hdr ?v]]
  have ok2: "queues_ok ?s2 Q" "detached ?s2 Q p"
    using assms(1,2) queues_ok_links [OF tx_frame_links [OF f2]] detached_links [OF tx_frame_links [OF f2]] by simp_all
  have pc: "packet_contents ?s2 = packet_contents s"
    using f2 by (auto simp: tx_frame_def packet_contents_def)
  have sq: "super_queue ?super ?s2 = super_queue ?super s" "get_super ?d ?s2 = ?super"
    using tx_frame_queue [OF f2] sup by auto
  obtain s3 p' where s3: "wlan_tx_try ?d ?s2 = Some s3"
      "queues_ok s3 (Q(TxQ (super_queue ?super s) := Q (TxQ (super_queue ?super s)) @ [p']))"
      "packet_contents s3 p' = c"
      "\<forall>x \<in> all_queues. map (packet_contents s3) (Q x) = map (packet_contents s) (Q x)"
      "\<forall>x. sf_s (f_supers s3 x) = sf_s (f_supers ?s2 x)"
      "\<forall>a. \<not> in_range a (?hdr + 24) 8 \<longrightarrow> f_ram s3 a = f_ram ?s2 a"
    using wlan_tx_try_appends [OF ok2] unfolding sq pc c_def by blast
  let ?s4 = "wlan_trigger (BIT (super_queue ?super s3)) s3"
  have same4: "same_core s3 ?s4"
    by (simp add: wlan_trigger_def)
  have ram: "f_ram ?s4 a = f_ram s a" if "\<not> in_range a (?hdr + 24) 8" "\<not> in_range a (?hdr + 22) 2" "\<not> in_range a ?hdr 2" for a
    using that s3(6) tx_first_ram [of a ?d ?s1] sup
    by (simp add: fields_same_core [OF same4] set_frame_control_fields st16_miss)
  have out: "\<not> in_range a (?hdr + 24) 8 \<and> \<not> in_range a (?hdr + 22) 2 \<and> \<not> in_range a ?hdr 2"
    if "\<not> in_range a ?hdr 32" for a
    using that in_range_offset [of a ?hdr 24 8 32] in_range_offset [of a ?hdr 22 2 32] in_range_offset [of a ?hdr 0 2 32]
    by auto
  have keep: "f_ram ?s4 (?hdr + k) = f_ram ?s1 (?hdr + k)" if "unat k < 2" for k
    using that s3(6) tx_first_ram [of _ ?d ?s1] sup not_in_range_below [of k 24 8 ?hdr] not_in_range_below [of k 22 2 ?hdr]
    by (simp add: fields_same_core [OF same4])
  have "i3e_frame_control (f_ram ?s4) ?hdr = i3e_frame_control (f_ram ?s1) ?hdr"
    using keep [of 0] keep [of 1] unfolding i3e_frame_control_def by (intro ld16_cong) simp_all
  also have "\<dots> = ?v"
    by (simp add: set_frame_control_fields i3e_frame_control_def)
  finally have "more_data ?s4 c \<longleftrightarrow> \<not> queue_empty (f_queues s (CabQ vif))"
    using mask_or_clear [of ?fc "0x2000"] by (simp add: more_data_def q(2))
  moreover have "cab_release vif ?d s = Some ?s4"
    using s3(1) by (cases "queue_empty (f_queues s (CabQ vif))") (simp_all add: cab_release_def Let_def)
  moreover have "queues_ok ?s4 = queues_ok s3"
    using queues_ok_links [OF same_core_links [OF same4]] by auto
  moreover have "packet_contents ?s4 = packet_contents s3" "\<forall>x. sf_s (f_supers ?s4 x) = sf_s (f_supers s x)"
    using s3(5) f2 by (auto simp: packet_contents_def fields_same_core [OF same4] tx_frame_def)
  ultimately show ?thesis
    using s3(2,3,4) ram out unfolding q by metis
qed

text \<open>The invariant of the flush: \<^verbatim>\<open>cs\<close> are the held back frames, the first \<^verbatim>\<open>length did\<close> of which
  have left.\<close>

definition cab_inv :: "nat \<Rightarrow> fw_state \<Rightarrow> (qref \<Rightarrow> u32 list list) \<Rightarrow> (u32 \<times> u16 \<times> u16) list list \<Rightarrow>
    fw_state \<Rightarrow> (qref \<Rightarrow> u32 list list) \<Rightarrow> u32 list list \<Rightarrow> bool" where
  "cab_inv vif s0 Q0 cs s Q did \<longleftrightarrow> (let n = length did in n \<le> length cs \<and>
     map (packet_contents s) (Q (CabQ vif)) = drop n cs \<and>
     (\<forall>j<5. map (packet_contents s) (Q (TxQ j)) =
        map (packet_contents s0) (Q0 (TxQ j)) @ filter (\<lambda>c. queue_of s0 c = j) (take n cs)) \<and>
     (\<forall>x. sf_s (f_supers s x) = sf_s (f_supers s0 x)) \<and>
     (\<forall>i<n. more_data s (cs ! i) \<longleftrightarrow> Suc i < length cs))"

definition frames_disjoint :: "(u32 \<times> u16 \<times> u16) list list \<Rightarrow> bool" where
  "frames_disjoint cs \<longleftrightarrow> (\<forall>i<length cs. \<forall>j<length cs. i \<noteq> j \<longrightarrow>
     disjoint_ranges (frame_of (cs ! i)) 32 (frame_of (cs ! j)) 32)"

lemma more_data_cong:
  assumes "\<And>a. in_range a (frame_of c) 32 \<Longrightarrow> f_ram s a = f_ram t a"
  shows "more_data s c = more_data t c"
proof -
  have "in_range (frame_of c + k) (frame_of c) 32" if "unat k < 32" for k
    using that by (simp add: in_range_def)
  from this [of 0] this [of 1] show ?thesis
    using assms unfolding more_data_def i3e_frame_control_def
    by (subst ld16_cong [of "f_ram s" "frame_of c" "f_ram t"]) simp_all
qed

lemma cab_step:
  assumes vif: "vif < 2" and fr: "frames_disjoint cs"
    and ok: "queues_ok s Q" and inv: "cab_inv vif s0 Q0 cs s Q did" and q: "Q (CabQ vif) = p # ps"
  shows "\<exists>s1 s2 Q2. unlink_head (CabQ vif) s = (Some (hd p), s1) \<and> cab_release vif (hd p) s1 = Some s2 \<and>
     queues_ok s2 Q2 \<and> cab_inv vif s0 Q0 cs s2 Q2 (did @ [p]) \<and> Q2 (CabQ vif) = ps"
proof -
  let ?n = "length did" and ?r = "CabQ vif"
  have r: "?r \<in> all_queues"
    using vif by (simp add: all_queues_def CARL9170_INTF_NUM_def)
  obtain s1 where s1: "unlink_head ?r s = (Some (hd p), s1)" "queues_ok s1 (Q(?r := ps))"
      "detached s1 (Q(?r := ps)) p"
      "s1 = with_queue ?r ((f_queues s ?r)\<lparr> q_head := dd_nextAddr (f_descs s (last p)) \<rparr>, unlink_result p (f_descs s)) s"
    using unlink_head_first [OF ok r q] by blast
  have pc1: "packet_contents s1 x = packet_contents s x" for x
    using fw.take_view [OF ok r, of x] s1(1) by simp
  have s1s: "sf_s (f_supers s1 x) = sf_s (f_supers s x)" "f_ram s1 = f_ram s" for x
    by (simp_all add: s1(4) with_queue_def)
  define c where "c = packet_contents s1 p"
  have cs: "drop ?n cs = c # map (packet_contents s) ps" "?n \<le> length cs"
    using inv q by (auto simp: cab_inv_def Let_def c_def pc1)
  then have n: "?n < length cs" "cs ! ?n = c" "drop (Suc ?n) cs = map (packet_contents s) ps" "take (Suc ?n) cs = take ?n cs @ [c]"
    by (metis drop_all list.distinct(1) not_less, metis hd_drop_conv_nth drop_all list.distinct(1) list.sel(1) not_less,
        metis drop_Suc list.sel(3) tl_drop, metis take_hd_drop drop_all list.distinct(1) list.sel(1) not_less)
  let ?j = "queue_of s1 c"
  have j: "?j = queue_of s0 c" "?j < 4"
    using inv s1s super_queue_less by (auto simp: cab_inv_def Let_def queue_of_def super_queue_def super_s_def)
  obtain s2 p' where s2: "cab_release vif (hd p) s1 = Some s2"
      "queues_ok s2 ((Q(?r := ps))(TxQ ?j := (Q(?r := ps)) (TxQ ?j) @ [p']))" "packet_contents s2 p' = c"
      "\<forall>x \<in> all_queues. map (packet_contents s2) ((Q(?r := ps)) x) = map (packet_contents s1) ((Q(?r := ps)) x)"
      "\<forall>x. sf_s (f_supers s2 x) = sf_s (f_supers s1 x)"
      "\<forall>a. \<not> in_range a (frame_of c) 32 \<longrightarrow> f_ram s2 a = f_ram s1 a"
      "more_data s2 c \<longleftrightarrow> \<not> queue_empty (f_queues s1 (CabQ vif))"
    using cab_release_spec [OF s1(2,3), of vif] unfolding c_def by blast
  let ?Q2 = "(Q(?r := ps))(TxQ ?j := Q (TxQ ?j) @ [p'])"
  have "queue_is ?r s1 ps"
    using s1(2) r by (auto simp: queues_ok_def dest!: bspec [of _ _ ?r])
  then have "queue_empty (f_queues s1 ?r) \<longleftrightarrow> ps = []"
    by (rule queue_ok_empty)
  moreover have "ps = [] \<longleftrightarrow> Suc ?n = length cs"
    using arg_cong [OF n(3), of length] n(1) by auto
  ultimately have md: "more_data s2 (cs ! ?n) \<longleftrightarrow> Suc ?n < length cs"
    using s2(7) n(1,2) by auto
  have "more_data s2 (cs ! i) = more_data s (cs ! i)" if "i < ?n" for i
  proof (rule more_data_cong)
    fix a assume "in_range a (frame_of (cs ! i)) 32"
    moreover have "disjoint_ranges (frame_of (cs ! i)) 32 (frame_of c) 32"
      using fr [unfolded frames_disjoint_def, rule_format, of i ?n] that n(1,2) by simp
    ultimately have "\<not> in_range a (frame_of c) 32"
      using disjoint_rangesD by blast
    then show "f_ram s2 a = f_ram s a"
      using s2(6) s1s by simp
  qed
  then have mds: "\<forall>i<Suc ?n. more_data s2 (cs ! i) \<longleftrightarrow> Suc i < length cs"
    using inv md by (auto simp: cab_inv_def Let_def less_Suc_eq)
  have tx: "TxQ i \<in> all_queues" if "i < 5" for i
    using that by (simp add: all_queues_def)
  have "map (packet_contents s2) (?Q2 (TxQ i)) =
      map (packet_contents s0) (Q0 (TxQ i)) @ filter (\<lambda>c. queue_of s0 c = i) (take (Suc ?n) cs)" if "i < 5" for i
  proof -
    have "map (packet_contents s2) (Q (TxQ i)) = map (packet_contents s1) (Q (TxQ i))"
      using bspec [OF s2(4) tx [OF that]] by simp
    also have "\<dots> = map (packet_contents s) (Q (TxQ i))"
      by (simp add: pc1)
    also have "\<dots> = map (packet_contents s0) (Q0 (TxQ i)) @ filter (\<lambda>c. queue_of s0 c = i) (take ?n cs)"
      using inv that by (simp add: cab_inv_def Let_def)
    finally show ?thesis
      using s2(3) by (cases "i = queue_of s0 c") (simp_all add: n(4) j(1))
  qed
  moreover have "map (packet_contents s2) (?Q2 ?r) = drop (Suc ?n) cs"
    using bspec [OF s2(4) r] n(3) pc1 by simp
  ultimately have "cab_inv vif s0 Q0 cs s2 ?Q2 (did @ [p])"
    using mds n(1) s2(5) s1s inv by (simp add: cab_inv_def Let_def del: fun_upd_apply)
  then show ?thesis
    using s1(1) s2(1,2) by (intro exI [of _ s1] exI [of _ s2] exI [of _ ?Q2]) simp
qed

text \<open>C7. The flush after the DTIM beacon returns and empties the queue of held back frames. Every frame is
  appended to the hardware queue its header names, unchanged and in its original order, and exactly
  the last one goes out without the \<^verbatim>\<open>More Data\<close> mark (802.11-2007 11.2.1.5 f).\<close>

theorem wlan_cab_flush_queue_releases:
  assumes "queues_ok s Q" "vif < 2" "frames_disjoint (map (packet_contents s) (Q (CabQ vif)))"
  shows "\<exists>s' Q'. wlan_cab_flush_queue vif s = Some s' \<and> queues_ok s' Q' \<and> Q' (CabQ vif) = [] \<and>
     (\<forall>j<5. map (packet_contents s') (Q' (TxQ j)) =
        map (packet_contents s) (Q (TxQ j)) @
        filter (\<lambda>c. queue_of s c = j) (map (packet_contents s) (Q (CabQ vif)))) \<and>
     (\<forall>i<length (Q (CabQ vif)). more_data s' (packet_contents s (Q (CabQ vif) ! i)) \<longleftrightarrow>
        Suc i < length (Q (CabQ vif)))"
proof -
  let ?cs = "map (packet_contents s) (Q (CabQ vif))"
  have r: "CabQ vif \<in> all_queues"
    using assms(2) by (simp add: all_queues_def CARL9170_INTF_NUM_def)
  have "cab_inv vif s Q ?cs s Q []"
    by (simp add: cab_inv_def)
  then have "\<exists>s' Q'. for_each_desc (cab_release vif) (CabQ vif) s = Some s' \<and> queues_ok s' Q' \<and>
      Q' (CabQ vif) = [] \<and> cab_inv vif s Q ?cs s' Q' ([] @ Q (CabQ vif))"
    by (intro for_each_desc_steps [where I = "cab_inv vif s Q ?cs"] assms(1) r cab_step [OF assms(2,3)])
  then obtain s' Q' where "for_each_desc (cab_release vif) (CabQ vif) s = Some s'" "queues_ok s' Q'"
      "Q' (CabQ vif) = []" "cab_inv vif s Q ?cs s' Q' (Q (CabQ vif))"
    by auto
  then show ?thesis
    by (intro exI [of _ s'] exI [of _ Q']) (simp add: wlan_cab_flush_queue_def cab_inv_def Let_def)
qed

text \<open>Two frames held back for the first interface.\<close>

definition held_desc :: "u32 \<Rightarrow> dma_desc" where
  "held_desc d = \<lparr> dd_status = 0, dd_ctrl = 0x300, dd_dataSize = 100, dd_totalLen = 100, dd_lastAddr = d,
     dd_dataAddr = 0x110018 + 16 * d, dd_nextAddr = d \<rparr>"

definition held_state :: fw_state where
  "held_state = (zero_state default_config)\<lparr> f_queues := init_queues (\<lambda>_. \<lparr> q_head = 0, q_terminator = 0 \<rparr>),
     f_descs := held_desc \<rparr>"

lemma low_not_terminator: "r \<in> all_queues \<Longrightarrow> unat d < 0x100000 \<Longrightarrow> d \<noteq> terminator_addr (queue_index r)"
proof -
  assume r: "r \<in> all_queues" and d: "unat d < 0x100000"
  have "0x100000 \<le> unat (terminator_addr i)" if "i < 13" for i
    using that by (simp add: unat_terminator)
  from this [of "queue_index r"] show "d \<noteq> terminator_addr (queue_index r)"
    using d init_queues_index [OF r] by auto
qed

lemma held_frames:
  "\<exists>s p1 p2. queues_ok s ((\<lambda>_. [])(CabQ 0 := [p1, p2])) \<and> f_supers s = (\<lambda>_. zero_super) \<and>
     packet_contents s p1 = [(0x111018, 100, 0x300)] \<and> packet_contents s p2 = [(0x112018, 100, 0x300)]"
proof -
  let ?r = "CabQ 0"
  have r: "?r \<in> all_queues"
    by (simp add: all_queues_def CARL9170_INTF_NUM_def)
  have ok: "queues_ok held_state (\<lambda>_. [])"
    by (rule queues_ok_init) (simp add: held_state_def)
  have d: "packet_ok held_desc [d]" for d
    by (simp add: packet_ok_def held_desc_def)
  have fq: "f_queues held_state x = init_queue (terminator_addr (queue_index x))" if "x \<in> all_queues" for x
    using init_queues_index [OF that] by (simp add: held_state_def)
  have det: "detached held_state (\<lambda>_. []) [d]" if "unat d < 0x100000" for d
    using low_not_terminator [OF _ that] d fq by (simp add: detached_def queue_set_def init_queue_def held_state_def)
  obtain s1 p1 where s1: "queues_ok s1 ((\<lambda>_. [])(?r := [p1]))" "packet_contents s1 p1 = packet_contents held_state [0x100]"
     "p1 = [terminator_addr 11]"
     "s1 = with_queue ?r ((f_queues held_state ?r)\<lparr> q_terminator := 0x100 \<rparr>,
        put_result (q_terminator (f_queues held_state ?r)) [0x100] (f_descs held_state)) held_state"
    using put_detached [OF ok r det [of "0x100"]] fq [OF r] by (auto simp: init_queue_def)
  have h: "f_descs s1 0x200 = held_desc 0x200"
    using low_not_terminator [OF r, of "0x200"] by (simp add: s1(4) with_queue_def put_result_def fq [OF r] init_queue_def)
      (simp add: held_state_def)
  have "detached s1 ((\<lambda>_. [])(?r := [p1])) [0x200]"
    using low_not_terminator [of _ "0x200"] h fq r
    by (auto simp: detached_def packet_ok_def queue_set_def with_queue_def s1(3,4) init_queue_def held_desc_def
        dest!: low_not_terminator [of ?r "0x200", simplified])
  from put_detached [OF s1(1) r this]
  obtain s2 p2 where s2: "queues_ok s2 ((\<lambda>_. [])(?r := [p1, p2]))" "packet_contents s2 p2 = packet_contents s1 [0x200]"
      "\<forall>x\<in>all_queues. map (packet_contents s2) (((\<lambda>_. [])(?r := [p1])) x) = map (packet_contents s1) (((\<lambda>_. [])(?r := [p1])) x)"
      "f_supers s2 = f_supers s1"
    by (auto simp: with_queue_def)
  have "packet_contents held_state [0x100] = [(0x111018, 100, 0x300)]"
    by (simp add: packet_contents_def contents_def held_state_def held_desc_def)
  moreover have "packet_contents s2 p1 = packet_contents s1 p1"
    using bspec [OF s2(3) r] by simp
  ultimately have "packet_contents s2 p1 = [(0x111018, 100, 0x300)]"
    using s1(2) by simp
  moreover have "packet_contents s2 p2 = [(0x112018, 100, 0x300)]"
    using s2(2) h by (simp add: packet_contents_def contents_def held_desc_def)
  moreover have "f_supers s2 = (\<lambda>_. zero_super)"
    by (simp add: s2(4) s1(4) with_queue_def held_state_def zero_state_def)
  ultimately show ?thesis
    using s2(1) by blast
qed

theorem wlan_cab_flush_queue_releases_witness:
  "\<exists>s s' Q'. wlan_cab_flush_queue 0 s = Some s' \<and> queues_ok s' Q' \<and> Q' (CabQ 0) = [] \<and>
     map (packet_contents s') (Q' (TxQ 0)) = [[(0x111018, 100, 0x300)], [(0x112018, 100, 0x300)]] \<and>
     more_data s' [(0x111018, 100, 0x300)] \<and> \<not> more_data s' [(0x112018, 100, 0x300)]"
proof -
  obtain s p1 p2 where s: "queues_ok s ((\<lambda>_. [])(CabQ 0 := [p1, p2]))" "f_supers s = (\<lambda>_. zero_super)"
     "packet_contents s p1 = [(0x111018, 100, 0x300)]" "packet_contents s p2 = [(0x112018, 100, 0x300)]"
    using held_frames by blast
  have "disjoint_ranges 0x111020 32 0x112020 32" "disjoint_ranges 0x112020 32 0x111020 32"
    by (rule disjoint_rangesI; simp)+
  then have "frames_disjoint (map (packet_contents s) (((\<lambda>_. [])(CabQ 0 := [p1, p2])) (CabQ 0)))"
    by (simp add: frames_disjoint_def s frame_of_def superframe_data_def less_Suc_eq nth_Cons')
  from wlan_cab_flush_queue_releases [OF s(1) _ this] obtain s' Q' where
    "wlan_cab_flush_queue 0 s = Some s'" "queues_ok s' Q'" "Q' (CabQ 0) = []"
    "map (packet_contents s') (Q' (TxQ 0)) = filter (\<lambda>c. queue_of s c = 0) [[(0x111018, 100, 0x300)], [(0x112018, 100, 0x300)]]"
    "more_data s' [(0x111018, 100, 0x300)]" "\<not> more_data s' [(0x112018, 100, 0x300)]"
    by (auto simp: s less_Suc_eq all_conj_distrib nth_Cons')
  then show ?thesis
    by (intro exI [of _ s] exI [of _ s'] exI [of _ Q'])
      (simp add: queue_of_def super_queue_def super_s_def s(2) zero_super_def)
qed

end
