(* ===== verification/WlanRx.thy ===== *)
theory WlanRx
  imports Wol Drain TxPath "HOL-Library.Sublist" "HOL-Library.Multiset"
begin

text \<open>The receive path (carlfw/src/wlanrx.c): the classification of received frames, the BlockAck
  requests that are kept for a response, and the handler that passes frames to the host or recycles
  them.\<close>

subsection \<open>Operations\<close>

text \<open>\<^verbatim>\<open>wlan_get_bar_cache_buffer\<close> gives the index of the entry it returns a pointer to.\<close>

definition wlan_get_bar_cache_buffer :: "fw_state \<Rightarrow> nat \<times> fw_state" where
  "wlan_get_bar_cache_buffer s =
     (let tmp = unat (w_ba_tail_idx (f_wlan s));
          s = f_wlan_update (w_ba_tail_idx_update (\<lambda>t. (t + 1) mod CONFIG_CARL9170FW_BACK_REQS_NUM)) s;
          s = (if w_queued_ba (f_wlan s) < CONFIG_CARL9170FW_BACK_REQS_NUM
               then f_wlan_update (w_queued_ba_update (\<lambda>n. n + 1)) s else s)
      in (tmp, s))"

text \<open>\<^verbatim>\<open>struct ieee80211_bar\<close>: the addresses at 4 and 10, control and sequence number at 16 and 18.\<close>

definition handle_bar :: "u32 \<Rightarrow> u32 \<Rightarrow> u32 \<Rightarrow> fw_state \<Rightarrow> fw_state" where
  "handle_bar hdr len mac_err s =
     (if mac_err \<noteq> 0 then s
      else if len < 20 + FCS_LEN then s
      else if ld16 (f_ram s) (hdr + 16) AND IEEE80211_BAR_CTRL_MULTI_TID \<noteq> 0 \<or>
              ld16 (f_ram s) (hdr + 16) AND IEEE80211_BAR_CTRL_CBMTID_COMPRESSED_BA = 0 then s
      else
        let (i, s) = wlan_get_bar_cache_buffer s;
            ctx = \<lparr> bc_ta = rd_bytes (hdr + 10) 6 (f_ram s), bc_ra = rd_bytes (hdr + 4) 6 (f_ram s),
                    bc_start_seq_num = ld16 (f_ram s) (hdr + 18), bc_control = ld16 (f_ram s) (hdr + 16) \<rparr>
        in f_wlan_update (w_ba_cache_update (\<lambda>c. c[i := ctx])) s)"

text \<open>The kind of frame: the bit to set in the filter, and the state after \<^verbatim>\<open>handle_bar\<close>.\<close>

definition rx_classify :: "u32 \<Rightarrow> u32 \<Rightarrow> u32 \<Rightarrow> fw_state \<Rightarrow> u32 \<times> fw_state" where
  "rx_classify hdr data_len mac_err s =
     (let fc = i3e_frame_control (f_ram s) hdr
      in if ieee80211_is_data fc then (CARL9170_RX_FILTER_DATA, s)
         else if ieee80211_is_ctl fc then
           let stype = fc AND IEEE80211_FCTL_STYPE
           in if stype = IEEE80211_STYPE_BACK_REQ then (CARL9170_RX_FILTER_CTL_BACKR, handle_bar hdr data_len mac_err s)
              else if stype = IEEE80211_STYPE_PSPOLL then (CARL9170_RX_FILTER_CTL_PSPOLL, s)
              else if stype = IEEE80211_STYPE_BACK \<and> w_queued_bar (f_wlan s) \<noteq> 0 then (0, s)
              else (CARL9170_RX_FILTER_CTL_OTHER, s)
         else (CARL9170_RX_FILTER_MGMT, s))"

definition wlan_rx_filter :: "u32 \<Rightarrow> fw_state \<Rightarrow> (u32 \<times> fw_state) option" where
  "wlan_rx_filter desc s =
     (let data_len = ar9170_get_rx_mpdu_len desc s
      in do { err \<leftarrow> ar9170_get_rx_macstatus_error desc s;
              let mac_err = ucast err;
              if data_len < 4 + 6 + FCS_LEN \<or>
                 unat (dd_totalLen (f_descs s desc)) > CONFIG_CARL9170FW_RX_FRAME_LEN \<or>
                 mac_err AND (AR9170_RX_ERROR_FCS OR AR9170_RX_ERROR_PLCP) \<noteq> 0
              then Some (CARL9170_RX_FILTER_BAD, s)
              else
                let rx_filter = (if mac_err AND AR9170_RX_ERROR_WRONG_RA \<noteq> 0 then CARL9170_RX_FILTER_OTHER_RA else 0);
                    rx_filter = (if mac_err AND AR9170_RX_ERROR_DECRYPT \<noteq> 0
                                 then rx_filter OR CARL9170_RX_FILTER_DECRY_FAIL else rx_filter);
                    hdr = ar9170_get_rx_i3e desc s;
                    (kind, s) = rx_classify hdr data_len mac_err s;
                    rx_filter = rx_filter OR kind;
                    s = (if f_suspend_mode s = CARL9170_HOST_SUSPENDED
                         then wol_rx rx_filter hdr (min data_len (of_nat AR9170_BLOCK_SIZE)) s else s)
                in Some (rx_filter, s) })"

definition rx_step :: "u32 \<Rightarrow> fw_state \<Rightarrow> fw_state option" where
  "rx_step desc s =
     do { (flt, s) \<leftarrow> wlan_rx_filter desc s;
          if flt AND w_rx_filter (f_wlan s) = 0
          then do { s \<leftarrow> put UpQ desc s; Some (up_trigger s) }
          else do { s \<leftarrow> reclaim RxQ desc s; Some (wlan_trigger AR9170_DMA_TRIGGER_RXQ s) } }"

definition handle_wlan_rx :: "fw_state \<Rightarrow> fw_state option" where
  "handle_wlan_rx s = for_each_desc_not_bits rx_step RxQ AR9170_OWN_BITS_HW s"

subsection \<open>BlockAck requests\<close>

definition ba_pending :: "fw_state \<Rightarrow> bar_ctx list" where
  "ba_pending s = ring_list 4 (\<lambda>i. w_ba_cache (f_wlan s) ! i) (unat (w_ba_head_idx (f_wlan s)))
     (unat (w_queued_ba (f_wlan s)))"

definition ba_ring_ok :: "fw_state \<Rightarrow> bool" where
  "ba_ring_ok s \<longleftrightarrow> length (w_ba_cache (f_wlan s)) = 4 \<and> unat (w_ba_head_idx (f_wlan s)) < 4 \<and>
     unat (w_queued_ba (f_wlan s)) \<le> 4 \<and>
     unat (w_ba_tail_idx (f_wlan s)) = (unat (w_ba_head_idx (f_wlan s)) + unat (w_queued_ba (f_wlan s))) mod 4"

definition bar_accepted :: "u32 \<Rightarrow> u32 \<Rightarrow> u32 \<Rightarrow> fw_state \<Rightarrow> bool" where
  "bar_accepted hdr len mac_err s \<longleftrightarrow> mac_err = 0 \<and> 24 \<le> len \<and>
     ld16 (f_ram s) (hdr + 16) AND IEEE80211_BAR_CTRL_MULTI_TID = 0 \<and>
     ld16 (f_ram s) (hdr + 16) AND IEEE80211_BAR_CTRL_CBMTID_COMPRESSED_BA \<noteq> 0"

definition bar_of :: "memory \<Rightarrow> u32 \<Rightarrow> bar_ctx" where
  "bar_of m hdr = \<lparr> bc_ta = rd_bytes (hdr + 10) 6 m, bc_ra = rd_bytes (hdr + 4) 6 m,
     bc_start_seq_num = ld16 m (hdr + 18), bc_control = ld16 m (hdr + 16) \<rparr>"

definition ba_push :: "bar_ctx \<Rightarrow> fw_state \<Rightarrow> fw_state" where
  "ba_push ctx s = (let (i, s) = wlan_get_bar_cache_buffer s in f_wlan_update (w_ba_cache_update (\<lambda>c. c[i := ctx])) s)"

text \<open>The part of \<^verbatim>\<open>wlan_send_buffered_ba\<close> that takes the oldest entry.\<close>

definition ba_pop :: "fw_state \<Rightarrow> bar_ctx \<times> fw_state" where
  "ba_pop s = (w_ba_cache (f_wlan s) ! unat (w_ba_head_idx (f_wlan s)),
     f_wlan_update (w_queued_ba_update (\<lambda>n. n - 1))
       (f_wlan_update (w_ba_head_idx_update (\<lambda>h. (h + 1) mod CONFIG_CARL9170FW_BACK_REQS_NUM)) s))"

lemma handle_bar_push:
  "handle_bar hdr len err s = (if bar_accepted hdr len err s then ba_push (bar_of (f_ram s) hdr) s else s)"
  by (auto simp: handle_bar_def bar_accepted_def ba_push_def bar_of_def wlan_get_bar_cache_buffer_def Let_def not_less)

lemma unat_mod4: "unat (w mod 4 :: u32) = unat w mod 4"
  by (simp add: unat_mod)

lemma ba_index_Suc: "unat (i :: u32) < 4 \<Longrightarrow> unat ((i + 1) mod 4) = (unat i + 1) mod 4"
  by (simp add: unat_mod unat_Suc_lt)

interpretation ba_ring: ring ba_ring_ok ba_pending 4 "\<lambda>_. True" ba_push ba_pop
proof unfold_locales
  fix s :: fw_state and x :: bar_ctx
  assume a: "ba_ring_ok s" "length (ba_pending s) < 4"
  let ?w = "f_wlan s"
  let ?h = "unat (w_ba_head_idx ?w)" and ?k = "unat (w_queued_ba ?w)" and ?t = "unat (w_ba_tail_idx ?w)"
  have k: "?k < 4" "?h < 4" "?t = (?h + ?k) mod 4" "length (w_ba_cache ?w) = 4"
    using a by (simp_all add: ba_pending_def ba_ring_ok_def)
  have lt: "w_queued_ba ?w < 4" "?t < 4"
    using k by (simp_all add: word_less_nat_alt)
  have q: "unat (w_queued_ba ?w + 1) = Suc ?k" and t: "unat ((w_ba_tail_idx ?w + 1) mod 4) = (?t + 1) mod 4"
    using k(1) lt(2) by (simp_all add: unat_Suc_lt [of _ 4] ba_index_Suc)
  have "ring_list 4 (\<lambda>i. (w_ba_cache ?w)[?t := x] ! i) ?h (Suc ?k) =
      ring_list 4 (\<lambda>i. w_ba_cache ?w ! i) ?h ?k @ [(w_ba_cache ?w)[?t := x] ! ((?h + ?k) mod 4)]"
    using k ring_index_ne [of _ ?k 4 ?h] by (intro ring_list_snoc) fastforce
  then show "ba_ring_ok (ba_push x s) \<and> ba_pending (ba_push x s) = ba_pending s @ [x]"
    using k lt q t by (simp add: ba_push_def wlan_get_bar_cache_buffer_def Let_def ba_ring_ok_def ba_pending_def mod_simps)
next
  fix s :: fw_state and x :: bar_ctx and xs
  assume a: "ba_ring_ok s" "ba_pending s = x # xs"
  let ?w = "f_wlan s"
  let ?h = "unat (w_ba_head_idx ?w)" and ?k = "unat (w_queued_ba ?w)"
  have "length (ba_pending s) = ?k"
    by (simp add: ba_pending_def)
  then obtain j where j: "?k = Suc j"
    using a(2) by (cases ?k) auto
  then have n: "unat (w_queued_ba ?w - 1) = j"
    by (metis diff_Suc_1 nat.simps(3) unat_0 unat_minus_1)
  have h: "?h < 4" "unat ((w_ba_head_idx ?w + 1) mod 4) = (?h + 1) mod 4"
    using a(1) by (simp_all add: ba_ring_ok_def ba_index_Suc)
  have "((?h + 1) mod 4 + j) mod 4 = (?h + ?k) mod 4"
    using j by (subst mod_add_left_eq) simp
  then have "ba_ring_ok (snd (ba_pop s))"
    using a(1) h n j by (simp add: ba_ring_ok_def ba_pop_def)
  moreover have "ba_pending s = w_ba_cache ?w ! ?h # ring_list 4 (\<lambda>i. w_ba_cache ?w ! i) ((?h + 1) mod 4) j"
    unfolding ba_pending_def j using h(1) by (rule ring_list_Cons)
  then have "fst (ba_pop s) = x \<and> ba_pending (snd (ba_pop s)) = xs"
    using a(2) h n by (simp add: ba_pending_def ba_pop_def)
  ultimately show "fst (ba_pop s) = x \<and> ba_ring_ok (snd (ba_pop s)) \<and> ba_pending (snd (ba_pop s)) = xs"
    by blast
qed

text \<open>A request that finds the ring full overwrites the oldest entry without moving the head.\<close>

lemma ba_push_full:
  assumes "ba_ring_ok s" "w_queued_ba (f_wlan s) = 4"
  shows "ba_pending (ba_push x s) = x # tl (ba_pending s) \<and> \<not> ba_ring_ok (ba_push x s)"
proof -
  let ?w = "f_wlan s"
  let ?h = "unat (w_ba_head_idx ?w)"
  have k: "?h < 4" "unat (w_ba_tail_idx ?w) = ?h" "length (w_ba_cache ?w) = 4"
    using assms by (simp_all add: ba_ring_ok_def)
  let ?f = "\<lambda>i. w_ba_cache ?w ! i" and ?f' = "\<lambda>i. (w_ba_cache ?w)[?h := x] ! i"
  have t: "unat ((w_ba_tail_idx ?w + 1) mod 4) = (?h + 1) mod 4"
    using k ba_index_Suc [of "w_ba_tail_idx ?w"] by simp
  have ne: "(?h + 1) mod 4 \<noteq> ?h"
    using ring_index_ne [of 0 1 4 ?h] k(1) by simp
  have "?f' (((?h + 1) mod 4 + i) mod 4) = ?f (((?h + 1) mod 4 + i) mod 4)" if "i < 3" for i
  proof -
    have "(?h + 1 + i) mod 4 \<noteq> ?h"
      using ring_index_ne [of i 3 4 "?h + 1"] that k(1) by (simp add: add.commute)
    then show ?thesis
      by (simp add: mod_simps)
  qed
  then have "ring_list 4 ?f' ((?h + 1) mod 4) 3 = ring_list 4 ?f ((?h + 1) mod 4) 3"
    unfolding ring_list_def by (intro map_cong) simp_all
  then have "ring_list 4 ?f' ?h 4 = x # tl (ring_list 4 ?f ?h 4)"
    using ring_list_Cons [OF k(1), of ?f 3] ring_list_Cons [OF k(1), of ?f' 3] k by simp
  moreover have "ba_pending s = ring_list 4 ?f ?h 4" "ba_pending (ba_push x s) = ring_list 4 ?f' ?h 4"
    using k assms(2) by (simp_all add: ba_pending_def ba_push_def wlan_get_bar_cache_buffer_def Let_def)
  moreover have "\<not> ba_ring_ok (ba_push x s)"
    using t ne k assms(2) by (simp add: ba_ring_ok_def ba_push_def wlan_get_bar_cache_buffer_def Let_def)
  ultimately show ?thesis
    by simp
qed

text \<open>C28. A BlockAck request is recorded exactly when it arrived without an error, has the length of a
  compressed request for one TID, and the record is appended to the responses that are due. When four
  are due, the new one takes the place of the oldest: it is answered first, and the oldest is lost.\<close>

theorem handle_bar_records:
  assumes "ba_ring_ok s"
  shows "(\<not> bar_accepted hdr len err s \<longrightarrow> handle_bar hdr len err s = s) \<and>
    (bar_accepted hdr len err s \<and> length (ba_pending s) < 4 \<longrightarrow>
       ba_ring_ok (handle_bar hdr len err s) \<and>
       ba_pending (handle_bar hdr len err s) = ba_pending s @ [bar_of (f_ram s) hdr]) \<and>
    (bar_accepted hdr len err s \<and> length (ba_pending s) = 4 \<longrightarrow>
       ba_pending (handle_bar hdr len err s) = bar_of (f_ram s) hdr # tl (ba_pending s))"
proof -
  have "length (ba_pending s) = 4 \<Longrightarrow> w_queued_ba (f_wlan s) = 4"
    by (simp add: ba_pending_def word_unat_eq_iff)
  then show ?thesis
    using ba_ring.push_last [OF assms] ba_push_full [OF assms] by (simp add: handle_bar_push)
qed

definition bar_state :: fw_state where
  "bar_state = f_ram_update (st16 0x110010 4) (zero_state default_config)"

theorem handle_bar_records_witness: "length (ba_pending (handle_bar 0x110000 24 0 bar_state)) = 1"
proof -
  have "ba_ring_ok bar_state" "ba_pending bar_state = []"
    by (simp_all add: ba_ring_ok_def ba_pending_def bar_state_def zero_state_def)
  moreover have "bar_accepted 0x110000 24 0 bar_state"
    by (simp add: bar_accepted_def bar_state_def)
  ultimately show ?thesis
    using handle_bar_records [of bar_state "0x110000" 24 0] by simp
qed

subsection \<open>The receive handler\<close>

text \<open>Classifying a frame changes neither the queues nor the filter.\<close>

definition rx_frame :: "fw_state \<Rightarrow> fw_state \<Rightarrow> bool" where
  "rx_frame s t \<longleftrightarrow> f_queues t = f_queues s \<and> f_descs t = f_descs s \<and>
     w_rx_filter (f_wlan t) = w_rx_filter (f_wlan s)"

lemma rx_frame_refl [simp]: "rx_frame s s"
  by (simp add: rx_frame_def)

lemma rx_frame_trans: "rx_frame s t \<Longrightarrow> rx_frame t u \<Longrightarrow> rx_frame s u"
  by (simp add: rx_frame_def)

lemma rx_frame_core: "same_core s t \<Longrightarrow> rx_frame s t"
  by (simp add: rx_frame_def fields_same_core)

lemma rx_frame_wol [simp]: "rx_frame s (f_wol_update g s)" "rx_frame s (wake_up_or b s)"
  by (simp_all add: rx_frame_def wake_up_or_def)

lemma rx_frame_disconnect: "rx_frame s (snd (wlan_rx_wol_disconnect f hdr s))"
  by (auto simp: wlan_rx_wol_disconnect_def Let_def split_beta
      intro: rx_frame_trans [OF rx_frame_core [OF same_core_clock] rx_frame_wol(1)])

lemma rx_frame_wake: "rx_frame s (wake_up_or b t) = rx_frame s t"
  by (simp add: rx_frame_def wake_up_or_def)

lemma rx_frame_if: "rx_frame s x \<Longrightarrow> rx_frame s y \<Longrightarrow> rx_frame s (if b then x else y)"
  by simp

lemma rx_frame_wol_rx: "rx_frame s (wol_rx f hdr len s)"
  by (simp add: wol_rx_def Let_def split_beta rx_frame_if rx_frame_wake rx_frame_disconnect split del: if_split)

lemma rx_frame_bar: "rx_frame s (handle_bar hdr len err s)"
  by (simp add: handle_bar_def Let_def wlan_get_bar_cache_buffer_def rx_frame_def)

lemma rx_frame_classify: "rx_frame s (snd (rx_classify hdr len err s))"
  by (simp add: rx_classify_def Let_def rx_frame_bar)

lemma rx_second_last_returns:
  assumes "chain (f_descs s) p" "p \<noteq> []" "poisoned s p"
  shows "\<exists>d. rx_second_last (hd p) s = Some d"
  using assms
proof (induction p)
  case (Cons x p)
  show ?case
  proof (cases p)
    case Nil
    then show ?thesis
      using Cons.prems by (subst rx_second_last.simps) (simp add: poisoned_def)
  next
    case (Cons y q)
    then have "dd_nextAddr (f_descs s x) = hd p" "chain (f_descs s) p" "p \<noteq> []" "poisoned s p"
      using Cons.prems by (simp_all add: poisoned_def)
    then show ?thesis
      using Cons.IH by (subst rx_second_last.simps) simp
  qed
qed simp

lemma rx_filter_returns:
  assumes "packet_ok (f_descs s) p" "poisoned s p"
  shows "\<exists>flt t. wlan_rx_filter (hd p) s = Some (flt, t) \<and> rx_frame s t"
proof -
  obtain err where err: "ar9170_get_rx_macstatus_error (hd p) s = Some err"
    using rx_second_last_returns [of s p] assms
    by (cases "dd_dataSize (f_descs s (last p)) = 1")
      (auto simp: ar9170_get_rx_macstatus_error_def Let_def packet_ok_def)
  have "\<exists>flt t. Some (flt, t) = Some x \<and> rx_frame s t" if "rx_frame s (snd x)" for x :: "u32 \<times> fw_state"
    using that by (cases x) simp
  then show ?thesis
    using err
    by (auto simp: wlan_rx_filter_def Let_def split_beta rx_frame_classify
        intro: rx_frame_trans [OF rx_frame_classify rx_frame_wol_rx])
qed

text \<open>One received packet goes to the host, or its blocks back to the hardware.\<close>

definition passed :: "fw_state \<Rightarrow> u32 list \<Rightarrow> (qref \<Rightarrow> u32 list list) \<Rightarrow> fw_state \<Rightarrow> (qref \<Rightarrow> u32 list list) \<Rightarrow> bool" where
  "passed s p Q s' Q' \<longleftrightarrow> (\<exists>p'. Q' = Q(UpQ := Q UpQ @ [p']) \<and> packet_contents s' p' = packet_contents s p)"

definition recycled :: "fw_state \<Rightarrow> u32 list \<Rightarrow> (qref \<Rightarrow> u32 list list) \<Rightarrow> fw_state \<Rightarrow> (qref \<Rightarrow> u32 list list) \<Rightarrow> bool" where
  "recycled s p Q s' Q' \<longleftrightarrow> (\<exists>xs. Q' = Q(RxQ := Q RxQ @ singles xs) \<and>
     map (\<lambda>x. dd_dataAddr (f_descs s' x)) xs = map (\<lambda>x. dd_dataAddr (f_descs s x)) p \<and>
     (\<forall>x \<in> set xs. free_block (f_descs s' x)))"

lemma rx_step_result:
  assumes "queues_ok s Q" "detached s Q p" "poisoned s p"
  shows "\<exists>s' Q'. rx_step (hd p) s = Some s' \<and> queues_ok s' Q' \<and>
     w_rx_filter (f_wlan s') = w_rx_filter (f_wlan s) \<and>
     (passed s p Q s' Q' \<or> recycled s p Q s' Q' \<and> w_rx_filter (f_wlan s) \<noteq> 0) \<and>
     (\<forall>x \<in> all_queues. \<forall>d \<in> set (concat (Q x)). f_descs s' d = f_descs s d)"
proof -
  have refs: "UpQ \<in> all_queues" "RxQ \<in> all_queues"
    by (simp_all add: all_queues_def)
  obtain flt t where t: "wlan_rx_filter (hd p) s = Some (flt, t)" "rx_frame s t"
    using rx_filter_returns [of s p] assms(2,3) by (auto simp: detached_def)
  have l: "same_links s t"
    using t(2) by (simp add: rx_frame_def same_links_def)
  have ok: "queues_ok t Q" "detached t Q p"
    using assms(1,2) queues_ok_links [OF l] detached_links [OF l] by simp_all
  have h: "f_descs t = f_descs s" "w_rx_filter (f_wlan t) = w_rx_filter (f_wlan s)"
    using t(2) by (simp_all add: rx_frame_def)
  show ?thesis
  proof (cases "flt AND w_rx_filter (f_wlan t) = 0")
    case True
    obtain u p' where u: "put UpQ (hd p) t = Some u" "queues_ok u (Q(UpQ := Q UpQ @ [p']))"
        "packet_contents u p' = packet_contents t p" "f_wlan u = f_wlan t"
      using put_detached [OF ok(1) refs(1) ok(2)] by (auto simp: with_queue_def)
    have "rx_step (hd p) s = Some (up_trigger u)"
      using t(1) True u(1) by (simp add: rx_step_def)
    moreover have "queues_ok (up_trigger u) (Q(UpQ := Q UpQ @ [p']))"
      using u(2) queues_ok_links [OF same_core_links [OF same_core_set_reg]] by (simp add: up_trigger_def)
    ultimately show ?thesis
      using u(3,4) h put_elsewhere [OF ok(1) refs(1) ok(2) u(1)]
      by (intro exI [of _ "up_trigger u"] exI [of _ "Q(UpQ := Q UpQ @ [p'])"])
        (auto simp: passed_def up_trigger_def set_reg_def packet_contents_def contents_def)
  next
    case False
    then have ne: "w_rx_filter (f_wlan s) \<noteq> 0"
      using h(2) by auto
    obtain u xs where u: "reclaim RxQ (hd p) t = Some u" "queues_ok u (Q(RxQ := Q RxQ @ singles xs))"
        "map (\<lambda>x. dd_dataAddr (f_descs u x)) xs = map (\<lambda>x. dd_dataAddr (f_descs t x)) p"
        "\<forall>x \<in> set xs. free_block (f_descs u x)" "f_wlan u = f_wlan t"
      using reclaim_detached [OF ok(1) refs(2) ok(2)] by (auto simp: with_queue_def)
    let ?v = "wlan_trigger AR9170_DMA_TRIGGER_RXQ u"
    have "rx_step (hd p) s = Some ?v"
      using t(1) False u(1) by (simp add: rx_step_def)
    moreover have "queues_ok ?v (Q(RxQ := Q RxQ @ singles xs))"
      using u(2) queues_ok_links [OF same_core_links [OF same_core_set_reg]] by (simp add: wlan_trigger_def)
    ultimately show ?thesis
      using u(3-5) h ne reclaim_elsewhere [OF ok(1) refs(2) ok(2) u(1)]
      by (intro exI [of _ ?v] exI [of _ "Q(RxQ := Q RxQ @ singles xs)"])
        (auto simp: recycled_def wlan_trigger_def set_reg_def)
  qed
qed

text \<open>The buffers of the receive ring and of the queue to the host.\<close>

definition rx_buffers :: "fw_state \<Rightarrow> (qref \<Rightarrow> u32 list list) \<Rightarrow> u32 multiset" where
  "rx_buffers s Q = mset (map (\<lambda>d. dd_dataAddr (f_descs s d)) (concat (Q RxQ))) +
     mset (map (\<lambda>d. dd_dataAddr (f_descs s d)) (concat (Q UpQ)))"

text \<open>What holds after some of the received packets \<^verbatim>\<open>did\<close> were treated, from the state \<^verbatim>\<open>s0\<close> on.\<close>

definition rx_inv :: "fw_state \<Rightarrow> (qref \<Rightarrow> u32 list list) \<Rightarrow> fw_state \<Rightarrow> (qref \<Rightarrow> u32 list list) \<Rightarrow> u32 list list \<Rightarrow> bool" where
  "rx_inv s0 Q0 s Q did \<longleftrightarrow> w_rx_filter (f_wlan s) = w_rx_filter (f_wlan s0) \<and>
     (\<forall>x. x \<noteq> UpQ \<longrightarrow> x \<noteq> RxQ \<longrightarrow> Q x = Q0 x) \<and> rx_buffers s Q = rx_buffers s0 Q0 \<and>
     (\<forall>p \<in> set (Q RxQ). own_bits s p \<noteq> AR9170_OWN_BITS_HW \<longrightarrow> packet_contents s p = packet_contents s0 p) \<and>
     (\<exists>ks. subseq ks (map (packet_contents s0) did) \<and>
        map (packet_contents s) (Q UpQ) = map (packet_contents s0) (Q0 UpQ) @ ks \<and>
        (w_rx_filter (f_wlan s0) = 0 \<longrightarrow> ks = map (packet_contents s0) did))"

lemma contents_addr: "packet_contents t q = packet_contents s p \<Longrightarrow>
    map (\<lambda>d. dd_dataAddr (f_descs t d)) q = map (\<lambda>d. dd_dataAddr (f_descs s d)) p"
  by (drule arg_cong [of _ _ "map fst"]) (simp add: packet_contents_def contents_def comp_def)

lemma unlink_addr:
  assumes "queues_ok s Q" "r \<in> all_queues" "unlink_head r s = (d, s1)"
  shows "dd_dataAddr (f_descs s1 x) = dd_dataAddr (f_descs s x)"
  using fw.take_view [OF assms(1,2), of "[x]"] assms(3) by (simp add: packet_contents_def contents_def)

lemma unlink_contents:
  "queues_ok s Q \<Longrightarrow> r \<in> all_queues \<Longrightarrow> unlink_head r s = (d, s1) \<Longrightarrow> packet_contents s1 x = packet_contents s x"
  using fw.take_view [of s Q r x] by simp


lemma rx_inv_step:
  assumes ok: "queues_ok s Q" and inv: "rx_inv s0 Q0 s Q did" and q: "Q RxQ = p # ps @ R"
    and R: "blocked AR9170_OWN_BITS_HW s R" and own: "own_bits s p \<noteq> AR9170_OWN_BITS_HW"
  shows "\<exists>s1 s2 Q2 R2. unlink_head RxQ s = (Some (hd p), s1) \<and> rx_step (hd p) s1 = Some s2 \<and>
     queues_ok s2 Q2 \<and> rx_inv s0 Q0 s2 Q2 (did @ [p]) \<and> Q2 RxQ = ps @ R2 \<and> blocked AR9170_OWN_BITS_HW s2 R2 \<and>
     (\<forall>p' \<in> set ps. own_bits s2 p' = own_bits s p')"
proof -
  let ?Q = "Q(RxQ := ps @ R)"
  have refs: "UpQ \<in> all_queues" "RxQ \<in> all_queues"
    by (simp_all add: all_queues_def)
  obtain s1 where s1: "unlink_head RxQ s = (Some (hd p), s1)" "queues_ok s1 ?Q" "detached s1 ?Q p"
      "f_wlan s1 = f_wlan s"
    using unlink_head_first [OF ok refs(2) q] by (auto simp: with_queue_def)
  note c1 = unlink_contents [OF ok refs(2) s1(1)]
  obtain s2 Q2 where s2: "rx_step (hd p) s1 = Some s2" "queues_ok s2 Q2"
      "w_rx_filter (f_wlan s2) = w_rx_filter (f_wlan s1)"
      "passed s1 p ?Q s2 Q2 \<or> recycled s1 p ?Q s2 Q2 \<and> w_rx_filter (f_wlan s1) \<noteq> 0"
      "\<forall>x \<in> all_queues. \<forall>d \<in> set (concat (?Q x)). f_descs s2 d = f_descs s1 d"
    using rx_step_result [OF s1(2,3) unlinked_poisoned [OF ok refs(2) q s1(1)]] by blast
  have c2: "packet_contents s2 y = packet_contents s1 y" if "y \<in> set (?Q x)" "x \<in> all_queues" for x y
  proof -
    have "\<forall>d \<in> set y. f_descs s2 d = f_descs s1 d"
      using s2(5) that by auto
    then show ?thesis
      by (simp add: packet_contents_def contents_def)
  qed
  have o2: "own_bits s2 y = own_bits s y" if "y \<in> set (ps @ R)" for y
    using own_bits_elsewhere [OF s1(2) refs(2), of y s2] s2(5) refs(2) that
      own_bits_unlink [OF ok refs(2) q s1(1), of y] by simp
  have R2: "blocked AR9170_OWN_BITS_HW s2 R"
    using R blocked_cong [of R s2 s] o2 by simp
  have "\<forall>d \<in> set (concat (ps @ R)). dd_dataAddr (f_descs s2 d) = dd_dataAddr (f_descs s d)"
      "\<forall>d \<in> set (concat (Q UpQ)). dd_dataAddr (f_descs s2 d) = dd_dataAddr (f_descs s d)"
    using bspec [OF s2(5) refs(2)] bspec [OF s2(5) refs(1)] unlink_addr [OF ok refs(2) s1(1)]
    by (simp_all del: set_concat)
  then have addr: "map (\<lambda>d. dd_dataAddr (f_descs s2 d)) (concat (ps @ R)) = map (\<lambda>d. dd_dataAddr (f_descs s d)) (concat (ps @ R))"
      "map (\<lambda>d. dd_dataAddr (f_descs s2 d)) (concat (Q UpQ)) = map (\<lambda>d. dd_dataAddr (f_descs s d)) (concat (Q UpQ))"
    by (simp_all only: map_eq_conv)
  have up: "map (packet_contents s2) (Q UpQ) = map (packet_contents s) (Q UpQ)"
    using c2 [of _ UpQ] c1 refs by simp
  have pc: "packet_contents s p = packet_contents s0 p"
    using inv q own by (simp add: rx_inv_def)
  obtain ks where ks: "subseq ks (map (packet_contents s0) did)"
      "map (packet_contents s) (Q UpQ) = map (packet_contents s0) (Q0 UpQ) @ ks"
      "w_rx_filter (f_wlan s0) = 0 \<longrightarrow> ks = map (packet_contents s0) did"
    using inv by (auto simp: rx_inv_def)
  have rest: "packet_contents s2 y = packet_contents s0 y"
    if "y \<in> set (ps @ R)" "own_bits s2 y \<noteq> AR9170_OWN_BITS_HW" for y
    using inv that o2 [OF that(1)] c2 [of y RxQ] c1 [of y] refs(2) q by (auto simp: rx_inv_def)
  have buf: "rx_buffers s Q = rx_buffers s0 Q0"
    using inv by (simp add: rx_inv_def)
  from s2(4) show ?thesis
  proof
    assume "passed s1 p ?Q s2 Q2"
    then obtain p' where p': "Q2 = ?Q(UpQ := Q UpQ @ [p'])" "packet_contents s2 p' = packet_contents s p"
      using c1 by (auto simp: passed_def)
    have "rx_buffers s2 Q2 = rx_buffers s Q"
      using addr contents_addr [OF p'(2)] p'(1) q
      by (simp add: rx_buffers_def del: concat_append map_eq_conv mset_map) (simp del: map_eq_conv mset_map)
    moreover have "\<exists>ks. subseq ks (map (packet_contents s0) (did @ [p])) \<and>
        map (packet_contents s2) (Q2 UpQ) = map (packet_contents s0) (Q0 UpQ) @ ks \<and>
        (w_rx_filter (f_wlan s0) = 0 \<longrightarrow> ks = map (packet_contents s0) (did @ [p]))"
      using ks up p' pc by (intro exI [of _ "ks @ [packet_contents s0 p]"]) (auto intro: list_emb_append_mono)
    ultimately have "rx_inv s0 Q0 s2 Q2 (did @ [p])"
      using inv buf s2(3) s1(4) rest p'(1) unfolding rx_inv_def by simp
    then show ?thesis
      using s1(1) s2(1,2) p'(1) R2 o2 by (intro exI [of _ s1] exI [of _ s2] exI [of _ Q2] exI [of _ R]) simp
  next
    assume "recycled s1 p ?Q s2 Q2 \<and> w_rx_filter (f_wlan s1) \<noteq> 0"
    then obtain xs where xs: "Q2 = ?Q(RxQ := (ps @ R) @ singles xs)"
        "map (\<lambda>x. dd_dataAddr (f_descs s2 x)) xs = map (\<lambda>x. dd_dataAddr (f_descs s x)) p"
        "\<forall>x \<in> set xs. free_block (f_descs s2 x)" "w_rx_filter (f_wlan s0) \<noteq> 0"
      using unlink_addr [OF ok refs(2) s1(1)] inv s1(4) by (auto simp: recycled_def rx_inv_def)
    have free: "own_bits s2 y = AR9170_OWN_BITS_HW" if "y \<in> set (singles xs)" for y
      using that xs(3) free_block_own by (auto simp: singles_def)
    have "rx_buffers s2 Q2 = rx_buffers s Q"
      using addr xs(1,2) q
      by (simp add: rx_buffers_def del: concat_append map_eq_conv mset_map) (simp del: map_eq_conv mset_map)
    moreover have "\<exists>ks. subseq ks (map (packet_contents s0) (did @ [p])) \<and>
        map (packet_contents s2) (Q2 UpQ) = map (packet_contents s0) (Q0 UpQ) @ ks \<and>
        (w_rx_filter (f_wlan s0) = 0 \<longrightarrow> ks = map (packet_contents s0) (did @ [p]))"
      using ks up xs(1,4) by (intro exI [of _ ks]) (auto intro: list_emb_append2)
    ultimately have "rx_inv s0 Q0 s2 Q2 (did @ [p])"
      using inv buf s2(3) s1(4) rest free xs(1) unfolding rx_inv_def by auto
    moreover have "blocked AR9170_OWN_BITS_HW s2 (R @ singles xs)"
      using blocked_append [OF R2] free by blast
    ultimately show ?thesis
      using s1(1) s2(1,2) xs(1) o2 by (intro exI [of _ s1] exI [of _ s2] exI [of _ Q2] exI [of _ "R @ singles xs"]) simp
  qed
qed

text \<open>C5. The receive interrupt returns for every content of the received frames. It treats exactly the
  packets the hardware has completed, stops at the first block the hardware owns, and loses
  nothing: the packets that are passed on join the queue to the host complete and in order of arrival,
  every buffer is afterwards in the receive ring or in that queue, the other queues are untouched,
  and with an empty filter every completed packet is passed on.\<close>

theorem handle_wlan_rx_no_loss:
  assumes "queues_ok s Q"
  shows "\<exists>s' Q' ks. handle_wlan_rx s = Some s' \<and> queues_ok s' Q' \<and>
     blocked AR9170_OWN_BITS_HW s' (Q' RxQ) \<and>
     subseq ks (map (packet_contents s) (ready AR9170_OWN_BITS_HW s (Q RxQ))) \<and>
     map (packet_contents s') (Q' UpQ) = map (packet_contents s) (Q UpQ) @ ks \<and>
     rx_buffers s' Q' = rx_buffers s Q \<and> (\<forall>x. x \<noteq> UpQ \<longrightarrow> x \<noteq> RxQ \<longrightarrow> Q' x = Q x) \<and>
     (w_rx_filter (f_wlan s) = 0 \<longrightarrow> ks = map (packet_contents s) (ready AR9170_OWN_BITS_HW s (Q RxQ)))"
proof -
  have r: "RxQ \<in> all_queues"
    by (simp add: all_queues_def)
  obtain R where R: "Q RxQ = ready AR9170_OWN_BITS_HW s (Q RxQ) @ R" "blocked AR9170_OWN_BITS_HW s R"
    using ready_split by metis
  have i: "rx_inv s Q s Q []"
    by (simp add: rx_inv_def)
  have "\<exists>s' Q'. for_each_desc_not_bits rx_step RxQ AR9170_OWN_BITS_HW s = Some s' \<and> queues_ok s' Q' \<and>
      rx_inv s Q s' Q' ([] @ ready AR9170_OWN_BITS_HW s (Q RxQ)) \<and> blocked AR9170_OWN_BITS_HW s' (Q' RxQ)"
  proof (rule for_each_not_bits_steps [where I = "rx_inv s Q", OF assms r i R(1) _ R(2)])
    show "\<And>p. p \<in> set (ready AR9170_OWN_BITS_HW s (Q RxQ)) \<Longrightarrow> own_bits s p \<noteq> AR9170_OWN_BITS_HW"
      by (rule ready_ne)
  qed (rule rx_inv_step)
  then obtain s' Q' where s': "for_each_desc_not_bits rx_step RxQ AR9170_OWN_BITS_HW s = Some s'" "queues_ok s' Q'"
      "rx_inv s Q s' Q' (ready AR9170_OWN_BITS_HW s (Q RxQ))" "blocked AR9170_OWN_BITS_HW s' (Q' RxQ)"
    by auto
  then show ?thesis
    unfolding rx_inv_def handle_wlan_rx_def by blast
qed


text \<open>A completed frame at the head of the receive ring.\<close>

lemma one_received:
  "\<exists>s p. queues_ok s ((\<lambda>_. [])(RxQ := [p])) \<and> ready AR9170_OWN_BITS_HW s [p] = [p] \<and>
     w_rx_filter (f_wlan s) = 0"
proof -
  have r: "RxQ \<in> all_queues"
    by (simp add: all_queues_def)
  have ok: "queues_ok held_state (\<lambda>_. [])"
    by (rule queues_ok_init) (simp add: held_state_def)
  have "detached held_state (\<lambda>_. []) [0x100]"
    using low_not_terminator [of _ "0x100"] init_queues_index
    by (auto simp: detached_def packet_ok_def queue_set_def held_state_def held_desc_def init_queue_def)
  from put_detached [OF ok r this] obtain s1 p where s1: "queues_ok s1 ((\<lambda>_. [])(RxQ := [p]))" "p \<noteq> []"
      "f_wlan s1 = f_wlan held_state"
    by (auto simp: with_queue_def)
  let ?s = "upd_desc (hd p) (dd_status_update (\<lambda>_. 0)) s1"
  have "same_links s1 ?s"
    by (simp add: same_links_def upd_desc_def)
  then have "queues_ok ?s ((\<lambda>_. [])(RxQ := [p]))"
    using s1(1) queues_ok_links by blast
  moreover have "ready AR9170_OWN_BITS_HW ?s [p] = [p]"
    by (simp add: ready_def own_bits_def upd_desc_def)
  moreover have "w_rx_filter (f_wlan ?s) = 0"
    by (simp add: upd_desc_def s1(3) held_state_def zero_state_def)
  ultimately show ?thesis
    by blast
qed

theorem handle_wlan_rx_no_loss_witness:
  "\<exists>s p s' Q'. handle_wlan_rx s = Some s' \<and> queues_ok s' Q' \<and>
     map (packet_contents s') (Q' UpQ) = [packet_contents s p]"
proof -
  obtain s p where s: "queues_ok s ((\<lambda>_. [])(RxQ := [p]))" "ready AR9170_OWN_BITS_HW s [p] = [p]"
      "w_rx_filter (f_wlan s) = 0"
    using one_received by blast
  then have "ready AR9170_OWN_BITS_HW s (((\<lambda>_. [])(RxQ := [p])) RxQ) = [p]"
    by simp
  from handle_wlan_rx_no_loss [OF s(1), unfolded this] s(3) obtain s' Q' where
    "handle_wlan_rx s = Some s'" "queues_ok s' Q'" "map (packet_contents s') (Q' UpQ) = [packet_contents s p]"
    by auto
  then show ?thesis
    by (intro exI conjI)
qed

subsection \<open>Short frames\<close>

definition rx_overhead :: "u8 \<Rightarrow> nat" where
  "rx_overhead st = (if st = AR9170_RX_STATUS_MPDU_LAST then 24 else if st = AR9170_RX_STATUS_MPDU_SINGLE then 36
     else if st = AR9170_RX_STATUS_MPDU_FIRST then 16 else 4)"

text \<open>The computed length of a received frame is its total length without the status of its kind, and
  for a frame shorter than that status the unsigned subtraction wraps: the length is then above any
  real one, and the check of \<^verbatim>\<open>wlan_rx_filter\<close> for short frames does not catch the frame.\<close>

theorem rx_mpdu_len_wraps:
  "unat (ar9170_get_rx_mpdu_len desc s) =
     (let overhead = rx_overhead (ar9170_get_rx_macstatus_status desc s AND AR9170_RX_STATUS_MPDU);
          len = unat (dd_totalLen (f_descs s desc))
      in if overhead \<le> len then len - overhead else 4294967296 + len - overhead)"
proof -
  let ?st = "ar9170_get_rx_macstatus_status desc s AND AR9170_RX_STATUS_MPDU"
  let ?len = "unat (dd_totalLen (f_descs s desc))"
  have t: "unat (ucast (dd_totalLen (f_descs s desc)) :: u32) = ?len" "?len < 65536"
    using unsigned_less [of "dd_totalLen (f_descs s desc)", where ?'a = nat] by simp_all
  have "ar9170_get_rx_mpdu_len desc s = ucast (dd_totalLen (f_descs s desc)) - of_nat (rx_overhead ?st)"
    by (simp add: ar9170_get_rx_mpdu_len_def Let_def rx_overhead_def)
  moreover have "rx_overhead ?st \<le> 36"
    by (simp add: rx_overhead_def)
  ultimately show ?thesis
    using t by (simp add: unat_sub_if_size word_size Let_def) linarith
qed

end
