(* ===== verification/Rf.thy ===== *)
theory Rf
  imports Wl
begin

text \<open>The radio (carlfw/src/rf.c): channel changes, the calibration of the baseband, and the power save
  steps that \<^verbatim>\<open>handle_pretbtt\<close> makes once per beacon interval. \<^verbatim>\<open>cmd\<close> and \<^verbatim>\<open>resp\<close> are the addresses
  of the command and of the response slot; a payload starts four bytes later.\<close>

definition set_channel_end :: "fw_state \<Rightarrow> fw_state" where
  "set_channel_end s =
     (let s = set_reg AR9170_PHY_REG_CCA_THRESHOLD 0 s;
          s = andl AR9170_MAC_REG_QOS_PRIORITY_VIRTUAL_CCA (NOT AR9170_MAC_VIRTUAL_CCA_ALL) s
      in f_phy_update (p_state_update (\<lambda>_. CARL9170_PHY_ON)) s)"

definition rf_notify_set_channel :: "fw_state \<Rightarrow> fw_state" where
  "rf_notify_set_channel s =
     (let s = set_reg AR9170_PHY_REG_CCA_THRESHOLD 0x300 s;
          s = orl AR9170_MAC_REG_QOS_PRIORITY_VIRTUAL_CCA AR9170_MAC_VIRTUAL_CCA_ALL s;
          s = f_tally_update (\<lambda>t. t\<lparr> ta_active := 0, ta_cca := 0, ta_tx_time := 0 \<rparr>) s
      in f_phy_update (p_state_update (\<lambda>_. CARL9170_PHY_OFF)) s)"

definition hw_turn_off_dyn :: "u32 \<Rightarrow> u32 \<Rightarrow> u32 \<Rightarrow> u32 \<Rightarrow> fw_state \<Rightarrow> fw_state" where
  "hw_turn_off_dyn exp man exp_shgi man_shgi s =
     (let (v, s) = get_async AR9170_PHY_REG_TIMING3 s; tmp = v AND 0x1fff;
          tmp = tmp OR (push_bit AR9170_PHY_TIMING3_DSC_MAN_S man AND AR9170_PHY_TIMING3_DSC_MAN);
          tmp = tmp OR (push_bit AR9170_PHY_TIMING3_DSC_EXP_S exp AND AR9170_PHY_TIMING3_DSC_EXP);
          s = set_reg AR9170_PHY_REG_TIMING3 tmp s;
          tmp = push_bit AR9170_PHY_HALFGI_DSC_MAN_S man_shgi AND AR9170_PHY_HALFGI_DSC_MAN;
          tmp = tmp OR (push_bit AR9170_PHY_HALFGI_DSC_EXP_S exp_shgi AND AR9170_PHY_HALFGI_DSC_EXP)
      in set_reg AR9170_PHY_REG_HALFGI tmp s)"

text \<open>The values that \<^verbatim>\<open>program_ADDAC\<close> shifts into the register \<^verbatim>\<open>0x1c589c\<close>, in order.\<close>

definition addac_words :: "u32 list" where
  "addac_words = [0, 0, 0, 0, 0, 0, 0, 0, 0, 0, 0, 0, 0, 0, 0, 0, 0, 0, 0, 0x30,
     0x4, 0, 0, 0, 0, 0, 0, 0, 0]"

definition program_ADDAC :: "fw_state \<Rightarrow> fw_state option" where
  "program_ADDAC s =
     do { let s = set_reg AR9170_PHY_REG_ADC_SERIAL_CTL AR9170_PHY_ADC_SCTL_SEL_EXTERNAL_RADIO s;
          s \<leftarrow> delay 10 s;
          let s = fold (set_reg 0x1c589c) addac_words s;
          let s = set_reg 0x1c58c4 0 s;
          s \<leftarrow> delay 10 s;
          Some (set_reg AR9170_PHY_REG_ADC_SERIAL_CTL AR9170_PHY_ADC_SCTL_SEL_INTERNAL_ADDAC s) }"

abbreviation AGC_CAL_NF :: u32 where
  "AGC_CAL_NF \<equiv> AR9170_PHY_AGC_CONTROL_CAL OR AR9170_PHY_AGC_CONTROL_NF"

text \<open>\<^verbatim>\<open>while ((ret != 0) && loop--)\<close>: the first argument is \<^verbatim>\<open>loop\<close>.\<close>

primrec agc_loop :: "nat \<Rightarrow> u32 \<Rightarrow> fw_state \<Rightarrow> (u32 \<times> fw_state) option" where
  "agc_loop 0 ret s = Some (ret, s)"
| "agc_loop (Suc n) ret s =
     (if ret \<noteq> 0 then
        do { s \<leftarrow> udelay 100 s;
             let (v, s) = get_async AR9170_PHY_REG_AGC_CONTROL s;
             agc_loop n (v AND AGC_CAL_NF) s }
      else Some (ret, s))"

definition AGC_calibration :: "u32 \<Rightarrow> fw_state \<Rightarrow> (u32 \<times> fw_state) option" where
  "AGC_calibration n s =
     (let (v, s) = get_async AR9170_PHY_REG_AGC_CONTROL s;
          s = set_reg AR9170_PHY_REG_AGC_CONTROL (v OR AGC_CAL_NF) s;
          (v, s) = get_async AR9170_PHY_REG_AGC_CONTROL s
      in agc_loop (unat n) (v AND AGC_CAL_NF) s)"

definition rf_init :: "u32 \<Rightarrow> u32 \<Rightarrow> u32 \<Rightarrow> u32 \<Rightarrow> u32 \<Rightarrow> bool \<Rightarrow> fw_state \<Rightarrow> (u32 \<times> fw_state) option" where
  "rf_init exp man exp_shgi man_shgi finiteLoopCount initialize s =
     do { let s = hw_turn_off_dyn exp man exp_shgi man_shgi s;
          s \<leftarrow> (if initialize then
                  do { s \<leftarrow> program_ADDAC s;
                       let s = set_reg AR9170_PHY_REG_ANALOG_SWAP AR9170_PHY_ANALOG_SWAP_AB s;
                       let s = set_reg AR9170_PHY_REG_ANALOG_SWAP
                                 (AR9170_PHY_ANALOG_SWAP_AB OR AR9170_PHY_ANALOG_SWAP_ALT_CHAIN) s;
                       let s = set_reg AR9170_PHY_REG_ACTIVE AR9170_PHY_ACTIVE_EN s;
                       delay 10 s }
                else Some s);
          (ret, s) \<leftarrow> AGC_calibration finiteLoopCount s;
          Some (ret, set_channel_end s) }"

definition rf_cmd :: "u32 \<Rightarrow> u32 \<Rightarrow> fw_state \<Rightarrow> fw_state option" where
  "rf_cmd cmd resp s =
     (let arg = (\<lambda>i s. ld32 (f_ram s) (cmd + 4 + 4 * i));
          s = f_phy_update (p_ht_settings_update (\<lambda>_. ucast (f_ram s (cmd + 8)))) s;
          s = f_phy_update (p_frequency_update (\<lambda>_. arg 0 s)) s;
          s = (if cf_80mhz (f_cfg s) \<and>
                  p_ht_settings (f_phy s) AND (CARL9170FW_PHY_HT_ENABLE OR CARL9170FW_PHY_HT_DYN2040) =
                    CARL9170FW_PHY_HT_ENABLE OR CARL9170FW_PHY_HT_DYN2040
               then clock_set AHB_80_88MHZ True s else clock_set AHB_40_44MHZ True s)
      in do { (ret, s) \<leftarrow> rf_init (arg 2 s) (arg 3 s) (arg 4 s) (arg 5 s) (arg 6 s)
                 (f_ram s (cmd + 1) = CARL9170_CMD_RF_INIT) s;
              let s = f_ram_update (st8 resp 4) s;
              Some (f_ram_update (st32 (resp + 4) ret) s) })"

definition rf_bank3 :: "u32 \<Rightarrow> fw_state \<Rightarrow> fw_state" where
  "rf_bank3 bank3 s =
     set_reg 0x1c58f0 (if p_frequency (f_phy s) < 3000000 then bank3 OR 0x00800000 else bank3) s"

definition rf_psm :: "fw_state \<Rightarrow> fw_state" where
  "rf_psm s =
     (if p_psm_state (f_phy s) = CARL9170_PSM_SOFTWARE then s
      else if p_psm_state (f_phy s) AND CARL9170_PSM_SLEEP \<noteq> 0 then
        let s = f_phy_update (p_psm_state_update (\<lambda>p. p AND NOT CARL9170_PSM_SLEEP)) s;
            s = set_reg AR9170_PHY_REG_TEST2 0x8000000 s;
            s = set_reg AR9170_PHY_REG_ADC_CTL
                  (AR9170_PHY_ADC_CTL_OFF_PWDDAC OR AR9170_PHY_ADC_CTL_OFF_PWDADC OR 0xa0000000) s;
            s = f_phy_update (p_state_update (\<lambda>_. CARL9170_PHY_OFF)) s
        in rf_bank3 0x00400018 s
      else
        let s = f_phy_update (p_psm_state_update (\<lambda>p. p - 1)) s
        in if p_psm_state (f_phy s) = CARL9170_PSM_WAKE then
             let s = set_reg AR9170_PHY_REG_ADC_CTL (AR9170_PHY_ADC_CTL_OFF_PWDDAC OR AR9170_PHY_ADC_CTL_OFF_PWDADC) s;
                 s = set_reg AR9170_PHY_REG_TEST2 0 s;
                 s = f_phy_update (p_state_update (\<lambda>_. CARL9170_PHY_ON)) s
             in rf_bank3 0x01420098 s
           else s)"

subsection \<open>Power save\<close>

lemma rf_psm_phy:
  "f_phy (rf_psm s) =
     (let p = p_psm_state (f_phy s)
      in if p = 0 then f_phy s
         else if p AND CARL9170_PSM_SLEEP \<noteq> 0 then
           (f_phy s)\<lparr> p_psm_state := p AND NOT CARL9170_PSM_SLEEP, p_state := CARL9170_PHY_OFF \<rparr>
         else if p = 1 then (f_phy s)\<lparr> p_psm_state := 0, p_state := CARL9170_PHY_ON \<rparr>
         else (f_phy s)\<lparr> p_psm_state := p - 1 \<rparr>)"
  by (simp add: rf_psm_def Let_def rf_bank3_def set_reg_def)

lemma low_count:
  fixes w :: u32
  assumes "unat w \<le> 0xfff"
  shows "w AND 0x1000 = 0" "(0x1000 OR w) AND NOT 0x1000 = w"
proof -
  have "take_bit 12 w = w"
    using assms by (simp add: word_unat_eq_iff unsigned_take_bit_eq take_bit_nat_eq_self)
  then have b: "\<not> bit w 12"
    by (metis bit_take_bit_iff less_irrefl)
  then show z: "w AND 0x1000 = 0"
    using and_exp_eq_0_iff_not_bit [of w 12] by simp
  show "(0x1000 OR w) AND NOT 0x1000 = w"
  proof (rule bit_word_eqI)
    fix n
    assume n: "n < LENGTH(32)"
    have "\<not> (bit w n \<and> bit (0x1000 :: u32) n)"
      using z by (metis bit_and_iff bit_0_eq bot_apply bot_bool_def)
    then show "bit ((0x1000 OR w) AND NOT 0x1000) n = bit w n"
      using n by (simp only: bit_and_iff bit_or_iff bit_not_iff) auto
  qed
qed

text \<open>The count-down of a sleeping radio.\<close>

lemma psm_count_down:
  assumes "p_psm_state (f_phy s) = of_nat n" "k < n" "n \<le> 0xfff"
  shows "f_phy ((rf_psm ^^ k) s) = (f_phy s)\<lparr> p_psm_state := of_nat (n - k) \<rparr>"
  using assms(2)
proof (induction k)
  case (Suc k)
  have n: "Suc (n - Suc k) = n - k" "n - k \<noteq> 1" "n - k \<noteq> 0" "n - k \<le> 0xfff"
    using Suc.prems assms(3) by auto
  let ?t = "(rf_psm ^^ k) s" and ?w = "of_nat (n - k) :: u32"
  have t: "f_phy ?t = (f_phy s)\<lparr> p_psm_state := ?w \<rparr>"
    using Suc by simp
  have w: "unat ?w = n - k"
    using n(4) by simp
  have "?w - 1 = of_nat (n - Suc k)"
    using n(1) by (metis add_diff_cancel_left' of_nat_Suc)
  moreover have "?w \<noteq> 0" "?w \<noteq> 1" "?w AND 0x1000 = 0"
    using w n low_count(1) [of ?w] by (auto simp: word_unat_eq_iff)
  ultimately show ?case
    using t by (simp add: rf_psm_phy Let_def)
qed (use assms in simp)

lemma psm_software: "p_psm_state (f_phy s) = 0 \<Longrightarrow> (rf_psm ^^ k) s = s"
  by (induction k) (simp_all add: rf_psm_def)

text \<open>C30. A radio that is put to sleep for \<^verbatim>\<open>n\<close> beacon intervals (the state \<^verbatim>\<open>SLEEP | n\<close>, \<^verbatim>\<open>n\<close> at most
  4095) is switched off by the next step and on again by the \<^verbatim>\<open>n\<close>-th step after that, not earlier;
  then it stays on. With \<^verbatim>\<open>n\<close> = 0 it stays off: no later step wakes it.\<close>

theorem rf_psm_wakes:
  assumes "p_psm_state (f_phy s) = CARL9170_PSM_SLEEP OR of_nat n" "n \<le> 0xfff" "1 \<le> k"
  shows "p_state (f_phy ((rf_psm ^^ k) s)) = (if k \<le> n \<or> n = 0 then CARL9170_PHY_OFF else CARL9170_PHY_ON) \<and>
    (n < k \<longrightarrow> p_psm_state (f_phy ((rf_psm ^^ k) s)) = 0)"
proof -
  let ?t = "rf_psm s"
  have un: "unat (of_nat n :: u32) = n"
    using assms(2) by simp
  have "f_phy ?t = (f_phy s)\<lparr> p_psm_state := of_nat n, p_state := CARL9170_PHY_OFF \<rparr>"
    using low_count [of "of_nat n"] un assms(1,2) by (simp add: rf_psm_phy Let_def or_eq_0_iff)
  then have t: "p_psm_state (f_phy ?t) = of_nat n" "p_state (f_phy ?t) = CARL9170_PHY_OFF"
    by simp_all
  obtain j where j: "k = Suc j"
    using assms(3) by (cases k) simp_all
  have step: "(rf_psm ^^ k) s = (rf_psm ^^ j) ?t"
    using j by (simp add: funpow_Suc_right del: funpow.simps)
  consider (off) "j < n" | (none) "n = 0" | (on) "0 < n" "n \<le> j"
    by linarith
  then show ?thesis
  proof cases
    case off
    then show ?thesis
      using psm_count_down [OF t(1) off assms(2)] t(2) j unfolding step by simp
  next
    case none
    then show ?thesis
      using psm_software [of ?t j] t unfolding step by simp
  next
    case on
    let ?u = "(rf_psm ^^ (n - 1)) ?t"
    have u: "p_psm_state (f_phy ?u) = 1"
      using psm_count_down [OF t(1), of "n - 1"] on assms(2) by simp
    have v: "p_psm_state (f_phy (rf_psm ?u)) = 0" "p_state (f_phy (rf_psm ?u)) = CARL9170_PHY_ON"
      using u by (simp_all add: rf_psm_phy Let_def)
    have "j = (j - n) + Suc (n - 1)"
      using on by simp
    then have "(rf_psm ^^ j) ?t = (rf_psm ^^ (j - n)) (rf_psm ?u)"
      by (metis comp_apply funpow.simps(2) funpow_add)
    then show ?thesis
      using psm_software [OF v(1), of "j - n"] v on j unfolding step by simp
  qed
qed

definition sleeping_state :: fw_state where
  "sleeping_state = f_phy_update (p_psm_state_update (\<lambda>_. 0x1003)) (zero_state default_config)"

theorem rf_psm_wakes_witness:
  "p_state (f_phy ((rf_psm ^^ 3) sleeping_state)) = CARL9170_PHY_OFF \<and>
   p_state (f_phy ((rf_psm ^^ 4) sleeping_state)) = CARL9170_PHY_ON"
  using rf_psm_wakes [of sleeping_state 3 3] rf_psm_wakes [of sleeping_state 3 4]
  by (simp add: sleeping_state_def zero_state_def del: funpow.simps)

end
