(* ===== verification/TxCompletion.thy ===== *)
theory TxCompletion
  imports TxPath
begin

text \<open>The transmit completion interrupt (\<^verbatim>\<open>handle_wlan_tx_completion\<close>, carlfw/src/wlantx.c): it returns
  for every state with well-formed queues, keeps them well formed, and leaves no frame in the
  retry queue.\<close>

subsection \<open>One status\<close>

lemma queues_okD: "queues_ok s Q \<Longrightarrow> r \<in> all_queues \<Longrightarrow> queue_is r s (Q r)"
  by (simp add: queues_ok_def)

lemma queues_ok_core: "same_core s t \<Longrightarrow> queues_ok t Q = queues_ok s Q"
  using queues_ok_links [OF same_core_links] by simp

lemma queue_is_walk:
  assumes "queue_is r s ps"
  shows "\<exists>x. walk_desc_bits (f_queues s r) bits (q_head (f_queues s r)) (f_descs s) = Some x"
  using walk_desc_bits_stops [of "f_descs s" "q_head (f_queues s r)" ps "f_queues s r" bits] assms
  by (auto simp: queue_ok_def)

lemma txunstuck_returns:
  assumes "queues_ok s Q" "i < 5"
  shows "\<exists>s'. wlan_txunstuck i s = Some s' \<and> same_core s s'"
proof -
  have "TxQ i \<in> all_queues"
    using assms(2) by (simp add: all_queues_def)
  from queue_is_walk [OF queues_okD [OF assms(1) this]] obtain x where
    "walk_desc_bits (f_queues s (TxQ i)) 0 (q_head (f_queues s (TxQ i))) (f_descs s) = Some x"
    by blast
  then show ?thesis
    by (auto simp: wlan_txunstuck_def Let_def wlan_trigger_def set_wlan_txq_dma_addr_def
        intro: same_core_trans [OF same_core_set_reg same_core_set_reg])
qed

lemma links_complete: "same_links s (wlan_tx_complete x b s)"
  using status_frame_wlan [OF with_room_frame [of s]]
  by (simp add: tx_complete_push same_links_def upd_super_def status_push_def)

lemma links_updates [simp]:
  "same_links s (f_wlan_update g s)" "same_links s (f_wol_update h s)" "same_links s (unhide_super d s)"
  "same_links s (upd_desc d (dd_ctrl_update c) s)" "same_links s (upd_super x k s)"
  "same_links s (s\<lparr> f_descs := dma_rearm d (f_descs s) \<rparr>)"
  by (simp_all add: same_links_def unhide_super_def upd_desc_def upd_super_def dma_rearm_def)

lemma links_callback [simp]: "same_links s (call_fw_desc_callback b s)"
  by (simp add: call_fw_desc_callback_def wlan_wol_connect_callback_def split: fw_desc_callback.split)

lemma links_retry [simp]: "same_links s (snd (wlan_tx_consume_retry x s))"
  by (simp add: wlan_tx_consume_retry_def Let_def same_links_def upd_super_def)

lemma queue_retry [simp]: "super_queue y (snd (wlan_tx_consume_retry x s)) = super_queue y s"
  by (simp add: wlan_tx_consume_retry_def Let_def super_queue_def super_s_def upd_super_def)

text \<open>What one call leaves: well-formed queues, and the frame gone from its queue if the loop goes on.\<close>

definition status_result :: "nat \<Rightarrow> (qref \<Rightarrow> u32 list list) \<Rightarrow> (bool \<times> fw_state) option \<Rightarrow> bool" where
  "status_result i Q res \<longleftrightarrow> (\<exists>b s' Q'. res = Some (b, s') \<and> queues_ok s' Q' \<and>
     (\<forall>x. x \<noteq> TxQ i \<longrightarrow> x \<noteq> RetryQ \<longrightarrow> x \<noteq> DownQ \<longrightarrow> Q' x = Q x) \<and>
     (b \<longrightarrow> length (Q' (TxQ i)) < length (Q (TxQ i))))"

lemma tx_finish_result:
  assumes ok: "queues_ok s Q" and i: "i < 5" and q: "Q (TxQ i) = p # ps"
  shows "status_result i Q (wlan_tx_finish (TxQ i) (hd p) txfail success s)"
proof -
  let ?super = "get_super (hd p) s"
  let ?Q = "Q(TxQ i := ps)"
  have r: "TxQ i \<in> all_queues" "DownQ \<in> all_queues"
    using i by (simp_all add: all_queues_def)
  obtain s1 where s1: "unlink_head (TxQ i) s = (Some (hd p), s1)" "queues_ok s1 ?Q" "detached s1 ?Q p"
    using unlink_head_first [OF ok r(1) q] by blast
  have "super_queue ?super s < 5"
    using super_queue_less [of ?super s] by simp
  from txunstuck_returns [OF s1(2) this]
  obtain s2 where s2: "(if txfail then wlan_txunstuck (super_queue ?super s) s1 else Some s1) = Some s2" "same_links s1 s2"
    using same_core_links by (cases txfail) auto
  let ?s3 = "unhide_super (hd p) s2"
  have l3: "same_links s1 ?s3"
    using s2(2) same_links_trans links_updates(3) by blast
  show ?thesis
  proof (cases "?super = w_fw_desc_data (f_wlan ?s3)")
    case True
    let ?s4 = "f_wlan_update (w_fw_desc_available_update (\<lambda>_. 1)) (f_wlan_update (w_fw_desc_update (\<lambda>_. hd p)) ?s3)"
    have "same_links s1 (call_fw_desc_callback success ?s4)"
      by (rule same_links_trans [OF l3 same_links_trans [OF same_links_trans [OF links_updates(1) links_updates(1)] links_callback]])
    then have "queues_ok (call_fw_desc_callback success ?s4) ?Q"
      using s1(2) queues_ok_links by blast
    moreover have "wlan_tx_finish (TxQ i) (hd p) txfail success s = Some (\<not> txfail, call_fw_desc_callback success ?s4)"
      by (simp only: wlan_tx_finish_def Let_def s1(1) prod.case s2(1) Option.bind.simps if_P [OF True])
    ultimately show ?thesis
      unfolding status_result_def using q by (intro exI [of _ "\<not> txfail"] exI conjI) (assumption | simp)+
  next
    case False
    let ?s4 = "if sd_cab (super_s ?super ?s3)
      then f_wlan_update (w_cab_queue_len_update (upd_nth (super_vif ?super ?s3) (\<lambda>n. n - 1))) ?s3 else ?s3"
    let ?s5 = "wlan_tx_complete ?super success ?s4"
    let ?s6 = "if ieee80211_is_back_req (i3e_frame_control (f_ram ?s5) (superframe_data ?super))
      then f_wlan_update (w_queued_bar_update (\<lambda>n. n - 1)) ?s5 else ?s5"
    have l4: "same_links ?s3 ?s4" and l5: "same_links ?s5 ?s6"
      by simp_all
    have l6: "same_links s1 ?s6"
      by (rule same_links_trans [OF l3 same_links_trans [OF l4 same_links_trans [OF links_complete l5]]])
    have "queues_ok ?s6 ?Q" "detached ?s6 ?Q p"
      using s1(2,3) queues_ok_links [OF l6] detached_links [OF l6] by simp_all
    from reclaim_detached [OF this(1) r(2) this(2)] obtain s7 xs where
      s7: "reclaim DownQ (hd p) ?s6 = Some s7" "queues_ok s7 (?Q(DownQ := ?Q DownQ @ singles xs))"
      by blast
    have "wlan_tx_finish (TxQ i) (hd p) txfail success s = Some (\<not> txfail, down_trigger s7)"
      by (simp only: wlan_tx_finish_def Let_def s1(1) prod.case s2(1) s7(1) Option.bind.simps if_not_P [OF False])
    moreover have "queues_ok (down_trigger s7) (?Q(DownQ := ?Q DownQ @ singles xs))"
      using s7(2) queues_ok_core [OF same_core_set_reg] by (simp add: down_trigger_def)
    ultimately show ?thesis
      unfolding status_result_def using q by (intro exI [of _ "\<not> txfail"] exI conjI) (assumption | simp)+
  qed
qed

lemma tx_status_result:
  assumes ok: "queues_ok s Q" and i: "i < 5" and q: "Q (TxQ i) = p # ps"
  shows "status_result i Q (wlan_tx_status (TxQ i) (hd p) s)"
proof -
  let ?d = "hd p" and ?super = "get_super (hd p) s"
  let ?qidx = "super_queue ?super s"
  let ?s1 = "f_wlan_update (w_last_super_num_update (upd_nth ?qidx (\<lambda>_. 0))) s"
  let ?ctrl = "dd_ctrl (f_descs ?s1 ?d)"
  let ?s2 = "upd_desc ?d (dd_ctrl_update (\<lambda>c. c AND NOT (AR9170_CTRL_TXFAIL OR AR9170_CTRL_BAFAIL))) ?s1"
  obtain again s3 where s3: "wlan_tx_consume_retry ?super ?s2 = (again, s3)"
    by fastforce
  let ?s4 = "if \<not> mc_ampdu (hd_mac (super_hdr ?super s3))
    then set_frame_control (superframe_data ?super)
           (i3e_frame_control (f_ram s3) (superframe_data ?super) OR IEEE80211_FCTL_RETRY) s3
    else s3"
  have ok1: "queues_ok ?s1 Q"
    using ok queues_ok_links [OF links_updates(1)] by simp
  have l3: "same_links s s3"
    using same_links_trans [OF same_links_trans [OF links_updates(1) links_updates(4)] links_retry] s3 by (metis snd_conv)
  have l34: "same_links s3 ?s4"
    by (simp add: set_frame_control_def same_links_def)
  have ok3: "queues_ok s3 Q"
    using ok queues_ok_links [OF l3] by simp
  have ok4: "queues_ok ?s4 Q"
    using ok3 queues_ok_links [OF l34] by simp
  consider (plain) "?ctrl AND AR9170_CTRL_FAIL = 0" | (over) "?ctrl AND AR9170_CTRL_FAIL \<noteq> 0" "\<not> again"
    | (fail) "?ctrl AND AR9170_CTRL_FAIL \<noteq> 0" "again" "?ctrl AND AR9170_CTRL_TXFAIL \<noteq> 0"
    | (ba) "?ctrl AND AR9170_CTRL_FAIL \<noteq> 0" "again" "?ctrl AND AR9170_CTRL_TXFAIL = 0"
    by blast
  then show ?thesis
  proof cases
    case plain
    then have "wlan_tx_status (TxQ i) ?d s = wlan_tx_finish (TxQ i) ?d False True ?s1"
      by (simp add: wlan_tx_status_def Let_def)
    then show ?thesis
      using tx_finish_result [OF ok1 i q] by simp
  next
    case over
    then have "wlan_tx_status (TxQ i) ?d s = wlan_tx_finish (TxQ i) ?d (?ctrl AND AR9170_CTRL_TXFAIL \<noteq> 0) False s3"
      using s3 by (simp add: wlan_tx_status_def Let_def)
    then show ?thesis
      using tx_finish_result [OF ok3 i q] by simp
  next
    case fail
    let ?s5 = "?s4\<lparr> f_descs := dma_rearm ?d (f_descs ?s4) \<rparr>"
    have ok5: "queues_ok ?s5 Q"
      using ok4 queues_ok_links [OF links_updates(6)] by blast
    have "?qidx < 5"
      using super_queue_less [of ?super s] by simp
    from txunstuck_returns [OF ok5 this] obtain s6 where s6: "wlan_txunstuck ?qidx ?s5 = Some s6" "same_core ?s5 s6"
      by blast
    have "wlan_tx_status (TxQ i) ?d s = Some (False, s6)"
      using fail(1,3) s3 fail(2)
      by (simp only: wlan_tx_status_def Let_def s3 prod.case if_P if_True s6(1) Option.bind.simps) simp
    moreover have "queues_ok s6 Q"
      using ok5 queues_ok_core [OF s6(2)] by simp
    ultimately show ?thesis
      unfolding status_result_def by (intro exI [of _ False] exI [of _ s6] exI [of _ Q]) simp
  next
    case ba
    have r: "TxQ i \<in> all_queues" "RetryQ \<in> all_queues"
      using i by (simp_all add: all_queues_def)
    let ?Q = "Q(TxQ i := ps)"
    obtain s5 where s5: "unlink_head (TxQ i) ?s4 = (Some ?d, s5)" "queues_ok s5 ?Q" "detached s5 ?Q p"
      using unlink_head_first [OF ok4 r(1) q] by blast
    obtain s6 p' where s6: "put RetryQ ?d s5 = Some s6" "queues_ok s6 (?Q(RetryQ := ?Q RetryQ @ [p']))"
      using put_detached [OF s5(2) r(2) s5(3)] by blast
    have "wlan_tx_status (TxQ i) ?d s = Some (True, s6)"
      using ba(1,3) s3 ba(2)
      by (simp only: wlan_tx_status_def Let_def s3 prod.case if_P if_True if_False s5(1) s6(1) Option.bind.simps
          not_True_eq_False not_False_eq_True) simp
    then show ?thesis
      unfolding status_result_def using s6(2) q
      by (intro exI [of _ True] exI [of _ s6] exI [of _ "?Q(RetryQ := ?Q RetryQ @ [p'])"]) simp
  qed
qed

subsection \<open>The interrupt\<close>

text \<open>The queues the interrupt does not touch.\<close>

definition tx_side :: "qref set" where
  "tx_side = TxQ ` {..<5} \<union> {RetryQ, DownQ}"

lemma tx_status_loop_returns:
  assumes "queues_ok s Q" "i < 5"
  shows "\<exists>s' Q'. tx_status_loop (TxQ i) s = Some s' \<and> queues_ok s' Q' \<and> (\<forall>x. x \<notin> tx_side \<longrightarrow> Q' x = Q x)"
  using assms
proof (induction "length (Q (TxQ i))" arbitrary: s Q rule: less_induct)
  case less
  have r: "TxQ i \<in> all_queues" "TxQ i \<in> tx_side"
    using less.prems(2) by (simp_all add: all_queues_def tx_side_def)
  note q = queues_okD [OF less.prems(1) r(1)]
  show ?case
  proof (cases "Q (TxQ i)")
    case Nil
    then have "queue_empty (f_queues s (TxQ i))"
      using queue_ok_empty [OF q] by simp
    then have "tx_status_loop (TxQ i) s = Some s"
      by (subst tx_status_loop.simps) simp
    then show ?thesis
      using less.prems by blast
  next
    case (Cons p ps)
    then have hd: "q_head (f_queues s (TxQ i)) = hd p" "\<not> queue_empty (f_queues s (TxQ i))"
      using q queue_ok_empty [OF q] by (auto simp: queue_ok_def)
    obtain b s1 Q1 where s1: "wlan_tx_status (TxQ i) (hd p) s = Some (b, s1)" "queues_ok s1 Q1"
        "\<forall>x. x \<noteq> TxQ i \<longrightarrow> x \<noteq> RetryQ \<longrightarrow> x \<noteq> DownQ \<longrightarrow> Q1 x = Q x"
        "b \<longrightarrow> length (Q1 (TxQ i)) < length (Q (TxQ i))"
      using tx_status_result [OF less.prems Cons] unfolding status_result_def by blast
    have fr: "\<forall>x. x \<notin> tx_side \<longrightarrow> Q1 x = Q x"
      using s1(3) r(2) by (auto simp: tx_side_def)
    let ?own = "dd_status (f_descs s (hd p)) AND AR9170_OWN_BITS = AR9170_OWN_BITS_SW"
    have step: "tx_status_loop (TxQ i) s = (if ?own then if b then tx_status_loop (TxQ i) s1 else Some s1 else Some s)"
      using hd s1(1) by (subst tx_status_loop.simps) simp
    consider (stop) "\<not> ?own" | (last) "?own" "\<not> b" | (more) "?own" b
      by blast
    then show ?thesis
    proof cases
      case stop
      then show ?thesis
        using step less.prems by (intro exI [of _ s] exI [of _ Q]) simp
    next
      case last
      then show ?thesis
        using step s1(2) fr by (intro exI [of _ s1] exI [of _ Q1]) simp
    next
      case more
      then obtain s' Q' where "tx_status_loop (TxQ i) s1 = Some s'" "queues_ok s' Q'"
          "\<forall>x. x \<notin> tx_side \<longrightarrow> Q' x = Q1 x"
        using less.hyps [of Q1 s1] s1(2,4) less.prems(2) by blast
      then show ?thesis
        using step more fr by (intro exI [of _ s'] exI [of _ Q']) simp
    qed
  qed
qed

lemma links_ampdu: "same_links s (wlan_tx_ampdu_end i s)" "same_links s (wlan_tx_ampdu_reset i s)"
  by (rule tx_frame_links [OF tx_frame_ampdu(2)], rule tx_frame_links [OF tx_frame_ampdu(3)])

lemma retry_drain:
  assumes "queues_ok s Q"
  shows "\<exists>s' Q'. for_each_desc wlan_tx_try RetryQ s = Some s' \<and> queues_ok s' Q' \<and> Q' RetryQ = [] \<and>
     (\<forall>x. x \<notin> tx_side \<longrightarrow> Q' x = Q x)"
proof (rule for_each_desc_all [where I = "\<lambda>_ Q'. \<forall>x. x \<notin> tx_side \<longrightarrow> Q' x = Q x"])
  show "queues_ok s Q" "RetryQ \<in> all_queues" "\<forall>x. x \<notin> tx_side \<longrightarrow> Q x = Q x"
    using assms by (simp_all add: all_queues_def)
next
  fix s1 :: fw_state and Q1 :: "qref \<Rightarrow> u32 list list" and p ps
  assume "\<forall>x. x \<notin> tx_side \<longrightarrow> Q1 x = Q x"
  then show "\<forall>x. x \<notin> tx_side \<longrightarrow> (Q1(RetryQ := ps)) x = Q x"
    by (auto simp: tx_side_def)
next
  fix s1 :: fw_state and Q1 :: "qref \<Rightarrow> u32 list list" and p
  assume a: "queues_ok s1 Q1" "detached s1 Q1 p" "\<forall>x. x \<notin> tx_side \<longrightarrow> Q1 x = Q x"
  let ?i = "super_queue (get_super (hd p) s1) s1"
  have "TxQ ?i \<in> tx_side"
    using super_queue_less [of "get_super (hd p) s1" s1] by (simp add: tx_side_def)
  then have fr: "\<forall>x. x \<notin> tx_side \<longrightarrow> (Q1(TxQ ?i := z)) x = Q x" for z
    using a(3) by auto
  obtain s2 p' where "wlan_tx_try (hd p) s1 = Some s2" "queues_ok s2 (Q1(TxQ ?i := Q1 (TxQ ?i) @ [p']))"
    using wlan_tx_try_appends [OF a(1,2)] by blast
  then show "\<exists>s' Q'. wlan_tx_try (hd p) s1 = Some s' \<and> queues_ok s' Q' \<and> (\<forall>x. x \<notin> tx_side \<longrightarrow> Q' x = Q x) \<and>
      Q' RetryQ = Q1 RetryQ"
    using fr by (intro exI [of _ s2] exI [of _ "Q1(TxQ ?i := Q1 (TxQ ?i) @ [p'])"]) simp
qed

lemma tx_completion_returns:
  assumes "queues_ok s Q" "i < 5"
  shows "\<exists>s' Q'. tx_completion i s = Some s' \<and> queues_ok s' Q' \<and> Q' RetryQ = [] \<and>
     (\<forall>x. x \<notin> tx_side \<longrightarrow> Q' x = Q x)"
proof -
  obtain s1 Q1 where s1: "tx_status_loop (TxQ i) s = Some s1" "queues_ok s1 Q1" "\<forall>x. x \<notin> tx_side \<longrightarrow> Q1 x = Q x"
    using tx_status_loop_returns [OF assms] by blast
  have "queues_ok (wlan_tx_ampdu_reset i s1) Q1"
    using s1(2) queues_ok_links [OF links_ampdu(2)] by blast
  from retry_drain [OF this] obtain s2 Q2 where
    s2: "for_each_desc wlan_tx_try RetryQ (wlan_tx_ampdu_reset i s1) = Some s2" "queues_ok s2 Q2" "Q2 RetryQ = []"
      "\<forall>x. x \<notin> tx_side \<longrightarrow> Q2 x = Q1 x"
    by blast
  let ?s3 = "wlan_tx_ampdu_end i s2"
  let ?s4 = "if \<not> queue_empty (f_queues ?s3 (TxQ i)) then wlan_trigger (BIT i) ?s3 else ?s3"
  have "queues_ok ?s3 Q2"
    using s2(2) queues_ok_links [OF links_ampdu(1)] by blast
  then have "queues_ok ?s4 Q2"
    using queues_ok_core [OF same_core_set_reg] by (simp add: wlan_trigger_def)
  then show ?thesis
    using s1(1,3) s2(1,3,4) by (intro exI [of _ ?s4] exI [of _ Q2]) (simp add: tx_completion_def Let_def)
qed

text \<open>C9. The transmit completion interrupt always returns, whatever status the hardware left in the
  descriptors and however the frames failed: the queues stay well formed and disjoint, the
  retry queue is empty afterwards (every frame in it went back to a hardware queue), and the queues of
  the host, of received frames and of held back frames are untouched.\<close>

theorem handle_wlan_tx_completion_returns:
  assumes "queues_ok s Q"
  shows "\<exists>s' Q'. handle_wlan_tx_completion s = Some s' \<and> queues_ok s' Q' \<and> Q' RetryQ = [] \<and>
     Q' UpQ = Q UpQ \<and> Q' RxQ = Q RxQ \<and> (\<forall>v. Q' (CabQ v) = Q (CabQ v))"
proof -
  have "\<exists>s'. foldM tx_completion [4, 3, 2, 1, 0] s = Some s' \<and> (\<exists>Q'. queues_ok s' Q' \<and>
      ([4, 3, 2, 1, 0 :: nat] \<noteq> [] \<longrightarrow> Q' RetryQ = []) \<and> (\<forall>x. x \<notin> tx_side \<longrightarrow> Q' x = Q x))"
  proof (rule foldM_invariant [where P = "\<lambda>ys s'. \<exists>Q'. queues_ok s' Q' \<and> (ys \<noteq> [] \<longrightarrow> Q' RetryQ = []) \<and>
        (\<forall>x. x \<notin> tx_side \<longrightarrow> Q' x = Q x)"])
    show "\<exists>Q'. queues_ok s Q' \<and> (([] :: nat list) \<noteq> [] \<longrightarrow> Q' RetryQ = []) \<and> (\<forall>x. x \<notin> tx_side \<longrightarrow> Q' x = Q x)"
      using assms by blast
  next
    fix ys :: "nat list" and i :: nat and s1
    assume "\<exists>Q'. queues_ok s1 Q' \<and> (ys \<noteq> [] \<longrightarrow> Q' RetryQ = []) \<and> (\<forall>x. x \<notin> tx_side \<longrightarrow> Q' x = Q x)"
      and i: "i \<in> set [4, 3, 2, 1, 0]"
    then obtain Q1 where Q1: "queues_ok s1 Q1" "\<forall>x. x \<notin> tx_side \<longrightarrow> Q1 x = Q x"
      by blast
    have "i < 5"
      using i by auto
    from tx_completion_returns [OF Q1(1) this] obtain s2 Q2 where s2: "tx_completion i s1 = Some s2"
        "queues_ok s2 Q2" "Q2 RetryQ = []" "\<forall>x. x \<notin> tx_side \<longrightarrow> Q2 x = Q1 x"
      by blast
    then show "\<exists>s'. tx_completion i s1 = Some s' \<and> (\<exists>Q'. queues_ok s' Q' \<and> (ys @ [i] \<noteq> [] \<longrightarrow> Q' RetryQ = []) \<and>
        (\<forall>x. x \<notin> tx_side \<longrightarrow> Q' x = Q x))"
      using Q1(2) by (intro exI [of _ s2] conjI exI [of _ Q2]) simp_all
  qed
  then obtain s' Q' where "handle_wlan_tx_completion s = Some s'" "queues_ok s' Q'" "Q' RetryQ = []"
      "\<forall>x. x \<notin> tx_side \<longrightarrow> Q' x = Q x"
    unfolding handle_wlan_tx_completion_def by auto
  moreover have "UpQ \<notin> tx_side" "RxQ \<notin> tx_side" "CabQ v \<notin> tx_side" for v
    by (auto simp: tx_side_def)
  ultimately show ?thesis
    by blast
qed

theorem handle_wlan_tx_completion_returns_witness:
  "\<exists>s s' p1 p2 Q'. handle_wlan_tx_completion s = Some s' \<and> queues_ok s' Q' \<and> Q' (CabQ 0) = [p1, p2]"
proof -
  obtain s p1 p2 where "queues_ok s ((\<lambda>_. [])(CabQ 0 := [p1, p2]))"
    using held_frames by blast
  from handle_wlan_tx_completion_returns [OF this] show ?thesis
    by fastforce
qed

end
