(* ===== verification/Beacon.thy ===== *)
theory Beacon
  imports TxCompletion
begin

text \<open>Sequence numbers and the beacon update (carlfw/src/wlantx.c): \<^verbatim>\<open>wlan_assign_seq\<close> counts modulo
  4096, \<^verbatim>\<open>beacon_find_ie\<close> agrees with a parser of the element list, and \<^verbatim>\<open>wlan_modify_beacon\<close>
  announces group traffic exactly while the flush of the held back frames is due or under way.\<close>

subsection \<open>Sequence numbers\<close>

text \<open>The two parts of the sequence control field.\<close>

definition seq_number :: "u16 \<Rightarrow> nat" where "seq_number w = unat w div 16"

definition frag_number :: "u16 \<Rightarrow> u16" where "frag_number w = w AND IEEE80211_SCTL_FRAG"

definition seq_ctrl :: "u32 \<Rightarrow> fw_state \<Rightarrow> u16" where "seq_ctrl hdr s = ld16 (f_ram s) (i3e_seq_ctrl hdr)"

text \<open>The counters keep the low four bits clear.\<close>

definition sequence_ok :: "fw_state \<Rightarrow> bool" where
  "sequence_ok s \<longleftrightarrow> length (w_sequence (f_wlan s)) = 2 \<and> (\<forall>q \<in> set (w_sequence (f_wlan s)). q AND 0xF = 0)"

lemma ld16_st16_ctrl: "ld16 (st16 a v (st16 a w m)) a = v"
  by simp

lemma assign_seq_ctrl:
  "seq_ctrl hdr (wlan_assign_seq hdr vif s) =
     (seq_ctrl hdr s AND NOT IEEE80211_SCTL_SEQ) OR ucast (w_sequence (f_wlan s) ! vif)"
  by (simp add: wlan_assign_seq_def seq_ctrl_def Let_def)

lemma assign_seq_wlan:
  "f_wlan (wlan_assign_seq hdr vif s) =
     (if ieee80211_is_first_frag (seq_ctrl hdr (wlan_assign_seq hdr vif s))
      then w_sequence_update (upd_nth vif (\<lambda>q. q + 0x10)) (f_wlan s) else f_wlan s)"
  by (simp add: wlan_assign_seq_def seq_ctrl_def Let_def)

lemma low_clear: "(q :: u32) AND 0xF = 0 \<longleftrightarrow> unat q mod 16 = 0"
proof -
  have "q AND 0xF = take_bit 4 q"
    by (simp add: take_bit_eq_mask mask_eq_exp_minus_1)
  moreover have "unat (take_bit 4 q) = unat q mod 16"
    by (simp only: unsigned_take_bit_eq) (simp add: take_bit_eq_mod)
  ultimately show ?thesis
    by (metis unsigned_eq_0_iff)
qed

lemma unat_ucast16: "unat (ucast (q :: u32) :: u16) = unat q mod 65536"
  by (simp add: unsigned_ucast_eq take_bit_eq_mod)

lemma low_clear_add:
  assumes "(q :: u32) AND 0xF = 0"
  shows "(q + 0x10) AND 0xF = 0" "seq_number (ucast (q + 0x10)) = (seq_number (ucast q) + 1) mod 4096"
proof -
  have u: "unat (q + 0x10) = (unat q + 16) mod 4294967296"
    by (simp add: unat_word_ariths(1))
  have m: "unat q mod 16 = 0"
    using assms by (simp add: low_clear)
  have "(unat q + 16) mod 4294967296 mod 16 = 0"
    using m by (simp add: mod_mod_cancel)
  then show "(q + 0x10) AND 0xF = 0"
    by (simp add: low_clear u)
  have "(n + 16) mod 4294967296 mod 65536 div 16 = (n mod 65536 div 16 + 1) mod 4096" if "n mod 16 = 0" for n :: nat
  proof -
    define k where "k = n div 16"
    have "n = 16 * k"
      using mult_div_mod_eq [of 16 n] that by (simp add: k_def)
    moreover have "(16 * k + 16) mod 4294967296 mod 65536 = 16 * ((k + 1) mod 4096)"
      using mod_mult_mult1 [of 16 "k + 1" 4096] by (simp add: mod_mod_cancel algebra_simps)
    moreover have "16 * k mod 65536 = 16 * (k mod 4096)"
      using mod_mult_mult1 [of 16 k 4096] by simp
    ultimately show ?thesis
      by (simp add: mod_simps)
  qed
  from this [OF m] show "seq_number (ucast (q + 0x10)) = (seq_number (ucast q) + 1) mod 4096"
    by (simp add: seq_number_def unat_ucast16 u)
qed

text \<open>What one assignment writes: the fragment number stays, the sequence number is the counter's.\<close>

lemma insert_seq:
  assumes "(q :: u32) AND 0xF = 0"
  shows "seq_number ((w AND NOT IEEE80211_SCTL_SEQ) OR ucast q) = seq_number (ucast q)"
    "frag_number ((w AND NOT IEEE80211_SCTL_SEQ) OR ucast q) = frag_number w"
proof -
  let ?w = "(w AND NOT 0xFFF0) OR ucast q :: u16"
  have low: "\<not> bit q n" if "n < 4" for n
  proof -
    have "bit (q AND mask 4) n \<longleftrightarrow> bit q n"
      using that by (simp add: bit_simps)
    then show ?thesis
      using assms by (simp add: mask_eq_exp_minus_1)
  qed
  have f0: "(0xFFF0 :: u16) = NOT (mask 4)" and f: "(0xF :: u16) = mask 4"
    by (simp_all add: mask_eq_exp_minus_1)
  have "drop_bit 4 ?w = drop_bit 4 (ucast q)"
    unfolding f0 by (rule bit_word_eqI) (auto simp: bit_simps)
  then have "unat (drop_bit 4 ?w) = unat (drop_bit 4 (ucast q :: u16))"
    by simp
  then show "seq_number ?w = seq_number (ucast q)"
    by (simp add: seq_number_def drop_bit_eq_div unat_div)
  show "frag_number ?w = frag_number w"
    unfolding frag_number_def f0 f using low by (intro bit_word_eqI) (auto simp: bit_simps)
qed

lemma assign_seq_fields:
  fixes hdr s vif
  assumes "sequence_ok s" "vif < 2"
  defines "t \<equiv> wlan_assign_seq hdr vif s"
  shows "seq_number (seq_ctrl hdr t) = seq_number (ucast (w_sequence (f_wlan s) ! vif))"
    "frag_number (seq_ctrl hdr t) = frag_number (seq_ctrl hdr s)"
    "sequence_ok t"
    "w_sequence (f_wlan t) ! vif = (if frag_number (seq_ctrl hdr s) = 0
       then w_sequence (f_wlan s) ! vif + 0x10 else w_sequence (f_wlan s) ! vif)"
proof -
  let ?q = "w_sequence (f_wlan s) ! vif"
  have q: "?q AND 0xF = 0" "vif < length (w_sequence (f_wlan s))"
    using assms by (auto simp: sequence_ok_def)
  show "seq_number (seq_ctrl hdr t) = seq_number (ucast ?q)"
    and f: "frag_number (seq_ctrl hdr t) = frag_number (seq_ctrl hdr s)"
    unfolding t_def assign_seq_ctrl using insert_seq [OF q(1)] by simp_all
  have w: "w_sequence (f_wlan t) = (if frag_number (seq_ctrl hdr s) = 0
      then upd_nth vif (\<lambda>q. q + 0x10) (w_sequence (f_wlan s)) else w_sequence (f_wlan s))"
    using f by (simp add: t_def assign_seq_wlan ieee80211_is_first_frag_def frag_number_def)
  show "w_sequence (f_wlan t) ! vif = (if frag_number (seq_ctrl hdr s) = 0 then ?q + 0x10 else ?q)"
    using q(2) by (simp add: w upd_nth_def)
  show "sequence_ok t"
    using assms(1) low_clear_add(1) [OF q(1)] set_update_subset_insert [of "w_sequence (f_wlan s)" vif "?q + 0x10"]
    by (auto simp: sequence_ok_def w upd_nth_def)
qed

text \<open>C25. Sequence numbers of one interface are consecutive modulo 4096, and the fragment number of a
  frame is kept: the frame that follows a first fragment (or an unfragmented frame) gets the next
  number. This includes a later fragment of the same frame: the counter moves on right after the
  first fragment, so the fragments of one frame do not share a sequence number, although 802.11 requires it.\<close>

theorem wlan_assign_seq_consecutive:
  fixes hdr1 hdr2 s vif
  assumes "sequence_ok s" "vif < 2" "frag_number (seq_ctrl hdr1 s) = 0"
  defines "s1 \<equiv> wlan_assign_seq hdr1 vif s"
  defines "s2 \<equiv> wlan_assign_seq hdr2 vif s1"
  shows "seq_number (seq_ctrl hdr2 s2) = (seq_number (seq_ctrl hdr1 s1) + 1) mod 4096 \<and>
     frag_number (seq_ctrl hdr1 s1) = 0 \<and> frag_number (seq_ctrl hdr2 s2) = frag_number (seq_ctrl hdr2 s1) \<and>
     sequence_ok s2"
proof -
  let ?q = "w_sequence (f_wlan s) ! vif"
  have "?q AND 0xF = 0"
    using assms(1,2) by (auto simp: sequence_ok_def)
  then show ?thesis
    using assign_seq_fields [OF assms(1,2), of hdr1] assms(3) low_clear_add(2)
      assign_seq_fields [of s1 vif hdr2] assms(2) unfolding s1_def s2_def by simp
qed

theorem wlan_assign_seq_consecutive_witness:
  "let s = (zero_state default_config)\<lparr> f_ram := (\<lambda>a. if a = 0x216 then 1 else 0) \<rparr>;
       s1 = wlan_assign_seq 0x100 0 s; s2 = wlan_assign_seq 0x200 0 s1
   in seq_number (seq_ctrl 0x200 s2) = (seq_number (seq_ctrl 0x100 s1) + 1) mod 4096"
proof -
  let ?s = "(zero_state default_config)\<lparr> f_ram := (\<lambda>a. if a = 0x216 then 1 else 0) \<rparr>"
  have "sequence_ok ?s" "frag_number (seq_ctrl 0x100 ?s) = 0"
    by (simp_all add: sequence_ok_def zero_state_def seq_ctrl_def ld16_def le16_def frag_number_def)
  from wlan_assign_seq_consecutive [OF this(1) _ this(2), of 0 "0x200"] show ?thesis
    by (simp add: Let_def)
qed

subsection \<open>Information elements\<close>

text \<open>The element list of a management frame, as its grammar says: a type, a length, and that many
  bytes. The offset of the first element of a type, if the elements before it are complete.\<close>

function find_element :: "u8 \<Rightarrow> u8 list \<Rightarrow> nat option" where
  "find_element ie (t # l # rest) =
     (if length rest < unat l then None
      else if t = ie then Some 0
      else map_option (\<lambda>k. k + unat l + 2) (find_element ie (drop (unat l) rest)))"
| "find_element ie [t] = None"
| "find_element ie [] = None"
  by pat_completeness auto
termination by (relation "measure (\<lambda>(_, bs). length bs)") auto

lemma rd_bytes_Cons: "rd_bytes p (Suc n) m = m p # rd_bytes (p + 1) n m"
  unfolding rd_bytes_def by (subst upt_conv_Cons, simp) (simp add: map_Suc_upt [symmetric] comp_def add.assoc del: upt_Suc)

lemma drop_rd_bytes: "k \<le> n \<Longrightarrow> drop k (rd_bytes p n m) = rd_bytes (p + of_nat k) (n - k) m"
  by (rule nth_equalityI) (auto simp: nth_rd_bytes add.assoc)

lemma find_ie_loop_element:
  assumes "pos \<le> end" "end < 4294967296"
  shows "find_ie_loop m ie end pos = map_option (\<lambda>k. k + pos) (find_element ie (rd_bytes (of_nat pos) (end - pos) m))"
  using assms
proof (induction "end - pos" arbitrary: pos rule: less_induct)
  case less
  consider "end - pos = 0" | "end - pos = 1" | n where "end - pos = Suc (Suc n)"
    by (metis One_nat_def old.nat.exhaust)
  then show ?case
  proof cases
    case 1
    then show ?thesis
      by (subst find_ie_loop.simps) simp
  next
    case 2
    then have "pos < end" "end < pos + 2"
      by linarith+
    moreover have "rd_bytes (of_nat pos) (end - pos) m = [m (of_nat pos)]"
      unfolding 2 by (simp add: rd_bytes_def)
    ultimately show ?thesis
      by (subst find_ie_loop.simps) simp
  next
    case 3
    let ?l = "unat (m (of_nat (pos + 1)))"
    have bs: "rd_bytes (of_nat pos) (end - pos) m = m (of_nat pos) # m (of_nat (pos + 1)) # rd_bytes (of_nat (pos + 2)) n m"
      unfolding 3 by (simp add: rd_bytes_Cons algebra_simps)
    have e: "end = pos + 2 + n"
      using 3 by linarith
    show ?thesis
    proof (cases "?l \<le> n \<and> m (of_nat pos) \<noteq> ie")
      case True
      let ?p = "pos + ?l + 2"
      have "find_ie_loop m ie end ?p = map_option (\<lambda>k. k + ?p) (find_element ie (rd_bytes (of_nat ?p) (end - ?p) m))"
        using True e less.prems by (intro less.hyps) auto
      moreover have "drop ?l (rd_bytes (of_nat (pos + 2)) n m) = rd_bytes (of_nat ?p) (end - ?p) m"
        using True e by (subst drop_rd_bytes) (simp_all add: algebra_simps)
      ultimately show ?thesis
        using True e unfolding bs by (subst find_ie_loop.simps) (simp add: Let_def option.map_comp comp_def algebra_simps)
    next
      case False
      then show ?thesis
        using e unfolding bs by (subst find_ie_loop.simps) (auto simp: Let_def)
    qed
  qed
qed

text \<open>C26. The search for an element of the beacon is the search in its element list (the bytes after
  the fixed fields up to the checksum): it gives the address of the first element of the type,
  stays inside the frame, and gives up at the first element that is cut off.\<close>

theorem beacon_find_ie_first:
  assumes "40 \<le> unat len" "unat addr + unat len < 4294967296"
  shows "beacon_find_ie m ie addr len =
     map_option (\<lambda>k. addr + 36 + of_nat k) (find_element ie (rd_bytes (addr + 36) (unat len - 40) m))"
proof -
  have "unat (len - 4) = unat len - 4"
    using assms(1) by (subst unat_sub) (simp_all add: word_le_nat_alt)
  then have e: "unat (addr + (len - 4)) = unat addr + unat len - 4"
    using assms by (subst unat_word_ariths(1)) simp
  have p: "unat (addr + 36) = unat addr + 36"
    using assms by (subst unat_word_ariths(1)) simp
  have "find_ie_loop m ie (unat addr + unat len - 4) (unat addr + 36) =
      map_option (\<lambda>k. k + (unat addr + 36)) (find_element ie (rd_bytes (of_nat (unat addr + 36)) (unat len - 40) m))"
    using assms find_ie_loop_element [of "unat addr + 36" "unat addr + unat len - 4" m ie] by simp
  then show ?thesis
    unfolding beacon_find_ie_def e p by (simp add: option.map_comp comp_def algebra_simps)
qed

definition example_beacon :: memory where
  "example_beacon = wr_bytes 0x1024 [0, 2, 0x41, 0x42, 5, 4, 0, 3, 0, 0] (\<lambda>_. 0)"

theorem beacon_find_ie_first_witness: "beacon_find_ie example_beacon WLAN_EID_TIM 0x1000 50 = Some 0x1028"
proof -
  have "rd_bytes 0x1024 10 example_beacon = [0, 2, 0x41, 0x42, 5, 4, 0, 3, 0, 0]"
    unfolding example_beacon_def by (rule rd_wr_same) simp_all
  then show ?thesis
    using beacon_find_ie_first [of 50 "0x1000" example_beacon 5] by simp
qed

subsection \<open>Group traffic\<close>

text \<open>The multicast bit of the TIM element at \<^verbatim>\<open>p\<close>.\<close>

definition multicast_bit :: "fw_state \<Rightarrow> u32 \<Rightarrow> bool" where
  "multicast_bit s p \<longleftrightarrow> f_ram s (p + 4) AND 1 \<noteq> 0"

text \<open>C27. A beacon update with a TIM element: when frames are held back and this is a DTIM beacon, the
  flush is armed; when the last released frame has been reported, the flush ends; and the
  multicast bit of the beacon is set exactly while a flush is armed or under way (given that it
  was clear if none was).\<close>

theorem wlan_modify_beacon_announces:
  assumes "beacon_find_ie (f_ram s) WLAN_EID_TIM addr len = Some p"
    and "vif < length (w_cab_flush_trigger (f_wlan s))"
    and "w_cab_flush_trigger (f_wlan s) ! vif = CARL9170_CAB_TRIGGER_EMPTY \<Longrightarrow> \<not> multicast_bit s p"
    and "\<not> in_range (p + 4) (addr + 22) 2"
  defines "t \<equiv> wlan_modify_beacon vif addr len s"
  shows "(multicast_bit t p \<longleftrightarrow> w_cab_flush_trigger (f_wlan t) ! vif \<noteq> CARL9170_CAB_TRIGGER_EMPTY) \<and>
     w_cab_flush_trigger (f_wlan t) ! vif =
       (if \<not> queue_empty (f_queues s (CabQ vif)) \<and> f_ram s (p + 2) = 0 then CARL9170_CAB_TRIGGER_ARMED
        else if w_cab_queue_len (f_wlan s) ! vif = 0 then CARL9170_CAB_TRIGGER_EMPTY
        else w_cab_flush_trigger (f_wlan s) ! vif)"
proof -
  have w: "w_cab_flush_trigger (f_wlan (wlan_assign_seq addr vif u)) = w_cab_flush_trigger (f_wlan u)"
      "f_ram (wlan_assign_seq addr vif u) (p + 4) = f_ram u (p + 4)" for u
    using assms(4) by (simp_all add: assign_seq_wlan assign_seq_ram)
  have bits: "(b OR 1) AND 1 = (1 :: u8)" "(b AND - 2) AND 1 = (0 :: u8)" for b :: u8
    using mask_or_clear [of b 1] by simp_all
  show ?thesis
    using assms(1-3) unfolding t_def wlan_modify_beacon_def multicast_bit_def w Let_def
    by (auto simp: upd_nth_def st8_def bits add.assoc w)
qed

theorem wlan_modify_beacon_announces_witness:
  "let s = (zero_state default_config)\<lparr> f_ram := example_beacon, f_queues := (\<lambda>_. \<lparr> q_head = 1, q_terminator = 0 \<rparr>) \<rparr>
   in multicast_bit (wlan_modify_beacon 0 0x1000 50 s) 0x1028"
proof -
  let ?s = "(zero_state default_config)\<lparr> f_ram := example_beacon, f_queues := (\<lambda>_. \<lparr> q_head = 1, q_terminator = 0 \<rparr>) \<rparr>"
  have b: "example_beacon (0x1028 + 2) = 0" "example_beacon (0x1028 + 4) = 0"
    by (simp_all add: example_beacon_def wr_bytes_def)
  have find: "beacon_find_ie (f_ram ?s) 5 0x1000 50 = Some 0x1028"
    by (simp add: beacon_find_ie_def find_ie_loop.simps example_beacon_def wr_bytes_def Let_def)
  show ?thesis
    using wlan_modify_beacon_announces [OF find, of 0] b
    by (simp add: Let_def zero_state_def multicast_bit_def in_range_def queue_empty_def)
qed

end
