(* ===== verification/Wlan.thy ===== *)
theory Wlan
  imports WlanRx Rf TxCompletion Beacon
begin

text \<open>The WLAN interrupt, its janitor, and the supervision of the hardware (carlfw/src/wlan.c), with the
  timer interrupt that drives it (\<^verbatim>\<open>timer0_isr\<close> and \<^verbatim>\<open>handle_timer\<close> of carlfw/src/timer.c). The
  functions that exist only with \<^verbatim>\<open>CONFIG_CARL9170FW_DEBUG\<close> (the queue dump, the QoS and radar
  interrupts) are not part of the build.\<close>

subsection \<open>Interrupts\<close>

definition upd_mac_reset :: "(u32 \<Rightarrow> u32) \<Rightarrow> fw_state \<Rightarrow> fw_state" where
  "upd_mac_reset g = f_wlan_update (w_mac_reset_update g)"

definition wlan_check_rx_overrun :: "fw_state \<Rightarrow> fw_state" where
  "wlan_check_rx_overrun s =
     (let (total, s) = get_reg AR9170_MAC_REG_RX_TOTAL s;
          s = f_tally_update (ta_rx_total_update (\<lambda>n. n + total)) s;
          (overruns, s) = get_reg AR9170_MAC_REG_RX_OVERRUN s;
          s = f_tally_update (ta_rx_overrun_update (\<lambda>n. n + overruns)) s
      in if overruns \<noteq> 0 then
           let s = (if overruns = total then upd_mac_reset (\<lambda>n. n + 1) s else s)
           in wlan_trigger AR9170_DMA_TRIGGER_RXQ s
         else s)"

definition handle_beacon_config :: "fw_state \<Rightarrow> fw_state" where
  "handle_beacon_config s =
     (let (bcn_count, s) = get_reg AR9170_MAC_REG_BCN_COUNT s
      in send_cmd_to_host 4 CARL9170_RSP_BEACON_CONFIG 0 (bytes32 bcn_count) s)"

definition handle_pretbtt :: "fw_state \<Rightarrow> fw_state" where
  "handle_pretbtt s =
     (let (t, s) = get_clock_counter s;
          s = f_wlan_update (w_cab_flush_time_update (\<lambda>_. t)) s;
          s = rf_psm s
      in send_cmd_to_host 4 CARL9170_RSP_PRETBTT 0 (bytes32 (p_psm_state (f_phy s))) s)"

definition handle_atim :: "fw_state \<Rightarrow> fw_state" where
  "handle_atim s = send_cmd_to_host 0 CARL9170_RSP_ATIM 0 [] s"

definition wlan_janitor :: "fw_state \<Rightarrow> fw_state option" where
  "wlan_janitor s =
     do { s \<leftarrow> wlan_send_buffered_cab s;
          let s = wlan_send_buffered_tx_status s;
          s \<leftarrow> wlan_send_buffered_ba s;
          wol_janitor s }"

definition handle_wlan :: "fw_state \<Rightarrow> fw_state option" where
  "handle_wlan s =
     (let (intr, s) = get_reg AR9170_MAC_REG_INT_CTRL s;
          s = set_reg AR9170_MAC_REG_INT_CTRL intr s;
          intr = intr OR w_soft_int (f_wlan s);
          s = f_wlan_update (w_soft_int_update (\<lambda>_. 0)) s;
          s = (if intr AND AR9170_MAC_INT_PRETBTT \<noteq> 0 then handle_pretbtt s else s);
          s = (if intr AND AR9170_MAC_INT_ATIM \<noteq> 0 then handle_atim s else s)
      in do { s \<leftarrow> (if intr AND AR9170_MAC_INT_RXC \<noteq> 0 then handle_wlan_rx s else Some s);
              s \<leftarrow> (if intr AND (AR9170_MAC_INT_TXC OR AR9170_MAC_INT_RETRY_FAIL) \<noteq> 0
                    then handle_wlan_tx_completion s else Some s);
              let s = (if intr AND AR9170_MAC_INT_CFG_BCN \<noteq> 0 then handle_beacon_config s else s);
              wlan_janitor s })"

subsection \<open>Supervision\<close>

abbreviation (input) CARL9170FW_TX_MAC_BUMP :: u32 where "CARL9170FW_TX_MAC_BUMP \<equiv> 4"
abbreviation (input) CARL9170FW_TX_MAC_RESET :: u32 where "CARL9170FW_TX_MAC_RESET \<equiv> 7"

text \<open>One round of the loop of \<^verbatim>\<open>wlan_check_hang\<close>.\<close>

definition check_hang_queue :: "nat \<Rightarrow> fw_state \<Rightarrow> fw_state option" where
  "check_hang_queue i s =
     (if queue_empty (f_queues s (TxQ i)) then Some s
      else
        let (desc, s) = get_wlan_txq_addr (of_nat i) s
        in if payload desc s = w_last_super (f_wlan s) ! i then
             let s = f_wlan_update (w_last_super_num_update (upd_nth i (\<lambda>n. n + 1))) s;
                 s = (if w_last_super_num (f_wlan s) ! i \<ge> CARL9170FW_TX_MAC_RESET
                      then upd_mac_reset (\<lambda>n. n + 1) s else s)
             in if cf_queue_bump (f_cfg s) \<and> w_last_super_num (f_wlan s) ! i \<ge> CARL9170FW_TX_MAC_BUMP
                then do { s \<leftarrow> wlan_dma_bump i s; Some (wlan_trigger (BIT i) s) }
                else Some s
           else
             let s = f_wlan_update (w_last_super_update (upd_nth i (\<lambda>_. payload desc s))) s
             in Some (f_wlan_update (w_last_super_num_update (upd_nth i (\<lambda>_. 0))) s))"

definition wlan_check_hang :: "fw_state \<Rightarrow> fw_state option" where
  "wlan_check_hang s = foldM check_hang_queue [4, 3, 2, 1, 0] s"

text \<open>One round of the loop of \<^verbatim>\<open>wlan_mac_reset\<close> over the queues; \<^verbatim>\<open>val\<close> collects the triggers.\<close>

definition mac_reset_queue :: "nat \<Rightarrow> u32 \<times> fw_state \<Rightarrow> (u32 \<times> fw_state) option" where
  "mac_reset_queue i vs =
     (let (val, s) = vs; q = f_queues s (TxQ i)
      in do { iter \<leftarrow> walk_desc_bits q AR9170_OWN_BITS_SW (q_head q) (f_descs s);
              let (iter, s) =
                (if \<not> is_terminator q iter \<and> w_last_super_num (f_wlan s) ! i \<ge> CARL9170FW_TX_MAC_RESET \<and>
                    w_last_super (f_wlan s) ! i = payload iter s then
                   let super = get_super iter s;
                       s = upd_desc iter (\<lambda>d. d\<lparr> dd_status := AR9170_OWN_BITS_SW,
                             dd_ctrl := (dd_ctrl d AND NOT AR9170_CTRL_FAIL) OR AR9170_CTRL_BAFAIL \<rparr>) s;
                       s = upd_s super (sd_cnt_update (\<lambda>_. CARL9170_TX_MAX_RATE_TRIES)) s;
                       s = upd_s super (sd_rix_update (\<lambda>_. CARL9170_TX_MAX_RETRY_RATES)) s;
                       s = f_wlan_update (w_last_super_num_update (upd_nth i (\<lambda>_. 0))) s;
                       s = f_wlan_update (w_last_super_update (upd_nth i (\<lambda>_. 0))) s
                   in (dd_nextAddr (f_descs s (dd_lastAddr (f_descs s iter))), s)
                 else (iter, s));
              let s = set_wlan_txq_dma_addr (of_nat i) iter s;
              Some (if \<not> is_terminator q iter then val OR BIT i else val, s) })"

definition wlan_mac_reset :: "fw_state \<Rightarrow> fw_state option" where
  "wlan_mac_reset s =
     (let (agg_wait_counter, s) = get_reg AR9170_MAC_REG_AMPDU_FACTOR s;
          (agg_density, s) = get_reg AR9170_MAC_REG_AMPDU_DENSITY s;
          (bcn_start_addr, s) = get_reg AR9170_MAC_REG_BCN_ADDR s;
          (cam_mode, s) = get_reg AR9170_MAC_REG_CAM_MODE s;
          (rctl, s) = get_reg AR9170_MAC_REG_CAM_ROLL_CALL_TBL_L s;
          (rcth, s) = get_reg AR9170_MAC_REG_CAM_ROLL_CALL_TBL_H s;
          (ack_power, s) = get_reg AR9170_MAC_REG_ACK_TPC s;
          (rts_cts_tpc, s) = get_reg AR9170_MAC_REG_RTS_CTS_TPC s;
          (rts_cts_rate, s) = get_reg AR9170_MAC_REG_RTS_CTS_RATE s;
          (rx_BB, s) = get_reg AR9170_PHY_REG_SWITCH_CHAIN_0 s;
          (val, s) = get_reg AR9170_MAC_REG_POWER_STATE_CTRL s;
          s = set_reg AR9170_MAC_REG_POWER_STATE_CTRL (val OR AR9170_MAC_POWER_STATE_CTRL_RESET) s
      in do { s \<leftarrow> delay 2 s;
              let s = set_reg AR9170_MAC_REG_AMPDU_FACTOR agg_wait_counter s;
              let s = set_reg AR9170_MAC_REG_AMPDU_DENSITY agg_density s;
              let s = set_reg AR9170_MAC_REG_BCN_ADDR bcn_start_addr s;
              let s = set_reg AR9170_MAC_REG_CAM_MODE cam_mode s;
              let s = set_reg AR9170_MAC_REG_CAM_ROLL_CALL_TBL_L rctl s;
              let s = set_reg AR9170_MAC_REG_CAM_ROLL_CALL_TBL_H rcth s;
              let s = set_reg AR9170_MAC_REG_RTS_CTS_TPC rts_cts_tpc s;
              let s = set_reg AR9170_MAC_REG_ACK_TPC ack_power s;
              let s = set_reg AR9170_MAC_REG_RTS_CTS_RATE rts_cts_rate s;
              let s = set_reg AR9170_PHY_REG_SWITCH_CHAIN_2 rx_BB s;
              (val, s) \<leftarrow> foldM mac_reset_queue [4, 3, 2, 1, 0] (AR9170_DMA_TRIGGER_RXQ, s);
              let s = f_wlan_update (w_soft_int_update (\<lambda>x. x OR AR9170_MAC_INT_RXC OR AR9170_MAC_INT_TXC OR
                        AR9170_MAC_INT_RETRY_FAIL)) s;
              let s = set_reg AR9170_MAC_REG_DMA_RXQ_ADDR (q_head (f_queues s RxQ)) s;
              Some (wlan_trigger val s) })"

definition wlan_timer :: "fw_state \<Rightarrow> fw_state option" where
  "wlan_timer s =
     (let cached_mac_reset = w_mac_reset (f_wlan s)
      in do { s \<leftarrow> wlan_check_hang s;
              let s = wlan_check_rx_overrun s;
              if w_mac_reset (f_wlan s) \<ge> CARL9170_MAC_RESET_RESET then
                do { s \<leftarrow> wlan_mac_reset s; Some (upd_mac_reset (\<lambda>_. CARL9170_MAC_RESET_OFF) s) }
              else Some (if w_mac_reset (f_wlan s) \<noteq> 0 \<and> cached_mac_reset = w_mac_reset (f_wlan s)
                         then upd_mac_reset (\<lambda>n. n - 1) s else s) })"

definition timer0_isr :: "fw_state \<Rightarrow> fw_state option" where
  "timer0_isr s = do { s \<leftarrow> wlan_timer s; Some (gpio_timer s) }"

definition handle_timer :: "fw_state \<Rightarrow> fw_state option" where
  "handle_timer s =
     (let (intr, s) = get_reg AR9170_TIMER_REG_INTERRUPT s;
          s = set_reg AR9170_TIMER_REG_INTERRUPT intr s
      in if intr AND BIT 0 \<noteq> 0 then timer0_isr s else Some s)"

subsection \<open>A queue that is stuck\<close>

text \<open>Only queue \<^verbatim>\<open>i\<close> has frames, the hardware stays at the frame with the payload \<^verbatim>\<open>p\<close>, and no received
  frame is lost.\<close>

definition stuck_at :: "nat \<Rightarrow> u32 \<Rightarrow> fw_state \<Rightarrow> bool" where
  "stuck_at i p s \<longleftrightarrow> i < 5 \<and> \<not> queue_empty (f_queues s (TxQ i)) \<and>
     (\<forall>j < 5. j \<noteq> i \<longrightarrow> queue_empty (f_queues s (TxQ j))) \<and> \<not> cf_queue_bump (f_cfg s) \<and>
     (\<exists>pos. payload pos s = p \<and>
        (\<forall>n. hw_dev (f_hw s) n (AR9170_MAC_REG_DMA_TXQ_CURR_ADDR + push_bit 3 (of_nat i)) = Some pos)) \<and>
     (\<forall>n. hw_dev (f_hw s) n AR9170_MAC_REG_RX_OVERRUN = Some 0) \<and>
     length (w_last_super (f_wlan s)) = 5 \<and> length (w_last_super_num (f_wlan s)) = 5"

text \<open>What one check leaves of the watched fields.\<close>

definition hang_view :: "nat \<Rightarrow> fw_state \<Rightarrow> u32 \<times> u32 \<times> u32" where
  "hang_view i s = (w_last_super (f_wlan s) ! i, w_last_super_num (f_wlan s) ! i, w_mac_reset (f_wlan s))"

definition hang_next :: "u32 \<Rightarrow> u32 \<times> u32 \<times> u32 \<Rightarrow> u32 \<times> u32 \<times> u32" where
  "hang_next p v = (case v of (super, num, rst) \<Rightarrow>
     if super = p then (p, num + 1, if num + 1 \<ge> CARL9170FW_TX_MAC_RESET then rst + 1 else rst) else (p, 0, rst))"

lemma check_hang_stuck:
  assumes "stuck_at i p s"
  shows "\<exists>t. check_hang_queue i s = Some t \<and> stuck_at i p t \<and> f_queues t = f_queues s \<and>
     hang_view i t = hang_next p (hang_view i s)"
proof -
  obtain pos where pos: "payload pos s = p"
      "\<forall>n. hw_dev (f_hw s) n (AR9170_MAC_REG_DMA_TXQ_CURR_ADDR + push_bit 3 (of_nat i)) = Some pos"
    and i: "i < 5" "length (w_last_super (f_wlan s)) = 5" "length (w_last_super_num (f_wlan s)) = 5"
    and ne: "\<not> queue_empty (f_queues s (TxQ i))" "\<not> cf_queue_bump (f_cfg s)"
    using assms by (auto simp: stuck_at_def)
  have g: "get_wlan_txq_addr (of_nat i) s = (pos, tick s)"
    using pos(2) by (simp add: get_wlan_txq_addr_def get_reg_def peek_def)
  have p: "payload pos (tick s) = p"
    using pos(1) by (simp add: tick_def payload_def)
  have keep: "stuck_at i p (f_wlan_update h (tick s))"
    if "length (w_last_super (h (f_wlan s))) = 5" "length (w_last_super_num (h (f_wlan s))) = 5" for h
    using assms that by (simp add: stuck_at_def tick_def payload_def)
  show ?thesis
  proof (cases "w_last_super (f_wlan s) ! i = p")
    case True
    let ?w = "w_last_super_num_update (upd_nth i (\<lambda>n. n + 1))"
    let ?r = "if w_last_super_num (f_wlan s) ! i + 1 \<ge> CARL9170FW_TX_MAC_RESET then w_mac_reset_update (\<lambda>n. n + 1) else id"
    have "check_hang_queue i s = Some (f_wlan_update (?r \<circ> ?w) (tick s))"
      using ne g p True i by (simp add: check_hang_queue_def Let_def tick_def upd_nth_def upd_mac_reset_def)
    then show ?thesis
      using keep [of "?r \<circ> ?w"] i True
      by (simp add: hang_view_def hang_next_def upd_nth_def tick_def)
  next
    case False
    let ?w = "w_last_super_num_update (upd_nth i (\<lambda>_. 0)) \<circ> w_last_super_update (upd_nth i (\<lambda>_. p))"
    have "check_hang_queue i s = Some (f_wlan_update ?w (tick s))"
      using ne g p False i by (simp add: check_hang_queue_def Let_def tick_def upd_nth_def)
    then show ?thesis
      using keep [of ?w] i False by (simp add: hang_view_def hang_next_def upd_nth_def tick_def)
  qed
qed

lemma check_hang_others:
  assumes "stuck_at i p s" "\<forall>j \<in> set js. j < 5 \<and> j \<noteq> i"
  shows "foldM check_hang_queue js s = Some s"
  using assms(2) by (induction js) (use assms(1) in \<open>auto simp: check_hang_queue_def stuck_at_def\<close>)

lemma check_hang_all:
  assumes "stuck_at i p s"
  shows "\<exists>t. wlan_check_hang s = Some t \<and> stuck_at i p t \<and> hang_view i t = hang_next p (hang_view i s)"
proof -
  have "i \<in> set [4, 3, 2, 1, 0]"
    using assms by (auto simp: stuck_at_def)
  then obtain as bs where l: "[4, 3, 2, 1, 0] = as @ i # bs"
    using split_list by metis
  have "distinct [4, 3, 2, 1, 0 :: nat]"
    by simp
  then have d: "distinct (as @ i # bs)"
    unfolding l .
  have o: "\<forall>j \<in> set as. j < 5 \<and> j \<noteq> i" "\<forall>j \<in> set bs. j < 5 \<and> j \<noteq> i"
  proof -
    have "set as \<union> set bs \<subseteq> {4, 3, 2, 1, 0}"
      using arg_cong [OF l, of set] by auto
    then show "\<forall>j \<in> set as. j < 5 \<and> j \<noteq> i" "\<forall>j \<in> set bs. j < 5 \<and> j \<noteq> i"
      using d by auto
  qed
  obtain t where t: "check_hang_queue i s = Some t" "stuck_at i p t" "hang_view i t = hang_next p (hang_view i s)"
    using check_hang_stuck [OF assms] by blast
  have "foldM check_hang_queue (as @ i # bs) s = Some t"
    using check_hang_others [OF assms o(1)] check_hang_others [OF t(2) o(2)] t(1) by simp
  then show ?thesis
    unfolding wlan_check_hang_def l using t by blast
qed

text \<open>One timer interrupt below the reset threshold.\<close>

lemma overrun_stuck:
  assumes "stuck_at i p s"
  shows "stuck_at i p (wlan_check_rx_overrun s)" "f_wlan (wlan_check_rx_overrun s) = f_wlan s"
  using assms by (simp_all add: wlan_check_rx_overrun_def get_reg_def peek_def tick_def stuck_at_def payload_def)


lemma wlan_timer_stuck:
  assumes "stuck_at i p s"
  shows "\<exists>t. stuck_at i p t \<and> hang_view i t = hang_next p (hang_view i s) \<and>
     wlan_timer s = (if w_mac_reset (f_wlan t) \<ge> CARL9170_MAC_RESET_RESET
       then do { s \<leftarrow> wlan_mac_reset t; Some (upd_mac_reset (\<lambda>_. CARL9170_MAC_RESET_OFF) s) }
       else Some (if w_mac_reset (f_wlan t) \<noteq> 0 \<and> w_mac_reset (f_wlan s) = w_mac_reset (f_wlan t)
                  then upd_mac_reset (\<lambda>n. n - 1) t else t))"
proof -
  obtain t where t: "wlan_check_hang s = Some t" "stuck_at i p t" "hang_view i t = hang_next p (hang_view i s)"
    using check_hang_all [OF assms] by blast
  then show ?thesis
    using overrun_stuck [OF t(2)]
    by (intro exI [of _ "wlan_check_rx_overrun t"]) (simp add: wlan_timer_def hang_view_def Let_def)
qed

definition timer_ticks :: "nat \<Rightarrow> fw_state \<Rightarrow> fw_state option" where
  "timer_ticks n s = foldM (\<lambda>_. wlan_timer) [0..<n] s"

lemma timer_ticks_Suc: "timer_ticks (Suc n) s = do { s \<leftarrow> timer_ticks n s; wlan_timer s }"
  by (simp add: timer_ticks_def)

lemma seventh_tick: "k \<le> 6 \<Longrightarrow> (of_nat k + 1 :: u32) \<ge> 7 \<longleftrightarrow> k = 6"
proof -
  assume "k \<le> 6"
  then have "k = 0 \<or> k = 1 \<or> k = 2 \<or> k = 3 \<or> k = 4 \<or> k = 5 \<or> k = 6"
    by linarith
  then show ?thesis
    by (elim disjE) (simp_all add: word_le_nat_alt)
qed

lemma stuck_ticks:
  assumes "stuck_at i p s" "w_last_super (f_wlan s) ! i \<noteq> p" "w_mac_reset (f_wlan s) = 0" "k \<le> 7"
  shows "\<exists>t. timer_ticks (Suc k) s = Some t \<and> stuck_at i p t \<and>
     hang_view i t = (p, of_nat k, if k = 7 then 1 else 0)"
  using assms(4)
proof (induction k)
  case 0
  have "hang_next p (hang_view i s) = (p, 0, 0)"
    using assms(2,3) by (simp add: hang_view_def hang_next_def)
  with wlan_timer_stuck [OF assms(1)] obtain t where t: "stuck_at i p t" "hang_view i t = (p, 0, 0)"
      "wlan_timer s = (if w_mac_reset (f_wlan t) \<ge> CARL9170_MAC_RESET_RESET
       then do { s \<leftarrow> wlan_mac_reset t; Some (upd_mac_reset (\<lambda>_. CARL9170_MAC_RESET_OFF) s) }
       else Some (if w_mac_reset (f_wlan t) \<noteq> 0 \<and> w_mac_reset (f_wlan s) = w_mac_reset (f_wlan t)
                  then upd_mac_reset (\<lambda>n. n - 1) t else t))"
    by metis
  have "w_mac_reset (f_wlan t) = 0"
    using t(2) by (simp add: hang_view_def)
  then have "wlan_timer s = Some t"
    using t(3) by simp
  note t = t(1,2) this
  then show ?case
    by (simp add: timer_ticks_def)
next
  case (Suc k)
  then obtain t where t: "timer_ticks (Suc k) s = Some t" "stuck_at i p t" "hang_view i t = (p, of_nat k, 0)"
    by auto
  have n: "(of_nat k + 1 :: u32) \<ge> 7 \<longleftrightarrow> Suc k = 7"
    using seventh_tick [of k] Suc.prems by simp
  obtain u where u: "stuck_at i p u" "hang_view i u = hang_next p (hang_view i t)"
      "wlan_timer t = (if w_mac_reset (f_wlan u) \<ge> CARL9170_MAC_RESET_RESET
       then do { s \<leftarrow> wlan_mac_reset u; Some (upd_mac_reset (\<lambda>_. CARL9170_MAC_RESET_OFF) s) }
       else Some (if w_mac_reset (f_wlan u) \<noteq> 0 \<and> w_mac_reset (f_wlan t) = w_mac_reset (f_wlan u)
                  then upd_mac_reset (\<lambda>n. n - 1) u else u))"
    using wlan_timer_stuck [OF t(2)] by blast
  have v: "hang_view i u = (p, of_nat (Suc k), if Suc k = 7 then 1 else 0)"
    using u(2) t(3) n by (simp add: hang_next_def add.commute)
  moreover have "\<not> (2 :: u32) \<le> 1"
    by (simp add: word_le_nat_alt)
  ultimately have "wlan_timer t = Some u"
    using u(3) t(3) by (auto simp: hang_view_def)
  then show ?case
    using t(1) u(1) v by (simp only: timer_ticks_Suc [of "Suc k"] Option.bind.simps) auto
qed

text \<open>C17. A transmit queue whose hardware position does not move is noticed: seven further timer
  interrupts at the same frame do nothing but count, the eighth arms the reset, and the ninth resets
  the MAC and disarms, provided no received frame is reported lost and the other queues are empty.\<close>

theorem stuck_queue_resets:
  assumes "stuck_at i p s" "w_last_super (f_wlan s) ! i \<noteq> p" "w_mac_reset (f_wlan s) = 0"
  shows "(\<forall>k \<le> 8. \<exists>t. timer_ticks k s = Some t \<and> w_mac_reset (f_wlan t) = (if k = 8 then 1 else 0)) \<and>
    (\<exists>u. w_last_super_num (f_wlan u) ! i = 8 \<and> w_last_super (f_wlan u) ! i = p \<and>
       timer_ticks 9 s = do { t \<leftarrow> wlan_mac_reset u; Some (upd_mac_reset (\<lambda>_. CARL9170_MAC_RESET_OFF) t) })"
proof (intro conjI allI impI)
  fix k :: nat
  assume "k \<le> 8"
  then show "\<exists>t. timer_ticks k s = Some t \<and> w_mac_reset (f_wlan t) = (if k = 8 then 1 else 0)"
    using stuck_ticks [OF assms, of "k - 1"] assms(3)
    by (cases k) (auto simp: timer_ticks_def hang_view_def)
next
  obtain t where t: "timer_ticks 8 s = Some t" "stuck_at i p t" "hang_view i t = (p, 7, 1)"
    using stuck_ticks [OF assms, of 7] by (simp add: eval_nat_numeral) auto
  obtain u where u: "hang_view i u = hang_next p (hang_view i t)"
      "wlan_timer t = (if w_mac_reset (f_wlan u) \<ge> CARL9170_MAC_RESET_RESET
       then do { s \<leftarrow> wlan_mac_reset u; Some (upd_mac_reset (\<lambda>_. CARL9170_MAC_RESET_OFF) s) }
       else Some (if w_mac_reset (f_wlan u) \<noteq> 0 \<and> w_mac_reset (f_wlan t) = w_mac_reset (f_wlan u)
                  then upd_mac_reset (\<lambda>n. n - 1) u else u))"
    using wlan_timer_stuck [OF t(2)] by blast
  have v: "w_last_super (f_wlan u) ! i = p" "w_last_super_num (f_wlan u) ! i = 8" "w_mac_reset (f_wlan u) = 2"
    using u(1) t(3) by (simp_all add: hang_next_def hang_view_def)
  have "timer_ticks 9 s = wlan_timer t"
    using timer_ticks_Suc [of 8 s] t(1) by simp
  then show "\<exists>u. w_last_super_num (f_wlan u) ! i = 8 \<and> w_last_super (f_wlan u) ! i = p \<and>
       timer_ticks 9 s = do { t \<leftarrow> wlan_mac_reset u; Some (upd_mac_reset (\<lambda>_. CARL9170_MAC_RESET_OFF) t) }"
    using u(2) v by (intro exI [of _ u]) simp
qed

definition stuck_state :: fw_state where
  "stuck_state = (zero_state default_config)\<lparr> f_queues := (\<lambda>r. \<lparr> q_head = 0, q_terminator = if r = TxQ 2 then 0x100 else 0 \<rparr>),
     f_descs := (\<lambda>d. zero_desc\<lparr> dd_dataAddr := 0x110018 \<rparr>), f_hw := \<lparr> hw_regs = (\<lambda>_. 0),
     hw_dev = (\<lambda>n a. if a = AR9170_MAC_REG_DMA_TXQ_CURR_ADDR + 16 then Some 0x200
       else if a = AR9170_MAC_REG_RX_OVERRUN then Some 0 else None), hw_now = 0, hw_log = [] \<rparr> \<rparr>"

theorem stuck_queue_resets_witness:
  "\<exists>t. timer_ticks 8 stuck_state = Some t \<and> w_mac_reset (f_wlan t) = 1"
proof -
  have "stuck_at 2 0x110018 stuck_state" "w_last_super (f_wlan stuck_state) ! 2 \<noteq> 0x110018"
      "w_mac_reset (f_wlan stuck_state) = 0"
    by (auto simp: stuck_at_def stuck_state_def zero_state_def queue_empty_def payload_def default_config_def nth_Cons')
  from stuck_queue_resets [OF this, THEN conjunct1, rule_format, of 8] show ?thesis
    by simp
qed

end
