(* ===== verification/Cam.thy ===== *)
theory Cam
  imports Wl
begin

text \<open>The key memory of the security engine (carlfw/src/cam.c). The CAM sits behind registers: rows of
  128 bits are read and written through \<^verbatim>\<open>CAM_DATA0\<close> to \<^verbatim>\<open>CAM_DATA3\<close> and \<^verbatim>\<open>CAM_ADDR\<close>. The loops that
  wait for it may not end, so they are partial functions.\<close>

subsection \<open>Operations\<close>

definition disable_cam_user :: "u16 \<Rightarrow> fw_state \<Rightarrow> fw_state" where
  "disable_cam_user userId s =
     (if userId \<le> 31 then andl AR9170_MAC_REG_CAM_ROLL_CALL_TBL_L (NOT (push_bit (unat userId) 1)) s
      else if userId \<le> 63 then andl AR9170_MAC_REG_CAM_ROLL_CALL_TBL_H (NOT (push_bit (unat (userId - 32)) 1)) s
      else s)"

definition enable_cam_user :: "u16 \<Rightarrow> fw_state \<Rightarrow> fw_state" where
  "enable_cam_user userId s =
     (if userId \<le> 31 then orl AR9170_MAC_REG_CAM_ROLL_CALL_TBL_L (push_bit (unat userId) 1) s
      else if userId \<le> 63 then orl AR9170_MAC_REG_CAM_ROLL_CALL_TBL_H (push_bit (unat (userId - 32)) 1) s
      else s)"

partial_function (option) wait_for_cam_read_ready :: "fw_state \<Rightarrow> fw_state option" where
  "wait_for_cam_read_ready s =
     (let (v, s) = get_reg AR9170_MAC_REG_CAM_STATE s
      in if v AND AR9170_MAC_CAM_STATE_READ_PENDING = 0 then wait_for_cam_read_ready s else Some s)"

partial_function (option) wait_for_cam_write_ready :: "fw_state \<Rightarrow> fw_state option" where
  "wait_for_cam_write_ready s =
     (let (v, s) = get_reg AR9170_MAC_REG_CAM_STATE s
      in if v AND AR9170_MAC_CAM_STATE_WRITE_PENDING = 0 then wait_for_cam_write_ready s else Some s)"

partial_function (option) HW_CAM_Avail :: "fw_state \<Rightarrow> fw_state option" where
  "HW_CAM_Avail s =
     (let (v, s) = get_reg AR9170_MAC_REG_CAM_MODE s
      in if v AND AR9170_MAC_CAM_HOST_PENDING \<noteq> 0 then HW_CAM_Avail s else Some s)"

definition HW_CAM_Write128 :: "u32 \<Rightarrow> u32 list \<Rightarrow> fw_state \<Rightarrow> fw_state option" where
  "HW_CAM_Write128 address data s =
     do { s \<leftarrow> HW_CAM_Avail s;
          let s = set_reg AR9170_MAC_REG_CAM_DATA0 (data ! 0) s;
          let s = set_reg AR9170_MAC_REG_CAM_DATA1 (data ! 1) s;
          let s = set_reg AR9170_MAC_REG_CAM_DATA2 (data ! 2) s;
          let s = set_reg AR9170_MAC_REG_CAM_DATA3 (data ! 3) s;
          let s = set_reg AR9170_MAC_REG_CAM_ADDR (address OR AR9170_MAC_CAM_ADDR_WRITE) s;
          wait_for_cam_write_ready s }"

definition HW_CAM_Read128 :: "u32 \<Rightarrow> fw_state \<Rightarrow> (u32 list \<times> fw_state) option" where
  "HW_CAM_Read128 address s =
     do { s \<leftarrow> HW_CAM_Avail s;
          let s = set_reg AR9170_MAC_REG_CAM_ADDR address s;
          s \<leftarrow> wait_for_cam_read_ready s;
          s \<leftarrow> HW_CAM_Avail s;
          let (d0, s) = get_reg AR9170_MAC_REG_CAM_DATA0 s;
          let (d1, s) = get_reg AR9170_MAC_REG_CAM_DATA1 s;
          let (d2, s) = get_reg AR9170_MAC_REG_CAM_DATA2 s;
          let (d3, s) = get_reg AR9170_MAC_REG_CAM_DATA3 s;
          Some ([d0, d1, d2, d3], s) }"

text \<open>Replacing a field of \<^verbatim>\<open>w\<close> bits of a word: the new value is not masked.\<close>

definition put_field :: "nat \<Rightarrow> nat \<Rightarrow> u32 \<Rightarrow> u32 \<Rightarrow> u32" where
  "put_field w i v d = (d AND NOT (push_bit (i * w) (mask w))) OR push_bit (i * w) v"

text \<open>\<^verbatim>\<open>struct carl9170_set_key_cmd\<close> in the command.\<close>

definition key_user :: "memory \<Rightarrow> u32 \<Rightarrow> u16" where "key_user m key = ld16 m key"
definition key_keyId :: "memory \<Rightarrow> u32 \<Rightarrow> u16" where "key_keyId m key = ld16 m (key + 2)"
definition key_type :: "memory \<Rightarrow> u32 \<Rightarrow> u16" where "key_type m key = ld16 m (key + 4)"
definition key_macAddr :: "memory \<Rightarrow> u32 \<Rightarrow> nat \<Rightarrow> u8" where "key_macAddr m key i = m (key + 6 + of_nat i)"
definition key_key :: "memory \<Rightarrow> u32 \<Rightarrow> u32 list" where
  "key_key m key = map (\<lambda>i. ld32 m (key + 12 + 4 * of_nat i)) [0..<4]"

text \<open>Where the encryption type of a user is: row, word and nibble.\<close>

definition encry_place :: "u16 \<Rightarrow> u16 \<times> nat \<times> nat" where
  "encry_place user =
     (if user \<ge> AR9170_CAM_MAX_USER
      then (DEFAULT_ENCRY_TYPE, 0, unat ((user - AR9170_CAM_MAX_USER) AND 7))
      else (ENCRY_TYPE_START_ADDR + drop_bit 5 user, unat (drop_bit 3 user AND 3), unat (user AND 7)))"

text \<open>One round of the loop over the bytes of the MAC address.\<close>

definition set_key_mac :: "u32 \<Rightarrow> u16 \<Rightarrow> nat \<Rightarrow> fw_state \<Rightarrow> fw_state option" where
  "set_key_mac key user i s =
     (let wordId = unat (drop_bit 2 user AND 3); byteId = unat (user AND 3);
          row = drop_bit 4 user * 6
      in do { (data, s) \<leftarrow> HW_CAM_Read128 (ucast (row + of_nat i)) s;
              let data = data[wordId := put_field 8 byteId (ucast (key_macAddr (f_ram s) key i)) (data ! wordId)];
              HW_CAM_Write128 (ucast (row + of_nat i)) data s })"

definition set_key :: "u32 \<Rightarrow> fw_state \<Rightarrow> fw_state option" where
  "set_key key s =
     (let user = key_user (f_ram s) key; keyId = key_keyId (f_ram s) key
      in if user > AR9170_CAM_MAX_USER + 3 then Some s
         else if keyId > 1 then Some s
         else
           let s = disable_cam_user user s;
               (row, wordId, nibbleId) = encry_place user
           in do { (data, s) \<leftarrow> HW_CAM_Read128 (ucast row) s;
                   let data = data[wordId := put_field 4 nibbleId (ucast (key_type (f_ram s) key)) (data ! wordId)];
                   s \<leftarrow> HW_CAM_Write128 (ucast row) data s;
                   s \<leftarrow> (if user < AR9170_CAM_MAX_USER then foldM (set_key_mac key user) [0..<6] s else Some s);
                   s \<leftarrow> HW_CAM_Write128 (ucast (KEY_START_ADDR + user * 2 + keyId)) (key_key (f_ram s) key) s;
                   Some (enable_cam_user user s) })"

definition disable_key :: "u32 \<Rightarrow> fw_state \<Rightarrow> fw_state" where
  "disable_key key s = disable_cam_user (ld16 (f_ram s) key) s"

subsection \<open>What the key operations change\<close>

text \<open>Only registers change, and the rows of the CAM that are addressed lie below the counters.\<close>

definition cam_row_ok :: "u32 \<times> u32 \<Rightarrow> bool" where
  "cam_row_ok w \<longleftrightarrow> (fst w = AR9170_MAC_REG_CAM_ADDR \<longrightarrow> snd w AND 0x7fffffff < COUNTER_START_ADDR)"

definition cam_run :: "fw_state \<Rightarrow> fw_state \<Rightarrow> bool" where
  "cam_run s t \<longleftrightarrow> same_core s t \<and> (\<exists>ws. hw_log (f_hw t) = hw_log (f_hw s) @ ws \<and> list_all cam_row_ok ws)"

text \<open>A CAM that is never busy.\<close>

definition cam_ready :: "fw_state \<Rightarrow> bool" where
  "cam_ready s \<longleftrightarrow> (\<forall>n. hw_dev (f_hw s) n AR9170_MAC_REG_CAM_MODE = Some 0 \<and>
     hw_dev (f_hw s) n AR9170_MAC_REG_CAM_STATE =
       Some (AR9170_MAC_CAM_STATE_READ_PENDING OR AR9170_MAC_CAM_STATE_WRITE_PENDING))"

lemma cam_run_refl [simp]: "cam_run s s"
  by (simp add: cam_run_def)

lemma cam_run_trans: "cam_run s t \<Longrightarrow> cam_run t u \<Longrightarrow> cam_run s u"
  unfolding cam_run_def by (force intro: same_core_trans)

lemma cam_run_ready: "cam_run s t \<Longrightarrow> cam_ready t = cam_ready s"
  by (auto simp: cam_run_def cam_ready_def same_core_def)

lemma cam_run_tick [simp]: "cam_run s (tick s)"
  by (simp add: cam_run_def) (simp add: tick_def)

lemma cam_run_get [simp]: "cam_run s (snd (get_reg a s))"
  by (simp add: get_reg_def)

lemma cam_run_set: "cam_row_ok (a, v) \<Longrightarrow> cam_run s (set_reg a v s)"
  by (simp add: cam_run_def) (simp add: set_reg_def)

lemma cam_run_user [simp]: "cam_run s (disable_cam_user u s)" "cam_run s (enable_cam_user u s)"
  by (auto simp: disable_cam_user_def enable_cam_user_def andl_def orl_def get_reg_def cam_row_ok_def
      intro: cam_run_trans [OF cam_run_tick cam_run_set])

lemma cam_waits:
  assumes "cam_ready s"
  shows "HW_CAM_Avail s = Some (tick s)" "wait_for_cam_read_ready s = Some (tick s)"
    "wait_for_cam_write_ready s = Some (tick s)"
  using assms
  by (subst HW_CAM_Avail.simps wait_for_cam_read_ready.simps wait_for_cam_write_ready.simps,
      simp add: get_reg_def peek_def cam_ready_def)+

lemma row_ok_address:
  "a < COUNTER_START_ADDR \<Longrightarrow> cam_row_ok (AR9170_MAC_REG_CAM_ADDR, a)"
  "a < COUNTER_START_ADDR \<Longrightarrow> cam_row_ok (AR9170_MAC_REG_CAM_ADDR, a OR AR9170_MAC_CAM_ADDR_WRITE)"
  using word_and_le2 [of a "0x7fffffff"]
  by (auto simp: cam_row_ok_def bit.conj_disj_distrib2 intro: le_less_trans)

lemma cam_write:
  assumes "cam_ready s" "a < COUNTER_START_ADDR"
  shows "\<exists>t. HW_CAM_Write128 a data s = Some t \<and> cam_run s t"
proof -
  let ?t = "set_reg AR9170_MAC_REG_CAM_ADDR (a OR AR9170_MAC_CAM_ADDR_WRITE)
    (set_reg AR9170_MAC_REG_CAM_DATA3 (data ! 3) (set_reg AR9170_MAC_REG_CAM_DATA2 (data ! 2)
    (set_reg AR9170_MAC_REG_CAM_DATA1 (data ! 1) (set_reg AR9170_MAC_REG_CAM_DATA0 (data ! 0) (tick s)))))"
  have r: "cam_run s ?t"
    by (intro cam_run_trans [OF _ cam_run_set] cam_run_tick row_ok_address assms(2)) (simp_all add: cam_row_ok_def)
  then have "HW_CAM_Write128 a data s = Some (tick ?t)"
    using cam_run_ready [OF r] assms(1) by (simp add: HW_CAM_Write128_def cam_waits)
  then show ?thesis
    using cam_run_trans [OF r cam_run_tick] by blast
qed

lemma cam_read:
  assumes "cam_ready s" "a < COUNTER_START_ADDR"
  shows "\<exists>data t. HW_CAM_Read128 a s = Some (data, t) \<and> length data = 4 \<and> cam_run s t"
proof -
  let ?t = "set_reg AR9170_MAC_REG_CAM_ADDR a (tick s)"
  have r: "cam_run s ?t" "cam_run s (tick ?t)"
    by (intro cam_run_trans [OF _ cam_run_set] cam_run_trans [OF _ cam_run_tick] cam_run_tick row_ok_address assms(2))+
  have w: "cam_ready ?t" "cam_ready (tick ?t)"
    using r [THEN cam_run_ready] assms(1) by simp_all
  have "cam_run s (tick (tick (tick (tick (tick (tick ?t))))))"
    by (intro cam_run_trans [OF _ cam_run_tick] r)
  then show ?thesis
    using assms(1) w by (simp add: HW_CAM_Read128_def cam_waits get_reg_def)
qed


lemma cam_update:
  assumes "cam_ready s" "a < COUNTER_START_ADDR"
  shows "\<exists>t. do { (data, s) \<leftarrow> HW_CAM_Read128 a s; HW_CAM_Write128 a (f data s) s } = Some t \<and> cam_run s t"
proof -
  obtain data t where t: "HW_CAM_Read128 a s = Some (data, t)" "cam_run s t"
    using cam_read [OF assms] by blast
  then obtain u where "HW_CAM_Write128 a (f data t) t = Some u" "cam_run t u"
    using cam_write [OF _ assms(2)] cam_run_ready assms(1) by blast
  then show ?thesis
    using t cam_run_trans by auto
qed

lemma user_rows:
  fixes user keyId :: u16
  assumes "user \<le> AR9170_CAM_MAX_USER + 3" "keyId \<le> 1"
  shows "(ucast (fst (encry_place user)) :: u32) < COUNTER_START_ADDR"
    and "(ucast (KEY_START_ADDR + user * 2 + keyId) :: u32) < COUNTER_START_ADDR"
    and "user < AR9170_CAM_MAX_USER \<Longrightarrow> i < 6 \<Longrightarrow>
      (ucast (drop_bit 4 user * 6 + of_nat i) :: u32) < COUNTER_START_ADDR"
proof -
  have u: "unat user \<le> 67" "unat keyId \<le> 1"
    using assms by (simp_all add: word_le_nat_alt)
  have d: "unat (drop_bit n user) = unat user div 2 ^ n" for n
    by (metis unat_drop_bit_eq drop_bit_eq_div)
  show "(ucast (KEY_START_ADDR + user * 2 + keyId) :: u32) < COUNTER_START_ADDR"
    using u by (simp add: word_less_nat_alt unat_word_ariths)
  show "(ucast (fst (encry_place user)) :: u32) < COUNTER_START_ADDR"
  proof -
    have "unat user div 32 < 139"
      using u(1) by linarith
    then show ?thesis
      using u by (simp add: encry_place_def word_less_nat_alt unat_word_ariths d)
  qed
  assume i: "user < AR9170_CAM_MAX_USER" "i < 6"
  then have "unat user div 16 < 4"
    by (simp add: word_less_nat_alt less_mult_imp_div_less)
  then have "unat user div 16 * 6 + i < 24"
    using i(2) by linarith
  then show "(ucast (drop_bit 4 user * 6 + of_nat i) :: u32) < COUNTER_START_ADDR"
    using i(2) by (simp add: word_less_nat_alt unat_word_ariths unat_of_nat16 d)
qed

text \<open>C29. Setting a key on a CAM that answers returns for every command. It changes registers only and
  addresses only rows of the address, type and key tables, below the counters. A command with a user
  above 67 or a key above 1 is ignored.\<close>

theorem set_key_in_tables:
  assumes "cam_ready s"
  shows "\<exists>s' ws. set_key key s = Some s' \<and> same_core s s' \<and> hw_log (f_hw s') = hw_log (f_hw s) @ ws \<and>
     (\<forall>(a, v) \<in> set ws. a = AR9170_MAC_REG_CAM_ADDR \<longrightarrow> v AND 0x7fffffff < COUNTER_START_ADDR) \<and>
     (key_user (f_ram s) key > AR9170_CAM_MAX_USER + 3 \<or> key_keyId (f_ram s) key > 1 \<longrightarrow> s' = s)"
proof -
  let ?user = "key_user (f_ram s) key" and ?keyId = "key_keyId (f_ram s) key"
  let ?bad = "?user > AR9170_CAM_MAX_USER + 3 \<or> ?keyId > 1"
  have "\<exists>s'. set_key key s = Some s' \<and> cam_run s s' \<and> (?bad \<longrightarrow> s' = s)"
  proof (cases ?bad)
    case True
    then show ?thesis
      by (auto simp: set_key_def Let_def)
  next
    case False
    then have ok: "?user \<le> AR9170_CAM_MAX_USER + 3" "?keyId \<le> 1"
      by (simp_all add: not_less)
    let ?s1 = "disable_cam_user ?user s"
    obtain row w n where place: "encry_place ?user = (row, w, n)"
      by (cases "encry_place ?user")
    then have row: "(ucast row :: u32) < COUNTER_START_ADDR"
      using user_rows(1) [OF ok] by simp
    have r1: "cam_run s ?s1"
      by simp
    let ?f = "\<lambda>data s. data[w := put_field 4 n (ucast (key_type (f_ram s) key)) (data ! w)]"
    have "cam_ready ?s1"
      using cam_run_ready [OF r1] assms by simp
    from cam_update [OF this row, of ?f] obtain s2 where s2: "do { (data, s) \<leftarrow> HW_CAM_Read128 (ucast row) ?s1;
        HW_CAM_Write128 (ucast row) (?f data s) s } = Some s2" "cam_run ?s1 s2"
      by blast
    then have r2: "cam_run s s2"
      using r1 cam_run_trans by blast
    have "\<exists>s3. (if ?user < AR9170_CAM_MAX_USER then foldM (set_key_mac key ?user) [0..<6] s2 else Some s2) = Some s3 \<and>
        cam_run s s3"
    proof (cases "?user < AR9170_CAM_MAX_USER")
      case True
      have "\<exists>s3. foldM (set_key_mac key ?user) [0..<6] s2 = Some s3 \<and> cam_run s s3"
      proof (rule foldM_invariant [where P = "\<lambda>_ t. cam_run s t"])
        fix ys i t
        assume t: "cam_run s t" and "i \<in> set [0..<6]"
        then have "(ucast (drop_bit 4 ?user * 6 + of_nat i) :: u32) < COUNTER_START_ADDR"
          using user_rows(3) [OF ok True] by simp
        then show "\<exists>t'. set_key_mac key ?user i t = Some t' \<and> cam_run s t'"
          using cam_update [of t "ucast (drop_bit 4 ?user * 6 + of_nat i)"] t cam_run_ready [OF t] assms
          by (fastforce simp: set_key_mac_def Let_def intro: cam_run_trans)
      qed (rule r2)
      with True show ?thesis
        by simp
    qed (use r2 in simp)
    then obtain s3 where s3: "(if ?user < AR9170_CAM_MAX_USER then foldM (set_key_mac key ?user) [0..<6] s2 else Some s2) = Some s3"
        "cam_run s s3"
      by blast
    then obtain s4 where s4: "HW_CAM_Write128 (ucast (KEY_START_ADDR + ?user * 2 + ?keyId)) (key_key (f_ram s3) key) s3 = Some s4"
        "cam_run s3 s4"
      using cam_write [OF _ user_rows(2) [OF ok]] cam_run_ready assms by blast
    have "set_key key s = Some (enable_cam_user ?user s4)"
      using False s2(1) s3(1) s4(1) place
      by (simp add: set_key_def Let_def split: Option.bind_splits)
        (auto split: if_splits)
    moreover have "cam_run s (enable_cam_user ?user s4)"
      using s3(2) s4(2) by (blast intro: cam_run_trans cam_run_user)
    ultimately show ?thesis
      using False by blast
  qed
  then obtain s' ws where s': "set_key key s = Some s'" "same_core s s'" "?bad \<longrightarrow> s' = s"
      "hw_log (f_hw s') = hw_log (f_hw s) @ ws" "list_all cam_row_ok ws"
    unfolding cam_run_def by blast
  have "\<forall>(a, v) \<in> set ws. a = AR9170_MAC_REG_CAM_ADDR \<longrightarrow> v AND 0x7fffffff < COUNTER_START_ADDR"
    using s'(5) by (auto simp: cam_row_ok_def list_all_iff)
  with s' show ?thesis
    by blast
qed

definition quiet_cam :: fw_state where
  "quiet_cam = (zero_state default_config)\<lparr> f_hw := \<lparr> hw_regs = (\<lambda>_. 0),
     hw_dev = (\<lambda>n a. if a = AR9170_MAC_REG_CAM_MODE then Some 0
       else if a = AR9170_MAC_REG_CAM_STATE
       then Some (AR9170_MAC_CAM_STATE_READ_PENDING OR AR9170_MAC_CAM_STATE_WRITE_PENDING) else None),
     hw_now = 0, hw_log = [] \<rparr> \<rparr>"

theorem set_key_in_tables_witness: "\<exists>s'. set_key 0x117a84 quiet_cam = Some s' \<and> same_core quiet_cam s'"
proof -
  have "cam_ready quiet_cam"
    by (simp add: cam_ready_def quiet_cam_def)
  from set_key_in_tables [OF this, of "0x117a84"] show ?thesis
    by blast
qed

subsection \<open>The table of encryption types\<close>

definition get_field :: "nat \<Rightarrow> nat \<Rightarrow> u32 \<Rightarrow> u32" where
  "get_field w i d = take_bit w (drop_bit (i * w) d)"

lemma get_put_field:
  assumes "v = take_bit w v" "i * w + w \<le> 32"
  shows "get_field w j (put_field w i v d) = (if j = i then v else get_field w j d)"
proof (rule bit_word_eqI)
  fix n
  assume "n < LENGTH(32)"
  have v: "bit v k \<Longrightarrow> k < w" for k
    using assms(1) by (metis bit_take_bit_iff)
  show "bit (get_field w j (put_field w i v d)) n = bit (if j = i then v else get_field w j d) n"
  proof (cases "j = i")
    case True
    have "bit v n \<Longrightarrow> i * w + n < 32"
      using v [of n] assms(2) by simp
    then show ?thesis
      using True v [of n] by (auto simp: get_field_def put_field_def bit_simps)
  next
    case False
    have "\<not> (i * w \<le> j * w + n \<and> j * w + n < i * w + w)" if "n < w"
    proof (cases "i < j")
      case True
      then have "Suc i * w \<le> j * w"
        by (intro mult_le_mono) simp_all
      then show ?thesis
        by simp
    next
      case False
      then have "Suc j * w \<le> i * w"
        using \<open>j \<noteq> i\<close> by (intro mult_le_mono) simp_all
      then show ?thesis
        using that by simp
    qed
    then show ?thesis
      using False v [of "j * w + n - i * w"] bit_imp_le_length [of d "j * w + n"] by (auto simp: get_field_def put_field_def bit_simps)
  qed
qed

text \<open>The table in the rows of the CAM, as \<^verbatim>\<open>set_key\<close> reads and writes it.\<close>

definition encry_type :: "(u16 \<Rightarrow> u32 list) \<Rightarrow> u16 \<Rightarrow> u32" where
  "encry_type rows user = (let (row, wordId, nibbleId) = encry_place user in get_field 4 nibbleId (rows row ! wordId))"

definition put_encry_type :: "u16 \<Rightarrow> u32 \<Rightarrow> (u16 \<Rightarrow> u32 list) \<Rightarrow> u16 \<Rightarrow> u32 list" where
  "put_encry_type user t rows = (let (row, wordId, nibbleId) = encry_place user
     in rows(row := (rows row)[wordId := put_field 4 nibbleId t (rows row ! wordId)]))"

lemma unat_and_mask: "unat (w AND mask n) = unat w mod 2 ^ n"
  by (simp only: unsigned_take_bit_eq flip: take_bit_eq_mask) (simp add: take_bit_eq_mod)

definition place_user :: "u16 \<times> nat \<times> nat \<Rightarrow> nat" where
  "place_user p = (case p of (row, wordId, nibbleId) \<Rightarrow>
     if row = DEFAULT_ENCRY_TYPE then 64 + nibbleId else (unat row - 24) * 32 + wordId * 8 + nibbleId)"

lemma encry_place_bounds:
  assumes "user \<le> AR9170_CAM_MAX_USER + 3" "encry_place user = (row, wordId, nibbleId)"
  shows "wordId < 4" "nibbleId < 8" "place_user (row, wordId, nibbleId) = unat user"
proof -
  have u: "unat user \<le> 67"
    using assms(1) by (simp add: word_le_nat_alt)
  have d: "unat (drop_bit n user) = unat user div 2 ^ n" for n
    by (metis unat_drop_bit_eq drop_bit_eq_div)
  have m: "unat (w AND 7) = unat w mod 8" "unat (w AND 3) = unat w mod 4" for w :: u16
    using unat_and_mask [of w 3] unat_and_mask [of w 2] by (simp_all add: mask_eq_exp_minus_1)
  have "wordId < 4 \<and> nibbleId < 8 \<and> place_user (row, wordId, nibbleId) = unat user"
  proof (cases "user \<ge> AR9170_CAM_MAX_USER")
    case True
    then have "unat (user - 64) = unat user - 64" "64 \<le> unat user"
      by (simp_all add: unat_sub word_le_nat_alt)
    then show ?thesis
      using True assms(2) u by (auto simp: encry_place_def place_user_def m)
  next
    case False
    then have "unat user < 64"
      by (simp add: word_less_nat_alt not_le)
    then have "unat user div 32 < 2"
      by (simp add: less_mult_imp_div_less)
    then have "unat (24 + drop_bit 5 user) = 24 + unat user div 32"
      by (simp add: unat_word_ariths d)
    moreover have "encry_place user = (24 + drop_bit 5 user, unat user div 8 mod 4, unat user mod 8)"
      using False d [of 3] by (simp only: encry_place_def m if_False) simp
    then have "row = 24 + drop_bit 5 user" "wordId = unat user div 8 mod 4" "nibbleId = unat user mod 8"
      using assms(2) by (simp_all only: prod.inject)
    ultimately have row: "unat row = 24 + unat user div 32" "row \<noteq> 26"
      using \<open>unat user div 32 < 2\<close> by (auto simp: word_unat_eq_iff)
    have "x div 32 * 32 + x div 8 mod 4 * 8 + x mod 8 = x" for x :: nat
    proof -
      have "x div 32 * 4 + x div 8 mod 4 = x div 8"
        using div_mult_mod_eq [of "x div 8" 4] div_mult2_eq [of x 8 4] by simp
      then show ?thesis
        using div_mult_mod_eq [of x 8] by linarith
    qed
    then show ?thesis
      using row \<open>wordId = _\<close> \<open>nibbleId = _\<close> by (simp add: place_user_def)
  qed
  then show "wordId < 4" "nibbleId < 8" "place_user (row, wordId, nibbleId) = unat user"
    by simp_all
qed

text \<open>The encryption types of the 68 users have separate places: storing a type of four bits for
  one user is read back for that user and changes no other user's type.\<close>

theorem encry_type_separate:
  assumes "u \<le> AR9170_CAM_MAX_USER + 3" "v \<le> AR9170_CAM_MAX_USER + 3" "t < 16" "\<And>row. length (rows row) = 4"
  shows "encry_type (put_encry_type u t rows) v = (if v = u then t else encry_type rows v)"
proof -
  obtain ru wu nu rv wv nv where p: "encry_place u = (ru, wu, nu)" "encry_place v = (rv, wv, nv)"
    by (metis prod_cases3)
  note bu = encry_place_bounds [OF assms(1) p(1)] and bv = encry_place_bounds [OF assms(2) p(2)]
  have same: "u = v \<longleftrightarrow> ru = rv \<and> wu = wv \<and> nu = nv"
    using bu(3) bv(3) p by (metis prod.inject unsigned_word_eqI)
  have t: "t = take_bit 4 t"
    using assms(3) by (simp add: word_unat_eq_iff unsigned_take_bit_eq take_bit_nat_eq_self word_less_nat_alt)
  have "nu * 4 + 4 \<le> 32"
    using bu(2) by simp
  then show ?thesis
    using same bu(1) assms(4) get_put_field [OF t, of nu nv]
    by (cases "wv = wu") (auto simp: encry_type_def put_encry_type_def p)
qed

theorem encry_type_separate_witness:
  "encry_type (put_encry_type 9 4 (\<lambda>_. [1, 2, 3, 4])) 9 = 4 \<and>
   encry_type (put_encry_type 9 4 (\<lambda>_. [1, 2, 3, 4])) 8 = encry_type (\<lambda>_. [1, 2, 3, 4]) 8"
  using encry_type_separate [of 9 9 4 "\<lambda>_. [1, 2, 3, 4]"] encry_type_separate [of 9 8 4 "\<lambda>_. [1, 2, 3, 4]"] by simp

end
