(* ===== verification/Printf.thy ===== *)
theory Printf
  imports HostChannel
begin

text \<open>The formatter of carlfw/src/printf.c and the message macros of carlfw/include/printf.h. A format
  is the list of its characters up to the NUL, and the variable arguments are a list of unsigned
  words and strings. What the formatter prints is a list of characters, which the default build
  passes to \<^verbatim>\<open>usb_putc\<close>.\<close>

datatype printf_arg = ArgWord u32 | ArgString "u8 list"

subsection \<open>Digits\<close>

text \<open>The statics \<^verbatim>\<open>num\<close> and \<^verbatim>\<open>zs\<close>, and the characters put into \<^verbatim>\<open>buf\<close> so far.\<close>

record printf_digits =
  pd_num :: u32
  pd_zs :: bool
  pd_buf :: "u8 list"

definition out_char :: "u8 \<Rightarrow> printf_digits \<Rightarrow> printf_digits" where
  "out_char c st = st\<lparr> pd_buf := pd_buf st @ [c] \<rparr>"

definition digit_char :: "bool \<Rightarrow> u8 \<Rightarrow> u8" where
  "digit_char uc dgt = dgt + (if sint dgt < 10 then 0x30 else (if uc then 0x41 else 0x61) - 10)"

definition outDgt :: "bool \<Rightarrow> u8 \<Rightarrow> printf_digits \<Rightarrow> printf_digits" where
  "outDgt uc dgt st = (out_char (digit_char uc dgt) st)\<lparr> pd_zs := True \<rparr>"

text \<open>The subtraction loop of \<^verbatim>\<open>divOut\<close>; the divisors are positive.\<close>

function div_loop :: "u32 \<Rightarrow> u32 \<Rightarrow> u8 \<Rightarrow> u32 \<times> u8" where
  "div_loop d num dgt = (if d \<noteq> 0 \<and> d \<le> num then div_loop d (num - d) (dgt + 1) else (num, dgt))"
  by pat_completeness auto
termination
  by (relation "measure (\<lambda>(_, num, _). unat num)")
    (auto simp: unat_sub word_le_nat_alt unat_gt_0 unat_eq_zero intro!: diff_less)

declare div_loop.simps [simp del]

definition divOut :: "bool \<Rightarrow> u32 \<Rightarrow> printf_digits \<Rightarrow> printf_digits" where
  "divOut uc d st =
     (let (num, dgt) = div_loop d (pd_num st) 0; st = st\<lparr> pd_num := num \<rparr>
      in if pd_zs st \<or> 0 < dgt then outDgt uc dgt st else st)"

text \<open>\<^verbatim>\<open>for (i = 100000000; i != 1; i /= 10)\<close> and \<^verbatim>\<open>for (i = 0x10000000; i != 0x1; i >>= 4)\<close>.\<close>

definition dec_divisors :: "u32 list" where
  "dec_divisors = [100000000, 10000000, 1000000, 100000, 10000, 1000, 100, 10]"

definition hex_divisors :: "u32 list" where
  "hex_divisors = [0x10000000, 0x1000000, 0x100000, 0x10000, 0x1000, 0x100, 0x10]"

definition print_number :: "bool \<Rightarrow> u32 list \<Rightarrow> printf_digits \<Rightarrow> u8 list" where
  "print_number uc ds st = (let st = fold (divOut uc) ds st in pd_buf (outDgt uc (ucast (pd_num st)) st))"

definition print_dec :: "bool \<Rightarrow> bool \<Rightarrow> u32 \<Rightarrow> u8 list" where
  "print_dec uc neg num =
     (if neg \<and> sint num < 0
      then print_number uc dec_divisors \<lparr> pd_num = - num, pd_zs = False, pd_buf = [0x2D] \<rparr>
      else print_number uc dec_divisors \<lparr> pd_num = num, pd_zs = False, pd_buf = [] \<rparr>)"

definition print_hex :: "bool \<Rightarrow> u32 \<Rightarrow> u8 list" where
  "print_hex uc num = print_number uc hex_divisors \<lparr> pd_num = num, pd_zs = False, pd_buf = [] \<rparr>"

subsection \<open>The format\<close>

text \<open>The field width: \<^verbatim>\<open>char\<close> arithmetic.\<close>

fun read_width :: "u8 \<Rightarrow> u8 list \<Rightarrow> u8 \<times> u8 list" where
  "read_width w (ch # fmt) =
     (if 0x30 \<le> ch \<and> ch \<le> 0x39
      then read_width (push_bit 1 (push_bit 2 w + w) + ch - 0x30) fmt else (w, ch # fmt))"
| "read_width w [] = (w, [])"

lemma read_width_length: "length (snd (read_width w fmt)) \<le> length fmt"
  by (induction w fmt rule: read_width.induct) auto

fun pad_rest :: "u8 list \<Rightarrow> u8 \<Rightarrow> u8" where
  "pad_rest (c # p) w = (if 0 < sint w then pad_rest p (w - 1) else w)"
| "pad_rest [] w = w"

definition padded :: "bool \<Rightarrow> u8 \<Rightarrow> u8 list \<Rightarrow> u8 list" where
  "padded lz w p = replicate (nat (sint (pad_rest p w))) (if lz then 0x30 else 0x20) @ p"

text \<open>One conversion: the text it makes, the arguments left, and the static \<^verbatim>\<open>uc\<close>, which hexadecimal conversions
  set and decimal ones read. A conversion without its argument is undefined in C; here it prints nothing.\<close>

fun convert :: "bool \<Rightarrow> u8 \<Rightarrow> printf_arg list \<Rightarrow> u8 list \<times> printf_arg list \<times> bool" where
  "convert uc ch (ArgWord n # args) =
     (if ch = 0x75 \<or> ch = 0x64 then (print_dec uc (ch = 0x64) n, args, uc)
      else if ch = 0x70 \<or> ch = 0x78 \<or> ch = 0x58 then (print_hex (ch = 0x58) n, args, ch = 0x58)
      else if ch = 0x63 then ([ucast n], args, uc)
      else if ch = 0x25 then ([0x25], ArgWord n # args, uc) else ([], ArgWord n # args, uc))"
| "convert uc ch (ArgString p # args) =
     (if ch = 0x73 then (p, args, uc) else if ch = 0x25 then ([0x25], ArgString p # args, uc)
      else ([], ArgString p # args, uc))"
| "convert uc ch [] = (if ch = 0x25 then ([0x25], [], uc) else ([], [], uc))"

function printf_out :: "bool \<Rightarrow> u8 list \<Rightarrow> printf_arg list \<Rightarrow> u8 list \<times> bool" where
  "printf_out uc fmt args =
     (case fmt of [] \<Rightarrow> ([], uc)
      | ch # fmt \<Rightarrow>
          if ch \<noteq> 0x25 then let (t, uc) = printf_out uc fmt args in (ch # t, uc)
          else let lz = (fmt \<noteq> [] \<and> hd fmt = 0x30);
                   fmt = (if lz then tl fmt else fmt);
                   (w, rest) = read_width 0 fmt
               in case rest of [] \<Rightarrow> ([], uc)
                  | ch # rest \<Rightarrow>
                      let (p, args, uc) = convert uc ch args; (t, uc) = printf_out uc rest args
                      in (padded lz w p @ t, uc))"
  by pat_completeness auto
termination
proof (relation "measure (\<lambda>(_, fmt, _). length fmt)")
  fix fmt ch fmt' lz fmt'' p w rest ch' rest'
  assume "fmt = (ch :: u8) # fmt'" "lz = (fmt' \<noteq> [] \<and> hd fmt' = 0x30)" "fmt'' = (if lz then tl fmt' else fmt')"
    "p = read_width 0 fmt''" "(w, rest) = p" "rest = ch' # rest'"
  then show "((u', rest', args'), u, fmt, args) \<in> measure (\<lambda>(_, fmt, _). length fmt)" for u u' :: bool and args args' :: "printf_arg list"
  proof -
    have "length rest \<le> length fmt''"
      using read_width_length [of 0 fmt''] \<open>p = read_width 0 fmt''\<close> \<open>(w, rest) = p\<close> by (metis snd_conv)
    moreover have "length fmt'' \<le> length fmt'"
      using \<open>fmt'' = (if lz then tl fmt' else fmt')\<close> by simp
    ultimately show ?thesis
      using \<open>rest = ch' # rest'\<close> \<open>fmt = ch # fmt'\<close> by simp
  qed
qed auto

declare printf_out.simps [simp del]

definition tfp_printf :: "u8 list \<Rightarrow> printf_arg list \<Rightarrow> fw_state \<Rightarrow> fw_state" where
  "tfp_printf fmt args s =
     (let (t, uc) = printf_out (f_printf_uc s) fmt args
      in fold usb_putc (t @ [0]) (f_printf_uc_update (\<lambda>_. uc) s))"

definition min_printf :: "u8 list \<Rightarrow> fw_state \<Rightarrow> fw_state" where
  "min_printf fmt = fold usb_putc (fmt @ [0])"

subsection \<open>The message macros\<close>

definition text_bytes :: "string \<Rightarrow> u8 list" where
  "text_bytes t = map of_char t"

definition INFO :: "string \<Rightarrow> printf_arg list \<Rightarrow> fw_state \<Rightarrow> fw_state" where
  "INFO fmt = tfp_printf (text_bytes fmt)"

definition ERR :: "string \<Rightarrow> printf_arg list \<Rightarrow> fw_state \<Rightarrow> fw_state" where
  "ERR fmt = tfp_printf (text_bytes (''ERR:'' @ fmt))"

definition BUG :: "string \<Rightarrow> u32 \<Rightarrow> string \<Rightarrow> printf_arg list \<Rightarrow> fw_state \<Rightarrow> fw_state" where
  "BUG func line msg args = tfp_printf (text_bytes (''BUG: %s()@%d '' @ [CHR 0x22] @ msg @ [CHR 0x22]))
     ([ArgString (text_bytes func), ArgWord line] @ args)"

definition BUG_ON :: "bool \<Rightarrow> string \<Rightarrow> u32 \<Rightarrow> string \<Rightarrow> fw_state \<Rightarrow> fw_state" where
  "BUG_ON c func line msg s = (if c then BUG func line msg [] s else s)"

subsection \<open>The digits are right\<close>

text \<open>Positional notation, without leading zeros.\<close>

fun digits :: "nat \<Rightarrow> nat \<Rightarrow> nat list" where
  "digits b n = (if n < b \<or> b < 2 then [n] else digits b (n div b) @ [n mod b])"

declare digits.simps [simp del]

primrec fixed_digits :: "nat \<Rightarrow> nat \<Rightarrow> nat \<Rightarrow> nat list" where
  "fixed_digits b 0 n = [n]"
| "fixed_digits b (Suc k) n = n div b ^ Suc k # fixed_digits b k (n mod b ^ Suc k)"

primrec lead_digits :: "nat \<Rightarrow> nat \<Rightarrow> nat \<Rightarrow> nat list" where
  "lead_digits b 0 n = [n]"
| "lead_digits b (Suc k) n = (if n div b ^ Suc k = 0 then lead_digits b k n
     else n div b ^ Suc k # fixed_digits b k (n mod b ^ Suc k))"

lemma fixed_digits_snoc:
  "0 < b \<Longrightarrow> fixed_digits b (Suc k) n = fixed_digits b k (n div b) @ [n mod b]"
proof (induction k arbitrary: n)
  case (Suc k)
  have "n mod b ^ Suc (Suc k) div b = n div b mod b ^ Suc k"
    using Suc.prems by (simp add: mod_mult2_eq div_mult2_eq)
  moreover have "n mod b ^ Suc (Suc k) mod b = n mod b"
    by (simp add: mod_mod_cancel)
  moreover have "fixed_digits b (Suc (Suc k)) n = n div b ^ Suc (Suc k) # fixed_digits b (Suc k) (n mod b ^ Suc (Suc k))"
    by (rule fixed_digits.simps(2))
  moreover have "n div b ^ Suc (Suc k) = n div b div b ^ Suc k"
    by (simp add: div_mult2_eq)
  ultimately show ?case
    by (simp only: Suc.IH [OF Suc.prems, of "n mod b ^ Suc (Suc k)"] fixed_digits.simps(2) [of b k "n div b"] append_Cons)
qed simp

lemma lead_digits_digits:
  assumes "2 \<le> b" "n < b ^ Suc k"
  shows "lead_digits b k n = digits b n"
  using assms(2)
proof (induction k arbitrary: n)
  case 0
  then show ?case
    by (subst digits.simps) simp
next
  case (Suc k)
  show ?case
  proof (cases "n div b ^ Suc k = 0")
    case True
    then have "n < b ^ Suc k"
      using assms(1) by (simp add: div_eq_0_iff)
    with True Suc.IH show ?thesis
      by simp
  next
    case False
    have n: "b ^ Suc k \<le> n"
      using False assms(1) by (simp add: div_eq_0_iff not_less)
    have "b \<le> b ^ Suc k"
      using assms(1) by simp
    then have "\<not> n < b"
      using n by linarith
    then have "digits b n = digits b (n div b) @ [n mod b]"
      using assms(1) by (subst digits.simps) simp
    moreover have "n div b < b ^ Suc k"
      using Suc.prems assms(1) by (simp add: less_mult_imp_div_less mult.commute)
    then have "digits b (n div b) = lead_digits b k (n div b)"
      using Suc.IH by simp
    moreover have "n div b ^ Suc k # fixed_digits b k (n mod b ^ Suc k) = fixed_digits b k (n div b) @ [n mod b]"
      using fixed_digits_snoc [of b k n] assms(1) by simp
    moreover have "fixed_digits b k (n div b) = lead_digits b k (n div b)"
    proof (cases k)
      case (Suc j)
      have "b ^ k \<le> n div b"
        using n assms(1) by (simp add: less_eq_div_iff_mult_less_eq mult.commute)
      then have "n div b div b ^ Suc j \<noteq> 0"
        using Suc assms(1) by (simp add: div_eq_0_iff)
      then show ?thesis
        using Suc by simp
    qed simp
    ultimately show ?thesis
      using False by simp
  qed
qed

lemma div_loop_div:
  shows "d \<noteq> 0 \<Longrightarrow> div_loop d num dgt = (num mod d, dgt + of_nat (unat num div unat d))"
proof (induction d num dgt rule: div_loop.induct)
  case (1 d num dgt)
  show ?case
  proof (cases "d \<le> num")
    case True
    have u: "unat (num - d) = unat num - unat d" "unat d \<le> unat num" "0 < unat d"
      using True 1(2) by (simp_all add: unat_sub word_le_nat_alt unat_gt_0)
    have "(num - d) mod d = num mod d"
      by (rule unat_inj32) (use u in \<open>simp add: unat_mod le_mod_geq\<close>)
    moreover have "unat num div unat d = Suc (unat (num - d) div unat d)"
      unfolding u(1) using u(2,3) by (rule le_div_geq [rotated])
    ultimately show ?thesis
      using True 1 by (subst div_loop.simps) (simp add: algebra_simps)
  next
    case False
    then have "num mod d = num" "unat num div unat d = 0"
      by (auto simp: word_le_nat_alt not_le unat_mod intro!: unat_inj32)
    with False show ?thesis
      by (subst div_loop.simps) simp
  qed
qed

text \<open>The loop over the divisors, for a base up to sixteen.\<close>

definition divisors :: "nat \<Rightarrow> nat \<Rightarrow> u32 list" where
  "divisors b k = map (\<lambda>i. of_nat (b ^ i)) (rev [1..<Suc k])"

lemma divisors_Suc: "divisors b (Suc k) = of_nat (b ^ Suc k) # divisors b k"
  by (simp add: divisors_def)

lemma number_divisors: "dec_divisors = divisors 10 8" "hex_divisors = divisors 16 7"
  by (simp_all add: dec_divisors_def hex_divisors_def divisors_def upt_rec)

definition number_chars :: "bool \<Rightarrow> nat list \<Rightarrow> u8 list" where
  "number_chars uc ds = map (\<lambda>d. digit_char uc (of_nat d)) ds"

lemma print_number_spec:
  assumes "b ^ k < 4294967296" "2 \<le> b" "b \<le> 256" "unat (pd_num st) div b ^ k < 256"
  shows "print_number uc (divisors b k) st = pd_buf st @ number_chars uc
     (if pd_zs st then fixed_digits b k (unat (pd_num st)) else lead_digits b k (unat (pd_num st)))"
  using assms(1,4)
proof (induction k arbitrary: st)
  case 0
  have "ucast (pd_num st) = (of_nat (unat (pd_num st)) :: u8)"
    by simp
  then show ?case
    by (simp add: print_number_def divisors_def outDgt_def out_char_def number_chars_def Let_def del: of_nat_unat)
next
  case (Suc k)
  let ?n = "unat (pd_num st)" and ?d = "of_nat (b ^ Suc k) :: u32"
  have d: "unat ?d = b ^ Suc k" "?d \<noteq> 0"
  proof -
    show u: "unat ?d = b ^ Suc k"
      using Suc.prems(1) by (rule unat_of_nat32)
    have "0 < b ^ Suc k"
      using assms(2) by simp
    then show "?d \<noteq> 0"
      using u by (metis less_irrefl unat_0)
  qed
  let ?q = "?n div b ^ Suc k" and ?r = "?n mod b ^ Suc k"
  have q: "?q < 256" "unat (of_nat ?q :: u8) = ?q"
    using Suc.prems(2) by (simp_all add: unat_of_nat8)
  have q0: "0 < (of_nat ?q :: u8) \<longleftrightarrow> ?q \<noteq> 0"
    using q(2) by (simp add: word_less_nat_alt)
  have r: "unat (pd_num st mod ?d) = ?r"
    unfolding unat_mod d(1) ..
  have "?r < b * b ^ k"
    using assms(2) by simp
  then have rk: "?r div b ^ k < b"
    by (simp add: less_mult_imp_div_less)
  have bk: "b ^ k < 4294967296"
    using Suc.prems(1) assms(2) by (auto intro: le_less_trans [rotated])
  define t where "t = divOut uc ?d st"
  have t: "t = (if pd_zs st \<or> ?q \<noteq> 0
      then st\<lparr> pd_num := pd_num st mod ?d, pd_buf := pd_buf st @ [digit_char uc (of_nat ?q)], pd_zs := True \<rparr>
      else st\<lparr> pd_num := pd_num st mod ?d \<rparr>)"
    using div_loop_div [OF d(2), of "pd_num st" 0] d(1) q0
    by (simp add: t_def divOut_def outDgt_def out_char_def Let_def)
  have tn: "unat (pd_num t) = ?r"
    using r by (simp add: t)
  have "print_number uc (divisors b k) t = pd_buf t @ number_chars uc
      (if pd_zs t then fixed_digits b k ?r else lead_digits b k ?r)"
    using Suc.IH [OF bk, of t] rk assms(3) tn by simp
  moreover have "print_number uc (divisors b (Suc k)) st = print_number uc (divisors b k) t"
    by (simp only: divisors_Suc print_number_def fold_simps t_def)
  moreover have "?q = 0 \<Longrightarrow> ?r = ?n"
    using assms(2) by (auto simp: div_eq_0_iff)
  ultimately show ?case
    by (auto simp: t number_chars_def simp del: power_Suc)
qed

lemma digit_char_digit: "d < 10 \<Longrightarrow> digit_char uc (of_nat d) = of_nat (0x30 + d)"
proof -
  assume "d < 10"
  then have "sint (of_nat d :: u8) = int d"
    by (simp add: signed_of_nat signed_take_bit_int_eq_self)
  with \<open>d < 10\<close> show ?thesis
    by (simp add: digit_char_def add.commute)
qed

lemma digits_less: "2 \<le> b \<Longrightarrow> d \<in> set (digits b n) \<Longrightarrow> d < b"
proof (induction b n rule: digits.induct)
  case (1 b n)
  then show ?case
    by (subst (asm) (2) digits.simps) (auto split: if_splits)
qed

lemma fixed_digits_less: "0 < b \<Longrightarrow> m < b ^ Suc k \<Longrightarrow> \<forall>d \<in> set (fixed_digits b k m). d < b"
proof (induction k arbitrary: m)
  case (Suc k)
  have "m mod b ^ Suc k < b ^ Suc k"
    using Suc.prems(1) by simp
  then have "\<forall>d \<in> set (fixed_digits b k (m mod b ^ Suc k)). d < b"
    using Suc.IH Suc.prems(1) by blast
  moreover have "m div b ^ Suc k < b"
    using Suc.prems by (simp add: div_less_iff_less_mult mult.commute)
  ultimately show ?case
    by simp
qed simp


text \<open>Examples: 4095, -1 and 3000000000, which comes out as u00000000.\<close>

lemma print_dec_samples:
  "print_dec False False 4095 = [0x34, 0x30, 0x39, 0x35]" "print_hex True 4095 = [0x46, 0x46, 0x46]"
  "print_dec False True (- 1) = [0x2D, 0x31]"
  "print_dec False False 3000000000 = 0x75 # replicate 8 0x30"
  by code_simp+

end
