(* ===== verification/HostIf.thy ===== *)
theory HostIf
  imports Wlan Cam Printf
begin

text \<open>The host interface (carlfw/src/hostif.c): frames downloaded from the host, blocks that come back
  from it, the recovery of the download queue, and the command handler. A command lies in
  \<^verbatim>\<open>dma_mem.reserved.cmd\<close>: the head \<^verbatim>\<open>len, cmd, seq, ext\<close>, then the payload. The response slot is given
  by its address. Commands that name an address read or write the register there.\<close>

subsection \<open>Operations\<close>

definition length_check :: "u32 \<Rightarrow> fw_state \<Rightarrow> bool" where
  "length_check desc s =
     (if unat (dd_totalLen (f_descs s desc)) < 24 then False
      else if sd_len (super_s (payload desc s) s) > dd_totalLen (f_descs s desc) then False
      else True)"

definition download_step :: "u32 \<Rightarrow> fw_state \<Rightarrow> fw_state option" where
  "download_step desc s =
     (if \<not> length_check desc s then
        let s = wlan_tx_complete (payload desc s) False s
        in do { s \<leftarrow> reclaim DownQ desc s; Some (down_trigger s) }
      else wlan_tx desc s)"

definition handle_download :: "fw_state \<Rightarrow> fw_state option" where
  "handle_download s = for_each_desc_not_bits download_step DownQ AR9170_OWN_BITS_HW s"

definition upload_step :: "u32 \<Rightarrow> fw_state \<Rightarrow> fw_state option" where
  "upload_step desc s =
     (if payload desc s = reserved_rsp then
        Some (f_usb_update (\<lambda>u. u\<lparr> u_int_desc := desc, u_int_desc_available := 1 \<rparr>) s)
      else do { s \<leftarrow> reclaim RxQ desc s; Some (wlan_trigger AR9170_DMA_TRIGGER_RXQ s) })"

definition handle_upload :: "fw_state \<Rightarrow> fw_state option" where
  "handle_upload s = for_each_desc_not_bits upload_step UpQ AR9170_OWN_BITS_HW s"

text \<open>\<^verbatim>\<open>handle_download_exception\<close>: the loop \<^verbatim>\<open>__while_desc_bits\<close> with its break, which leaves its variable
  at the target or at the head, and \<^verbatim>\<open>__for_each_desc_continue\<close>.\<close>

partial_function (option) exception_loop :: "u32 \<Rightarrow> fw_state \<Rightarrow> (u32 \<times> fw_state) option" where
  "exception_loop target s =
     (let q = f_queues s DownQ; desc = q_head q
      in if \<not> queue_empty q \<and> dd_status (f_descs s desc) AND AR9170_OWN_BITS = AR9170_OWN_BITS_HW then
           if desc = target then Some (desc, s)
           else case unlink_head DownQ s of (d, s) \<Rightarrow>
             do { s \<leftarrow> (case d of None \<Rightarrow> None | Some d \<Rightarrow> reclaim DownQ d s); exception_loop target s }
         else Some (desc, s))"

partial_function (option) fix_loop :: "u32 \<Rightarrow> fw_state \<Rightarrow> fw_state option" where
  "fix_loop desc s =
     (if desc \<noteq> q_terminator (f_queues s DownQ) then
        let s = (if dd_status (f_descs s desc) AND AR9170_OWN_BITS = AR9170_OWN_BITS_SW
                 then s\<lparr> f_descs := dma_fix_downqueue desc (f_descs s) \<rparr> else s)
        in fix_loop (dd_nextAddr (f_descs s (dd_lastAddr (f_descs s desc)))) s
      else Some s)"

definition handle_download_exception :: "fw_state \<Rightarrow> fw_state option" where
  "handle_download_exception s =
     (let s = usb_stop_down_queue s;
          (hi, s) = get_reg AR9170_PTA_REG_DN_CURR_ADDRH s;
          (lo, s) = get_reg AR9170_PTA_REG_DN_CURR_ADDRL s;
          target = push_bit 16 hi OR lo
      in do { (desc, s) \<leftarrow> exception_loop target s;
              s \<leftarrow> fix_loop desc s;
              Some (down_trigger (usb_start_down_queue s)) })"

definition handle_host_interface :: "fw_state \<Rightarrow> fw_state option" where
  "handle_host_interface s =
     (let (pta_int, s) = get_reg AR9170_PTA_REG_INT_FLAG s
      in do { s \<leftarrow> (if pta_int AND AR9170_PTA_INT_FLAG_DN \<noteq> 0 then handle_download s else Some s);
              s \<leftarrow> (if pta_int AND AR9170_PTA_INT_FLAG_UP \<noteq> 0 then handle_upload s else Some s);
              let (pta_int, s) = get_reg AR9170_PTA_REG_DMA_STATUS s;
              if pta_int AND 1 \<noteq> 0 then handle_download_exception s else Some s })"

subsection \<open>Commands\<close>

abbreviation cmd_len :: "fw_state \<Rightarrow> u8" where "cmd_len s \<equiv> f_ram s reserved_cmd"
abbreviation cmd_code :: "fw_state \<Rightarrow> u8" where "cmd_code s \<equiv> f_ram s (reserved_cmd + 1)"
abbreviation cmd_word :: "fw_state \<Rightarrow> nat \<Rightarrow> u32" where
  "cmd_word s i \<equiv> ld32 (f_ram s) (reserved_cmd + 4 + 4 * of_nat i)"

definition set_resp_len :: "u32 \<Rightarrow> u8 \<Rightarrow> fw_state \<Rightarrow> fw_state" where
  "set_resp_len resp n = f_ram_update (st8 resp n)"

text \<open>The loops over registers: read, write, write bytes.\<close>

definition rreg_step :: "u32 \<Rightarrow> nat \<Rightarrow> fw_state \<Rightarrow> fw_state" where
  "rreg_step resp i s =
     (let (v, s) = get_reg (cmd_word s i) s in f_ram_update (st32 (resp + 4 + 4 * of_nat i) v) s)"

definition wreg_step :: "nat \<Rightarrow> fw_state \<Rightarrow> fw_state" where
  "wreg_step i s = set_reg (cmd_word s (2 * i)) (cmd_word s (2 * i + 1)) s"

definition wregb_step :: "nat \<Rightarrow> fw_state \<Rightarrow> fw_state" where
  "wregb_step i s = setb (cmd_word s 0 + of_nat i) (f_ram s (reserved_cmd + 12 + of_nat i)) s"

text \<open>\<^verbatim>\<open>MIN(cmd->wregb.count, cmd->hdr.len - 8)\<close>: the difference is an int, converted to unsigned for the
  comparison.\<close>

definition wregb_count :: "fw_state \<Rightarrow> u32" where
  "wregb_count s = min (cmd_word s 1) (ucast (cmd_len s) - 8)"

text \<open>The interface number indexes \<^verbatim>\<open>cab_queue\<close>, \<^verbatim>\<open>cab_flush_trigger\<close> and \<^verbatim>\<open>sequence\<close> unchecked: beyond their
  size the behaviour is undefined, which is \<^verbatim>\<open>None\<close>.\<close>

definition bcn_ctrl_cmd :: "fw_state \<Rightarrow> fw_state option" where
  "bcn_ctrl_cmd s =
     (let vif = unat (cmd_word s 0)
      in if vif \<ge> CARL9170_INTF_NUM then None
         else if cmd_word s 1 AND CARL9170_BCN_CTRL_CAB_TRIGGER \<noteq> 0 then
           let addr = cmd_word s 2; len = cmd_word s 3;
               s = wlan_modify_beacon vif addr len s;
               s = set_reg AR9170_MAC_REG_BCN_ADDR addr s;
               s = set_reg AR9170_MAC_REG_BCN_LENGTH len s
           in Some (set_reg AR9170_MAC_REG_BCN_CTRL AR9170_BCN_CTRL_READY s)
         else do { s \<leftarrow> wlan_cab_flush_queue vif s;
                   Some (f_wlan_update (w_cab_flush_trigger_update (upd_nth vif (\<lambda>_. CARL9170_CAB_TRIGGER_EMPTY))) s) })"

definition tally_cmd :: "u32 \<Rightarrow> fw_state \<Rightarrow> fw_state" where
  "tally_cmd resp s =
     (let s = f_ram_update (wr_bytes (resp + 4) (tally_bytes (f_tally s))) s;
          s = f_ram_update (st32 (resp + 4 + 20) (f_ticks_per_usec s)) s
      in f_tally_update (\<lambda>t. t\<lparr> ta_active := 0, ta_cca := 0, ta_tx_time := 0, ta_rx_total := 0,
           ta_rx_overrun := 0, ta_tick := 0 \<rparr>) s)"

definition read_tsf_cmd :: "u32 \<Rightarrow> fw_state \<Rightarrow> fw_state" where
  "read_tsf_cmd resp s =
     (let ((lo, hi), s) = read_tsf s; s = set_resp_len resp 8 s
      in f_ram_update (wr_bytes (resp + 4) (bytes32 lo @ bytes32 hi)) s)"

definition cmd_dispatch :: "u32 \<Rightarrow> u8 \<Rightarrow> fw_state \<Rightarrow> fw_state option" where
  "cmd_dispatch resp c s =
     (if c = CARL9170_CMD_RREG then Some (fold (rreg_step resp) [0..<unat (cmd_len s) div 4] s)
      else if c = CARL9170_CMD_WREG then
        Some (fold wreg_step [0..<unat (cmd_len s) div 8] (set_resp_len resp 0 s))
      else if c = CARL9170_CMD_ECHO then
        Some (f_ram_update (wr_bytes (resp + 4) (rd_bytes (reserved_cmd + 4) (unat (cmd_len s)) (f_ram s))) s)
      else if c = CARL9170_CMD_SWRST then Some (upd_mac_reset (\<lambda>_. CARL9170_MAC_RESET_FORCE) s)
      else if c = CARL9170_CMD_REBOOT then Some (f_reboot_update (\<lambda>_. 1) s)
      else if c = CARL9170_CMD_READ_TSF then Some (read_tsf_cmd resp s)
      else if c = CARL9170_CMD_RX_FILTER then
        Some (f_wlan_update (w_rx_filter_update (\<lambda>_. cmd_word s 0)) (set_resp_len resp 0 s))
      else if c = CARL9170_CMD_WOL then Some (wol_cmd (reserved_cmd + 4) s)
      else if c = CARL9170_CMD_TALLY then Some (tally_cmd resp (set_resp_len resp 24 s))
      else if c = CARL9170_CMD_WREGB then
        Some (fold wregb_step [0..<unat (wregb_count s)] (set_resp_len resp 0 s))
      else if c = CARL9170_CMD_BCN_CTRL then bcn_ctrl_cmd (set_resp_len resp 0 s)
      else if c = CARL9170_CMD_EKEY then set_key (reserved_cmd + 4) (set_resp_len resp 0 s)
      else if c = CARL9170_CMD_DKEY then Some (disable_key (reserved_cmd + 4) (set_resp_len resp 0 s))
      else if c = CARL9170_CMD_FREQUENCY \<or> c = CARL9170_CMD_RF_INIT then rf_cmd reserved_cmd resp s
      else if c = CARL9170_CMD_FREQ_START then Some (rf_notify_set_channel s)
      else if c = CARL9170_CMD_PSM then
        Some (rf_psm (f_phy_update (p_psm_state_update (\<lambda>_. cmd_word s 0)) (set_resp_len resp 0 s)))
      else Some (BUG ''handle_cmd'' 295 (''Unknown command %x'' @ [CHR 0x0A]) [ArgWord (ucast (cmd_code s))] s))"

definition handle_cmd :: "u32 \<Rightarrow> fw_state \<Rightarrow> fw_state option" where
  "handle_cmd resp s =
     (let s = set_resp_len resp (cmd_len s) s;
          s = f_ram_update (\<lambda>m. st8 (resp + 1) (m (reserved_cmd + 1)) m) s;
          s = f_ram_update (\<lambda>m. st8 (resp + 3) (m (reserved_cmd + 3)) m) s;
          s = f_ram_update (\<lambda>m. st8 (resp + 2) (m (resp + 2) OR m (reserved_cmd + 2)) m) s
      in cmd_dispatch resp (cmd_code s AND NOT CARL9170_CMD_ASYNC_FLAG) s)"

subsection \<open>Reading registers\<close>

lemma peek_hw: "f_hw s = f_hw t \<Longrightarrow> peek a s = peek a t"
  unfolding peek_def by (simp only:)

lemma rreg_step_eq:
  "rreg_step resp i s = f_ram_update (st32 (resp + 4 + 4 * of_nat i) (peek (cmd_word s i) s)) (tick s)"
  by (simp add: rreg_step_def get_reg_def)

lemma tick_ram: "tick (f_ram_update g s) = f_ram_update g (tick s)"
  by (simp add: tick_def)

lemma ticks_ram: "(tick ^^ n) (f_ram_update g s) = f_ram_update g ((tick ^^ n) s)"
  by (induction n) (simp_all add: tick_ram)

lemma f_ram_update_cong: "g (f_ram s) = h (f_ram s) \<Longrightarrow> f_ram_update g s = f_ram_update h s"
  by (cases s) simp

lemma rreg_loop:
  fixes s :: fw_state
  assumes "4 * n \<le> 256" "disjoint_ranges reserved_cmd 260 (resp + 4) (4 * n)"
  defines "t \<equiv> fold (rreg_step resp) [0..<n] s"
  shows "f_hw t = f_hw ((tick ^^ n) s) \<and>
    f_ram t = wr_bytes (resp + 4) (concat (map (\<lambda>i. bytes32 (peek (cmd_word s i) ((tick ^^ i) s))) [0..<n])) (f_ram s)"
  using assms(1,2) unfolding t_def
proof (induction n)
  case 0
  then show ?case
    by simp
next
  case (Suc n)
  let ?bs = "concat (map (\<lambda>i. bytes32 (peek (cmd_word s i) ((tick ^^ i) s))) [0..<n])"
  let ?t = "fold (rreg_step resp) [0..<n] s"
  have len: "length ?bs = 4 * n"
    by (simp add: length_concat o_def sum_list_triv)
  have "disjoint_ranges reserved_cmd 260 (resp + 4) (4 * n)"
    using Suc.prems(2) by (auto simp: disjoint_ranges_def in_range_def)
  then have IH: "f_hw ?t = f_hw ((tick ^^ n) s)" "f_ram ?t = wr_bytes (resp + 4) ?bs (f_ram s)"
    using Suc by auto
  have c: "rd_bytes (reserved_cmd + 4 + 4 * of_nat n) 4 (wr_bytes (resp + 4) ?bs (f_ram s)) =
      rd_bytes (reserved_cmd + 4 + 4 * of_nat n) 4 (f_ram s)"
  proof (rule rd_bytes_cong, rule wr_bytes_miss)
    fix i assume "i < (4::nat)"
    then have "4 + 4 * n + i < 260"
      using Suc.prems(1) by simp
    with Suc.prems(2) show "\<not> in_range (reserved_cmd + 4 + 4 * of_nat n + of_nat i) (resp + 4) (length ?bs)"
      unfolding disjoint_ranges_def len
      by (force simp: in_range_def algebra_simps dest: spec [of _ "4 + 4 * n + i"])
  qed
  have w: "cmd_word ?t n = cmd_word s n"
    unfolding IH(2) by (rule ld32_cong [OF c])
  have p: "peek a ?t = peek a ((tick ^^ n) s)" for a
    unfolding peek_def IH(1) ..
  have tk: "f_hw (tick ?t) = f_hw (tick ((tick ^^ n) s))" "f_ram (tick ?t) = f_ram ?t"
    by (simp_all add: tick_def IH(1))
  have wr: "wr_bytes (resp + 4 + 4 * of_nat n) bs (wr_bytes (resp + 4) ?bs m) = wr_bytes (resp + 4) (?bs @ bs) m"
      if "length bs = 4" for bs m
    using wr_bytes_append [of ?bs bs "resp + 4" m] that Suc.prems(1) by (simp add: len)
  have "fold (rreg_step resp) [0..<Suc n] s = rreg_step resp n ?t"
    by simp
  also have "\<dots> = f_ram_update (st32 (resp + 4 + 4 * of_nat n) (peek (cmd_word s n) ((tick ^^ n) s))) (tick ?t)"
    unfolding rreg_step_eq w p ..
  finally show ?case
    by (simp add: tk IH(2) st32_def wr)
qed

text \<open>C31. The answer to a command that reads registers holds, after its head, the values of the named
  registers in order, and no other byte changes. The length is not checked: sixty-four bytes or
  more fill the slot of the answer and run into what follows.\<close>

theorem handle_cmd_rreg:
  assumes "cmd_code s AND NOT CARL9170_CMD_ASYNC_FLAG = CARL9170_CMD_RREG"
    and "disjoint_ranges reserved_cmd 260 resp (4 + unat (cmd_len s))" "n = unat (cmd_len s) div 4"
  shows "\<exists>t. handle_cmd resp s = Some t \<and>
    rd_bytes (resp + 4) (4 * n) (f_ram t) = concat (map (\<lambda>i. bytes32 (peek (cmd_word s i) ((tick ^^ i) s))) [0..<n]) \<and>
    f_ram t resp = cmd_len s \<and> f_ram t (resp + 1) = cmd_code s \<and>
    (\<forall>a. in_range a resp (4 + 4 * n) \<or> f_ram t a = f_ram s a)"
proof -
  let ?h = "[cmd_len s, cmd_code s, f_ram s (resp + 2) OR f_ram s (reserved_cmd + 2), f_ram s (reserved_cmd + 3)]"
  define u where "u = f_ram_update (wr_bytes resp ?h) s"
  let ?bs = "\<lambda>s. concat (map (\<lambda>i. bytes32 (peek (cmd_word s i) ((tick ^^ i) s))) [0..<n])"
  have n: "4 * n \<le> unat (cmd_len s)" "4 * n \<le> 256"
    using assms(3) unat_lt8 [of "cmd_len s"] by simp_all
  have out: "\<not> in_range (reserved_cmd + of_nat i) resp (4 + unat (cmd_len s))" if "i < 260" for i
    using assms(2) that unfolding disjoint_ranges_def by blast
  have ne: "reserved_cmd + of_nat i \<noteq> resp + of_nat j" if "i < 260" "j < 4" for i j
    using out [OF that(1)] that(2) by (auto simp: in_range_def)
  have m: "f_ram u (reserved_cmd + of_nat i) = f_ram s (reserved_cmd + of_nat i)" if "i < 260" for i
    using out [OF that] by (simp add: u_def wr_bytes_miss in_range_def)
  have cmd: "cmd_len u = cmd_len s" "cmd_code u = cmd_code s"
    using m [of 0] m [of 1] by simp_all
  have "handle_cmd resp s = cmd_dispatch resp (cmd_code u AND NOT CARL9170_CMD_ASYNC_FLAG) u"
  proof -
    have ne': "reserved_cmd \<noteq> resp" "reserved_cmd + 1 \<noteq> resp" "reserved_cmd + 3 \<noteq> resp" "reserved_cmd + 3 \<noteq> resp + 1"
        "reserved_cmd + 2 \<noteq> resp" "reserved_cmd + 2 \<noteq> resp + 1" "reserved_cmd + 2 \<noteq> resp + 3"
      using ne [of 0 0] ne [of 1 0] ne [of 3 0] ne [of 3 1] ne [of 2 0] ne [of 2 1] ne [of 2 3] by simp_all
    have "f_ram_update (\<lambda>m. st8 (resp + 2) (m (resp + 2) OR m (reserved_cmd + 2)) m)
      (f_ram_update (\<lambda>m. st8 (resp + 3) (m (reserved_cmd + 3)) m)
      (f_ram_update (\<lambda>m. st8 (resp + 1) (m (reserved_cmd + 1)) m) (set_resp_len resp (cmd_len s) s))) = u"
      unfolding u_def set_resp_len_def four_bytes [symmetric]
      by (simp add: o_def) (rule f_ram_update_cong, use ne' in \<open>simp add: st8_def\<close>)
    then show ?thesis
      unfolding handle_cmd_def Let_def by simp
  qed
  then have head: "handle_cmd resp s = Some (fold (rreg_step resp) [0..<n] u)"
    unfolding cmd assms(1) cmd_dispatch_def by (simp add: cmd assms(3))
  have "cmd_word u i = cmd_word s i" if "i < n" for i
  proof (rule ld32_cong, rule rd_bytes_cong)
    fix j assume "j < (4::nat)"
    with that n(2) show "f_ram u (reserved_cmd + 4 + 4 * of_nat i + of_nat j) = f_ram s (reserved_cmd + 4 + 4 * of_nat i + of_nat j)"
      using m [of "4 + 4 * i + j"] by (simp add: algebra_simps)
  qed
  moreover have "peek a ((tick ^^ i) u) = peek a ((tick ^^ i) s)" for a i
    unfolding u_def ticks_ram by (rule peek_hw) simp
  ultimately have bs: "?bs u = ?bs s"
    by (intro arg_cong [where f = concat] map_cong) simp_all
  have len: "length (?bs s) = 4 * n"
    by (simp add: length_concat o_def sum_list_triv)
  have "disjoint_ranges reserved_cmd 260 (resp + 4) (4 * n)"
    unfolding disjoint_ranges_def
  proof (intro allI impI notI)
    fix i assume "i < 260" "in_range (reserved_cmd + of_nat i) (resp + 4) (4 * n)"
    moreover from this(2) have "in_range (reserved_cmd + of_nat i) resp (4 + unat (cmd_len s))"
      using n unat_lt8 [of "cmd_len s"] by (intro in_range_offset [of _ resp 4 "4 * n"]) simp_all
    ultimately show False
      using out by blast
  qed
  then have two: "f_ram (fold (rreg_step resp) [0..<n] u) = wr_bytes (resp + 4) (?bs s) (wr_bytes resp ?h (f_ram s))"
    using rreg_loop [OF n(2)] bs by (simp add: u_def)
  then have rd: "rd_bytes (resp + 4) (4 * n) (f_ram (fold (rreg_step resp) [0..<n] u)) = ?bs s"
    using len n(2) by (simp add: rd_wr_same)
  have "f_ram (fold (rreg_step resp) [0..<n] u) = wr_bytes (resp + 4) (?bs s) (wr_bytes resp ?h (f_ram s))"
    by (rule two)
  also have "\<dots> = wr_bytes resp (?h @ ?bs s) (f_ram s)"
    using wr_bytes_append [of ?h "?bs s" resp] n len by simp
  finally have ram: "f_ram (fold (rreg_step resp) [0..<n] u) = wr_bytes resp (?h @ ?bs s) (f_ram s)" .
  have all: "length (?h @ ?bs s) = 4 + 4 * n"
    using len by simp
  have "\<forall>a. in_range a resp (4 + 4 * n) \<or> f_ram (fold (rreg_step resp) [0..<n] u) a = f_ram s a"
  proof
    fix a
    show "in_range a resp (4 + 4 * n) \<or> f_ram (fold (rreg_step resp) [0..<n] u) a = f_ram s a"
      using wr_bytes_miss [of a resp "?h @ ?bs s" "f_ram s"] unfolding ram all by blast
  qed
  moreover have "f_ram (fold (rreg_step resp) [0..<n] u) resp = cmd_len s"
      "f_ram (fold (rreg_step resp) [0..<n] u) (resp + 1) = cmd_code s"
    unfolding ram wr_bytes_def Let_def by simp_all
  ultimately show ?thesis
    using head rd by blast
qed

theorem handle_cmd_rreg_witness:
  "\<exists>s t. cmd_len s = 8 \<and> handle_cmd 0x203000 s = Some t \<and> rd_bytes 0x203004 8 (f_ram t) = [1, 0, 0, 0, 2, 0, 0, 0]"
proof -
  define s where "s = (zero_state default_config)\<lparr>
    f_ram := wr_bytes reserved_cmd ([8, CARL9170_CMD_RREG, 0, 0] @ bytes32 0x1c3000 @ bytes32 0x1c3004) (\<lambda>_. 0),
    f_hw := \<lparr> hw_regs = (\<lambda>a. if a = 0x1c3000 then 1 else 2), hw_dev = (\<lambda>_ _. None), hw_now = 0, hw_log = [] \<rparr> \<rparr>"
  have len: "cmd_len s = 8" and code: "cmd_code s = CARL9170_CMD_RREG"
    by (simp_all add: s_def wr_bytes_def)
  have w: "cmd_word s 0 = 0x1c3000" "cmd_word s 1 = 0x1c3004"
    by (simp_all add: s_def ld32_def wr_bytes_def bytes32_def le32_def)
  have d: "disjoint_ranges reserved_cmd 260 0x203000 (4 + unat (cmd_len s))"
    unfolding len by (rule disjoint_rangesI) (simp_all add: layout_defs)
  have c: "cmd_code s AND NOT CARL9170_CMD_ASYNC_FLAG = CARL9170_CMD_RREG" and n: "2 = unat (cmd_len s) div 4"
    unfolding code len by simp_all
  have r: "hw_regs (f_hw s) 0x1c3000 = 1" "hw_regs (f_hw s) 0x1c3004 = 2"
    by (simp_all add: s_def)
  have p: "peek a s = hw_regs (f_hw s) a" "peek a (tick s) = hw_regs (f_hw s) a" for a
    by (simp_all add: s_def peek_def tick_def)
  have f: "(tick ^^ 1) s = tick s"
    by simp
  have u: "[0..<2] = [0, 1::nat]"
    by (simp add: upt_rec)
  have v: "concat (map (\<lambda>i. bytes32 (peek (cmd_word s i) ((tick ^^ i) s))) [0..<2]) = [1, 0, 0, 0, 2, 0, 0, 0]"
    unfolding u list.map concat.simps funpow_0 f w p r by (simp add: bytes32_def)
  obtain t where "handle_cmd 0x203000 s = Some t" "rd_bytes (0x203000 + 4) (4 * 2) (f_ram t) = [1, 0, 0, 0, 2, 0, 0, 0]"
    using handle_cmd_rreg [OF c d n] unfolding v by blast
  with len show ?thesis
    by (intro exI [of _ s] exI [of _ t]) simp
qed

end
