(* ===== verification/UsbFifo.thy ===== *)
theory UsbFifo
  imports Io
begin

text \<open>The endpoint FIFOs of the USB device (carlfw/usb/fifo.c, carlfw/include/usb_fifo.h), which are set up
  when the host chooses a configuration and the mode switch is built in. The registers are bytes.\<close>

subsection \<open>The endpoints (carlfw/include/usb_fifo.h)\<close>

abbreviation (input) DIRECTION_IN :: nat where "DIRECTION_IN \<equiv> 0"
abbreviation (input) DIRECTION_OUT :: nat where "DIRECTION_OUT \<equiv> 1"
abbreviation (input) SINGLE_BLK :: nat where "SINGLE_BLK \<equiv> 1"
abbreviation (input) DOUBLE_BLK :: nat where "DOUBLE_BLK \<equiv> 2"
abbreviation (input) TF_TYPE_BULK :: nat where "TF_TYPE_BULK \<equiv> 2"
abbreviation (input) TF_TYPE_INTERRUPT :: nat where "TF_TYPE_INTERRUPT \<equiv> 3"

text \<open>The constants of one endpoint. \<^verbatim>\<open>fe_start\<close> and \<^verbatim>\<open>fe_no\<close> are the values of the macros \<^verbatim>\<open>FIFO_START\<close> and
  \<^verbatim>\<open>FIFO_NO\<close>, with the casts some of them have.\<close>

record fifo_ep =
  fe_blksize :: nat
  fe_blkno :: nat
  fe_direction :: nat
  fe_type :: nat
  fe_max_packet :: u16
  fe_start :: nat
  fe_no :: nat

definition uint8_t :: "nat \<Rightarrow> nat" where "uint8_t n = n mod 256"

definition hs_ep1 :: fifo_ep where
  "hs_ep1 = \<lparr> fe_blksize = 512, fe_blkno = DOUBLE_BLK, fe_direction = DIRECTION_OUT, fe_type = TF_TYPE_BULK,
     fe_max_packet = 512, fe_start = 0, fe_no = DOUBLE_BLK * 512 \<rparr>"

definition hs_ep2 :: fifo_ep where
  "hs_ep2 = \<lparr> fe_blksize = 512, fe_blkno = SINGLE_BLK, fe_direction = DIRECTION_IN, fe_type = TF_TYPE_BULK,
     fe_max_packet = 512, fe_start = uint8_t (fe_start hs_ep1 + fe_no hs_ep1), fe_no = uint8_t (SINGLE_BLK * 512) \<rparr>"

definition hs_ep3 :: fifo_ep where
  "hs_ep3 = \<lparr> fe_blksize = 64, fe_blkno = SINGLE_BLK, fe_direction = DIRECTION_IN, fe_type = TF_TYPE_INTERRUPT,
     fe_max_packet = 0x40, fe_start = 14, fe_no = SINGLE_BLK * 64 \<rparr>"

definition hs_ep4 :: fifo_ep where
  "hs_ep4 = \<lparr> fe_blksize = 64, fe_blkno = SINGLE_BLK, fe_direction = DIRECTION_OUT, fe_type = TF_TYPE_INTERRUPT,
     fe_max_packet = 0x40, fe_start = fe_start hs_ep3 + fe_no hs_ep3, fe_no = SINGLE_BLK * 64 \<rparr>"

definition fs_ep1 :: fifo_ep where
  "fs_ep1 = \<lparr> fe_blksize = 512, fe_blkno = DOUBLE_BLK, fe_direction = DIRECTION_OUT, fe_type = TF_TYPE_BULK,
     fe_max_packet = 64, fe_start = 0, fe_no = uint8_t (DOUBLE_BLK * 512) \<rparr>"

definition fs_ep2 :: fifo_ep where
  "fs_ep2 = \<lparr> fe_blksize = 512, fe_blkno = SINGLE_BLK, fe_direction = DIRECTION_IN, fe_type = TF_TYPE_BULK,
     fe_max_packet = 64, fe_start = uint8_t (fe_start fs_ep1 + fe_no fs_ep1), fe_no = uint8_t (SINGLE_BLK * 512) \<rparr>"

definition fs_ep3 :: fifo_ep where
  "fs_ep3 = \<lparr> fe_blksize = 64, fe_blkno = SINGLE_BLK, fe_direction = DIRECTION_IN, fe_type = TF_TYPE_INTERRUPT,
     fe_max_packet = 0x40, fe_start = 14, fe_no = uint8_t (SINGLE_BLK * 64) \<rparr>"

definition fs_ep4 :: fifo_ep where
  "fs_ep4 = \<lparr> fe_blksize = 64, fe_blkno = SINGLE_BLK, fe_direction = DIRECTION_OUT, fe_type = TF_TYPE_BULK,
     fe_max_packet = 0x40, fe_start = uint8_t (fe_start fs_ep3 + fe_no fs_ep3), fe_no = uint8_t (SINGLE_BLK * 64) \<rparr>"

definition fifo_ep_config :: "fifo_ep \<Rightarrow> u8" where
  "fifo_ep_config e = of_nat (0x80 OR push_bit 4 (fe_blksize e - 1) OR push_bit 2 (fe_blkno e - 1) OR fe_type e)"

definition fifo_ep_fifo_map :: "nat \<Rightarrow> fifo_ep \<Rightarrow> u8" where
  "fifo_ep_fifo_map n e = of_nat (push_bit 4 (1 - fe_direction e) OR n)"

definition fifo_ep_map :: "fifo_ep \<Rightarrow> u8" where
  "fifo_ep_map e = of_nat (fe_start e OR push_bit 4 (fe_start e) OR drop_bit (4 * fe_direction e) 0xf0)"

subsection \<open>Operations (carlfw/usb/fifo.c)\<close>

text \<open>The offsets are computed with int: FIFO 0 has the register before the first.\<close>

definition usb_ep_map :: "u8 \<Rightarrow> u8 \<Rightarrow> fw_state \<Rightarrow> fw_state" where
  "usb_ep_map ep m s = setb (AR9170_USB_REG_EP_MAP + (ucast ep - 1)) m s"

definition usb_fifo_map :: "u8 \<Rightarrow> u8 \<Rightarrow> fw_state \<Rightarrow> fw_state" where
  "usb_fifo_map fifo m s = setb (AR9170_USB_REG_FIFO_MAP + (ucast fifo - 1)) m s"

definition usb_fifo_config :: "u8 \<Rightarrow> u8 \<Rightarrow> fw_state \<Rightarrow> fw_state" where
  "usb_fifo_config fifo cfg s = setb (AR9170_USB_REG_FIFO_CONFIG + (ucast fifo - 1)) cfg s"

definition usb_ep_packet_size_hi :: "u8 \<Rightarrow> nat \<Rightarrow> u16 \<Rightarrow> fw_state \<Rightarrow> fw_state" where
  "usb_ep_packet_size_hi ep dir sz s =
     setb (AR9170_USB_REG_EP_IN_MAX_SIZE_HIGH + push_bit 1 (of_nat dir * 0x20 + ucast ep)) (ucast (drop_bit 8 sz AND 0xf)) s"

definition usb_ep_packet_size_lo :: "u8 \<Rightarrow> nat \<Rightarrow> u16 \<Rightarrow> fw_state \<Rightarrow> fw_state" where
  "usb_ep_packet_size_lo ep dir sz s =
     setb (AR9170_USB_REG_EP_IN_MAX_SIZE_LOW + push_bit 1 (of_nat dir * 0x20 + ucast ep)) (ucast (sz AND 0xff)) s"

definition usb_ep_in_highbandset :: "u8 \<Rightarrow> nat \<Rightarrow> u16 \<Rightarrow> fw_state \<Rightarrow> fw_state" where
  "usb_ep_in_highbandset ep dir sz s =
     (let s = andb (AR9170_USB_REG_EP_IN_MAX_SIZE_HIGH + push_bit 1 (ucast ep)) (NOT (push_bit 6 1 OR push_bit 5 1)) s
      in if dir = DIRECTION_IN
         then setb (AR9170_USB_REG_EP_IN_MAX_SIZE_HIGH + push_bit 1 (ucast ep)) (push_bit 5 (ucast (drop_bit 11 sz) + 1)) s
         else s)"

text \<open>The steps for one endpoint, which the code repeats with the constants of each.\<close>

definition usb_ep_fifo_cfg :: "u8 \<Rightarrow> fifo_ep \<Rightarrow> fw_state \<Rightarrow> fw_state" where
  "usb_ep_fifo_cfg n e s =
     (let s = usb_ep_map n (fifo_ep_map e) s;
          s = usb_fifo_map (of_nat (fe_start e)) (fifo_ep_fifo_map (unat n) e) s;
          s = usb_fifo_config (of_nat (fe_start e)) (fifo_ep_config e) s;
          s = fold (\<lambda>i. usb_fifo_config (of_nat i) (fifo_ep_config e AND 0x7f))
                [fe_start e + 1..<fe_start e + fe_no e] s;
          s = usb_ep_packet_size_hi n (fe_direction e) (fe_max_packet e AND 0x7ff) s;
          s = usb_ep_packet_size_lo n (fe_direction e) (fe_max_packet e AND 0x7ff) s
      in usb_ep_in_highbandset n (fe_direction e) (fe_max_packet e) s)"

definition usb_init_highspeed_fifo_cfg :: "fw_state \<Rightarrow> fw_state" where
  "usb_init_highspeed_fifo_cfg s =
     usb_ep_fifo_cfg 4 hs_ep4 (usb_ep_fifo_cfg 3 hs_ep3 (usb_ep_fifo_cfg 2 hs_ep2 (usb_ep_fifo_cfg 1 hs_ep1 s)))"

definition usb_init_fullspeed_fifo_cfg :: "fw_state \<Rightarrow> fw_state" where
  "usb_init_fullspeed_fifo_cfg s =
     usb_ep_fifo_cfg 4 fs_ep4 (usb_ep_fifo_cfg 3 fs_ep3 (usb_ep_fifo_cfg 2 fs_ep2 (usb_ep_fifo_cfg 1 fs_ep1 s)))"


subsection \<open>What it does to the registers\<close>

text \<open>The byte that was written last.\<close>

definition reg8 :: "u32 \<Rightarrow> fw_state \<Rightarrow> u8" where
  "reg8 a s = ucast (hw_regs (f_hw s) a)"

lemma reg8_setb: "reg8 b (setb a v s) = (if a = b then v else reg8 b s)"
proof -
  have m: "0xFF = (mask 8 :: u32)"
    by (simp add: mask_eq_exp_minus_1)
  have "ucast (x AND NOT 0xFF OR ucast v) = v" for x :: u32
    unfolding m by (intro bit_word_eqI) (auto simp: bit_simps)
  then show ?thesis
    by (simp add: reg8_def setb_def set_reg_def)
qed

lemma reg8_andb: "a \<noteq> b \<Longrightarrow> reg8 b (andb a v s) = reg8 b s"
  by (simp add: andb_def getb_def get_reg_def split_beta Let_def reg8_setb) (simp add: reg8_def tick_def)

lemma fifo_config_addr: "unat (AR9170_USB_REG_FIFO_CONFIG + (ucast f - 1) :: u32) = 0x1e108f + unat (f :: u8)"
proof -
  have "AR9170_USB_REG_FIFO_CONFIG + (ucast f - 1) = (0x1e108f + ucast f :: u32)"
    by simp
  moreover have "unat (ucast f :: u32) = unat f" "unat f < 256"
    using unsigned_less [of f, where ?'a = nat] by (simp_all add: unsigned_ucast_eq take_bit_nat_eq_self_iff)
  ultimately show ?thesis
    by (simp add: unat_word_ariths)
qed

lemma reg8_fifo_config:
  "reg8 b (usb_fifo_config f v s) = (if unat b = 0x1e108f + unat f then v else reg8 b s)"
  unfolding usb_fifo_config_def reg8_setb using fifo_config_addr [of f] by (metis unsigned_word_eqI)

text \<open>The registers that the blocks \<^verbatim>\<open>lo\<close> to \<^verbatim>\<open>hi\<close> are written to.\<close>

definition fifo_hit :: "u32 \<Rightarrow> nat \<Rightarrow> nat \<Rightarrow> bool" where
  "fifo_hit b lo hi \<longleftrightarrow> (\<exists>i. lo \<le> i \<and> i < hi \<and> unat b = 0x1e108f + i mod 256)"

lemma reg8_fifo_loop:
  "reg8 b (fold (\<lambda>i. usb_fifo_config (of_nat i) v) [lo..<hi] s) = (if fifo_hit b lo hi then v else reg8 b s)"
proof -
  have "reg8 b (fold (\<lambda>i. usb_fifo_config (of_nat i) v) is s) =
      (if \<exists>i \<in> set is. unat b = 0x1e108f + i mod 256 then v else reg8 b s)" for "is"
    by (induction "is" arbitrary: s) (auto simp: reg8_fifo_config unat_of_nat)
  then show ?thesis
    by (auto simp: fifo_hit_def)
qed

lemma fifo_hit_low: "unat b < 0x1e108f \<Longrightarrow> \<not> fifo_hit b lo hi"
  by (auto simp: fifo_hit_def)

lemma fifo_hit_block: "lo \<le> i \<Longrightarrow> i < hi \<Longrightarrow> i < 256 \<Longrightarrow> unat b = 0x1e108f + i \<Longrightarrow> fifo_hit b lo hi"
  by (auto simp: fifo_hit_def)

text \<open>A register after the set up of one endpoint.\<close>

abbreviation (input) size_reg :: "u8 \<Rightarrow> u32" where "size_reg n \<equiv> push_bit 1 (ucast n)"

lemma reg8_highbandset:
  "b \<noteq> AR9170_USB_REG_EP_IN_MAX_SIZE_HIGH + size_reg n \<Longrightarrow> reg8 b (usb_ep_in_highbandset n dir sz s) = reg8 b s"
  by (simp add: usb_ep_in_highbandset_def Let_def reg8_setb reg8_andb)

lemma reg8_ep_fifo_cfg:
  assumes "b \<noteq> AR9170_USB_REG_EP_IN_MAX_SIZE_HIGH + size_reg n"
  shows "reg8 b (usb_ep_fifo_cfg n e s) =
    (if AR9170_USB_REG_EP_IN_MAX_SIZE_LOW + push_bit 1 (of_nat (fe_direction e) * 0x20 + ucast n) = b
       then ucast ((fe_max_packet e AND 0x7ff) AND 0xff)
     else if AR9170_USB_REG_EP_IN_MAX_SIZE_HIGH + push_bit 1 (of_nat (fe_direction e) * 0x20 + ucast n) = b
       then ucast (drop_bit 8 (fe_max_packet e AND 0x7ff) AND 0xf)
     else if fifo_hit b (fe_start e + 1) (fe_start e + fe_no e) then fifo_ep_config e AND 0x7f
     else if unat b = 0x1e108f + unat (of_nat (fe_start e) :: u8) then fifo_ep_config e
     else if AR9170_USB_REG_FIFO_MAP + (ucast (of_nat (fe_start e) :: u8) - 1) = b then fifo_ep_fifo_map (unat n) e
     else if AR9170_USB_REG_EP_MAP + (ucast n - 1) = b then fifo_ep_map e
     else reg8 b s)"
  unfolding usb_ep_fifo_cfg_def Let_def reg8_highbandset [OF assms] usb_ep_map_def usb_fifo_map_def usb_ep_packet_size_hi_def
    usb_ep_packet_size_lo_def reg8_setb reg8_fifo_loop reg8_fifo_config by (rule refl)

lemma reg8_ep_size:
  "fe_direction e = DIRECTION_IN \<Longrightarrow> reg8 (AR9170_USB_REG_EP_IN_MAX_SIZE_HIGH + size_reg n) (usb_ep_fifo_cfg n e s) =
     push_bit 5 (ucast (drop_bit 11 (fe_max_packet e)) + 1)"
  by (simp add: usb_ep_fifo_cfg_def usb_ep_in_highbandset_def Let_def reg8_setb)

lemmas fifo_ep_defs = hs_ep1_def hs_ep2_def hs_ep3_def hs_ep4_def fs_ep1_def fs_ep2_def fs_ep3_def fs_ep4_def uint8_t_def

lemma fifo_ep_values:
  "fe_start hs_ep1 = 0" "fe_no hs_ep1 = 1024" "fe_direction hs_ep1 = 1" "fe_max_packet hs_ep1 = 512"
  "fe_start hs_ep2 = 0" "fe_no hs_ep2 = 0" "fe_direction hs_ep2 = 0" "fe_max_packet hs_ep2 = 512"
  "fe_start hs_ep3 = 14" "fe_no hs_ep3 = 64" "fe_direction hs_ep3 = 0" "fe_max_packet hs_ep3 = 64"
  "fe_start hs_ep4 = 78" "fe_no hs_ep4 = 64" "fe_direction hs_ep4 = 1" "fe_max_packet hs_ep4 = 64"
  "fe_start fs_ep1 = 0" "fe_no fs_ep1 = 0" "fe_direction fs_ep1 = 1" "fe_max_packet fs_ep1 = 64"
  "fe_start fs_ep2 = 0" "fe_no fs_ep2 = 0" "fe_direction fs_ep2 = 0" "fe_max_packet fs_ep2 = 64"
  "fe_start fs_ep3 = 14" "fe_no fs_ep3 = 64" "fe_direction fs_ep3 = 0" "fe_max_packet fs_ep3 = 64"
  "fe_start fs_ep4 = 78" "fe_no fs_ep4 = 64" "fe_direction fs_ep4 = 1" "fe_max_packet fs_ep4 = 64"
  "fifo_ep_config hs_ep4 AND 0x7f = 0x73" "fifo_ep_config fs_ep4 AND 0x7f = 0x72" "fifo_ep_map hs_ep1 = 0x0f" "fifo_ep_map hs_ep2 = 0xf0"
  "fifo_ep_map fs_ep1 = 0x0f" "fifo_ep_map fs_ep2 = 0xf0"
  by (simp_all add: fifo_ep_config_def fifo_ep_map_def fifo_ep_defs)

lemma dma_ctl_hit: "fifo_hit AR9170_USB_REG_DMA_CTL 79 142"
  by (rule fifo_hit_block [of _ 121]) simp_all

lemma reg8_highspeed:
  "reg8 AR9170_USB_REG_EP_MAP (usb_init_highspeed_fifo_cfg s) = 0x0f"
  "reg8 (AR9170_USB_REG_EP_MAP + 1) (usb_init_highspeed_fifo_cfg s) = 0xf0"
  "reg8 (AR9170_USB_REG_EP_IN_MAX_SIZE_HIGH + 4) (usb_init_highspeed_fifo_cfg s) = 0x20"
  "reg8 AR9170_USB_REG_DMA_CTL (usb_init_highspeed_fifo_cfg s) = 0x73"
  using reg8_ep_size [of hs_ep2 2]
  by (simp_all add: usb_init_highspeed_fifo_cfg_def reg8_ep_fifo_cfg fifo_hit_low fifo_ep_values dma_ctl_hit)

lemma reg8_fullspeed:
  "reg8 AR9170_USB_REG_EP_MAP (usb_init_fullspeed_fifo_cfg s) = 0x0f"
  "reg8 (AR9170_USB_REG_EP_MAP + 1) (usb_init_fullspeed_fifo_cfg s) = 0xf0"
  "reg8 (AR9170_USB_REG_EP_IN_MAX_SIZE_HIGH + 4) (usb_init_fullspeed_fifo_cfg s) = 0x20"
  "reg8 AR9170_USB_REG_DMA_CTL (usb_init_fullspeed_fifo_cfg s) = 0x72"
  using reg8_ep_size [of fs_ep2 2]
  by (simp_all add: usb_init_fullspeed_fifo_cfg_def reg8_ep_fifo_cfg fifo_hit_low fifo_ep_values dma_ctl_hit)

lemma same_core_highspeed [simp]: "same_core s (usb_init_highspeed_fifo_cfg s)"
  and same_core_fullspeed [simp]: "same_core s (usb_init_fullspeed_fifo_cfg s)"
proof -
  have andb: "same_core s (andb a v s)" for a v s
    by (auto simp: andb_def getb_def get_reg_def split_beta Let_def intro: same_core_trans [OF same_core_tick])
  have loop: "same_core s (fold (\<lambda>i. usb_fifo_config (of_nat i) v) is s)" for v "is" s
    by (induction "is" arbitrary: s) (auto simp: usb_fifo_config_def intro: same_core_trans [OF same_core_setb])
  have ep: "same_core s (usb_ep_fifo_cfg n e s)" for n e s
    unfolding usb_ep_fifo_cfg_def usb_ep_in_highbandset_def usb_ep_map_def usb_fifo_map_def usb_ep_packet_size_hi_def
      usb_ep_packet_size_lo_def Let_def usb_fifo_config_def [of "of_nat (fe_start e)"]
    by (auto intro!: same_core_trans [OF _ andb] same_core_trans [OF _ same_core_setb] same_core_trans [OF _ loop])
  show "same_core s (usb_init_highspeed_fifo_cfg s)" "same_core s (usb_init_fullspeed_fifo_cfg s)"
    unfolding usb_init_highspeed_fifo_cfg_def usb_init_fullspeed_fifo_cfg_def
    by (intro same_core_trans [OF _ ep] same_core_refl)+
qed


text \<open>The FIFO set up of both speeds goes wrong in three ways, because \<^verbatim>\<open>usb_fifo.h\<close> counts bytes where
  \<^verbatim>\<open>fifo.c\<close> counts blocks, and registers are written over each other: endpoints 1 and 2 both start at FIFO 0,
  the packet size of endpoint 2 becomes 0 instead of 512 or 64, and the blocks of endpoint 4 run over the DMA
  control register, whatever \<^verbatim>\<open>usb_pta_init\<close> put there: high speed loses its mode bit, full speed the bit
  for transfers to the device.\<close>

theorem usb_fifo_cfg_overwrites:
  "let hs = usb_init_highspeed_fifo_cfg s; fs = usb_init_fullspeed_fifo_cfg s;
       hs_ctl = reg8 AR9170_USB_REG_DMA_CTL hs; fs_ctl = reg8 AR9170_USB_REG_DMA_CTL fs
   in reg8 AR9170_USB_REG_EP_MAP hs = 0x0f \<and> reg8 AR9170_USB_REG_EP_MAP fs = 0x0f \<and>
      reg8 (AR9170_USB_REG_EP_MAP + 1) hs = 0xf0 \<and> reg8 (AR9170_USB_REG_EP_MAP + 1) fs = 0xf0 \<and>
      reg8 (AR9170_USB_REG_EP_IN_MAX_SIZE_HIGH + 4) hs AND 0x7 = 0 \<and>
      reg8 (AR9170_USB_REG_EP_IN_MAX_SIZE_HIGH + 4) fs AND 0x7 = 0 \<and>
      hs_ctl = 0x73 \<and> hs_ctl AND ucast (AR9170_USB_DMA_CTL_HIGH_SPEED :: u32) = 0 \<and>
      fs_ctl = 0x72 \<and> fs_ctl AND ucast (AR9170_USB_DMA_CTL_ENABLE_TO_DEVICE :: u32) = 0"
  by (simp add: reg8_highspeed [simplified] reg8_fullspeed [simplified] Let_def)

end
