(* ===== verification/UsbCtrl.thy ===== *)
theory UsbCtrl
  imports HostIf UsbFifo
begin

text \<open>Control transfers on endpoint 0 (carlfw/usb/usb.c). A status is the int the code returns:
  negative stalls the endpoint, positive ends the transfer. The two configuration descriptors are
  static objects at the addresses \<^verbatim>\<open>cf_usb_hs_config\<close> and \<^verbatim>\<open>cf_usb_fs_config\<close>; the device and string
  descriptors are in the ROM, at the addresses carlfw/include/rom.h gives.\<close>

subsection \<open>Descriptors\<close>

record usb_ctrlrequest =
  cr_bRequestType :: u8
  cr_bRequest :: u8
  cr_wValue :: u16
  cr_wIndex :: u16
  cr_wLength :: u16

definition ctrlrequest_of :: "u8 list \<Rightarrow> usb_ctrlrequest" where
  "ctrlrequest_of b = \<lparr> cr_bRequestType = b ! 0, cr_bRequest = b ! 1, cr_wValue = le16 (b ! 2) (b ! 3),
     cr_wIndex = le16 (b ! 4) (b ! 5), cr_wLength = le16 (b ! 6) (b ! 7) \<rparr>"

definition usb_endpoint :: "u8 \<Rightarrow> u8 \<Rightarrow> u16 \<Rightarrow> u8 \<Rightarrow> u8 list" where
  "usb_endpoint addr attr max_size interval =
     [USB_DT_ENDPOINT_SIZE, USB_DT_ENDPOINT, addr, attr] @ bytes16 max_size @ [interval]"

definition usb_config :: "bool \<Rightarrow> u8 list list \<Rightarrow> u8 list" where
  "usb_config wol eps =
     [USB_DT_CONFIG_SIZE, USB_DT_CONFIG] @ bytes16 (9 + 9 + 4 * 7) @ [1, 1, 0,
      USB_CONFIG_ATT_ONE OR (if wol then USB_CONFIG_ATT_WAKEUP else 0) OR 0, 0xfa] @
     [USB_DT_INTERFACE_SIZE, USB_DT_INTERFACE, 0, 0, AR9170_USB_NUM_EXTRA_EP, USB_CLASS_VENDOR_SPEC,
      USB_SUBCLASS_VENDOR_SPEC, 0, 0] @ concat eps"

definition usb_config_highspeed :: "bool \<Rightarrow> u8 list" where
  "usb_config_highspeed wol = usb_config wol
     [usb_endpoint (USB_DIR_OUT OR AR9170_USB_EP_TX) USB_ENDPOINT_XFER_BULK 512 0,
      usb_endpoint (USB_DIR_IN OR AR9170_USB_EP_RX) USB_ENDPOINT_XFER_BULK 512 0,
      usb_endpoint (USB_DIR_IN OR AR9170_USB_EP_IRQ) USB_ENDPOINT_XFER_INT 64 1,
      usb_endpoint (USB_DIR_OUT OR AR9170_USB_EP_CMD) USB_ENDPOINT_XFER_INT 64 1]"

definition usb_config_fullspeed :: "bool \<Rightarrow> u8 list" where
  "usb_config_fullspeed wol = usb_config wol
     [usb_endpoint (USB_DIR_OUT OR AR9170_USB_EP_TX) USB_ENDPOINT_XFER_BULK 64 0,
      usb_endpoint (USB_DIR_IN OR AR9170_USB_EP_RX) USB_ENDPOINT_XFER_BULK 64 0,
      usb_endpoint (USB_DIR_IN OR AR9170_USB_EP_IRQ) USB_ENDPOINT_XFER_INT 64 1,
      usb_endpoint (USB_DIR_OUT OR AR9170_USB_EP_CMD) USB_ENDPOINT_XFER_BULK 64 1]"

text \<open>The static objects as the boot loader leaves them.\<close>

definition usb_configs_loaded :: "fw_state \<Rightarrow> bool" where
  "usb_configs_loaded s \<longleftrightarrow>
     rd_bytes (cf_usb_hs_config (f_cfg s)) 46 (f_ram s) = usb_config_highspeed (cf_wol (f_cfg s)) \<and>
     rd_bytes (cf_usb_fs_config (f_cfg s)) 46 (f_ram s) = usb_config_fullspeed (cf_wol (f_cfg s))"

subsection \<open>Set up\<close>

definition usb_reset_eps :: "fw_state \<Rightarrow> fw_state" where
  "usb_reset_eps s =
     (let eps = map of_nat [1..<10];
          s = fold (\<lambda>i s. usb_clear_input_ep_stall i (usb_clear_input_ep_toggle i (usb_set_input_ep_toggle i s))) eps s
      in fold (\<lambda>i s. usb_clear_output_ep_stall i (usb_clear_output_ep_toggle i (usb_set_output_ep_toggle i s))) eps s)"

text \<open>\<^verbatim>\<open>CONFIG_CARL9170FW_USB_UP_STREAM\<close> is set and the frame length is 8192; the option
  \<^verbatim>\<open>CONFIG_CARL9170FW_USB_DOWN_STREAM\<close> does not exist.\<close>

definition usb_pta_init :: "fw_state \<Rightarrow> fw_state" where
  "usb_pta_init s =
     (let s = andl AR9170_PTA_REG_DMA_MODE_CTRL (NOT AR9170_PTA_DMA_MODE_CTRL_DISABLE_USB) s;
          s = orl AR9170_PTA_REG_DMA_MODE_CTRL AR9170_PTA_DMA_MODE_CTRL_RESET s;
          s = andl AR9170_PTA_REG_DMA_MODE_CTRL (NOT AR9170_PTA_DMA_MODE_CTRL_RESET) s;
          (highspeed, s) = usb_detect_highspeed s;
          hs = cf_usb_hs_config (f_cfg s); fs = cf_usb_fs_config (f_cfg s);
          s = (if highspeed then f_usb_update (\<lambda>u. u\<lparr> u_os_cfg_desc := fs, u_cfg_desc := hs \<rparr>) s
               else f_usb_update (\<lambda>u. u\<lparr> u_cfg_desc := fs, u_os_cfg_desc := hs \<rparr>) s);
          usb_dma_ctrl = (if highspeed then AR9170_USB_DMA_CTL_HIGH_SPEED else 0) OR AR9170_USB_DMA_CTL_UP_STREAM_8K;
          s = set_reg AR9170_USB_REG_MAX_AGG_UPLOAD 4 s;
          s = set_reg AR9170_USB_REG_UPLOAD_TIME_CTL 0x80 s;
          usb_dma_ctrl = usb_dma_ctrl OR AR9170_USB_DMA_CTL_ENABLE_TO_DEVICE OR AR9170_USB_DMA_CTL_ENABLE_FROM_DEVICE
      in set_reg AR9170_USB_REG_DMA_CTL usb_dma_ctrl s)"

definition usb_init :: "fw_state \<Rightarrow> fw_state" where
  "usb_init s =
     (let s = usb_pta_init s; s = f_usb_update (u_config_update (\<lambda>_. 1)) s
      in if cf_wol (f_cfg s) then
           usb_enable_remote_wakeup (f_usb_update (u_device_feature_update (\<lambda>f. f OR USB_DEVICE_REMOTE_WAKEUP)) s)
         else s)"

subsection \<open>Data on endpoint 0\<close>

text \<open>\<^verbatim>\<open>usb_ep0rx_data\<close> gives the bytes it stores: every word read from the FIFO provides up to four.\<close>

fun ep0rx_loop :: "nat \<Rightarrow> fw_state \<Rightarrow> u8 list \<times> fw_state" where
  "ep0rx_loop len s =
     (if len = 0 then ([], s)
      else let (v, s) = get_reg AR9170_USB_REG_EP0_DATA s; (bs, s) = ep0rx_loop (len - 4) s
           in (take (min len 4) (bytes32 v) @ bs, s))"

declare ep0rx_loop.simps [simp del]

definition usb_ep0rx_data :: "nat \<Rightarrow> fw_state \<Rightarrow> u8 list \<times> fw_state" where
  "usb_ep0rx_data len s =
     ep0rx_loop len (BUG_ON (len > 64) ''usb_ep0rx_data'' 279 ''len > AR9170_USB_EP_CTRL_MAX'' s)"

text \<open>\<^verbatim>\<open>usb_ep0tx_data\<close>: the loop with the local variable \<^verbatim>\<open>value\<close> as its bytes, of which a short block
  overwrites the first ones only. \<^verbatim>\<open>value\<close> has no initial value in the code: the first argument of
  the operations below is what the stack holds there.\<close>

function ep0tx_loop :: "u8 list \<Rightarrow> nat \<Rightarrow> u8 list \<Rightarrow> fw_state \<Rightarrow> fw_state" where
  "ep0tx_loop val last_block data s =
     (if data = [] then s
      else let block = min (length data) 4;
               s = (if last_block \<noteq> block \<or> block < 4
                    then setb AR9170_USB_REG_FIFO_SIZE (push_bit block 1 - 1) s else s);
               val = take block data @ drop block val;
               s = set_reg AR9170_USB_REG_EP0_DATA (le32 (val ! 0) (val ! 1) (val ! 2) (val ! 3)) s;
               data = drop block data
           in ep0tx_loop val (min (length data) 4) data s)"
  by auto
termination by (relation "measure (\<lambda>(_, _, data, _). length data)") auto

declare ep0tx_loop.simps [simp del]

definition usb_ep0tx_data :: "u8 list \<Rightarrow> u8 list \<Rightarrow> fw_state \<Rightarrow> int \<times> fw_state" where
  "usb_ep0tx_data val data s =
     (let s = BUG_ON (length data > 64) ''usb_ep0tx_data'' 294 ''len > AR9170_USB_EP_CTRL_MAX'' s;
          s = ep0tx_loop val 0 data s
      in (1, setb AR9170_USB_REG_FIFO_SIZE 0xf s))"


subsection \<open>Standard requests\<close>

abbreviation (input) recip :: "usb_ctrlrequest \<Rightarrow> u8" where "recip ctrl \<equiv> cr_bRequestType ctrl AND USB_RECIP_MASK"
abbreviation (input) direction :: "usb_ctrlrequest \<Rightarrow> u8" where "direction ctrl \<equiv> cr_bRequestType ctrl AND USB_DIR_MASK"

definition USB_CHECK_REQTYPE :: "usb_ctrlrequest \<Rightarrow> u8 \<Rightarrow> u8 \<Rightarrow> bool" where
  "USB_CHECK_REQTYPE ctrl rcp dir \<longleftrightarrow> recip ctrl \<noteq> rcp \<or> direction ctrl \<noteq> dir"

text \<open>The register of the endpoint that the index of a request names.\<close>

definition ep_register :: "usb_ctrlrequest \<Rightarrow> u32" where
  "ep_register ctrl =
     (if cr_wIndex ctrl AND USB_DIR_MASK = USB_DIR_IN then AR9170_USB_REG_EP_IN_MAX_SIZE_HIGH
      else AR9170_USB_REG_EP_OUT_MAX_SIZE_HIGH) + push_bit 1 (ucast (cr_wIndex ctrl AND 0xf))"

definition usb_get_status :: "u8 list \<Rightarrow> usb_ctrlrequest \<Rightarrow> fw_state \<Rightarrow> int \<times> fw_state" where
  "usb_get_status val ctrl s =
     (let status = ucast (u_device_feature (f_usb s)) :: u16
      in if direction ctrl \<noteq> USB_DIR_IN then (-1, s)
         else
           let (status, s) =
             (if recip ctrl = USB_RECIP_DEVICE then
                (status AND NOT USB_DEVICE_SELF_POWERED AND NOT USB_DEVICE_REMOTE_WAKEUP, s)
              else if recip ctrl = USB_RECIP_INTERFACE then (0, s)
              else if recip ctrl = USB_RECIP_ENDPOINT then
                if cr_wIndex ctrl AND 0xf = 0 then
                  let (b, s) = getb AR9170_USB_REG_CX_CONFIG_STATUS s in (of_bool (bit b 2), s)
                else
                  let (b, s) = getb (ep_register ctrl) s in (of_bool (b AND AR9170_USB_EP_OUT_STALL \<noteq> 0), s)
              else (status, s))
           in usb_ep0tx_data val (bytes16 status) s)"

definition usb_get_string_desc :: "u8 list \<Rightarrow> usb_ctrlrequest \<Rightarrow> fw_state \<Rightarrow> int \<times> fw_state" where
  "usb_get_string_desc val ctrl s =
     (let string_desc =
        (if cr_wValue ctrl AND 0xff = 0x00 then Some 0x138c
         else if cr_wValue ctrl AND 0xff = 0x10 then Some 0x1390
         else if cr_wValue ctrl AND 0xff = 0x20 then Some 0x13b0
         else if cr_wValue ctrl AND 0xff = 0x30 then Some 0x13e0 else None)
      in case string_desc of
           Some p \<Rightarrow> usb_ep0tx_data val (rd_bytes p (unat (f_ram s p)) (f_ram s)) s
         | None \<Rightarrow> (-1, s))"

definition rom_device_desc :: u32 where "rom_device_desc = 0x137a"

definition usb_get_device_desc :: "u8 list \<Rightarrow> fw_state \<Rightarrow> int \<times> fw_state" where
  "usb_get_device_desc val s =
     usb_ep0tx_data val (rd_bytes rom_device_desc (unat (f_ram s rom_device_desc)) (f_ram s)) s"

definition usb_get_config_desc :: "u8 list \<Rightarrow> fw_state \<Rightarrow> int \<times> fw_state" where
  "usb_get_config_desc val s =
     (let d = u_cfg_desc (f_usb s); s = f_ram_update (st8 (d + 1) USB_DT_CONFIG) s
      in usb_ep0tx_data val (rd_bytes d (unat (ld16 (f_ram s) (d + 2))) (f_ram s)) s)"

definition usb_get_otherspeed_desc :: "u8 list \<Rightarrow> fw_state \<Rightarrow> int \<times> fw_state" where
  "usb_get_otherspeed_desc val s =
     (let d = u_os_cfg_desc (f_usb s); s = f_ram_update (st8 (d + 1) USB_DT_OTHER_SPEED_CONFIG) s
      in usb_ep0tx_data val (rd_bytes d (unat (ld16 (f_ram s) (d + 2))) (f_ram s)) s)"

text \<open>The qualifier descriptor: ten bytes of the device descriptor, with four of them set again.\<close>

definition usb_get_qualifier_desc :: "u8 list \<Rightarrow> fw_state \<Rightarrow> int \<times> fw_state" where
  "usb_get_qualifier_desc val s =
     (let qual = rd_bytes rom_device_desc 10 (f_ram s);
          qual = qual[1 := USB_DT_DEVICE_QUALIFIER];
          qual = qual[0 := 10];
          qual = qual[8 := f_ram s (rom_device_desc + 17)];
          qual = qual[9 := 0]
      in usb_ep0tx_data val (take (unat (qual ! 0)) qual) s)"

definition usb_get_descriptor :: "u8 list \<Rightarrow> usb_ctrlrequest \<Rightarrow> fw_state \<Rightarrow> int \<times> fw_state" where
  "usb_get_descriptor val ctrl s =
     (let kind = drop_bit 8 (cr_wValue ctrl)
      in if USB_CHECK_REQTYPE ctrl USB_RECIP_DEVICE USB_DIR_IN then (-1, s)
         else if kind = USB_DT_DEVICE then usb_get_device_desc val s
         else if kind = USB_DT_CONFIG then usb_get_config_desc val s
         else if kind = USB_DT_STRING then usb_get_string_desc val ctrl s
         else if kind = USB_DT_DEVICE_QUALIFIER then usb_get_qualifier_desc val s
         else if cf_usb_modeswitch (f_cfg s) \<and> kind = USB_DT_OTHER_SPEED_CONFIG then usb_get_otherspeed_desc val s
         else (-1, s))"

text \<open>The length is the value of the configuration, the data starts at it.\<close>

definition usb_get_configuration :: "u8 list \<Rightarrow> usb_ctrlrequest \<Rightarrow> fw_state \<Rightarrow> int \<times> fw_state" where
  "usb_get_configuration val ctrl s =
     (let u = f_usb s
      in if USB_CHECK_REQTYPE ctrl USB_RECIP_DEVICE USB_DIR_IN then (-1, s)
         else usb_ep0tx_data val (take (unat (u_config u))
                (bytes32 (u_config u) @ bytes32 (u_interface_setting u) @ bytes32 (u_alternate_interface_setting u) @
                 bytes32 (u_device_feature u))) s)"

text \<open>With the mode switch, choosing a configuration or an interface sets up the FIFOs.\<close>

definition usb_fifo_cfg :: "fw_state \<Rightarrow> fw_state" where
  "usb_fifo_cfg s =
     (let (highspeed, s) = usb_detect_highspeed s
      in if highspeed then usb_init_highspeed_fifo_cfg s else usb_init_fullspeed_fifo_cfg s)"

definition usb_set_configuration :: "usb_ctrlrequest \<Rightarrow> fw_state \<Rightarrow> int \<times> fw_state" where
  "usb_set_configuration ctrl s =
     (let config = ucast (cr_wValue ctrl) :: u32
      in if USB_CHECK_REQTYPE ctrl USB_RECIP_DEVICE USB_DIR_OUT then (-1, s)
         else if config = 0 \<or> config = 1 then
           let s = (if config = 0
                    then andb AR9170_USB_REG_DEVICE_ADDRESS (NOT AR9170_USB_DEVICE_ADDRESS_CONFIGURE) s else s);
               s = f_usb_update (u_config_update (\<lambda>_. config)) s;
               s = (if cf_usb_modeswitch (f_cfg s) then usb_fifo_cfg s else s);
               s = usb_reset_eps s;
               s = orb AR9170_USB_REG_DEVICE_ADDRESS AR9170_USB_DEVICE_ADDRESS_CONFIGURE s;
               s = usb_enable_global_int s
           in (1, usb_trigger_out s)
         else (-1, s))"

definition usb_set_address :: "usb_ctrlrequest \<Rightarrow> fw_state \<Rightarrow> int \<times> fw_state" where
  "usb_set_address ctrl s =
     (let address = ucast (cr_wValue ctrl) :: u32
      in if USB_CHECK_REQTYPE ctrl USB_RECIP_DEVICE USB_DIR_OUT then (-1, s)
         else if address \<ge> BIT 7 then (-1, s)
         else (1, setb AR9170_USB_REG_DEVICE_ADDRESS (ucast address) s))"

definition usb_get_interface :: "u8 list \<Rightarrow> usb_ctrlrequest \<Rightarrow> fw_state \<Rightarrow> int \<times> fw_state" where
  "usb_get_interface val ctrl s =
     (if USB_CHECK_REQTYPE ctrl USB_RECIP_INTERFACE USB_DIR_IN then (-1, s)
      else let (configured, s) = usb_configured s
           in if \<not> configured then (-1, s)
              else if u_config (f_usb s) \<noteq> 1 then (-1, s)
              else usb_ep0tx_data val (take 1 (bytes32 (u_alternate_interface_setting (f_usb s)))) s)"

definition usb_manipulate_feature :: "usb_ctrlrequest \<Rightarrow> bool \<Rightarrow> fw_state \<Rightarrow> int \<times> fw_state" where
  "usb_manipulate_feature ctrl clear s =
     (if direction ctrl \<noteq> USB_DIR_OUT then (-1, s)
      else
        let (configured, s) = usb_configured s; feature = ucast (cr_wValue ctrl) :: u32
        in if \<not> configured then (-1, s)
           else if recip ctrl = USB_RECIP_DEVICE then
             let s = (if cf_wol (f_cfg s) \<and> feature AND USB_DEVICE_REMOTE_WAKEUP \<noteq> 0
                      then if clear then usb_disable_remote_wakeup s else usb_enable_remote_wakeup s else s)
             in (1, f_usb_update (u_device_feature_update
                      (\<lambda>f. if clear then f AND NOT feature else f OR feature)) s)
           else if recip ctrl = USB_RECIP_ENDPOINT then
             if cr_wIndex ctrl AND 0xf = 0 then (-1, s)
             else (1, if clear then andb (ep_register ctrl) (NOT AR9170_USB_EP_OUT_STALL) s
                      else orb (ep_register ctrl) AR9170_USB_EP_OUT_STALL s)
           else (-1, s))"

definition usb_set_interface :: "usb_ctrlrequest \<Rightarrow> fw_state \<Rightarrow> int \<times> fw_state" where
  "usb_set_interface ctrl s =
     (if USB_CHECK_REQTYPE ctrl USB_RECIP_INTERFACE USB_DIR_OUT then (-1, s)
      else
        let (configured, s) = usb_configured s
        in if \<not> configured then (-1, s)
           else if cr_wIndex ctrl = 0 then
             if cr_wValue ctrl \<noteq> ucast (f_ram s (u_cfg_desc (f_usb s) + 12)) then (-1, s)
             else
               let s = f_usb_update (\<lambda>u. u\<lparr> u_interface_setting := ucast (ucast (cr_wIndex ctrl) :: u8),
                         u_alternate_interface_setting := ucast (ucast (cr_wValue ctrl) :: u8) \<rparr>) s;
                   s = usb_fifo_cfg s;
                   s = usb_reset_eps s;
                   s = usb_enable_global_int s
               in (1, usb_trigger_out s)
           else (-1, s))"

definition usb_standard_command :: "u8 list \<Rightarrow> usb_ctrlrequest \<Rightarrow> fw_state \<Rightarrow> int \<times> fw_state" where
  "usb_standard_command val ctrl s =
     (let r = cr_bRequest ctrl
      in if r = USB_REQ_GET_STATUS then usb_get_status val ctrl s
         else if r = USB_REQ_CLEAR_FEATURE \<or> r = USB_REQ_SET_FEATURE
           then usb_manipulate_feature ctrl (r = USB_REQ_CLEAR_FEATURE) s
         else if r = USB_REQ_SET_ADDRESS then usb_set_address ctrl s
         else if r = USB_REQ_GET_DESCRIPTOR then usb_get_descriptor val ctrl s
         else if r = USB_REQ_GET_CONFIGURATION then usb_get_configuration val ctrl s
         else if r = USB_REQ_SET_CONFIGURATION then usb_set_configuration ctrl s
         else if r = USB_REQ_GET_INTERFACE then usb_get_interface val ctrl s
         else if r = USB_REQ_SET_INTERFACE \<and> cf_usb_modeswitch (f_cfg s) then usb_set_interface ctrl s
         else (-1, s))"

definition usb_class_command :: "fw_state \<Rightarrow> int \<times> fw_state" where
  "usb_class_command s = (-1, s)"

definition usb_vendor_command :: "fw_state \<Rightarrow> int \<times> fw_state" where
  "usb_vendor_command s = (-1, s)"

definition upd_ep0_action :: "(u32 \<Rightarrow> u32) \<Rightarrow> fw_state \<Rightarrow> fw_state" where
  "upd_ep0_action g = f_usb_update (u_ep0_action_update g)"

definition usb_ep0setup :: "u8 list \<Rightarrow> fw_state \<Rightarrow> fw_state" where
  "usb_ep0setup val s =
     (let (bs, s) = usb_ep0rx_data 8 s; ctrl = ctrlrequest_of bs; kind = cr_bRequestType ctrl AND USB_TYPE_MASK;
          (status, s) =
            (if kind = USB_TYPE_STANDARD then usb_standard_command val ctrl s
             else if kind = USB_TYPE_CLASS then usb_class_command s
             else if kind = USB_TYPE_VENDOR then usb_vendor_command s else (-1, s));
          s = (if status < 0 then upd_ep0_action (\<lambda>a. a OR CARL9170_EP0_STALL) s else s)
      in if status > 0 then upd_ep0_action (\<lambda>a. a OR CARL9170_EP0_TRIGGER) s else s)"

abbreviation (input) ep0_unset :: "fw_state \<Rightarrow> bool" where
  "ep0_unset s \<equiv> u_ep0_txrx_buffer (f_usb s) = 0 \<or> u_ep0_txrx_len (f_usb s) = 0"

definition usb_ep0rx :: "fw_state \<Rightarrow> fw_state" where
  "usb_ep0rx s =
     (if ep0_unset s then BUG_ON True ''usb_ep0rx'' 804 ''!fw.usb.ep0_txrx_buffer || !fw.usb.ep0_txrx_len'' s
      else let (bs, s) = usb_ep0rx_data (unat (u_ep0_txrx_len (f_usb s))) s;
               s = f_ram_update (wr_bytes (u_ep0_txrx_buffer (f_usb s)) bs) s
           in f_usb_update (\<lambda>u. u\<lparr> u_ep0_txrx_pos := u_ep0_txrx_len u \<rparr>) s)"

definition usb_ep0tx :: "u8 list \<Rightarrow> fw_state \<Rightarrow> fw_state" where
  "usb_ep0tx val s =
     (if ep0_unset s then BUG_ON True ''usb_ep0tx'' 813 ''!fw.usb.ep0_txrx_buffer || !fw.usb.ep0_txrx_len'' s
      else let u = f_usb s;
               (_, s) = usb_ep0tx_data val (rd_bytes (u_ep0_txrx_buffer u) (unat (u_ep0_txrx_len u)) (f_ram s)) s
           in f_usb_update (\<lambda>u. u\<lparr> u_ep0_txrx_pos := u_ep0_txrx_len u \<rparr>) s)"

subsection \<open>What the host sees\<close>

text \<open>The data that leaves endpoint 0: every word that is written to its FIFO sends the bytes that the
  mask in \<^verbatim>\<open>AR9170_USB_REG_FIFO_SIZE\<close> selects. The first argument is the mask that holds.\<close>

fun ep0_sent :: "u32 \<Rightarrow> (u32 \<times> u32) list \<Rightarrow> u8 list" where
  "ep0_sent sel [] = []"
| "ep0_sent sel ((a, v) # ws) =
     (if a = AR9170_USB_REG_FIFO_SIZE then ep0_sent v ws
      else (if a = AR9170_USB_REG_EP0_DATA then [bytes32 v ! i. i \<leftarrow> [0..<4], bit sel i] else []) @ ep0_sent sel ws)"

lemma hw_log_set_reg [simp]: "hw_log (f_hw (set_reg a v s)) = hw_log (f_hw s) @ [(a, v)]"
  by (simp add: set_reg_def)

lemma hw_log_setb: "\<exists>w. hw_log (f_hw (setb a b s)) = hw_log (f_hw s) @ [(a, w)] \<and> (ucast w :: u8) = b"
proof -
  have m: "(0xFF :: u32) = mask 8"
    by (simp add: mask_eq_exp_minus_1)
  have "(ucast (hw_regs (f_hw s) a AND NOT 0xFF OR ucast b :: u32) :: u8) = b"
    unfolding m by (rule bit_word_eqI) (auto simp: bit_simps)
  then show ?thesis
    by (simp add: setb_def)
qed

lemma take_min_drop: "take k xs @ drop (min (length xs) k) xs = xs"
  by (simp add: min_def)

lemma selected_bytes:
  assumes "length val = 4" "data \<noteq> []" "(ucast w :: u8) = push_bit (min (length data) 4) 1 - 1"
  defines "v \<equiv> take (min (length data) 4) data @ drop (min (length data) 4) val"
  shows "[bytes32 (le32 (v ! 0) (v ! 1) (v ! 2) (v ! 3)) ! i. i \<leftarrow> [0..<4], bit w i] = take 4 data"
proof -
  have b: "bit w 0 = bit (ucast w :: u8) 0" "bit w 1 = bit (ucast w :: u8) 1" "bit w 2 = bit (ucast w :: u8) 2"
      "bit w 3 = bit (ucast w :: u8) 3"
    by (simp_all add: bit_simps)
  have up: "[0..<4] = [0, 1, 2, 3::nat]"
    by (simp add: upt_rec)
  obtain v0 v1 v2 v3 where val: "val = [v0, v1, v2, v3]"
    using assms(1) by (auto simp: numeral_eq_Suc length_Suc_conv)
  have bits: "bit (1 :: u8) 0" "\<not> bit (1 :: u8) 1" "\<not> bit (1 :: u8) 2" "\<not> bit (1 :: u8) 3"
      "bit (3 :: u8) 0" "bit (3 :: u8) 1" "\<not> bit (3 :: u8) 2" "\<not> bit (3 :: u8) 3"
      "bit (7 :: u8) 0" "bit (7 :: u8) 1" "bit (7 :: u8) 2" "\<not> bit (7 :: u8) 3"
      "bit (15 :: u8) 0" "bit (15 :: u8) 1" "bit (15 :: u8) 2" "bit (15 :: u8) 3"
    by code_simp+
  consider a where "data = [a]" | a b where "data = [a, b]" | a b c where "data = [a, b, c]"
    | a b c d ds where "data = a # b # c # d # ds"
    using assms(2) by (metis list.exhaust)
  then show ?thesis
  proof cases
    case 1
    then have "(ucast w :: u8) = 1"
      using assms(3) by simp
    then show ?thesis
      using 1 by (simp only: up b v_def val list.map bytes32_le32) (simp add: bits)
  next
    case 2
    then have "(ucast w :: u8) = 3"
      using assms(3) by simp
    then show ?thesis
      using 2 by (simp only: up b v_def val list.map bytes32_le32) (simp add: bits)
  next
    case 3
    then have "(ucast w :: u8) = 7"
      using assms(3) by simp
    then show ?thesis
      using 3 by (simp only: up b v_def val list.map bytes32_le32) (simp add: bits)
  next
    case 4
    then have "(ucast w :: u8) = 15"
      using assms(3) by simp
    then show ?thesis
      using 4 by (simp only: up b v_def val list.map bytes32_le32) (simp add: bits)
  qed
qed


lemma ep0_sent_loop:
  assumes "length val = 4" "last_block = min (length data) 4 \<Longrightarrow> 4 \<le> length data \<Longrightarrow> (ucast sel :: u8) = 0xf"
  shows "\<exists>ws. hw_log (f_hw (ep0tx_loop val last_block data s)) = hw_log (f_hw s) @ ws \<and> ep0_sent sel ws = data"
  using assms
proof (induction data arbitrary: val last_block s sel rule: length_induct)
  case (1 data)
  show ?case
  proof (cases "data = []")
    case True
    then show ?thesis
      by (subst ep0tx_loop.simps) (auto intro: exI [of _ "[]"])
  next
    case False
    define block where "block = min (length data) 4"
    define fresh where "fresh \<longleftrightarrow> last_block \<noteq> block \<or> block < 4"
    define s1 where "s1 = (if fresh then setb AR9170_USB_REG_FIFO_SIZE (push_bit block 1 - 1) s else s)"
    define v where "v = take block data @ drop block val"
    define s2 where "s2 = set_reg AR9170_USB_REG_EP0_DATA (le32 (v ! 0) (v ! 1) (v ! 2) (v ! 3)) s1"
    have step: "ep0tx_loop val last_block data s = ep0tx_loop v (min (length (drop block data)) 4) (drop block data) s2"
      using False by (subst ep0tx_loop.simps) (simp only: False if_False Let_def block_def s1_def s2_def fresh_def v_def)
    obtain w where "hw_log (f_hw (setb AR9170_USB_REG_FIFO_SIZE (push_bit block 1 - 1) s)) =
          hw_log (f_hw s) @ [(AR9170_USB_REG_FIFO_SIZE, w)]" and ww: "(ucast w :: u8) = push_bit block 1 - 1"
      using hw_log_setb by blast
    then have w: "fresh \<Longrightarrow> hw_log (f_hw s1) = hw_log (f_hw s) @ [(AR9170_USB_REG_FIFO_SIZE, w)]"
      by (simp add: s1_def)
    define w' where "w' = (if fresh then w else sel)"
    have w': "(ucast w' :: u8) = push_bit block 1 - 1"
    proof (cases fresh)
      case True
      then show ?thesis
        by (simp only: w'_def ww if_True)
    next
      case False
      then have b: "block = 4"
        using min.cobounded2 [of "length data" 4] by (simp add: fresh_def block_def)
      with False have "(ucast sel :: u8) = 0xf"
        by (intro 1(3)) (simp_all add: fresh_def block_def)
      with False b show ?thesis
        by (simp add: w'_def)
    qed
    have full: "(ucast w' :: u8) = 0xf" if "4 \<le> length (drop block data)"
      using that w' by (simp add: block_def)
    have len: "length v = 4"
      using 1(2) by (simp add: v_def block_def)
    have shorter: "length (drop block data) < length data"
      using False by (simp add: block_def)
    have IH: "\<exists>ws. hw_log (f_hw (ep0tx_loop v (min (length (drop block data)) 4) (drop block data) s2)) = hw_log (f_hw s2) @ ws \<and>
        ep0_sent w' ws = drop block data"
      using full by (intro 1(1) [rule_format, OF shorter len]) simp
    then obtain ws where ws: "hw_log (f_hw (ep0tx_loop val last_block data s)) = hw_log (f_hw s2) @ ws"
        "ep0_sent w' ws = drop block data"
      by (auto simp: step)
    have "ep0_sent w' ((AR9170_USB_REG_EP0_DATA, le32 (v ! 0) (v ! 1) (v ! 2) (v ! 3)) # ws) = data"
      using selected_bytes [OF 1(2) False w' [unfolded block_def]]
      unfolding ep0_sent.simps ws(2) v_def block_def by (simp add: take_min_drop)
    then show ?thesis
      using ws(1) w by (cases fresh) (auto simp: s2_def s1_def w'_def)
  qed
qed

text \<open>C32. Whatever the stack holds, the bytes that endpoint 0 sends are the data it was given, in order:
  the partial last word is cut by the mask, and the mask is set when it changes.\<close>

theorem ep0tx_sends_data:
  assumes "length data \<le> 64" "length val = 4"
  shows "fst (usb_ep0tx_data val data s) = 1 \<and>
    (\<exists>ws. hw_log (f_hw (snd (usb_ep0tx_data val data s))) = hw_log (f_hw s) @ ws \<and> ep0_sent 0 ws = data)"
proof -
  obtain ws where ws: "hw_log (f_hw (ep0tx_loop val 0 data s)) = hw_log (f_hw s) @ ws" "ep0_sent 0 ws = data"
    using ep0_sent_loop [OF assms(2), of 0 data 0 s] by auto
  obtain w where w: "hw_log (f_hw (setb AR9170_USB_REG_FIFO_SIZE 0xf (ep0tx_loop val 0 data s))) =
      hw_log (f_hw s) @ ws @ [(AR9170_USB_REG_FIFO_SIZE, w)]"
    using hw_log_setb [of AR9170_USB_REG_FIFO_SIZE "0xf" "ep0tx_loop val 0 data s"] ws(1) by auto
  have "ep0_sent sel (xs @ [(AR9170_USB_REG_FIFO_SIZE, w)]) = ep0_sent sel xs" for sel xs
    by (induction sel xs rule: ep0_sent.induct) auto
  with w ws(2) assms(1) show ?thesis
    by (auto simp: usb_ep0tx_data_def Let_def BUG_ON_def)
qed

lemma hw_regs_set_reg: "hw_regs (f_hw (set_reg a v s)) = (hw_regs (f_hw s))(a := v)"
  by (simp add: set_reg_def)

lemma hw_regs_setb: "hw_regs (f_hw (setb a b s)) = (hw_regs (f_hw s))(a := hw_regs (f_hw s) a AND NOT 0xFF OR ucast b)"
  by (simp add: setb_def hw_regs_set_reg)

lemma hw_regs_tick [simp]: "hw_regs (f_hw (tick s)) = hw_regs (f_hw s)"
  by (simp add: tick_def)

lemma hw_regs_other:
  assumes "a \<noteq> b"
  shows "hw_regs (f_hw (andb a x s)) b = hw_regs (f_hw s) b" "hw_regs (f_hw (orb a y s)) b = hw_regs (f_hw s) b"
  unfolding andb_def orb_def getb_def get_reg_def Let_def split_beta hw_regs_setb fst_conv snd_conv
  using assms by simp_all

lemma orb_sets_bit:
  assumes "n < 8" "bit y n"
  shows "bit (hw_regs (f_hw (orb a y s)) a) n"
  unfolding orb_def getb_def get_reg_def Let_def split_beta hw_regs_setb fst_conv snd_conv
  using assms by (simp add: bit_or_iff bit_ucast_iff)

lemma same_core_fold:
  "(\<And>x s. same_core s (f x s)) \<Longrightarrow> same_core s (fold f xs s)"
  by (induction xs arbitrary: s) (auto intro: same_core_trans)

lemma same_core_ep:
  "same_core s (usb_clear_input_ep_stall i (usb_clear_input_ep_toggle i (usb_set_input_ep_toggle i s)))"
  "same_core s (usb_clear_output_ep_stall i (usb_clear_output_ep_toggle i (usb_set_output_ep_toggle i s)))"
  unfolding usb_clear_input_ep_stall_def usb_clear_input_ep_toggle_def
    usb_set_input_ep_toggle_def usb_clear_output_ep_stall_def usb_clear_output_ep_toggle_def usb_set_output_ep_toggle_def
  by (meson same_core_trans same_core_andl same_core_orl)+

lemma same_core_usb_reset_eps [simp]: "same_core s (usb_reset_eps s)"
  unfolding usb_reset_eps_def Let_def
  by (rule same_core_trans; rule same_core_fold; rule same_core_ep)

lemma same_core_fifo_cfg [simp]: "same_core s (usb_fifo_cfg s)"
proof -
  have "same_core s (snd (usb_detect_highspeed s))"
    by (simp add: usb_detect_highspeed_def getb_def get_reg_def Let_def split_beta)
  then show ?thesis
    by (auto simp: usb_fifo_cfg_def split_beta intro: same_core_trans)
qed

text \<open>SET_CONFIGURATION with value 0 stores the configuration, but the flag it clears is set again: the
  device stays configured. GET_CONFIGURATION answers with as many bytes as the value of the
  configuration, which is none then.\<close>

theorem set_configuration_0_stays_configured:
  assumes "recip ctrl = USB_RECIP_DEVICE" "direction ctrl = USB_DIR_OUT" "cr_wValue ctrl = 0"
    and "recip ctrl' = USB_RECIP_DEVICE" "direction ctrl' = USB_DIR_IN" "usb_set_configuration ctrl s = (r, t)"
  shows "r = 1 \<and> u_config (f_usb t) = 0 \<and> bit (hw_regs (f_hw t) AR9170_USB_REG_DEVICE_ADDRESS) 7 \<and>
    usb_get_configuration val ctrl' t = usb_ep0tx_data val [] t"
proof -
  define u where "u = f_usb_update (u_config_update (\<lambda>_. 0))
    (andb AR9170_USB_REG_DEVICE_ADDRESS (NOT AR9170_USB_DEVICE_ADDRESS_CONFIGURE) s)"
  define v where "v = (if cf_usb_modeswitch (f_cfg u) then usb_fifo_cfg u else u)"
  have t: "r = 1" "t = usb_trigger_out (usb_enable_global_int
      (orb AR9170_USB_REG_DEVICE_ADDRESS AR9170_USB_DEVICE_ADDRESS_CONFIGURE (usb_reset_eps v)))"
    using assms(6) unfolding usb_set_configuration_def USB_CHECK_REQTYPE_def assms(1-3) Let_def v_def u_def
    by (simp_all cong: if_cong)
  have "same_core u v"
    by (simp add: v_def)
  then have "f_usb v = f_usb u"
    by (rule fields_same_core)
  then have c: "u_config (f_usb t) = 0"
    unfolding t usb_trigger_out_def usb_enable_global_int_def
    by (simp only: fields_same_core(7) [OF same_core_andb] fields_same_core(7) [OF same_core_orb]
        fields_same_core(7) [OF same_core_usb_reset_eps]) (simp add: u_def)
  have "bit (0x80 :: u32) 7"
    by code_simp
  then have "bit (hw_regs (f_hw t) AR9170_USB_REG_DEVICE_ADDRESS) 7"
    unfolding t usb_trigger_out_def usb_enable_global_int_def by (simp add: orb_sets_bit hw_regs_other)
  with t(1) c show ?thesis
    unfolding usb_get_configuration_def USB_CHECK_REQTYPE_def assms(4,5) Let_def by simp
qed

theorem set_configuration_0_stays_configured_witness:
  "u_config (f_usb (snd (usb_set_configuration (ctrlrequest_of [0, USB_REQ_SET_CONFIGURATION, 0, 0, 0, 0, 0, 0])
     (zero_state default_config)))) = 0"
  using set_configuration_0_stays_configured [OF _ _ _ _ _ prod.collapse [symmetric],
      of "ctrlrequest_of [0, USB_REQ_SET_CONFIGURATION, 0, 0, 0, 0, 0, 0]"
         "ctrlrequest_of [0x80, USB_REQ_GET_CONFIGURATION, 0, 0, 0, 0, 0, 0]" "zero_state default_config"]
  by (simp add: ctrlrequest_of_def le16_def)

text \<open>The descriptors that the length bytes delimit, with their kinds.\<close>

function split_desc :: "u8 list \<Rightarrow> (u8 \<times> u8 list) list option" where
  "split_desc bs =
     (if bs = [] then Some []
      else let n = unat (bs ! 0)
           in if n < 2 \<or> n > length bs then None
              else do { ds \<leftarrow> split_desc (drop n bs); Some ((bs ! 1, take n bs) # ds) })"
  by auto
termination by (relation "measure length") auto

lemmas split_desc_step = split_desc.simps [of "x # y # zs" for x y zs]
declare split_desc.simps [simp del]

lemma usb_config_split:
  "split_desc (usb_config wol [usb_endpoint a b c d, usb_endpoint e f g h, usb_endpoint i j k l, usb_endpoint m n p q])
    = Some [(USB_DT_CONFIG, take 9 (usb_config wol [])), (USB_DT_INTERFACE, drop 9 (usb_config wol [])),
      (USB_DT_ENDPOINT, usb_endpoint a b c d), (USB_DT_ENDPOINT, usb_endpoint e f g h),
      (USB_DT_ENDPOINT, usb_endpoint i j k l), (USB_DT_ENDPOINT, usb_endpoint m n p q)]"
  by (simp add: usb_config_def usb_endpoint_def bytes16_def split_desc_step split_desc.simps [of "[]"])

lemma usb_config_length:
  "length (usb_config_highspeed wol) = 46" "length (usb_config_fullspeed wol) = 46"
  by (simp_all add: usb_config_highspeed_def usb_config_fullspeed_def usb_config_def usb_endpoint_def)

lemma usb_config_nth:
  "usb_config wol eps ! 1 = USB_DT_CONFIG" "usb_config wol eps ! 2 = 46" "usb_config wol eps ! 3 = 0"
  "usb_config wol eps ! 13 = AR9170_USB_NUM_EXTRA_EP"
  by (simp_all add: usb_config_def bytes16_def nth_Cons')

lemma usb_config_head:
  "usb_config_highspeed wol ! 1 = USB_DT_CONFIG" "usb_config_fullspeed wol ! 1 = USB_DT_CONFIG"
  "le16 (usb_config_highspeed wol ! 2) (usb_config_highspeed wol ! 3) = 46"
  "le16 (usb_config_fullspeed wol ! 2) (usb_config_fullspeed wol ! 3) = 46"
  unfolding usb_config_highspeed_def usb_config_fullspeed_def usb_config_nth by (simp_all add: le16_def)

lemma usb_config_kinds:
  "map_option (map fst) (split_desc (usb_config_highspeed wol)) = Some (USB_DT_CONFIG # USB_DT_INTERFACE #
     replicate (unat (usb_config_highspeed wol ! 13)) USB_DT_ENDPOINT)"
  "map_option (map fst) (split_desc (usb_config_fullspeed wol)) = Some (USB_DT_CONFIG # USB_DT_INTERFACE #
     replicate (unat (usb_config_fullspeed wol ! 13)) USB_DT_ENDPOINT)"
proof -
  have r: "replicate 4 x = [x, x, x, x]" for x :: u8
    by (simp add: numeral_eq_Suc)
  show "map_option (map fst) (split_desc (usb_config_highspeed wol)) = Some (USB_DT_CONFIG # USB_DT_INTERFACE #
        replicate (unat (usb_config_highspeed wol ! 13)) USB_DT_ENDPOINT)"
      "map_option (map fst) (split_desc (usb_config_fullspeed wol)) = Some (USB_DT_CONFIG # USB_DT_INTERFACE #
        replicate (unat (usb_config_fullspeed wol ! 13)) USB_DT_ENDPOINT)"
    unfolding usb_config_highspeed_def usb_config_fullspeed_def usb_config_nth usb_config_split
    by (simp_all add: r)
qed

lemma rd_bytes_nthD: "rd_bytes p n m = bs \<Longrightarrow> i < n \<Longrightarrow> m (p + of_nat i) = bs ! i"
  by (auto simp: nth_rd_bytes)

text \<open>C33. A GET_DESCRIPTOR request for the configuration is answered with the static descriptor of the
  speed, which is well formed: 46 bytes, as its total length says, that split into the
  configuration, one interface and the four endpoints the interface announces.\<close>

theorem get_config_descriptor:
  assumes "usb_configs_loaded s" "drop_bit 8 (cr_wValue ctrl) = USB_DT_CONFIG"
    and "recip ctrl = USB_RECIP_DEVICE" "direction ctrl = USB_DIR_IN"
    and "u_cfg_desc (f_usb s) = (if hs then cf_usb_hs_config (f_cfg s) else cf_usb_fs_config (f_cfg s))"
    and "cfg = (if hs then usb_config_highspeed (cf_wol (f_cfg s)) else usb_config_fullspeed (cf_wol (f_cfg s)))"
  shows "usb_get_descriptor val ctrl s = usb_ep0tx_data val cfg s \<and> length cfg = 46 \<and> le16 (cfg ! 2) (cfg ! 3) = 46 \<and>
    map_option (map fst) (split_desc cfg) = Some (USB_DT_CONFIG # USB_DT_INTERFACE #
      replicate (unat (cfg ! 13)) USB_DT_ENDPOINT)"
proof -
  let ?d = "u_cfg_desc (f_usb s)"
  have rd: "rd_bytes ?d 46 (f_ram s) = cfg"
    using assms(1,5,6) by (simp add: usb_configs_loaded_def)
  have cfg: "length cfg = 46" "cfg ! 1 = USB_DT_CONFIG" "le16 (cfg ! 2) (cfg ! 3) = 46"
    using assms(6) by (cases hs; simp add: usb_config_length usb_config_head usb_config_head(1,2) [unfolded One_nat_def])+
  have m: "f_ram s (?d + 1) = cfg ! 1" "f_ram s (?d + 2) = cfg ! 2" "f_ram s (?d + 3) = cfg ! 3"
    using rd_bytes_nthD [OF rd, of 1] rd_bytes_nthD [OF rd, of 2] rd_bytes_nthD [OF rd, of 3] by simp_all
  have r: "st8 (?d + 1) USB_DT_CONFIG (f_ram s) = f_ram s"
    using m(1) cfg(2) by (simp add: st8_def fun_upd_idem)
  then have s: "f_ram_update (st8 (?d + 1) USB_DT_CONFIG) s = s"
    by (cases s) simp
  have "usb_get_config_desc val s = usb_ep0tx_data val (rd_bytes ?d 46 (f_ram s)) s"
    unfolding usb_get_config_desc_def Let_def s using m cfg(3) by (simp add: ld16_def add.assoc)
  then have ans: "usb_get_descriptor val ctrl s = usb_ep0tx_data val cfg s"
    unfolding usb_get_descriptor_def USB_CHECK_REQTYPE_def assms(2-4) Let_def rd by simp
  have "map_option (map fst) (split_desc cfg) = Some (USB_DT_CONFIG # USB_DT_INTERFACE #
      replicate (unat (cfg ! 13)) USB_DT_ENDPOINT)"
    unfolding assms(6) by (cases hs) (simp_all only: usb_config_kinds if_True if_False)
  with ans cfg show ?thesis
    by simp
qed

theorem get_config_descriptor_witness:
  "\<exists>s. usb_configs_loaded s \<and> usb_get_descriptor [0, 0, 0, 0] (ctrlrequest_of [0x80, USB_REQ_GET_DESCRIPTOR, 0, 2, 0, 0, 255, 0]) s =
     usb_ep0tx_data [0, 0, 0, 0] (usb_config_fullspeed False) s"
proof -
  define s where "s = (zero_state default_config)\<lparr>
    f_ram := wr_bytes 0x204000 (usb_config_highspeed False) (wr_bytes 0x204100 (usb_config_fullspeed False) (\<lambda>_. 0)),
    f_usb := (f_usb (zero_state default_config))\<lparr> u_cfg_desc := 0x204100 \<rparr> \<rparr>"
  have "disjoint_ranges 0x204100 46 0x204000 (length (usb_config_highspeed False))"
    by (rule disjoint_rangesI) (simp_all add: usb_config_length)
  then have "usb_configs_loaded s"
    by (simp add: s_def usb_configs_loaded_def zero_state_def default_config_def rd_wr_same rd_wr_disjoint usb_config_length)
  moreover have "u_cfg_desc (f_usb s) = cf_usb_fs_config (f_cfg s)" "\<not> cf_wol (f_cfg s)"
    by (simp_all add: s_def zero_state_def default_config_def)
  ultimately show ?thesis
    using get_config_descriptor [of s "ctrlrequest_of [0x80, USB_REQ_GET_DESCRIPTOR, 0, 2, 0, 0, 255, 0]" False
      "usb_config_fullspeed False" "[0, 0, 0, 0]"]
    by (intro exI [of _ s]) (simp add: ctrlrequest_of_def le16_def)
qed

theorem ep0tx_sends_data_witness:
  "\<exists>ws. hw_log (f_hw (snd (usb_ep0tx_data [9, 9, 9, 9] [1, 2, 3, 4, 5, 6] (zero_state default_config)))) = ws \<and>
    ep0_sent 0 ws = [1, 2, 3, 4, 5, 6]"
  using ep0tx_sends_data [of "[1, 2, 3, 4, 5, 6]" "[9, 9, 9, 9]" "zero_state default_config"]
  by (auto simp: zero_state_def)

end
