(* ===== verification/UsbMain.thy ===== *)
theory UsbMain
  imports UsbCtrl
begin

text \<open>The USB interrupt handler and what it starts (carlfw/usb/main.c): commands from the host, the
  transfer of responses, suspend and resume, and the reboot. \<^verbatim>\<open>reboot\<close> does not return, so the operations
  that may reach it give a \<^verbatim>\<open>flow\<close>: the firmware goes on, or the device is back in its boot code. The
  argument \<^verbatim>\<open>val\<close> is what \<^verbatim>\<open>usb_ep0tx_data\<close> finds in its uninitialised variable.\<close>

datatype flow = Running fw_state | Rebooted fw_state

definition flow_bind :: "flow option \<Rightarrow> (fw_state \<Rightarrow> flow option) \<Rightarrow> flow option" where
  "flow_bind m f = (case m of None \<Rightarrow> None | Some (Rebooted s) \<Rightarrow> Some (Rebooted s) | Some (Running s) \<Rightarrow> f s)"

lemma flow_bind_simps [simp]:
  "flow_bind None f = None" "flow_bind (Some (Rebooted s)) f = Some (Rebooted s)"
  "flow_bind (Some (Running s)) f = f s"
  by (simp_all add: flow_bind_def)

lemma flow_bind_Some:
  "flow_bind m f = Some r \<longleftrightarrow> (\<exists>s. m = Some (Rebooted s) \<and> r = Rebooted s) \<or> (\<exists>s. m = Some (Running s) \<and> f s = Some r)"
  by (auto simp: flow_bind_def split: option.splits flow.splits)

subsection \<open>Commands and data\<close>

definition usb_data_in :: "fw_state \<Rightarrow> fw_state" where
  "usb_data_in s = s"

text \<open>The number of words in the FIFO of endpoint 4.\<close>

definition fifo_words :: "u16 \<Rightarrow> u16" where
  "fifo_words usbfifolen = (if usbfifolen AND 3 \<noteq> 0 then drop_bit 2 usbfifolen + 1 else drop_bit 2 usbfifolen)"

definition reg_out_word :: "nat \<Rightarrow> fw_state \<Rightarrow> fw_state" where
  "reg_out_word i s =
     (let (v, s) = get_reg AR9170_USB_REG_EP4_DATA s in f_ram_update (st32 (reserved_cmd + 4 * of_nat i) v) s)"

definition usb_reg_out :: "fw_state \<Rightarrow> fw_state option" where
  "usb_reg_out s =
     (let s = usb_reset_out s;
          (low, s) = getb AR9170_USB_REG_EP4_BYTE_COUNT_LOW s;
          (high, s) = getb AR9170_USB_REG_EP4_BYTE_COUNT_HIGH s;
          usbfifolen = fifo_words (ucast low OR push_bit 8 (ucast high));
          s = fold reg_out_word [0..<unat usbfifolen] s;
          (resp, s) = get_int_buf s
      in do { s \<leftarrow> handle_cmd resp s; Some (usb_trigger_in s) })"

subsection \<open>Power off\<close>

definition addac_off_words :: "u32 list" where
  "addac_off_words = replicate 7 0 @ [0xf8, 0x27, 0xf9, 0x90, 0x04, 0x48, 0x19] @ replicate 5 0 @ [0x70, 0x0c] @ replicate 8 0"

definition turn_power_off :: "fw_state \<Rightarrow> fw_state" where
  "turn_power_off s =
     (let s = set_reg AR9170_PHY_REG_ACTIVE AR9170_PHY_ACTIVE_DIS s;
          s = set_reg AR9170_PHY_REG_ADC_CTL
                (0xa0000000 OR AR9170_PHY_ADC_CTL_OFF_PWDADC OR AR9170_PHY_ADC_CTL_OFF_PWDDAC) s;
          s = set_reg AR9170_GPIO_REG_PORT_DATA 0 s;
          s = set_reg AR9170_GPIO_REG_PORT_TYPE 0xf s;
          s = set_reg AR9170_PWR_REG_BASE 0x40021 s;
          s = set_reg AR9170_MAC_REG_DMA_TRIGGER 0 s;
          s = andl AR9170_USB_REG_DMA_CTL (NOT (AR9170_USB_DMA_CTL_ENABLE_TO_DEVICE OR
                AR9170_USB_DMA_CTL_ENABLE_FROM_DEVICE OR AR9170_USB_DMA_CTL_UP_PACKET_MODE OR
                AR9170_USB_DMA_CTL_DOWN_STREAM)) s;
          s = orl AR9170_PTA_REG_DMA_MODE_CTRL AR9170_PTA_DMA_MODE_CTRL_RESET s;
          s = andl AR9170_PTA_REG_DMA_MODE_CTRL (NOT AR9170_PTA_DMA_MODE_CTRL_RESET) s;
          s = orl AR9170_PTA_REG_DMA_MODE_CTRL AR9170_PTA_DMA_MODE_CTRL_DISABLE_USB s;
          s = set_reg AR9170_MAC_REG_POWER_STATE_CTRL AR9170_MAC_POWER_STATE_CTRL_RESET s;
          s = set_reg AR9170_PWR_REG_RESET (AR9170_PWR_RESET_COMMIT_RESET_MASK OR AR9170_PWR_RESET_DMA_MASK OR
                AR9170_PWR_RESET_WLAN_MASK) s;
          s = set_reg AR9170_PWR_REG_RESET 0x0 s;
          s = clock_set AHB_20_22MHZ False s;
          s = set_reg AR9170_PWR_REG_PLL_ADDAC 0x5163 s;
          s = set_reg AR9170_PHY_REG_ADC_SERIAL_CTL AR9170_PHY_ADC_SCTL_SEL_EXTERNAL_RADIO s;
          s = fold (set_reg 0x1c589c) addac_off_words s;
          s = set_reg 0x1c58c4 0 s
      in set_reg AR9170_PHY_REG_ADC_SERIAL_CTL AR9170_PHY_ADC_SCTL_SEL_INTERNAL_ADDAC s)"

definition disable_watchdog :: "fw_state \<Rightarrow> fw_state" where
  "disable_watchdog s =
     (if f_watchdog_enable s = 0 then s
      else
        let s = andl AR9170_PWR_REG_WATCH_DOG_MAGIC 0xffff s;
            s = orl AR9170_PWR_REG_WATCH_DOG_MAGIC 0x98760000 s
        in set_reg AR9170_TIMER_REG_WATCH_DOG 0xffff s)"

text \<open>\<^verbatim>\<open>memset(&dma_mem, 0, sizeof(dma_mem))\<close>: the structure ends with the reserved part.\<close>

definition in_dma_mem :: "u32 \<Rightarrow> bool" where
  "in_dma_mem a \<longleftrightarrow> SRAM_OFFSET \<le> unat a \<and> unat a < SRAM_OFFSET + reserved_offset + SRAM_RESERVED"

definition clear_dma_mem :: "fw_state \<Rightarrow> fw_state" where
  "clear_dma_mem s = s\<lparr> f_ram := (\<lambda>a. if in_dma_mem a then 0 else f_ram s a),
     f_descs := (\<lambda>a. if in_dma_mem a then zero_desc else f_descs s a),
     f_supers := (\<lambda>a. if in_dma_mem a then zero_super else f_supers s a) \<rparr>"

definition reboot :: "fw_state \<Rightarrow> flow" where
  "reboot s =
     (let s = disable_watchdog s;
          s = turn_power_off s;
          s = clear_dma_mem s
      in Rebooted (set_reg 0x10f100 0x12345678 s))"

subsection \<open>Interrupts\<close>

text \<open>Endpoint 0.\<close>

definition usb_ep0_events :: "u8 list \<Rightarrow> fw_state \<Rightarrow> fw_state" where
  "usb_ep0_events val s =
     (let (usb_interrupt_level2, s) = getb AR9170_USB_REG_INTR_SOURCE_0 s;
          s = (if usb_interrupt_level2 AND AR9170_USB_INTR_SRC0_SETUP \<noteq> 0 then usb_ep0setup val s else s);
          s = (if usb_interrupt_level2 AND AR9170_USB_INTR_SRC0_IN \<noteq> 0 then usb_ep0tx val s else s);
          s = (if usb_interrupt_level2 AND AR9170_USB_INTR_SRC0_OUT \<noteq> 0 then usb_ep0rx s else s);
          s = (if usb_interrupt_level2 AND AR9170_USB_INTR_SRC0_ABORT \<noteq> 0
               then andb AR9170_USB_REG_INTR_SOURCE_0 (NOT AR9170_USB_INTR_SRC0_ABORT) s else s);
          s = (if usb_interrupt_level2 AND AR9170_USB_INTR_SRC0_FAIL \<noteq> 0 \<or>
                  u_ep0_action (f_usb s) AND CARL9170_EP0_STALL \<noteq> 0
               then upd_ep0_action (\<lambda>a. a AND NOT CARL9170_EP0_STALL) (setb AR9170_USB_REG_CX_CONFIG_STATUS 4 s)
               else s)
      in if usb_interrupt_level2 AND AR9170_USB_INTR_SRC0_END \<noteq> 0 \<or>
            u_ep0_action (f_usb s) AND CARL9170_EP0_TRIGGER \<noteq> 0
         then upd_ep0_action (\<lambda>a. a AND NOT CARL9170_EP0_TRIGGER) (setb AR9170_USB_REG_CX_CONFIG_STATUS 1 s)
         else s)"

definition usb_suspend :: "fw_state \<Rightarrow> fw_state" where
  "usb_suspend s =
     (let s = usb_suspend_ack s;
          s = f_suspend_mode_update (\<lambda>_. CARL9170_HOST_SUSPENDED) s
      in if \<not> cf_wol (f_cfg s) \<or> u_device_feature (f_usb s) AND USB_DEVICE_REMOTE_WAKEUP = 0 \<or>
            wc_flags (wo_cmd (f_wol s)) = 0
         then orb AR9170_USB_REG_MAIN_CTRL AR9170_USB_MAIN_CTRL_GO_TO_SUSPEND (disable_watchdog s)
         else wol_prepare s)"

text \<open>The events of group 7.\<close>

definition usb_bus_events :: "fw_state \<Rightarrow> flow" where
  "usb_bus_events s =
     (let (usb_interrupt_level2, s) = getb AR9170_USB_REG_INTR_SOURCE_7 s;
          s = (if usb_interrupt_level2 AND AR9170_USB_INTR_SRC7_RX0BYTE \<noteq> 0 then usb_data_out0Byte s else s);
          s = (if usb_interrupt_level2 AND AR9170_USB_INTR_SRC7_TX0BYTE \<noteq> 0 then usb_data_in0Byte s else s)
      in if usb_interrupt_level2 AND AR9170_USB_INTR_SRC7_USB_RESET \<noteq> 0
         then reboot (usb_reset_eps (usb_reset_ack s))
         else
           let s = (if usb_interrupt_level2 AND AR9170_USB_INTR_SRC7_USB_SUSPEND \<noteq> 0 then usb_suspend s else s)
           in if usb_interrupt_level2 AND AR9170_USB_INTR_SRC7_USB_RESUME \<noteq> 0 then
                let s = usb_resume_ack s;
                    s = f_suspend_mode_update (\<lambda>_. CARL9170_HOST_AWAKE) s;
                    s = set_reg AR9170_USB_REG_WAKE_UP 0 s
                in reboot s
              else Running s)"

definition usb_handler :: "u8 list \<Rightarrow> u8 \<Rightarrow> fw_state \<Rightarrow> flow option" where
  "usb_handler val usb_interrupt_level1 s =
     do { let s = (if bit usb_interrupt_level1 5 then usb_data_in s else s);
          s \<leftarrow> (if bit usb_interrupt_level1 4 then usb_reg_out s else Some s);
          s \<leftarrow> (if bit usb_interrupt_level1 6 then usb_status_in s else Some s);
          let s = (if bit usb_interrupt_level1 0 then usb_ep0_events val s else s);
          Some (if bit usb_interrupt_level1 7 then usb_bus_events s else Running s) }"

definition handle_usb :: "u8 list \<Rightarrow> fw_state \<Rightarrow> flow option" where
  "handle_usb val s =
     (let (usb_interrupt_level1, s) = getb AR9170_USB_REG_INTR_GROUP s
      in flow_bind (if usb_interrupt_level1 \<noteq> 0 then usb_handler val usb_interrupt_level1 s else Some (Running s))
           (\<lambda>s. Some (Running (if u_int_pending (f_usb s) > 0 then usb_trigger_in s else s))))"

definition usb_timer :: "fw_state \<Rightarrow> fw_state" where
  "usb_timer s = s"

end
