(* ===== verification/Firmware.thy ===== *)
theory Firmware
  imports UsbMain
begin

text \<open>The start of the firmware and its main loop (carlfw/src/main.c). \<^verbatim>\<open>boot\<close> is \<^verbatim>\<open>start\<close> up to the call of
  \<^verbatim>\<open>main_loop\<close>, and \<^verbatim>\<open>main_iteration\<close> one round of its endless loop.\<close>

definition init :: "fw_state \<Rightarrow> fw_state option" where
  "init s =
     (let s = led_init s;
          s = timer_init 0 50000 s;
          s = usb_init s;
          s = clear_dma_mem s
      in do { s \<leftarrow> dma_init_descriptors s;
              let s = set_reg AR9170_MAC_REG_INT_CTRL 0xffff s;
              let s = orl AR9170_MAC_REG_AFTER_PNP 1 s;
              let s = f_watchdog_enable_update (\<lambda>_. 1) s;
              let s = set_reg AR9170_TIMER_REG_WATCH_DOG 0x100 s;
              let (v, s) = get_reg AR9170_GPIO_REG_PORT_DATA s;
              let s = f_cached_gpio_update (\<lambda>_. v AND CARL9170_GPIO_MASK) s;
              Some (down_trigger s) })"

definition handle_fw :: "fw_state \<Rightarrow> flow" where
  "handle_fw s =
     (let s = (if f_watchdog_enable s = 1 then set_reg AR9170_TIMER_REG_WATCH_DOG 0x100 s else s)
      in if f_reboot s \<noteq> 0 then reboot s else Running s)"

definition tally_update :: "fw_state \<Rightarrow> fw_state" where
  "tally_update s =
     (let (time, s) = get_clock_counter s;
          s = (if p_state (f_phy s) = CARL9170_PHY_ON then
                 let delta = time - f_tally_clock s;
                     s = f_tally_update (ta_active_update (\<lambda>x. x + delta)) s;
                     (boff, s) = get_reg AR9170_MAC_REG_BACKOFF_STATUS s;
                     s = (if boff AND AR9170_MAC_BACKOFF_TX_PE \<noteq> 0
                          then f_tally_update (ta_tx_time_update (\<lambda>x. x + delta)) s else s)
                 in if boff AND AR9170_MAC_BACKOFF_CCA \<noteq> 0
                    then f_tally_update (ta_cca_update (\<lambda>x. x + delta)) s else s
               else s);
          s = f_tally_clock_update (\<lambda>_. time) s
      in f_counter_update (\<lambda>c. c + 1) s)"

definition main_iteration :: "u8 list \<Rightarrow> fw_state \<Rightarrow> flow option" where
  "main_iteration val s =
     flow_bind (Some (handle_fw s)) (\<lambda>s.
       flow_bind (do { s \<leftarrow> handle_wlan s; s \<leftarrow> handle_host_interface s; handle_usb val s }) (\<lambda>s.
         do { s \<leftarrow> handle_timer s; Some (Running (tally_update s)) }))"

definition boot :: "fw_state \<Rightarrow> fw_state option" where
  "boot s =
     (let s = clock_set AHB_40MHZ_OSC True s;
          (magic, s) = get_reg AR9170_PWR_REG_WATCH_DOG_MAGIC s;
          s = (if magic AND 0xffff0000 = 0x12340000 then usb_trigger_out (incl AR9170_PWR_REG_WATCH_DOG_MAGIC s)
               else snd (get_reg AR9170_PWR_REG_WATCH_DOG_MAGIC s));
          s = andl AR9170_PWR_REG_WATCH_DOG_MAGIC 0xFFFF s;
          s = orl AR9170_PWR_REG_WATCH_DOG_MAGIC 0x12340000 s
      in do { s \<leftarrow> init s; Some (send_cmd_to_host 0 CARL9170_RSP_BOOT 0 [] s) })"

end
