(* ===== verification/Ownership.thy ===== *)
theory Ownership
  imports Drain "HOL-Library.Multiset"
begin

text \<open>Who owns a descriptor: a queue, or the code that holds the packet it took. Every queue operation
  moves a packet between the two, and no descriptor is ever in two places.\<close>

subsection \<open>Queues and packets in hand\<close>

definition total :: "fw_state \<Rightarrow> (qref \<Rightarrow> u32 list list) \<Rightarrow> u32 set" where
  "total s Q = (\<Union>r \<in> all_queues. queue_set s Q r)"

text \<open>The blocks inside of a packet are single blocks of their own; \<^verbatim>\<open>handle_download_exception\<close> relies on
  it for the queue from the host.\<close>

definition inner_single :: "fw_state \<Rightarrow> u32 list list \<Rightarrow> bool" where
  "inner_single s ps \<longleftrightarrow> (\<forall>p \<in> set ps. \<forall>d \<in> set (tl p). dd_lastAddr (f_descs s d) = d)"

definition owned :: "fw_state \<Rightarrow> (qref \<Rightarrow> u32 list list) \<Rightarrow> u32 list list \<Rightarrow> bool" where
  "owned s Q L \<longleftrightarrow> queues_ok s Q \<and> distinct (concat L) \<and> set (concat L) \<inter> total s Q = {} \<and>
     (\<forall>p \<in> set L. packet_ok (f_descs s) p) \<and> inner_single s (Q DownQ)"

lemma queue_in_total: "r \<in> all_queues \<Longrightarrow> queue_set s Q r \<subseteq> total s Q"
  by (auto simp: total_def)

lemma concat_in_total: "r \<in> all_queues \<Longrightarrow> d \<in> set (concat (Q r)) \<Longrightarrow> d \<in> total s Q"
  using queue_in_total [of r s Q] by (auto simp: queue_set_def)

lemma terminator_in_total: "r \<in> all_queues \<Longrightarrow> q_terminator (f_queues s r) \<in> total s Q"
  using queue_in_total [of r s Q] by (auto simp: queue_set_def)

lemma DownQ_in [simp]: "DownQ \<in> all_queues" "UpQ \<in> all_queues" "RxQ \<in> all_queues" "RetryQ \<in> all_queues"
  by (simp_all add: all_queues_def)

lemma ownedD:
  "owned s Q L \<Longrightarrow> queues_ok s Q"
  "owned s Q L \<Longrightarrow> inner_single s (Q DownQ)"
  by (simp_all add: owned_def)

lemma owned_detached: "owned s Q (p # L) \<Longrightarrow> detached s Q p"
  by (auto simp: owned_def detached_def total_def)

lemma owned_rest: "owned s Q (p # L) \<Longrightarrow> owned s Q L"
  by (auto simp: owned_def)

lemma owned_head:
  assumes "owned s Q (p # L)"
  shows "hd p \<notin> total s Q" "hd p \<notin> set (concat L)"
proof -
  have "hd p \<in> set p" "set p \<inter> set (concat L) = {}" "set p \<inter> total s Q = {}"
    using assms by (auto simp: owned_def packet_ok_def)
  then show "hd p \<notin> total s Q" "hd p \<notin> set (concat L)"
    by blast+
qed

lemma owned_append1: "owned s Q (A @ B) \<Longrightarrow> owned s Q A"
  by (auto simp: owned_def)

lemma owned_append2: "owned s Q (A @ B) \<Longrightarrow> owned s Q B"
  by (auto simp: owned_def)

lemma owned_perm:
  assumes "mset A = mset B" "owned s Q A"
  shows "owned s Q B"
proof -
  have "mset (concat C) = sum_mset (image_mset mset (mset C))" for C :: "u32 list list"
    by (induction C) simp_all
  then have "mset (concat A) = mset (concat B)"
    using assms(1) by simp
  then have "distinct (concat A) = distinct (concat B)" "set (concat A) = set (concat B)"
    by (rule mset_eq_imp_distinct_iff, rule mset_eq_setD)
  moreover have "set A = set B"
    using assms(1) by (rule mset_eq_setD)
  ultimately show ?thesis
    using assms(2) unfolding owned_def by simp
qed

lemma in_tail: "q \<in> set ps \<Longrightarrow> d \<in> set (tl q) \<Longrightarrow> d \<in> set (concat ps)"
  using list.set_sel(2) [of q d] by (cases "q = []") (auto intro: bexI [of _ q])

text \<open>A change of anything but the links, and a change outside of the owned descriptors.\<close>

lemma total_cong: "f_queues t = f_queues s \<Longrightarrow> total t Q = total s Q"
  by (simp add: total_def queue_set_def)

lemma owned_links:
  assumes "same_links s t" "owned s Q L"
  shows "owned t Q L"
proof -
  have "packet_ok (f_descs t) p = packet_ok (f_descs s) p" for p
    using assms(1) by (intro packet_ok_links) (simp add: same_links_def)
  moreover have "inner_single t ps = inner_single s ps" for ps
    using assms(1) by (simp add: inner_single_def same_links_def)
  moreover have "total t Q = total s Q"
    using assms(1) by (intro total_cong) (simp add: same_links_def)
  ultimately show ?thesis
    using assms(2) queues_ok_links [OF assms(1)] by (simp add: owned_def)
qed

lemma owned_cong:
  assumes "owned s Q L" "f_queues t = f_queues s"
    "\<And>d. d \<in> total s Q \<Longrightarrow> f_descs t d = f_descs s d"
    "\<And>d. d \<in> set (concat L) \<Longrightarrow> f_descs t d = f_descs s d"
  shows "owned t Q L"
proof -
  have c: "f_descs t d = f_descs s d" if "d \<in> set (concat (Q r))" "r \<in> all_queues" for r d
    using assms(3) concat_in_total [OF that(2), of d Q s] that(1) by blast
  have "queue_is r t (Q r)" if "r \<in> all_queues" for r
    using assms(1,2) c [OF _ that] that queue_ok_frame [of "f_descs s" "f_queues s r" "Q r" "f_descs t"]
    by (simp add: owned_def queues_ok_def del: set_concat)
  moreover have "queue_set t Q r = queue_set s Q r" for r
    using assms(2) by (simp add: queue_set_def)
  ultimately have "queues_ok t Q" "total t Q = total s Q"
    using assms(1) by (simp_all add: owned_def queues_ok_def total_def)
  moreover have "packet_ok (f_descs t) p" if "p \<in> set L" for p
    using that assms(1,4) packet_ok_cong [of p "f_descs t" "f_descs s"] by (auto simp: owned_def)
  moreover have "inner_single t (Q DownQ)"
    using ownedD(2) [OF assms(1)] c [OF in_tail DownQ_in(1)] by (simp add: inner_single_def)
  ultimately show ?thesis
    using assms(1) by (simp add: owned_def)
qed

subsection \<open>Taking and giving\<close>

lemma owned_unlink:
  assumes "owned s Q L" "r \<in> all_queues" "unlink_head r s = (d, s')"
  shows "d = None \<and> s' = s \<and> Q r = [] \<or>
    (\<exists>p ps q h. Q r = p # ps \<and> d = Some (hd p) \<and> owned s' (Q(r := ps)) (p # L) \<and> s' = with_queue r (q, h) s)"
proof (cases "Q r")
  case Nil
  then show ?thesis
    using unlink_head_empty [OF ownedD(1) [OF assms(1)] assms(2)] assms(3) by simp
next
  case (Cons p ps)
  let ?Q = "Q(r := ps)"
  let ?h = "unlink_result p (f_descs s)"
  let ?q = "(f_queues s r)\<lparr> q_head := dd_nextAddr (f_descs s (last p)) \<rparr>"
  note ok = ownedD(1) [OF assms(1)]
  have s': "d = Some (hd p)" "queues_ok s' ?Q" "detached s' ?Q p" "s' = with_queue r (?q, ?h) s"
    using unlink_head_first [OF ok assms(2) Cons] assms(3) by auto
  have set: "queue_set s' ?Q x \<subseteq> queue_set s Q x" for x
    using s'(4) Cons by (auto simp: queue_set_def with_queue_def)
  then have tot: "total s' ?Q \<subseteq> total s Q"
    by (auto simp: total_def)
  have p: "set p \<subseteq> total s Q" "packet_ok (f_descs s') p" "set p \<inter> total s' ?Q = {}"
    using concat_in_total [OF assms(2), of _ Q s] Cons s'(3) by (auto simp: detached_def total_def)
  have dp: "distinct p" "last p \<in> set p"
    using p(2) by (auto simp: packet_ok_def)
  have L: "distinct (concat L)" "set (concat L) \<inter> total s Q = {}" "\<forall>p \<in> set L. packet_ok (f_descs s) p"
    using assms(1) by (auto simp: owned_def)
  have keep: "f_descs s' x = f_descs s x" if "x \<noteq> last p" for x
    using that s'(4) by (simp add: with_queue_def unlink_result_def)
  have "packet_ok (f_descs s') q" if "q \<in> set L" for q
  proof -
    have "\<forall>d \<in> set q. d \<noteq> last p"
      using that L(2) p(1) dp(2) by auto
    then have "packet_ok (f_descs s') q = packet_ok (f_descs s) q"
      using keep by (intro packet_ok_cong) auto
    then show ?thesis
      using that L(3) by simp
  qed
  moreover have "inner_single s' (?Q DownQ)"
  proof -
    have "set (?Q DownQ) \<subseteq> set (Q DownQ)"
      using Cons by auto
    moreover have "dd_lastAddr (f_descs s' x) = x" if "dd_lastAddr (f_descs s x) = x" for x
      using that keep [of x] s'(4) by (cases "x = last p") (simp_all add: with_queue_def unlink_result_def)
    ultimately show ?thesis
      using ownedD(2) [OF assms(1)] by (auto simp: inner_single_def)
  qed
  ultimately have "owned s' ?Q (p # L)"
    using s'(2) p dp L tot by (auto simp: owned_def)
  then show ?thesis
    using Cons s'(1,4) by blast
qed

text \<open>Both ways to give a packet to a queue.\<close>

lemma owned_give:
  assumes "owned s Q (p # L)" "r \<in> all_queues" "queues_ok s' (Q(r := Q r @ new))"
    "s' = with_queue r ((f_queues s r)\<lparr> q_terminator := hd p \<rparr>, h) s"
    "set (concat new) = insert (q_terminator (f_queues s r)) (set (tl p))"
    "\<And>x. x \<noteq> q_terminator (f_queues s r) \<Longrightarrow> x \<notin> set p \<Longrightarrow> h x = f_descs s x"
    "r = DownQ \<Longrightarrow> inner_single s' new"
  shows "owned s' (Q(r := Q r @ new)) L" "total s' (Q(r := Q r @ new)) = total s Q \<union> set p"
proof -
  let ?Q = "Q(r := Q r @ new)" and ?t = "q_terminator (f_queues s r)"
  have p: "p \<noteq> []" "set p \<inter> total s Q = {}" "set p \<inter> set (concat L) = {}"
    using assms(1) by (auto simp: owned_def packet_ok_def)
  have setr: "queue_set s' ?Q r = queue_set s Q r \<union> set p"
    using assms(4,5) p(1) by (cases p) (auto simp: queue_set_def with_queue_def)
  have "queue_set s' ?Q x = queue_set s Q x" if "x \<noteq> r" for x
    using assms(4) that by (auto simp: queue_set_def with_queue_def)
  then have "queue_set s' ?Q x = (if x = r then queue_set s Q r \<union> set p else queue_set s Q x)" for x
    using setr by simp
  then show tot: "total s' ?Q = total s Q \<union> set p"
    using assms(2) unfolding total_def by auto
  have t: "?t \<in> total s Q"
    using terminator_in_total [OF assms(2)] .
  have keep: "f_descs s' x = f_descs s x" if "x \<noteq> ?t" "x \<notin> set p" for x
    using assms(4,6) that by (simp add: with_queue_def)
  have "packet_ok (f_descs s') q" if "q \<in> set L" for q
  proof -
    have "\<forall>d \<in> set q. d \<noteq> ?t \<and> d \<notin> set p"
      using that t assms(1) by (auto simp: owned_def)
    then have "packet_ok (f_descs s') q = packet_ok (f_descs s) q"
      using keep by (intro packet_ok_cong) auto
    then show ?thesis
      using that assms(1) by (simp add: owned_def)
  qed
  moreover have "inner_single s' (?Q DownQ)"
  proof -
    have "inner_single s' (Q DownQ)"
      unfolding inner_single_def
    proof (intro ballI)
      fix q d
      assume q: "q \<in> set (Q DownQ)" "d \<in> set (tl q)"
      then have d: "d \<in> set (concat (Q DownQ))"
        by (rule in_tail)
      have "d \<noteq> ?t"
        using queued_elsewhere [OF ownedD(1) [OF assms(1)] assms(2) DownQ_in(1) d] .
      moreover have "d \<notin> set p"
        using concat_in_total [of DownQ d Q s] d p(2) unfolding disjoint_iff by (auto simp del: set_concat)
      ultimately show "dd_lastAddr (f_descs s' d) = d"
        using ownedD(2) [OF assms(1)] q keep by (auto simp: inner_single_def)
    qed
    then show ?thesis
      using assms(7) by (auto simp: inner_single_def)
  qed
  ultimately show "owned s' ?Q L"
    using assms(1,3) tot p by (auto simp: owned_def)
qed

lemma owned_put:
  assumes "owned s Q (p # L)" "r \<in> all_queues" "r \<noteq> DownQ" "put r (hd p) s = Some s'"
  shows "\<exists>p'. owned s' (Q(r := Q r @ [p'])) L" "\<exists>q h. s' = with_queue r (q, h) s"
proof -
  have ne: "p \<noteq> []"
    using assms(1) by (auto simp: owned_def packet_ok_def)
  obtain p' where p': "queues_ok s' (Q(r := Q r @ [p']))" "p' = q_terminator (f_queues s r) # tl p"
      "s' = with_queue r ((f_queues s r)\<lparr> q_terminator := hd p \<rparr>, put_result (q_terminator (f_queues s r)) p (f_descs s)) s"
    using put_detached [OF ownedD(1) [OF assms(1)] assms(2) owned_detached [OF assms(1)]] assms(4) by auto
  then show "\<exists>q h. s' = with_queue r (q, h) s"
    by blast
  have "owned s' (Q(r := Q r @ [p'])) L"
    using p' put_result_other ne assms(3) by (intro owned_give(1) [OF assms(1,2) p'(1,3)]) simp_all
  then show "\<exists>p'. owned s' (Q(r := Q r @ [p'])) L"
    by blast
qed

lemma owned_reclaim:
  assumes "owned s Q (p # L)" "r \<in> all_queues" "reclaim r (hd p) s = Some s'"
  shows "\<exists>xs. owned s' (Q(r := Q r @ singles xs)) L \<and> total s' (Q(r := Q r @ singles xs)) = total s Q \<union> set p"
    "\<exists>q h. s' = with_queue r (q, h) s"
proof -
  have ne: "p \<noteq> []"
    using assms(1) by (auto simp: owned_def packet_ok_def)
  obtain xs where xs: "queues_ok s' (Q(r := Q r @ singles xs))" "xs = q_terminator (f_queues s r) # tl p"
      "s' = with_queue r ((f_queues s r)\<lparr> q_terminator := hd p \<rparr>, reclaim_result (q_terminator (f_queues s r)) p (f_descs s)) s"
    using reclaim_detached [OF ownedD(1) [OF assms(1)] assms(2) owned_detached [OF assms(1)]] assms(3) by auto
  then show "\<exists>q h. s' = with_queue r (q, h) s"
    by blast
  have i: "inner_single s' (singles xs)"
    by (auto simp: inner_single_def singles_def)
  have "set (concat (singles xs)) = insert (q_terminator (f_queues s r)) (set (tl p))"
    using xs(2) by simp
  note g = owned_give [OF assms(1,2) xs(1,3) this reclaim_result_other [OF _ _ ne] i]
  then show "\<exists>xs. owned s' (Q(r := Q r @ singles xs)) L \<and> total s' (Q(r := Q r @ singles xs)) = total s Q \<union> set p"
    by blast
qed

lemma reclaim_returns: "owned s Q (p # L) \<Longrightarrow> r \<in> all_queues \<Longrightarrow> \<exists>s'. reclaim r (hd p) s = Some s'"
  using reclaim_detached owned_detached ownedD(1) by blast

end
