(* ===== verification/View.thy ===== *)
theory View
  imports Firmware Ownership
begin

text \<open>The part of the state that the ownership of descriptors depends on, and the operations of all
  components that do not change it.\<close>

definition sys_view :: "fw_state \<Rightarrow> (qref \<Rightarrow> dma_queue) \<times> (u32 \<Rightarrow> u32 \<times> u32) \<times> u32 \<times> u32 \<times> u32 \<times> u32" where
  "sys_view s = (f_queues s, (\<lambda>d. (dd_nextAddr (f_descs s d), dd_lastAddr (f_descs s d))),
     w_fw_desc_available (f_wlan s), w_fw_desc (f_wlan s), u_int_desc_available (f_usb s), u_int_desc (f_usb s))"

lemma view_links: "sys_view s = sys_view t \<Longrightarrow> same_links s t"
  by (simp add: sys_view_def same_links_def fun_eq_iff)

lemma view_fields:
  assumes "sys_view s = sys_view t"
  shows "f_queues s = f_queues t" "w_fw_desc_available (f_wlan s) = w_fw_desc_available (f_wlan t)"
    "w_fw_desc (f_wlan s) = w_fw_desc (f_wlan t)" "u_int_desc_available (f_usb s) = u_int_desc_available (f_usb t)"
    "u_int_desc (f_usb s) = u_int_desc (f_usb t)"
  using assms by (simp_all add: sys_view_def)

subsection \<open>Assignments\<close>

lemma view_updates [simp]:
  "sys_view (f_ticks_per_usec_update g1 s) = sys_view s" "sys_view (f_counter_update g2 s) = sys_view s"
  "sys_view (f_watchdog_enable_update g3 s) = sys_view s" "sys_view (f_reboot_update g4 s) = sys_view s"
  "sys_view (f_suspend_mode_update g5 s) = sys_view s" "sys_view (f_phy_update g6 s) = sys_view s"
  "sys_view (f_tally_clock_update g7 s) = sys_view s" "sys_view (f_tally_update g8 s) = sys_view s"
  "sys_view (f_tx_time_update g9 s) = sys_view s" "sys_view (f_wol_update g10 s) = sys_view s"
  "sys_view (f_cached_gpio_update g11 s) = sys_view s" "sys_view (f_supers_update g12 s) = sys_view s"
  "sys_view (f_ram_update g13 s) = sys_view s" "sys_view (f_hw_update g14 s) = sys_view s"
  "sys_view (f_messages_update g15 s) = sys_view s" "sys_view (f_printf_uc_update g16 s) = sys_view s"
  by (simp_all add: sys_view_def)

lemma view_wlan [simp]:
  assumes "w_fw_desc (g (f_wlan s)) = w_fw_desc (f_wlan s)"
    "w_fw_desc_available (g (f_wlan s)) = w_fw_desc_available (f_wlan s)"
  shows "sys_view (f_wlan_update g s) = sys_view s"
  using assms by (simp add: sys_view_def)

lemma view_usb [simp]:
  assumes "u_int_desc (g (f_usb s)) = u_int_desc (f_usb s)"
    "u_int_desc_available (g (f_usb s)) = u_int_desc_available (f_usb s)"
  shows "sys_view (f_usb_update g s) = sys_view s"
  using assms by (simp add: sys_view_def)

lemma view_desc [simp]:
  assumes "dd_nextAddr (g (f_descs s d)) = dd_nextAddr (f_descs s d)"
    "dd_lastAddr (g (f_descs s d)) = dd_lastAddr (f_descs s d)"
  shows "sys_view (upd_desc d g s) = sys_view s"
  using assms by (simp add: sys_view_def upd_desc_def fun_eq_iff)

lemma view_core: "same_core s t \<Longrightarrow> sys_view t = sys_view s"
  by (simp add: sys_view_def fields_same_core)

subsection \<open>Registers and messages\<close>

lemma view_set_reg [simp]: "sys_view (set_reg a v s) = sys_view s" "sys_view (tick s) = sys_view s"
  by (simp_all add: set_reg_def tick_def)

lemma view_get_reg [simp]: "sys_view (snd (get_reg a s)) = sys_view s"
  by (simp add: get_reg_def)

lemma view_regs [simp]:
  "sys_view (orl a v s) = sys_view s" "sys_view (andl a v s) = sys_view s" "sys_view (incl a s) = sys_view s"
  "sys_view (snd (getb a s)) = sys_view s" "sys_view (setb a b s) = sys_view s"
  "sys_view (andb a b s) = sys_view s" "sys_view (orb a v s) = sys_view s"
  by (simp_all add: orl_def andl_def incl_def getb_def setb_def andb_def orb_def get_reg_def)

lemma view_get_async [simp]: "sys_view (snd (get_async a s)) = sys_view s"
proof -
  have "sys_view (snd (readl_async_loop i r a s)) = sys_view s" for i r s
    by (induction i r a s rule: readl_async_loop.induct) (subst readl_async_loop.simps, simp add: get_reg_def Let_def)
  then show ?thesis
    by (simp add: get_async_def readl_async_def get_reg_def)
qed

lemma view_usb_regs [simp]:
  "sys_view (usb_trigger_in s) = sys_view s" "sys_view (usb_trigger_out s) = sys_view s"
  "sys_view (usb_reset_in s) = sys_view s" "sys_view (usb_reset_out s) = sys_view s"
  "sys_view (usb_stop_down_queue s) = sys_view s" "sys_view (usb_start_down_queue s) = sys_view s"
  "sys_view (usb_suspend_ack s) = sys_view s" "sys_view (usb_resume_ack s) = sys_view s"
  "sys_view (usb_reset_ack s) = sys_view s" "sys_view (usb_data_out0Byte s) = sys_view s"
  "sys_view (usb_data_in0Byte s) = sys_view s" "sys_view (snd (usb_configured s)) = sys_view s"
  "sys_view (snd (usb_detect_highspeed s)) = sys_view s" "sys_view (usb_enable_remote_wakeup s) = sys_view s"
  "sys_view (usb_disable_remote_wakeup s) = sys_view s" "sys_view (usb_enable_global_int s) = sys_view s"
  "sys_view (down_trigger s) = sys_view s" "sys_view (up_trigger s) = sys_view s"
  "sys_view (wlan_trigger b s) = sys_view s" "sys_view (set_wlan_txq_dma_addr q v s) = sys_view s"
  by (simp_all add: usb_trigger_in_def usb_trigger_out_def usb_reset_in_def usb_reset_out_def
      usb_stop_down_queue_def usb_start_down_queue_def usb_suspend_ack_def usb_resume_ack_def
      usb_reset_ack_def usb_data_out0Byte_def usb_data_in0Byte_def usb_configured_def usb_detect_highspeed_def
      usb_enable_remote_wakeup_def usb_disable_remote_wakeup_def usb_enable_global_int_def down_trigger_def
      up_trigger_def wlan_trigger_def set_wlan_txq_dma_addr_def split_beta)

lemma view_clock [simp]:
  "sys_view (snd (get_clock_counter s)) = sys_view s" "sys_view (snd (is_after_msecs t m s)) = sys_view s"
  by (simp_all add: get_clock_counter_def is_after_msecs_def split_beta Let_def)

lemma view_read_tsf [simp]: "sys_view (snd (read_tsf s)) = sys_view s"
  by (simp add: read_tsf_def split_beta Let_def)

lemma view_messages [simp]:
  "sys_view (snd (get_int_buf s)) = sys_view s" "sys_view (snd (dequeue_int_buf space s)) = sys_view s"
  "sys_view (send_cmd_to_host len type ext body s) = sys_view s"
  by (simp_all add: get_int_buf_def dequeue_int_buf_def send_cmd_to_host_def Let_def split_beta)

lemma view_putc [simp]: "sys_view (usb_putc c s) = sys_view s"
  by (simp add: usb_putc_def Let_def set_put_buffer_def)

lemma view_fold: "(\<And>x s. sys_view (f x s) = sys_view s) \<Longrightarrow> sys_view (fold f xs s) = sys_view s"
  by (induction xs arbitrary: s) simp_all

lemma view_printf [simp]: "sys_view (tfp_printf fmt args s) = sys_view s"
  using view_fold [of usb_putc] by (simp add: tfp_printf_def split_beta)

lemma view_BUG [simp]: "sys_view (BUG func line msg args s) = sys_view s" "sys_view (BUG_ON c func line msg s) = sys_view s"
  by (simp_all add: BUG_def BUG_ON_def)

lemma view_clock_set [simp]: "sys_view (clock_set clk on s) = sys_view s"
  by (cases clk) (simp_all add: clock_set_def Let_def split_beta)

lemma view_gpio [simp]: "sys_view (gpio_timer s) = sys_view s"
  by (simp add: gpio_timer_def Let_def split_beta)

subsection \<open>Frames\<close>

lemma view_super [simp]:
  "sys_view (upd_super x g s) = sys_view s" "sys_view (hide_super d s) = sys_view s"
  "sys_view (unhide_super d s) = sys_view s" "sys_view (set_frame_control p v s) = sys_view s"
  by (simp_all add: upd_super_def hide_super_def unhide_super_def set_frame_control_def)

lemma view_tx_status [simp]: "sys_view (wlan_send_buffered_tx_status s) = sys_view s"
  by (induction s rule: wlan_send_buffered_tx_status.induct)
    (subst wlan_send_buffered_tx_status.simps, simp add: Let_def o_assoc)

lemma view_status_buffer [simp]: "sys_view (snd (wlan_get_tx_status_buffer s)) = sys_view s"
  by (simp add: wlan_get_tx_status_buffer_def Let_def)

lemma view_tx_complete [simp]: "sys_view (wlan_tx_complete x b s) = sys_view s"
  by (simp add: wlan_tx_complete_def Let_def split_beta upd_status_def)

lemma view_retry [simp]: "sys_view (snd (wlan_tx_consume_retry x s)) = sys_view s"
  by (simp add: wlan_tx_consume_retry_def Let_def)

lemma view_ampdu [simp]:
  "sys_view (wlan_tx_ampdu x s) = sys_view s" "sys_view (wlan_tx_ampdu_end i s) = sys_view s"
  "sys_view (wlan_tx_ampdu_reset i s) = sys_view s"
  by (simp_all add: wlan_tx_ampdu_def wlan_tx_ampdu_end_def wlan_tx_ampdu_reset_def Let_def)

lemma view_assign_seq [simp]: "sys_view (wlan_assign_seq hdr vif s) = sys_view s"
  by (simp add: wlan_assign_seq_def Let_def)

lemma view_tx_first [simp]: "sys_view (wlan_tx_first d s) = sys_view s"
  by (simp add: wlan_tx_first_def Let_def split_beta)

lemma view_callback [simp]: "sys_view (call_fw_desc_callback b s) = sys_view s"
  by (simp add: call_fw_desc_callback_def wlan_wol_connect_callback_def split: fw_desc_callback.split)

lemma view_modify_beacon [simp]: "sys_view (wlan_modify_beacon vif a len s) = sys_view s"
  by (simp add: wlan_modify_beacon_def Let_def split: option.split)

lemma view_if: "sys_view x = v \<Longrightarrow> sys_view y = v \<Longrightarrow> sys_view (if b then x else y) = v"
  by simp

lemma view_wake_up [simp]: "sys_view (wake_up_or b s) = sys_view s"
  by (simp add: wake_up_or_def)

lemma view_disconnect [simp]: "sys_view (snd (wlan_rx_wol_disconnect f hdr s)) = sys_view s"
  by (simp add: wlan_rx_wol_disconnect_def Let_def split_beta)

lemma view_wol_rx [simp]: "sys_view (wol_rx f hdr len s) = sys_view s"
  by (simp add: wol_rx_def Let_def split_beta view_if split del: if_split)

lemma view_classify [simp]: "sys_view (snd (rx_classify hdr len err s)) = sys_view s"
  by (simp add: rx_classify_def handle_bar_def wlan_get_bar_cache_buffer_def Let_def)

lemma view_rx_filter:
  assumes "wlan_rx_filter d s = Some x"
  shows "sys_view (snd x) = sys_view s"
proof (cases "ar9170_get_rx_macstatus_error d s")
  case (Some err)
  have v: "sys_view (if b then wol_rx f hdr len (snd c) else snd c) = sys_view s"
    if "sys_view (snd c) = sys_view s" for b f hdr len and c :: "u32 \<times> fw_state"
    using that by simp
  show ?thesis
    using assms Some v by (auto simp: wlan_rx_filter_def Let_def split_beta split: if_split_asm)
qed (use assms in \<open>simp add: wlan_rx_filter_def Let_def\<close>)

subsection \<open>Radio, keys, supervision\<close>

lemma view_rf [simp]:
  "sys_view (rf_psm s) = sys_view s" "sys_view (rf_notify_set_channel s) = sys_view s"
  "sys_view (set_channel_end s) = sys_view s" "sys_view (hw_turn_off_dyn e m es ms s) = sys_view s"
  by (simp_all add: rf_psm_def rf_bank3_def rf_notify_set_channel_def set_channel_end_def hw_turn_off_dyn_def
      Let_def split_beta)

lemma view_wol [simp]: "sys_view (wol_cmd c s) = sys_view s" "sys_view (wol_prepare s) = sys_view s"
  by (simp_all add: wol_cmd_def wol_prepare_def set_reg_bytes6_def Let_def split_beta)

lemma view_cam [simp]: "sys_view (disable_cam_user u s) = sys_view s" "sys_view (enable_cam_user u s) = sys_view s"
  "sys_view (disable_key k s) = sys_view s"
  by (simp_all add: disable_cam_user_def enable_cam_user_def disable_key_def)

lemma view_wlan_events [simp]:
  "sys_view (upd_mac_reset g s) = sys_view s" "sys_view (wlan_check_rx_overrun s) = sys_view s"
  "sys_view (handle_beacon_config s) = sys_view s" "sys_view (handle_pretbtt s) = sys_view s"
  "sys_view (handle_atim s) = sys_view s" "sys_view (tally_update s) = sys_view s"
  by (simp_all add: upd_mac_reset_def wlan_check_rx_overrun_def handle_beacon_config_def handle_pretbtt_def
      handle_atim_def tally_update_def Let_def split_beta)

subsection \<open>Commands and endpoint 0\<close>

lemma view_cmd [simp]:
  "sys_view (set_resp_len r n s) = sys_view s" "sys_view (rreg_step r i s) = sys_view s"
  "sys_view (wreg_step i s) = sys_view s" "sys_view (wregb_step i s) = sys_view s"
  "sys_view (tally_cmd r s) = sys_view s" "sys_view (read_tsf_cmd r s) = sys_view s"
  "sys_view (reg_out_word i s) = sys_view s"
  by (simp_all add: set_resp_len_def rreg_step_def wreg_step_def wregb_step_def tally_cmd_def read_tsf_cmd_def
      reg_out_word_def Let_def split_beta)

lemma view_ep0rx [simp]: "sys_view (snd (usb_ep0rx_data len s)) = sys_view s"
proof -
  have "sys_view (snd (ep0rx_loop n s)) = sys_view s" for n s
    by (induction n s rule: ep0rx_loop.induct) (subst ep0rx_loop.simps, simp add: get_reg_def split_beta)
  then show ?thesis
    by (simp add: usb_ep0rx_data_def)
qed

lemma view_ep0tx [simp]: "sys_view (snd (usb_ep0tx_data val data s)) = sys_view s"
proof -
  have "sys_view (ep0tx_loop val l data s) = sys_view s" for l s
    by (induction val l data s rule: ep0tx_loop.induct) (subst ep0tx_loop.simps, simp add: Let_def)
  then show ?thesis
    by (simp add: usb_ep0tx_data_def Let_def)
qed

lemma view_reset_eps [simp]: "sys_view (usb_reset_eps s) = sys_view s"
  unfolding usb_reset_eps_def Let_def usb_clear_input_ep_stall_def usb_clear_input_ep_toggle_def
    usb_set_input_ep_toggle_def usb_clear_output_ep_stall_def usb_clear_output_ep_toggle_def usb_set_output_ep_toggle_def
  by (simp add: view_fold)

lemma view_fifo_cfg [simp]: "sys_view (usb_fifo_cfg s) = sys_view s"
  by (simp add: usb_fifo_cfg_def split_beta view_core [OF same_core_highspeed] view_core [OF same_core_fullspeed])

lemma view_requests [simp]:
  "sys_view (snd (usb_get_status val c s)) = sys_view s" "sys_view (snd (usb_get_descriptor val c s)) = sys_view s"
  "sys_view (snd (usb_get_configuration val c s)) = sys_view s" "sys_view (snd (usb_set_configuration c s)) = sys_view s"
  "sys_view (snd (usb_set_address c s)) = sys_view s" "sys_view (snd (usb_get_interface val c s)) = sys_view s"
  "sys_view (snd (usb_manipulate_feature c b s)) = sys_view s" "sys_view (snd (usb_set_interface c s)) = sys_view s"
  by (simp_all add: usb_get_status_def usb_get_descriptor_def usb_get_configuration_def usb_set_configuration_def
      usb_set_address_def usb_get_interface_def usb_manipulate_feature_def usb_get_device_desc_def
      usb_get_config_desc_def usb_get_string_desc_def usb_get_qualifier_desc_def usb_get_otherspeed_desc_def usb_set_interface_def Let_def split_beta)

lemma view_ep0 [simp]:
  "sys_view (usb_ep0setup val s) = sys_view s" "sys_view (usb_ep0rx s) = sys_view s"
  "sys_view (usb_ep0tx val s) = sys_view s" "sys_view (upd_ep0_action g s) = sys_view s"
  by (simp_all add: usb_ep0setup_def usb_standard_command_def usb_class_command_def usb_vendor_command_def
      usb_ep0rx_def usb_ep0tx_def upd_ep0_action_def Let_def split_beta)

lemma view_ep0_events [simp]: "sys_view (usb_ep0_events val s) = sys_view s"
  by (simp add: usb_ep0_events_def Let_def split_beta)

lemma view_disable_watchdog [simp]: "sys_view (disable_watchdog s) = sys_view s"
  by (simp add: disable_watchdog_def Let_def)

lemma view_suspend [simp]: "sys_view (usb_suspend s) = sys_view s"
  by (simp add: usb_suspend_def Let_def)

end
