(* ===== verification/System.thy ===== *)
theory System
  imports View
begin

text \<open>The firmware as a whole: every round of the main loop keeps the queues well formed and every
  descriptor in one place, and so do the steps of the DMA engines. The queues, the packets in hand and
  the two service descriptors (\<^verbatim>\<open>fw.wlan.fw_desc\<close>, \<^verbatim>\<open>fw.usb.int_desc\<close>) never share a descriptor.\<close>

subsection \<open>The invariant\<close>

text \<open>The service descriptors while they are available, and the packets \<^verbatim>\<open>H\<close> in hand.\<close>

definition service :: "fw_state \<Rightarrow> u32 list list \<Rightarrow> u32 list list \<Rightarrow> bool" where
  "service s F I \<longleftrightarrow>
     (w_fw_desc_available (f_wlan s) \<noteq> 0 \<longrightarrow> (\<exists>p. F = [p] \<and> hd p = w_fw_desc (f_wlan s))) \<and>
     (u_int_desc_available (f_usb s) \<noteq> 0 \<longrightarrow> (\<exists>p. I = [p] \<and> hd p = u_int_desc (f_usb s)))"

definition holds :: "u32 list list \<Rightarrow> fw_state \<Rightarrow> bool" where
  "holds H s \<longleftrightarrow> (\<exists>Q F I. owned s Q (H @ F @ I) \<and> service s F I)"

lemma holdsI: "owned s Q (H @ F @ I) \<Longrightarrow> service s F I \<Longrightarrow> holds H s"
  unfolding holds_def by blast

lemma holds_view:
  assumes "sys_view t = sys_view s"
  shows "holds H t = holds H s"
proof -
  have "owned t Q L = owned s Q L" for Q L
    using owned_links [OF view_links [OF assms]] owned_links [OF view_links [OF assms [symmetric]]] by blast
  moreover have "service t F I = service s F I" for F I
    unfolding service_def view_fields [OF assms] ..
  ultimately show ?thesis
    by (simp add: holds_def)
qed

definition view_holds :: "u32 list list \<Rightarrow> (qref \<Rightarrow> dma_queue) \<times> (u32 \<Rightarrow> u32 \<times> u32) \<times> u32 \<times> u32 \<times> u32 \<times> u32 \<Rightarrow> bool" where
  "view_holds H v \<longleftrightarrow> (\<exists>s. sys_view s = v \<and> holds H s)"

lemma holds_iff: "holds H s = view_holds H (sys_view s)"
proof
  show "holds H s \<Longrightarrow> view_holds H (sys_view s)"
    unfolding view_holds_def by (intro exI [of _ s] conjI refl)
next
  assume "view_holds H (sys_view s)"
  then obtain t where "sys_view t = sys_view s" "holds H t"
    unfolding view_holds_def by (elim exE conjE)
  then show "holds H s"
    using holds_view [of t s H] by (simp only:)
qed

lemma view_If [simp]: "sys_view (if b then x else y) = (if b then sys_view x else sys_view y)"
  by simp

text \<open>If the operation returns, its result satisfies \<^verbatim>\<open>P\<close>.\<close>

definition returns :: "('a \<Rightarrow> bool) \<Rightarrow> 'a option \<Rightarrow> bool" where
  "returns P m \<longleftrightarrow> (\<forall>x. m = Some x \<longrightarrow> P x)"

named_theorems safe

lemma returns_Some [simp]: "returns P (Some x) = P x"
  by (simp add: returns_def)

lemma returns_None [simp]: "returns P None"
  by (simp add: returns_def)

lemma returns_bind: "returns P m \<Longrightarrow> (\<And>x. P x \<Longrightarrow> returns R (f x)) \<Longrightarrow> returns R (m \<bind> f)"
  by (auto simp: returns_def bind_eq_Some_conv)

lemma returns_if: "(b \<Longrightarrow> returns P x) \<Longrightarrow> (\<not> b \<Longrightarrow> returns P y) \<Longrightarrow> returns P (if b then x else y)"
  by simp

lemma returnsD: "returns P m \<Longrightarrow> m = Some x \<Longrightarrow> P x"
  by (simp add: returns_def)

lemma returns_mono: "returns P m \<Longrightarrow> (\<And>x. P x \<Longrightarrow> R x) \<Longrightarrow> returns R m"
  by (simp add: returns_def)

abbreviation safe_op :: "u32 list list \<Rightarrow> fw_state option \<Rightarrow> bool" where
  "safe_op H \<equiv> returns (holds H)"

lemma safe_view: "returns (\<lambda>t. sys_view t = sys_view s) m \<Longrightarrow> holds H s \<Longrightarrow> safe_op H m"
  by (erule returns_mono) (simp add: holds_iff)

lemma returns_foldM:
  "(\<And>x s. x \<in> set xs \<Longrightarrow> P s \<Longrightarrow> returns P (f x s)) \<Longrightarrow> P s \<Longrightarrow> returns P (foldM f xs s)"
proof (induction xs arbitrary: s)
  case (Cons x xs)
  have "returns P (f x s)"
    using Cons.prems by simp
  then have "returns P (f x s \<bind> foldM f xs)"
    by (rule returns_bind) (rule Cons.IH [OF Cons.prems(1)], simp_all)
  then show ?case
    by simp
qed simp

lemmas safe_foldM = returns_foldM [where P = "holds H" for H]

subsection \<open>Queue operations\<close>

lemma with_queue_view_fields:
  "f_wlan (with_queue r qh s) = f_wlan s" "f_usb (with_queue r qh s) = f_usb s"
  by (simp_all add: with_queue_def split_beta)

lemma service_with_queue [simp]: "service (with_queue r qh s) F I = service s F I"
  by (simp add: service_def with_queue_view_fields)

lemma holds_unlink:
  assumes "holds H s" "r \<in> all_queues" "unlink_head r s = (d, s')"
  shows "d = None \<and> holds H s' \<or> (\<exists>p. d = Some (hd p) \<and> holds (p # H) s')"
proof -
  obtain Q F I where s: "owned s Q (H @ F @ I)" "service s F I"
    using assms(1) by (auto simp: holds_def)
  from owned_unlink [OF s(1) assms(2,3)] show ?thesis
  proof (elim disjE exE conjE)
    assume "d = None" "s' = s"
    then show ?thesis
      using assms(1) by simp
  next
    fix p ps q h
    assume a: "d = Some (hd p)" "owned s' (Q(r := ps)) (p # H @ F @ I)" "s' = with_queue r (q, h) s"
    then have "service s' F I"
      using s(2) by simp
    then show ?thesis
      using a(1,2) unfolding holds_def by (intro disjI2) (metis append_Cons)
  qed
qed

lemma safe_put:
  assumes "holds (p # H) s" "r \<in> all_queues" "r \<noteq> DownQ"
  shows "safe_op H (put r (hd p) s)"
  unfolding returns_def
proof (intro allI impI)
  fix s'
  assume s': "put r (hd p) s = Some s'"
  obtain Q F I where s: "owned s Q (p # H @ F @ I)" "service s F I"
    using assms(1) by (auto simp: holds_def)
  obtain p' q h where p': "owned s' (Q(r := Q r @ [p'])) (H @ F @ I)" "s' = with_queue r (q, h) s"
    using owned_put [OF s(1) assms(2,3) s'] by blast
  then show "holds H s'"
    using s(2) by (intro holdsI [OF p'(1)]) simp
qed

lemma safe_reclaim:
  assumes "holds (p # H) s" "r \<in> all_queues"
  shows "safe_op H (reclaim r (hd p) s)"
  unfolding returns_def
proof (intro allI impI)
  fix s'
  assume s': "reclaim r (hd p) s = Some s'"
  obtain Q F I where s: "owned s Q (p # H @ F @ I)" "service s F I"
    using assms(1) by (auto simp: holds_def)
  obtain xs q h where xs: "owned s' (Q(r := Q r @ singles xs)) (H @ F @ I)" "s' = with_queue r (q, h) s"
    using owned_reclaim [OF s(1) assms(2) s'] by blast
  then show "holds H s'"
    using s(2) by (intro holdsI [OF xs(1)]) simp
qed

subsection \<open>Loops over a queue\<close>

lemma holds_dequeue:
  assumes "holds H s" "r \<in> all_queues" "dequeue_not_bits r bits s = (d, s')"
  shows "d = None \<and> holds H s' \<or> (\<exists>p. d = Some (hd p) \<and> holds (p # H) s')"
proof (cases "dd_status (f_descs s (q_head (f_queues s r))) AND AR9170_OWN_BITS \<noteq> bits")
  case True
  then have "unlink_head r s = (d, s')"
    using assms(3) by (simp add: dequeue_not_bits_def dma_dequeue_not_bits_def unlink_head_def)
  then show ?thesis
    using holds_unlink [OF assms(1,2)] by blast
next
  case False
  then have "d = None" "s' = with_queue r (f_queues s r, f_descs s) s"
    using assms(3) by (simp_all add: dequeue_not_bits_def dma_dequeue_not_bits_def)
  moreover have "with_queue r (f_queues s r, f_descs s) s = s"
    by (simp add: with_queue_def)
  ultimately show ?thesis
    using assms(1) by simp
qed

lemma safe_for_each:
  assumes body: "\<And>s p. holds (p # H) s \<Longrightarrow> safe_op H (body (hd p) s)" and r: "r \<in> all_queues"
  shows "holds H s \<Longrightarrow> safe_op H (for_each_desc body r s)"
proof -
  have "for_each_desc body' r' s = Some s' \<Longrightarrow> body' = body \<longrightarrow> r' = r \<longrightarrow> holds H s \<longrightarrow> holds H s'" for body' r' s'
  proof (erule for_each_desc.raw_induct [where P = "\<lambda>b r' s s'. b = body \<longrightarrow> r' = r \<longrightarrow> holds H s \<longrightarrow> holds H s'", rotated], intro impI)
    fix loop b q s t
    assume IH: "\<And>b q s t. loop b q s = Some t \<Longrightarrow> b = body \<longrightarrow> q = r \<longrightarrow> holds H s \<longrightarrow> holds H t"
      and e: "(case unlink_head q s of (None, s) \<Rightarrow> Some s | (Some d, s) \<Rightarrow> b d s \<bind> loop b q) = Some t"
      and "b = body" "q = r" and h: "holds H s"
    then show "holds H t"
      using holds_unlink [OF h r] returnsD [OF body]
      by (auto split: prod.splits option.splits simp: bind_eq_Some_conv)
  qed
  then show "holds H s \<Longrightarrow> safe_op H (for_each_desc body r s)"
    by (simp add: returns_def)
qed

lemma safe_for_each_not_bits:
  assumes body: "\<And>s p. holds (p # H) s \<Longrightarrow> safe_op H (body (hd p) s)" and r: "r \<in> all_queues"
  shows "holds H s \<Longrightarrow> safe_op H (for_each_desc_not_bits body r bits s)"
proof -
  have "for_each_desc_not_bits body' r' bits' s = Some s' \<Longrightarrow> body' = body \<longrightarrow> r' = r \<longrightarrow> holds H s \<longrightarrow> holds H s'"
    for body' r' bits' s'
  proof (erule for_each_desc_not_bits.raw_induct
      [where P = "\<lambda>b r' bits s s'. b = body \<longrightarrow> r' = r \<longrightarrow> holds H s \<longrightarrow> holds H s'", rotated], intro impI)
    fix loop b q bits s t
    assume IH: "\<And>b q bits s t. loop b q bits s = Some t \<Longrightarrow> b = body \<longrightarrow> q = r \<longrightarrow> holds H s \<longrightarrow> holds H t"
      and e: "(case dequeue_not_bits q bits s of (None, s) \<Rightarrow> Some s | (Some d, s) \<Rightarrow> b d s \<bind> loop b q bits) = Some t"
      and "b = body" "q = r" and h: "holds H s"
    then show "holds H t"
      using holds_dequeue [OF h r, of bits] returnsD [OF body]
      by (auto split: prod.splits option.splits simp: bind_eq_Some_conv)
  qed
  then show "holds H s \<Longrightarrow> safe_op H (for_each_desc_not_bits body r bits s)"
    by (simp add: returns_def)
qed

subsection \<open>The transmit path\<close>

lemma holds_take:
  assumes "holds H s" "r \<in> all_queues" "\<not> queue_empty (f_queues s r)"
  shows "\<exists>p. hd p = q_head (f_queues s r) \<and> holds (p # H) (snd (unlink_head r s))"
proof -
  have "fst (unlink_head r s) = Some (q_head (f_queues s r))"
    using assms(3) by (simp add: unlink_head_def dma_unlink_head_def Let_def)
  then obtain s' where u: "unlink_head r s = (Some (q_head (f_queues s r)), s')"
    by (metis prod.collapse)
  show ?thesis
    using holds_unlink [OF assms(1,2) u] u by auto
qed

lemma TxQ_holds [simp]: "i < 5 \<Longrightarrow> TxQ i \<in> all_queues" "v < CARL9170_INTF_NUM \<Longrightarrow> CabQ v \<in> all_queues"
  by (auto simp: all_queues_def)

lemma safe_tx_try:
  assumes "holds (p # H) s"
  shows "safe_op H (wlan_tx_try (hd p) s)"
  unfolding wlan_tx_try_def Let_def
  by (rule safe_put [where p = p]) (use assms in \<open>simp_all add: holds_iff split_beta\<close>)

lemma safe_tx:
  assumes "holds (p # H) s"
  shows "safe_op H (wlan_tx (hd p) s)"
proof -
  have put: "safe_op H (put (CabQ v) (hd p) t)" if "v < CARL9170_INTF_NUM" "sys_view t = sys_view s" for v t
    by (rule safe_put [where p = p]) (use assms that in \<open>simp_all add: holds_iff\<close>)
  have send: "safe_op H (do { s \<leftarrow> wlan_tx_try (hd p) t; Some (wlan_trigger (b s) s) })" if "sys_view t = sys_view s" for t b
    by (rule returns_bind [OF safe_tx_try]) (use assms that in \<open>simp_all add: holds_iff\<close>)
  show ?thesis
    unfolding wlan_tx_def Let_def by (intro returns_if put send) simp_all
qed

lemma safe_txunstuck:
  "holds H s \<Longrightarrow> safe_op H (wlan_txunstuck i s)" "holds H s \<Longrightarrow> safe_op H (wlan_txupdate i s)"
  "holds H s \<Longrightarrow> safe_op H (wlan_dma_bump i s)"
  by (auto simp: returns_def wlan_txunstuck_def wlan_txupdate_def wlan_dma_bump_def Let_def bind_eq_Some_conv
      holds_iff split_beta split: if_splits)

text \<open>The end of the transmit status: the frame goes to the host's ring, or its descriptor becomes
  the firmware's own one again.\<close>

lemma safe_tx_finish:
  assumes "holds H s" "r \<in> all_queues" "\<not> queue_empty (f_queues s r)" "q_head (f_queues s r) = d"
  shows "returns (\<lambda>x. holds H (snd x)) (wlan_tx_finish r d txfail success s)"
proof -
  let ?super = "get_super d s"
  obtain p where p: "hd p = d" "holds (p # H) (snd (unlink_head r s))"
    using holds_take [OF assms(1-3)] assms(4) by auto
  have wake: "safe_op (p # H) (if txfail then wlan_txunstuck i t else Some t)" if "holds (p # H) t" for i t
    using that safe_txunstuck(1) by simp
  have own: "holds H (call_fw_desc_callback success
      (f_wlan_update (w_fw_desc_available_update (\<lambda>_. 1)) (f_wlan_update (w_fw_desc_update (\<lambda>_. d)) t)))"
    (is "holds H (call_fw_desc_callback success ?t)") if "holds (p # H) t" for t
  proof -
    obtain Q F I where q: "owned t Q (p # H @ F @ I)" "service t F I"
      using \<open>holds (p # H) t\<close> by (auto simp: holds_def)
    have "owned t Q (F @ H @ [p] @ I)"
      using q(1) by (rule owned_perm [rotated]) simp
    then have "owned t Q (H @ [p] @ I)"
      by (rule owned_append2)
    then have "owned ?t Q (H @ [p] @ I)"
      by (rule owned_links [rotated]) (simp add: same_links_def)
    then have "holds H ?t"
      by (rule holdsI) (use q(2) p(1) in \<open>simp add: service_def\<close>)
    then show ?thesis
      by (simp add: holds_iff)
  qed
  have give: "returns (\<lambda>x. holds H (snd x)) (do { s \<leftarrow> reclaim DownQ d t; Some (b, down_trigger s) })"
    if "holds (p # H) t" for t b
    by (rule returns_bind [OF safe_reclaim [OF that DownQ_in(1), unfolded p(1)]]) (simp add: holds_iff)
  show ?thesis
    unfolding wlan_tx_finish_def Let_def split_beta
  proof (rule returns_bind [OF wake [OF p(2)]], rule returns_if)
    show "returns (\<lambda>x. holds H (snd x)) (Some (b, call_fw_desc_callback success (f_wlan_update (w_fw_desc_available_update (\<lambda>_. 1))
        (f_wlan_update (w_fw_desc_update (\<lambda>_. d)) (unhide_super d t)))))" if "holds (p # H) t" for b t
      using own [of "unhide_super d t"] that by (simp add: holds_iff)
  qed (rule give, simp add: holds_iff)
qed

lemma safe_tx_status:
  assumes "holds H s" "r \<in> all_queues" "\<not> queue_empty (f_queues s r)" "q_head (f_queues s r) = d"
  shows "returns (\<lambda>x. holds H (snd x)) (wlan_tx_status r d s)"
proof -
  have fin: "returns (\<lambda>x. holds H (snd x)) (wlan_tx_finish r d b c t)" if "sys_view t = sys_view s" for t b c
    using safe_tx_finish [of H t r d] assms that by (simp add: holds_iff view_fields [OF that])
  have again: "returns (\<lambda>x. holds H (snd x))
      (if b then do { s \<leftarrow> wlan_txunstuck i (t\<lparr> f_descs := dma_rearm d (f_descs t) \<rparr>); Some (c, s) }
       else case unlink_head r t of (_, s) \<Rightarrow> do { s \<leftarrow> put RetryQ d s; Some (c, s) })"
    if "sys_view t = sys_view s" for t b c i
  proof (rule returns_if)
    have "sys_view (t\<lparr> f_descs := dma_rearm d (f_descs t) \<rparr>) = sys_view t"
      by (simp add: sys_view_def dma_rearm_def fun_eq_iff)
    then have "holds H (t\<lparr> f_descs := dma_rearm d (f_descs t) \<rparr>)"
      using assms(1) that by (simp add: holds_iff)
    then show "returns (\<lambda>x. holds H (snd x)) (do { s \<leftarrow> wlan_txunstuck i (t\<lparr> f_descs := dma_rearm d (f_descs t) \<rparr>); Some (c, s) })"
      by (rule returns_bind [OF safe_txunstuck(1)]) simp
  next
    have "holds H t" "f_queues t = f_queues s"
      using assms(1) that view_fields [OF that] by (simp_all add: holds_iff)
    then obtain p where "hd p = d" "holds (p # H) (snd (unlink_head r t))"
      using holds_take [of H t r] assms(2-4) by auto
    then have "safe_op H (put RetryQ d (snd (unlink_head r t)))"
      using safe_put [of p H] by simp
    then show "returns (\<lambda>x. holds H (snd x)) (case unlink_head r t of (_, s) \<Rightarrow> do { s \<leftarrow> put RetryQ d s; Some (c, s) })"
      unfolding split_beta by (rule returns_bind) simp
  qed
  show ?thesis
    unfolding wlan_tx_status_def Let_def split_beta
    by (intro returns_if fin again [unfolded split_beta]) simp_all
qed

lemma safe_tx_status_loop:
  assumes r: "r \<in> all_queues"
  shows "holds H s \<Longrightarrow> safe_op H (tx_status_loop r s)"
proof -
  have "tx_status_loop r' s = Some s' \<Longrightarrow> r' = r \<longrightarrow> holds H s \<longrightarrow> holds H s'" for r' s'
  proof (erule tx_status_loop.raw_induct [where P = "\<lambda>r' s s'. r' = r \<longrightarrow> holds H s \<longrightarrow> holds H s'", rotated], intro impI)
    fix loop q s t
    assume IH: "\<And>q s t. loop q s = Some t \<Longrightarrow> q = r \<longrightarrow> holds H s \<longrightarrow> holds H t"
      and e: "(let qu = f_queues s q; desc = q_head qu
        in if \<not> queue_empty qu \<and> dd_status (f_descs s desc) AND AR9170_OWN_BITS = AR9170_OWN_BITS_SW
           then wlan_tx_status q desc s \<bind> (\<lambda>r. if fst r then loop q (snd r) else Some (snd r)) else Some s) = Some t"
      and "q = r" and h: "holds H s"
    then show "holds H t"
      using returnsD [OF safe_tx_status [OF h r]] by (auto simp: Let_def bind_eq_Some_conv split: if_splits)
  qed
  then show "holds H s \<Longrightarrow> safe_op H (tx_status_loop r s)"
    by (simp add: returns_def)
qed

lemma safe_retry: "holds H s \<Longrightarrow> safe_op H (for_each_desc wlan_tx_try RetryQ s)"
  by (rule safe_for_each) (simp_all add: safe_tx_try)

lemma safe_tx_completion: "i < 5 \<Longrightarrow> holds H s \<Longrightarrow> safe_op H (tx_completion i s)"
  unfolding tx_completion_def Let_def
  by (intro returns_bind [OF safe_tx_status_loop] returns_bind [OF safe_retry]) (auto simp: holds_iff)

lemma safe_handle_tx_completion: "holds H s \<Longrightarrow> safe_op H (handle_wlan_tx_completion s)"
  unfolding handle_wlan_tx_completion_def by (rule safe_foldM [OF safe_tx_completion]) auto


subsection \<open>The receive path and held back frames\<close>

lemma safe_rx_step:
  assumes "holds (p # H) s"
  shows "safe_op H (rx_step (hd p) s)"
proof -
  have f: "returns (\<lambda>x. holds (p # H) (snd x)) (wlan_rx_filter (hd p) s)"
    using assms view_rx_filter [of "hd p" s] by (simp add: returns_def holds_iff)
  show ?thesis
    unfolding rx_step_def
  proof (rule returns_bind [OF f], unfold split_beta, rule returns_if)
    fix x :: "u32 \<times> fw_state"
    assume "holds (p # H) (snd x)"
    then show "safe_op H (do { s \<leftarrow> put UpQ (hd p) (snd x); Some (up_trigger s) })"
        "safe_op H (do { s \<leftarrow> reclaim RxQ (hd p) (snd x); Some (wlan_trigger AR9170_DMA_TRIGGER_RXQ s) })"
      by (auto intro!: returns_bind [OF safe_put] returns_bind [OF safe_reclaim] simp: holds_iff)
  qed
qed

lemma safe_handle_rx: "holds H s \<Longrightarrow> safe_op H (handle_wlan_rx s)"
  unfolding handle_wlan_rx_def by (rule safe_for_each_not_bits) (simp_all add: safe_rx_step)

lemma safe_cab_release:
  assumes "holds (p # H) s"
  shows "safe_op H (cab_release v (hd p) s)"
  unfolding cab_release_def Let_def
  by (rule returns_bind [OF safe_tx_try [of p]]) (use assms in \<open>auto simp: holds_iff\<close>)

lemma safe_cab_flush: "holds H s \<Longrightarrow> v < CARL9170_INTF_NUM \<Longrightarrow> safe_op H (wlan_cab_flush_queue v s)"
  unfolding wlan_cab_flush_queue_def by (rule safe_for_each) (simp_all add: safe_cab_release)

lemma safe_buffered_cab: "holds H s \<Longrightarrow> safe_op H (wlan_send_buffered_cab s)"
proof -
  have "safe_op H (send_buffered_cab v s)" if "holds H s" "v < CARL9170_INTF_NUM" for v s
    unfolding send_buffered_cab_def Let_def split_beta
    by (intro returns_if returns_bind [OF safe_cab_flush [OF _ that(2)]]) (use that in \<open>simp_all add: holds_iff\<close>)
  then show "holds H s \<Longrightarrow> safe_op H (wlan_send_buffered_cab s)"
    unfolding wlan_send_buffered_cab_def by (intro safe_foldM) auto
qed

subsection \<open>The firmware's own frames\<close>

text \<open>Taking the descriptor makes it a packet in hand: its links are set anew.\<close>

lemma holds_own_desc:
  assumes "holds H s" "w_fw_desc_available (f_wlan s) \<noteq> 0"
    "f_queues t = f_queues s" "\<And>x. x \<noteq> d \<Longrightarrow> f_descs t x = f_descs s x" "d = w_fw_desc (f_wlan s)"
    "dd_nextAddr (f_descs t d) = d" "dd_lastAddr (f_descs t d) = d" "w_fw_desc_available (f_wlan t) = 0"
    "f_usb t = f_usb s"
  shows "holds ([d] # H) t"
proof -
  obtain Q F I where q: "owned s Q (H @ F @ I)" "service s F I"
    using assms(1) by (auto simp: holds_def)
  then obtain p where p: "F = [p]" "hd p = d"
    using assms(2,5) by (auto simp: service_def)
  have h: "owned s Q (p # H @ I)"
    using q(1) p(1) by (elim owned_perm [rotated]) simp
  then have d: "d \<notin> total s Q" "d \<notin> set (concat (H @ I))"
    using p(2) owned_head by blast+
  have o: "owned t Q (H @ I)"
    by (rule owned_cong [OF owned_rest [OF h] assms(3)]; use d assms(4) in metis)
  have "owned t Q ([d] # H @ [] @ I)"
    using o d total_cong [OF assms(3), of Q] assms(6,7) by (auto simp: owned_def packet_ok_def)
  then have "owned t Q (([d] # H) @ [] @ I)"
    by simp
  then show ?thesis
    by (rule holdsI) (use q(2) assms(8,9) in \<open>simp add: service_def\<close>)
qed

lemma safe_tx_fw:
  assumes "holds H s"
  shows "safe_op H (wlan_tx_fw x cb s)"
proof -
  have tx: "safe_op H (wlan_tx (w_fw_desc (f_wlan s)) t)" if "holds ([w_fw_desc (f_wlan s)] # H) t" for t
    using safe_tx [OF that] by simp
  show ?thesis
    unfolding wlan_tx_fw_def Let_def
  proof (intro returns_if)
    assume "w_fw_desc_available (f_wlan s) \<noteq> 0"
    note own = holds_own_desc [OF assms this _ _ refl]
    show "safe_op H (wlan_tx (w_fw_desc (f_wlan (f_wlan_update (w_fw_desc_available_update (\<lambda>_. 0)) s)))
       (f_wlan_update (w_fw_desc_callback_update (\<lambda>_. cb)) (f_wlan_update (w_fw_desc_data_update (\<lambda>_. x))
         (upd_desc (w_fw_desc (f_wlan (f_wlan_update (w_fw_desc_available_update (\<lambda>_. 0)) s)))
           (\<lambda>y. y\<lparr>dd_ctrl := AR9170_CTRL_FS_BIT OR AR9170_CTRL_LS_BIT, dd_status := AR9170_OWN_BITS_SW,
             dd_totalLen := sd_len (super_s x (f_wlan_update (w_fw_desc_available_update (\<lambda>_. 0)) s)),
             dd_dataSize := sd_len (super_s x (f_wlan_update (w_fw_desc_available_update (\<lambda>_. 0)) s)),
             dd_dataAddr := x,
             dd_nextAddr := w_fw_desc (f_wlan (f_wlan_update (w_fw_desc_available_update (\<lambda>_. 0)) s)),
             dd_lastAddr := w_fw_desc (f_wlan (f_wlan_update (w_fw_desc_available_update (\<lambda>_. 0)) s))\<rparr>)
           (f_wlan_update (w_fw_desc_available_update (\<lambda>_. 0)) s)))))"
      by simp (rule tx, rule own; simp add: upd_desc_def)
  qed (use assms in simp)
qed

lemma safe_buffered_ba: "holds H s \<Longrightarrow> safe_op H (wlan_send_buffered_ba s)"
  unfolding wlan_send_buffered_ba_def Let_def
  by (intro returns_if safe_tx_fw) (simp_all add: holds_iff)

lemma safe_connection_monitor: "holds H s \<Longrightarrow> safe_op H (wlan_wol_connection_monitor s)"
  unfolding wlan_wol_connection_monitor_def Let_def
  by (intro returns_if safe_tx_fw) (simp_all add: holds_iff)

lemma safe_wol_janitor:
  assumes "holds H s"
  shows "safe_op H (wol_janitor s)"
proof -
  have mon: "safe_op H (if b then if c then wlan_wol_connection_monitor t else Some t else Some u)"
    if "holds H t" "holds H u" for b c t u
    using that safe_connection_monitor by simp
  show ?thesis
    unfolding wol_janitor_def Let_def split_beta
    by (intro returns_if returns_bind [where P = "holds H"] mon) (use assms in \<open>auto simp: holds_iff\<close>)
qed

lemma safe_janitor: "holds H s \<Longrightarrow> safe_op H (wlan_janitor s)"
  unfolding wlan_janitor_def Let_def
  by (intro returns_bind [OF safe_buffered_cab] returns_bind [OF safe_buffered_ba] safe_wol_janitor)
    (simp_all add: holds_iff)

lemma safe_handle_wlan:
  assumes "holds H s"
  shows "safe_op H (handle_wlan s)"
  unfolding handle_wlan_def Let_def split_beta
  by (intro returns_bind [where P = "holds H"] returns_if safe_handle_rx safe_handle_tx_completion safe_janitor)
    (use assms in \<open>auto simp: holds_iff\<close>)


subsection \<open>Waiting, radio, keys and supervision\<close>

abbreviation keeps :: "fw_state \<Rightarrow> fw_state option \<Rightarrow> bool" where
  "keeps s \<equiv> returns (\<lambda>t. sys_view t = sys_view s)"

lemma keeps_delay: "keeps s (delay m s)"
  by (auto simp: returns_def delay_def Let_def split_beta dest!: same_core_delay_loop view_core)

lemma keeps_udelay: "keeps s (udelay u s)"
proof -
  have "udelay_loop t u s = Some s' \<Longrightarrow> sys_view s' = sys_view s" for t u s s'
  proof (erule udelay_loop.raw_induct [where P = "\<lambda>t u s s'. sys_view s' = sys_view s", rotated])
    fix loop t u s s'
    assume IH: "\<And>t u s y. loop t u s = Some y \<Longrightarrow> sys_view y = sys_view s"
      and e: "(let (t2, s) = get_clock_counter s; dt = t2 - t
         in if u * f_ticks_per_usec s \<le> dt then Some s else loop t u s) = Some s'"
    then show "sys_view s' = sys_view s"
      by (auto simp: Let_def split_beta split: if_splits dest!: IH)
  qed
  then show ?thesis
    by (auto simp: returns_def udelay_def Let_def split_beta)
qed

lemma keeps_agc: "returns (\<lambda>x. sys_view (snd x) = sys_view s) (agc_loop n r s)"
proof (induction n arbitrary: r s)
  case (Suc n)
  have "returns (\<lambda>x. sys_view (snd x) = sys_view s) (do { s \<leftarrow> udelay 100 s;
      let (v, s) = get_async AR9170_PHY_REG_AGC_CONTROL s; agc_loop n (v AND AGC_CAL_NF) s })"
    using Suc.IH by (intro returns_bind [OF keeps_udelay]) (auto simp: split_beta returns_def)
  then show ?case
    by simp
qed simp

lemma safe_keeps: "(\<And>s. keeps s (f s)) \<Longrightarrow> holds H s \<Longrightarrow> safe_op H (f s)"
  by (rule safe_view)

lemma safe_delay: "holds H s \<Longrightarrow> safe_op H (delay m s)"
  by (rule safe_view [OF keeps_delay])

lemma view_fold_reg [simp]: "sys_view (fold (set_reg a) ws s) = sys_view s"
  by (rule view_fold) simp

lemma safe_rf_init:
  assumes "holds H s"
  shows "returns (\<lambda>x. holds H (snd x)) (rf_init e m es ms n b s)"
proof -
  have addac: "safe_op H (program_ADDAC t)" if "holds H t" for t
    unfolding program_ADDAC_def Let_def
    by (intro returns_bind [OF safe_delay]) (use that in \<open>simp_all add: holds_iff\<close>)
  have agc: "returns (\<lambda>x. holds H (snd x)) (AGC_calibration n t)" if "holds H t" for t n
    using returns_mono [OF keeps_agc, of _ "\<lambda>x. holds H (snd x)"] that
    by (simp add: AGC_calibration_def Let_def split_beta holds_iff)
  show ?thesis
    unfolding rf_init_def Let_def split_beta
    by (rule returns_bind [where P = "holds H"], intro returns_if returns_bind [OF addac] safe_delay)
      (use assms in \<open>auto simp: holds_iff intro!: returns_bind [OF agc]\<close>)
qed

lemma safe_rf_cmd: "holds H s \<Longrightarrow> safe_op H (rf_cmd c r s)"
  unfolding rf_cmd_def Let_def by (rule returns_bind [OF safe_rf_init]) (auto simp: holds_iff split_beta)

lemma keeps_cam_wait: "keeps s (HW_CAM_Avail s)" "keeps s (wait_for_cam_read_ready s)" "keeps s (wait_for_cam_write_ready s)"
proof -
  have "HW_CAM_Avail s = Some t \<Longrightarrow> sys_view t = sys_view s" for t
    by (erule HW_CAM_Avail.raw_induct [where P = "\<lambda>s t. sys_view t = sys_view s", rotated])
      (auto simp: get_reg_def split: if_splits)
  moreover have "wait_for_cam_read_ready s = Some t \<Longrightarrow> sys_view t = sys_view s" for t
    by (erule wait_for_cam_read_ready.raw_induct [where P = "\<lambda>s t. sys_view t = sys_view s", rotated])
      (auto simp: get_reg_def split: if_splits)
  moreover have "wait_for_cam_write_ready s = Some t \<Longrightarrow> sys_view t = sys_view s" for t
    by (erule wait_for_cam_write_ready.raw_induct [where P = "\<lambda>s t. sys_view t = sys_view s", rotated])
      (auto simp: get_reg_def split: if_splits)
  ultimately show "keeps s (HW_CAM_Avail s)" "keeps s (wait_for_cam_read_ready s)" "keeps s (wait_for_cam_write_ready s)"
    by (simp_all add: returns_def)
qed

lemma safe_cam_write: "holds H s \<Longrightarrow> safe_op H (HW_CAM_Write128 a d s)"
  unfolding HW_CAM_Write128_def Let_def
  by (rule returns_bind [OF safe_view [OF keeps_cam_wait(1)]], assumption)
    (rule safe_view [OF keeps_cam_wait(3)], simp add: holds_iff)

lemma safe_cam_read: "holds H s \<Longrightarrow> returns (\<lambda>x. holds H (snd x)) (HW_CAM_Read128 a s)"
  unfolding HW_CAM_Read128_def Let_def split_beta
  by (intro returns_bind [OF safe_view [OF keeps_cam_wait(1)]] returns_bind [OF safe_view [OF keeps_cam_wait(2)]])
    (simp_all add: holds_iff)

lemma safe_set_key:
  assumes "holds H s"
  shows "safe_op H (set_key k s)"
proof -
  have mac: "safe_op H (set_key_mac k u i t)" if "holds H t" for u i t
    unfolding set_key_mac_def Let_def
    by (rule returns_bind [OF safe_cam_read [OF that]]) (simp add: split_beta safe_cam_write)
  show ?thesis
    unfolding set_key_def Let_def split_beta
    by (intro returns_if returns_bind [OF safe_cam_read] returns_bind [OF safe_cam_write]
        returns_bind [where P = "holds H"] safe_foldM mac)
      (use assms in \<open>simp_all add: holds_iff\<close>)
qed

lemma safe_check_hang: "holds H s \<Longrightarrow> safe_op H (wlan_check_hang s)"
proof -
  have "safe_op H (check_hang_queue i s)" if "holds H s" for i s
    unfolding check_hang_queue_def Let_def split_beta get_wlan_txq_addr_def
    by (intro returns_if returns_bind [OF safe_txunstuck(3)]) (use that in \<open>simp_all add: holds_iff\<close>)
  then show "holds H s \<Longrightarrow> safe_op H (wlan_check_hang s)"
    unfolding wlan_check_hang_def by (intro safe_foldM)
qed

lemma safe_mac_reset_queue:
  assumes "holds H (snd vs)"
  shows "returns (\<lambda>x. holds H (snd x)) (mac_reset_queue i vs)"
proof -
  have any: "returns (\<lambda>_. True) m" for m :: "u32 option"
    by (simp add: returns_def)
  show ?thesis
    unfolding mac_reset_queue_def Let_def split_beta
    by (rule returns_bind [OF any]) (use assms in \<open>simp add: holds_iff\<close>)
qed

lemma safe_mac_reset:
  assumes "holds H s"
  shows "safe_op H (wlan_mac_reset s)"
proof -
  have q: "returns (\<lambda>x. holds H (snd x)) (foldM mac_reset_queue is (b, t))" if "holds H t" for "is" b t
    by (rule returns_foldM) (use that safe_mac_reset_queue in auto)
  show ?thesis
    unfolding wlan_mac_reset_def Let_def split_beta
    by (intro returns_bind [OF safe_delay] returns_bind [OF q]) (use assms in \<open>simp_all add: holds_iff\<close>)
qed

lemma safe_wlan_timer: "holds H s \<Longrightarrow> safe_op H (wlan_timer s)"
  unfolding wlan_timer_def Let_def
  by (intro returns_bind [OF safe_check_hang] returns_if returns_bind [OF safe_mac_reset]) (auto simp: holds_iff)

lemma safe_handle_timer: "holds H s \<Longrightarrow> safe_op H (handle_timer s)"
  unfolding handle_timer_def timer0_isr_def Let_def split_beta
  by (intro returns_if returns_bind [OF safe_wlan_timer]) (simp_all add: holds_iff)

subsection \<open>The host interface\<close>

lemma safe_download_step:
  assumes "holds (p # H) s"
  shows "safe_op H (download_step (hd p) s)"
  unfolding download_step_def Let_def
  by (intro returns_if returns_bind [OF safe_reclaim [of p]] safe_tx) (use assms in \<open>simp_all add: holds_iff\<close>)

lemma safe_handle_download: "holds H s \<Longrightarrow> safe_op H (handle_download s)"
  unfolding handle_download_def by (rule safe_for_each_not_bits) (simp_all add: safe_download_step)

lemma safe_upload_step:
  assumes "holds (p # H) s"
  shows "safe_op H (upload_step (hd p) s)"
proof -
  obtain Q F I where q: "owned s Q (p # H @ F @ I)" "service s F I"
    using assms by (auto simp: holds_def)
  let ?t = "f_usb_update (\<lambda>u. u\<lparr> u_int_desc := hd p, u_int_desc_available := 1 \<rparr>) s"
  have "owned s Q (I @ H @ F @ [p])"
    using q(1) by (rule owned_perm [rotated]) simp
  then have "owned ?t Q (H @ F @ [p])"
    by (intro owned_links [of s ?t]) (simp_all add: same_links_def owned_append2)
  then have "holds H ?t"
    by (rule holdsI) (use q(2) in \<open>simp add: service_def\<close>)
  then show ?thesis
    unfolding upload_step_def
    by (intro returns_if returns_bind [OF safe_reclaim [OF assms]]) (simp_all add: holds_iff)
qed

lemma safe_handle_upload: "holds H s \<Longrightarrow> safe_op H (handle_upload s)"
  unfolding handle_upload_def by (rule safe_for_each_not_bits) (simp_all add: safe_upload_step)

text \<open>A position in the queue from the host: the packets before and from the descriptor on.\<close>

definition down_at :: "u32 list list \<Rightarrow> u32 \<Rightarrow> fw_state \<Rightarrow> bool" where
  "down_at H d s \<longleftrightarrow> (\<exists>Q F I ps qs. owned s Q (H @ F @ I) \<and> service s F I \<and> Q DownQ = ps @ qs \<and>
     d = (if qs = [] then q_terminator (f_queues s DownQ) else hd (hd qs)))"

lemma down_at_holds: "down_at H d s \<Longrightarrow> holds H s"
  unfolding down_at_def holds_def by blast

lemma down_at_head:
  assumes "holds H s"
  shows "down_at H (q_head (f_queues s DownQ)) s"
proof -
  obtain Q F I where q: "owned s Q (H @ F @ I)" "service s F I"
    using assms by (auto simp: holds_def)
  have "queue_is DownQ s (Q DownQ)"
    using ownedD(1) [OF q(1)] by (simp add: queues_ok_def)
  then have "q_head (f_queues s DownQ) = (if Q DownQ = [] then q_terminator (f_queues s DownQ) else hd (hd (Q DownQ)))"
    by (cases "Q DownQ") (auto simp: queue_ok_def)
  then show ?thesis
    unfolding down_at_def using q
    by (intro exI [of _ Q] exI [of _ F] exI [of _ I] exI [of _ "[]"] exI [of _ "Q DownQ"]) simp
qed

text \<open>The exchange of one queue for another one with the same descriptors.\<close>

lemma owned_regroup:
  assumes "owned s Q L" "r \<in> all_queues" "concat ps' = concat (Q r)" "queue_ok h (f_queues s r) ps'"
    "f_queues t = f_queues s" "f_descs t = h" "\<And>x. x \<notin> set (concat (Q r)) \<Longrightarrow> h x = f_descs s x"
    "r = DownQ \<Longrightarrow> inner_single t ps'"
  shows "owned t (Q(r := ps')) L"
proof -
  let ?Q = "Q(r := ps')"
  have set: "queue_set t ?Q x = queue_set s Q x" for x
    using assms(3,5) by (simp add: queue_set_def del: set_concat)
  have fr: "f_descs s d = h d" if "x \<in> all_queues" "x \<noteq> r" "d \<in> set (concat (Q x))" for d x
  proof -
    have "set (concat (Q x)) \<inter> set (concat (Q r)) = {}"
      using ownedD(1) [OF assms(1)] that assms(2) by (force simp: queues_ok_def queue_set_def)
    then show ?thesis
      using assms(7) [of d] that by (metis IntI empty_iff)
  qed
  have "queue_is x t (?Q x)" if "x \<in> all_queues" for x
  proof (cases "x = r")
    case False
    have "queue_is x s (Q x)"
      using ownedD(1) [OF assms(1)] that by (simp add: queues_ok_def)
    then have "queue_ok h (f_queues s x) (Q x)"
      by (rule queue_ok_frame) (rule fr [OF that False])
    then show ?thesis
      using False assms(5,6) by simp
  qed (use assms(4-6) in simp)
  then have "queues_ok t ?Q" "total t ?Q = total s Q"
    using ownedD(1) [OF assms(1)] set by (simp_all add: queues_ok_def total_def)
  moreover have "packet_ok (f_descs t) p" if "p \<in> set L" for p
  proof -
    have "set p \<inter> total s Q = {}"
      using that assms(1) by (auto simp: owned_def)
    then have "\<forall>x \<in> set p. h x = f_descs s x"
      using concat_in_total [OF assms(2), of _ Q s] assms(7) by blast
    then show ?thesis
      using that assms(1,6) packet_ok_cong [of p "f_descs t" "f_descs s"] by (simp add: owned_def)
  qed
  moreover have "inner_single t (?Q DownQ)"
    using assms(6,8) ownedD(2) [OF assms(1)] fr [OF DownQ_in(1) _ in_tail]
    by (cases "r = DownQ") (auto simp: inner_single_def)
  ultimately show ?thesis
    using assms(1) by (simp add: owned_def)
qed

lemma queue_position:
  assumes "queue_ok h q (ps @ p # qs)"
  shows "packet_ok h p" "hd p \<noteq> q_terminator q" "queue_chain h (q_head q) ps (hd p)"
    "queue_chain h (dd_nextAddr (h (last p))) qs (q_terminator q)"
    "dd_nextAddr (h (last p)) = (if qs = [] then q_terminator q else hd (hd qs))"
proof -
  show p: "packet_ok h p" "queue_chain h (q_head q) ps (hd p)"
      "queue_chain h (dd_nextAddr (h (last p))) qs (q_terminator q)"
    using assms by (auto simp: queue_ok_def queue_chain_app)
  then show "dd_nextAddr (h (last p)) = (if qs = [] then q_terminator q else hd (hd qs))"
    by (cases qs) auto
  have "hd p \<in> set p"
    using p(1) by (simp add: packet_ok_def)
  then show "hd p \<noteq> q_terminator q"
    using assms by (auto simp: queue_ok_def)
qed

lemma chain_extend: "chain h p \<Longrightarrow> p \<noteq> [] \<Longrightarrow> dd_nextAddr (h (last p)) = y \<Longrightarrow> chain h (p @ [y])"
  by (induction p) (auto simp: chain_Cons)

text \<open>\<^verbatim>\<open>dma_fix_downqueue\<close> splits a packet that the hardware gave back into its blocks.\<close>

lemma fix_splits:
  assumes "queue_ok h q (ps @ p # qs)" "\<And>d. d \<in> set (tl p) \<Longrightarrow> dd_lastAddr (h d) = d"
  shows "queue_ok (dma_fix_downqueue (hd p) h) q (ps @ singles p @ qs)"
proof -
  let ?h = "dma_fix_downqueue (hd p) h"
  note pos = queue_position [OF assms(1)]
  have dis: "distinct (concat ps @ p @ concat qs @ [q_terminator q])"
    using assms(1) by (simp add: queue_ok_def)
  have ne: "p \<noteq> []" "hd p \<in> set p"
    using pos(1) by (auto simp: packet_ok_def)
  have nxt: "dd_nextAddr (?h x) = dd_nextAddr (h x)" for x
    by (simp add: dma_fix_downqueue_def)
  have other: "?h x = h x" if "x \<noteq> hd p" for x
    using that by (simp add: dma_fix_downqueue_def)
  have "h x = ?h x" if "x \<in> set (concat ps) \<or> x \<in> set (concat qs)" for x
  proof -
    have "set (concat ps) \<inter> set p = {}" "set p \<inter> set (concat qs) = {}"
      using dis by auto
    then show ?thesis
      using other [of x] that ne(2) by (metis IntI empty_iff)
  qed
  then have "queue_chain ?h (q_head q) ps (hd p)" "queue_chain ?h (dd_nextAddr (h (last p))) qs (q_terminator q)"
    using pos(3,4) queue_chain_cong [of ps h ?h] queue_chain_cong [of qs h ?h] by simp_all
  moreover have "queue_chain ?h (hd p) (singles p) (dd_nextAddr (h (last p)))"
  proof -
    have self: "dd_lastAddr (?h x) = x" if "x \<in> set p" for x
      using that assms(2) ne by (cases p) (auto simp: dma_fix_downqueue_def)
    have "chain ?h p"
      using pos(1) chain_cong [of p ?h h] nxt by (simp add: packet_ok_def)
    then have "chain ?h (p @ [dd_nextAddr (h (last p))])"
      using ne(1) nxt chain_extend by blast
    then show ?thesis
      using queue_chain_singles [of p ?h "dd_nextAddr (h (last p))"] self ne(1) by simp
  qed
  ultimately have "queue_chain ?h (q_head q) (ps @ singles p @ qs) (q_terminator q)"
    unfolding queue_chain_app by blast
  then show ?thesis
    using dis by (simp add: queue_ok_def)
qed

lemma down_at_step:
  assumes "down_at H d s" "d \<noteq> q_terminator (f_queues s DownQ)"
    "s' = (if b then s\<lparr> f_descs := dma_fix_downqueue d (f_descs s) \<rparr> else s)"
  shows "down_at H (dd_nextAddr (f_descs s' (dd_lastAddr (f_descs s' d)))) s'"
proof -
  obtain Q F I ps qs where q: "owned s Q (H @ F @ I)" "service s F I" "Q DownQ = ps @ qs"
      "d = (if qs = [] then q_terminator (f_queues s DownQ) else hd (hd qs))"
    using assms(1) by (auto simp: down_at_def)
  then obtain p rs where qs: "qs = p # rs" "d = hd p"
    using assms(2) by (cases qs) auto
  let ?q = "f_queues s DownQ" and ?h = "dma_fix_downqueue d (f_descs s)"
  have ok: "queue_ok (f_descs s) ?q (ps @ p # rs)"
    using ownedD(1) [OF q(1)] q(3) qs(1) DownQ_in(1) by (metis queues_ok_def)
  note pos = queue_position [OF ok]
  show ?thesis
  proof (cases b)
    case False
    have "dd_lastAddr (f_descs s d) = last p"
      using pos(1) qs(2) by (simp add: packet_ok_def)
    then show ?thesis
      unfolding down_at_def using False q(1-3) qs pos(5) assms(3)
      by (intro exI [of _ Q] exI [of _ F] exI [of _ I] exI [of _ "ps @ [p]"] exI [of _ rs]) simp
  next
    case True
    have inner: "dd_lastAddr (f_descs s x) = x" if "x \<in> set (tl p)" for x
      using ownedD(2) [OF q(1)] q(3) qs(1) that by (auto simp: inner_single_def)
    have new: "queue_ok ?h ?q (ps @ singles p @ rs)"
      using fix_splits [OF ok inner] qs(2) by simp
    obtain r where p: "p = d # r"
      using pos(1) qs(2) by (cases p) (auto simp: packet_ok_def)
    have self: "dd_lastAddr (f_descs s x) = x \<Longrightarrow> dd_lastAddr (?h x) = x" for x
      by (simp add: dma_fix_downqueue_def)
    have own: "owned s' (Q(DownQ := ps @ singles p @ rs)) (H @ F @ I)"
    proof (rule owned_regroup [OF q(1) DownQ_in(1) _ new])
      show "concat (ps @ singles p @ rs) = concat (Q DownQ)"
        using q(3) qs(1) by simp
      show "?h x = f_descs s x" if "x \<notin> set (concat (Q DownQ))" for x
        using that q(3) qs(1) p by (auto simp: dma_fix_downqueue_def)
      show "inner_single s' (ps @ singles p @ rs)"
        using ownedD(2) [OF q(1)] q(3) qs(1) self assms(3) True by (auto simp: inner_single_def singles_def)
    qed (use assms(3) True in simp_all)
    have eq: "ps @ singles p @ rs = ps @ [d] # singles r @ rs"
      using p by (simp add: singles_def)
    have ok': "queue_ok ?h ?q (ps @ [d] # singles r @ rs)"
      using new unfolding eq .
    note pos' = queue_position [OF ok']
    have "dd_lastAddr (f_descs s' d) = d" "service s' F I" "f_queues s' = f_queues s"
      using assms(3) True q(2) by (simp_all add: dma_fix_downqueue_def service_def)
    then show ?thesis
      unfolding down_at_def using own pos'(5) p assms(3) True
      by (intro exI [of _ "Q(DownQ := ps @ singles p @ rs)"] exI [of _ F] exI [of _ I] exI [of _ "ps @ [[d]]"]
          exI [of _ "singles r @ rs"]) (simp add: singles_def)
  qed
qed

lemma safe_fix_loop: "down_at H d s \<Longrightarrow> safe_op H (fix_loop d s)"
proof -
  have "fix_loop d s = Some t \<Longrightarrow> down_at H d s \<longrightarrow> holds H t" for t
  proof (erule fix_loop.raw_induct [where P = "\<lambda>d s t. down_at H d s \<longrightarrow> holds H t", rotated], intro impI)
    fix loop d s t
    assume IH: "\<And>d s t. loop d s = Some t \<Longrightarrow> down_at H d s \<longrightarrow> holds H t"
      and e: "(if d \<noteq> q_terminator (f_queues s DownQ) then
          let s = if dd_status (f_descs s d) AND AR9170_OWN_BITS = AR9170_OWN_BITS_SW
                  then s\<lparr>f_descs := dma_fix_downqueue d (f_descs s)\<rparr> else s
          in loop (dd_nextAddr (f_descs s (dd_lastAddr (f_descs s d)))) s
        else Some s) = Some t"
      and h: "down_at H d s"
    show "holds H t"
    proof (cases "d = q_terminator (f_queues s DownQ)")
      case True
      then show ?thesis
        using e down_at_holds [OF h] by simp
    next
      case False
      show ?thesis
        using e False IH down_at_step [OF h False refl, of "dd_status (f_descs s d) AND AR9170_OWN_BITS = AR9170_OWN_BITS_SW"]
        unfolding Let_def by (simp only: if_True not_False_eq_True simp_thms)
    qed
  qed
  then show "down_at H d s \<Longrightarrow> safe_op H (fix_loop d s)"
    by (simp add: returns_def)
qed

lemma safe_exception_loop:
  assumes "holds H s"
  shows "returns (\<lambda>x. down_at H (fst x) (snd x)) (exception_loop target s)"
proof -
  have "exception_loop target s = Some x \<Longrightarrow> holds H s \<longrightarrow> down_at H (fst x) (snd x)" for x
  proof (erule exception_loop.raw_induct [where P = "\<lambda>_ s x. holds H s \<longrightarrow> down_at H (fst x) (snd x)", rotated], intro impI)
    fix loop target s x
    assume IH: "\<And>t s x. loop t s = Some x \<Longrightarrow> holds H s \<longrightarrow> down_at H (fst x) (snd x)"
      and e: "(let q = f_queues s DownQ; desc = q_head q
        in if \<not> queue_empty q \<and> dd_status (f_descs s desc) AND AR9170_OWN_BITS = AR9170_OWN_BITS_HW then
             if desc = target then Some (desc, s)
             else case unlink_head DownQ s of (d, s) \<Rightarrow>
               (case d of None \<Rightarrow> None | Some d \<Rightarrow> reclaim DownQ d s) \<bind> loop target
           else Some (desc, s)) = Some x"
      and h: "holds H s"
    show "down_at H (fst x) (snd x)"
      using e IH down_at_head [OF h] holds_unlink [OF h DownQ_in(1)] returnsD [OF safe_reclaim [OF _ DownQ_in(1)]]
      by (auto simp: Let_def bind_eq_Some_conv split: if_splits prod.splits option.splits)
  qed
  then show ?thesis
    using assms by (simp add: returns_def)
qed

lemma safe_download_exception: "holds H s \<Longrightarrow> safe_op H (handle_download_exception s)"
  unfolding handle_download_exception_def Let_def split_beta
  by (intro returns_bind [OF safe_exception_loop] returns_bind [OF safe_fix_loop]) (simp_all add: holds_iff)

lemma safe_handle_host_interface: "holds H s \<Longrightarrow> safe_op H (handle_host_interface s)"
  unfolding handle_host_interface_def Let_def split_beta
  by (intro returns_bind [where P = "holds H"] returns_if safe_handle_download safe_handle_upload safe_download_exception)
    (simp_all add: holds_iff)


subsection \<open>Commands, USB and the main loop\<close>

lemma safe_bcn_ctrl: "holds H s \<Longrightarrow> safe_op H (bcn_ctrl_cmd s)"
  unfolding bcn_ctrl_cmd_def Let_def
  by (intro returns_if returns_bind [OF safe_cab_flush]) (simp_all add: holds_iff)

lemma safe_cmd_dispatch: "holds H s \<Longrightarrow> safe_op H (cmd_dispatch r c s)"
  unfolding cmd_dispatch_def
  by (intro returns_if safe_bcn_ctrl safe_set_key safe_rf_cmd) (simp_all add: holds_iff view_fold)

lemma safe_handle_cmd: "holds H s \<Longrightarrow> safe_op H (handle_cmd r s)"
  unfolding handle_cmd_def Let_def by (intro safe_cmd_dispatch) (simp add: holds_iff)

lemma safe_reg_out: "holds H s \<Longrightarrow> safe_op H (usb_reg_out s)"
  unfolding usb_reg_out_def Let_def split_beta
  by (intro returns_bind [OF safe_handle_cmd]) (simp_all add: holds_iff view_fold)

lemma view_status_in_loop [simp]: "sys_view (snd (status_in_loop rem tlen s)) = sys_view s"
proof (induction rem tlen s rule: status_in_loop.induct)
  case (1 rem tlen s)
  obtain r s' where d: "dequeue_int_buf rem s = (r, s')"
    by fastforce
  then have v: "sys_view s' = sys_view s"
    using view_messages(2) [of rem s] by simp
  show ?case
  proof (cases "u_int_pending (f_usb s) = 0 \<or> r = None")
    case True
    then show ?thesis
      using d v by (subst status_in_loop.simps) auto
  next
    case False
    then obtain rsp where r: "r = Some rsp"
      by auto
    show ?thesis
      using False d v r by (subst status_in_loop.simps) (simp add: Let_def "1.IH")
  qed
qed

lemma safe_status_in:
  assumes "holds H s"
  shows "safe_op H (usb_status_in s)"
proof (cases "u_int_desc_available (f_usb s) = 0")
  case False
  let ?d = "u_int_desc (f_usb s)"
  obtain Q F I where q: "owned s Q (H @ F @ I)" "service s F I"
    using assms by (auto simp: holds_def)
  then obtain p where p: "I = [p]" "hd p = ?d"
    using False by (auto simp: service_def)
  define t where "t = usb_reset_in (f_usb_update (u_int_desc_available_update (\<lambda>_. 0)) s)"
  have f: "sys_view t = sys_view (f_usb_update (u_int_desc_available_update (\<lambda>_. 0)) s)"
    by (simp add: t_def)
  have c: "same_core (f_usb_update (u_int_desc_available_update (\<lambda>_. 0)) s) t"
    by (simp add: t_def usb_reset_in_def orb_def getb_def get_reg_def setb_def same_core_trans [OF same_core_tick])
  have "owned s Q (p # H @ F)"
    using q(1) p(1) by (elim owned_perm [rotated]) simp
  then have "owned t Q ((p # H) @ F @ [])"
    by (intro owned_links [of s t]) (simp_all add: same_links_def fields_same_core [OF c])
  then have hold: "holds (p # H) t"
    by (rule holdsI) (use q(2) in \<open>simp add: service_def fields_same_core [OF c]\<close>)
  obtain tlen u where u: "status_in_loop (of_nat (AR9170_BLOCK_SIZE - 12)) 12 t = (tlen, u)"
    by fastforce
  then have v: "sys_view u = sys_view t"
    by (metis snd_conv view_status_in_loop)
  note vf = view_fields [OF v]
  have d: "u_int_desc (f_usb u) = ?d"
    using vf by (simp add: fields_same_core [OF c])
  have none: "holds H (f_usb_update (u_int_desc_available_update (\<lambda>_. 1)) u)"
  proof -
    have "sys_view (f_usb_update (u_int_desc_available_update (\<lambda>_. u_int_desc_available (f_usb s))) u) = sys_view s"
      using v f by (simp add: sys_view_def)
    moreover have "owned s Q (H @ F @ [p])"
      using q(1) p(1) by simp
    ultimately have "owned u Q (H @ F @ [p])"
      using owned_links [of s u] view_fields(1) [OF v] by (simp add: sys_view_def same_links_def fun_eq_iff)
    then have "owned (f_usb_update (u_int_desc_available_update (\<lambda>_. 1)) u) Q (H @ F @ [p])"
      by (rule owned_links [rotated]) (simp add: same_links_def)
    then show ?thesis
      by (rule holdsI) (use q(2) p d vf in \<open>simp add: service_def fields_same_core [OF c]\<close>)
  qed
  have put: "safe_op H (put UpQ ?d (upd_desc ?d g u))" if "\<And>x. dd_nextAddr (g x) = dd_nextAddr x" "\<And>x. dd_lastAddr (g x) = dd_lastAddr x" for g
    using safe_put [of p H "upd_desc ?d g u" UpQ] hold p(2) v that by (simp add: holds_iff)
  then show ?thesis
    unfolding usb_status_in_def Let_def t_def [symmetric] u split_beta fst_conv snd_conv d
    by (intro returns_if returns_bind [OF put]) (use none assms in \<open>simp_all add: holds_iff\<close>)
qed (use assms in \<open>simp add: usb_status_in_def\<close>)

text \<open>A running firmware satisfies the invariant; a rebooted one has left it.\<close>

fun flow_holds :: "flow \<Rightarrow> bool" where
  "flow_holds (Running s) = holds [] s"
| "flow_holds (Rebooted s) = True"

lemma flow_reboot [simp]: "flow_holds (reboot s)"
  by (simp add: reboot_def Let_def)

lemma safe_flow_bind:
  "returns flow_holds m \<Longrightarrow> (\<And>s. holds [] s \<Longrightarrow> returns flow_holds (f s)) \<Longrightarrow> returns flow_holds (flow_bind m f)"
  by (cases m) (auto simp: flow_bind_def returns_def split: flow.splits)

lemma flow_bus_events: "holds [] s \<Longrightarrow> flow_holds (usb_bus_events s)"
  unfolding usb_bus_events_def Let_def split_beta by (auto simp: holds_iff)

lemma safe_usb_handler: "holds [] s \<Longrightarrow> returns flow_holds (usb_handler val l s)"
  unfolding usb_handler_def Let_def usb_data_in_def
  by (intro returns_bind [where P = "holds []"] returns_if safe_reg_out safe_status_in)
    (auto simp: holds_iff intro!: flow_bus_events)

lemma safe_handle_usb: "holds [] s \<Longrightarrow> returns flow_holds (handle_usb val s)"
  unfolding handle_usb_def Let_def split_beta
  by (rule safe_flow_bind) (auto simp: holds_iff intro!: safe_usb_handler)

lemma safe_main_iteration:
  assumes "holds [] s"
  shows "returns flow_holds (main_iteration val s)"
  unfolding main_iteration_def
proof (intro safe_flow_bind)
  show "returns flow_holds (Some (handle_fw s))"
    using assms by (auto simp: handle_fw_def Let_def holds_iff)
  show "returns flow_holds (do { s \<leftarrow> handle_wlan t; s \<leftarrow> handle_host_interface s; handle_usb val s })" if "holds [] t" for t
    by (rule returns_bind [OF safe_handle_wlan [OF that]], rule returns_bind [OF safe_handle_host_interface])
      (assumption | rule safe_handle_usb)+
  show "returns flow_holds (do { s \<leftarrow> handle_timer t; Some (Running (tally_update s)) })" if "holds [] t" for t
    by (rule returns_bind [OF safe_handle_timer [OF that]]) (simp add: holds_iff)
qed

subsection \<open>The start\<close>

lemma fold_clear_last:
  "d \<in> set (map terminator_addr is) \<Longrightarrow> dd_lastAddr (fold (\<lambda>i. clear_descriptor (terminator_addr i)) is h d) = d"
  by (induction "is" rule: rev_induct) (auto simp: clear_descriptor_def)

definition start_descs :: "nat \<Rightarrow> u32 set" where
  "start_descs n = terminator_addr ` ({..<13} - {9, 10}) \<union> block_addr ` {..<n}"

lemma start_descs_fresh:
  "n < 284 \<Longrightarrow> block_addr n \<notin> start_descs n" "terminator_addr 9 \<notin> start_descs n" "terminator_addr 10 \<notin> start_descs n"
  if "n \<le> 284"
  using that by (auto simp: start_descs_def block_inj terminator_inj terminator_block block_terminator)

lemma owned_terminators:
  assumes "t = init_terminators s"
  shows "owned t (\<lambda>_. []) [[terminator_addr 10], [terminator_addr 9]]" "total t (\<lambda>_. []) \<subseteq> start_descs 0"
proof -
  have q: "f_queues t = init_queues (f_queues s)"
    by (simp add: assms init_terminators_def)
  have "q_terminator (f_queues t r) \<in> start_descs 0" if "r \<in> all_queues" for r
    using init_queues_index [OF that, of "f_queues s"] that
    by (auto simp: q start_descs_def init_queue_def all_queues_def layout_numbers)
  then show tot: "total t (\<lambda>_. []) \<subseteq> start_descs 0"
    by (auto simp: total_def queue_set_def)
  have "dd_lastAddr (f_descs t (terminator_addr i)) = terminator_addr i" if "i < 13" for i
    using that fold_clear_last [of "terminator_addr i" "[0..<AR9170_TERMINATOR_NUMBER]"]
    by (simp add: assms init_terminators_def layout_numbers del: upt_rec_numeral)
  then show "owned t (\<lambda>_. []) [[terminator_addr 10], [terminator_addr 9]]"
    using queues_ok_init [OF q] tot start_descs_fresh(2,3) [of 0]
    by (auto simp: owned_def packet_ok_def inner_single_def terminator_inj)
qed

lemma init_block_owned:
  assumes "owned s Q [[terminator_addr 10], [terminator_addr 9]]" "total s Q \<subseteq> start_descs n" "n < 284"
  shows "\<exists>s' Q'. init_block n s = Some s' \<and> owned s' Q' [[terminator_addr 10], [terminator_addr 9]] \<and>
    total s' Q' \<subseteq> start_descs (Suc n) \<and> f_wlan s' = f_wlan s \<and> f_usb s' = f_usb s"
proof -
  let ?b = "block_addr n" and ?L = "[[terminator_addr 10], [terminator_addr 9]]"
  let ?r = "if n < AR9170_TX_BLOCK_NUMBER then DownQ else RxQ"
  let ?s = "s\<lparr> f_descs := fill_descriptor ?b (of_nat AR9170_BLOCK_SIZE) (data_addr n) (f_descs s) \<rparr>"
  have b: "?b \<notin> total s Q" "?b \<notin> set (concat ?L)"
    using start_descs_fresh(1) [of n] assms(2,3) by (auto simp: block_terminator)
  have "owned ?s Q ?L"
    by (rule owned_cong [OF assms(1)]; use b in \<open>fastforce simp: fill_descriptor_def\<close>)
  then have own: "owned ?s Q ([?b] # ?L)"
    using b total_cong [of ?s s Q] by (auto simp: owned_def packet_ok_def fill_descriptor_def)
  have r: "?r \<in> all_queues"
    by simp
  obtain s' where s': "reclaim ?r ?b ?s = Some s'"
    using reclaim_returns [OF own r] by auto
  then obtain xs q h where "owned s' (Q(?r := Q ?r @ singles xs)) ?L"
      "total s' (Q(?r := Q ?r @ singles xs)) = total ?s Q \<union> set [?b]" "s' = with_queue ?r (q, h) ?s"
    using owned_reclaim [OF own r, of s'] by auto
  moreover have "total ?s Q \<union> set [?b] \<subseteq> start_descs (Suc n)"
    using assms(2) total_cong [of ?s s Q] by (auto simp: start_descs_def)
  ultimately show ?thesis
    using s' by (intro exI [of _ s'] exI [of _ "Q(?r := Q ?r @ singles xs)"]) (simp add: init_block_def with_queue_view_fields)
qed

lemma init_blocks_owned:
  "n \<le> 284 \<Longrightarrow> \<exists>t Q. foldM init_block [0..<n] (init_terminators s) = Some t \<and>
     owned t Q [[terminator_addr 10], [terminator_addr 9]] \<and> total t Q \<subseteq> start_descs n \<and>
     f_wlan t = f_wlan (init_terminators s) \<and> f_usb t = f_usb (init_terminators s)"
proof (induction n)
  case 0
  then show ?case
    using owned_terminators [OF refl, of s] by auto
next
  case (Suc n)
  then obtain t Q where t: "foldM init_block [0..<n] (init_terminators s) = Some t"
      "owned t Q [[terminator_addr 10], [terminator_addr 9]]" "total t Q \<subseteq> start_descs n"
      "f_wlan t = f_wlan (init_terminators s)" "f_usb t = f_usb (init_terminators s)"
    by auto
  have "n < 284"
    using Suc.prems by simp
  from init_block_owned [OF t(2,3) this] obtain u P where "init_block n t = Some u"
      "owned u P [[terminator_addr 10], [terminator_addr 9]]" "total u P \<subseteq> start_descs (Suc n)"
      "f_wlan u = f_wlan t" "f_usb u = f_usb t"
    by blast
  then show ?case
    using t(1,4,5) by (intro exI [of _ u] exI [of _ P]) simp
qed

lemma init_holds: "\<exists>t. dma_init_descriptors s = Some t \<and> holds [] t"
proof -
  let ?L = "[[terminator_addr 10], [terminator_addr 9]]"
  obtain u Q where u: "foldM init_block [0..<AR9170_BLOCK_NUMBER] (init_terminators s) = Some u" "owned u Q ?L"
      "f_wlan u = f_wlan (init_terminators s)" "f_usb u = f_usb (init_terminators s)"
    using init_blocks_owned [of 284 s] by (auto simp: layout_numbers simp del: upt_rec_numeral)
  let ?v = "set_dma_addresses u"
  let ?t = "init_service_descs ?v"
  note core = set_dma_addresses_core [of u]
  have "same_links u ?v"
    by (rule same_core_links [OF core])
  moreover have "same_links ?v ?t"
    by (simp add: init_service_descs_def Let_def same_links_def upd_desc_def)
  ultimately have "owned ?t Q ([] @ [[terminator_addr 10]] @ [[terminator_addr 9]])"
    using owned_links [OF same_links_trans u(2)] by simp
  then have "holds [] ?t"
    by (rule holdsI) (simp add: service_def init_service_descs_def Let_def upd_desc_def fields_same_core [OF core] u(3,4)
        init_terminators_def)
  then show ?thesis
    using u(1) by (simp add: dma_init_descriptors_def)
qed

lemma boot_holds: "\<exists>t. boot s = Some t \<and> holds [] t"
proof -
  have "\<exists>t. init s = Some t \<and> holds [] t" for s
  proof -
    obtain u where "dma_init_descriptors (clear_dma_mem (usb_init (timer_init 0 50000 (led_init s)))) = Some u" "holds [] u"
      using init_holds by blast
    then show ?thesis
      by (simp add: init_def Let_def split_beta holds_iff)
  qed
  moreover have "\<exists>x. boot s = do { s \<leftarrow> init x; Some (send_cmd_to_host 0 CARL9170_RSP_BOOT 0 [] s) }"
    unfolding boot_def Let_def split_beta by (rule exI, rule refl)
  ultimately obtain x u where "boot s = do { s \<leftarrow> init x; Some (send_cmd_to_host 0 CARL9170_RSP_BOOT 0 [] s) }"
      "init x = Some u" "holds [] u"
    by blast
  then show ?thesis
    by (simp add: holds_iff)
qed

subsection \<open>The machine\<close>

text \<open>The heads of the packets of a queue, as the hardware follows them.\<close>

inductive at_packet :: "fw_state \<Rightarrow> qref \<Rightarrow> u32 \<Rightarrow> bool" for s r where
  first: "\<not> queue_empty (f_queues s r) \<Longrightarrow> at_packet s r (q_head (f_queues s r))"
| follow: "at_packet s r d \<Longrightarrow> e = dd_nextAddr (f_descs s (dd_lastAddr (f_descs s d))) \<Longrightarrow>
     e \<noteq> q_terminator (f_queues s r) \<Longrightarrow> at_packet s r e"

text \<open>Between two rounds of the main loop the DMA engines and the host may change all that is not a
  link: the status, control bits and lengths of descriptors, frames, the byte memory and the registers. An
  engine that fills a frame over several blocks joins the next single block to the packet.\<close>

inductive hw_step :: "fw_state \<Rightarrow> fw_state \<Rightarrow> bool" where
  transfer: "(\<And>d. dd_nextAddr (h d) = dd_nextAddr (f_descs s d) \<and> dd_lastAddr (h d) = dd_lastAddr (f_descs s d)) \<Longrightarrow>
     hw_step s (s\<lparr> f_descs := h, f_supers := x, f_ram := m, f_hw := w \<rparr>)"
| join: "r \<in> {DownQ, RxQ} \<Longrightarrow> at_packet s r d \<Longrightarrow> e = dd_nextAddr (f_descs s (dd_lastAddr (f_descs s d))) \<Longrightarrow>
     e \<noteq> q_terminator (f_queues s r) \<Longrightarrow> dd_lastAddr (f_descs s e) = e \<Longrightarrow>
     hw_step s (upd_desc d (dd_lastAddr_update (\<lambda>_. e)) s)"

text \<open>A step of the whole device.\<close>

inductive device_step :: "fw_state \<Rightarrow> fw_state \<Rightarrow> bool" where
  round: "main_iteration val s = Some (Running s') \<Longrightarrow> device_step s s'"
| hardware: "hw_step s s' \<Longrightarrow> device_step s s'"

inductive_cases at_packetE: "at_packet s r d"
inductive_cases hw_stepE: "hw_step s s'"
inductive_cases device_stepE: "device_step s s'"

lemma at_packet_position:
  assumes "at_packet s r d" "queue_is r s ps"
  shows "\<exists>as p bs. ps = as @ p # bs \<and> d = hd p"
  using assms
proof (induction rule: at_packet.induct)
  case first
  then show ?case
  proof (cases ps)
    case (Cons p bs)
    then show ?thesis
      using first.prems by (intro exI [of _ "[]"] exI [of _ p] exI [of _ bs]) (simp add: queue_ok_def)
  qed (use first queue_ok_empty [OF first.prems] in simp)
next
  case (follow d e)
  then obtain as p bs where p: "ps = as @ p # bs" "d = hd p"
    by blast
  note pos = queue_position [OF follow.prems [unfolded p(1)]]
  have "e = (if bs = [] then q_terminator (f_queues s r) else hd (hd bs))"
    using follow.hyps(2) pos(1,5) p(2) by (simp add: packet_ok_def)
  then obtain q cs where "bs = q # cs" "e = hd q"
    using follow.hyps(3) by (cases bs) auto
  then show ?case
    using p(1) by (intro exI [of _ "as @ [p]"] exI [of _ q] exI [of _ cs]) simp
qed

text \<open>Joining the block \<^verbatim>\<open>e\<close> to the packet before it.\<close>

lemma join_packets:
  assumes "queue_ok h q (as @ p # [e] # cs)" "h' = h(hd p := (h (hd p))\<lparr> dd_lastAddr := e \<rparr>)"
  shows "queue_ok h' q (as @ (p @ [e]) # cs)" "x \<in> set (concat as) \<union> set (tl p) \<union> set (concat cs) \<union> {e} \<Longrightarrow> h' x = h x"
proof -
  note pos = queue_position [OF assms(1)]
  have "queue_ok h q ((as @ [p]) @ [e] # cs)"
    using assms(1) by simp
  note pos2 = queue_position [OF this]
  have d: "hd p \<in> set p" "p \<noteq> []"
    using pos(1) by (auto simp: packet_ok_def)
  have dis: "distinct (concat as @ p @ [e] @ concat cs @ [q_terminator q])"
    using assms(1) by (simp add: queue_ok_def)
  have nxt: "dd_nextAddr (h' x) = dd_nextAddr (h x)" for x
    using assms(2) by simp
  have "hd p \<notin> set (concat as) \<union> set (tl p) \<union> set (concat cs) \<union> {e}"
    using dis d by (cases p) auto
  then show keep: "h' x = h x" if "x \<in> set (concat as) \<union> set (tl p) \<union> set (concat cs) \<union> {e}" for x
    using that assms(2) by auto
  then have rest: "queue_chain h' (q_head q) as (hd p)" "queue_chain h' (dd_nextAddr (h' e)) cs (q_terminator q)"
    using pos(3) pos2(4) nxt queue_chain_cong [of as h' h] queue_chain_cong [of cs h' h] by simp_all
  have "chain h' p"
    using pos(1) chain_cong [of p h' h] nxt by (simp add: packet_ok_def)
  then have "chain h' (p @ [e])"
    using chain_extend d(2) nxt pos(5) by simp
  then have "packet_ok h' (p @ [e])"
    using dis d assms(2) by (simp add: packet_ok_def)
  then show "queue_ok h' q (as @ (p @ [e]) # cs)"
    using rest dis d(2) by (auto simp: queue_ok_def queue_chain_app)
qed

lemma next_packet:
  assumes "queue_is r s ps" "at_packet s r d" "e = dd_nextAddr (f_descs s (dd_lastAddr (f_descs s d)))"
    "e \<noteq> q_terminator (f_queues s r)" "dd_lastAddr (f_descs s e) = e"
  shows "\<exists>as p cs. ps = as @ p # [e] # cs \<and> d = hd p"
proof -
  obtain as p bs where p: "ps = as @ p # bs" "d = hd p"
    using at_packet_position [OF assms(2,1)] by blast
  note pos = queue_position [OF assms(1) [unfolded p(1)]]
  have "e = (if bs = [] then q_terminator (f_queues s r) else hd (hd bs))"
    using assms(3) pos(1,5) p(2) by (simp add: packet_ok_def)
  then obtain c cs where c: "bs = c # cs" "e = hd c"
    using assms(4) by (cases bs) auto
  have "queue_is r s ((as @ [p]) @ c # cs)"
    using assms(1) p(1) c(1) by simp
  note pos2 = queue_position [OF this]
  then have "last c = hd c"
    using assms(5) c(2) by (simp add: packet_ok_def)
  then have "c = [e]"
    using pos2(1) c(2) by (cases c) (auto simp: packet_ok_def split: if_splits)
  then show ?thesis
    using p c by blast
qed

lemma holds_join:
  assumes "holds H s" "r \<in> all_queues" "at_packet s r d" "e = dd_nextAddr (f_descs s (dd_lastAddr (f_descs s d)))"
    "e \<noteq> q_terminator (f_queues s r)" "dd_lastAddr (f_descs s e) = e"
  shows "holds H (upd_desc d (dd_lastAddr_update (\<lambda>_. e)) s)"
proof -
  let ?t = "upd_desc d (dd_lastAddr_update (\<lambda>_. e)) s"
  obtain Q F I where q: "owned s Q (H @ F @ I)" "service s F I"
    using assms(1) by (auto simp: holds_def)
  have ok: "queue_is r s (Q r)"
    using ownedD(1) [OF q(1)] assms(2) by (simp add: queues_ok_def)
  obtain as p cs where p: "Q r = as @ p # [e] # cs" "d = hd p"
    using next_packet [OF ok assms(3-6)] by blast
  have "f_descs ?t = (f_descs s)(hd p := (f_descs s (hd p))\<lparr> dd_lastAddr := e \<rparr>)"
    using p(2) by (simp add: upd_desc_def)
  note j = join_packets [OF ok [unfolded p(1)] this]
  have "hd p \<in> set p" "p \<noteq> []"
    using queue_position(1) [OF ok [unfolded p(1)]] by (auto simp: packet_ok_def)
  then have d: "d \<in> set (concat (Q r))" "p \<noteq> []"
    using p by auto
  have "owned ?t (Q(r := as @ (p @ [e]) # cs)) (H @ F @ I)"
  proof (rule owned_regroup [OF q(1) assms(2) _ j(1)])
    show "concat (as @ (p @ [e]) # cs) = concat (Q r)"
      using p(1) by simp
    show "f_descs ?t x = f_descs s x" if "x \<notin> set (concat (Q r))" for x
      using that d(1) by (auto simp: upd_desc_def)
    show "inner_single ?t (as @ (p @ [e]) # cs)" if "r = DownQ"
    proof -
      have "inner_single s (as @ p # [e] # cs)"
        using ownedD(2) [OF q(1)] p(1) that by simp
      then show ?thesis
        using j(2) in_tail [of _ as] in_tail [of _ cs] assms(6) d(2) unfolding inner_single_def
        by (auto simp: ball_Un simp del: set_concat)
    qed
  qed (simp_all add: upd_desc_def)
  then show ?thesis
    by (rule holdsI) (use q(2) in \<open>simp add: service_def upd_desc_def\<close>)
qed

lemma holds_hardware: "hw_step s s' \<Longrightarrow> holds H s \<Longrightarrow> holds H s'"
proof (induction rule: hw_step.induct)
  case (transfer h s w m x)
  then have "sys_view (s\<lparr> f_descs := h, f_supers := x, f_ram := m, f_hw := w \<rparr>) = sys_view s"
    by (simp add: sys_view_def)
  then show ?case
    using transfer.prems by (simp add: holds_iff)
next
  case (join r s d e)
  then show ?case
    using holds_join [of H s r d e] by auto
qed

lemma holds_device: "device_step s s' \<Longrightarrow> holds [] s \<Longrightarrow> holds [] s'"
  by (erule device_stepE) (use returnsD [OF safe_main_iteration] holds_hardware in fastforce)+

text \<open>C1. The firmware always comes up, and in every state the device reaches after that, by any
  number of rounds of the main loop, with whatever the hardware and the host did in between, every queue
  is a well-formed list of packets that ends at its terminator, no descriptor is in two queues, and the
  firmware's own two descriptors are in no queue while they are available, and different.\<close>

theorem device_keeps_queues:
  "\<exists>s0. boot s = Some s0 \<and>
     (\<forall>s1. device_step\<^sup>*\<^sup>* s0 s1 \<longrightarrow>
        (\<exists>Q. queues_ok s1 Q \<and>
           (w_fw_desc_available (f_wlan s1) \<noteq> 0 \<longrightarrow> w_fw_desc (f_wlan s1) \<notin> total s1 Q) \<and>
           (u_int_desc_available (f_usb s1) \<noteq> 0 \<longrightarrow> u_int_desc (f_usb s1) \<notin> total s1 Q) \<and>
           (w_fw_desc_available (f_wlan s1) \<noteq> 0 \<and> u_int_desc_available (f_usb s1) \<noteq> 0 \<longrightarrow>
              w_fw_desc (f_wlan s1) \<noteq> u_int_desc (f_usb s1))))"
proof -
  obtain s0 where s0: "boot s = Some s0" "holds [] s0"
    using boot_holds by blast
  show ?thesis
  proof (intro exI [of _ s0] conjI allI impI s0(1))
    fix s1
    assume "device_step\<^sup>*\<^sup>* s0 s1"
    then have "holds [] s1"
      by (induction rule: rtranclp_induct) (use s0(2) holds_device in blast)+
    then obtain Q F I where q: "owned s1 Q (F @ I)" "service s1 F I"
      by (auto simp: holds_def)
    have "hd p \<notin> total s1 Q" if "F = [p] \<or> I = [p]" for p
      using q(1) owned_head(1) [of s1 Q p "[]"] owned_append1 [of s1 Q F I] owned_append2 [of s1 Q F I] that by auto
    moreover have "hd p \<noteq> hd p'" if "F = [p]" "I = [p']" for p p'
      using q(1) that owned_head(2) [of s1 Q p "[p']"] by (auto simp: owned_def packet_ok_def)
    ultimately show "\<exists>Q. queues_ok s1 Q \<and>
           (w_fw_desc_available (f_wlan s1) \<noteq> 0 \<longrightarrow> w_fw_desc (f_wlan s1) \<notin> total s1 Q) \<and>
           (u_int_desc_available (f_usb s1) \<noteq> 0 \<longrightarrow> u_int_desc (f_usb s1) \<notin> total s1 Q) \<and>
           (w_fw_desc_available (f_wlan s1) \<noteq> 0 \<and> u_int_desc_available (f_usb s1) \<noteq> 0 \<longrightarrow>
              w_fw_desc (f_wlan s1) \<noteq> u_int_desc (f_usb s1))"
      using ownedD(1) [OF q(1)] q(2) unfolding service_def by (intro exI [of _ Q]) metis
  qed
qed

theorem device_keeps_queues_witness:
  "\<exists>s0 s1 Q. boot (zero_state default_config) = Some s0 \<and> device_step s0 s1 \<and> f_ram s1 0x110000 = 1 \<and> queues_ok s1 Q"
proof -
  obtain s0 where s0: "boot (zero_state default_config) = Some s0"
      "\<forall>s1. device_step\<^sup>*\<^sup>* s0 s1 \<longrightarrow> (\<exists>Q. queues_ok s1 Q)"
    using device_keeps_queues [of "zero_state default_config"] by blast
  let ?s1 = "s0\<lparr> f_descs := f_descs s0, f_supers := f_supers s0, f_ram := (f_ram s0)(0x110000 := 1), f_hw := f_hw s0 \<rparr>"
  have "device_step s0 ?s1"
    by (intro hardware transfer) simp
  then show ?thesis
    using s0 by (intro exI [of _ s0] exI [of _ ?s1]) auto
qed

end
