(* ===== verification/Uart.thy ===== *)
theory Uart
  imports Io
begin

text \<open>The serial port for debug messages (carlfw/src/uart.c), part of builds with
  \<^verbatim>\<open>CONFIG_CARL9170FW_DEBUG_UART\<close>. The loops that wait for the port may not end.\<close>

partial_function (option) uart_wait :: "fw_state \<Rightarrow> fw_state option" where
  "uart_wait s =
     (let (v, s) = get_reg AR9170_UART_REG_LINE_STATUS s
      in if v AND AR9170_UART_LINE_STS_TX_FIFO_NEAR_EMPTY \<noteq> 0 then uart_wait s else Some s)"

definition uart_putc :: "u8 \<Rightarrow> fw_state \<Rightarrow> fw_state option" where
  "uart_putc c s = uart_wait (set_reg AR9170_UART_REG_TX_HOLDING (scast c) s)"

text \<open>The condition of the loop does not depend on what the loop changes.\<close>

partial_function (option) uart_dump_loop :: "u32 \<Rightarrow> int \<Rightarrow> u32 \<Rightarrow> fw_state \<Rightarrow> fw_state option" where
  "uart_dump_loop buf len offset s =
     (if len > 0 then Option.bind (uart_putc (f_ram s (buf + offset)) s) (uart_dump_loop buf len (offset + 1))
      else Some s)"

definition uart_print_hex_dump :: "u32 \<Rightarrow> int \<Rightarrow> fw_state \<Rightarrow> fw_state option" where
  "uart_print_hex_dump buf len s =
     do { s \<leftarrow> uart_putc 0x48 s; s \<leftarrow> uart_putc 0x44 s; s \<leftarrow> uart_putc 0x3a s; uart_dump_loop buf len 0 s }"

function uart_init_loop :: "nat \<Rightarrow> fw_state \<Rightarrow> fw_state" where
  "uart_init_loop timeout s =
     (let (v, s) = get_reg AR9170_UART_REG_LINE_STATUS s
      in if v AND AR9170_UART_LINE_STS_TRANSMITTER_EMPTY \<noteq> 0
         then if timeout \<ge> 10000 then s else uart_init_loop (timeout + 1) s
         else s)"
  by auto
termination by (relation "measure (\<lambda>(timeout, _). 10000 - timeout)") (auto split: if_splits)

declare uart_init_loop.simps [simp del]

text \<open>The clock of the port is a choice of the build.\<close>

definition uart_init :: "bool \<Rightarrow> fw_state \<Rightarrow> fw_state" where
  "uart_init clock_25m s =
     (let s = (if clock_25m then set_reg AR9170_UART_REG_DIVISOR_LSB 0xc s
               else set_reg AR9170_UART_REG_REMAINDER 0xb38e (set_reg AR9170_UART_REG_DIVISOR_LSB 0x14 s))
      in uart_init_loop 0 s)"

subsection \<open>Properties\<close>

lemma uart_dump_loop_returned: "uart_dump_loop buf len offset s = Some t \<Longrightarrow> len \<le> 0"
proof (erule uart_dump_loop.raw_induct [where P = "\<lambda>buf len offset s t. len \<le> 0", rotated])
  fix loop buf len offset s t
  assume IH: "\<And>buf len offset s y. loop buf len offset s = Some y \<Longrightarrow> len \<le> (0 :: int)"
    and t: "(if len > 0 then Option.bind (uart_putc (f_ram s (buf + offset)) s) (loop buf len (offset + 1)) else Some s) = Some t"
  show "len \<le> 0"
  proof (rule ccontr)
    assume "\<not> len \<le> 0"
    then obtain x where "loop buf len (offset + 1) x = Some t"
      using t by (auto split: bind_splits)
    then show False
      using IH \<open>\<not> len \<le> 0\<close> by blast
  qed
qed

text \<open>The dump of anything but an empty block never ends: its loop tests the length, which it does not
  change.\<close>

theorem uart_print_hex_dump_never_returns: "0 < len \<Longrightarrow> uart_print_hex_dump buf len s = None"
proof -
  assume "0 < len"
  then have "uart_dump_loop buf len 0 t = None" for t
    using uart_dump_loop_returned [of buf len 0 t] by (cases "uart_dump_loop buf len 0 t") auto
  then show ?thesis
    by (simp add: uart_print_hex_dump_def bind_eq_None_conv)
qed

lemma same_core_get_reg: "same_core s (snd (get_reg a s))"
  by (simp add: get_reg_def Let_def)

text \<open>A character is out as soon as the status of the port has the bit clear.\<close>

lemma uart_putc_waits:
  assumes "fst (get_reg AR9170_UART_REG_LINE_STATUS (set_reg AR9170_UART_REG_TX_HOLDING (scast c) s)) AND
    AR9170_UART_LINE_STS_TX_FIFO_NEAR_EMPTY = 0"
  shows "\<exists>t. uart_putc c s = Some t \<and> same_core s t"
  using assms same_core_trans [OF same_core_set_reg [of s AR9170_UART_REG_TX_HOLDING "scast c"] same_core_get_reg]
  by (auto simp: uart_putc_def uart_wait.simps [of "set_reg _ _ _"] split_beta Let_def)

lemma same_core_uart_init: "same_core s (uart_init clock_25m s)"
proof -
  have loop: "same_core s (uart_init_loop n s)" for n s
  proof (induction n s rule: uart_init_loop.induct)
    case (1 n s)
    let ?g = "get_reg AR9170_UART_REG_LINE_STATUS s"
    have "same_core s (snd ?g)"
      by (rule same_core_get_reg)
    moreover have "fst ?g AND AR9170_UART_LINE_STS_TRANSMITTER_EMPTY \<noteq> 0 \<Longrightarrow> \<not> 10000 \<le> n \<Longrightarrow>
        same_core (snd ?g) (uart_init_loop (n + 1) (snd ?g))"
      using 1 [OF refl, of "fst ?g" "snd ?g"] by simp
    ultimately show ?case
      by (subst uart_init_loop.simps) (auto simp: split_beta Let_def intro: same_core_trans)
  qed
  show ?thesis
    unfolding uart_init_def Let_def by (auto intro!: same_core_trans [OF _ loop] intro: same_core_trans [OF same_core_set_reg same_core_set_reg])
qed

end
