(* ===== verification/ListHead.thy ===== *)
theory ListHead
  imports Prelude
begin

text \<open>The circular doubly linked lists of the host tools (tools/include/list.h): the two pointers of every
  list head, the operations on them, and the list of nodes they stand for. An address is a natural
  number; \<^verbatim>\<open>linked h head xs\<close> says that the nodes of the list at \<^verbatim>\<open>head\<close> are \<^verbatim>\<open>xs\<close>, in both directions.\<close>

record links =
  l_next :: "nat \<Rightarrow> nat"
  l_prev :: "nat \<Rightarrow> nat"

definition set_next :: "nat \<Rightarrow> nat \<Rightarrow> links \<Rightarrow> links" where
  "set_next p v h = h\<lparr> l_next := (l_next h)(p := v) \<rparr>"

definition set_prev :: "nat \<Rightarrow> nat \<Rightarrow> links \<Rightarrow> links" where
  "set_prev p v h = h\<lparr> l_prev := (l_prev h)(p := v) \<rparr>"

lemma links_simps [simp]:
  "l_next (set_next p v h) = (l_next h)(p := v)" "l_prev (set_next p v h) = l_prev h"
  "l_next (set_prev p v h) = l_next h" "l_prev (set_prev p v h) = (l_prev h)(p := v)"
  by (simp_all add: set_next_def set_prev_def)

subsection \<open>Operations\<close>

definition init_list_head :: "nat \<Rightarrow> links \<Rightarrow> links" where
  "init_list_head head h = set_prev head head (set_next head head h)"

definition list_add :: "nat \<Rightarrow> nat \<Rightarrow> nat \<Rightarrow> links \<Rightarrow> links" where
  "list_add obj prev nxt h =
     (let h = set_next prev obj h;
          h = set_prev obj prev h;
          h = set_prev nxt obj h
      in set_next obj nxt h)"

definition list_add_tail :: "nat \<Rightarrow> nat \<Rightarrow> links \<Rightarrow> links" where
  "list_add_tail obj head h = list_add obj (l_prev h head) head h"

definition list_add_head :: "nat \<Rightarrow> nat \<Rightarrow> links \<Rightarrow> links" where
  "list_add_head obj head h = list_add obj head (l_next h head) h"

definition list_del :: "nat \<Rightarrow> links \<Rightarrow> links" where
  "list_del obj h =
     (let h = set_next (l_prev h obj) (l_next h obj) h;
          h = set_prev (l_next h obj) (l_prev h obj) h;
          h = set_prev obj obj h
      in set_next obj (l_prev h obj) h)"

definition list_replace :: "nat \<Rightarrow> nat \<Rightarrow> links \<Rightarrow> links" where
  "list_replace old obj h =
     (let h = set_next obj (l_next h old) h;
          h = set_prev (l_next h obj) obj h;
          h = set_prev obj (l_prev h old) h
      in set_next (l_prev h obj) obj h)"

definition list_empty :: "nat \<Rightarrow> links \<Rightarrow> bool" where
  "list_empty head h \<longleftrightarrow> l_next h head = head"

definition list_at_tail :: "nat \<Rightarrow> nat \<Rightarrow> links \<Rightarrow> bool" where
  "list_at_tail pos head h \<longleftrightarrow> l_next h pos = head"

definition list_at_head :: "nat \<Rightarrow> nat \<Rightarrow> links \<Rightarrow> bool" where
  "list_at_head pos head h \<longleftrightarrow> l_prev h pos = head"

text \<open>\<^verbatim>\<open>list_for_each_entry\<close> with a body that may leave the loop with a result (\<^verbatim>\<open>Inl\<close>). The body does not
  change the list.\<close>

partial_function (option) list_for_each_from ::
  "links \<Rightarrow> nat \<Rightarrow> (nat \<Rightarrow> 's \<Rightarrow> 'r + 's) \<Rightarrow> nat \<Rightarrow> 's \<Rightarrow> ('r + 's) option" where
  "list_for_each_from h head body pos s =
     (if pos = head then Some (Inr s)
      else case body pos s of Inl r \<Rightarrow> Some (Inl r)
        | Inr s \<Rightarrow> list_for_each_from h head body (l_next h pos) s)"

definition list_for_each_entry :: "links \<Rightarrow> nat \<Rightarrow> (nat \<Rightarrow> 's \<Rightarrow> 'r + 's) \<Rightarrow> 's \<Rightarrow> ('r + 's) option" where
  "list_for_each_entry h head body s = list_for_each_from h head body (l_next h head) s"

subsection \<open>The list of nodes\<close>

primrec segment :: "links \<Rightarrow> nat \<Rightarrow> nat list \<Rightarrow> nat \<Rightarrow> bool" where
  "segment h p [] q \<longleftrightarrow> l_next h p = q \<and> l_prev h q = p"
| "segment h p (x # xs) q \<longleftrightarrow> l_next h p = x \<and> l_prev h x = p \<and> segment h x xs q"

definition linked :: "links \<Rightarrow> nat \<Rightarrow> nat list \<Rightarrow> bool" where
  "linked h head xs \<longleftrightarrow> segment h head xs head \<and> distinct (head # xs)"

primrec iterate :: "('x \<Rightarrow> 's \<Rightarrow> 'r + 's) \<Rightarrow> 'x list \<Rightarrow> 's \<Rightarrow> 'r + 's" where
  "iterate body [] s = Inr s"
| "iterate body (x # xs) s = (case body x s of Inl r \<Rightarrow> Inl r | Inr s \<Rightarrow> iterate body xs s)"

lemma segment_append [simp]:
  "segment h p (xs @ y # ys) q \<longleftrightarrow> segment h p xs y \<and> segment h y ys q"
  by (induction xs arbitrary: p) auto

lemma segment_cong:
  assumes "segment h p xs q" "\<And>x. x \<in> set (p # xs) \<Longrightarrow> l_next h' x = l_next h x"
    "\<And>x. x \<in> set (xs @ [q]) \<Longrightarrow> l_prev h' x = l_prev h x"
  shows "segment h' p xs q"
  using assms by (induction xs arbitrary: p) auto

lemma segment_set_other:
  "a \<notin> set (p # xs) \<Longrightarrow> segment (set_next a v h) p xs q = segment h p xs q"
  "a \<notin> set (xs @ [q]) \<Longrightarrow> segment (set_prev a v h) p xs q = segment h p xs q"
  by (induction xs arbitrary: p) auto

lemma segment_ends:
  "segment h p xs q \<Longrightarrow> l_next h p = hd (xs @ [q])" "segment h p xs q \<Longrightarrow> l_prev h q = last (p # xs)"
  by (induction xs arbitrary: p) auto

text \<open>A segment whose last node is made to point elsewhere.\<close>

lemma segment_redirect:
  assumes "segment h p xs q"
    and "\<And>x. x \<in> set (butlast (p # xs)) \<Longrightarrow> l_next h' x = l_next h x" "l_next h' (last (p # xs)) = q'"
    and "\<And>x. x \<in> set xs \<Longrightarrow> l_prev h' x = l_prev h x" "l_prev h' q' = last (p # xs)"
  shows "segment h' p xs q'"
  using assms by (induction xs arbitrary: p) auto

lemma linked_init [simp]: "linked (init_list_head head h) head []"
  by (simp add: linked_def init_list_head_def)

lemma linked_empty: "linked h head xs \<Longrightarrow> list_empty head h \<longleftrightarrow> xs = []"
  using segment_ends(1) [of h head xs head] by (cases xs) (auto simp: linked_def list_empty_def)

lemma linked_prev: "linked h head xs \<Longrightarrow> l_prev h head = last (head # xs)"
  by (auto simp: linked_def dest: segment_ends(2))

lemma linked_next: "linked h head xs \<Longrightarrow> l_next h head = hd (xs @ [head])"
  by (auto simp: linked_def dest: segment_ends(1))

lemma last_not_butlast: "distinct (p # xs) \<Longrightarrow> x \<in> set (butlast (p # xs)) \<Longrightarrow> x \<noteq> last (p # xs)"
  by (induction xs arbitrary: p) (auto split: if_splits dest: in_set_butlastD)

text \<open>The nodes after a position, seen from it.\<close>

definition rest_ok :: "links \<Rightarrow> nat \<Rightarrow> nat list \<Rightarrow> nat \<Rightarrow> bool" where
  "rest_ok h p ys q \<longleftrightarrow> (case ys of [] \<Rightarrow> True | y # ys \<Rightarrow> segment h y ys q)"

lemma segment_append_rest:
  "segment h p (xs @ ys) q \<longleftrightarrow> segment h p xs (hd (ys @ [q])) \<and> rest_ok h p ys q"
  by (cases ys) (simp_all add: rest_ok_def)

lemma segment_rest:
  "segment h p ys q \<longleftrightarrow> l_next h p = hd (ys @ [q]) \<and> l_prev h (hd (ys @ [q])) = p \<and> rest_ok h p ys q"
  by (cases ys) (auto simp: rest_ok_def)

lemma rest_ok_cong:
  assumes "rest_ok h p ys q" "\<And>x. x \<in> set ys \<Longrightarrow> l_next h' x = l_next h x"
    "\<And>x. x \<in> set (tl (ys @ [q])) \<Longrightarrow> l_prev h' x = l_prev h x"
  shows "rest_ok h' p' ys q"
  using assms by (cases ys) (auto simp: rest_ok_def intro: segment_cong)

lemma list_add_linked:
  assumes "linked h head (xs @ ys)" "obj \<notin> set (head # xs @ ys)" "prev = last (head # xs)" "nxt = hd (ys @ [head])"
  shows "linked (list_add obj prev nxt h) head (xs @ obj # ys)"
proof -
  let ?h = "list_add obj prev nxt h"
  have d: "distinct (head # xs @ ys)" and s: "segment h head xs nxt" and r: "rest_ok h head ys head"
    using assms by (auto simp: linked_def segment_append_rest)
  have n: "l_next ?h = (l_next h)(prev := obj, obj := nxt)" and p: "l_prev ?h = (l_prev h)(obj := prev, nxt := obj)"
    by (simp_all add: list_add_def Let_def)
  have prev: "prev \<in> set (head # xs)"
    using assms(3) by simp
  have nxt: "nxt \<in> set (ys @ [head])"
    using assms(4) by (cases ys) auto
  have "segment ?h head xs obj"
  proof (rule segment_redirect [OF s])
    show "l_next ?h x = l_next h x" if "x \<in> set (butlast (head # xs))" for x
    proof -
      have "x \<noteq> prev" "x \<in> set (head # xs)"
        using last_not_butlast [of head xs x] that d assms(3) by (force, blast dest: in_set_butlastD)
      then show ?thesis
        unfolding n using assms(2) by auto
    qed
    show "l_next ?h (last (head # xs)) = obj"
      unfolding n assms(3) [symmetric] using assms(2) prev by auto
    show "l_prev ?h x = l_prev h x" if "x \<in> set xs" for x
      using that d assms(2) nxt by (auto simp: p)
    show "l_prev ?h obj = last (head # xs)"
      unfolding p assms(3) [symmetric] using assms(2) nxt by auto
  qed
  moreover have "rest_ok ?h obj ys head"
  proof (rule rest_ok_cong [OF r])
    show "l_next ?h x = l_next h x" if "x \<in> set ys" for x
      using that d assms(2) prev by (auto simp: n)
    show "l_prev ?h x = l_prev h x" if "x \<in> set (tl (ys @ [head]))" for x
      using that d assms(2,4) by (cases ys) (auto simp: p)
  qed
  moreover have "l_next ?h obj = nxt" "l_prev ?h nxt = obj"
    unfolding n p by auto
  ultimately have "segment ?h head (xs @ obj # ys) head"
    unfolding segment_append segment_rest [of ?h obj] assms(4) [symmetric] by blast
  then show ?thesis
    unfolding linked_def using d assms(2) by auto
qed

lemma list_del_linked:
  assumes "linked h head (xs @ x # ys)"
  shows "linked (list_del x h) head (xs @ ys)"
proof -
  let ?h = "list_del x h" and ?a = "last (head # xs)" and ?b = "hd (ys @ [head])"
  have d: "distinct (head # xs @ x # ys)" and s: "segment h head xs x" and y: "segment h x ys head"
    using assms by (auto simp: linked_def)
  have ends: "l_prev h x = ?a" "l_next h x = ?b"
    using segment_ends(2) [OF s] segment_ends(1) [OF y] by auto
  have a: "?a \<in> set (head # xs)" and b: "?b \<in> set (ys @ [head])"
    using last_in_set [of "head # xs"] by (simp, cases ys) auto
  then have "?a \<noteq> x" "?b \<noteq> x"
    using d by auto
  then have n: "l_next ?h = (l_next h)(?a := ?b, x := x)" and p: "l_prev ?h = (l_prev h)(?b := ?a, x := x)"
    by (simp_all add: list_del_def Let_def ends)
  have "segment ?h head xs ?b"
  proof (rule segment_redirect [OF s])
    show "l_next ?h z = l_next h z" if "z \<in> set (butlast (head # xs))" for z
    proof -
      have "z \<noteq> ?a" "z \<in> set (head # xs)"
        using last_not_butlast [of head xs z] that d by (force, blast dest: in_set_butlastD)
      then show ?thesis
        unfolding n using d by auto
    qed
    show "l_next ?h ?a = ?b"
      using \<open>?a \<noteq> x\<close> by (auto simp: n)
    show "l_prev ?h z = l_prev h z" if "z \<in> set xs" for z
      using that d b by (auto simp: p)
    show "l_prev ?h ?b = ?a"
      using \<open>?b \<noteq> x\<close> by (auto simp: p)
  qed
  moreover have "rest_ok ?h head ys head"
  proof (rule rest_ok_cong)
    show "rest_ok h x ys head"
      using y by (simp add: segment_rest)
    show "l_next ?h z = l_next h z" if "z \<in> set ys" for z
      using that d a by (auto simp: n)
    show "l_prev ?h z = l_prev h z" if "z \<in> set (tl (ys @ [head]))" for z
      using that d by (cases ys) (auto simp: p)
  qed
  ultimately show ?thesis
    using d by (auto simp: linked_def segment_append_rest)
qed

text \<open>\<^verbatim>\<open>list_replace\<close> may read the old pointers from a copy of the node.\<close>

lemma list_replace_linked:
  assumes "linked h head (xs @ x # ys)" "obj \<notin> set (head # xs @ ys)"
    and "l_next h old = l_next h x" "l_prev h old = l_prev h x" "old \<notin> set (head # xs @ ys)" "old \<noteq> obj"
  shows "linked (list_replace old obj h) head (xs @ obj # ys)"
proof -
  let ?h = "list_replace old obj h" and ?a = "last (head # xs)" and ?b = "hd (ys @ [head])"
  have d: "distinct (head # xs @ x # ys)" and s: "segment h head xs x" and y: "segment h x ys head"
    using assms(1) by (auto simp: linked_def)
  have ends: "l_prev h x = ?a" "l_next h x = ?b"
    using segment_ends(2) [OF s] segment_ends(1) [OF y] by auto
  have a: "?a \<in> set (head # xs)" and b: "?b \<in> set (ys @ [head])"
    using last_in_set [of "head # xs"] by (simp, cases ys) auto
  then have ne: "?a \<noteq> obj" "?b \<noteq> obj" "?b \<noteq> old"
    using assms(2,5) by auto
  then have n: "l_next ?h = (l_next h)(obj := ?b, ?a := obj)" and p: "l_prev ?h = (l_prev h)(?b := obj, obj := ?a)"
    using assms(6) by (simp_all add: list_replace_def Let_def ends assms(3,4))
  have "segment ?h head xs obj"
  proof (rule segment_redirect [OF s])
    show "l_next ?h z = l_next h z" if "z \<in> set (butlast (head # xs))" for z
    proof -
      have "z \<noteq> ?a" "z \<in> set (head # xs)"
        using last_not_butlast [of head xs z] that d by (force, blast dest: in_set_butlastD)
      then show ?thesis
        unfolding n using assms(2) by auto
    qed
    show "l_next ?h ?a = obj"
      by (simp add: n)
    show "l_prev ?h z = l_prev h z" if "z \<in> set xs" for z
      using that d b assms(2) by (auto simp: p)
    show "l_prev ?h obj = ?a"
      by (simp add: p)
  qed
  moreover have "rest_ok ?h obj ys head"
  proof (rule rest_ok_cong)
    show "rest_ok h x ys head"
      using y by (simp add: segment_rest)
    show "l_next ?h z = l_next h z" if "z \<in> set ys" for z
      using that d a assms(2) by (auto simp: n)
    show "l_prev ?h z = l_prev h z" if "z \<in> set (tl (ys @ [head]))" for z
      using that d assms(2) by (cases ys) (auto simp: p)
  qed
  ultimately show ?thesis
    using d assms(2) ne by (auto simp: linked_def segment_rest [of ?h obj] n p)
qed

lemma list_add_tail_linked:
  "linked h head xs \<Longrightarrow> obj \<notin> set (head # xs) \<Longrightarrow> linked (list_add_tail obj head h) head (xs @ [obj])"
  using list_add_linked [of h head xs "[]" obj] by (simp add: list_add_tail_def linked_prev)

lemma list_add_head_linked:
  "linked h head xs \<Longrightarrow> obj \<notin> set (head # xs) \<Longrightarrow> linked (list_add_head obj head h) head (obj # xs)"
  using list_add_linked [of h head "[]" xs obj] by (simp add: list_add_head_def linked_next)

lemma list_for_each_entry_linked:
  assumes "linked h head xs"
  shows "list_for_each_entry h head body s = Some (iterate body xs s)"
proof -
  have "segment h p xs head \<Longrightarrow> head \<notin> set xs \<Longrightarrow>
      list_for_each_from h head body (l_next h p) s = Some (iterate body xs s)" for p s
  proof (induction xs arbitrary: p s)
    case Nil
    then show ?case
      by (subst list_for_each_from.simps) simp
  next
    case (Cons x xs)
    then show ?case
      by (subst list_for_each_from.simps) (auto split: sum.split)
  qed
  with assms show ?thesis
    by (auto simp: list_for_each_entry_def linked_def)
qed

subsection \<open>The interface\<close>

text \<open>What the users of the lists rely on: the operations, and the sequence of nodes that a list stands for.\<close>

locale node_list =
  fixes is_list :: "'h \<Rightarrow> 'n \<Rightarrow> 'n list \<Rightarrow> bool"
    and new :: "'n \<Rightarrow> 'h \<Rightarrow> 'h"
    and add_tail :: "'n \<Rightarrow> 'n \<Rightarrow> 'h \<Rightarrow> 'h"
    and add_head :: "'n \<Rightarrow> 'n \<Rightarrow> 'h \<Rightarrow> 'h"
    and del :: "'n \<Rightarrow> 'h \<Rightarrow> 'h"
    and empty :: "'n \<Rightarrow> 'h \<Rightarrow> bool"
    and first :: "'h \<Rightarrow> 'n \<Rightarrow> 'n"
  assumes new_list: "is_list (new l h) l []"
    and tail_list: "is_list h l xs \<Longrightarrow> x \<notin> set (l # xs) \<Longrightarrow> is_list (add_tail x l h) l (xs @ [x])"
    and head_list: "is_list h l xs \<Longrightarrow> x \<notin> set (l # xs) \<Longrightarrow> is_list (add_head x l h) l (x # xs)"
    and del_list: "is_list h l (xs @ x # ys) \<Longrightarrow> is_list (del x h) l (xs @ ys)"
    and empty_list: "is_list h l xs \<Longrightarrow> empty l h \<longleftrightarrow> xs = []"
    and first_list: "is_list h l (x # xs) \<Longrightarrow> first h l = x"
    and distinct_list: "is_list h l xs \<Longrightarrow> distinct (l # xs)"
begin

lemma pop_list: "is_list h l (x # xs) \<Longrightarrow> is_list (del (first h l) h) l xs"
  using del_list [of h l "[]" x xs] first_list by simp

lemma remove_list: "is_list h l xs \<Longrightarrow> x \<in> set xs \<Longrightarrow> is_list (del x h) l (remove1 x xs)"
proof -
  assume l: "is_list h l xs" and x: "x \<in> set xs"
  obtain ys zs where xs: "xs = ys @ x # zs" "x \<notin> set ys"
    using split_list_first [OF x] by blast
  then show ?thesis
    using del_list [OF l [unfolded xs(1)]] by (simp add: remove1_append)
qed

lemma add_all: "is_list h l xs \<Longrightarrow> distinct ys \<Longrightarrow> set ys \<inter> set (l # xs) = {} \<Longrightarrow>
    is_list (fold (\<lambda>y. add_tail y l) ys h) l (xs @ ys)"
proof (induction ys arbitrary: h xs)
  case (Cons y ys)
  then show ?case
    using Cons.IH [OF tail_list [of h l xs y]] by auto
qed simp

lemma pop_all: "is_list h l (xs @ ys) \<Longrightarrow> is_list (((\<lambda>h. del (first h l) h) ^^ length xs) h) l ys"
proof (induction xs arbitrary: h)
  case (Cons x xs)
  then show ?case
    using Cons.IH [OF pop_list [of h l x "xs @ ys"]]
    by (simp only: funpow_Suc_right o_apply list.size(4) append_Cons add_0_right add_Suc_right)
qed simp

text \<open>First in, first out.\<close>

lemma fifo:
  assumes "is_list h l xs" "distinct ys" "set ys \<inter> set (l # xs) = {}"
  shows "is_list (((\<lambda>h. del (first h l) h) ^^ length xs) (fold (\<lambda>y. add_tail y l) ys h)) l ys"
  using pop_all [OF add_all [OF assms]] .

end

interpretation nodes: node_list linked init_list_head list_add_tail list_add_head list_del list_empty l_next
proof unfold_locales
  show "linked h l (x # xs) \<Longrightarrow> l_next h l = x" for h l x xs
    using linked_next [of h l "x # xs"] by simp
  show "linked h l xs \<Longrightarrow> distinct (l # xs)" for h l xs
    by (simp add: linked_def)
qed (auto intro: list_add_tail_linked list_add_head_linked list_del_linked simp: linked_empty)

text \<open>C15. The pointer operations do on the list of nodes what their names say: insertion between two
  neighbours, at the tail and at the head, removal, replacement of a node through a copy of it, the
  test for emptiness, and a walk that visits the nodes in order.\<close>

theorem list_ops_refine:
  assumes "linked h head (xs @ x # ys)" "obj \<notin> set (head # xs @ x # ys)"
    and "l_next h old = l_next h x" "l_prev h old = l_prev h x" "old \<notin> set (head # obj # xs @ ys)"
  shows "linked (list_add obj (last (head # xs)) x h) head (xs @ obj # x # ys) \<and>
    linked (list_add_tail obj head h) head (xs @ x # ys @ [obj]) \<and>
    linked (list_add_head obj head h) head (obj # xs @ x # ys) \<and>
    linked (list_del x h) head (xs @ ys) \<and>
    linked (list_replace old obj h) head (xs @ obj # ys) \<and>
    linked (init_list_head obj h) obj [] \<and> list_empty obj (init_list_head obj h) \<and> \<not> list_empty head h \<and>
    list_for_each_entry h head body s = Some (iterate body (xs @ x # ys) s)"
  using list_add_linked [of h head xs "x # ys" obj] list_add_tail_linked [OF assms(1,2)]
    list_add_head_linked [OF assms(1,2)] list_del_linked [OF assms(1)] list_replace_linked [of h head xs x ys obj old]
    linked_empty [OF assms(1)] linked_empty [OF linked_init [of obj h]] list_for_each_entry_linked [OF assms(1)] assms
  by simp

theorem list_ops_refine_witness:
  "linked (list_del 2 (list_add_tail 3 0 (list_add_tail 2 0 (list_add_tail 1 0 (init_list_head 0
     \<lparr> l_next = (\<lambda>_. 0), l_prev = (\<lambda>_. 0) \<rparr>))))) 0 ([1] @ [3])"
proof -
  let ?h0 = "init_list_head 0 \<lparr> l_next = (\<lambda>_. 0), l_prev = (\<lambda>_. 0) \<rparr>"
  let ?h = "list_add_tail 3 0 (list_add_tail 2 0 (list_add_tail 1 0 ?h0))"
  have "linked ?h 0 ((([] @ [1]) @ [2]) @ [3])"
    by (intro list_add_tail_linked linked_init) simp_all
  then have h: "linked ?h 0 ([1] @ 2 # [3])"
    by simp
  show ?thesis
    using list_ops_refine [OF h, of 4 2 "\<lambda>_ s. Inr s :: nat + nat" 0] by simp
qed

end
