(* ===== verification/Carlfw.thy ===== *)
theory Carlfw
  imports ListHead
begin

text \<open>Firmware images on the host (tools/lib/carlfw.c, include/shared/fwdesc.h): an image is the firmware
  followed by a chain of descriptors. A loaded image keeps the descriptors as entries of a
  \<^verbatim>\<open>list_head\<close> list at address 0; the local copy of a node in \<^verbatim>\<open>carlfw_desc_mod_len\<close> is at address 1, and
  the n-th allocation gives the address n + 2. \<^verbatim>\<open>None\<close> is behaviour the language leaves undefined
  (reads outside of a block), \<^verbatim>\<open>Inl\<close> an error code.\<close>

datatype errno = EINVAL | ENOMEM | ENODATA | EMSGSIZE | E2BIG | EIO

type_synonym 'a outcome = "(errno + 'a) option"

definition obind :: "'a outcome \<Rightarrow> ('a \<Rightarrow> 'b outcome) \<Rightarrow> 'b outcome" where
  "obind m f = (case m of None \<Rightarrow> None | Some (Inl e) \<Rightarrow> Some (Inl e) | Some (Inr x) \<Rightarrow> f x)"

lemma obind_simps [simp]:
  "obind None f = None" "obind (Some (Inl e)) f = Some (Inl e)" "obind (Some (Inr x)) f = f x"
  by (simp_all add: obind_def)

subsection \<open>Descriptors\<close>

abbreviation (input) OTUS_MAGIC :: "u8 list" where "OTUS_MAGIC \<equiv> [0x4f, 0x54, 0x41, 0x52]"
abbreviation (input) CHK_MAGIC :: "u8 list" where "CHK_MAGIC \<equiv> [0x43, 0x48, 0x4b, 0]"
abbreviation (input) LAST_MAGIC :: "u8 list" where "LAST_MAGIC \<equiv> [0x4c, 0x41, 0x53, 0x54]"
abbreviation (input) CARL9170FW_DESC_MAX_LENGTH :: nat where "CARL9170FW_DESC_MAX_LENGTH \<equiv> 8192"
abbreviation (input) CARL9170FW_OTUS_DESC_CUR_VER :: u8 where "CARL9170FW_OTUS_DESC_CUR_VER \<equiv> 7"
abbreviation (input) CARL9170FW_CHK_DESC_CUR_VER :: u8 where "CARL9170FW_CHK_DESC_CUR_VER \<equiv> 2"
abbreviation (input) CARL9170FW_LAST_DESC_CUR_VER :: u8 where "CARL9170FW_LAST_DESC_CUR_VER \<equiv> 2"

text \<open>\<^verbatim>\<open>struct carl9170fw_desc_head\<close>: magic, length, the oldest and the own version.\<close>

definition desc_magic :: "u8 list \<Rightarrow> u8 list" where "desc_magic d = take 4 d"
definition desc_len :: "u8 list \<Rightarrow> nat" where "desc_len d = unat (le16 (d ! 4) (d ! 5))"
definition desc_min_ver :: "u8 list \<Rightarrow> u8" where "desc_min_ver d = d ! 6"
definition desc_cur_ver :: "u8 list \<Rightarrow> u8" where "desc_cur_ver d = d ! 7"

definition fill_desc :: "u8 list \<Rightarrow> u16 \<Rightarrow> u8 \<Rightarrow> u8 \<Rightarrow> u8 list" where
  "fill_desc magic len min_ver cur_ver = magic @ bytes16 len @ [min_ver, cur_ver]"

definition CHECK_HDR_VERSION :: "u8 list \<Rightarrow> u8 \<Rightarrow> bool" where
  "CHECK_HDR_VERSION head ver \<longleftrightarrow> desc_cur_ver head < ver \<or> desc_min_ver head > ver"

definition carl9170fw_desc_cmp :: "u8 list \<Rightarrow> u8 list \<Rightarrow> nat \<Rightarrow> u8 \<Rightarrow> bool" where
  "carl9170fw_desc_cmp head descid min_len ver \<longleftrightarrow>
     desc_magic head = descid \<and> \<not> CHECK_HDR_VERSION head ver \<and> desc_len head \<ge> min_len"

definition carl9170fw_size_check :: "nat \<Rightarrow> bool" where
  "carl9170fw_size_check len \<longleftrightarrow> len \<le> 16384 \<and> len \<ge> 32"

subsection \<open>The loaded image\<close>

record carlfw_file =
  fl_name :: "string option"
  fl_data :: "u8 list"

text \<open>The process: the files, which of them can be written, and the allocations so far with the ones
  that fail.\<close>

record process =
  pr_files :: "string \<Rightarrow> u8 list option"
  pr_writable :: "string \<Rightarrow> bool"
  pr_oom :: "nat \<Rightarrow> bool"
  pr_allocs :: nat

record carlfw =
  fw_fw :: carlfw_file
  fw_hdr :: carlfw_file
  fw_links :: links
  fw_entries :: "nat \<Rightarrow> u8 list"
  fw_desc_list_entries :: u32
  fw_desc_list_len :: u32
  fw_process :: process

definition malloc :: "carlfw \<Rightarrow> nat option \<times> carlfw" where
  "malloc fw =
     (let n = pr_allocs (fw_process fw)
      in (if pr_oom (fw_process fw) n then None else Some (n + 2), fw_process_update (pr_allocs_update Suc) fw))"

definition carlfw_entry_unlink :: "nat \<Rightarrow> carlfw \<Rightarrow> carlfw" where
  "carlfw_entry_unlink entry fw =
     fw\<lparr> fw_desc_list_entries := fw_desc_list_entries fw - 1,
         fw_desc_list_len := fw_desc_list_len fw - of_nat (desc_len (fw_entries fw entry)),
         fw_links := list_del entry (fw_links fw) \<rparr>"

definition carlfw_entry_del :: "nat \<Rightarrow> carlfw \<Rightarrow> carlfw" where
  "carlfw_entry_del entry fw = carlfw_entry_unlink entry fw"

definition carlfw_walk_descs :: "(nat \<Rightarrow> 's \<Rightarrow> 'r + 's) \<Rightarrow> carlfw \<Rightarrow> 's \<Rightarrow> ('r + 's) option" where
  "carlfw_walk_descs body fw s = list_for_each_entry (fw_links fw) 0 body s"

definition carlfw_find_entry :: "u8 list \<Rightarrow> nat \<Rightarrow> u8 \<Rightarrow> carlfw \<Rightarrow> nat option option" where
  "carlfw_find_entry descid len ver fw =
     (case carlfw_walk_descs (\<lambda>iter s. if carl9170fw_desc_cmp (fw_entries fw iter) descid len ver
              then Inl iter else Inr s) fw () of
        None \<Rightarrow> None | Some (Inl e) \<Rightarrow> Some (Some e) | Some (Inr _) \<Rightarrow> Some None)"

text \<open>The source of the copy is a block of bytes that starts at the descriptor.\<close>

definition carlfw_entry_add_prepare :: "u8 list \<Rightarrow> carlfw \<Rightarrow> (nat \<times> carlfw) outcome" where
  "carlfw_entry_add_prepare desc fw =
     (if length desc < 6 then None
      else let len = desc_len desc
           in if len < 8 then Some (Inl EINVAL)
              else case malloc fw of
                (None, fw) \<Rightarrow> Some (Inl ENOMEM)
              | (Some tmp, fw) \<Rightarrow>
                  if length desc < len then None
                  else Some (Inr (tmp, fw\<lparr> fw_desc_list_entries := fw_desc_list_entries fw + 1,
                         fw_desc_list_len := fw_desc_list_len fw + of_nat len,
                         fw_entries := (fw_entries fw)(tmp := take len desc) \<rparr>)))"

definition carlfw_find_desc :: "u8 list \<Rightarrow> nat \<Rightarrow> u8 \<Rightarrow> carlfw \<Rightarrow> nat option option" where
  "carlfw_find_desc descid len ver fw = carlfw_find_entry descid len ver fw"

definition carlfw_desc_add_tail :: "u8 list \<Rightarrow> carlfw \<Rightarrow> carlfw outcome" where
  "carlfw_desc_add_tail desc fw =
     obind (carlfw_entry_add_prepare desc fw) (\<lambda>(tmp, fw).
       Some (Inr (fw_links_update (list_add_tail tmp 0) fw)))"

definition carlfw_desc_add :: "u8 list \<Rightarrow> nat \<Rightarrow> nat \<Rightarrow> carlfw \<Rightarrow> carlfw outcome" where
  "carlfw_desc_add desc prev nxt fw =
     obind (carlfw_entry_add_prepare desc fw) (\<lambda>(tmp, fw).
       Some (Inr (fw_links_update (list_add tmp prev nxt) fw)))"

definition carlfw_desc_add_before :: "u8 list \<Rightarrow> nat \<Rightarrow> carlfw \<Rightarrow> carlfw outcome" where
  "carlfw_desc_add_before desc pos fw = carlfw_desc_add desc (l_prev (fw_links fw) pos) pos fw"

definition carlfw_desc_unlink :: "nat \<Rightarrow> carlfw \<Rightarrow> carlfw" where
  "carlfw_desc_unlink desc fw = carlfw_entry_unlink desc fw"

definition carlfw_desc_del :: "nat \<Rightarrow> carlfw \<Rightarrow> carlfw" where
  "carlfw_desc_del desc fw = carlfw_entry_del desc fw"

text \<open>\<^verbatim>\<open>realloc\<close>: the bytes beyond the old ones are not initialised; \<^verbatim>\<open>junk\<close> is what is there.\<close>

definition resize :: "(nat \<Rightarrow> u8) \<Rightarrow> nat \<Rightarrow> u8 list \<Rightarrow> u8 list" where
  "resize junk n xs = map (\<lambda>i. if i < length xs then xs ! i else junk i) [0..<n]"

definition carlfw_desc_mod_len :: "(nat \<Rightarrow> u8) \<Rightarrow> nat \<Rightarrow> int \<Rightarrow> carlfw \<Rightarrow> (nat \<times> carlfw) outcome" where
  "carlfw_desc_mod_len junk desc len fw =
     (let new_len = sint (word_of_int (int (desc_len (fw_entries fw desc)) + len) :: u32)
      in if new_len < 8 then Some (Inl EINVAL)
         else if new_len > int CARL9170FW_DESC_MAX_LENGTH then Some (Inl E2BIG)
         else
           let h = fw_links fw;
               fw = fw\<lparr> fw_links := set_prev 1 (l_prev h desc) (set_next 1 (l_next h desc) h) \<rparr>
           in case malloc fw of
                (None, fw) \<Rightarrow> Some (Inl ENOMEM)
              | (Some obj, fw) \<Rightarrow>
                  let fw = fw_links_update (list_replace 1 obj) fw;
                      bytes = resize junk (nat new_len) (fw_entries fw desc);
                      w = bytes16 (word_of_int new_len);
                      bytes = bytes[4 := w ! 0, 5 := w ! 1]
                  in Some (Inr (obj, fw\<lparr> fw_entries := (fw_entries fw)(obj := bytes),
                       fw_desc_list_len := fw_desc_list_len fw + word_of_int len \<rparr>)))"

definition carlfw_desc_next :: "nat option \<Rightarrow> carlfw \<Rightarrow> nat option" where
  "carlfw_desc_next pos fw =
     (let entry = (case pos of None \<Rightarrow> 0 | Some p \<Rightarrow> p)
      in if list_at_tail entry 0 (fw_links fw) then None else Some (l_next (fw_links fw) entry))"

subsection \<open>Searching and parsing\<close>

text \<open>The backward scan for a magic: \<^verbatim>\<open>char\<close> is signed, the bytes of the magic are not.\<close>

function scan_loop :: "u8 list \<Rightarrow> u8 list \<Rightarrow> int \<Rightarrow> nat \<Rightarrow> int \<times> nat" where
  "scan_loop descid data scan found =
     (if scan > 0 then
        let found = (if sint (data ! nat scan) = uint (descid ! (3 - found)) then found + 1 else 0)
        in if found = 4 then (scan, found) else scan_loop descid data (scan - 1) found
      else (scan, found))"
  by auto
termination by (relation "measure (\<lambda>(_, _, scan, _). nat scan)") auto

declare scan_loop.simps [simp del]

text \<open>\<^verbatim>\<open>__carlfw_find_desc\<close> gives the offset of the descriptor. The start of the scan is computed with
  \<^verbatim>\<open>size_t\<close> and kept in an int.\<close>

definition carlfw_scan_desc :: "u8 list \<Rightarrow> u8 list \<Rightarrow> nat \<Rightarrow> u8 \<Rightarrow> nat option" where
  "carlfw_scan_desc data descid len ver =
     (let (scan, found) = scan_loop descid data (sint (word_of_int (int (length data) - 1 - (8 - 4)) :: u32)) 0
      in if found = 4 then
           let tmp = drop (nat scan) data; tmp_desc_len = desc_len tmp
           in if \<not> CHECK_HDR_VERSION tmp ver \<and> nat scan + tmp_desc_len \<le> length data \<and> tmp_desc_len \<ge> len
              then Some (nat scan) else None
         else None)"

text \<open>The chain from the OTUS descriptor on. When its first descriptor already ends the loop, the result is
  uninitialised.\<close>

definition hdr_goes_on :: "u8 list \<Rightarrow> bool" where
  "hdr_goes_on d \<longleftrightarrow> desc_magic d \<noteq> LAST_MAGIC \<and> desc_len d \<ge> 8 \<and> desc_len d < CARL9170FW_DESC_MAX_LENGTH"

function parse_loop :: "u8 list \<Rightarrow> carlfw \<Rightarrow> carlfw outcome" where
  "parse_loop iter fw =
     (if length iter < 4 \<or> desc_magic iter \<noteq> LAST_MAGIC \<and> length iter < 6 then None
      else if hdr_goes_on iter then obind (carlfw_desc_add_tail iter fw) (parse_loop (drop (desc_len iter) iter))
      else Some (Inr fw))"
  by auto
termination by (relation "measure (\<lambda>(iter, _). length iter)") (auto simp: hdr_goes_on_def)

declare parse_loop.simps [simp del]

definition carlfw_parse_descs :: "u8 list \<Rightarrow> carlfw \<Rightarrow> carlfw outcome" where
  "carlfw_parse_descs otus_desc fw = (if hdr_goes_on otus_desc then parse_loop otus_desc fw else None)"

subsection \<open>Checksums\<close>

definition crc32_bit :: "u32 \<Rightarrow> u32" where
  "crc32_bit crc = drop_bit 1 crc XOR (if crc AND 1 \<noteq> 0 then 0xedb88320 else 0)"

definition crc32_le :: "u32 \<Rightarrow> u8 list \<Rightarrow> u32" where
  "crc32_le crc p = fold (\<lambda>b crc. (crc32_bit ^^ 8) (crc XOR ucast b)) p crc"

abbreviation is_chk :: "u8 list \<Rightarrow> bool" where
  "is_chk d \<equiv> carl9170fw_desc_cmp d CHK_MAGIC 16 CARL9170FW_CHK_DESC_CUR_VER"

definition le32_at :: "u8 list \<Rightarrow> nat \<Rightarrow> u32" where
  "le32_at d i = le32 (d ! i) (d ! (i + 1)) (d ! (i + 2)) (d ! (i + 3))"

definition carlfw_check_crc32s :: "carlfw \<Rightarrow> unit outcome" where
  "carlfw_check_crc32s fw =
     (case carlfw_find_desc CHK_MAGIC 16 CARL9170FW_CHK_DESC_CUR_VER fw of
        None \<Rightarrow> None
      | Some None \<Rightarrow> Some (Inl ENODATA)
      | Some (Some chk) \<Rightarrow>
          let chk_desc = fw_entries fw chk; crc32 = crc32_le (NOT 0) (fl_data (fw_fw fw))
          in if crc32 \<noteq> le32_at chk_desc 8 then Some (Inl EINVAL)
             else case carlfw_walk_descs (\<lambda>iter crc32. let d = fw_entries fw iter
                    in if is_chk d then Inr crc32 else Inr (crc32_le crc32 (take (desc_len d) d))) fw crc32 of
                None \<Rightarrow> None | Some (Inl e) \<Rightarrow> Some (Inl e)
              | Some (Inr crc32) \<Rightarrow> if crc32 \<noteq> le32_at chk_desc 12 then Some (Inl EINVAL) else Some (Inr ()))"

text \<open>Operations that leave a changed image behind an error give the error beside the image.\<close>

definition carlfw_apply_checksums :: "carlfw \<Rightarrow> (errno option \<times> carlfw) option" where
  "carlfw_apply_checksums fw =
     (case carlfw_find_desc CHK_MAGIC 16 CARL9170FW_CHK_DESC_CUR_VER fw of
        None \<Rightarrow> None
      | Some chk \<Rightarrow>
          let fw = (case chk of None \<Rightarrow> fw | Some chk \<Rightarrow> carlfw_desc_del chk fw);
              max_len = fw_desc_list_len fw;
              fw_crc32 = crc32_le (NOT 0) (fl_data (fw_fw fw))
          in case carlfw_walk_descs (\<lambda>iter (crc32, len). let d = fw_entries fw iter; elen = of_nat (desc_len d)
                    in if max_len < len + elen then Inl EMSGSIZE
                       else Inr (crc32_le crc32 (take (desc_len d) d), len + elen)) fw (fw_crc32, 0 :: u32) of
               None \<Rightarrow> None
             | Some (Inl e) \<Rightarrow> Some (Some e, fw)
             | Some (Inr (hdr_crc32, _)) \<Rightarrow>
                 (case carlfw_desc_add_tail (fill_desc CHK_MAGIC 16 1 2 @ bytes32 fw_crc32 @ bytes32 hdr_crc32) fw of
                    None \<Rightarrow> None | Some (Inl e) \<Rightarrow> Some (Some e, fw) | Some (Inr fw) \<Rightarrow> Some (None, fw)))"

subsection \<open>Loading\<close>

definition carlfw_load_file :: "string \<Rightarrow> carlfw \<Rightarrow> (carlfw_file \<times> carlfw) outcome" where
  "carlfw_load_file name fw =
     (case pr_files (fw_process fw) name of
        None \<Rightarrow> Some (Inl EIO)
      | Some data \<Rightarrow>
          (case malloc fw of
             (None, fw) \<Rightarrow> Some (Inl ENOMEM)
           | (Some _, fw) \<Rightarrow>
               if data = [] then Some (Inr (\<lparr> fl_name = None, fl_data = [] \<rparr>, fw))
               else case malloc fw of
                 (None, fw) \<Rightarrow> Some (Inl ENOMEM)
               | (Some _, fw) \<Rightarrow> Some (Inr (\<lparr> fl_name = Some name, fl_data = data \<rparr>, fw))))"

definition calloc_carlfw :: "process \<Rightarrow> carlfw" where
  "calloc_carlfw p = \<lparr> fw_fw = \<lparr> fl_name = None, fl_data = [] \<rparr>, fw_hdr = \<lparr> fl_name = None, fl_data = [] \<rparr>,
     fw_links = \<lparr> l_next = (\<lambda>_. 0), l_prev = (\<lambda>_. 0) \<rparr>, fw_entries = (\<lambda>_. []), fw_desc_list_entries = 0,
     fw_desc_list_len = 0, fw_process = p \<rparr>"

definition cut_descs :: "nat \<Rightarrow> nat \<Rightarrow> u8 list \<Rightarrow> u8 list" where
  "cut_descs otus fin data = take otus data @ drop fin data"

definition carlfw_load :: "string \<Rightarrow> process \<Rightarrow> carlfw outcome" where
  "carlfw_load basename p =
     (case malloc (calloc_carlfw p) of
        (None, _) \<Rightarrow> Some (Inl ENOMEM)
      | (Some _, fw) \<Rightarrow>
          let fw = fw_links_update (init_list_head 0) fw
          in obind (carlfw_load_file basename fw) (\<lambda>(file, fw).
            let fw = fw\<lparr> fw_fw := file \<rparr>;
                own_hdr = fl_name (fw_hdr fw) \<noteq> None;
                data = fl_data (if own_hdr then fw_hdr fw else fw_fw fw)
            in case (carlfw_scan_desc data OTUS_MAGIC 32 CARL9170FW_OTUS_DESC_CUR_VER,
                     carlfw_scan_desc data LAST_MAGIC 8 CARL9170FW_LAST_DESC_CUR_VER) of
                 (Some otus_desc, Some last_desc) \<Rightarrow>
                   if otus_desc > last_desc then Some (Inl ENODATA)
                   else obind (carlfw_parse_descs (drop otus_desc data) fw) (\<lambda>fw.
                     let data = cut_descs otus_desc (last_desc + 8) data; (ptr, fw) = malloc fw
                     in if ptr = None \<and> data \<noteq> [] then Some (Inl ENOMEM)
                        else
                          let fw = (if own_hdr then fw_hdr_update (fl_data_update (\<lambda>_. data)) fw
                                    else fw_fw_update (fl_data_update (\<lambda>_. data)) fw)
                          in case carlfw_check_crc32s fw of
                               None \<Rightarrow> None
                             | Some (Inl e) \<Rightarrow> if e \<noteq> ENODATA then Some (Inl e) else Some (Inr fw)
                             | Some (Inr _) \<Rightarrow> Some (Inr fw))
               | _ \<Rightarrow> Some (Inl ENODATA)))"

subsection \<open>Storing\<close>

definition write_file :: "string \<Rightarrow> u8 list \<Rightarrow> carlfw \<Rightarrow> carlfw" where
  "write_file name bytes fw = fw_process_update (pr_files_update (\<lambda>m. m(name := Some bytes))) fw"

text \<open>The descriptors as they are appended to what the file holds so far.\<close>

definition store_descs :: "carlfw \<Rightarrow> u8 list \<Rightarrow> (u8 list + u8 list) option" where
  "store_descs fw out = carlfw_walk_descs (\<lambda>iter out. let d = fw_entries fw iter
     in if desc_len d > CARL9170FW_DESC_MAX_LENGTH then Inl out else Inr (out @ take (desc_len d) d)) fw out"

text \<open>Writing an empty firmware gives no item, and \<^verbatim>\<open>errno\<close>, which is 0 then. A missing name is a null
  pointer for \<^verbatim>\<open>fopen\<close>.\<close>

definition carlfw_store :: "carlfw \<Rightarrow> (errno option \<times> carlfw) option" where
  "carlfw_store fw =
     (case carlfw_apply_checksums fw of
        None \<Rightarrow> None
      | Some (Some e, fw) \<Rightarrow> Some (Some e, fw)
      | Some (None, fw) \<Rightarrow>
          (case fl_name (fw_fw fw) of
             None \<Rightarrow> None
           | Some name \<Rightarrow>
               if \<not> pr_writable (fw_process fw) name then Some (Some EIO, fw)
               else let fw = write_file name (fl_data (fw_fw fw)) fw
                    in if fl_data (fw_fw fw) = [] then Some (None, fw)
                       else
                         let target = (case fl_name (fw_hdr fw) of None \<Rightarrow> name | Some hdr \<Rightarrow> hdr)
                         in if \<not> pr_writable (fw_process fw) target then None
                            else case store_descs fw (if fl_name (fw_hdr fw) = None then fl_data (fw_fw fw) else []) of
                                None \<Rightarrow> None
                              | Some (Inl out) \<Rightarrow> Some (Some E2BIG, write_file target out fw)
                              | Some (Inr out) \<Rightarrow> Some (None, write_file target (out @ fill_desc LAST_MAGIC 8 1 2) fw)))"

subsection \<open>Room for other images\<close>

text \<open>The size check takes an unsigned int.\<close>

definition carlfw_mod_tailroom :: "(nat \<Rightarrow> u8) \<Rightarrow> int \<Rightarrow> carlfw \<Rightarrow> (nat \<times> carlfw) outcome" where
  "carlfw_mod_tailroom junk len fw =
     (let data = fl_data (fw_fw fw); new_len = int (length data) + len
      in if \<not> carl9170fw_size_check (unat (word_of_int new_len :: u32)) then Some (Inl EINVAL)
         else case malloc fw of
           (None, fw) \<Rightarrow> Some (Inl ENOMEM)
         | (Some _, fw) \<Rightarrow>
             if new_len < 0 then Some (Inl ENOMEM)
             else Some (Inr (length data, fw_fw_update (fl_data_update (\<lambda>_. resize junk (nat new_len) data)) fw)))"

text \<open>With a negative length the first \<^verbatim>\<open>memmove\<close> reads in front of the block.\<close>

definition carlfw_mod_headroom :: "(nat \<Rightarrow> u8) \<Rightarrow> int \<Rightarrow> carlfw \<Rightarrow> carlfw outcome" where
  "carlfw_mod_headroom junk len fw =
     (let new_len = int (length (fl_data (fw_fw fw))) + len
      in if \<not> carl9170fw_size_check (unat (word_of_int new_len :: u32)) then Some (Inl EINVAL)
         else if len < 0 then None
         else obind (carlfw_mod_tailroom junk len fw) (\<lambda>(_, fw).
           Some (Inr (if len > 0 then fw_fw_update (fl_data_update (\<lambda>d.
                        take (nat len) d @ take (nat new_len - nat len) d)) fw else fw))))"

definition carlfw_get_fw :: "carlfw \<Rightarrow> u8 list \<times> nat" where
  "carlfw_get_fw fw = (fl_data (fw_fw fw), length (fl_data (fw_fw fw)))"

definition carlfw_get_descs_num :: "carlfw \<Rightarrow> u32" where
  "carlfw_get_descs_num fw = fw_desc_list_entries fw"

definition carlfw_get_descs_size :: "carlfw \<Rightarrow> u32" where
  "carlfw_get_descs_size fw = fw_desc_list_len fw"

subsection \<open>The image as a list of descriptors\<close>

definition carlfw_ok :: "carlfw \<Rightarrow> nat list \<Rightarrow> bool" where
  "carlfw_ok fw xs \<longleftrightarrow> linked (fw_links fw) 0 xs \<and>
     (\<forall>x \<in> set xs. 2 \<le> x \<and> x < pr_allocs (fw_process fw) + 2 \<and> 8 \<le> desc_len (fw_entries fw x) \<and>
        length (fw_entries fw x) = desc_len (fw_entries fw x)) \<and>
     fw_desc_list_entries fw = of_nat (length xs) \<and>
     fw_desc_list_len fw = of_nat (sum_list (map (desc_len \<circ> fw_entries fw) xs))"

text \<open>What adding and removing descriptors leaves alone.\<close>

definition same_image :: "carlfw \<Rightarrow> carlfw \<Rightarrow> bool" where
  "same_image fw fw' \<longleftrightarrow> fw_fw fw' = fw_fw fw \<and> fw_hdr fw' = fw_hdr fw \<and>
     pr_files (fw_process fw') = pr_files (fw_process fw) \<and>
     pr_writable (fw_process fw') = pr_writable (fw_process fw) \<and> pr_oom (fw_process fw') = pr_oom (fw_process fw)"

lemma same_image_refl [simp]: "same_image fw fw"
  by (simp add: same_image_def)

lemma same_image_trans: "same_image a b \<Longrightarrow> same_image b c \<Longrightarrow> same_image a c"
  by (simp add: same_image_def)

lemma iterate_Inr [simp]: "iterate (\<lambda>x s. Inr (g x s)) xs s = Inr (fold g xs s)"
  by (induction xs arbitrary: s) simp_all

lemma iterate_find: "iterate (\<lambda>x s. if P x then Inl x else Inr s) xs s =
    (case find P xs of None \<Rightarrow> Inr s | Some x \<Rightarrow> Inl x)"
  by (induction xs) simp_all

lemma walk_ok: "carlfw_ok fw xs \<Longrightarrow> carlfw_walk_descs body fw s = Some (iterate body xs s)"
  by (simp add: carlfw_walk_descs_def carlfw_ok_def list_for_each_entry_linked)

lemma find_ok:
  "carlfw_ok fw xs \<Longrightarrow> carlfw_find_desc magic n v fw = Some (find (\<lambda>x. carl9170fw_desc_cmp (fw_entries fw x) magic n v) xs)"
  by (simp add: carlfw_find_desc_def carlfw_find_entry_def walk_ok iterate_find split: option.split)

lemma desc_len_take: "6 \<le> n \<Longrightarrow> desc_len (take n d) = desc_len d"
  by (simp add: desc_len_def)

lemma desc_len_append: "6 \<le> length d \<Longrightarrow> desc_len (d @ e) = desc_len d"
  by (simp add: desc_len_def nth_append)

lemma desc_magic_append: "4 \<le> length d \<Longrightarrow> desc_magic (d @ e) = desc_magic d"
  by (simp add: desc_magic_def)

lemma add_tail_ok:
  assumes ok: "carlfw_ok fw xs" and oom: "\<not> pr_oom (fw_process fw) (pr_allocs (fw_process fw))"
    and d: "8 \<le> desc_len d" "desc_len d \<le> length d"
  shows "\<exists>fw' x. carlfw_desc_add_tail d fw = Some (Inr fw') \<and> carlfw_ok fw' (xs @ [x]) \<and>
    map (fw_entries fw') (xs @ [x]) = map (fw_entries fw) xs @ [take (desc_len d) d] \<and> same_image fw fw'"
proof -
  let ?x = "pr_allocs (fw_process fw) + 2"
  define fw' where "fw' = fw\<lparr> fw_desc_list_entries := fw_desc_list_entries fw + 1,
    fw_desc_list_len := fw_desc_list_len fw + of_nat (desc_len d), fw_entries := (fw_entries fw)(?x := take (desc_len d) d),
    fw_links := list_add_tail ?x 0 (fw_links fw), fw_process := pr_allocs_update Suc (fw_process fw) \<rparr>"
  have new: "?x \<notin> set (0 # xs)"
    using ok by (auto simp: carlfw_ok_def)
  have run: "carlfw_desc_add_tail d fw = Some (Inr fw')"
    using d oom by (cases fw) (simp add: carlfw_desc_add_tail_def carlfw_entry_add_prepare_def malloc_def Let_def fw'_def)
  have e: "fw_entries fw' x = fw_entries fw x" if "x \<in> set xs" for x
    using new that by (auto simp: fw'_def)
  have ok': "carlfw_ok fw' (xs @ [?x])"
    unfolding carlfw_ok_def
  proof (intro conjI ballI)
    show "linked (fw_links fw') 0 (xs @ [?x])"
      using ok new by (simp add: fw'_def carlfw_ok_def list_add_tail_linked)
    show "2 \<le> x" "x < pr_allocs (fw_process fw') + 2" "8 \<le> desc_len (fw_entries fw' x)"
        "length (fw_entries fw' x) = desc_len (fw_entries fw' x)" if "x \<in> set (xs @ [?x])" for x
      using that ok d e by (auto simp: carlfw_ok_def fw'_def desc_len_take)
    have m: "map (desc_len \<circ> fw_entries fw') xs = map (desc_len \<circ> fw_entries fw) xs"
      using e by simp
    show "fw_desc_list_len fw' = of_nat (sum_list (map (desc_len \<circ> fw_entries fw') (xs @ [?x])))"
      unfolding map_append m using ok d by (simp add: carlfw_ok_def fw'_def desc_len_take)
    show "fw_desc_list_entries fw' = of_nat (length (xs @ [?x]))"
      using ok by (simp add: carlfw_ok_def fw'_def)
  qed
  have "map (fw_entries fw') (xs @ [?x]) = map (fw_entries fw) xs @ [take (desc_len d) d]"
    using e by (simp add: fw'_def)
  moreover have "same_image fw fw'"
    by (simp add: same_image_def fw'_def)
  ultimately show ?thesis
    using run ok' by blast
qed

lemma del_ok:
  assumes "carlfw_ok fw (xs @ x # ys)"
  shows "carlfw_ok (carlfw_desc_del x fw) (xs @ ys)" "fw_entries (carlfw_desc_del x fw) = fw_entries fw"
    "same_image fw (carlfw_desc_del x fw)"
  using assms list_del_linked [of "fw_links fw" 0 xs x ys]
  by (auto simp: carlfw_ok_def carlfw_desc_del_def carlfw_entry_del_def carlfw_entry_unlink_def same_image_def)

text \<open>A chain of descriptors in a file, closed by a LAST descriptor, is parsed completely.\<close>

definition chainable :: "u8 list \<Rightarrow> bool" where
  "chainable d \<longleftrightarrow> 8 \<le> desc_len d \<and> length d = desc_len d \<and> desc_len d < CARL9170FW_DESC_MAX_LENGTH \<and> desc_magic d \<noteq> LAST_MAGIC"

lemma parse_loop_chain:
  assumes "carlfw_ok fw xs" "\<And>n. \<not> pr_oom (fw_process fw) n" "\<And>d. d \<in> set ds \<Longrightarrow> chainable d"
    and "4 \<le> length t" "desc_magic t = LAST_MAGIC"
  shows "\<exists>fw' ys. parse_loop (concat ds @ t) fw = Some (Inr fw') \<and> carlfw_ok fw' (xs @ ys) \<and>
    map (fw_entries fw') (xs @ ys) = map (fw_entries fw) xs @ ds \<and> same_image fw fw'"
  using assms(1-3)
proof (induction ds arbitrary: fw xs)
  case Nil
  have "parse_loop t fw = Some (Inr fw)"
    using assms(4,5) by (subst parse_loop.simps) (simp add: hdr_goes_on_def)
  with Nil show ?case
    by (auto intro: exI [of _ "[]"])
next
  case (Cons d ds)
  have d: "chainable d"
    using Cons.prems(3) by simp
  then have len: "8 \<le> length d" "desc_len (d @ concat ds @ t) = length d"
    by (auto simp: chainable_def desc_len_append)
  have "hdr_goes_on (d @ concat ds @ t)" "desc_magic (d @ concat ds @ t) \<noteq> LAST_MAGIC"
    using d len by (auto simp: hdr_goes_on_def chainable_def desc_magic_append)
  then have step: "parse_loop (concat (d # ds) @ t) fw = obind (carlfw_desc_add_tail (d @ concat ds @ t) fw) (parse_loop (concat ds @ t))"
    using len by (subst parse_loop.simps) simp
  obtain fw1 x where a: "carlfw_desc_add_tail (d @ concat ds @ t) fw = Some (Inr fw1)" "carlfw_ok fw1 (xs @ [x])"
      "map (fw_entries fw1) (xs @ [x]) = map (fw_entries fw) xs @ [d]" "same_image fw fw1"
    using add_tail_ok [OF Cons.prems(1,2), of "d @ concat ds @ t"] len by auto
  have "\<not> pr_oom (fw_process fw1) n" for n
    using a(4) Cons.prems(2) by (simp add: same_image_def)
  then obtain fw' ys where "parse_loop (concat ds @ t) fw1 = Some (Inr fw')" "carlfw_ok fw' ((xs @ [x]) @ ys)"
      "map (fw_entries fw') ((xs @ [x]) @ ys) = map (fw_entries fw1) (xs @ [x]) @ ds" "same_image fw1 fw'"
    using Cons.IH [OF a(2)] Cons.prems(3) by auto
  with a step show ?case
    by (intro exI [of _ fw'] exI [of _ "x # ys"]) (auto intro: same_image_trans)
qed

subsection \<open>The backward scan\<close>

lemma sint_char:
  assumes "uint k < 128"
  shows "sint (b :: u8) = uint k \<longleftrightarrow> b = (k :: u8)"
proof -
  have "sint k = uint k"
    unfolding sint_uint using assms by (intro signed_take_bit_int_eq_self) (auto intro: order_trans [of _ 0])
  then show ?thesis
    by (metis signed_word_eqI)
qed

lemma scan_start:
  assumes "5 \<le> n" "n < 2147483648"
  shows "sint (word_of_int (int n - 1 - (8 - 4)) :: u32) = int n - 5"
proof -
  have "int n - 1 - (8 - 4) = int n - 5"
    by simp
  then show ?thesis
    unfolding sint_sbintrunc' using assms by (simp add: signed_take_bit_int_eq_self)
qed

text \<open>What is known when the scan has seen \<^verbatim>\<open>found\<close> bytes of the magic behind position \<^verbatim>\<open>scan\<close>.\<close>

definition tail_seen :: "u8 list \<Rightarrow> u8 list \<Rightarrow> nat \<Rightarrow> nat \<Rightarrow> bool" where
  "tail_seen magic data scan found \<longleftrightarrow> found < 4 \<and> scan + found + 5 \<le> length data \<and>
     (\<forall>i < found. data ! (scan + 1 + i) = magic ! (4 - found + i))"

lemma tail_seen_step:
  assumes "tail_seen magic data (Suc s) found" "data ! Suc s = magic ! (3 - found)" "found < 3"
  shows "tail_seen magic data s (Suc found)"
  unfolding tail_seen_def
proof (intro conjI allI impI)
  show "Suc found < 4" "s + Suc found + 5 \<le> length data"
    using assms by (auto simp: tail_seen_def)
  fix i assume i: "i < Suc found"
  show "data ! (s + 1 + i) = magic ! (4 - Suc found + i)"
  proof (cases i)
    case 0
    then show ?thesis
      using assms(2,3) by (simp add: Suc_diff_Suc numeral_eq_Suc)
  next
    case (Suc j)
    with i assms(1) have "data ! (Suc s + 1 + j) = magic ! (4 - found + j)"
      unfolding tail_seen_def by (metis Suc_less_eq)
    moreover have "4 - Suc found + i = 4 - found + j"
      using Suc assms(3) by arith
    moreover have "s + 1 + i = Suc s + 1 + j"
      using Suc by simp
    ultimately show ?thesis
      by (simp only:)
  qed
qed

lemma tail_seen_full:
  assumes "tail_seen magic data (Suc s) 3" "data ! Suc s = magic ! 0" "length magic = 4"
  shows "take 4 (drop (Suc s) data) = magic"
proof (rule nth_equalityI)
  show len: "length (take 4 (drop (Suc s) data)) = length magic"
    using assms by (auto simp: tail_seen_def min_def)
  fix i assume "i < length (take 4 (drop (Suc s) data))"
  then have i: "i < 4"
    by simp
  show "take 4 (drop (Suc s) data) ! i = magic ! i"
    using assms i by (cases i) (auto simp: tail_seen_def)
qed

lemma scan_skips:
  assumes "length magic = 4" "\<And>k. k < 4 \<Longrightarrow> uint (magic ! k) < 128"
    and "\<And>q. p < q \<Longrightarrow> take 4 (drop q data) \<noteq> magic"
    and "data ! (p + 4) \<notin> {magic ! 1, magic ! 2, magic ! 3}"
    and "tail_seen magic data (p + 3 + n) found"
  shows "scan_loop magic data (int (p + 3 + n)) found = scan_loop magic data (int (p + 3)) 0"
  using assms(5)
proof (induction n arbitrary: found)
  case 0
  have "found = 0"
  proof (rule ccontr)
    assume "found \<noteq> 0"
    then have "data ! (p + 4) = magic ! (4 - found)" "4 - found \<in> {1, 2, 3}"
      using 0 by (auto simp: tail_seen_def numeral_eq_Suc)
    with assms(4) show False
      by auto
  qed
  then show ?case
    by simp
next
  case (Suc n)
  let ?s = "p + 3 + Suc n"
  let ?f = "if data ! ?s = magic ! (3 - found) then found + 1 else 0"
  have "found < 4"
    using Suc.prems by (simp add: tail_seen_def)
  then have eq: "(sint (data ! nat (int ?s)) = uint (magic ! (3 - found))) = (data ! ?s = magic ! (3 - found))"
    unfolding nat_int by (intro sint_char assms(2)) simp
  have four: "?f \<noteq> 4"
  proof
    assume f: "?f = 4"
    then have "found = 3" "data ! ?s = magic ! 0"
      by (auto split: if_splits)
    with Suc.prems have "take 4 (drop ?s data) = magic"
      using tail_seen_full [of magic data "p + 3 + n"] assms(1) by simp
    with assms(3) [of ?s] show False
      by simp
  qed
  have "tail_seen magic data (p + 3 + n) ?f"
  proof (cases "data ! ?s = magic ! (3 - found)")
    case True
    with four \<open>found < 4\<close> show ?thesis
      using tail_seen_step [of magic data "p + 3 + n" found] Suc.prems by auto
  next
    case False
    then show ?thesis
      using Suc.prems by (simp add: tail_seen_def)
  qed
  then have "scan_loop magic data (int (p + 3 + n)) ?f = scan_loop magic data (int (p + 3)) 0"
    by (rule Suc.IH)
  moreover have "scan_loop magic data (int ?s) found = scan_loop magic data (int (p + 3 + n)) ?f"
  proof -
    have "int ?s - 1 = int (p + 3 + n)" "0 < int ?s"
      by simp_all
    with four show ?thesis
      by (subst scan_loop.simps) (simp only: eq if_True if_False Let_def)
  qed
  ultimately show ?case
    by simp
qed

lemma scan_loop_hit:
  assumes "length magic = 4" "\<And>k. k < 4 \<Longrightarrow> uint (magic ! k) < 128"
    and "take 4 (drop p data) = magic" "0 < p" "p + 4 \<le> length data"
  shows "scan_loop magic data (int (p + 3)) 0 = (int p, 4)"
proof -
  have d: "data ! (p + k) = magic ! k" if "k < 4" for k
    using assms(3,5) that by (metis add_leE nth_drop nth_take)
  have step: "scan_loop magic data (int (Suc q)) f = scan_loop magic data (int q) (Suc f)"
      if "data ! Suc q = magic ! (3 - f)" "f < 3" for q f
  proof -
    have "nat (int (Suc q)) = Suc q" "int (Suc q) - 1 = int q"
      by simp_all
    moreover have "sint (data ! Suc q) = uint (magic ! (3 - f))"
      using sint_char [OF assms(2) [of "3 - f"]] that by simp
    ultimately show ?thesis
      using that(2) by (subst scan_loop.simps) simp
  qed
  have "scan_loop magic data (int p) 3 = (int p, 4)"
    using sint_char [OF assms(2) [of 0]] d [of 0] assms(4) by (subst scan_loop.simps) simp
  moreover have "scan_loop magic data (int (p + 3)) 0 = scan_loop magic data (int p) 3"
    using step [of "p + 2" 0] step [of "p + 1" 1] step [of p 2] d [of 1] d [of 2] d [of 3] by (simp add: numeral_eq_Suc)
  ultimately show ?thesis
    by simp
qed

lemma scan_desc_finds:
  assumes "length magic = 4" "\<And>k. k < 4 \<Longrightarrow> uint (magic ! k) < 128"
    and "take 4 (drop p data) = magic" "0 < p" "p + 8 \<le> length data" "length data < 2147483648"
    and "\<And>q. p < q \<Longrightarrow> take 4 (drop q data) \<noteq> magic" "data ! (p + 4) \<notin> {magic ! 1, magic ! 2, magic ! 3}"
    and "\<not> CHECK_HDR_VERSION (drop p data) ver" "p + desc_len (drop p data) \<le> length data" "len \<le> desc_len (drop p data)"
  shows "carlfw_scan_desc data magic len ver = Some p"
proof -
  have "tail_seen magic data (p + 3 + (length data - p - 8)) 0"
    using assms(5) by (simp add: tail_seen_def)
  from scan_skips [OF assms(1,2,7,8) this] have "scan_loop magic data (int (length data) - 5) 0 = (int p, 4)"
    using scan_loop_hit [OF assms(1-4)] assms(5) by simp
  then show ?thesis
    using assms(5,6,9-11) scan_start [of "length data"] by (simp add: carlfw_scan_desc_def)
qed

subsection \<open>Storing and loading\<close>

text \<open>The two descriptors that \<^verbatim>\<open>carlfw_store\<close> adds.\<close>

definition chk_desc :: "u8 list \<Rightarrow> u8 list list \<Rightarrow> u8 list" where
  "chk_desc data ds =
     (let fw_crc32 = crc32_le (NOT 0) data
      in fill_desc CHK_MAGIC 16 1 2 @ bytes32 fw_crc32 @ bytes32 (crc32_le fw_crc32 (concat ds)))"

definition last_desc :: "u8 list" where
  "last_desc = fill_desc LAST_MAGIC 8 1 2"

lemma chk_desc_props:
  "length (chk_desc data ds) = 16" "desc_len (chk_desc data ds) = 16" "is_chk (chk_desc data ds)"
  "chainable (chk_desc data ds)" "le32_at (chk_desc data ds) 8 = crc32_le (NOT 0) data"
  "le32_at (chk_desc data ds) 12 = crc32_le (crc32_le (NOT 0) data) (concat ds)"
  by (simp_all add: chk_desc_def fill_desc_def desc_len_def bytes16_def le16_def carl9170fw_desc_cmp_def desc_magic_def
      CHECK_HDR_VERSION_def desc_cur_ver_def desc_min_ver_def chainable_def le32_at_def bytes32_def Let_def)

lemma last_desc_props:
  "length last_desc = 8" "desc_magic last_desc = LAST_MAGIC" "desc_len last_desc = 8"
  "\<not> CHECK_HDR_VERSION last_desc 2" "last_desc = [0x4c, 0x41, 0x53, 0x54, 8, 0, 1, 2]"
  by (simp_all add: last_desc_def fill_desc_def desc_len_def bytes16_def le16_def desc_magic_def CHECK_HDR_VERSION_def
      desc_cur_ver_def desc_min_ver_def)

lemma crc32_le_append: "crc32_le c (a @ b) = crc32_le (crc32_le c a) b"
  by (simp add: crc32_le_def)

lemma of_nat_lt32: "n < 4294967296 \<Longrightarrow> m < 4294967296 \<Longrightarrow> (of_nat n :: u32) < of_nat m \<longleftrightarrow> n < m"
  by (simp add: word_less_nat_alt)

lemma checksum_walk:
  assumes "\<And>x. x \<in> set xs \<Longrightarrow> length (e x) = desc_len (e x)" "k + sum_list (map (desc_len \<circ> e) xs) \<le> m" "m < 2147483648"
  shows "iterate (\<lambda>iter (crc32, len). let d = e iter; elen = of_nat (desc_len d)
      in if (of_nat m :: u32) < len + elen then Inl EMSGSIZE
         else Inr (crc32_le crc32 (take (desc_len d) d), len + elen)) xs (c, of_nat k) =
    Inr (crc32_le c (concat (map e xs)), of_nat (k + sum_list (map (desc_len \<circ> e) xs)))"
  using assms(1,2)
proof (induction xs arbitrary: c k)
  case Nil
  then show ?case
    by (simp add: crc32_le_def)
next
  case (Cons x xs)
  have "\<not> (of_nat m :: u32) < of_nat (k + desc_len (e x))"
    using Cons.prems(2) assms(3) by (subst of_nat_lt32) auto
  then show ?case
    using Cons.IH [of "k + desc_len (e x)"] Cons.prems by (simp add: crc32_le_append Let_def add.assoc)
qed

lemma remove_chk:
  assumes "carlfw_ok fw xs" "length (filter (is_chk \<circ> fw_entries fw) xs) \<le> 1"
  defines "fw1 \<equiv> (case find (is_chk \<circ> fw_entries fw) xs of None \<Rightarrow> fw | Some x \<Rightarrow> carlfw_desc_del x fw)"
  shows "carlfw_ok fw1 (filter (Not \<circ> is_chk \<circ> fw_entries fw) xs) \<and> fw_entries fw1 = fw_entries fw \<and> same_image fw fw1"
proof (cases "find (is_chk \<circ> fw_entries fw) xs")
  case None
  then have "filter (Not \<circ> is_chk \<circ> fw_entries fw) xs = xs"
    by (auto simp: find_None_iff filter_id_conv)
  with None show ?thesis
    using assms by simp
next
  case (Some x)
  then obtain as bs where xs: "xs = as @ x # bs" "is_chk (fw_entries fw x)" "\<forall>a \<in> set as. \<not> is_chk (fw_entries fw a)"
    by (auto simp: find_Some_iff in_set_conv_nth dest!: id_take_nth_drop) (metis in_set_conv_nth length_take min_less_iff_conj nth_take)
  have "\<forall>b \<in> set bs. \<not> is_chk (fw_entries fw b)"
    using assms(2) xs(2) by (auto simp: xs(1) filter_empty_conv)
  with xs have "filter (Not \<circ> is_chk \<circ> fw_entries fw) xs = as @ bs"
    by simp
  with Some show ?thesis
    using del_ok [of fw as x bs] assms(1) xs(1) by (simp add: fw1_def)
qed

lemma apply_checksums_ok:
  assumes "carlfw_ok fw xs" "\<And>n. \<not> pr_oom (fw_process fw) n" "length (filter (is_chk \<circ> fw_entries fw) xs) \<le> 1"
    and "sum_list (map (desc_len \<circ> fw_entries fw) xs) < 2147483648"
  defines "ds \<equiv> filter (Not \<circ> is_chk) (map (fw_entries fw) xs)"
  shows "\<exists>fw' ys. carlfw_apply_checksums fw = Some (None, fw') \<and> carlfw_ok fw' ys \<and>
    map (fw_entries fw') ys = ds @ [chk_desc (fl_data (fw_fw fw)) ds] \<and> same_image fw fw'"
proof -
  let ?p = "is_chk \<circ> fw_entries fw"
  define fw1 where "fw1 = (case find ?p xs of None \<Rightarrow> fw | Some x \<Rightarrow> carlfw_desc_del x fw)"
  define zs where "zs = filter (Not \<circ> is_chk \<circ> fw_entries fw) xs"
  have fw1: "carlfw_ok fw1 zs" "fw_entries fw1 = fw_entries fw" "same_image fw fw1"
    using remove_chk [OF assms(1,3)] by (simp_all add: fw1_def zs_def)
  have ds: "map (fw_entries fw) zs = ds"
    by (simp add: ds_def zs_def filter_map o_assoc)
  let ?m = "sum_list (map (desc_len \<circ> fw_entries fw) zs)"
  have m: "?m < 2147483648"
    using assms(4) le_less_trans [OF sum_list_filter_le_nat [of "desc_len \<circ> fw_entries fw" "Not \<circ> is_chk \<circ> fw_entries fw" xs]]
    by (simp add: zs_def)
  have len: "fw_desc_list_len fw1 = of_nat ?m" "\<And>x. x \<in> set zs \<Longrightarrow> length (fw_entries fw x) = desc_len (fw_entries fw x)"
    using fw1(1,2) by (auto simp: carlfw_ok_def)
  let ?c = "crc32_le (NOT 0) (fl_data (fw_fw fw))"
  have data: "fl_data (fw_fw fw1) = fl_data (fw_fw fw)"
    using fw1(3) by (simp add: same_image_def)
  have oom: "\<not> pr_oom (fw_process fw1) n" for n
    using fw1(3) assms(2) by (simp add: same_image_def)
  let ?chk = "chk_desc (fl_data (fw_fw fw)) ds"
  obtain fw' x where a: "carlfw_desc_add_tail ?chk fw1 = Some (Inr fw')" "carlfw_ok fw' (zs @ [x])"
      "map (fw_entries fw') (zs @ [x]) = map (fw_entries fw1) zs @ [?chk]" "same_image fw1 fw'"
    using add_tail_ok [OF fw1(1) oom, of ?chk] chk_desc_props [of "fl_data (fw_fw fw)" ds] by auto
  have "carlfw_apply_checksums fw = Some (None, fw')"
    unfolding carlfw_apply_checksums_def find_ok [OF assms(1)] option.case Let_def fw1_def [symmetric, unfolded o_def]
      data len(1) walk_ok [OF fw1(1)] fw1(2)
    using checksum_walk [of zs "fw_entries fw" 0 ?m ?c, OF len(2) _ m] a(1)
    by (simp add: Let_def ds chk_desc_def)
  with a fw1 ds show ?thesis
    by (intro exI [of _ fw'] exI [of _ "zs @ [x]"]) (auto intro: same_image_trans)
qed

lemma store_descs_ok:
  assumes "carlfw_ok fw xs" "\<And>x. x \<in> set xs \<Longrightarrow> desc_len (fw_entries fw x) \<le> CARL9170FW_DESC_MAX_LENGTH"
  shows "store_descs fw out = Some (Inr (out @ concat (map (fw_entries fw) xs)))"
proof -
  have "\<And>x. x \<in> set xs \<Longrightarrow> length (fw_entries fw x) = desc_len (fw_entries fw x)"
    using assms(1) by (simp add: carlfw_ok_def)
  with assms(2) have "iterate (\<lambda>iter out. let d = fw_entries fw iter in if desc_len d > CARL9170FW_DESC_MAX_LENGTH then Inl out
      else Inr (out @ take (desc_len d) d)) xs out = Inr (out @ concat (map (fw_entries fw) xs))"
  proof (induction xs arbitrary: out)
    case Nil
    then show ?case
      by simp
  next
    case (Cons x xs)
    then show ?case
      using Cons.IH [of "out @ fw_entries fw x"] by (simp add: not_less [symmetric])
  qed
  then show ?thesis
    by (simp add: store_descs_def walk_ok [OF assms(1)])
qed

lemma check_crc32s_ok:
  assumes "carlfw_ok fw xs" "map (fw_entries fw) xs = ds @ [chk_desc (fl_data (fw_fw fw)) ds]" "\<And>d. d \<in> set ds \<Longrightarrow> \<not> is_chk d"
  shows "carlfw_check_crc32s fw = Some (Inr ())"
proof -
  let ?e = "fw_entries fw" and ?chk = "chk_desc (fl_data (fw_fw fw)) ds"
  obtain ys y where xs: "xs = ys @ [y]" "map ?e ys = ds" "?e y = ?chk"
    using assms(2) by (cases xs rule: rev_cases) auto
  have no: "\<And>z. z \<in> set ys \<Longrightarrow> \<not> is_chk (?e z)"
    using assms(3) xs(2) by auto
  have f: "find (\<lambda>x. is_chk (?e x)) (ys @ [y]) = Some y"
    using no xs(3) chk_desc_props(3) by (induction ys) auto
  have len: "\<And>z. z \<in> set ys \<Longrightarrow> length (?e z) = desc_len (?e z)"
    using assms(1) xs(1) by (simp add: carlfw_ok_def)
  have "iterate (\<lambda>iter crc32. let d = ?e iter in if is_chk d then Inr crc32 else Inr (crc32_le crc32 (take (desc_len d) d)))
      (ys @ [y]) c = (Inr (crc32_le c (concat ds)) :: errno + u32)" for c
    unfolding xs(2) [symmetric] using no len
  proof (induction ys arbitrary: c)
    case Nil
    then show ?case
      using chk_desc_props(3) by (simp add: xs(3) crc32_le_def)
  next
    case (Cons z zs)
    then show ?case
      by (simp add: crc32_le_append Let_def)
  qed
  then show ?thesis
    unfolding carlfw_check_crc32s_def find_ok [OF assms(1)] walk_ok [OF assms(1)] xs(1) f option.case Let_def xs(3)
    by (simp add: chk_desc_props(5,6) Let_def)
qed

lemma magic_ascii:
  assumes "k < 4"
  shows "uint (OTUS_MAGIC ! k) < 128" "uint (LAST_MAGIC ! k) < 128"
proof -
  have "k = 0 \<or> k = 1 \<or> k = 2 \<or> k = 3"
    using assms by linarith
  then show "uint (OTUS_MAGIC ! k) < 128" "uint (LAST_MAGIC ! k) < 128"
    by (elim disjE; simp)+
qed

lemma scan_last:
  assumes "0 < length pre" "length pre + 8 < 2147483648"
  shows "carlfw_scan_desc (pre @ last_desc) LAST_MAGIC 8 2 = Some (length pre)"
proof (rule scan_desc_finds)
  fix q assume "length pre < q"
  then obtain k where q: "q = length pre + Suc k"
    by (metis add_Suc_right less_iff_Suc_add)
  show "take 4 (drop q (pre @ last_desc)) \<noteq> LAST_MAGIC"
  proof (cases "k < 4")
    case True
    then consider "k = 0" | "k = 1" | "k = 2" | "k = 3"
      by linarith
    then show ?thesis
      by cases (simp_all add: q last_desc_props(5))
  next
    case False
    then have l: "length (take 4 (drop q (pre @ last_desc))) < 4"
      by (simp add: q last_desc_props(1))
    show ?thesis
    proof
      assume e: "take 4 (drop q (pre @ last_desc)) = LAST_MAGIC"
      from l show False
        unfolding e by simp
    qed
  qed
next
  show "uint (LAST_MAGIC ! k) < 128" if "k < 4" for k
    using magic_ascii(2) [OF that] .
qed (use assms in \<open>simp_all add: last_desc_props desc_len_def CHECK_HDR_VERSION_def desc_cur_ver_def desc_min_ver_def
  nth_append le16_def\<close>)

lemma drop_is_chainable:
  "chainable d \<Longrightarrow> hdr_goes_on (d @ t)" "chainable d \<Longrightarrow> desc_len (d @ t) = length d"
  "chainable d \<Longrightarrow> CHECK_HDR_VERSION (d @ t) v = CHECK_HDR_VERSION d v"
  by (auto simp: chainable_def hdr_goes_on_def desc_len_append desc_magic_append CHECK_HDR_VERSION_def
      desc_cur_ver_def desc_min_ver_def nth_append)

lemma scan_otus:
  assumes "data \<noteq> []" "chainable d" "carl9170fw_desc_cmp d OTUS_MAGIC 32 7" "d ! 4 \<notin> {0x54, 0x41, 0x52}"
    and "\<And>q. 0 < q \<Longrightarrow> take 4 (drop q (d @ t)) \<noteq> OTUS_MAGIC" "length data + length (d @ t) < 2147483648"
  shows "carlfw_scan_desc (data @ d @ t) OTUS_MAGIC 32 7 = Some (length data)"
proof (rule scan_desc_finds)
  have len: "8 \<le> length d" "desc_len d = length d" "32 \<le> length d" "take 4 d = OTUS_MAGIC" "\<not> CHECK_HDR_VERSION d 7"
    using assms(2,3) by (auto simp: chainable_def carl9170fw_desc_cmp_def desc_magic_def)
  show "take 4 (drop (length data) (data @ d @ t)) = OTUS_MAGIC"
    using len by simp
  show "\<not> CHECK_HDR_VERSION (drop (length data) (data @ d @ t)) 7" "length data + 8 \<le> length (data @ d @ t)"
      "length data + desc_len (drop (length data) (data @ d @ t)) \<le> length (data @ d @ t)"
      "32 \<le> desc_len (drop (length data) (data @ d @ t))"
    using len drop_is_chainable [OF assms(2)] by simp_all
  show "(data @ d @ t) ! (length data + 4) \<notin> {OTUS_MAGIC ! 1, OTUS_MAGIC ! 2, OTUS_MAGIC ! 3}"
    using assms(4) len(1) by (simp add: nth_append numeral_eq_Suc)
  show "take 4 (drop q (data @ d @ t)) \<noteq> OTUS_MAGIC" if "length data < q" for q
    using assms(5) [of "q - length data"] that by simp
  show "uint (OTUS_MAGIC ! k) < 128" if "k < 4" for k
    using magic_ascii(1) [OF that] .
qed (use assms in simp_all)

lemma cut_descs_all: "cut_descs (length data) (length data + length ds + 8) (data @ ds @ last_desc) = data"
  by (simp add: cut_descs_def last_desc_props(1))

lemma malloc_ok: "\<not> pr_oom (fw_process fw) (pr_allocs (fw_process fw)) \<Longrightarrow>
    malloc fw = (Some (pr_allocs (fw_process fw) + 2), fw_process_update (pr_allocs_update Suc) fw)"
  by (simp add: malloc_def)

lemma load_file_ok:
  assumes "pr_files (fw_process fw) name = Some img" "\<And>n. \<not> pr_oom (fw_process fw) n" "img \<noteq> []"
  shows "carlfw_load_file name fw =
    Some (Inr (\<lparr> fl_name = Some name, fl_data = img \<rparr>, fw_process_update (pr_allocs_update (\<lambda>n. Suc (Suc n))) fw))"
  using assms by (cases fw) (simp add: carlfw_load_file_def malloc_ok)

text \<open>Loading a file that holds a firmware, a chain of descriptors and the end.\<close>

lemma load_chain:
  assumes input: "pr_files p name = Some (data @ concat ds @ last_desc)" and oom: "\<And>n. \<not> pr_oom p n"
    and "data \<noteq> []" "\<And>d. d \<in> set ds \<Longrightarrow> chainable d"
    and "ds \<noteq> []" "carl9170fw_desc_cmp (hd ds) OTUS_MAGIC 32 7" "hd ds ! 4 \<notin> {0x54, 0x41, 0x52}"
    and "\<And>q. 0 < q \<Longrightarrow> take 4 (drop q (concat ds @ last_desc)) \<noteq> OTUS_MAGIC"
    and small: "length data + length (concat ds) + 8 < 2147483648"
  shows "\<exists>fw ys. fw_fw fw = \<lparr> fl_name = Some name, fl_data = data \<rparr> \<and> fl_name (fw_hdr fw) = None \<and>
    pr_writable (fw_process fw) = pr_writable p \<and> pr_oom (fw_process fw) = pr_oom p \<and> pr_files (fw_process fw) = pr_files p \<and>
    carlfw_ok fw ys \<and> map (fw_entries fw) ys = ds \<and>
    (carlfw_check_crc32s fw \<in> {Some (Inr ()), Some (Inl ENODATA)} \<longrightarrow> carlfw_load name p = Some (Inr fw))"
proof -
  let ?img = "data @ concat ds @ last_desc"
  obtain d t where ds: "ds = d # t" "d = hd ds" "chainable d"
    using assms(4,5) by (cases ds) auto
  have scans: "carlfw_scan_desc ?img OTUS_MAGIC 32 7 = Some (length data)"
      "carlfw_scan_desc ?img LAST_MAGIC 8 2 = Some (length data + length (concat ds))"
    using scan_otus [OF assms(3) ds(3), of "concat t @ last_desc"] scan_last [of "data @ concat ds"] assms(3,6-8) small
    by (simp_all add: ds(1) last_desc_props(1))
  define fw0 where "fw0 = (fw_links_update (init_list_head 0) (fw_process_update (pr_allocs_update (\<lambda>n. Suc (Suc (Suc n)))) (calloc_carlfw p)))
    \<lparr> fw_fw := \<lparr> fl_name = Some name, fl_data = ?img \<rparr> \<rparr>"
  have "carlfw_ok fw0 []"
    by (simp add: carlfw_ok_def fw0_def calloc_carlfw_def)
  moreover have oom0: "\<not> pr_oom (fw_process fw0) n" for n
    using oom by (simp add: fw0_def calloc_carlfw_def)
  ultimately obtain fw1 ys where fw1: "parse_loop (concat ds @ last_desc) fw0 = Some (Inr fw1)" "carlfw_ok fw1 ys"
      "map (fw_entries fw1) ys = ds" "same_image fw0 fw1"
    using parse_loop_chain [of fw0 "[]" ds last_desc] assms(4) by (simp add: last_desc_props(1,2)) metis
  define fw2 where "fw2 = fw_fw_update (fl_data_update (\<lambda>_. data)) (fw_process_update (pr_allocs_update Suc) fw1)"
  have ok2: "carlfw_ok fw2 ys" "map (fw_entries fw2) ys = ds"
    using fw1(2,3) by (auto simp: fw2_def carlfw_ok_def)
  have img2: "fw_fw fw2 = \<lparr> fl_name = Some name, fl_data = data \<rparr>" "fl_name (fw_hdr fw2) = None"
      "pr_writable (fw_process fw2) = pr_writable p" "pr_oom (fw_process fw2) = pr_oom p"
      "pr_files (fw_process fw2) = pr_files p"
    using fw1(4) by (simp_all add: same_image_def fw0_def fw2_def calloc_carlfw_def)
  have "carlfw_parse_descs (concat ds @ last_desc) fw0 = Some (Inr fw1)"
    using fw1(1) drop_is_chainable(1) [OF ds(3)] by (simp add: carlfw_parse_descs_def ds(1))
  moreover have "\<not> pr_oom (fw_process fw1) n" "fw_hdr fw1 = \<lparr> fl_name = None, fl_data = [] \<rparr>" for n
    using fw1(4) oom by (simp_all add: same_image_def fw0_def calloc_carlfw_def)
  ultimately have "carlfw_load name p = Some (Inr fw2)"
    if "carlfw_check_crc32s fw2 \<in> {Some (Inr ()), Some (Inl ENODATA)}"
    using input oom scans that assms(3)
    by (auto simp: carlfw_load_def malloc_ok load_file_ok calloc_carlfw_def fw0_def fw2_def cut_descs_all o_def
        simp del: append_assoc)
  with ok2 img2 show ?thesis
    by blast
qed

lemma load_image:
  assumes "pr_files p name = Some (data @ concat new @ last_desc)" "\<And>n. \<not> pr_oom p n"
    and "data \<noteq> []" and new: "new = ds @ [chk_desc data ds]" and ds: "\<And>d. d \<in> set ds \<Longrightarrow> chainable d \<and> \<not> is_chk d"
    and "ds \<noteq> []" "carl9170fw_desc_cmp (hd ds) OTUS_MAGIC 32 7" "hd ds ! 4 \<notin> {0x54, 0x41, 0x52}"
    and "\<And>q. 0 < q \<Longrightarrow> take 4 (drop q (concat new @ last_desc)) \<noteq> OTUS_MAGIC"
    and "length data + length (concat new) + 8 < 2147483648"
  shows "\<exists>fw ys. carlfw_load name p = Some (Inr fw) \<and> fl_data (fw_fw fw) = data \<and> carlfw_ok fw ys \<and>
    map (fw_entries fw) ys = new \<and> carlfw_check_crc32s fw = Some (Inr ())"
proof -
  have c: "chainable c" if "c \<in> set new" for c
    using that new ds chk_desc_props(4) by auto
  have h: "new \<noteq> []" "carl9170fw_desc_cmp (hd new) OTUS_MAGIC 32 7" "hd new ! 4 \<notin> {0x54, 0x41, 0x52}"
    using new assms(6-8) by simp_all
  obtain fw ys where fw: "fw_fw fw = \<lparr> fl_name = Some name, fl_data = data \<rparr>" "carlfw_ok fw ys" "map (fw_entries fw) ys = new"
      "carlfw_check_crc32s fw \<in> {Some (Inr ()), Some (Inl ENODATA)} \<longrightarrow> carlfw_load name p = Some (Inr fw)"
    using load_chain [OF assms(1-3) c h assms(9,10)] by blast
  have "carlfw_check_crc32s fw = Some (Inr ())"
    using check_crc32s_ok [OF fw(2)] fw(1,3) new ds by simp
  with fw show ?thesis
    by (intro exI [of _ fw] exI [of _ ys]) simp
qed

text \<open>A chain without checksums is accepted too.\<close>

lemma check_crc32s_none:
  assumes "carlfw_ok fw ys" "\<And>d. d \<in> set (map (fw_entries fw) ys) \<Longrightarrow> \<not> is_chk d"
  shows "carlfw_check_crc32s fw = Some (Inl ENODATA)"
proof -
  have "find (\<lambda>x. is_chk (fw_entries fw x)) ys = None"
    using assms(2) by (simp add: find_None_iff)
  then show ?thesis
    by (simp add: carlfw_check_crc32s_def find_ok [OF assms(1)])
qed

lemma write_file_simps [simp]:
  "fw_fw (write_file n b fw) = fw_fw fw" "fw_hdr (write_file n b fw) = fw_hdr fw" "fw_entries (write_file n b fw) = fw_entries fw"
  "carlfw_ok (write_file n b fw) xs = carlfw_ok fw xs" "pr_oom (fw_process (write_file n b fw)) = pr_oom (fw_process fw)"
  "pr_files (fw_process (write_file n b fw)) = (pr_files (fw_process fw))(n := Some b)"
  "pr_writable (fw_process (write_file n b fw)) = pr_writable (fw_process fw)"
  by (simp_all add: write_file_def carlfw_ok_def)

lemma store_image:
  assumes "carlfw_ok fw xs" "\<And>n. \<not> pr_oom (fw_process fw) n" "length (filter is_chk (map (fw_entries fw) xs)) \<le> 1"
    and "\<And>d. d \<in> set (map (fw_entries fw) xs) \<Longrightarrow> chainable d"
    and "fl_name (fw_fw fw) = Some name" "fl_name (fw_hdr fw) = None" "pr_writable (fw_process fw) name"
    and "fl_data (fw_fw fw) = data" "data \<noteq> []" "length (concat (map (fw_entries fw) xs)) < 2147483648"
  defines "ds \<equiv> filter (Not \<circ> is_chk) (map (fw_entries fw) xs)"
  shows "\<exists>fw'. carlfw_store fw = Some (None, fw') \<and> pr_oom (fw_process fw') = pr_oom (fw_process fw) \<and>
    pr_files (fw_process fw') name = Some (data @ concat (ds @ [chk_desc data ds]) @ last_desc)"
proof -
  have one: "length (filter (is_chk \<circ> fw_entries fw) xs) \<le> 1"
    using assms(3) by (simp add: filter_map)
  have "map (desc_len \<circ> fw_entries fw) xs = map length (map (fw_entries fw) xs)"
    using assms(4) by (simp add: chainable_def)
  then have sum: "sum_list (map (desc_len \<circ> fw_entries fw) xs) < 2147483648"
    using assms(10) by (simp only: length_concat)
  obtain fw1 ys where fw1: "carlfw_apply_checksums fw = Some (None, fw1)" "carlfw_ok fw1 ys"
      "map (fw_entries fw1) ys = ds @ [chk_desc data ds]" "same_image fw fw1"
    using apply_checksums_ok [OF assms(1,2) one sum] assms(8) by (auto simp: ds_def)
  have "desc_len (fw_entries fw1 y) \<le> CARL9170FW_DESC_MAX_LENGTH" if "y \<in> set ys" for y
  proof -
    have "fw_entries fw1 y \<in> set (ds @ [chk_desc data ds])"
      using that fw1(3) [symmetric] by simp
    then have "fw_entries fw1 y = chk_desc data ds \<or> fw_entries fw1 y \<in> set (map (fw_entries fw) xs)"
      by (auto simp: ds_def)
    then have "chainable (fw_entries fw1 y)"
      using assms(4) chk_desc_props(4) by metis
    then show ?thesis
      by (simp add: chainable_def)
  qed
  then have "store_descs (write_file name data fw1) data = Some (Inr (data @ concat (ds @ [chk_desc data ds])))"
    using store_descs_ok [of "write_file name data fw1" ys data] fw1(2,3) by simp
  then have "carlfw_store fw = Some (None, write_file name (data @ concat (ds @ [chk_desc data ds]) @ last_desc)
      (write_file name data fw1))"
    using assms(5-9) fw1(1,4) by (simp add: carlfw_store_def same_image_def last_desc_def)
  with fw1(4) show ?thesis
    by (auto simp: same_image_def)
qed

text \<open>C10. Storing an image writes a file that loads again: the same firmware, the same descriptors with one
  new checksum descriptor behind them, and checksums that verify. The descriptors start with an
  OTUS descriptor, whose magic occurs nowhere else in them and is not followed by one of its own
  last letters (the scan does not look at such a byte again).\<close>

theorem carlfw_store_load:
  assumes "carlfw_ok fw xs" "\<forall>n. \<not> pr_oom (fw_process fw) n" "pr_writable (fw_process fw) name"
    and "fl_name (fw_fw fw) = Some name" "fl_name (fw_hdr fw) = None" "fl_data (fw_fw fw) = data" "data \<noteq> []"
    and "map (fw_entries fw) xs = d # rest" "\<forall>c \<in> set (d # rest). chainable c" "length (filter is_chk rest) \<le> 1"
    and "carl9170fw_desc_cmp d OTUS_MAGIC 32 7" "d ! 4 \<notin> {0x54, 0x41, 0x52}"
    and "ds = d # filter (Not \<circ> is_chk) rest" "new = ds @ [chk_desc data ds]"
    and "\<forall>q > 0. take 4 (drop q (concat new @ last_desc)) \<noteq> OTUS_MAGIC"
    and "length data + length (concat (d # rest)) + length (concat new) + 8 < 2147483648"
  shows "\<exists>fw' fw2 ys. carlfw_store fw = Some (None, fw') \<and>
    pr_files (fw_process fw') name = Some (data @ concat new @ last_desc) \<and>
    carlfw_load name (fw_process fw') = Some (Inr fw2) \<and> fl_data (fw_fw fw2) = data \<and>
    carlfw_ok fw2 ys \<and> map (fw_entries fw2) ys = new \<and> carlfw_check_crc32s fw2 = Some (Inr ())"
proof -
  have "\<not> is_chk d"
    using assms(11) by (auto simp: carl9170fw_desc_cmp_def)
  then have ds: "filter (Not \<circ> is_chk) (map (fw_entries fw) xs) = ds"
      "length (filter is_chk (map (fw_entries fw) xs)) \<le> 1"
    using assms(8,10,13) by simp_all
  obtain fw' where store: "carlfw_store fw = Some (None, fw')" "pr_oom (fw_process fw') = pr_oom (fw_process fw)"
      "pr_files (fw_process fw') name = Some (data @ concat new @ last_desc)"
    using store_image [OF assms(1) _ ds(2) _ assms(4,5,3,6,7)] assms(2,8,9,14,16) ds(1) by auto
  have oom: "\<not> pr_oom (fw_process fw') n" for n
    using store(2) assms(2) by simp
  have ch: "chainable c \<and> \<not> is_chk c" if "c \<in> set ds" for c
    using that assms(9,13) \<open>\<not> is_chk d\<close> by auto
  have ot: "carl9170fw_desc_cmp (hd ds) OTUS_MAGIC 32 7" "hd ds ! 4 \<notin> {0x54, 0x41, 0x52}" "ds \<noteq> []"
    using assms(11,12,13) by simp_all
  have q: "take 4 (drop q (concat new @ last_desc)) \<noteq> OTUS_MAGIC" if "0 < q" for q
    using assms(15) that by blast
  have sz: "length data + length (concat new) + 8 < 2147483648"
    using assms(16) by linarith
  show ?thesis
    using load_image [OF store(3) oom assms(7,14) ch ot(3,1,2) q sz] store(1,3) by blast
qed

text \<open>A small image: one byte of firmware and an OTUS descriptor.\<close>

definition example_otus :: "u8 list" where
  "example_otus = fill_desc OTUS_MAGIC 32 6 7 @ replicate 24 0"

definition example_image :: carlfw where
  "example_image = (calloc_carlfw \<lparr> pr_files = (\<lambda>_. None), pr_writable = (\<lambda>_. True), pr_oom = (\<lambda>_. False), pr_allocs = 1 \<rparr>)
     \<lparr> fw_fw := \<lparr> fl_name = Some ''fw'', fl_data = [1] \<rparr>,
       fw_links := list_add_tail 2 0 (init_list_head 0 \<lparr> l_next = (\<lambda>_. 0), l_prev = (\<lambda>_. 0) \<rparr>),
       fw_entries := (\<lambda>_. example_otus), fw_desc_list_entries := 1, fw_desc_list_len := 32 \<rparr>"

lemma example_otus_props:
  "chainable example_otus" "carl9170fw_desc_cmp example_otus OTUS_MAGIC 32 7" "example_otus ! 4 = 32"
  "length example_otus = 32" "desc_len example_otus = 32"
  by (simp_all add: example_otus_def fill_desc_def chainable_def desc_len_def desc_magic_def bytes16_def le16_def
      carl9170fw_desc_cmp_def CHECK_HDR_VERSION_def desc_cur_ver_def desc_min_ver_def)

lemma crc32_le_simps:
  "crc32_le c [] = c" "crc32_le c (b # bs) = crc32_le ((crc32_bit ^^ 8) (c XOR ucast b)) bs"
  "(crc32_bit ^^ 8) c = crc32_bit (crc32_bit (crc32_bit (crc32_bit (crc32_bit (crc32_bit (crc32_bit (crc32_bit c)))))))"
  by (simp_all add: crc32_le_def numeral_eq_Suc)

lemma example_otus_bytes:
  "example_otus = [0x4f, 0x54, 0x41, 0x52, 32, 0, 6, 7, 0, 0, 0, 0, 0, 0, 0, 0, 0, 0, 0, 0, 0, 0, 0, 0, 0, 0, 0, 0, 0, 0, 0, 0]"
  by (simp add: example_otus_def fill_desc_def bytes16_def) (simp add: numeral_eq_Suc)

lemma example_chk:
  "chk_desc [1] [example_otus] = [67, 72, 75, 0, 16, 0, 1, 2, 228, 32, 250, 90, 16, 72, 138, 146]"
proof -
  have ones: "NOT 0 = (0xffffffff :: u32)"
    by simp
  have data: "crc32_le 0xffffffff [1] = 0x5afa20e4"
    by (simp add: crc32_le_simps crc32_bit_def)
  have descs: "crc32_le 0x5afa20e4 example_otus = 0x928a4810"
    by (simp add: crc32_le_simps crc32_bit_def example_otus_bytes)
  show ?thesis
    unfolding chk_desc_def Let_def ones data concat.simps append_Nil2 descs
    by (simp add: fill_desc_def bytes16_def bytes32_def)
qed

lemma example_scan:
  "0 < q \<Longrightarrow> take 4 (drop q (concat [example_otus, chk_desc [1] [example_otus]] @ last_desc)) \<noteq> OTUS_MAGIC"
proof -
  let ?bs = "concat [example_otus, chk_desc [1] [example_otus]] @ last_desc"
  assume q: "0 < q"
  have all: "\<forall>q \<in> set [1..<57]. take 4 (drop q ?bs) \<noteq> OTUS_MAGIC"
    unfolding concat.simps example_chk unfolding example_otus_bytes last_desc_props(5) by code_simp
  show "take 4 (drop q ?bs) \<noteq> OTUS_MAGIC"
  proof (cases "q < 57")
    case True
    with q all show ?thesis
      by auto
  next
    case False
    then have "drop q ?bs = []"
      by (simp add: example_otus_props(4) chk_desc_props(1) last_desc_props(1))
    then show ?thesis
      by simp
  qed
qed

theorem carlfw_store_load_witness:
  "\<exists>fw' fw2. carlfw_store example_image = Some (None, fw') \<and> carlfw_load ''fw'' (fw_process fw') = Some (Inr fw2) \<and>
     fl_data (fw_fw fw2) = [1]"
proof -
  have ok: "carlfw_ok example_image [2]"
    using list_add_tail_linked [OF linked_init, of 2 0]
    by (simp add: carlfw_ok_def example_image_def calloc_carlfw_def example_otus_props)
  have chk: "\<not> is_chk example_otus"
    using example_otus_props(2) by (auto simp: carl9170fw_desc_cmp_def)
  let ?new = "[example_otus] @ [chk_desc [1] [example_otus]]"
  have files: "\<forall>n. \<not> pr_oom (fw_process example_image) n" "pr_writable (fw_process example_image) ''fw''"
      "fl_name (fw_fw example_image) = Some ''fw''" "fl_name (fw_hdr example_image) = None"
      "fl_data (fw_fw example_image) = [1]" "map (fw_entries example_image) [2] = example_otus # []"
    by (simp_all add: example_image_def calloc_carlfw_def)
  have small: "length [1 :: u8] + length (concat (example_otus # [])) + length (concat ?new) + 8 < 2147483648"
    by (simp add: example_otus_props(4) chk_desc_props(1))
  have scan: "\<forall>q > 0. take 4 (drop q (concat ?new @ last_desc)) \<noteq> OTUS_MAGIC"
    using example_scan by simp
  have d: "\<forall>c \<in> set (example_otus # []). chainable c" "length (filter is_chk []) \<le> 1" "example_otus ! 4 \<notin> {0x54, 0x41, 0x52}"
      "[example_otus] = example_otus # filter (Not \<circ> is_chk) []" "[1 :: u8] \<noteq> []"
    by (simp_all add: example_otus_props(1,3))
  show ?thesis
    using carlfw_store_load [OF ok files(1-5) d(5) files(6) d(1,2) example_otus_props(2) d(3,4) refl scan small] by blast
qed

end
