(* ===== verification/HostTools.thy ===== *)
theory HostTools
  imports Carlfw Wol
begin

text \<open>The host programs: checksum and miniboot, which rewrite a firmware image (tools/src/checksum.c,
  miniboot.c), and the generator of magic packets (tools/src/wol.c, without the sockets and the
  command line). A program gives its exit status (True for success) beside the process.\<close>

subsection \<open>checksum\<close>

definition checksum_main :: "string list \<Rightarrow> process \<Rightarrow> (bool \<times> process) option" where
  "checksum_main args p =
     (case args of
        [name] \<Rightarrow>
          (case carlfw_load name p of
             None \<Rightarrow> None
           | Some (Inl e) \<Rightarrow> Some (False, p)
           | Some (Inr fw) \<Rightarrow>
               (case carlfw_store fw of
                  None \<Rightarrow> None
                | Some (err, fw) \<Rightarrow> Some (err = None, fw_process fw)))
      | _ \<Rightarrow> Some (False, p))"

subsection \<open>miniboot\<close>

definition carl9170fw_supports :: "u32 \<Rightarrow> nat \<Rightarrow> bool" where
  "carl9170fw_supports list feature \<longleftrightarrow> list AND push_bit feature 1 \<noteq> 0"

abbreviation (input) CARL9170FW_MINIBOOT :: nat where "CARL9170FW_MINIBOOT \<equiv> 1"

definition memcpy_at :: "nat \<Rightarrow> u8 list \<Rightarrow> u8 list \<Rightarrow> u8 list" where
  "memcpy_at p bs xs = take p xs @ bs @ drop (p + length bs) xs"

text \<open>\<^verbatim>\<open>struct carl9170fw_otus_desc\<close>: the feature set is at offset 8, the size of the miniboot image at 22.\<close>

definition otus_feature_set :: "u8 list \<Rightarrow> u32" where "otus_feature_set d = le32_at d 8"
definition otus_miniboot_size :: "u8 list \<Rightarrow> u16" where "otus_miniboot_size d = le16 (d ! 22) (d ! 23)"

definition set_miniboot :: "u32 \<Rightarrow> u16 \<Rightarrow> nat \<Rightarrow> carlfw \<Rightarrow> carlfw" where
  "set_miniboot features sz otus fw = fw_entries_update (\<lambda>e. e(otus :=
     memcpy_at 22 (bytes16 sz) (memcpy_at 8 (bytes32 features) (e otus)))) fw"

text \<open>The errors of \<^verbatim>\<open>add_mini\<close>: without an OTUS descriptor, with a miniboot image already there and when
  there is no room, the result is the 0 that \<^verbatim>\<open>fstat\<close> left in \<^verbatim>\<open>err\<close>. The result of \<^verbatim>\<open>carlfw_store\<close> is not
  looked at.\<close>

definition add_mini :: "(nat \<Rightarrow> u8) \<Rightarrow> string \<Rightarrow> carlfw \<Rightarrow> (errno option \<times> carlfw) option" where
  "add_mini junk mini fw =
     (case pr_files (fw_process fw) mini of
        None \<Rightarrow> Some (Some EIO, fw)
      | Some m \<Rightarrow>
          (case carlfw_find_desc OTUS_MAGIC 32 CARL9170FW_OTUS_DESC_CUR_VER fw of
             None \<Rightarrow> None
           | Some None \<Rightarrow> Some (None, fw)
           | Some (Some otus) \<Rightarrow>
               let features = otus_feature_set (fw_entries fw otus)
               in if carl9170fw_supports features CARL9170FW_MINIBOOT then Some (None, fw)
                  else
                    let fw = set_miniboot (features OR push_bit CARL9170FW_MINIBOOT 1) (of_nat (length m)) otus fw
                    in case carlfw_mod_headroom junk (int (length m)) fw of
                         None \<Rightarrow> None
                       | Some (Inl e) \<Rightarrow> Some (None, fw)
                       | Some (Inr fw) \<Rightarrow>
                           if m = [] then Some (None, fw)
                           else map_option (\<lambda>(_, fw). (None, fw))
                                  (carlfw_store (fw_fw_update (fl_data_update (memcpy_at 0 m)) fw))))"

definition del_mini :: "(nat \<Rightarrow> u8) \<Rightarrow> carlfw \<Rightarrow> (errno option \<times> carlfw) option" where
  "del_mini junk fw =
     (case carlfw_find_desc OTUS_MAGIC 32 CARL9170FW_OTUS_DESC_CUR_VER fw of
        None \<Rightarrow> None
      | Some None \<Rightarrow> Some (Some ENODATA, fw)
      | Some (Some otus) \<Rightarrow>
          let features = otus_feature_set (fw_entries fw otus)
          in if \<not> carl9170fw_supports features CARL9170FW_MINIBOOT then Some (Some EINVAL, fw)
             else case carlfw_mod_headroom junk (- int (unat (otus_miniboot_size (fw_entries fw otus)))) fw of
                    None \<Rightarrow> None
                  | Some (Inl e) \<Rightarrow> Some (Some e, fw)
                  | Some (Inr fw) \<Rightarrow>
                      map_option (\<lambda>(_, fw). (None, fw))
                        (carlfw_store (set_miniboot (features AND NOT (push_bit CARL9170FW_MINIBOOT 1)) 0 otus fw)))"

text \<open>Removing a miniboot image of a file of an admissible length reads in front of the block.\<close>

lemma del_mini_undefined:
  assumes "carlfw_find_desc OTUS_MAGIC 32 CARL9170FW_OTUS_DESC_CUR_VER fw = Some (Some otus)"
    and "carl9170fw_supports (otus_feature_set (fw_entries fw otus)) CARL9170FW_MINIBOOT"
    and "n = unat (otus_miniboot_size (fw_entries fw otus))" "n \<noteq> 0"
    and "n + 32 \<le> length (fl_data (fw_fw fw))" "length (fl_data (fw_fw fw)) \<le> 16384"
  shows "del_mini junk fw = None"
proof -
  let ?k = "length (fl_data (fw_fw fw)) - n"
  have k: "int (length (fl_data (fw_fw fw))) + - int n = int ?k" "32 \<le> ?k" "?k \<le> 16384"
    using assms(5,6) by simp_all
  have "unat (word_of_int (int ?k) :: u32) = ?k"
    using k(3) by (simp only: of_int_of_nat_eq unat_of_nat32)
  then have "carl9170fw_size_check (unat (word_of_int (int ?k) :: u32))"
    using k(2,3) by (simp only: carl9170fw_size_check_def conj_absorb simp_thms)
  moreover have "- int n < 0"
    using assms(4) by simp
  ultimately have "carlfw_mod_headroom junk (- int n) fw = None"
    unfolding carlfw_mod_headroom_def Let_def k(1) by simp
  then show ?thesis
    using assms(1-3) by (simp add: del_mini_def Let_def)
qed

text \<open>The program ends with success once the image was loaded, whatever the action returns.\<close>

definition miniboot_main :: "(nat \<Rightarrow> u8) \<Rightarrow> string list \<Rightarrow> process \<Rightarrow> (bool \<times> process) option" where
  "miniboot_main junk args p =
     (case args of
        action # file # mb \<Rightarrow>
          if take 1 action = ''a'' \<and> length mb = 1 \<or> take 1 action = ''d'' \<and> mb = [] then
            (case carlfw_load file p of
               None \<Rightarrow> None
             | Some (Inl e) \<Rightarrow> Some (False, p)
             | Some (Inr fw) \<Rightarrow>
                 map_option (\<lambda>(_, fw). (True, fw_process fw))
                   (if take 1 action = ''a'' then add_mini junk (hd mb) fw else del_mini junk fw))
          else Some (False, p)
      | _ \<Rightarrow> Some (False, p))"

subsection \<open>wol\<close>

definition wol_magic_tmpl :: "u8 list" where
  "wol_magic_tmpl = [0x08, 0x00, 0x00, 0x00] @ replicate 6 0xff @ replicate 6 0xff @ replicate 6 0xff @ [0x00, 0x00] @
     replicate 6 0xff @ replicate (6 + 16 * 6) 0"

definition prepare_wol :: "u8 list \<Rightarrow> u8 list \<Rightarrow> u8 list" where
  "prepare_wol wol_magic mac = fold (\<lambda>i. memcpy_at (30 + i * 6) (take 6 mac)) [0..<16] wol_magic"

lemma prepare_copies:
  assumes "length mac = 6" "30 + 6 * k \<le> length tmpl"
  shows "fold (\<lambda>i. memcpy_at (30 + i * 6) mac) [0..<k] tmpl = take 30 tmpl @ concat (replicate k mac) @ drop (30 + 6 * k) tmpl"
  using assms(2)
proof (induction k)
  case (Suc k)
  let ?w = "take 30 tmpl @ concat (replicate k mac) @ drop (30 + 6 * k) tmpl"
  have l: "length (take 30 tmpl @ concat (replicate k mac)) = 30 + 6 * k"
    using Suc.prems assms(1) by (simp add: length_concat sum_list_replicate)
  have "memcpy_at (30 + k * 6) mac ?w = take 30 tmpl @ concat (replicate k mac) @ mac @ drop (30 + 6 * Suc k) tmpl"
    unfolding memcpy_at_def append_assoc [symmetric]
    using l assms(1) by (simp add: mult.commute)
  moreover have "concat (replicate k mac) @ mac = concat (replicate (Suc k) mac)"
    by (induction k) simp_all
  ultimately show ?case
    using Suc by simp
qed simp

lemma copies_pattern:
  assumes "length mac = 6"
  shows "concat (replicate k mac) = map (\<lambda>i. mac ! (i mod 6)) [0..<6 * k]"
proof (induction k)
  case (Suc k)
  let ?f = "\<lambda>i. mac ! (i mod 6)"
  have m: "map ?f [6 * k..<6 * k + 6] = mac"
    using assms by (intro nth_equalityI) simp_all
  have u: "[0..<6 * Suc k] = [0..<6 * k] @ [6 * k..<6 * k + 6]"
    using upt_add_eq_append [of 0 "6 * k" 6] by (simp add: add.commute)
  have "concat (replicate (Suc k) mac) = concat (replicate k mac) @ mac"
    by (induction k) simp_all
  then show ?case
    by (simp only: u map_append m Suc.IH)
qed simp

lemma prepare_wol_frame:
  assumes "length mac = 6"
  shows "prepare_wol wol_magic_tmpl mac = take 24 wol_magic_tmpl @ magic_pattern ((!) mac) @ replicate 6 0"
proof -
  have "length wol_magic_tmpl = 132" "drop 126 wol_magic_tmpl = replicate 6 0"
    "take 30 wol_magic_tmpl = take 24 wol_magic_tmpl @ replicate 6 0xff"
    by (simp_all add: wol_magic_tmpl_def)
  with assms show ?thesis
    by (simp add: prepare_wol_def prepare_copies copies_pattern magic_pattern_def)
qed

text \<open>The frame matches no other address, at no offset: the pattern would need the last zeros to be a copy of the
  first byte of the address, and that byte to be \<^verbatim>\<open>0xff\<close>.\<close>

lemma frame_matches_one:
  assumes "length mac = 6" "length rest \<le> 80" "magic_loop reg 0 (magic_pattern ((!) mac) @ replicate 6 0 @ rest)" "i < 6"
  shows "reg i = mac ! i"
proof -
  let ?ds = "magic_pattern ((!) mac) @ replicate 6 0 @ rest"
  obtain pre post where ds: "?ds = pre @ magic_pattern reg @ post"
    using magic_loop_sound [OF assms(3), of "[]"] by auto
  let ?j = "length pre"
  have "length ?ds = ?j + 102 + length post"
    using arg_cong [OF ds, of length] by simp
  then have j: "?j \<le> 86"
    using assms(2) by simp
  have at: "?ds ! (?j + p) = (if p < 6 then 0xff else reg (p mod 6))" if "p < 102" for p
    unfolding ds using that by (simp add: nth_append magic_pattern_nth)
  have mac: "?ds ! q = mac ! (q mod 6)" if "6 \<le> q" "q < 102" for q
    using that by (simp add: nth_append magic_pattern_nth)
  show ?thesis
  proof (cases "?j = 0")
    case True
    then show ?thesis
      using at [of "6 + i"] mac [of "6 + i"] assms(4) by simp
  next
    case False
    define q where "q = (if ?j \<le> 6 then 6 else 6 * ((?j + 5) div 6))"
    have q: "?j \<le> q" "q < ?j + 6" "6 \<le> q" "q < 102" "q mod 6 = 0"
      using False j by (auto simp: q_def)
    moreover from q have "q - ?j < 6"
      by simp
    ultimately have "mac ! 0 = 0xff"
      using at [of "q - ?j"] mac [of q] by simp
    moreover have "(102 - ?j) mod 6 = (96 - ?j) mod 6"
      using j mod_add_self2 [of "96 - ?j" 6] by simp
    then have "?ds ! 102 = ?ds ! 96"
      using at [of "102 - ?j"] at [of "96 - ?j"] j False by simp
    then have "mac ! 0 = 0"
      using mac [of 96] by (simp add: nth_append)
    ultimately show ?thesis
      by simp
  qed
qed

lemma magic_loop_cong:
  "(\<And>i. i < 6 \<Longrightarrow> mac i = mac' i) \<Longrightarrow> magic_loop mac found ds = magic_loop mac' found ds"
  by (induction ds arbitrary: found) (simp_all add: magic_step_def Let_def)

lemma wol_frame_scanned:
  assumes "length mac = 6" "rd_bytes hdr 132 (f_ram s) = prepare_wol wol_magic_tmpl mac" "132 \<le> unat len" "unat len \<le> 200"
  shows "i3e_frame_control (f_ram s) hdr = 8"
    "wlan_rx_wol_magic_packet hdr len s \<longleftrightarrow> (\<forall>i < 6. reg_byte AR9170_MAC_REG_MAC_ADDR_L i s = mac ! i)"
proof -
  have parts: "rd_bytes hdr 24 (f_ram s) @ rd_bytes (hdr + 24) 108 (f_ram s) =
      take 24 wol_magic_tmpl @ magic_pattern ((!) mac) @ replicate 6 0"
    using assms(2) rd_bytes_append [of hdr 24 108 "f_ram s"] prepare_wol_frame [OF assms(1)] by simp
  have tmpl: "length (take 24 wol_magic_tmpl) = 24" "take 24 wol_magic_tmpl ! 0 = 8" "take 24 wol_magic_tmpl ! 1 = 0"
    by (simp_all add: wol_magic_tmpl_def)
  have head: "rd_bytes hdr 24 (f_ram s) = take 24 wol_magic_tmpl"
      and body: "rd_bytes (hdr + 24) 108 (f_ram s) = magic_pattern ((!) mac) @ replicate 6 0"
    using parts tmpl(1) by (simp_all add: append_eq_append_conv)
  have "f_ram s hdr = 8" "f_ram s (hdr + 1) = 0"
    using nth_rd_bytes [of 0 24 hdr "f_ram s"] nth_rd_bytes [of 1 24 hdr "f_ram s"] tmpl head by simp_all
  then show fc: "i3e_frame_control (f_ram s) hdr = 8"
    by (simp add: i3e_frame_control_def ld16_def le16_def)
  have hl: "ieee80211_hdrlen (i3e_frame_control (f_ram s) hdr) = 24"
    by (simp add: fc ieee80211_hdrlen_def ieee80211_has_a4_def ieee80211_is_data_qos_def)
  have n: "unat len - 24 = 108 + (unat len - 132)"
    using assms(3) by simp
  obtain rest where rest: "length rest = unat len - 132"
      "rd_bytes (hdr + 24) (unat len - 24) (f_ram s) = magic_pattern ((!) mac) @ replicate 6 0 @ rest"
    unfolding n rd_bytes_append body append_assoc by (metis length_rd_bytes)
  let ?reg = "\<lambda>i. reg_byte AR9170_MAC_REG_MAC_ADDR_L i s"
  have "wlan_rx_wol_magic_packet hdr len s \<longleftrightarrow> magic_loop ?reg 0 (magic_pattern ((!) mac) @ replicate 6 0 @ rest)"
    using rest(2) by (simp add: wlan_rx_wol_magic_packet_def hl)
  moreover have "magic_loop ((!) mac) 0 (magic_pattern ((!) mac) @ replicate 6 0 @ rest)"
    using magic_loop_run [of 102 "(!) mac" "replicate 6 0 @ rest"] by simp
  then have "magic_loop ?reg 0 (magic_pattern ((!) mac) @ replicate 6 0 @ rest)" if "\<forall>i < 6. ?reg i = mac ! i"
    using magic_loop_cong [of ?reg "(!) mac"] that by simp
  moreover have "length rest \<le> 80"
    using rest(1) assms(4) by simp
  ultimately show "wlan_rx_wol_magic_packet hdr len s \<longleftrightarrow> (\<forall>i < 6. ?reg i = mac ! i)"
    using frame_matches_one [OF assms(1), of rest ?reg] by blast
qed

lemma wake_up_or_False [simp]: "wake_up_or False s = s"
  by (cases s) (simp add: wake_up_or_def)

lemma wol_rx_data:
  assumes "i3e_frame_control (f_ram s) hdr = 8"
  shows "wol_rx rx_filter hdr len s =
    (if cf_wol (f_cfg s) \<and> wc_flags (wo_cmd (f_wol s)) AND CARL9170_WOL_MAGIC_PKT \<noteq> 0 \<and> rx_filter AND CARL9170_RX_FILTER_DATA \<noteq> 0
     then wake_up_or (wlan_rx_wol_magic_packet hdr len s) s else s)"
proof -
  have dis: "wlan_rx_wol_disconnect rx_filter hdr s = (False, s)"
    using assms by (simp add: wlan_rx_wol_disconnect_def ieee80211_is_deauth_def ieee80211_is_disassoc_def
        ieee80211_is_beacon_def is_kind_def Let_def)
  have probe: "\<not> wlan_rx_wol_probe_ssid hdr len (wake_up_or b s)" "\<not> wlan_rx_wol_probe_ssid hdr len s" for b
    using assms by (simp_all add: wlan_rx_wol_probe_ssid_def ieee80211_is_probe_req_def is_kind_def wake_up_or_def)
  show ?thesis
    unfolding wol_rx_def Let_def dis prod.case wake_up_or_False if_cancel
    by (cases "wc_flags (wo_cmd (f_wol s)) AND CARL9170_WOL_MAGIC_PKT \<noteq> 0 \<and> rx_filter AND CARL9170_RX_FILTER_DATA \<noteq> 0")
      (simp_all only: if_True if_False probe wake_up_or_False if_cancel simp_thms)
qed

lemma le_bytes:
  "ucast (le32 a b c d) = a" "ucast (drop_bit 8 (le32 a b c d)) = b" "ucast (drop_bit 16 (le32 a b c d)) = c"
  "ucast (drop_bit 24 (le32 a b c d)) = d" "ucast (w AND - 65536 OR ucast (le16 a b) :: u32) = a"
  "ucast (drop_bit 8 (w AND - 65536 OR ucast (le16 a b) :: u32)) = b"
  for a b c d :: u8
proof -
  have m: "(- 65536 :: u32) = NOT (mask 16)"
    by (simp add: mask_eq_exp_minus_1)
  show "ucast (le32 a b c d) = a" "ucast (drop_bit 8 (le32 a b c d)) = b" "ucast (drop_bit 16 (le32 a b c d)) = c"
      "ucast (drop_bit 24 (le32 a b c d)) = d" "ucast (w AND - 65536 OR ucast (le16 a b) :: u32) = a"
      "ucast (drop_bit 8 (w AND - 65536 OR ucast (le16 a b) :: u32)) = b"
    unfolding m by (rule bit_word_eqI; auto simp: le32_def le16_def bit_simps dest: bit_imp_le_length)+
qed

lemma wol_prepare_address:
  assumes "cf_wol (f_cfg s)" "i < 6"
  shows "reg_byte AR9170_MAC_REG_MAC_ADDR_L i (wol_prepare (wol_cmd cmd s)) = wc_mac (wo_cmd (f_wol s)) ! i"
proof -
  let ?m = "wc_mac (wo_cmd (f_wol s))" and ?s = "wol_prepare (wol_cmd cmd s)"
  have "hw_regs (f_hw ?s) AR9170_MAC_REG_MAC_ADDR_L = le32 (?m ! 0) (?m ! 1) (?m ! 2) (?m ! 3)"
    "hw_regs (f_hw ?s) (AR9170_MAC_REG_MAC_ADDR_L + 4) =
      hw_regs (f_hw s) (AR9170_MAC_REG_MAC_ADDR_L + 4) AND - 65536 OR ucast (le16 (?m ! 4) (?m ! 5))"
    using assms(1) by (simp_all add: wol_cmd_def wol_prepare_def Let_def set_reg_bytes6_def wlan_trigger_def set_reg_def
        get_clock_counter_def get_reg_def tick_def)
  then obtain w w' where w: "hw_regs (f_hw ?s) AR9170_MAC_REG_MAC_ADDR_L = w" "hw_regs (f_hw ?s) (AR9170_MAC_REG_MAC_ADDR_L + 4) = w'"
      "ucast w = ?m ! 0" "ucast (drop_bit 8 w) = ?m ! 1" "ucast (drop_bit 16 w) = ?m ! 2" "ucast (drop_bit 24 w) = ?m ! 3"
      "ucast w' = ?m ! 4" "ucast (drop_bit 8 w') = ?m ! 5"
    by (simp only: le_bytes)
  moreover have "i = 0 \<or> i = 1 \<or> i = 2 \<or> i = 3 \<or> i = 4 \<or> i = 5"
    using assms(2) by presburger
  ultimately show ?thesis
    by (elim disjE) (simp_all add: reg_byte_def)
qed

text \<open>C18. What the frame of the wol program does on a station that is prepared for wake-up. The frame, up to 68 bytes
  more behind it included, sets the wake-up flag exactly if magic packets were enabled by the command, the filter
  passes it as data, and the MAC address registers hold the address that the frame was made for. But the address in
  the registers is not the one of the wake-up command: \<^verbatim>\<open>wol_cmd\<close> copies only the first four bytes of the command, so
  \<^verbatim>\<open>wol_prepare\<close> writes the address that the context held before (zeros after start), and the station wakes only
  if that is its address.\<close>

theorem wol_frame_wakes:
  assumes "length mac = 6" "rd_bytes hdr 132 (f_ram s) = prepare_wol wol_magic_tmpl mac" "132 \<le> unat len" "unat len \<le> 200"
    and "cf_wol (f_cfg s0)"
  shows "(wo_wake_up (f_wol (wol_rx rx_filter hdr len s)) \<longleftrightarrow> wo_wake_up (f_wol s) \<or>
      (cf_wol (f_cfg s) \<and> wc_flags (wo_cmd (f_wol s)) AND CARL9170_WOL_MAGIC_PKT \<noteq> 0 \<and>
       rx_filter AND CARL9170_RX_FILTER_DATA \<noteq> 0 \<and> (\<forall>i < 6. reg_byte AR9170_MAC_REG_MAC_ADDR_L i s = mac ! i))) \<and>
    (\<forall>i < 6. reg_byte AR9170_MAC_REG_MAC_ADDR_L i (wol_prepare (wol_cmd cmd s0)) = wc_mac (wo_cmd (f_wol s0)) ! i)"
  using wol_rx_data [OF wol_frame_scanned(1) [OF assms(1-4)], of rx_filter len] wol_frame_scanned(2) [OF assms(1-4)]
    wol_prepare_address [OF assms(5)] by (auto simp: wake_up_or_def)

theorem wol_frame_wakes_witness:
  "\<exists>s. wo_wake_up (f_wol (wol_rx CARL9170_RX_FILTER_DATA 0x110000 136 s)) \<and> \<not> wo_wake_up (f_wol s)"
proof -
  let ?m = "prepare_wol wol_magic_tmpl (replicate 6 5)"
  define s where "s = (zero_state (default_config\<lparr> cf_wol := True \<rparr>))\<lparr> f_ram := wr_bytes 0x110000 ?m (\<lambda>_. 0),
    f_hw := (f_hw (zero_state default_config))\<lparr> hw_regs := \<lambda>_. 0x05050505 \<rparr>,
    f_wol := wo_cmd_update (wc_flags_update (\<lambda>_. CARL9170_WOL_MAGIC_PKT)) (f_wol (zero_state default_config)) \<rparr>"
  have "length ?m = 132"
    by (subst prepare_wol_frame) (simp_all add: wol_magic_tmpl_def)
  then have "rd_bytes 0x110000 132 (f_ram s) = ?m"
    by (simp add: s_def rd_wr_same)
  moreover have "\<forall>i < 6. reg_byte AR9170_MAC_REG_MAC_ADDR_L i s = replicate 6 5 ! i"
  proof (intro allI impI)
    fix i :: nat
    assume "i < 6"
    moreover have "i mod 4 = 0 \<or> i mod 4 = 1 \<or> i mod 4 = 2 \<or> i mod 4 = 3"
      by presburger
    ultimately show "reg_byte AR9170_MAC_REG_MAC_ADDR_L i s = replicate 6 5 ! i"
      by (auto simp: reg_byte_def s_def)
  qed
  moreover have "cf_wol (f_cfg s)" "wc_flags (wo_cmd (f_wol s)) = CARL9170_WOL_MAGIC_PKT" "\<not> wo_wake_up (f_wol s)"
    by (simp_all add: s_def zero_state_def)
  ultimately have "wo_wake_up (f_wol (wol_rx CARL9170_RX_FILTER_DATA 0x110000 136 s))"
    using wol_frame_wakes [of "replicate 6 5" "0x110000" s 136 s CARL9170_RX_FILTER_DATA] by simp
  then show ?thesis
    using \<open>\<not> wo_wake_up (f_wol s)\<close> by blast
qed

end
