(* ===== verification/FwDesc.thy ===== *)
theory FwDesc
  imports HostTools "HOL-Library.Signed_Division"
begin

text \<open>The descriptors that the firmware carries (carlfw/src/fw.c, carlfw/include/fwdsc.h): what the build puts
  behind the code, and that the host tools take such a file. The addresses the linker chooses and the
  version that genapi.sh writes are arguments, the members of \<^verbatim>\<open>fw_build\<close>.\<close>

subsection \<open>Dates (include/shared/fwdesc.h)\<close>

definition CARL9170FW_SET_DAY :: "int \<Rightarrow> int" where "CARL9170FW_SET_DAY d = (d - 1) smod 31"
definition CARL9170FW_SET_MONTH :: "int \<Rightarrow> int" where "CARL9170FW_SET_MONTH m = ((m - 1) smod 12) * 31"
definition CARL9170FW_SET_YEAR :: "int \<Rightarrow> int" where "CARL9170FW_SET_YEAR y = (y - 10) * 372"

definition CARL9170FW_GET_DAY :: "u32 \<Rightarrow> u32" where "CARL9170FW_GET_DAY d = d mod 31 + 1"
definition CARL9170FW_GET_MONTH :: "u32 \<Rightarrow> u32" where "CARL9170FW_GET_MONTH m = m div 31 mod 12 + 1"
definition CARL9170FW_GET_YEAR :: "u32 \<Rightarrow> u32" where "CARL9170FW_GET_YEAR y = y div 372 + 10"

subsection \<open>Features\<close>

abbreviation (input) CARL9170FW_DUMMY_FEATURE :: nat where "CARL9170FW_DUMMY_FEATURE \<equiv> 0"
abbreviation (input) CARL9170FW_USB_INIT_FIRMWARE :: nat where "CARL9170FW_USB_INIT_FIRMWARE \<equiv> 2"
abbreviation (input) CARL9170FW_USB_RESP_EP2 :: nat where "CARL9170FW_USB_RESP_EP2 \<equiv> 3"
abbreviation (input) CARL9170FW_USB_UP_STREAM :: nat where "CARL9170FW_USB_UP_STREAM \<equiv> 5"
abbreviation (input) CARL9170FW_COMMAND_PHY :: nat where "CARL9170FW_COMMAND_PHY \<equiv> 7"
abbreviation (input) CARL9170FW_COMMAND_CAM :: nat where "CARL9170FW_COMMAND_CAM \<equiv> 8"
abbreviation (input) CARL9170FW_WLANTX_CAB :: nat where "CARL9170FW_WLANTX_CAB \<equiv> 9"
abbreviation (input) CARL9170FW_HANDLE_BACK_REQ :: nat where "CARL9170FW_HANDLE_BACK_REQ \<equiv> 10"
abbreviation (input) CARL9170FW_GPIO_INTERRUPT :: nat where "CARL9170FW_GPIO_INTERRUPT \<equiv> 11"
abbreviation (input) CARL9170FW_PSM :: nat where "CARL9170FW_PSM \<equiv> 12"
abbreviation (input) CARL9170FW_RX_FILTER :: nat where "CARL9170FW_RX_FILTER \<equiv> 13"
abbreviation (input) CARL9170FW_WOL :: nat where "CARL9170FW_WOL \<equiv> 14"
abbreviation (input) CARL9170FW_FIXED_5GHZ_PSM :: nat where "CARL9170FW_FIXED_5GHZ_PSM \<equiv> 15"
abbreviation (input) CARL9170FW_HW_COUNTERS :: nat where "CARL9170FW_HW_COUNTERS \<equiv> 16"
abbreviation (input) CARL9170FW_RX_BA_FILTER :: nat where "CARL9170FW_RX_BA_FILTER \<equiv> 17"
abbreviation (input) CARL9170FW_HAS_WREGB_CMD :: nat where "CARL9170FW_HAS_WREGB_CMD \<equiv> 18"

subsection \<open>The descriptors\<close>

record fw_build =
  fb_config :: fw_config
  fb_day :: int
  fb_month :: int
  fb_year :: int
  fb_version :: "u8 list"
  fb_sequence :: u32
  fb_counter :: u32
  fb_rx_filter :: u32

definition text_field :: "nat \<Rightarrow> u8 list \<Rightarrow> u8 list" where
  "text_field n cs = take n (cs @ replicate n 0)"

definition feature_bits :: "nat list \<Rightarrow> u32" where
  "feature_bits fs = fold (\<lambda>f w. w OR push_bit f 1) fs 0"

definition fw_features :: "fw_build \<Rightarrow> nat list" where
  "fw_features b =
     [CARL9170FW_DUMMY_FEATURE, CARL9170FW_USB_RESP_EP2, CARL9170FW_HANDLE_BACK_REQ, CARL9170FW_RX_FILTER,
      CARL9170FW_HW_COUNTERS, CARL9170FW_RX_BA_FILTER, CARL9170FW_USB_INIT_FIRMWARE, CARL9170FW_HAS_WREGB_CMD,
      CARL9170FW_USB_UP_STREAM, CARL9170FW_COMMAND_PHY, CARL9170FW_PSM, CARL9170FW_FIXED_5GHZ_PSM,
      CARL9170FW_COMMAND_CAM, CARL9170FW_WLANTX_CAB, CARL9170FW_GPIO_INTERRUPT] @
     (if cf_wol (fb_config b) then [CARL9170FW_WOL] else [])"

definition fw_otus_desc :: "fw_build \<Rightarrow> u8 list" where
  "fw_otus_desc b = fill_desc OTUS_MAGIC 32 6 CARL9170FW_OTUS_DESC_CUR_VER @
     bytes32 (feature_bits (fw_features b)) @ bytes32 0x200000 @ bytes32 (reserved_bcn 0) @
     bytes16 (of_nat (CARL9170_INTF_NUM * BCN_LENGTH_MAX)) @ bytes16 0 @ bytes16 (of_nat AR9170_BLOCK_SIZE) @ bytes16 8192 @
     [of_nat AR9170_TX_BLOCK_NUMBER, CARL9170_INT_RQ_CACHES, 1, of_nat CARL9170_INTF_NUM]"

definition fw_txsq_desc :: "fw_build \<Rightarrow> u8 list" where
  "fw_txsq_desc b = fill_desc [0x54, 0x58, 0x53, 0x51] 12 1 1 @ bytes32 (fb_sequence b)"

definition fw_wol_desc :: "u8 list" where
  "fw_wol_desc = fill_desc [0x57, 0x4f, 0x4c, 0] 12 1 1 @ bytes32 (push_bit 1 1 OR push_bit 2 1)"

definition fw_date :: "fw_build \<Rightarrow> u32" where
  "fw_date b = word_of_int (CARL9170FW_SET_DAY (fb_day b) + CARL9170FW_SET_MONTH (fb_month b) + CARL9170FW_SET_YEAR (fb_year b))"

definition fw_motd_desc :: "fw_build \<Rightarrow> u8 list" where
  "fw_motd_desc b = fill_desc [0x4d, 0x4f, 0x54, 0x44] 56 1 2 @ bytes32 (fw_date b) @
     text_field 24 (map (of_nat \<circ> of_char) ''Community AR9170 Linux'') @ text_field 20 (fb_version b)"

definition fw_dbg_desc :: "fw_build \<Rightarrow> u8 list" where
  "fw_dbg_desc b = fill_desc [0x44, 0x42, 0x47, 0] 28 1 3 @
     bytes32 0 @ bytes32 (fb_counter b) @ bytes32 0 @ bytes32 0 @ bytes32 (fb_rx_filter b)"

definition fw_descs :: "fw_build \<Rightarrow> u8 list list" where
  "fw_descs b = [fw_otus_desc b, fw_txsq_desc b] @ (if cf_wol (fb_config b) then [fw_wol_desc] else []) @
     [fw_motd_desc b, fw_dbg_desc b]"

definition carl9170fw_desc :: "fw_build \<Rightarrow> u8 list" where
  "carl9170fw_desc b = concat (fw_descs b) @ fill_desc LAST_MAGIC 8 1 CARL9170FW_LAST_DESC_CUR_VER"

subsection \<open>Properties\<close>

lemma smod_small: "0 \<le> x \<Longrightarrow> x < n \<Longrightarrow> x smod n = (x :: int)"
  by (auto simp: signed_modulo_int_def signed_divide_int_def sgn_if)

lemma date_split:
  assumes "d < 31" "m < 12" "y < 990" "fb_day b = int d + 1" "fb_month b = int m + 1" "fb_year b = int y + 10"
  shows "unat (fw_date b) = d + 31 * (m + 12 * y)"
proof -
  have "CARL9170FW_SET_DAY (fb_day b) = int d" "CARL9170FW_SET_MONTH (fb_month b) = int (31 * m)"
      "CARL9170FW_SET_YEAR (fb_year b) = int (372 * y)"
    using assms by (simp_all add: CARL9170FW_SET_DAY_def CARL9170FW_SET_MONTH_def CARL9170FW_SET_YEAR_def smod_small)
  then have "fw_date b = word_of_int (int d + int (31 * m) + int (372 * y))"
    by (simp only: fw_date_def)
  also have "\<dots> = of_nat (d + 31 * (m + 12 * y))"
    by simp
  finally show ?thesis
    using assms(1-3) by (simp only: unat_of_nat) simp
qed

text \<open>The date that the build packs into the descriptor is the date that comes out of it.\<close>

lemma fw_date_parts:
  assumes "1 \<le> fb_day b" "fb_day b \<le> 31" "1 \<le> fb_month b" "fb_month b \<le> 12" "10 \<le> fb_year b" "fb_year b < 1000"
  shows "uint (CARL9170FW_GET_DAY (fw_date b)) = fb_day b \<and> uint (CARL9170FW_GET_MONTH (fw_date b)) = fb_month b \<and>
    uint (CARL9170FW_GET_YEAR (fw_date b)) = fb_year b"
proof -
  define d m y where "d = nat (fb_day b - 1)" and "m = nat (fb_month b - 1)" and "y = nat (fb_year b - 10)"
  have r: "d < 31" "m < 12" "y < 990" "fb_day b = int d + 1" "fb_month b = int m + 1" "fb_year b = int y + 10"
    using assms by (simp_all add: d_def m_def y_def)
  let ?n = "d + 31 * (m + 12 * y)"
  have w: "unat (fw_date b) = ?n"
    using date_split [OF r] .
  have n: "?n mod 31 = d" "?n div 31 = m + 12 * y"
    using r(1) by (simp_all del: distrib_left_numeral)
  have "?n div 372 = ?n div 31 div 12"
    using div_mult2_eq [of ?n 31 12] by simp
  then have y: "?n div 372 = y" "?n div 31 mod 12 = m"
    using r(2) unfolding n(2) by simp_all
  have "unat (CARL9170FW_GET_DAY (fw_date b)) = d + 1" "unat (CARL9170FW_GET_MONTH (fw_date b)) = m + 1"
      "unat (CARL9170FW_GET_YEAR (fw_date b)) = y + 10"
    using r(1-3) n(1) y
    unfolding CARL9170FW_GET_DAY_def CARL9170FW_GET_MONTH_def CARL9170FW_GET_YEAR_def unat_word_ariths unat_mod unat_div w
    by (simp_all del: div_mult_self2 mod_mult_self2 add: unat_mod unat_div w)
  then show ?thesis
    using r(4-6) by (simp add: uint_nat)
qed

lemma fw_desc_chainable:
  assumes "d \<in> set (fw_descs b)"
  shows "chainable d \<and> \<not> is_chk d"
proof -
  have "length (text_field n cs) = n" for n cs
    by (simp add: text_field_def)
  with assms show ?thesis
    by (auto simp: fw_descs_def fw_otus_desc_def fw_txsq_desc_def fw_wol_desc_def fw_motd_desc_def fw_dbg_desc_def
        chainable_def desc_len_def desc_magic_def fill_desc_def bytes16_def le16_def carl9170fw_desc_cmp_def
        split: if_splits)
qed


lemma last_desc_magic:
  assumes "\<And>q. 0 < q \<Longrightarrow> take 4 (drop q (xs @ c @ last_desc)) \<noteq> OTUS_MAGIC" "0 < q"
  shows "take 4 (drop q (xs @ last_desc)) \<noteq> OTUS_MAGIC"
proof
  assume m: "take 4 (drop q (xs @ last_desc)) = OTUS_MAGIC"
  have "q < length xs"
  proof (rule ccontr)
    assume "\<not> q < length xs"
    then have "take 4 (drop q (xs @ last_desc)) = take 4 (drop (q - length xs) last_desc)"
      by simp
    then have "0x4f \<in> set last_desc"
      using m by (metis in_set_dropD in_set_takeD list.set_intros(1))
    then show False
      by (simp add: last_desc_props(5))
  qed
  moreover have "q + 4 \<le> length xs"
  proof (rule ccontr)
    assume "\<not> q + 4 \<le> length xs"
    then obtain k where k: "4 - (length xs - q) = Suc k"
      using \<open>q < length xs\<close> by (metis Nat.le_diff_conv2 add.commute diff_is_0_eq less_imp_le_nat not0_implies_Suc)
    have "take 4 (drop q (xs @ last_desc)) = take 4 (drop q xs) @ take (Suc k) last_desc"
      using \<open>q < length xs\<close> k by simp
    then have "0x4c \<in> set OTUS_MAGIC"
      unfolding m by (simp add: last_desc_props(5))
    then show False
      by simp
  qed
  ultimately show False
    using m assms(1) [OF assms(2)] by simp
qed

lemma descs_length: "length (concat (fw_descs b)) < 200"
proof -
  have "length (text_field n cs) = n" for n cs
    by (simp add: text_field_def)
  then show ?thesis
    by (simp add: fw_descs_def fw_otus_desc_def fw_txsq_desc_def fw_wol_desc_def fw_motd_desc_def fw_dbg_desc_def fill_desc_def)
qed

lemma fw_otus_props:
  "fw_descs b \<noteq> []" "hd (fw_descs b) = fw_otus_desc b" "length (fw_otus_desc b) = 32" "fw_otus_desc b ! 4 = 32"
  "carl9170fw_desc_cmp (fw_otus_desc b) OTUS_MAGIC 32 7"
  by (simp_all add: fw_descs_def fw_otus_desc_def fill_desc_def carl9170fw_desc_cmp_def desc_magic_def bytes16_def
      desc_len_def le16_def CHECK_HDR_VERSION_def desc_min_ver_def desc_cur_ver_def)

text \<open>A file as the build leaves it is an image that loads, with the descriptors of the build.\<close>

lemma load_fresh:
  assumes "pr_files p name = Some (code @ carl9170fw_desc b)" "\<And>n. \<not> pr_oom p n" "code \<noteq> []" "length code < 2147480000"
    and "\<And>q. 0 < q \<Longrightarrow> take 4 (drop q (concat (fw_descs b) @ last_desc)) \<noteq> OTUS_MAGIC"
  shows "\<exists>fw ys. fw_fw fw = \<lparr> fl_name = Some name, fl_data = code \<rparr> \<and> fl_name (fw_hdr fw) = None \<and>
    pr_writable (fw_process fw) = pr_writable p \<and> pr_oom (fw_process fw) = pr_oom p \<and> pr_files (fw_process fw) = pr_files p \<and>
    carlfw_ok fw ys \<and> map (fw_entries fw) ys = fw_descs b \<and> carlfw_load name p = Some (Inr fw)"
proof -
  have img: "pr_files p name = Some (code @ concat (fw_descs b) @ last_desc)"
    using assms(1) by (simp add: carl9170fw_desc_def last_desc_def)
  have small: "length code + length (concat (fw_descs b)) + 8 < 2147483648"
    using assms(4) descs_length [of b] by simp
  have hd: "fw_descs b \<noteq> []" "carl9170fw_desc_cmp (hd (fw_descs b)) OTUS_MAGIC 32 7" "hd (fw_descs b) ! 4 \<notin> {0x54, 0x41, 0x52}"
    by (simp_all add: fw_otus_props)
  have ch: "\<And>d. d \<in> set (fw_descs b) \<Longrightarrow> chainable d"
    using fw_desc_chainable by blast
  obtain fw ys where fw: "fw_fw fw = \<lparr> fl_name = Some name, fl_data = code \<rparr>" "fl_name (fw_hdr fw) = None"
      "pr_writable (fw_process fw) = pr_writable p" "pr_oom (fw_process fw) = pr_oom p" "pr_files (fw_process fw) = pr_files p"
      "carlfw_ok fw ys" "map (fw_entries fw) ys = fw_descs b"
      "carlfw_check_crc32s fw \<in> {Some (Inr ()), Some (Inl ENODATA)} \<longrightarrow> carlfw_load name p = Some (Inr fw)"
    using load_chain [OF img assms(2,3) ch hd assms(5) small] by blast
  have "carlfw_check_crc32s fw = Some (Inl ENODATA)"
    by (rule check_crc32s_none [OF fw(6)]) (use fw(7) fw_desc_chainable in simp)
  with fw show ?thesis
    by (intro exI [of _ fw] exI [of _ ys]) simp
qed


text \<open>C12. The checksum program on a fresh build: it succeeds, keeps the code and the descriptors, puts a
  checksum descriptor behind them, and the resulting file loads with checksums that verify.\<close>

theorem fresh_firmware_checksum:
  assumes "pr_files p name = Some (code @ carl9170fw_desc b)" "code \<noteq> []" "length code < 2147480000"
    and "pr_writable p name" "\<forall>n. \<not> pr_oom p n" "new = fw_descs b @ [chk_desc code (fw_descs b)]"
    and "\<forall>q > 0. take 4 (drop q (concat new @ last_desc)) \<noteq> OTUS_MAGIC"
  shows "\<exists>p' fw. checksum_main [name] p = Some (True, p') \<and> pr_files p' name = Some (code @ concat new @ last_desc) \<and>
    carlfw_load name p' = Some (Inr fw) \<and> fl_data (fw_fw fw) = code \<and> carlfw_check_crc32s fw = Some (Inr ())"
proof -
  let ?ds = "fw_descs b"
  have ch: "chainable d \<and> \<not> is_chk d" if "d \<in> set ?ds" for d
    using fw_desc_chainable that .
  have magic: "take 4 (drop q (concat new @ last_desc)) \<noteq> OTUS_MAGIC" if "0 < q" for q
    using assms(7) that by blast
  then have "take 4 (drop q (concat ?ds @ last_desc)) \<noteq> OTUS_MAGIC" if "0 < q" for q
    using last_desc_magic [of "concat ?ds" "chk_desc code ?ds" q] that by (simp add: assms(6))
  then obtain fw ys where fw: "fw_fw fw = \<lparr> fl_name = Some name, fl_data = code \<rparr>" "fl_name (fw_hdr fw) = None"
      "pr_writable (fw_process fw) = pr_writable p" "pr_oom (fw_process fw) = pr_oom p"
      "carlfw_ok fw ys" "map (fw_entries fw) ys = ?ds" "carlfw_load name p = Some (Inr fw)"
    using load_fresh [OF assms(1) _ assms(2,3)] assms(5) by blast
  have none: "filter is_chk ?ds = []" "filter (Not \<circ> is_chk) ?ds = ?ds"
    using ch by (simp_all add: filter_empty_conv filter_id_conv)
  obtain fw' where store: "carlfw_store fw = Some (None, fw')" "pr_oom (fw_process fw') = pr_oom (fw_process fw)"
      "pr_files (fw_process fw') name = Some (code @ concat new @ last_desc)"
    using store_image [of fw ys name code] fw assms(2,4,5) ch none descs_length [of b] by (auto simp: assms(6))
  have sz: "length code + length (concat new) + 8 < 2147483648"
    using descs_length [of b] assms(3) by (simp add: assms(6) chk_desc_props(1))
  have oom: "\<not> pr_oom (fw_process fw') n" for n
    using store(2) fw(4) assms(5) by simp
  have hd: "?ds \<noteq> []" "carl9170fw_desc_cmp (hd ?ds) OTUS_MAGIC 32 7" "hd ?ds ! 4 \<notin> {0x54, 0x41, 0x52}"
    by (simp_all add: fw_otus_props)
  obtain fw2 where "carlfw_load name (fw_process fw') = Some (Inr fw2)" "fl_data (fw_fw fw2) = code"
      "carlfw_check_crc32s fw2 = Some (Inr ())"
    using load_image [OF store(3) oom assms(2,6) ch hd magic sz] by blast
  moreover have "checksum_main [name] p = Some (True, fw_process fw')"
    using fw(7) store(1) by (simp add: checksum_main_def)
  ultimately show ?thesis
    using store(3) by blast
qed


subsection \<open>A miniboot image\<close>

text \<open>The OTUS descriptor with a miniboot image of \<^verbatim>\<open>n\<close> bytes.\<close>

definition otus_with_miniboot :: "nat \<Rightarrow> u8 list \<Rightarrow> u8 list" where
  "otus_with_miniboot n d = memcpy_at 22 (bytes16 (of_nat n)) (memcpy_at 8 (bytes32 (otus_feature_set d OR 2)) d)"

lemma memcpy_at_props:
  assumes "p + length bs \<le> length xs"
  shows "length (memcpy_at p bs xs) = length xs" "n \<le> p \<Longrightarrow> take n (memcpy_at p bs xs) = take n xs"
    "i < p \<Longrightarrow> memcpy_at p bs xs ! i = xs ! i"
  using assms by (auto simp: memcpy_at_def nth_append)

lemma otus_with_miniboot_props:
  assumes "32 \<le> length d"
  shows "length (otus_with_miniboot n d) = length d" "i < 8 \<Longrightarrow> otus_with_miniboot n d ! i = d ! i"
    "take 8 (otus_with_miniboot n d) = take 8 d"
  using assms by (simp_all add: otus_with_miniboot_def memcpy_at_props)

lemma same_head:
  assumes "\<And>i. i < 8 \<Longrightarrow> d ! i = (d' :: u8 list) ! i" "take 4 d = take 4 d'"
  shows "desc_len d = desc_len d'" "carl9170fw_desc_cmp d m l v = carl9170fw_desc_cmp d' m l v" "desc_magic d = desc_magic d'"
  using assms by (simp_all add: desc_len_def carl9170fw_desc_cmp_def desc_magic_def CHECK_HDR_VERSION_def desc_cur_ver_def
      desc_min_ver_def)

lemma otus_with_miniboot_same:
  assumes "32 \<le> length d"
  shows "desc_len (otus_with_miniboot n d) = desc_len d" "is_chk (otus_with_miniboot n d) = is_chk d"
    "chainable (otus_with_miniboot n d) = chainable d"
proof -
  let ?d = "otus_with_miniboot n d"
  have "take 4 ?d = take 4 (take 8 ?d)"
    by simp
  then have t: "take 4 ?d = take 4 d"
    using otus_with_miniboot_props(3) [OF assms] by simp
  note h = same_head [OF otus_with_miniboot_props(2) [OF assms] t]
  show "desc_len ?d = desc_len d" "is_chk ?d = is_chk d" "chainable ?d = chainable d"
    using h otus_with_miniboot_props(1) [OF assms] by (simp_all add: chainable_def)
qed

lemma set_miniboot_ok:
  fixes n :: nat
  assumes "carlfw_ok fw (x # xs)" "32 \<le> length (fw_entries fw x)"
  defines "fw' \<equiv> set_miniboot (otus_feature_set (fw_entries fw x) OR 2) (of_nat n) x fw"
  shows "carlfw_ok fw' (x # xs)" "map (fw_entries fw') (x # xs) = otus_with_miniboot n (fw_entries fw x) # map (fw_entries fw) xs"
    "fw_fw fw' = fw_fw fw" "fw_hdr fw' = fw_hdr fw" "fw_process fw' = fw_process fw"
proof -
  have e: "fw_entries fw' = (fw_entries fw)(x := otus_with_miniboot n (fw_entries fw x))"
    by (simp add: fw'_def set_miniboot_def otus_with_miniboot_def)
  have x: "x \<notin> set xs"
    using assms(1) by (simp add: carlfw_ok_def linked_def)
  then show "map (fw_entries fw') (x # xs) = otus_with_miniboot n (fw_entries fw x) # map (fw_entries fw) xs"
    by (simp add: e)
  have len: "desc_len (fw_entries fw' y) = desc_len (fw_entries fw y)" "length (fw_entries fw' y) = length (fw_entries fw y)" for y
    using otus_with_miniboot_same(1) [OF assms(2)] otus_with_miniboot_props(1) [OF assms(2)] by (simp_all add: e)
  have "fw_links fw' = fw_links fw" "fw_desc_list_entries fw' = fw_desc_list_entries fw" "fw_desc_list_len fw' = fw_desc_list_len fw"
    and rest: "fw_fw fw' = fw_fw fw" "fw_hdr fw' = fw_hdr fw" "fw_process fw' = fw_process fw"
    by (simp_all add: fw'_def set_miniboot_def)
  with assms(1) show "carlfw_ok fw' (x # xs)"
    by (simp add: carlfw_ok_def len o_def)
  show "fw_fw fw' = fw_fw fw" "fw_hdr fw' = fw_hdr fw" "fw_process fw' = fw_process fw"
    using rest .
qed

lemma headroom_ok:
  assumes "\<And>n. \<not> pr_oom (fw_process fw) n" "carlfw_ok fw ys" "m \<noteq> []" "32 \<le> length m + length code" "length m + length code \<le> 16384"
    and "fw_fw fw = \<lparr> fl_name = Some name, fl_data = code \<rparr>"
  shows "\<exists>fw'. carlfw_mod_headroom junk (int (length m)) fw = Some (Inr fw') \<and>
    memcpy_at 0 m (fl_data (fw_fw fw')) = m @ code \<and> fl_name (fw_fw fw') = Some name \<and> fw_hdr fw' = fw_hdr fw \<and>
    carlfw_ok fw' ys \<and> fw_entries fw' = fw_entries fw \<and> pr_writable (fw_process fw') = pr_writable (fw_process fw) \<and>
    pr_oom (fw_process fw') = pr_oom (fw_process fw)"
proof -
  let ?n = "int (length code) + int (length m)"
  have "?n = int (length code + length m)"
    by simp
  then have "unat (word_of_int ?n :: u32) = length code + length m"
    using assms(5) by (simp only: of_int_of_nat_eq unat_of_nat) simp
  then have size: "carl9170fw_size_check (unat (word_of_int ?n :: u32))"
    using assms(4,5) by (simp add: carl9170fw_size_check_def)
  let ?d = "resize junk (length m + length code) code"
  have d: "length ?d = length m + length code"
    by (simp add: resize_def)
  have c: "take (length code) ?d = code"
    by (rule nth_equalityI) (simp_all add: resize_def)
  define fw' where "fw' = fw_fw_update (fl_data_update (\<lambda>d. take (length m) d @ take (length code) d) \<circ>
    fl_data_update (\<lambda>_. ?d)) (fw_process_update (pr_allocs_update Suc) fw)"
  have "nat ?n = length m + length code"
    by simp
  then have "carlfw_mod_headroom junk (int (length m)) fw = Some (Inr fw')"
    using assms(3,6) size d malloc_ok [of fw] assms(1)
    by (simp add: carlfw_mod_headroom_def carlfw_mod_tailroom_def fw'_def)
  moreover have "memcpy_at 0 m (take (length m) ?d @ code) = m @ code"
    using d by (simp add: memcpy_at_def)
  ultimately show ?thesis
    using assms(2,6) by (intro exI [of _ fw']) (auto simp: fw'_def carlfw_ok_def c)
qed


lemma not_miniboot: "\<not> carl9170fw_supports (otus_feature_set (fw_otus_desc b)) CARL9170FW_MINIBOOT"
  by (cases "cf_wol (fb_config b)") (simp_all add: carl9170fw_supports_def otus_feature_set_def fw_otus_desc_def fill_desc_def
      le32_at_def feature_bits_def fw_features_def bytes16_def bytes32_def le32_def)

lemma miniboot_descs:
  assumes "ds = otus_with_miniboot n (fw_otus_desc b) # tl (fw_descs b)"
  shows "d \<in> set ds \<Longrightarrow> chainable d \<and> \<not> is_chk d" "length (concat ds) < 2147483648"
proof -
  let ?otus = "fw_otus_desc b"
  have otus: "?otus \<in> set (fw_descs b)" "32 \<le> length ?otus"
    using fw_otus_props(1-3) [of b] hd_in_set by (metis, simp)
  assume "d \<in> set ds"
  then consider "d = otus_with_miniboot n ?otus" | "d \<in> set (fw_descs b)"
    using assms fw_otus_props(1) [of b] by (auto dest: list.set_sel(2))
  then show "chainable d \<and> \<not> is_chk d"
    using fw_desc_chainable otus(1) otus_with_miniboot_same [OF otus(2)] by cases auto
next
  have "length (concat ds) = length (concat (fw_descs b))"
    using otus_with_miniboot_props(1) [of "fw_otus_desc b" n] fw_otus_props(1-3) [of b] assms by (cases "fw_descs b") simp_all
  then show "length (concat ds) < 2147483648"
    using descs_length [of b] by simp
qed

text \<open>C11. The miniboot program adds an image to a fresh build: the new file holds the miniboot image in
  front of the code, an OTUS descriptor that announces it and its length, the other descriptors as
  they were, and checksums over all of it. What uninitialised memory holds does not matter.\<close>

theorem miniboot_adds_image:
  assumes "pr_files p name = Some (code @ carl9170fw_desc b)" "code \<noteq> []" "pr_files p mb = Some m" "m \<noteq> []"
    and "32 \<le> length m + length code" "length m + length code \<le> 16384"
    and "pr_writable p name" "\<forall>n. \<not> pr_oom p n"
    and "\<forall>q > 0. take 4 (drop q (concat (fw_descs b) @ last_desc)) \<noteq> OTUS_MAGIC"
    and "ds = otus_with_miniboot (length m) (fw_otus_desc b) # tl (fw_descs b)"
  shows "\<exists>p'. miniboot_main junk [''a'', name, mb] p = Some (True, p') \<and>
    pr_files p' name = Some (m @ code @ concat ds @ chk_desc (m @ code) ds @ last_desc)"
proof -
  let ?otus = "fw_otus_desc b"
  have free: "\<not> pr_oom p n" for n
    using assms(8) by simp
  have magic: "take 4 (drop q (concat (fw_descs b) @ last_desc)) \<noteq> OTUS_MAGIC" if "0 < q" for q
    using assms(9) that by blast
  have "length code < 2147480000"
    using assms(6) by simp
  then obtain fw ys where fw: "fw_fw fw = \<lparr> fl_name = Some name, fl_data = code \<rparr>" "fl_name (fw_hdr fw) = None"
      "pr_writable (fw_process fw) = pr_writable p" "pr_oom (fw_process fw) = pr_oom p" "pr_files (fw_process fw) = pr_files p"
      "carlfw_ok fw ys" "map (fw_entries fw) ys = fw_descs b" "carlfw_load name p = Some (Inr fw)"
    using load_fresh [OF assms(1) free assms(2) _ magic] by blast
  have oom: "\<not> pr_oom (fw_process fw) n" for n
    using fw(4) free by simp
  have "hd (map (fw_entries fw) ys) = ?otus" "map (fw_entries fw) ys \<noteq> []"
    using fw(7) fw_otus_props(1,2) by simp_all
  then obtain x xs where ys: "ys = x # xs" "fw_entries fw x = ?otus" "map (fw_entries fw) xs = tl (fw_descs b)"
    using fw(7) by (cases ys) (auto dest: arg_cong [where f = tl])
  have found: "carlfw_find_desc OTUS_MAGIC 32 CARL9170FW_OTUS_DESC_CUR_VER fw = Some (Some x)"
    using find_ok [OF fw(6)] fw_otus_props(5) [of b] by (simp add: ys(1,2))
  have "32 \<le> length (fw_entries fw x)"
    using fw_otus_props(3) ys(2) by simp
  note s = set_miniboot_ok [OF fw(6) [unfolded ys(1)] this, of "length m", unfolded ys(2,3)]
  let ?fw1 = "set_miniboot (otus_feature_set ?otus OR 2) (of_nat (length m)) x fw"
  have oom1: "\<not> pr_oom (fw_process ?fw1) n" for n
    using s(5) oom by simp
  obtain fw2 where fw2: "carlfw_mod_headroom junk (int (length m)) ?fw1 = Some (Inr fw2)"
      "memcpy_at 0 m (fl_data (fw_fw fw2)) = m @ code" "fl_name (fw_fw fw2) = Some name" "fw_hdr fw2 = fw_hdr ?fw1"
      "carlfw_ok fw2 (x # xs)" "fw_entries fw2 = fw_entries ?fw1" "pr_writable (fw_process fw2) = pr_writable (fw_process ?fw1)"
      "pr_oom (fw_process fw2) = pr_oom (fw_process ?fw1)"
    using headroom_ok [OF oom1 s(1) assms(4-6)] s(3) fw(1) by auto
  let ?fw3 = "fw_fw_update (fl_data_update (memcpy_at 0 m)) fw2"
  have ok3: "carlfw_ok ?fw3 (x # xs)"
    using fw2(5) by (simp add: carlfw_ok_def)
  have ds: "map (fw_entries ?fw3) (x # xs) = ds"
    using fw2(6) s(2) assms(10) by simp
  note ch = miniboot_descs(1) [OF assms(10)]
  have none: "filter is_chk ds = []" "filter (Not \<circ> is_chk) ds = ds"
    using ch by (simp_all add: filter_empty_conv filter_id_conv)
  have oom3: "\<not> pr_oom (fw_process ?fw3) n" for n
    using fw2(8) oom1 by simp
  obtain fw' where store: "carlfw_store ?fw3 = Some (None, fw')"
      "pr_files (fw_process fw') name = Some ((m @ code) @ concat (ds @ [chk_desc (m @ code) ds]) @ last_desc)"
    using store_image [OF ok3 oom3, unfolded ds, of name "m @ code"] none ch fw2(2-4,7) s(4,5) fw(2,3) assms(4,7)
      miniboot_descs(2) [OF assms(10)] by auto
  have "add_mini junk mb fw = Some (None, fw')"
    using assms(3,4) fw(5) found fw2(1) store(1) not_miniboot [of b]
    by (simp add: add_mini_def ys(2) Let_def)
  then have "miniboot_main junk [''a'', name, mb] p = Some (True, fw_process fw')"
    using fw(8) by (simp add: miniboot_main_def)
  then show ?thesis
    using store(2) by simp
qed

subsection \<open>An example\<close>

text \<open>The default build of the version in include/shared/version.h, with addresses in the program memory.\<close>

definition example_build :: fw_build where
  "example_build = \<lparr> fb_config = default_config, fb_day = 5, fb_month = 2, fb_year = 21,
     fb_version = [0x31, 0x2e, 0x39, 0x2e, 0x39], fb_sequence = 0x203200, fb_counter = 0x203204, fb_rx_filter = 0x203208 \<rparr>"

lemma example_bytes:
  "concat (fw_descs example_build) =
    [79, 84, 65, 82, 32, 0, 6, 7, 173, 191, 7, 0, 0, 0, 32, 0, 0, 124, 17, 0, 192, 3, 0, 0, 64, 1, 0, 32,
     189, 16, 1, 2, 84, 88, 83, 81, 12, 0, 1, 1, 0, 50, 32, 0, 77, 79, 84, 68, 56, 0, 1, 2, 31, 16, 0, 0, 67,
     111, 109, 109, 117, 110, 105, 116, 121, 32, 65, 82, 57, 49, 55, 48, 32, 76, 105, 110, 117, 120, 0, 0,
     49, 46, 57, 46, 57, 0, 0, 0, 0, 0, 0, 0, 0, 0, 0, 0, 0, 0, 0, 0, 68, 66, 71, 0, 28, 0, 1, 3, 0, 0, 0, 0,
     4, 50, 32, 0, 0, 0, 0, 0, 0, 0, 0, 0, 8, 50, 32, 0]"
proof -
  have "fw_date example_build = 4127"
    by (simp add: fw_date_def example_build_def CARL9170FW_SET_DAY_def CARL9170FW_SET_MONTH_def CARL9170FW_SET_YEAR_def smod_small)
  moreover have "\<not> cf_wol (fb_config example_build)"
    by (simp add: example_build_def default_config_def)
  moreover have "feature_bits (fw_features example_build) = 0x7bfad"
    by (simp add: feature_bits_def fw_features_def example_build_def default_config_def)
  moreover have "reserved_bcn 0 = 0x117c00" "of_nat AR9170_TX_BLOCK_NUMBER = (189 :: u8)"
    by (simp_all add: layout_defs)
  moreover have "text_field 24 (map (of_nat \<circ> of_char) ''Community AR9170 Linux'') = [67, 111, 109, 109, 117, 110, 105, 116,
      121, 32, 65, 82, 57, 49, 55, 48, 32, 76, 105, 110, 117, 120, 0, 0]"
    by code_simp
  moreover have "text_field 20 (fb_version example_build) = [49, 46, 57, 46, 57, 0, 0, 0, 0, 0, 0, 0, 0, 0, 0, 0, 0, 0, 0, 0]"
    by code_simp
  ultimately show ?thesis
    by (simp add: fw_descs_def fw_otus_desc_def fw_txsq_desc_def fw_motd_desc_def fw_dbg_desc_def fill_desc_def
        bytes16_def bytes32_def example_build_def CARL9170_INTF_NUM_def BCN_LENGTH_MAX_def AR9170_BLOCK_SIZE_def)
qed

lemma example_checksum:
  "chk_desc [9, 0, 9, 0] (fw_descs example_build) = [67, 72, 75, 0, 16, 0, 1, 2, 32, 212, 113, 114, 118, 148, 202, 106]"
proof -
  have ones: "NOT 0 = (0xffffffff :: u32)"
    by simp
  have data: "crc32_le 0xffffffff [9, 0, 9, 0] = 1920062496"
    by (simp add: crc32_le_simps crc32_bit_def)
  have descs: "crc32_le 1920062496 (concat (fw_descs example_build)) = 1791661174"
    unfolding example_bytes by (simp add: crc32_le_simps crc32_bit_def)
  show ?thesis
    unfolding chk_desc_def Let_def ones data descs
    by (simp add: fill_desc_def bytes16_def bytes32_def)
qed


lemma example_magic:
  "0 < q \<Longrightarrow> take 4 (drop q (concat (fw_descs example_build @ [chk_desc [9, 0, 9, 0] (fw_descs example_build)]) @ last_desc)) \<noteq> OTUS_MAGIC"
proof -
  let ?bs = "concat (fw_descs example_build @ [chk_desc [9, 0, 9, 0] (fw_descs example_build)]) @ last_desc"
  assume q: "0 < q"
  have all: "\<forall>q \<in> set [1..<152]. take 4 (drop q ?bs) \<noteq> OTUS_MAGIC" "length ?bs = 152"
    unfolding concat_append concat.simps example_bytes example_checksum last_desc_props(5) by code_simp+
  show "take 4 (drop q ?bs) \<noteq> OTUS_MAGIC"
  proof (cases "q < 152")
    case True
    with q all(1) show ?thesis
      by auto
  next
    case False
    then have "drop q ?bs = []"
      using all(2) by (intro drop_all) simp
    then show ?thesis
      by simp
  qed
qed

lemma example_start: "\<forall>q > 0. take 4 (drop q (concat (fw_descs example_build) @ last_desc)) \<noteq> OTUS_MAGIC"
  using last_desc_magic [of "concat (fw_descs example_build)" "chk_desc [9, 0, 9, 0] (fw_descs example_build)"] example_magic
  by simp

definition example_process :: process where
  "example_process = \<lparr> pr_files = [''fw'' \<mapsto> [9, 0, 9, 0] @ carl9170fw_desc example_build, ''mb'' \<mapsto> replicate 40 9],
     pr_writable = (\<lambda>_. True), pr_oom = (\<lambda>_. False), pr_allocs = 0 \<rparr>"

theorem fresh_firmware_checksum_witness:
  "\<exists>p' fw. checksum_main [''fw''] example_process = Some (True, p') \<and>
     carlfw_load ''fw'' p' = Some (Inr fw) \<and> fl_data (fw_fw fw) = [9, 0, 9, 0] \<and> carlfw_check_crc32s fw = Some (Inr ())"
proof -
  have "pr_files example_process ''fw'' = Some ([9, 0, 9, 0] @ carl9170fw_desc example_build)"
      "[9, 0, 9, 0] \<noteq> ([] :: u8 list)" "length [9, 0, 9, 0 :: u8] < 2147480000" "pr_writable example_process ''fw''"
      "\<forall>n. \<not> pr_oom example_process n"
    by (simp_all add: example_process_def)
  from fresh_firmware_checksum [OF this refl] example_magic show ?thesis
    by blast
qed

theorem miniboot_adds_image_witness:
  "\<exists>p' f. miniboot_main (\<lambda>_. 7) [''a'', ''fw'', ''mb''] example_process = Some (True, p') \<and>
     pr_files p' ''fw'' = Some f \<and> take 44 f = replicate 40 9 @ [9, 0, 9, 0]"
proof -
  have files: "pr_files example_process ''fw'' = Some ([9, 0, 9, 0] @ carl9170fw_desc example_build)"
      "[9, 0, 9, 0] \<noteq> ([] :: u8 list)" "pr_files example_process ''mb'' = Some (replicate 40 9)" "replicate 40 9 \<noteq> ([] :: u8 list)"
      "32 \<le> length (replicate 40 (9 :: u8)) + length [9, 0, 9, 0 :: u8]"
      "length (replicate 40 (9 :: u8)) + length [9, 0, 9, 0 :: u8] \<le> 16384" "pr_writable example_process ''fw''"
      "\<forall>n. \<not> pr_oom example_process n"
    by (simp_all add: example_process_def)
  from miniboot_adds_image [OF files example_start refl, of "\<lambda>_. 7"] show ?thesis
    by auto
qed

end
