(* ===== verification/FwInfo.thy ===== *)
theory FwInfo
  imports FwDesc
begin

text \<open>The program fwinfo (tools/src/fwinfo.c), which shows the descriptors of a firmware file. Its
  output is a list of calls of \<^verbatim>\<open>fprintf\<close>: the stream, the format without its tabs, quotes and line ends, and the
  arguments. \<^verbatim>\<open>None\<close> is a read outside of a block.\<close>

subsection \<open>Output\<close>

datatype arg = Num int | Bytes "u8 list" | Name string | Errno errno

datatype line = Out string "arg list" | Err string "arg list"

abbreviation (input) w32 :: "u32 \<Rightarrow> arg" where "w32 w \<equiv> Num (uint w)"
abbreviation (input) w16 :: "u16 \<Rightarrow> arg" where "w16 w \<equiv> Num (uint w)"
abbreviation (input) w8 :: "u8 \<Rightarrow> arg" where "w8 w \<equiv> Num (uint w)"

definition le16_at :: "u8 list \<Rightarrow> nat \<Rightarrow> u16" where
  "le16_at d i = le16 (d ! i) (d ! (i + 1))"

text \<open>A text that \<^verbatim>\<open>strncpy\<close> copies into a buffer of \<^verbatim>\<open>n\<close> bytes and \<^verbatim>\<open>%s\<close> shows. Without a NUL among the
  \<^verbatim>\<open>n\<close> bytes at the source, the copy leaves the block or the buffer has no end.\<close>

definition shown_text :: "nat \<Rightarrow> u8 list \<Rightarrow> arg option" where
  "shown_text n src = (if 0 \<in> set (take n src) then Some (Bytes (takeWhile (\<lambda>c. c \<noteq> 0) src)) else None)"

subsection \<open>Features\<close>

type_synonym feature_list = "(nat \<times> string \<times> (u8 list \<Rightarrow> line list)) list"

definition show_miniboot_info :: "u8 list \<Rightarrow> line list" where
  "show_miniboot_info head = [Out ''miniboot size: %d Bytes'' [w16 (otus_miniboot_size head)]]"

definition known_otus_features_v1 :: feature_list where
  "known_otus_features_v1 =
    [(0, ''CARL9170FW_DUMMY_FEATURE'', \<lambda>_. []),
     (1, ''CARL9170FW_MINIBOOT'', show_miniboot_info),
     (2, ''CARL9170FW_USB_INIT_FIRMWARE'', \<lambda>_. []),
     (3, ''CARL9170FW_USB_RESP_EP2'', \<lambda>_. []),
     (4, ''CARL9170FW_USB_DOWN_STREAM'', \<lambda>_. []),
     (5, ''CARL9170FW_USB_UP_STREAM'', \<lambda>_. []),
     (6, ''CARL9170FW_UNUSABLE'', \<lambda>_. []),
     (7, ''CARL9170FW_COMMAND_PHY'', \<lambda>_. []),
     (8, ''CARL9170FW_COMMAND_CAM'', \<lambda>_. []),
     (9, ''CARL9170FW_WLANTX_CAB'', \<lambda>_. []),
     (10, ''CARL9170FW_HANDLE_BACK_REQ'', \<lambda>_. []),
     (11, ''CARL9170FW_GPIO_INTERRUPT'', \<lambda>_. []),
     (12, ''CARL9170FW_PSM'', \<lambda>_. []),
     (13, ''CARL9170FW_RX_FILTER'', \<lambda>_. []),
     (14, ''CARL9170FW_WOL'', \<lambda>_. []),
     (15, ''CARL9170FW_FIXED_5GHZ_PSM'', \<lambda>_. []),
     (16, ''CARL9170FW_HW_COUNTERS'', \<lambda>_. []),
     (17, ''CARL9170FW_RX_BA_FILTER'', \<lambda>_. []),
     (18, ''CARL9170FW_HAS_WREGB_CMD'', \<lambda>_. []),
     (19, ''CARL9170FW_PATTERN_GENERATOR'', \<lambda>_. [])]"

definition check_feature_list :: "u8 list \<Rightarrow> u32 \<Rightarrow> feature_list \<Rightarrow> line list" where
  "check_feature_list head bitmap fs = concat (map (\<lambda>(ident, name, func).
     if \<not> carl9170fw_supports bitmap ident then []
     else Out ''%2d = %s'' [Num (int ident), Name name] # func head) fs)"

subsection \<open>The descriptors\<close>

definition show_otus_desc :: "u8 list \<Rightarrow> line list option" where
  "show_otus_desc d = Some (
     [Out ''Firmware upload pointer: 0x%x'' [w32 (le32_at d 12)],
      Out ''Beacon Address: %x, (reserved:%d Bytes)'' [w32 (le32_at d 16), w16 (le16_at d 20)],
      Out ''TX DMA chunk size:%d Bytes, TX DMA chunks:%d'' [w16 (le16_at d 24), w8 (d ! 28)],
      Out ''=> %d Bytes are reserved for the TX queues'' [Num (uint (le16_at d 24) * uint (d ! 28))],
      Out ''Command response buffers:%d'' [w8 (d ! 29)],
      Out ''Max. RX stream block size:%d Bytes'' [w16 (le16_at d 26)],
      Out ''Supported Firmware Interfaces: %d'' [w8 (d ! 31)],
      Out ''Firmware API Version: %d'' [w8 (d ! 30)],
      Out ''Supported Features: (raw:%.08x)'' [w32 (otus_feature_set d)]] @
     check_feature_list d (otus_feature_set d) known_otus_features_v1)"

definition show_motd_desc :: "u8 list \<Rightarrow> line list option" where
  "show_motd_desc d =
     (let fw_date = le32_at d 8
      in case (shown_text 24 (drop 12 d), shown_text 24 (drop 36 d)) of
           (Some desc, Some release) \<Rightarrow> Some
             [Out ''Firmware Build Date (YYYY-MM-DD): 2%03d-%02d-%02d''
                [w32 (CARL9170FW_GET_YEAR fw_date), w32 (CARL9170FW_GET_MONTH fw_date), w32 (CARL9170FW_GET_DAY fw_date)],
              Out ''Firmware Text:%s'' [desc],
              Out ''Firmware Release:%s'' [release]]
         | _ \<Rightarrow> None)"

definition show_fix_desc :: "u8 list \<Rightarrow> line list option" where
  "show_fix_desc d = Some (map (\<lambda>i. Out ''%d: 0x%.8x := 0x%.8x (0x%.8x)''
     [Num (int i), w32 (le32_at d (8 + 12 * i)), w32 (le32_at d (8 + 12 * i + 8)), w32 (le32_at d (8 + 12 * i + 4))])
     [0..<(desc_len d - 8) div 12])"

definition DBG_ADDR :: "string \<Rightarrow> u32 \<Rightarrow> line list" where
  "DBG_ADDR name tmp = (if tmp \<noteq> 0 then [Out ''%s = 0x%.8x'' [Name name, w32 tmp]] else [])"

definition show_dbg_desc :: "u8 list \<Rightarrow> line list option" where
  "show_dbg_desc d = Some (Out ''Firmware Debug Registers/Counters'' [] #
     DBG_ADDR ''bogoclock    '' (le32_at d 8) @ DBG_ADDR ''counter      '' (le32_at d 12) @
     DBG_ADDR ''rx total     '' (le32_at d 16) @ DBG_ADDR ''rx overrun   '' (le32_at d 20) @
     DBG_ADDR ''rx filer     '' (le32_at d 24))"

definition show_txsq_desc :: "u8 list \<Rightarrow> line list option" where
  "show_txsq_desc d = Some [Out ''tx-seq table addr: 0x%x'' [w32 (le32_at d 8)]]"

definition wol_triggers_v1 :: feature_list where
  "wol_triggers_v1 = [(1, ''CARL9170_WOL_DISCONNECT'', \<lambda>_. []), (2, ''CARL9170_WOL_MAGIC_PKT'', \<lambda>_. [])]"

definition show_wol_desc :: "u8 list \<Rightarrow> line list option" where
  "show_wol_desc d = Some (Out ''Supported WOWLAN triggers: (raw:%.08x)'' [w32 (le32_at d 8)] #
     check_feature_list d (le32_at d 8) wol_triggers_v1)"

definition show_chk_desc :: "u8 list \<Rightarrow> line list option" where
  "show_chk_desc d = Some
     [Out ''Firmware Descriptor CRC32: %08x'' [w32 (le32_at d 12)],
      Out ''Firmware Image CRC32: %08x'' [w32 (le32_at d 8)]]"

definition show_last_desc :: "u8 list \<Rightarrow> line list option" where
  "show_last_desc d = Some []"

text \<open>The table of the known descriptors: magic, version, handler and smallest length.\<close>

definition known_magics :: "(u8 list \<times> u8 \<times> (u8 list \<Rightarrow> line list option) \<times> nat) list" where
  "known_magics =
    [(OTUS_MAGIC, CARL9170FW_OTUS_DESC_CUR_VER, show_otus_desc, 32),
     ([0x54, 0x58, 0x53, 0x51], 1, show_txsq_desc, 12),
     ([0x4d, 0x4f, 0x54, 0x44], 2, show_motd_desc, 56),
     ([0x44, 0x42, 0x47, 0], 3, show_dbg_desc, 28),
     ([0x46, 0x49, 0x58, 0], 2, show_fix_desc, 8),
     (CHK_MAGIC, CARL9170FW_CHK_DESC_CUR_VER, show_chk_desc, 16),
     ([0x57, 0x4f, 0x4c, 0], 1, show_wol_desc, 12),
     (LAST_MAGIC, CARL9170FW_LAST_DESC_CUR_VER, show_last_desc, 8)]"

definition printable :: "u8 \<Rightarrow> arg" where
  "printable c = w8 (if 0x20 \<le> c \<and> c < 0x7f then c else 0x20)"

definition show_desc_head :: "u8 list \<Rightarrow> line" where
  "show_desc_head d = Out ''>%c%c%c%c Descriptor: size:%d, compatible:%d, version:%d''
     [printable (d ! 0), printable (d ! 1), printable (d ! 2), printable (d ! 3),
      Num (int (desc_len d)), w8 (desc_min_ver d), w8 (desc_cur_ver d)]"

subsection \<open>The program\<close>

definition fwinfo_desc :: "u8 list \<Rightarrow> line list option" where
  "fwinfo_desc d =
     (case find (\<lambda>(magic, min_ver, func, len). carl9170fw_desc_cmp d magic len min_ver) known_magics of
        Some (_, _, func, _) \<Rightarrow> map_option (\<lambda>ls. show_desc_head d # ls @ [Out [] []]) (func d)
      | None \<Rightarrow> Some [show_desc_head d, Err ''Unknown Descriptor.'' [], Out [] []])"

partial_function (option) fwinfo_loop :: "carlfw \<Rightarrow> nat option \<Rightarrow> line list \<Rightarrow> line list option" where
  "fwinfo_loop fw pos out =
     (case carlfw_desc_next pos fw of
        None \<Rightarrow> Some out
      | Some x \<Rightarrow> (case fwinfo_desc (fw_entries fw x) of
            None \<Rightarrow> None
          | Some ls \<Rightarrow> fwinfo_loop fw (Some x) (out @ ls)))"

definition fwinfo_info :: "line list" where
  "fwinfo_info = [Err ''Usage:'' [], Err ''fwinfo FW-FILE'' [], Err ''Description:'' [],
     Err ''Display firmware descriptors information in a human readable form.'' [],
     Err ''Parameteres:'' [], Err '' 'FW-FILE' = firmware file/base-name'' []]"

definition fwinfo_out :: "errno option \<Rightarrow> line list" where
  "fwinfo_out err = (case err of None \<Rightarrow> [] | Some EINVAL \<Rightarrow> fwinfo_info | Some e \<Rightarrow> [Err ''%s'' [Errno e]])"

definition fwinfo_main :: "string list \<Rightarrow> process \<Rightarrow> (bool \<times> line list) option" where
  "fwinfo_main args p =
     (case args of
        [name] \<Rightarrow>
          (case carlfw_load name p of
             None \<Rightarrow> None
           | Some (Inl e) \<Rightarrow> Some (False, Err ''Failed to open firmware %s (%d).'' [Name name, Errno e] # fwinfo_out (Some e))
           | Some (Inr fw) \<Rightarrow>
               map_option (\<lambda>out. (True, out @ fwinfo_out None))
                 (fwinfo_loop fw None
                   [Out ''General Firmware Statistics:'' [],
                    Out ''Firmware file size: %u Bytes'' [Num (int (snd (carlfw_get_fw fw)))],
                    Out ''%d Descriptors in %d Bytes'' [w32 (carlfw_get_descs_num fw), w32 (carlfw_get_descs_size fw)],
                    Out ''Detailed Descriptor Description:'' []]))
      | _ \<Rightarrow> Some (False, fwinfo_out (Some EINVAL)))"

subsection \<open>The walk\<close>

lemma segment_last_next: "segment h p xs q \<Longrightarrow> l_next h (last (p # xs)) = q"
  by (induction xs arbitrary: p) auto

lemma desc_next_ok:
  assumes "linked (fw_links fw) 0 (xs @ ys)" "xs \<noteq> [] \<longrightarrow> pos = Some (last xs)" "xs = [] \<longrightarrow> pos = None"
  shows "carlfw_desc_next pos fw = (case ys of [] \<Rightarrow> None | y # _ \<Rightarrow> Some y)"
proof -
  have seg: "segment (fw_links fw) 0 (xs @ ys) 0" "0 \<notin> set ys"
    using assms(1) by (simp_all add: linked_def)
  have "l_next (fw_links fw) (last (0 # xs)) = hd (ys @ [0])"
    using seg(1) segment_last_next [of "fw_links fw" 0 xs] by (cases ys) auto
  then show ?thesis
    using assms(2,3) seg(2) by (cases ys; cases xs) (auto simp: carlfw_desc_next_def list_at_tail_def)
qed

lemma fwinfo_loop_ok:
  assumes "linked (fw_links fw) 0 (xs @ ys)" "xs \<noteq> [] \<longrightarrow> pos = Some (last xs)" "xs = [] \<longrightarrow> pos = None"
  shows "fwinfo_loop fw pos out = map_option (\<lambda>ls. out @ concat ls) (those (map (fwinfo_desc \<circ> fw_entries fw) ys))"
  using assms
proof (induction ys arbitrary: xs pos out)
  case Nil
  then show ?case
    using desc_next_ok [OF Nil] by (simp add: fwinfo_loop.simps)
next
  case (Cons y ys)
  have next_y: "carlfw_desc_next pos fw = Some y"
    using desc_next_ok [OF Cons.prems] by simp
  have IH: "fwinfo_loop fw (Some y) out' = map_option (\<lambda>ls. out' @ concat ls) (those (map (fwinfo_desc \<circ> fw_entries fw) ys))" for out'
    by (rule Cons.IH [of "xs @ [y]"]) (use Cons.prems(1) in simp_all)
  show ?case
    by (subst fwinfo_loop.simps) (auto simp: next_y IH o_def option.map_comp split: option.splits)
qed

subsection \<open>A fresh build\<close>

definition is_head_line :: "line \<Rightarrow> bool" where
  "is_head_line l = (case l of Out s _ \<Rightarrow> take 1 s = ''>'' | Err _ _ \<Rightarrow> False)"

definition is_error_line :: "line \<Rightarrow> bool" where
  "is_error_line l = (case l of Out _ _ \<Rightarrow> False | Err _ _ \<Rightarrow> True)"

lemma le32_at_bytes32: "length xs = n \<Longrightarrow> le32_at (xs @ bytes32 w @ ys) n = w"
  by (simp add: le32_at_def bytes32_def nth_append)

lemma shown_features:
  "otus_feature_set (fw_otus_desc b) = (if cf_wol (fb_config b) then 0x7ffad else 0x7bfad)"
  by (simp add: otus_feature_set_def fw_otus_desc_def fill_desc_def le32_at_def feature_bits_def fw_features_def
      bytes16_def bytes32_def le32_def)

lemma find_keyed:
  assumes "(m, r) \<in> set tbl" "distinct (map fst tbl)" "P (m, r)" "\<And>m' r'. P (m', r') \<Longrightarrow> m' = m"
  shows "find P tbl = Some (m, r)"
  using assms(1,2)
proof (induction tbl)
  case (Cons e tbl)
  show ?case
  proof (cases "P e")
    case True
    then have "fst e = m"
      using assms(4) [of "fst e" "snd e"] by simp
    then have "e = (m, r)"
      using eq_key_imp_eq_value [OF Cons.prems(2), of m r "snd e"] Cons.prems(1) by (simp add: prod_eq_iff)
    then show ?thesis
      using True by simp
  next
    case False
    then have "(m, r) \<in> set tbl"
      using Cons.prems(1) assms(3) by auto
    then show ?thesis
      using Cons.IH Cons.prems(2) False by simp
  qed
qed simp

lemma fwinfo_desc_found:
  assumes "(magic, ver, func, len) \<in> set known_magics" "carl9170fw_desc_cmp d magic len ver"
  shows "fwinfo_desc d = map_option (\<lambda>ls. show_desc_head d # ls @ [Out [] []]) (func d)"
proof -
  have "distinct (map fst known_magics)"
    by (simp add: known_magics_def)
  then have "find (\<lambda>(magic, ver, func, len). carl9170fw_desc_cmp d magic len ver) known_magics = Some (magic, ver, func, len)"
    using assms by (intro find_keyed) (auto simp: carl9170fw_desc_cmp_def)
  then show ?thesis
    by (simp add: fwinfo_desc_def)
qed

lemma text_field_length [simp]: "length (text_field n cs) = n"
  by (simp add: text_field_def)

lemma fw_descs_found:
  "carl9170fw_desc_cmp (fw_txsq_desc b) [0x54, 0x58, 0x53, 0x51] 12 1" "carl9170fw_desc_cmp fw_wol_desc [0x57, 0x4f, 0x4c, 0] 12 1"
  "carl9170fw_desc_cmp (fw_motd_desc b) [0x4d, 0x4f, 0x54, 0x44] 56 2" "carl9170fw_desc_cmp (fw_dbg_desc b) [0x44, 0x42, 0x47, 0] 28 3"
  by (simp_all add: fw_txsq_desc_def fw_wol_desc_def fw_motd_desc_def fw_dbg_desc_def fill_desc_def carl9170fw_desc_cmp_def
      desc_magic_def bytes16_def desc_len_def le16_def CHECK_HDR_VERSION_def desc_min_ver_def desc_cur_ver_def)

lemma fwinfo_otus: "fwinfo_desc (fw_otus_desc b) =
    map_option (\<lambda>ls. show_desc_head (fw_otus_desc b) # ls @ [Out [] []]) (show_otus_desc (fw_otus_desc b))"
  by (rule fwinfo_desc_found [OF _ fw_otus_props(5)]) (simp add: known_magics_def)

lemma fwinfo_txsq: "fwinfo_desc (fw_txsq_desc b) =
    map_option (\<lambda>ls. show_desc_head (fw_txsq_desc b) # ls @ [Out [] []]) (show_txsq_desc (fw_txsq_desc b))"
  by (rule fwinfo_desc_found [OF _ fw_descs_found(1)]) (simp add: known_magics_def)

lemma fwinfo_wol: "fwinfo_desc fw_wol_desc =
    map_option (\<lambda>ls. show_desc_head fw_wol_desc # ls @ [Out [] []]) (show_wol_desc fw_wol_desc)"
  by (rule fwinfo_desc_found [OF _ fw_descs_found(2)]) (simp add: known_magics_def)

lemma fwinfo_motd: "fwinfo_desc (fw_motd_desc b) =
    map_option (\<lambda>ls. show_desc_head (fw_motd_desc b) # ls @ [Out [] []]) (show_motd_desc (fw_motd_desc b))"
  by (rule fwinfo_desc_found [OF _ fw_descs_found(3)]) (simp add: known_magics_def)

lemma fwinfo_dbg: "fwinfo_desc (fw_dbg_desc b) =
    map_option (\<lambda>ls. show_desc_head (fw_dbg_desc b) # ls @ [Out [] []]) (show_dbg_desc (fw_dbg_desc b))"
  by (rule fwinfo_desc_found [OF _ fw_descs_found(4)]) (simp add: known_magics_def)

lemmas fwinfo_blocks = fwinfo_otus fwinfo_txsq fwinfo_wol fwinfo_motd fwinfo_dbg

text \<open>The lines of the message of the day: the text is the one of the build.\<close>

lemma motd_fields:
  "le32_at (fw_motd_desc b) 8 = fw_date b" "drop 36 (fw_motd_desc b) = text_field 20 (fb_version b)"
  "drop 12 (fw_motd_desc b) = text_field 24 (map (of_nat \<circ> of_char) ''Community AR9170 Linux'') @ text_field 20 (fb_version b)"
  by (simp_all add: fw_motd_desc_def fill_desc_def bytes16_def bytes32_def le32_at_def)

lemma motd_text: "text_field 24 (map (of_nat \<circ> of_char) ''Community AR9170 Linux'') =
    [67, 111, 109, 109, 117, 110, 105, 116, 121, 32, 65, 82, 57, 49, 55, 48, 32, 76, 105, 110, 117, 120, 0, 0]"
  by code_simp

lemma show_motd_fresh:
  assumes "0 \<in> set (text_field 20 (fb_version b))"
  shows "\<exists>t r. show_motd_desc (fw_motd_desc b) = Some
     [Out ''Firmware Build Date (YYYY-MM-DD): 2%03d-%02d-%02d'' [w32 (CARL9170FW_GET_YEAR (fw_date b)),
        w32 (CARL9170FW_GET_MONTH (fw_date b)), w32 (CARL9170FW_GET_DAY (fw_date b))],
      Out ''Firmware Text:%s'' [t], Out ''Firmware Release:%s'' [r]]"
proof -
  have "shown_text 24 (drop 12 (fw_motd_desc b)) \<noteq> None" "shown_text 24 (drop 36 (fw_motd_desc b)) \<noteq> None"
    using assms unfolding motd_fields motd_text by (simp_all add: shown_text_def)
  then show ?thesis
    by (auto simp: show_motd_desc_def motd_fields(1) Let_def)
qed

lemma feature_handlers:
  "list_all (\<lambda>(i, n, f). set (f d) \<subseteq> {Out ''miniboot size: %d Bytes'' [w16 (otus_miniboot_size d)]}) known_otus_features_v1"
  by (simp add: known_otus_features_v1_def show_miniboot_info_def)

lemma check_feature_lines:
  "l \<in> set (check_feature_list d w fs) \<longleftrightarrow>
     (\<exists>(i, n, f) \<in> set fs. carl9170fw_supports w i \<and> (l = Out ''%2d = %s'' [Num (int i), Name n] \<or> l \<in> set (f d)))"
  by (auto simp: check_feature_list_def split: if_splits)

lemma feature_table:
  assumes "(i, n, f) \<in> set known_otus_features_v1"
  shows "Out ''%2d = %s'' [Num (int i), Name n] \<in> set (check_feature_list d w known_otus_features_v1) \<longleftrightarrow> carl9170fw_supports w i"
proof
  assume "Out ''%2d = %s'' [Num (int i), Name n] \<in> set (check_feature_list d w known_otus_features_v1)"
  then show "carl9170fw_supports w i"
    using feature_handlers [of d] unfolding check_feature_lines list_all_iff by fastforce
next
  assume "carl9170fw_supports w i"
  then show "Out ''%2d = %s'' [Num (int i), Name n] \<in> set (check_feature_list d w known_otus_features_v1)"
    using assms unfolding check_feature_lines by blast
qed

lemma feature_lines:
  "l \<in> set (check_feature_list d w known_otus_features_v1) \<Longrightarrow> \<not> is_head_line l \<and> \<not> is_error_line l"
  using feature_handlers [of d] unfolding check_feature_lines list_all_iff
  by (fastforce simp: is_head_line_def is_error_line_def)

text \<open>What every block of the output has: the head of its descriptor, and no other head and no error.\<close>

definition feature_line :: "nat \<times> string \<times> (u8 list \<Rightarrow> line list) \<Rightarrow> line" where
  "feature_line = (\<lambda>(i, n, f). Out ''%2d = %s'' [Num (int i), Name n])"

definition plain :: "line list \<Rightarrow> bool" where
  "plain ls \<longleftrightarrow> (\<forall>l \<in> set ls. \<not> is_head_line l \<and> \<not> is_error_line l)"

definition no_features :: "line list \<Rightarrow> bool" where
  "no_features ls \<longleftrightarrow> (\<forall>f \<in> set known_otus_features_v1. feature_line f \<notin> set ls)"

lemma plain_simps [simp]:
  "plain []" "plain (l # ls) \<longleftrightarrow> \<not> is_head_line l \<and> \<not> is_error_line l \<and> plain ls" "plain (ls @ ms) \<longleftrightarrow> plain ls \<and> plain ms"
  by (auto simp: plain_def)

lemma not_feature [simp]:
  "no_features []" "no_features (ls @ ms) \<longleftrightarrow> no_features ls \<and> no_features ms"
  "s \<noteq> ''%2d = %s'' \<Longrightarrow> no_features (Out s a # ls) \<longleftrightarrow> no_features ls"
  by (auto simp: no_features_def feature_line_def)

lemma line_kinds [simp]:
  "is_head_line (Out s a) \<longleftrightarrow> take 1 s = ''>''" "\<not> is_error_line (Out s a)"
  by (simp_all add: is_head_line_def is_error_line_def)

lemma otus_lines:
  "\<exists>ls. show_otus_desc (fw_otus_desc b) = Some ls \<and> plain ls \<and>
     (\<forall>(i, r) \<in> set known_otus_features_v1. feature_line (i, r) \<in> set ls \<longleftrightarrow> i \<in> set (fw_features b))"
proof -
  let ?w = "otus_feature_set (fw_otus_desc b)"
  have f: "list_all (\<lambda>(i, r). carl9170fw_supports ?w i \<longleftrightarrow> i \<in> set (fw_features b)) known_otus_features_v1"
    unfolding shown_features known_otus_features_v1_def
    by (simp add: fw_features_def carl9170fw_supports_def)
  have p: "plain (check_feature_list (fw_otus_desc b) ?w known_otus_features_v1)"
    using feature_lines unfolding plain_def by blast
  have m: "feature_line (i, r) \<in> set (check_feature_list (fw_otus_desc b) ?w known_otus_features_v1) \<longleftrightarrow> i \<in> set (fw_features b)"
    if "(i, r) \<in> set known_otus_features_v1" for i r
    using that feature_table [of i "fst r" "snd r"] f by (auto simp: feature_line_def list_all_iff split: prod.splits)
  show ?thesis
    using p m by (auto simp: show_otus_desc_def feature_line_def split: prod.splits)
qed

lemma wol_lines: "\<exists>ls. show_wol_desc fw_wol_desc = Some ls \<and> plain ls \<and> no_features ls"
proof -
  have "le32_at fw_wol_desc 8 = 6"
    by (simp add: fw_wol_desc_def fill_desc_def bytes16_def bytes32_def le32_at_def le32_def)
  then have "show_wol_desc fw_wol_desc = Some [Out ''Supported WOWLAN triggers: (raw:%.08x)'' [Num 6],
      Out ''%2d = %s'' [Num 1, Name ''CARL9170_WOL_DISCONNECT''], Out ''%2d = %s'' [Num 2, Name ''CARL9170_WOL_MAGIC_PKT'']]"
    by (simp add: show_wol_desc_def check_feature_list_def wol_triggers_v1_def carl9170fw_supports_def)
  then show ?thesis
    by (simp add: no_features_def known_otus_features_v1_def feature_line_def)
qed

lemma dbg_lines: "\<exists>ls. show_dbg_desc d = Some ls \<and> plain ls \<and> no_features ls"
  by (simp add: show_dbg_desc_def DBG_ADDR_def)

lemma txsq_lines: "\<exists>ls. show_txsq_desc d = Some ls \<and> plain ls \<and> no_features ls"
  by (simp add: show_txsq_desc_def)

lemma head_line [simp]:
  "is_head_line (show_desc_head d)" "\<not> is_error_line (show_desc_head d)" "no_features (show_desc_head d # ls) = no_features ls"
  by (simp_all add: show_desc_head_def)

definition block :: "u8 list \<Rightarrow> line list \<Rightarrow> line list" where
  "block d ls = show_desc_head d # ls @ [Out [] []]"

lemma block_lines:
  assumes "plain ls"
  shows "filter is_head_line (block d ls) = [show_desc_head d]" "l \<in> set (block d ls) \<Longrightarrow> \<not> is_error_line l"
  using assms by (auto simp: block_def plain_def)

lemma block_features: "no_features ls \<Longrightarrow> no_features (block d ls)"
  by (simp add: block_def)

lemma fresh_blocks:
  assumes "0 \<in> set (text_field 20 (fb_version b))"
  shows "\<exists>blks. those (map fwinfo_desc (fw_descs b)) = Some blks \<and>
    filter is_head_line (concat blks) = map show_desc_head (fw_descs b) \<and> (\<forall>l \<in> set (concat blks). \<not> is_error_line l) \<and>
    (\<forall>(i, r) \<in> set known_otus_features_v1. feature_line (i, r) \<in> set (concat blks) \<longleftrightarrow> i \<in> set (fw_features b)) \<and>
    Out ''Firmware Build Date (YYYY-MM-DD): 2%03d-%02d-%02d'' [w32 (CARL9170FW_GET_YEAR (fw_date b)),
        w32 (CARL9170FW_GET_MONTH (fw_date b)), w32 (CARL9170FW_GET_DAY (fw_date b))] \<in> set (concat blks)"
proof -
  obtain lo where o: "show_otus_desc (fw_otus_desc b) = Some lo" "plain lo"
      "\<And>i r. (i, r) \<in> set known_otus_features_v1 \<Longrightarrow> feature_line (i, r) \<in> set lo \<longleftrightarrow> i \<in> set (fw_features b)"
    using otus_lines [of b] by blast
  obtain lt where t: "show_txsq_desc (fw_txsq_desc b) = Some lt" "plain lt" "no_features lt"
    using txsq_lines by blast
  obtain lw where w: "show_wol_desc fw_wol_desc = Some lw" "plain lw" "no_features lw"
    using wol_lines by blast
  obtain ld where d: "show_dbg_desc (fw_dbg_desc b) = Some ld" "plain ld" "no_features ld"
    using dbg_lines by blast
  let ?date = "Out ''Firmware Build Date (YYYY-MM-DD): 2%03d-%02d-%02d'' [w32 (CARL9170FW_GET_YEAR (fw_date b)),
        w32 (CARL9170FW_GET_MONTH (fw_date b)), w32 (CARL9170FW_GET_DAY (fw_date b))]"
  obtain lm where m: "show_motd_desc (fw_motd_desc b) = Some lm" "plain lm" "no_features lm" "?date \<in> set lm"
    using show_motd_fresh [OF assms] by auto
  let ?after = "[block (fw_txsq_desc b) lt] @ (if cf_wol (fb_config b) then [block fw_wol_desc lw] else []) @
      [block (fw_motd_desc b) lm, block (fw_dbg_desc b) ld]"
  let ?blks = "block (fw_otus_desc b) lo # ?after"
  have blks: "those (map fwinfo_desc (fw_descs b)) = Some ?blks"
    unfolding fw_descs_def by (simp add: fwinfo_blocks o(1) t(1) w(1) d(1) m(1) block_def)
  have heads: "filter is_head_line (concat ?blks) = map show_desc_head (fw_descs b)"
    unfolding fw_descs_def by (simp add: block_lines(1) o(2) t(2) w(2) d(2) m(2))
  have errors: "\<forall>l \<in> set (concat ?blks). \<not> is_error_line l"
    using block_lines(2) o(2) t(2) w(2) d(2) m(2) by auto
  have "no_features (concat ?after)"
    using t(3) w(3) d(3) m(3) by (simp add: block_features)
  moreover have "feature_line f \<in> set (block (fw_otus_desc b) lo) \<longleftrightarrow> feature_line f \<in> set lo" for f
    by (cases f) (simp add: block_def feature_line_def show_desc_head_def)
  ultimately have features: "\<forall>(i, r) \<in> set known_otus_features_v1. feature_line (i, r) \<in> set (concat ?blks) \<longleftrightarrow> i \<in> set (fw_features b)"
    using o(3) by (auto simp only: concat.simps set_append Un_iff no_features_def)
  have "?date \<in> set (concat ?blks)"
    using m(4) by (simp add: block_def)
  with blks heads errors features show ?thesis
    by blast
qed

text \<open>C13. fwinfo on a fresh build: the program ends with success and without an error line, shows every
  descriptor of the build once and in order, the length of the code, the number and the length of the
  descriptors, of the known features exactly those of the build, and the date of the build.\<close>

theorem fwinfo_shows_build:
  assumes "pr_files p name = Some (code @ carl9170fw_desc b)" "code \<noteq> []" "length code < 2147480000" "\<forall>n. \<not> pr_oom p n"
    and "\<forall>q > 0. take 4 (drop q (concat (fw_descs b) @ last_desc)) \<noteq> OTUS_MAGIC"
    and "0 \<in> set (text_field 20 (fb_version b))"
    and "1 \<le> fb_day b" "fb_day b \<le> 31" "1 \<le> fb_month b" "fb_month b \<le> 12" "10 \<le> fb_year b" "fb_year b < 1000"
  shows "\<exists>out. fwinfo_main [name] p = Some (True, out) \<and> (\<forall>l \<in> set out. \<not> is_error_line l) \<and>
    filter is_head_line out = map show_desc_head (fw_descs b) \<and>
    Out ''Firmware file size: %u Bytes'' [Num (int (length code))] \<in> set out \<and>
    Out ''%d Descriptors in %d Bytes'' [Num (int (length (fw_descs b))), Num (int (length (concat (fw_descs b))))] \<in> set out \<and>
    (\<forall>(i, r) \<in> set known_otus_features_v1. feature_line (i, r) \<in> set out \<longleftrightarrow> i \<in> set (fw_features b)) \<and>
    Out ''Firmware Build Date (YYYY-MM-DD): 2%03d-%02d-%02d'' [Num (fb_year b), Num (fb_month b), Num (fb_day b)] \<in> set out"
proof -
  have magic: "take 4 (drop q (concat (fw_descs b) @ last_desc)) \<noteq> OTUS_MAGIC" if "0 < q" for q
    using assms(5) that by blast
  obtain fw ys where fw: "fw_fw fw = \<lparr> fl_name = Some name, fl_data = code \<rparr>" "carlfw_ok fw ys"
      "map (fw_entries fw) ys = fw_descs b" "carlfw_load name p = Some (Inr fw)"
    using load_fresh [OF assms(1) _ assms(2,3) magic] assms(4) by blast
  obtain blks where blks: "those (map fwinfo_desc (fw_descs b)) = Some blks"
      "filter is_head_line (concat blks) = map show_desc_head (fw_descs b)" "\<forall>l \<in> set (concat blks). \<not> is_error_line l"
      "\<forall>(i, r) \<in> set known_otus_features_v1. feature_line (i, r) \<in> set (concat blks) \<longleftrightarrow> i \<in> set (fw_features b)"
      "Out ''Firmware Build Date (YYYY-MM-DD): 2%03d-%02d-%02d'' [Num (fb_year b), Num (fb_month b), Num (fb_day b)] \<in> set (concat blks)"
    using fresh_blocks [OF assms(6)] fw_date_parts [OF assms(7-12)] by auto
  have "map desc_len (fw_descs b) = map length (fw_descs b)"
    using fw_desc_chainable by (simp add: chainable_def)
  then have "map (desc_len \<circ> fw_entries fw) ys = map length (fw_descs b)"
    unfolding fw(3) [symmetric] by simp
  moreover have ys: "length ys = length (fw_descs b)"
    using arg_cong [OF fw(3), of length] by simp
  ultimately have counts: "carlfw_get_descs_size fw = of_nat (length (concat (fw_descs b)))"
      "carlfw_get_descs_num fw = of_nat (length (fw_descs b))"
    using fw(2) by (simp_all add: carlfw_ok_def carlfw_get_descs_size_def carlfw_get_descs_num_def length_concat)
  have "length (fw_descs b) \<le> 5"
    by (simp add: fw_descs_def)
  then have num: "uint (carlfw_get_descs_size fw) = int (length (concat (fw_descs b)))"
      "uint (carlfw_get_descs_num fw) = int (length (fw_descs b))"
    using descs_length [of b] unfolding counts uint_nat by simp_all
  have loop: "fwinfo_loop fw None out = Some (out @ concat blks)" for out
    using fwinfo_loop_ok [of fw "[]" ys None out] fw(2,3) blks(1) by (simp add: carlfw_ok_def flip: map_map)
  have main: "fwinfo_main [name] p = Some (True, [Out ''General Firmware Statistics:'' [],
      Out ''Firmware file size: %u Bytes'' [Num (int (length code))],
      Out ''%d Descriptors in %d Bytes'' [Num (int (length (fw_descs b))), Num (int (length (concat (fw_descs b))))],
      Out ''Detailed Descriptor Description:'' []] @ concat blks)" (is "_ = Some (True, ?head @ _)")
    unfolding fwinfo_main_def using fw(1,4) loop by (simp add: num fwinfo_out_def carlfw_get_fw_def)
  have head: "plain ?head" "no_features ?head"
    by simp_all
  show ?thesis
  proof (intro exI conjI)
    show "fwinfo_main [name] p = Some (True, ?head @ concat blks)"
      by (rule main)
    show "\<forall>l \<in> set (?head @ concat blks). \<not> is_error_line l"
      using head(1) blks(3) unfolding plain_def set_append by blast
    show "filter is_head_line (?head @ concat blks) = map show_desc_head (fw_descs b)"
      using blks(2) by simp
    show "\<forall>(i, r) \<in> set known_otus_features_v1. feature_line (i, r) \<in> set (?head @ concat blks) \<longleftrightarrow> i \<in> set (fw_features b)"
      using head(2) blks(4) unfolding no_features_def set_append by blast
  qed (use blks(5) in simp_all)
qed

theorem fwinfo_shows_build_witness:
  "\<exists>out. fwinfo_main [''fw''] example_process = Some (True, out) \<and>
     Out ''Firmware Build Date (YYYY-MM-DD): 2%03d-%02d-%02d'' [Num 21, Num 2, Num 5] \<in> set out"
proof -
  have files: "pr_files example_process ''fw'' = Some ([9, 0, 9, 0] @ carl9170fw_desc example_build)"
      "[9, 0, 9, 0] \<noteq> ([] :: u8 list)" "length [9, 0, 9, 0 :: u8] < 2147480000" "\<forall>n. \<not> pr_oom example_process n"
    by (simp_all add: example_process_def)
  have b: "0 \<in> set (text_field 20 (fb_version example_build))"
    by code_simp
  have d: "1 \<le> fb_day example_build" "fb_day example_build \<le> 31" "1 \<le> fb_month example_build" "fb_month example_build \<le> 12"
      "10 \<le> fb_year example_build" "fb_year example_build < 1000"
      "fb_day example_build = 5" "fb_month example_build = 2" "fb_year example_build = 21"
    by (simp_all add: example_build_def)
  show ?thesis
    using fwinfo_shows_build [OF files example_start b d(1-6)] unfolding d(7-9) by blast
qed

text \<open>What the program does not handle: a version text that fills the 20 bytes of its field has no NUL
  there, and the 24 bytes that are copied reach behind the descriptor.\<close>

lemma release_overread:
  assumes "20 \<le> length (fb_version b)" "0 \<notin> set (fb_version b)"
  shows "show_motd_desc (fw_motd_desc b) = None"
proof -
  have "text_field 20 (fb_version b) = take 20 (fb_version b)"
    using assms(1) by (simp add: text_field_def)
  then have "shown_text 24 (drop 36 (fw_motd_desc b)) = None"
    unfolding motd_fields using assms(2) by (auto simp: shown_text_def dest: in_set_takeD)
  then show ?thesis
    by (simp add: show_motd_desc_def Let_def split: option.splits)
qed

text \<open>The error paths: a wrong number of arguments and a file that cannot be loaded.\<close>

lemma fwinfo_usage: "length args \<noteq> 1 \<Longrightarrow> fwinfo_main args p = Some (False, fwinfo_info)"
  by (auto simp: fwinfo_main_def fwinfo_out_def split: list.splits)

lemma load_missing:
  assumes "pr_files p name = None" "\<And>n. \<not> pr_oom p n"
  shows "carlfw_load name p = Some (Inl EIO)"
  using assms by (simp add: carlfw_load_def malloc_def carlfw_load_file_def calloc_carlfw_def)

lemma fwinfo_missing:
  assumes "pr_files p name = None" "\<And>n. \<not> pr_oom p n"
  shows "fwinfo_main [name] p =
    Some (False, [Err ''Failed to open firmware %s (%d).'' [Name name, Errno EIO], Err ''%s'' [Errno EIO]])"
  by (simp add: fwinfo_main_def fwinfo_out_def load_missing [OF assms])

end
