(* ===== verification/FrameQueue.thy ===== *)
theory FrameQueue
  imports ListHead
begin

text \<open>The frame buffers and frame queues of the host tools (\<^verbatim>\<open>tools/include/frame.h\<close>).  A
  frame is named by the address of its list member, which comes first, so that list_entry is the
  identity; its pointers into the payload are offsets from the payload.  The second list member, in
  dcb, is only ever initialised, and its nodes are kept apart.  A freed frame is absent from the
  store, and so is the result of a failed BUG_ON.  The mutexes are those of the SDL library: its four
  operations are a parameter.\<close>

subsection \<open>Data\<close>

text \<open>The members of a frame that the operations here do not touch (dev, timestamp, cb, the raw view of dcb)
  are left out.\<close>

record frame =
  f_queue :: u32
  f_ref :: u32
  f_alloced :: u32
  f_total_len :: u32
  f_len :: u32
  f_head :: int
  f_data :: int
  f_tail :: int

record 'm frame_queue =
  fq_list :: nat
  fq_lock :: 'm
  fq_len :: "64 word"

record 'w frame_store =
  fs_links :: links
  fs_dcb :: links
  fs_frames :: "nat \<rightharpoonup> frame"
  fs_sdl :: 'w

record ('m, 'w) sdl =
  sdl_create :: "'w \<Rightarrow> 'm \<times> 'w"
  sdl_p :: "'m \<Rightarrow> 'w \<Rightarrow> int \<times> 'w"
  sdl_v :: "'m \<Rightarrow> 'w \<Rightarrow> 'w"
  sdl_destroy :: "'m \<Rightarrow> 'w \<Rightarrow> 'w"

definition bug_on :: "bool \<Rightarrow> unit option" where
  "bug_on c = (if c then None else Some ())"

lemma bug_on_Some [simp]: "bug_on c = Some u \<longleftrightarrow> \<not> c"
  by (simp add: bug_on_def)

lemma bug_on_bind_Some: "bug_on c \<bind> k = Some r \<longleftrightarrow> \<not> c \<and> k () = Some r"
  by (simp add: bug_on_def)

lemma bug_on_False [simp]: "bug_on False = Some ()"
  by simp

subsection \<open>Frames\<close>

definition frame_put :: "u32 \<Rightarrow> frame \<Rightarrow> (int \<times> frame) option" where
  "frame_put n f = do {
     bug_on (f_total_len f + n > f_alloced f);
     let f1 = f\<lparr>f_len := f_len f + n, f_total_len := f_total_len f + n\<rparr>;
     let tmp = f_tail f1;
     let f2 = f1\<lparr>f_tail := f_tail f1 + uint n\<rparr>;
     bug_on (f_tail f2 > uint (f_alloced f2));
     Some (tmp, f2) }"

definition frame_push :: "u32 \<Rightarrow> frame \<Rightarrow> (int \<times> frame) option" where
  "frame_push n f = do {
     let f1 = f\<lparr>f_len := f_len f + n, f_data := f_data f - uint n\<rparr>;
     bug_on (f_data f1 < 0);
     Some (f_data f1, f1) }"

definition frame_get :: "frame \<Rightarrow> frame" where
  "frame_get f = f\<lparr>f_ref := f_ref f + 1\<rparr>"

definition frame_pull :: "u32 \<Rightarrow> frame \<Rightarrow> (int \<times> frame) option" where
  "frame_pull n f = do {
     bug_on (f_len f < n);
     let f1 = f\<lparr>f_len := f_len f - n, f_total_len := f_total_len f - n,
                f_data := f_data f + uint n\<rparr>;
     Some (f_data f1, f1) }"

definition frame_reserve :: "u32 \<Rightarrow> frame \<Rightarrow> frame option" where
  "frame_reserve n f = do {
     bug_on (f_total_len f + n > f_alloced f);
     bug_on (f_len f \<noteq> 0);
     Some (f\<lparr>f_total_len := f_total_len f + n, f_data := f_data f + uint n,
             f_tail := f_tail f + uint n\<rparr>) }"

definition frame_trim :: "u32 \<Rightarrow> frame \<Rightarrow> frame option" where
  "frame_trim n f = do {
     bug_on (n > f_total_len f);
     Some (f\<lparr>f_len := n, f_total_len := n, f_data := f_head f, f_tail := f_head f + uint n\<rparr>) }"

definition frame_init :: "u32 \<Rightarrow> frame" where
  "frame_init n = \<lparr> f_queue = 0, f_ref = 1, f_alloced = n, f_total_len = 0, f_len = 0,
     f_head = 0, f_data = 0, f_tail = 0 \<rparr>"

text \<open>The size of struct frame on a host with 64-bit pointers.\<close>

abbreviation (input) sizeof_frame :: nat where
  "sizeof_frame \<equiv> 176"

definition frame_alloc :: "(nat \<Rightarrow> nat option) \<Rightarrow> u32 \<Rightarrow> 'w frame_store \<Rightarrow> nat option \<times> 'w frame_store" where
  "frame_alloc malloc n s = (case malloc (unat n + sizeof_frame) of
     None \<Rightarrow> (None, s)
   | Some a \<Rightarrow> (Some a, s\<lparr>fs_links := init_list_head a (fs_links s),
       fs_dcb := init_list_head a (fs_dcb s), fs_frames := (fs_frames s)(a \<mapsto> frame_init n)\<rparr>))"

definition frame_drop :: "nat \<Rightarrow> (nat \<rightharpoonup> frame) \<Rightarrow> (nat \<rightharpoonup> frame) option" where
  "frame_drop a fs = do {
     f \<leftarrow> fs a;
     let f1 = f\<lparr>f_ref := f_ref f - 1\<rparr>;
     Some (if f_ref f1 = 0 then fs(a := None) else fs(a \<mapsto> f1)) }"

definition frame_free :: "nat \<Rightarrow> 'w frame_store \<Rightarrow> 'w frame_store option" where
  "frame_free a s = do { fs \<leftarrow> frame_drop a (fs_frames s); Some (s\<lparr>fs_frames := fs\<rparr>) }"

subsection \<open>Queues\<close>

definition frame_queue_init0 :: "'m frame_queue \<Rightarrow> 'w frame_store \<Rightarrow> 'm frame_queue \<times> 'w frame_store" where
  "frame_queue_init0 q s = (q\<lparr>fq_len := 0\<rparr>, s\<lparr>fs_links := init_list_head (fq_list q) (fs_links s)\<rparr>)"

definition frame_queue_init :: "('m, 'w) sdl \<Rightarrow> 'm frame_queue \<Rightarrow> 'w frame_store \<Rightarrow> 'm frame_queue \<times> 'w frame_store" where
  "frame_queue_init sdl q s = (let (l, w) = sdl_create sdl (fs_sdl s) in
     frame_queue_init0 (q\<lparr>fq_lock := l\<rparr>) (s\<lparr>fs_sdl := w\<rparr>))"

definition frame_queue_len :: "'m frame_queue \<Rightarrow> u32" where
  "frame_queue_len q = ucast (fq_len q)"

definition frame_queue_empty :: "'m frame_queue \<Rightarrow> 'w frame_store \<Rightarrow> bool" where
  "frame_queue_empty q s = list_empty (fq_list q) (fs_links s)"

definition frame_queue_head0 :: "nat \<Rightarrow> 'm frame_queue \<times> 'w frame_store \<Rightarrow> 'm frame_queue \<times> 'w frame_store" where
  "frame_queue_head0 a = (\<lambda>(q, s).
     (q\<lparr>fq_len := fq_len q + 1\<rparr>, s\<lparr>fs_links := list_add_head a (fq_list q) (fs_links s)\<rparr>))"

definition frame_queue_tail0 :: "nat \<Rightarrow> 'm frame_queue \<times> 'w frame_store \<Rightarrow> 'm frame_queue \<times> 'w frame_store" where
  "frame_queue_tail0 a = (\<lambda>(q, s).
     (q\<lparr>fq_len := fq_len q + 1\<rparr>, s\<lparr>fs_links := list_add_tail a (fq_list q) (fs_links s)\<rparr>))"

definition frame_unlink0 :: "nat \<Rightarrow> 'm frame_queue \<times> 'w frame_store \<Rightarrow> 'm frame_queue \<times> 'w frame_store" where
  "frame_unlink0 a = (\<lambda>(q, s).
     (q\<lparr>fq_len := fq_len q - 1\<rparr>, s\<lparr>fs_links := list_del a (fs_links s)\<rparr>))"

definition frame_dequeue0 :: "'m frame_queue \<times> 'w frame_store \<Rightarrow> nat option \<times> 'm frame_queue \<times> 'w frame_store" where
  "frame_dequeue0 = (\<lambda>(q, s).
     if \<not> frame_queue_empty q s
     then let tmp = l_next (fs_links s) (fq_list q) in (Some tmp, frame_unlink0 tmp (q, s))
     else (None, q, s))"

partial_function (option) frame_queue_purge0 ::
    "'m frame_queue \<times> 'w frame_store \<Rightarrow> ('m frame_queue \<times> 'w frame_store) option" where
  "frame_queue_purge0 qs =
     (if list_empty (fq_list (fst qs)) (fs_links (snd qs)) = False
      then case frame_dequeue0 qs of
          (None, _) \<Rightarrow> None
        | (Some a, q, s) \<Rightarrow> do { s' \<leftarrow> frame_free a s; frame_queue_purge0 (q, s') }
      else Some qs)"

text \<open>Each public operation takes the lock of the queue, does its work and releases it.\<close>

definition locked :: "('m, 'w) sdl \<Rightarrow> ('m frame_queue \<times> 'w frame_store \<Rightarrow> ('r \<times> 'm frame_queue \<times> 'w frame_store) option) \<Rightarrow>
    'm frame_queue \<times> 'w frame_store \<Rightarrow> ('r \<times> 'm frame_queue \<times> 'w frame_store) option" where
  "locked sdl body = (\<lambda>(q, s). do {
     let (r, w) = sdl_p sdl (fq_lock q) (fs_sdl s);
     bug_on (r \<noteq> 0);
     (x, q', s') \<leftarrow> body (q, s\<lparr>fs_sdl := w\<rparr>);
     Some (x, q', s'\<lparr>fs_sdl := sdl_v sdl (fq_lock q') (fs_sdl s')\<rparr>) })"

definition frame_queue_head :: "('m, 'w) sdl \<Rightarrow> nat \<Rightarrow> 'm frame_queue \<times> 'w frame_store \<Rightarrow>
    (unit \<times> 'm frame_queue \<times> 'w frame_store) option" where
  "frame_queue_head sdl a = locked sdl (\<lambda>qs. Some ((), frame_queue_head0 a qs))"

definition frame_queue_tail :: "('m, 'w) sdl \<Rightarrow> nat \<Rightarrow> 'm frame_queue \<times> 'w frame_store \<Rightarrow>
    (unit \<times> 'm frame_queue \<times> 'w frame_store) option" where
  "frame_queue_tail sdl a = locked sdl (\<lambda>qs. Some ((), frame_queue_tail0 a qs))"

definition frame_unlink :: "('m, 'w) sdl \<Rightarrow> nat \<Rightarrow> 'm frame_queue \<times> 'w frame_store \<Rightarrow>
    (unit \<times> 'm frame_queue \<times> 'w frame_store) option" where
  "frame_unlink sdl a = locked sdl (\<lambda>qs. Some ((), frame_unlink0 a qs))"

definition frame_dequeue :: "('m, 'w) sdl \<Rightarrow> 'm frame_queue \<times> 'w frame_store \<Rightarrow>
    (nat option \<times> 'm frame_queue \<times> 'w frame_store) option" where
  "frame_dequeue sdl = locked sdl (\<lambda>qs. Some (frame_dequeue0 qs))"

definition frame_queue_purge :: "('m, 'w) sdl \<Rightarrow> 'm frame_queue \<times> 'w frame_store \<Rightarrow>
    (unit \<times> 'm frame_queue \<times> 'w frame_store) option" where
  "frame_queue_purge sdl = locked sdl (\<lambda>qs. do { r \<leftarrow> frame_queue_purge0 qs; Some ((), r) })"

definition frame_queue_kill :: "('m, 'w) sdl \<Rightarrow> 'm frame_queue \<times> 'w frame_store \<Rightarrow> ('m frame_queue \<times> 'w frame_store) option" where
  "frame_queue_kill sdl = (\<lambda>(q, s). frame_queue_purge0 (q, s\<lparr>fs_sdl := sdl_destroy sdl (fq_lock q) (fs_sdl s)\<rparr>))"

subsection \<open>A frame stays within its buffer\<close>

definition in_buffer :: "frame \<Rightarrow> bool" where
  "in_buffer f \<longleftrightarrow> f_head f = 0 \<and> 0 \<le> f_data f \<and> f_data f \<le> f_tail f \<and> f_tail f \<le> uint (f_alloced f) \<and>
     uint (f_len f) = f_tail f - f_data f"

datatype frame_op = Put u32 | Push u32 | Pull u32 | Get

fun frame_step :: "frame_op \<Rightarrow> frame \<Rightarrow> frame option" where
  "frame_step (Put n) f = map_option snd (frame_put n f)"
| "frame_step (Push n) f = map_option snd (frame_push n f)"
| "frame_step (Pull n) f = map_option snd (frame_pull n f)"
| "frame_step Get f = Some (frame_get f)"

primrec frame_steps :: "frame_op list \<Rightarrow> frame \<Rightarrow> frame option" where
  "frame_steps [] f = Some f"
| "frame_steps (c # cs) f = do { f' \<leftarrow> frame_step c f; frame_steps cs f' }"

lemma uint_add_small: "uint (a :: u32) + uint b < 4294967296 \<Longrightarrow> uint (a + b) = uint a + uint b"
  by (simp add: uint_plus_if')

lemma uint_below: "uint (a :: u32) < 4294967296"
  using uint_bounded [of a] by simp

lemma below_sum: "(a :: int) \<le> b \<Longrightarrow> a \<le> b + uint (n :: u32)"
  using uint_nonnegative [of n] by linarith

lemma frame_put_in_buffer:
  assumes "in_buffer f" "frame_put n f = Some (p, f')"
  shows "in_buffer f' \<and> p = f_tail f \<and> f_tail f' = f_tail f + uint n \<and> f_data f' = f_data f \<and> f_alloced f' = f_alloced f"
proof -
  have f': "f' = f\<lparr>f_len := f_len f + n, f_total_len := f_total_len f + n, f_tail := f_tail f + uint n\<rparr>"
    and p: "p = f_tail f" and t: "f_tail f + uint n \<le> uint (f_alloced f)"
    using assms(2) by (auto simp: frame_put_def bug_on_bind_Some Let_def not_less)
  have "uint (f_len f) + uint n < 4294967296"
    using assms(1) t uint_below [of "f_alloced f"] by (simp add: in_buffer_def)
  then show ?thesis
    using assms(1) t p below_sum [of "f_data f" "f_tail f" n] by (simp add: f' in_buffer_def uint_add_small)
qed

lemma frame_push_in_buffer:
  assumes "in_buffer f" "frame_push n f = Some (p, f')"
  shows "in_buffer f' \<and> p = f_data f' \<and> f_data f' = f_data f - uint n \<and> f_tail f' = f_tail f \<and> f_alloced f' = f_alloced f"
proof -
  have f': "f' = f\<lparr>f_len := f_len f + n, f_data := f_data f - uint n\<rparr>"
    and p: "p = f_data f'" and d: "0 \<le> f_data f - uint n"
    using assms(2) by (auto simp: frame_push_def bug_on_bind_Some Let_def not_less)
  have "uint (f_len f) + uint n < 4294967296"
    using assms(1) d uint_below [of "f_alloced f"] by (simp add: in_buffer_def)
  then show ?thesis
    using assms(1) d p below_sum [of "f_data f" "f_tail f" n] by (simp add: f' in_buffer_def uint_add_small)
qed

lemma frame_pull_in_buffer:
  assumes "in_buffer f" "frame_pull n f = Some (p, f')"
  shows "in_buffer f' \<and> p = f_data f' \<and> f_data f' = f_data f + uint n \<and> f_tail f' = f_tail f \<and> f_alloced f' = f_alloced f"
proof -
  have f': "f' = f\<lparr>f_len := f_len f - n, f_total_len := f_total_len f - n, f_data := f_data f + uint n\<rparr>"
    and p: "p = f_data f'" and d: "uint n \<le> uint (f_len f)"
    using assms(2) by (auto simp: frame_pull_def bug_on_bind_Some Let_def not_less word_le_def)
  have "uint (f_len f - n) = uint (f_len f) - uint n"
    using d by (simp add: uint_sub_if')
  then show ?thesis
    using assms(1) d p by (simp add: f' in_buffer_def)
qed

lemma frame_get_in_buffer [simp]: "in_buffer (frame_get f) = in_buffer f" "f_alloced (frame_get f) = f_alloced f"
  by (simp_all add: in_buffer_def frame_get_def)

fun_cases frame_stepE: "frame_step c f = Some f'"

lemma frame_step_in_buffer: "in_buffer f \<Longrightarrow> frame_step c f = Some f' \<Longrightarrow> in_buffer f' \<and> f_alloced f' = f_alloced f"
  by (erule frame_stepE) (auto dest!: sym [of "Some f'"] dest: frame_put_in_buffer frame_push_in_buffer frame_pull_in_buffer)

lemma frame_steps_in_buffer: "in_buffer f \<Longrightarrow> frame_steps cs f = Some f' \<Longrightarrow> in_buffer f' \<and> f_alloced f' = f_alloced f"
proof (induction cs arbitrary: f)
  case (Cons c cs)
  then obtain f1 where 1: "frame_step c f = Some f1" "frame_steps cs f1 = Some f'"
    by (auto simp: bind_eq_Some_conv)
  show ?case
    using Cons.IH [OF _ 1(2)] frame_step_in_buffer [OF Cons.prems(1) 1(1)] by simp
qed simp

lemma frame_reserve_fresh:
  "frame_reserve r (frame_init n) = Some f \<Longrightarrow> in_buffer f \<and> f_alloced f = n \<and> f_data f = uint r \<and> f_total_len f = r"
  by (auto simp: frame_reserve_def frame_init_def bug_on_bind_Some in_buffer_def not_less word_le_def)

text \<open>Which requests are served: an append as long as the tail has room, a prepend as long as the
  head has, a removal as long as the frame has the bytes.\<close>

lemma frame_push_served: "in_buffer f \<Longrightarrow> uint n \<le> f_data f \<Longrightarrow> frame_push n f \<noteq> None"
  by (simp add: frame_push_def bug_on_def Let_def)

lemma push_pull:
  assumes "in_buffer f" "frame_push n f = Some (p, f1)"
  shows "frame_pull n f1 = Some (f_data f, f\<lparr>f_total_len := f_total_len f - n\<rparr>)"
proof -
  have f1: "f1 = f\<lparr>f_len := f_len f + n, f_data := f_data f - uint n\<rparr>"
    using assms(2) by (auto simp: frame_push_def bug_on_bind_Some Let_def)
  have "uint (f_len f) + uint n < 4294967296"
    using frame_push_in_buffer [OF assms] assms(1) uint_below [of "f_alloced f"] by (simp add: in_buffer_def)
  then have "\<not> f_len f + n < n"
    by (simp add: word_less_def uint_add_small)
  then show ?thesis
    by (simp add: f1 frame_pull_def bug_on_def Let_def)
qed

text \<open>C16. A frame buffer is never left: from a fresh frame with some headroom reserved, whatever
  sequence of appends, prepends, removals and references goes through its checks, the head stays at the
  payload, the frame lies between its data and its tail pointer inside the allocated bytes, and its
  length is the distance of the two. The removal of what was just prepended gives the frame back, except
  that total_len, which frame_push leaves alone, has become smaller by the size.\<close>

theorem frame_stays_in_buffer:
  assumes "frame_reserve r (frame_init n) = Some f" "frame_steps cs f = Some f'"
  shows "in_buffer f' \<and> f_alloced f' = n \<and>
    (uint k \<le> f_data f' \<longrightarrow>
      (\<exists>f1. frame_push k f' = Some (f_data f' - uint k, f1) \<and> in_buffer f1 \<and>
         frame_pull k f1 = Some (f_data f', f'\<lparr>f_total_len := f_total_len f' - k\<rparr>)))"
proof -
  have b: "in_buffer f'" "f_alloced f' = n"
    using frame_steps_in_buffer [OF _ assms(2)] frame_reserve_fresh [OF assms(1)] by auto
  {
    assume "uint k \<le> f_data f'"
    then obtain p f1 where 1: "frame_push k f' = Some (p, f1)"
      using frame_push_served [OF b(1)] by fastforce
    have "p = f_data f' - uint k" "in_buffer f1"
      using frame_push_in_buffer [OF b(1) 1] by auto
    then have "\<exists>f1. frame_push k f' = Some (f_data f' - uint k, f1) \<and> in_buffer f1 \<and>
         frame_pull k f1 = Some (f_data f', f'\<lparr>f_total_len := f_total_len f' - k\<rparr>)"
      using 1 push_pull [OF b(1) 1] by blast
  }
  then show ?thesis
    using b by blast
qed

definition example_frame :: frame where
  "example_frame = \<lparr> f_queue = 0, f_ref = 1, f_alloced = 64, f_total_len = 24, f_len = 20, f_head = 0, f_data = 4, f_tail = 24 \<rparr>"

theorem frame_stays_in_buffer_witness:
  "in_buffer example_frame \<and> (\<exists>f1. frame_push 4 example_frame = Some (0, f1) \<and> frame_pull 4 f1 = Some (4, example_frame\<lparr>f_total_len := 20\<rparr>))"
proof -
  have r: "frame_reserve 8 (frame_init 64) = Some (frame_init 64\<lparr>f_total_len := 8, f_data := 8, f_tail := 8\<rparr>)"
    by (simp add: frame_reserve_def frame_init_def)
  have s: "frame_steps [Put 16, Push 4] (frame_init 64\<lparr>f_total_len := 8, f_data := 8, f_tail := 8\<rparr>) = Some example_frame"
    by (simp add: frame_init_def frame_put_def frame_push_def example_frame_def)
  show ?thesis
    using frame_stays_in_buffer [OF r s, of 4] by (auto simp: example_frame_def)
qed

text \<open>What the checks do not stop: a second headroom request whose sum with total_len wraps around, and
  a trim after enough prepends and removals have taken total_len below zero.\<close>

lemma reserve_wraps:
  "\<exists>f. frame_reserve 8 (frame_init 64) = Some f \<and>
     (\<exists>f'. frame_reserve 4294967288 f = Some f' \<and> f_tail f' = 4294967296 \<and> uint (f_alloced f') = 64)"
  by (simp add: frame_reserve_def frame_init_def)

lemma trim_after_pulls:
  "\<exists>f. frame_reserve 8 (frame_init 64) = Some f \<and>
     (\<exists>f1. frame_steps [Push 8, Pull 8, Push 8, Pull 8] f = Some f1 \<and>
       (\<exists>f2. frame_trim 4096 f1 = Some f2 \<and> \<not> in_buffer f2))"
  by (simp add: frame_reserve_def frame_init_def frame_push_def frame_pull_def frame_trim_def in_buffer_def)

lemma trim_gives_headroom_back:
  "\<exists>f. frame_reserve 8 (frame_init 64) = Some f \<and>
     (\<exists>f1. frame_steps [Put 16] f = Some f1 \<and> f_data f1 = 8 \<and>
       (\<exists>f2. frame_trim 4 f1 = Some f2 \<and> f_data f2 = 0))"
  by (simp add: frame_reserve_def frame_init_def frame_put_def frame_trim_def)

subsection \<open>A queue stands for a list of frames\<close>

definition frames_of :: "'m frame_queue \<times> 'w frame_store \<Rightarrow> nat \<Rightarrow> nat list \<times> (nat \<rightharpoonup> frame) \<Rightarrow> bool" where
  "frames_of qs l r \<longleftrightarrow> fq_list (fst qs) = l \<and> linked (fs_links (snd qs)) l (fst r) \<and>
     fq_len (fst qs) = of_nat (length (fst r)) \<and> fs_frames (snd qs) = snd r"

datatype queue_op = Queue_head nat | Queue_tail nat | Unlink nat | Dequeue | Purge

fun queue_step :: "('m, 'w) sdl \<Rightarrow> queue_op \<Rightarrow> 'm frame_queue \<times> 'w frame_store \<Rightarrow>
    (nat option \<times> 'm frame_queue \<times> 'w frame_store) option" where
  "queue_step sdl (Queue_head a) qs = map_option (\<lambda>(_, r). (None, r)) (frame_queue_head sdl a qs)"
| "queue_step sdl (Queue_tail a) qs = map_option (\<lambda>(_, r). (None, r)) (frame_queue_tail sdl a qs)"
| "queue_step sdl (Unlink a) qs = map_option (\<lambda>(_, r). (None, r)) (frame_unlink sdl a qs)"
| "queue_step sdl Dequeue qs = frame_dequeue sdl qs"
| "queue_step sdl Purge qs = map_option (\<lambda>(_, r). (None, r)) (frame_queue_purge sdl qs)"

primrec queue_steps :: "('m, 'w) sdl \<Rightarrow> queue_op list \<Rightarrow> 'm frame_queue \<times> 'w frame_store \<Rightarrow>
    (nat option list \<times> 'm frame_queue \<times> 'w frame_store) option" where
  "queue_steps sdl [] qs = Some ([], qs)"
| "queue_steps sdl (c # cs) qs = do {
     (r, qs1) \<leftarrow> queue_step sdl c qs;
     (rs, qs2) \<leftarrow> queue_steps sdl cs qs1;
     Some (r # rs, qs2) }"

text \<open>The specification: a list of frames, of which none may be queued twice, and the frames that are
  alive.\<close>

fun spec_step :: "nat \<Rightarrow> queue_op \<Rightarrow> nat list \<times> (nat \<rightharpoonup> frame) \<Rightarrow> (nat option \<times> nat list \<times> (nat \<rightharpoonup> frame)) option" where
  "spec_step l (Queue_head a) (xs, fs) = (if a \<in> set (l # xs) then None else Some (None, a # xs, fs))"
| "spec_step l (Queue_tail a) (xs, fs) = (if a \<in> set (l # xs) then None else Some (None, xs @ [a], fs))"
| "spec_step l (Unlink a) (xs, fs) = (if a \<in> set xs then Some (None, remove1 a xs, fs) else None)"
| "spec_step l Dequeue (xs, fs) = (case xs of [] \<Rightarrow> Some (None, [], fs) | x # ys \<Rightarrow> Some (Some x, ys, fs))"
| "spec_step l Purge (xs, fs) = do { fs' \<leftarrow> foldl (\<lambda>r a. r \<bind> frame_drop a) (Some fs) xs; Some (None, [], fs') }"

primrec spec_steps :: "nat \<Rightarrow> queue_op list \<Rightarrow> nat list \<times> (nat \<rightharpoonup> frame) \<Rightarrow> (nat option list \<times> nat list \<times> (nat \<rightharpoonup> frame)) option" where
  "spec_steps l [] q = Some ([], q)"
| "spec_steps l (c # cs) q = do {
     (r, q1) \<leftarrow> spec_step l c q;
     (rs, q2) \<leftarrow> spec_steps l cs q1;
     Some (r # rs, q2) }"

definition sdl_ok :: "('m, 'w) sdl \<Rightarrow> bool" where
  "sdl_ok sdl \<longleftrightarrow> (\<forall>m w. fst (sdl_p sdl m w) = 0)"

lemma frame_queue_head0_list:
  "frames_of qs l (xs, fs) \<Longrightarrow> a \<notin> set (l # xs) \<Longrightarrow> frames_of (frame_queue_head0 a qs) l (a # xs, fs)"
  using nodes.head_list by (auto simp: frames_of_def frame_queue_head0_def split: prod.splits)

lemma frame_queue_tail0_list:
  "frames_of qs l (xs, fs) \<Longrightarrow> a \<notin> set (l # xs) \<Longrightarrow> frames_of (frame_queue_tail0 a qs) l (xs @ [a], fs)"
  using nodes.tail_list by (auto simp: frames_of_def frame_queue_tail0_def split: prod.splits)

lemma of_nat_remove1: "a \<in> set xs \<Longrightarrow> of_nat (length (remove1 a xs)) = (of_nat (length xs) - 1 :: 'a::len word)"
  using of_nat_diff [of 1 "length xs"] length_pos_if_in_set [of a xs] by (simp add: length_remove1 Suc_le_eq)

lemma frame_unlink0_list:
  "frames_of qs l (xs, fs) \<Longrightarrow> a \<in> set xs \<Longrightarrow> frames_of (frame_unlink0 a qs) l (remove1 a xs, fs)"
  using nodes.remove_list by (auto simp: frames_of_def frame_unlink0_def of_nat_remove1 split: prod.splits)

lemma frame_dequeue0_empty: "frames_of qs l ([], fs) \<Longrightarrow> frame_dequeue0 qs = (None, qs)"
  by (auto simp: frames_of_def frame_dequeue0_def frame_queue_empty_def nodes.empty_list split: prod.splits)

lemma frame_dequeue0_list:
  "frames_of qs l (x # xs, fs) \<Longrightarrow> frame_dequeue0 qs = (Some x, frame_unlink0 x qs) \<and> frames_of (frame_unlink0 x qs) l (xs, fs)"
  using frame_unlink0_list [of qs l "x # xs" fs x]
  by (auto simp: frames_of_def frame_dequeue0_def frame_queue_empty_def nodes.empty_list nodes.first_list Let_def split: prod.splits)

lemma frame_dequeue0_cons:
  "frames_of qs l (x # xs, fs) \<Longrightarrow> \<exists>qs'. frame_dequeue0 qs = (Some x, qs') \<and> frames_of qs' l (xs, fs)"
  using frame_dequeue0_list by blast

lemma foldl_drop_None: "foldl (\<lambda>r a. r \<bind> frame_drop a) None xs = None"
  by (induction xs) simp_all

text \<open>The purge ends: it frees the queued frames in order.\<close>

lemma frame_queue_purge0_list:
  "frames_of qs l (xs, fs) \<Longrightarrow> foldl (\<lambda>r a. r \<bind> frame_drop a) (Some fs) xs = Some fs' \<Longrightarrow>
   \<exists>qs'. frame_queue_purge0 qs = Some qs' \<and> frames_of qs' l ([], fs')"
proof (induction xs arbitrary: qs fs)
  case Nil
  then have "list_empty (fq_list (fst qs)) (fs_links (snd qs))"
    using nodes.empty_list by (auto simp: frames_of_def)
  then show ?case
    using Nil by (simp add: frame_queue_purge0.simps)
next
  case (Cons x xs)
  obtain q s where qs: "frame_unlink0 x qs = (q, s)"
    by (cases "frame_unlink0 x qs")
  obtain fs1 where fs1: "frame_drop x fs = Some fs1"
    using Cons.prems(2) by (cases "frame_drop x fs") (auto simp: foldl_drop_None)
  have "frames_of (q, s) l (xs, fs)"
    using frame_dequeue0_list [OF Cons.prems(1)] qs by simp
  then have "frames_of (q, s\<lparr>fs_frames := fs1\<rparr>) l (xs, fs1)" and "fs_frames s = fs"
    by (simp_all add: frames_of_def)
  moreover have "\<not> list_empty (fq_list (fst qs)) (fs_links (snd qs))"
    using Cons.prems(1) nodes.empty_list by (fastforce simp: frames_of_def)
  moreover have "foldl (\<lambda>r a. r \<bind> frame_drop a) (Some fs1) xs = Some fs'"
    using Cons.prems(2) fs1 by simp
  ultimately show ?case
    using Cons.IH frame_dequeue0_list [OF Cons.prems(1)] qs fs1
    by (subst frame_queue_purge0.simps) (simp add: frame_free_def)
qed

lemma locked_ok:
  assumes "sdl_ok sdl" "frames_of qs l (xs, fs)"
    and "\<And>qs. frames_of qs l (xs, fs) \<Longrightarrow> \<exists>qs'. body qs = Some (r, qs') \<and> frames_of qs' l (ys, gs)"
  shows "\<exists>qs'. locked sdl body qs = Some (r, qs') \<and> frames_of qs' l (ys, gs)"
proof -
  obtain q s where qs: "qs = (q, s)"
    by (cases qs)
  obtain w where w: "sdl_p sdl (fq_lock q) (fs_sdl s) = (0, w)"
    using assms(1) by (metis sdl_ok_def prod.collapse)
  have "frames_of (q, s\<lparr>fs_sdl := w\<rparr>) l (xs, fs)"
    using assms(2) by (simp add: qs frames_of_def)
  then obtain q' s' where "body (q, s\<lparr>fs_sdl := w\<rparr>) = Some (r, q', s')" "frames_of (q', s') l (ys, gs)"
    using assms(3) by fastforce
  then show ?thesis
    by (simp add: locked_def qs w frames_of_def)
qed

lemma queue_step_refines:
  assumes "sdl_ok sdl" "frames_of qs l (xs, fs)" "spec_step l c (xs, fs) = Some (r, ys, gs)"
  shows "\<exists>qs'. queue_step sdl c qs = Some (r, qs') \<and> frames_of qs' l (ys, gs)"
proof (cases c)
  case (Queue_head a)
  with assms(3) have "\<exists>qs'. frame_queue_head sdl a qs = Some ((), qs') \<and> frames_of qs' l (ys, gs)"
    unfolding frame_queue_head_def by (intro locked_ok [OF assms(1,2)]) (auto split: if_splits intro: frame_queue_head0_list)
  then show ?thesis
    using assms(3) Queue_head by (auto split: if_splits)
next
  case (Queue_tail a)
  with assms(3) have "\<exists>qs'. frame_queue_tail sdl a qs = Some ((), qs') \<and> frames_of qs' l (ys, gs)"
    unfolding frame_queue_tail_def by (intro locked_ok [OF assms(1,2)]) (auto split: if_splits intro: frame_queue_tail0_list)
  then show ?thesis
    using assms(3) Queue_tail by (auto split: if_splits)
next
  case (Unlink a)
  with assms(3) have "\<exists>qs'. frame_unlink sdl a qs = Some ((), qs') \<and> frames_of qs' l (ys, gs)"
    unfolding frame_unlink_def by (intro locked_ok [OF assms(1,2)]) (auto split: if_splits intro: frame_unlink0_list)
  then show ?thesis
    using assms(3) Unlink by (auto split: if_splits)
next
  case Dequeue
  with assms(3) have "\<exists>qs'. frame_dequeue sdl qs = Some (r, qs') \<and> frames_of qs' l (ys, gs)"
    unfolding frame_dequeue_def
    by (intro locked_ok [OF assms(1,2)])
      (auto simp: frame_dequeue0_empty dest: frame_dequeue0_cons split: list.splits)
  then show ?thesis
    using Dequeue by simp
next
  case Purge
  with assms(3) have "\<exists>qs'. frame_queue_purge sdl qs = Some ((), qs') \<and> frames_of qs' l (ys, gs)"
    unfolding frame_queue_purge_def
    by (intro locked_ok [OF assms(1,2)]) (auto simp: bind_eq_Some_conv dest: frame_queue_purge0_list)
  then show ?thesis
    using assms(3) Purge by (auto simp: bind_eq_Some_conv)
qed

text \<open>C14. A frame queue is a list: whatever sequence of queueings at either end, removals, dequeues
  and purges the list allows, with mutexes that can be taken, no check fails and the purges end, every
  dequeue returns the frame the list returns, the pointers stand for the list in both directions, the
  counter is its length, and the purges have dropped one reference of each queued frame and freed those
  with no other.\<close>

theorem frame_queue_refines:
  assumes "sdl_ok sdl" "frames_of qs l (xs, fs)" "spec_steps l cs (xs, fs) = Some (rs, ys, gs)"
  shows "\<exists>qs'. queue_steps sdl cs qs = Some (rs, qs') \<and> frames_of qs' l (ys, gs)"
  using assms(2,3)
proof (induction cs arbitrary: qs xs fs rs)
  case (Cons c cs)
  then obtain r xs1 fs1 rs1 where 1: "spec_step l c (xs, fs) = Some (r, xs1, fs1)"
      "spec_steps l cs (xs1, fs1) = Some (rs1, ys, gs)" "rs = r # rs1"
    by (auto simp: bind_eq_Some_conv)
  obtain qs1 where 2: "queue_step sdl c qs = Some (r, qs1)" "frames_of qs1 l (xs1, fs1)"
    using queue_step_refines [OF assms(1) Cons.prems(1) 1(1)] by blast
  show ?case
    using Cons.IH [OF 2(2) 1(2)] 1(3) 2(1) by auto
qed simp

definition example_sdl :: "(unit, nat) sdl" where
  "example_sdl = \<lparr> sdl_create = (\<lambda>w. ((), w)), sdl_p = (\<lambda>_ w. (0, w + 1)), sdl_v = (\<lambda>_ w. w), sdl_destroy = (\<lambda>_ w. w) \<rparr>"

definition example_store :: "nat frame_store" where
  "example_store = \<lparr> fs_links = \<lparr> l_next = (\<lambda>_. 0), l_prev = (\<lambda>_. 0) \<rparr>, fs_dcb = \<lparr> l_next = (\<lambda>_. 0), l_prev = (\<lambda>_. 0) \<rparr>,
     fs_frames = [1000 \<mapsto> frame_init 8, 2000 \<mapsto> frame_get (frame_init 8), 3000 \<mapsto> frame_init 8], fs_sdl = 0 \<rparr>"

theorem frame_queue_refines_witness:
  "\<exists>qs'. queue_steps example_sdl [Queue_tail 1000, Queue_tail 2000, Queue_head 3000, Dequeue, Purge]
      (frame_queue_init example_sdl \<lparr> fq_list = 8, fq_lock = (), fq_len = 77 \<rparr> example_store) =
        Some ([None, None, None, Some 3000, None], qs') \<and>
    fq_len (fst qs') = 0 \<and> fs_frames (snd qs') 1000 = None \<and> fs_frames (snd qs') 2000 = Some (frame_init 8)"
proof -
  let ?q = "frame_queue_init example_sdl \<lparr> fq_list = 8, fq_lock = (), fq_len = 77 \<rparr> example_store"
  have ok: "sdl_ok example_sdl"
    by (simp add: sdl_ok_def example_sdl_def)
  have q: "frames_of ?q 8 ([], fs_frames example_store)"
    by (simp add: frames_of_def frame_queue_init_def frame_queue_init0_def example_sdl_def)
  have s: "spec_steps 8 [Queue_tail 1000, Queue_tail 2000, Queue_head 3000, Dequeue, Purge] ([], fs_frames example_store) =
      Some ([None, None, None, Some 3000, None], [],
        (fs_frames example_store)(1000 := None, 2000 \<mapsto> frame_init 8))"
    by (simp add: example_store_def frame_drop_def frame_get_def frame_init_def)
  show ?thesis
    using frame_queue_refines [OF ok q s] by (auto simp: frames_of_def)
qed

end
