(* ===== verification/KconfigExpr.thy ===== *)
theory KconfigExpr
  imports Prelude
begin

text \<open>Expressions of the configuration tool (config/expr.h, config/expr.c): the options that choose what
  is built into the firmware depend on each other through them. Nodes are hash-consed and never change, so
  an expression is a value. \<^verbatim>\<open>NULL\<close>, which stands for y, is None. A symbol is a number, the
  index of its record; the calculated value in the record is the one that \<^verbatim>\<open>sym_calc_value\<close> leaves
  there. The cache of the values in the nodes is left out.\<close>

subsection \<open>Three values\<close>

datatype tristate = T_no | T_mod | T_yes

primrec tri_num :: "tristate \<Rightarrow> nat" where
  "tri_num T_no = 0"
| "tri_num T_mod = 1"
| "tri_num T_yes = 2"

lemma tri_num_inject [simp]: "tri_num a = tri_num b \<longleftrightarrow> a = b"
  by (cases a; cases b) simp_all

instantiation tristate :: linorder
begin

definition less_eq_tristate :: "tristate \<Rightarrow> tristate \<Rightarrow> bool" where
  "less_eq_tristate a b \<longleftrightarrow> tri_num a \<le> tri_num b"

definition less_tristate :: "tristate \<Rightarrow> tristate \<Rightarrow> bool" where
  "less_tristate a b \<longleftrightarrow> tri_num a < tri_num b"

instance
  by standard (auto simp: less_eq_tristate_def less_tristate_def)

end

instantiation tristate :: bounded_lattice
begin

definition inf_tristate :: "tristate \<Rightarrow> tristate \<Rightarrow> tristate" where "inf_tristate = min"
definition sup_tristate :: "tristate \<Rightarrow> tristate \<Rightarrow> tristate" where "sup_tristate = max"
definition bot_tristate :: tristate where "bot_tristate = T_no"
definition top_tristate :: tristate where "top_tristate = T_yes"

instance
proof
  fix a :: tristate
  show "bot \<le> a" "a \<le> top"
    by (cases a; simp add: bot_tristate_def top_tristate_def less_eq_tristate_def)+
qed (auto simp: inf_tristate_def sup_tristate_def)

end

definition EXPR_OR :: "tristate \<Rightarrow> tristate \<Rightarrow> tristate" where
  "EXPR_OR dep1 dep2 = (if dep1 > dep2 then dep1 else dep2)"

definition EXPR_AND :: "tristate \<Rightarrow> tristate \<Rightarrow> tristate" where
  "EXPR_AND dep1 dep2 = (if dep1 < dep2 then dep1 else dep2)"

primrec EXPR_NOT :: "tristate \<Rightarrow> tristate" where
  "EXPR_NOT T_no = T_yes"
| "EXPR_NOT T_mod = T_mod"
| "EXPR_NOT T_yes = T_no"

lemma EXPR_OR_sup: "EXPR_OR a b = sup a b"
  by (simp add: EXPR_OR_def sup_tristate_def max_def not_less) (auto dest: antisym)

lemma EXPR_AND_inf: "EXPR_AND a b = inf a b"
  by (simp add: EXPR_AND_def inf_tristate_def min_def not_less) (auto dest: antisym)

lemma tristate_bounds [simp]:
  "sup T_no a = a" "sup a T_no = a" "sup T_yes a = T_yes" "sup a T_yes = T_yes"
  "inf T_no a = T_no" "inf a T_no = T_no" "inf T_yes a = a" "inf a T_yes = a" for a :: tristate
  unfolding bot_tristate_def [symmetric] top_tristate_def [symmetric] by simp_all

lemma EXPR_NOT_inf [simp]: "EXPR_NOT (inf a b) = sup (EXPR_NOT a) (EXPR_NOT b)"
  by (cases a; cases b) (simp_all add: EXPR_AND_inf [symmetric] EXPR_OR_sup [symmetric] EXPR_AND_def EXPR_OR_def less_tristate_def)

lemma EXPR_NOT_sup [simp]: "EXPR_NOT (sup a b) = inf (EXPR_NOT a) (EXPR_NOT b)"
  by (cases a; cases b) (simp_all add: EXPR_AND_inf [symmetric] EXPR_OR_sup [symmetric] EXPR_AND_def EXPR_OR_def less_tristate_def)

lemma EXPR_NOT_NOT [simp]: "EXPR_NOT (EXPR_NOT a) = a"
  by (cases a) simp_all

subsection \<open>Symbols and expressions\<close>

datatype symbol_type = S_UNKNOWN | S_BOOLEAN | S_TRISTATE | S_INT | S_HEX | S_STRING

type_synonym sym = nat

record symbol =
  s_name :: "string option"
  s_type :: symbol_type
  s_const :: bool
  s_tri :: tristate
  s_val :: string

type_synonym symbols = "sym \<Rightarrow> symbol"

abbreviation (input) symbol_no :: sym where "symbol_no \<equiv> 2"
abbreviation (input) symbol_mod :: sym where "symbol_mod \<equiv> 3"
abbreviation (input) symbol_yes :: sym where "symbol_yes \<equiv> 4"

definition symbol_constants :: symbols where
  "symbol_constants = (\<lambda>_. \<lparr> s_name = None, s_type = S_UNKNOWN, s_const = False, s_tri = T_no, s_val = [] \<rparr>)
     (symbol_yes := \<lparr> s_name = Some ''y'', s_type = S_TRISTATE, s_const = True, s_tri = T_yes, s_val = ''y'' \<rparr>,
      symbol_mod := \<lparr> s_name = Some ''m'', s_type = S_TRISTATE, s_const = True, s_tri = T_mod, s_val = ''m'' \<rparr>,
      symbol_no := \<lparr> s_name = Some ''n'', s_type = S_TRISTATE, s_const = True, s_tri = T_no, s_val = ''n'' \<rparr>)"

datatype relation = E_EQUAL | E_UNEQUAL | E_LTH | E_LEQ | E_GTH | E_GEQ

datatype expr = Or expr expr | And expr expr | Not expr | Comp relation sym sym | Symbol sym | Range sym sym

definition expr_alloc_and :: "expr option \<Rightarrow> expr option \<Rightarrow> expr option" where
  "expr_alloc_and e1 e2 = (case e1 of None \<Rightarrow> e2 | Some a \<Rightarrow> (case e2 of None \<Rightarrow> e1 | Some b \<Rightarrow> Some (And a b)))"

definition expr_alloc_or :: "expr option \<Rightarrow> expr option \<Rightarrow> expr option" where
  "expr_alloc_or e1 e2 = (case e1 of None \<Rightarrow> e2 | Some a \<Rightarrow> (case e2 of None \<Rightarrow> e1 | Some b \<Rightarrow> Some (Or a b)))"

definition expr_is_yes :: "expr option \<Rightarrow> bool" where
  "expr_is_yes e \<longleftrightarrow> e = None \<or> e = Some (Symbol symbol_yes)"

subsection \<open>Values\<close>

definition sym_get_string_value :: "symbol \<Rightarrow> string" where
  "sym_get_string_value s =
     (if s_type s = S_BOOLEAN \<or> s_type s = S_TRISTATE
      then (case s_tri s of T_no \<Rightarrow> ''n'' | T_mod \<Rightarrow> ''m'' | T_yes \<Rightarrow> ''y'')
      else s_val s)"

text \<open>The number that \<^verbatim>\<open>strtoll\<close> and \<^verbatim>\<open>strtoull\<close> read: blanks, a sign, a prefix, digits. The result is
  the value before it is brought into range, and what is left of the text; without digits it is the
  whole text.\<close>

definition isspace :: "char \<Rightarrow> bool" where
  "isspace c \<longleftrightarrow> (of_char c :: nat) \<in> {9, 10, 11, 12, 13, 32}"

definition digit_value :: "char \<Rightarrow> nat option" where
  "digit_value c = (let n = of_char c in
     if 48 \<le> n \<and> n \<le> 57 then Some (n - 48)
     else if 97 \<le> n \<and> n \<le> 122 then Some (n - 87)
     else if 65 \<le> n \<and> n \<le> 90 then Some (n - 55) else None)"

definition is_digit :: "nat \<Rightarrow> char \<Rightarrow> bool" where
  "is_digit base c = (case digit_value c of None \<Rightarrow> False | Some d \<Rightarrow> d < base)"

definition isxdigit :: "char \<Rightarrow> bool" where
  "isxdigit c = is_digit 16 c"

definition digits_value :: "nat \<Rightarrow> string \<Rightarrow> nat" where
  "digits_value base ds = foldl (\<lambda>n c. n * base + the (digit_value c)) 0 ds"

definition number_prefix :: "nat \<Rightarrow> string \<Rightarrow> nat \<times> string" where
  "number_prefix base s =
     (if (base = 0 \<or> base = 16) \<and> length s \<ge> 3 \<and> s ! 0 = CHR ''0'' \<and> (s ! 1 = CHR ''x'' \<or> s ! 1 = CHR ''X'') \<and> isxdigit (s ! 2)
      then (16, drop 2 s)
      else if base = 0 then (if s \<noteq> [] \<and> hd s = CHR ''0'' then 8 else 10, s) else (base, s))"

definition strto :: "nat \<Rightarrow> string \<Rightarrow> int \<times> string" where
  "strto base str =
     (let s = dropWhile isspace str;
          neg = (s \<noteq> [] \<and> hd s = CHR ''-'');
          s = (if s \<noteq> [] \<and> (hd s = CHR ''-'' \<or> hd s = CHR ''+'') then tl s else s);
          (base, s) = number_prefix base s;
          ds = takeWhile (is_digit base) s
      in if ds = [] then (0, str)
         else ((if neg then - int (digits_value base ds) else int (digits_value base ds)), dropWhile (is_digit base) s))"

datatype string_value = K_string | K_signed int | K_unsigned int

text \<open>Out of range, errno is set and the text is not a number. \<^verbatim>\<open>strtoull\<close> takes a negative number whose
  absolute value is in range modulo 2^64. \<^verbatim>\<open>tail[-1]\<close> is the last character read.\<close>

definition expr_parse_string :: "string \<Rightarrow> symbol_type \<Rightarrow> string_value" where
  "expr_parse_string str type =
     (case type of
        S_BOOLEAN \<Rightarrow> K_signed (if str = ''n'' then 0 else if str = ''m'' then 1 else if str = ''y'' then 2 else -1)
      | S_TRISTATE \<Rightarrow> K_signed (if str = ''n'' then 0 else if str = ''m'' then 1 else if str = ''y'' then 2 else -1)
      | _ \<Rightarrow>
        let (val, tail) = strto (if type = S_INT then 10 else if type = S_HEX then 16 else 0) str;
            unsigned = (type = S_HEX);
            errno = (if unsigned then \<bar>val\<bar> > 18446744073709551615 else val > 9223372036854775807 \<or> val < -9223372036854775808)
        in if \<not> errno \<and> tail = [] \<and> tail \<noteq> str \<and> isxdigit (last str)
           then (if unsigned then K_unsigned (val mod 18446744073709551616) else K_signed val)
           else K_string)"

definition sgn3 :: "int \<Rightarrow> int \<Rightarrow> int" where
  "sgn3 a b = (if a > b then 1 else 0) - (if a < b then 1 else 0)"

fun strcmp :: "string \<Rightarrow> string \<Rightarrow> int" where
  "strcmp [] [] = 0"
| "strcmp [] (b # bs) = -1"
| "strcmp (a # as) [] = 1"
| "strcmp (a # as) (b # bs) =
     (if (of_char a :: int) = of_char b then strcmp as bs else sgn3 (of_char a) (of_char b))"

text \<open>The comparison of two symbols: as numbers when both texts are numbers, as 64-bit words when one of them is
  unsigned, else as texts.\<close>

definition number_of :: "string_value \<Rightarrow> int" where
  "number_of v = (case v of K_string \<Rightarrow> 0 | K_signed n \<Rightarrow> n | K_unsigned n \<Rightarrow> n)"

definition sym_cmp :: "symbols \<Rightarrow> sym \<Rightarrow> sym \<Rightarrow> int" where
  "sym_cmp S l r =
     (let str1 = sym_get_string_value (S l); str2 = sym_get_string_value (S r);
          strs = (s_type (S l) = S_STRING \<and> s_type (S r) = S_STRING);
          k1 = (if strs then K_string else expr_parse_string str1 (s_type (S l)));
          k2 = (if strs then K_string else expr_parse_string str2 (s_type (S r)))
      in case (k1, k2) of
           (K_signed a, K_signed b) \<Rightarrow> sgn3 a b
         | (K_string, _) \<Rightarrow> strcmp str1 str2
         | (_, K_string) \<Rightarrow> strcmp str1 str2
         | _ \<Rightarrow> sgn3 (number_of k1 mod 18446744073709551616) (number_of k2 mod 18446744073709551616))"

definition holds_rel :: "relation \<Rightarrow> int \<Rightarrow> bool" where
  "holds_rel rel res = (case rel of E_EQUAL \<Rightarrow> res = 0 | E_UNEQUAL \<Rightarrow> res \<noteq> 0 | E_GEQ \<Rightarrow> res \<ge> 0 | E_GTH \<Rightarrow> res > 0 | E_LEQ \<Rightarrow> res \<le> 0
     | E_LTH \<Rightarrow> res < 0)"

primrec expr_calc_node :: "symbols \<Rightarrow> expr \<Rightarrow> tristate" where
  "expr_calc_node S (Symbol a) = s_tri (S a)"
| "expr_calc_node S (And l r) = EXPR_AND (expr_calc_node S l) (expr_calc_node S r)"
| "expr_calc_node S (Or l r) = EXPR_OR (expr_calc_node S l) (expr_calc_node S r)"
| "expr_calc_node S (Not e) = EXPR_NOT (expr_calc_node S e)"
| "expr_calc_node S (Comp rel a b) = (if holds_rel rel (sym_cmp S a b) then T_yes else T_no)"
| "expr_calc_node S (Range a b) = T_no"

definition expr_calc_value :: "symbols \<Rightarrow> expr option \<Rightarrow> tristate" where
  "expr_calc_value S e = (case e of None \<Rightarrow> T_yes | Some e \<Rightarrow> expr_calc_node S e)"

end
