(* ===== verification/KconfigSimp.thy ===== *)
theory KconfigSimp
  imports KconfigExpr
begin

text \<open>The simplification of configuration expressions (config/expr.c): comparison, elimination of common
  operands, of constants and of redundant operands. The global \<^verbatim>\<open>trans_count\<close> is passed along by the
  walks; \<^verbatim>\<open>expr_eq\<close> and \<^verbatim>\<open>expr_eliminate_dups\<close> restore it, so it is not visible outside of them.\<close>

subsection \<open>Operands\<close>

datatype oper = E_OR | E_AND

fun operands :: "oper \<Rightarrow> expr \<Rightarrow> (expr \<times> expr) option" where
  "operands E_OR (Or l r) = Some (l, r)"
| "operands E_AND (And l r) = Some (l, r)"
| "operands _ _ = None"

primrec alloc_oper :: "oper \<Rightarrow> expr \<Rightarrow> expr \<Rightarrow> expr" where
  "alloc_oper E_OR = Or"
| "alloc_oper E_AND = And"

primrec neutral :: "oper \<Rightarrow> expr" where
  "neutral E_OR = Symbol symbol_no"
| "neutral E_AND = Symbol symbol_yes"

primrec esize :: "expr \<Rightarrow> nat" where
  "esize (Or l r) = Suc (esize l + esize r)"
| "esize (And l r) = Suc (esize l + esize r)"
| "esize (Not e) = Suc (esize e)"
| "esize (Comp rel a b) = 1"
| "esize (Symbol a) = 1"
| "esize (Range a b) = 1"

lemma esize_pos [simp]: "0 < esize e"
  by (cases e) simp_all

lemma operands_Some: "operands t e = Some (l, r) \<longleftrightarrow> e = alloc_oper t l r"
  by (cases t; cases e) auto

lemma operands_oper [simp]: "operands t (alloc_oper t l r) = Some (l, r)"
  by (simp add: operands_Some)

lemma esize_oper [simp]: "esize (alloc_oper t l r) = Suc (esize l + esize r)"
  by (cases t) simp_all

lemma operands_neutral [simp]: "operands t (neutral u) = None" "esize (neutral t) = 1"
  by (cases t; cases u; simp)+

text \<open>The walk of \<^verbatim>\<open>__expr_eliminate_eq\<close> and \<^verbatim>\<open>expr_eliminate_dups1\<close>: every operand of the first expression
  meets every operand of the second one, and \<^verbatim>\<open>f\<close>, which replaces both and counts, never makes an operand
  out of something that is split again.\<close>

function walk_right :: "(expr \<Rightarrow> expr \<Rightarrow> nat \<Rightarrow> expr \<times> expr \<times> nat) \<Rightarrow> oper \<Rightarrow> expr \<Rightarrow> expr \<Rightarrow> nat \<Rightarrow> expr \<times> expr \<times> nat" where
  "walk_right f t e1 e2 c =
     (case operands t e2 of
        Some (l, r) \<Rightarrow>
          (let (e1, l, c) = walk_right f t e1 l c; (e1, r, c) = walk_right f t e1 r c
           in (e1, alloc_oper t l r, c))
      | None \<Rightarrow> f e1 e2 c)"
  by auto
termination
  by (relation "measure (\<lambda>(f, t, e1, e2, c). esize e2)") (auto simp: operands_Some)

function walk :: "(expr \<Rightarrow> expr \<Rightarrow> nat \<Rightarrow> expr \<times> expr \<times> nat) \<Rightarrow> oper \<Rightarrow> expr \<Rightarrow> expr \<Rightarrow> nat \<Rightarrow> expr \<times> expr \<times> nat" where
  "walk f t e1 e2 c =
     (case operands t e1 of
        Some (l, r) \<Rightarrow>
          (let (l, e2, c) = walk f t l e2 c; (r, e2, c) = walk f t r e2 c
           in (alloc_oper t l r, e2, c))
      | None \<Rightarrow> walk_right f t e1 e2 c)"
  by auto
termination
  by (relation "measure (\<lambda>(f, t, e1, e2, c). esize e1)") (auto simp: operands_Some)

declare walk_right.simps [simp del] walk.simps [simp del]

lemma walk_right_leaf: "operands t e2 = None \<Longrightarrow> walk_right f t e1 e2 c = f e1 e2 c"
  by (simp add: walk_right.simps)

lemma walk_right_oper:
  "walk_right f t e1 l c = (a, l', k) \<Longrightarrow> walk_right f t a r k = (b, r', k') \<Longrightarrow>
   walk_right f t e1 (alloc_oper t l r) c = (b, alloc_oper t l' r', k')"
  by (simp add: walk_right.simps [of _ _ _ "alloc_oper t l r"])

lemma walk_leaf: "operands t e1 = None \<Longrightarrow> walk f t e1 e2 c = walk_right f t e1 e2 c"
  by (simp add: walk.simps)

lemma walk_oper:
  "walk f t l e2 c = (l', a, k) \<Longrightarrow> walk f t r a k = (r', b, k') \<Longrightarrow>
   walk f t (alloc_oper t l r) e2 c = (alloc_oper t l' r', b, k')"
  by (simp add: walk.simps [of _ _ "alloc_oper t l r"])

text \<open>Induction over the operands of one type.\<close>

lemma operand_induct [case_names leaf oper]:
  assumes "\<And>e. operands t e = None \<Longrightarrow> P e" "\<And>l r. P l \<Longrightarrow> P r \<Longrightarrow> P (alloc_oper t l r)"
  shows "P e"
proof (induction "esize e" arbitrary: e rule: less_induct)
  case less
  show ?case
  proof (cases "operands t e")
    case (Some lr)
    then obtain l r where "e = alloc_oper t l r"
      by (cases lr) (simp add: operands_Some)
    then show ?thesis
      using less assms(2) by simp
  qed (rule assms(1))
qed

subsection \<open>Constants\<close>

primrec expr_eliminate_yn :: "expr \<Rightarrow> expr" where
  "expr_eliminate_yn (And l0 r0) =
     (let l = expr_eliminate_yn l0; r = expr_eliminate_yn r0
      in if l = Symbol symbol_no then l else if l = Symbol symbol_yes then r
         else if r = Symbol symbol_no then r else if r = Symbol symbol_yes then l
         else And l0 r0)"
| "expr_eliminate_yn (Or l0 r0) =
     (let l = expr_eliminate_yn l0; r = expr_eliminate_yn r0
      in if l = Symbol symbol_no then r else if l = Symbol symbol_yes then l
         else if r = Symbol symbol_no then l else if r = Symbol symbol_yes then r
         else Or l0 r0)"
| "expr_eliminate_yn (Not e) = Not e"
| "expr_eliminate_yn (Comp rel a b) = Comp rel a b"
| "expr_eliminate_yn (Symbol a) = Symbol a"
| "expr_eliminate_yn (Range a b) = Range a b"

subsection \<open>Equality\<close>

definition eliminate_leaf :: "(expr \<Rightarrow> expr \<Rightarrow> bool) \<Rightarrow> oper \<Rightarrow> expr \<Rightarrow> expr \<Rightarrow> nat \<Rightarrow> expr \<times> expr \<times> nat" where
  "eliminate_leaf eq t e1 e2 c =
     (if e1 = e2 \<and> (e1 = Symbol symbol_yes \<or> e1 = Symbol symbol_no) then (e1, e2, c)
      else if \<not> eq e1 e2 then (e1, e2, c)
      else (neutral t, neutral t, c + 1))"

definition eliminate_eq :: "(expr \<Rightarrow> expr \<Rightarrow> bool) \<Rightarrow> oper \<Rightarrow> expr \<Rightarrow> expr \<Rightarrow> expr \<times> expr" where
  "eliminate_eq eq t e1 e2 = (case walk (eliminate_leaf eq t) t e1 e2 0 of (e1, e2, _) \<Rightarrow> (e1, e2))"

function leaves :: "oper \<Rightarrow> expr \<Rightarrow> expr set" where
  "leaves t e = (case operands t e of None \<Rightarrow> {e} | Some (l, r) \<Rightarrow> leaves t l \<union> leaves t r)"
  by auto
termination
  by (relation "measure (\<lambda>(t, e). esize e)") (auto simp: operands_Some)

declare leaves.simps [simp del]

lemma leaves_oper [simp]: "leaves t (alloc_oper t l r) = leaves t l \<union> leaves t r"
  by (subst leaves.simps) simp

lemma leaves_leaf: "operands t e = None \<Longrightarrow> leaves t e = {e}"
  by (subst leaves.simps) simp

lemma leaves_neutral [simp]: "leaves t (neutral u) = {neutral u}"
  by (simp add: leaves_leaf)

lemma leaves_size: "x \<in> leaves t e \<Longrightarrow> esize x \<le> esize e"
proof (induction t e rule: leaves.induct)
  case (1 t e)
  then show ?case
    by (cases "operands t e") (fastforce simp: leaves_leaf operands_Some)+
qed

lemma leaves_size_less: "x \<in> leaves t (alloc_oper t l r) \<Longrightarrow> esize x < esize (alloc_oper t l r)"
  using leaves_size [of x t l] leaves_size [of x t r] by auto

text \<open>Which operands the leaf function meets.\<close>

lemma walk_right_cong:
  assumes "\<And>x y. x \<in> {e1, neutral t} \<Longrightarrow> y \<in> leaves t e2 \<Longrightarrow> eq x y = eq' x y"
    and "walk_right (eliminate_leaf eq t) t e1 e2 c = (a, b, k)"
  shows "walk_right (eliminate_leaf eq' t) t e1 e2 c = (a, b, k) \<and> a \<in> {e1, neutral t} \<and> leaves t b \<subseteq> insert (neutral t) (leaves t e2)"
  using assms
proof (induction e2 arbitrary: e1 c a b k rule: operand_induct [where t = t])
  case (leaf e2)
  then show ?case
    by (auto simp: walk_right_leaf eliminate_leaf_def leaves_leaf split: if_splits)
next
  case (oper l r)
  obtain a1 l' k1 where 1: "walk_right (eliminate_leaf eq t) t e1 l c = (a1, l', k1)"
    by (cases "walk_right (eliminate_leaf eq t) t e1 l c")
  obtain a2 r' k2 where 2: "walk_right (eliminate_leaf eq t) t a1 r k1 = (a2, r', k2)"
    by (cases "walk_right (eliminate_leaf eq t) t a1 r k1")
  have l: "walk_right (eliminate_leaf eq' t) t e1 l c = (a1, l', k1)" "a1 \<in> {e1, neutral t}"
      "leaves t l' \<subseteq> insert (neutral t) (leaves t l)"
    using oper.IH(1) [OF _ 1] oper.prems(1) by auto
  have r: "walk_right (eliminate_leaf eq' t) t a1 r k1 = (a2, r', k2)" "a2 \<in> {a1, neutral t}"
      "leaves t r' \<subseteq> insert (neutral t) (leaves t r)"
    using oper.IH(2) [OF _ 2] oper.prems(1) l(2) by auto
  show ?case
    using oper.prems(2) walk_right_oper [OF 1 2] walk_right_oper [OF l(1) r(1)] l(2,3) r(2,3) by auto
qed

lemma walk_cong:
  assumes "\<And>x y. x \<in> insert (neutral t) (leaves t e1) \<Longrightarrow> y \<in> insert (neutral t) (leaves t e2) \<Longrightarrow> eq x y = eq' x y"
    and "walk (eliminate_leaf eq t) t e1 e2 c = (a, b, k)"
  shows "walk (eliminate_leaf eq' t) t e1 e2 c = (a, b, k) \<and> leaves t b \<subseteq> insert (neutral t) (leaves t e2)"
  using assms
proof (induction e1 arbitrary: e2 c a b k rule: operand_induct [where t = t])
  case (leaf e1)
  have w: "walk_right (eliminate_leaf eq t) t e1 e2 c = (a, b, k)"
    using leaf by (simp add: walk_leaf)
  show ?case
    using walk_right_cong [OF _ w, of eq'] leaf by (auto simp: walk_leaf leaves_leaf)
next
  case (oper l r)
  obtain l' b1 k1 where 1: "walk (eliminate_leaf eq t) t l e2 c = (l', b1, k1)"
    by (cases "walk (eliminate_leaf eq t) t l e2 c")
  obtain r' b2 k2 where 2: "walk (eliminate_leaf eq t) t r b1 k1 = (r', b2, k2)"
    by (cases "walk (eliminate_leaf eq t) t r b1 k1")
  have l: "walk (eliminate_leaf eq' t) t l e2 c = (l', b1, k1)" "leaves t b1 \<subseteq> insert (neutral t) (leaves t e2)"
    using oper.IH(1) [OF _ 1] oper.prems(1) by auto
  have same: "\<And>x y. x \<in> insert (neutral t) (leaves t r) \<Longrightarrow> y \<in> insert (neutral t) (leaves t b1) \<Longrightarrow> eq x y = eq' x y"
    using oper.prems(1) l(2) by (auto dest!: subsetD)
  have r: "walk (eliminate_leaf eq' t) t r b1 k1 = (r', b2, k2)" "leaves t b2 \<subseteq> insert (neutral t) (leaves t b1)"
    using oper.IH(2) [OF same 2] by auto
  show ?case
    using oper.prems(2) walk_oper [OF 1 2] walk_oper [OF l(1) r(1)] l(2) r(2) by auto
qed

lemma eliminate_eq_cong [fundef_cong]:
  assumes "t = t'" "e1 = e1'" "e2 = e2'"
    and "\<And>x y. x \<in> insert (neutral t') (leaves t' e1') \<Longrightarrow> y \<in> insert (neutral t') (leaves t' e2') \<Longrightarrow> eq x y = eq' x y"
  shows "eliminate_eq eq t e1 e2 = eliminate_eq eq' t' e1' e2'"
proof -
  obtain a b k where w: "walk (eliminate_leaf eq t) t e1 e2 0 = (a, b, k)"
    by (cases "walk (eliminate_leaf eq t) t e1 e2 0")
  have "walk (eliminate_leaf eq' t) t e1 e2 0 = (a, b, k)"
    using walk_cong [OF _ w] assms by simp
  then show ?thesis
    using w assms by (simp add: eliminate_eq_def)
qed

text \<open>Expressions of the same type: \<^verbatim>\<open>expr_eliminate_eq\<close> then walks once, and removes the constants.\<close>

definition same_symbol :: "expr \<times> expr \<Rightarrow> bool" where
  "same_symbol = (\<lambda>(e1, e2). case (expr_eliminate_yn e1, expr_eliminate_yn e2) of (Symbol a, Symbol b) \<Rightarrow> a = b | _ \<Rightarrow> False)"

function (sequential) expr_eq_node :: "expr \<Rightarrow> expr \<Rightarrow> bool" where
  "expr_eq_node (Comp rel a b) (Comp rel' a' b') \<longleftrightarrow> rel = rel' \<and> a = a' \<and> b = b'"
| "expr_eq_node (Symbol a) (Symbol a') \<longleftrightarrow> a = a'"
| "expr_eq_node (Not e) (Not e') \<longleftrightarrow> expr_eq_node e e'"
| "expr_eq_node (And l r) (And l' r') \<longleftrightarrow> same_symbol (eliminate_eq expr_eq_node E_AND (alloc_oper E_AND l r) (alloc_oper E_AND l' r'))"
| "expr_eq_node (Or l r) (Or l' r') \<longleftrightarrow> same_symbol (eliminate_eq expr_eq_node E_OR (alloc_oper E_OR l r) (alloc_oper E_OR l' r'))"
| "expr_eq_node _ _ \<longleftrightarrow> False"
  by pat_completeness auto
termination
proof (relation "measure (\<lambda>(e1, e2). esize e1 + esize e2)")
  have lt: "x \<in> insert (neutral t) (leaves t (alloc_oper t l r)) \<Longrightarrow> esize x < esize (alloc_oper t l r)" for x t l r
    using leaves_size_less [of x t l r] by (auto simp: Suc_lessI)
  show "x \<in> insert (neutral E_AND) (leaves E_AND (alloc_oper E_AND l r)) \<Longrightarrow> y \<in> insert (neutral E_AND) (leaves E_AND (alloc_oper E_AND l' r')) \<Longrightarrow>
      ((x, y), (And l r, And l' r')) \<in> measure (\<lambda>(e1, e2). esize e1 + esize e2)" for l r l' r' x y
    using lt [of x E_AND l r] lt [of y E_AND l' r'] by simp
  show "x \<in> insert (neutral E_OR) (leaves E_OR (alloc_oper E_OR l r)) \<Longrightarrow> y \<in> insert (neutral E_OR) (leaves E_OR (alloc_oper E_OR l' r')) \<Longrightarrow>
      ((x, y), (Or l r, Or l' r')) \<in> measure (\<lambda>(e1, e2). esize e1 + esize e2)" for l r l' r' x y
    using lt [of x E_OR l r] lt [of y E_OR l' r'] by simp
qed simp_all

definition expr_eq :: "expr option \<Rightarrow> expr option \<Rightarrow> bool" where
  "expr_eq e1 e2 = (case (e1, e2) of (Some a, Some b) \<Rightarrow> expr_eq_node a b | _ \<Rightarrow> expr_is_yes e1 \<and> expr_is_yes e2)"

text \<open>The public \<^verbatim>\<open>expr_eliminate_eq\<close>: the operands of the type of the first expression, then those of
  the type of the second one when it is another one.\<close>

definition oper_of :: "expr \<Rightarrow> oper option" where
  "oper_of e = (case e of Or _ _ \<Rightarrow> Some E_OR | And _ _ \<Rightarrow> Some E_AND | _ \<Rightarrow> None)"

fun expr_kind :: "expr \<Rightarrow> nat" where
  "expr_kind (Or _ _) = 1"
| "expr_kind (And _ _) = 2"
| "expr_kind (Not _) = 3"
| "expr_kind (Comp rel _ _) = (case rel of E_EQUAL \<Rightarrow> 4 | E_UNEQUAL \<Rightarrow> 5 | E_LTH \<Rightarrow> 6 | E_LEQ \<Rightarrow> 7 | E_GTH \<Rightarrow> 8 | E_GEQ \<Rightarrow> 9)"
| "expr_kind (Symbol _) = 10"
| "expr_kind (Range _ _) = 11"

definition expr_eliminate_eq :: "expr option \<Rightarrow> expr option \<Rightarrow> expr option \<times> expr option" where
  "expr_eliminate_eq ep1 ep2 =
     (case (ep1, ep2) of
        (Some e1, Some e2) \<Rightarrow>
          let (e1, e2) = (case oper_of e1 of Some t \<Rightarrow> eliminate_eq expr_eq_node t e1 e2 | None \<Rightarrow> (e1, e2));
              (e1, e2) = (if expr_kind e1 \<noteq> expr_kind e2
                          then (case oper_of e2 of Some t \<Rightarrow> eliminate_eq expr_eq_node t e1 e2 | None \<Rightarrow> (e1, e2))
                          else (e1, e2))
          in (Some (expr_eliminate_yn e1), Some (expr_eliminate_yn e2))
      | _ \<Rightarrow> (ep1, ep2))"

subsection \<open>Joining two operands\<close>

text \<open>\<^verbatim>\<open>e->right.sym\<close> of a comparison of the given relation.\<close>

definition comp_right :: "relation \<Rightarrow> expr \<Rightarrow> sym option" where
  "comp_right rel e = (case e of Comp r a b \<Rightarrow> if r = rel then Some b else None | _ \<Rightarrow> None)"

definition is_symbol :: "expr \<Rightarrow> bool" where
  "is_symbol e = (case e of Symbol _ \<Rightarrow> True | _ \<Rightarrow> False)"

definition is_not_symbol :: "expr \<Rightarrow> bool" where
  "is_not_symbol e = (case e of Not (Symbol _) \<Rightarrow> True | _ \<Rightarrow> False)"

text \<open>\<^verbatim>\<open>sym1\<close> and \<^verbatim>\<open>sym2\<close> of \<^verbatim>\<open>expr_join_or\<close> and \<^verbatim>\<open>expr_join_and\<close>, None where these give up.\<close>

definition join_plain :: "expr \<Rightarrow> sym option" where
  "join_plain e = (case e of Comp r a b \<Rightarrow> if r = E_EQUAL \<or> r = E_UNEQUAL then Some a else None | Symbol a \<Rightarrow> Some a | _ \<Rightarrow> None)"

definition join_sym1 :: "expr \<Rightarrow> sym option" where
  "join_sym1 e = (case e of Not tmp \<Rightarrow> join_plain tmp | _ \<Rightarrow> join_plain e)"

definition join_sym2 :: "expr \<Rightarrow> sym option" where
  "join_sym2 e = (case e of Not tmp \<Rightarrow> (case tmp of Symbol a \<Rightarrow> Some a | _ \<Rightarrow> None) | _ \<Rightarrow> join_plain e)"

definition join_sym :: "symbols \<Rightarrow> expr \<Rightarrow> expr \<Rightarrow> sym option" where
  "join_sym S e1 e2 =
     (case (join_sym1 e1, join_sym2 e2) of
        (Some sym1, Some sym2) \<Rightarrow>
          if sym1 \<noteq> sym2 then None
          else if s_type (S sym1) \<noteq> S_BOOLEAN \<and> s_type (S sym1) \<noteq> S_TRISTATE then None else Some sym1
      | _ \<Rightarrow> None)"

text \<open>Both are comparisons of the same relation, with the two symbols in either order.\<close>

definition comp_pair :: "relation \<Rightarrow> expr \<Rightarrow> expr \<Rightarrow> sym \<Rightarrow> sym \<Rightarrow> bool" where
  "comp_pair rel e1 e2 a b \<longleftrightarrow>
     comp_right rel e1 = Some a \<and> comp_right rel e2 = Some b \<or> comp_right rel e1 = Some b \<and> comp_right rel e2 = Some a"

text \<open>One is the symbol itself, the other one a comparison of it.\<close>

definition symbol_and_comp :: "relation \<Rightarrow> expr \<Rightarrow> expr \<Rightarrow> sym \<Rightarrow> bool" where
  "symbol_and_comp rel e1 e2 b \<longleftrightarrow>
     is_symbol e1 \<and> comp_right rel e2 = Some b \<or> is_symbol e2 \<and> comp_right rel e1 = Some b"

definition expr_join_or :: "symbols \<Rightarrow> expr \<Rightarrow> expr \<Rightarrow> expr option" where
  "expr_join_or S e1 e2 =
     (if expr_eq_node e1 e2 then Some e1
      else case join_sym S e1 e2 of
          None \<Rightarrow> None
        | Some sym1 \<Rightarrow>
            if s_type (S sym1) = S_TRISTATE \<and> comp_pair E_EQUAL e1 e2 symbol_yes symbol_mod then Some (Comp E_UNEQUAL sym1 symbol_no)
            else if s_type (S sym1) = S_TRISTATE \<and> comp_pair E_EQUAL e1 e2 symbol_yes symbol_no then Some (Comp E_UNEQUAL sym1 symbol_mod)
            else if s_type (S sym1) = S_TRISTATE \<and> comp_pair E_EQUAL e1 e2 symbol_mod symbol_no then Some (Comp E_UNEQUAL sym1 symbol_yes)
            else if s_type (S sym1) = S_BOOLEAN \<and> (is_not_symbol e1 \<and> is_symbol e2 \<or> is_not_symbol e2 \<and> is_symbol e1)
            then Some (Symbol symbol_yes)
            else None)"

text \<open>\<^verbatim>\<open>(a='b') && (a!='c')\<close> with constants: the result when the first expression is the equality.\<close>

definition join_constants :: "symbols \<Rightarrow> sym \<Rightarrow> expr \<Rightarrow> expr \<Rightarrow> expr option" where
  "join_constants S sym1 e1 e2 =
     (case (comp_right E_EQUAL e1, comp_right E_UNEQUAL e2) of
        (Some b, Some c) \<Rightarrow>
          if s_const (S c) \<and> s_const (S b) then Some (if b \<noteq> c then Comp E_EQUAL sym1 b else Symbol symbol_no) else None
      | _ \<Rightarrow> None)"

definition expr_join_and :: "symbols \<Rightarrow> expr \<Rightarrow> expr \<Rightarrow> expr option" where
  "expr_join_and S e1 e2 =
     (if expr_eq_node e1 e2 then Some e1
      else case join_sym S e1 e2 of
          None \<Rightarrow> None
        | Some sym1 \<Rightarrow>
            if symbol_and_comp E_EQUAL e1 e2 symbol_yes then Some (Comp E_EQUAL sym1 symbol_yes)
            else if symbol_and_comp E_UNEQUAL e1 e2 symbol_no then Some (Symbol sym1)
            else if symbol_and_comp E_UNEQUAL e1 e2 symbol_mod then Some (Comp E_EQUAL sym1 symbol_yes)
            else if s_type (S sym1) = S_TRISTATE then
              (if join_constants S sym1 e1 e2 \<noteq> None then join_constants S sym1 e1 e2
               else if join_constants S sym1 e2 e1 \<noteq> None then join_constants S sym1 e2 e1
               else if comp_pair E_UNEQUAL e1 e2 symbol_yes symbol_no then Some (Comp E_EQUAL sym1 symbol_mod)
               else if comp_pair E_UNEQUAL e1 e2 symbol_yes symbol_mod then Some (Comp E_EQUAL sym1 symbol_no)
               else if comp_pair E_UNEQUAL e1 e2 symbol_mod symbol_no then Some (Comp E_EQUAL sym1 symbol_yes)
               else None)
            else None)"

definition join :: "symbols \<Rightarrow> oper \<Rightarrow> expr \<Rightarrow> expr \<Rightarrow> expr option" where
  "join S t = (case t of E_OR \<Rightarrow> expr_join_or S | E_AND \<Rightarrow> expr_join_and S)"

definition dups_leaf :: "symbols \<Rightarrow> oper \<Rightarrow> expr \<Rightarrow> expr \<Rightarrow> nat \<Rightarrow> expr \<times> expr \<times> nat" where
  "dups_leaf S t e1 e2 c = (case join S t e1 e2 of None \<Rightarrow> (e1, e2, c) | Some tmp \<Rightarrow> (neutral t, tmp, c + 1))"

definition expr_eliminate_dups1 :: "symbols \<Rightarrow> oper \<Rightarrow> expr \<Rightarrow> expr \<Rightarrow> expr \<times> expr \<times> nat" where
  "expr_eliminate_dups1 S t e1 e2 = walk (dups_leaf S t) t e1 e2 0"

text \<open>The loop starts over with the new expression while something was joined.\<close>

partial_function (option) eliminate_dups :: "symbols \<Rightarrow> expr \<Rightarrow> expr option" where
  "eliminate_dups S e =
     (case oper_of e of
        None \<Rightarrow> Some (expr_eliminate_yn e)
      | Some t \<Rightarrow>
          (case operands t e of
             None \<Rightarrow> None
           | Some (l0, r0) \<Rightarrow> do {
               l \<leftarrow> eliminate_dups S l0;
               r \<leftarrow> eliminate_dups S r0;
               let (l, r, trans_count) = expr_eliminate_dups1 S t l r;
               let e = expr_eliminate_yn (alloc_oper t l r);
               if trans_count \<noteq> 0 then eliminate_dups S e else Some e }))"

declare eliminate_dups.simps [code]

definition expr_eliminate_dups :: "symbols \<Rightarrow> expr option \<Rightarrow> expr option option" where
  "expr_eliminate_dups S e = (case e of None \<Rightarrow> Some None | Some e \<Rightarrow> map_option Some (eliminate_dups S e))"

subsection \<open>The values stay\<close>

primrec oper_value :: "oper \<Rightarrow> tristate \<Rightarrow> tristate \<Rightarrow> tristate" where
  "oper_value E_OR = sup"
| "oper_value E_AND = inf"

lemma value_oper [simp]: "expr_calc_node S (alloc_oper t l r) = oper_value t (expr_calc_node S l) (expr_calc_node S r)"
  by (cases t) (simp_all add: EXPR_OR_sup EXPR_AND_inf)

lemma oper_value_ac:
  "oper_value t (oper_value t a b) c = oper_value t a (oper_value t b c)"
  "oper_value t a b = oper_value t b a" "oper_value t a (oper_value t b c) = oper_value t b (oper_value t a c)"
  by (cases t; simp add: ac_simps)+

lemma oper_value_idem [simp]: "oper_value t a a = a"
  by (cases t) simp_all

text \<open>What the table of the symbols must satisfy: the three constants, and that a bool is not m.\<close>

definition symbols_ok :: "symbols \<Rightarrow> bool" where
  "symbols_ok S \<longleftrightarrow> (\<forall>a \<in> {symbol_no, symbol_mod, symbol_yes}. S a = symbol_constants a) \<and>
     (\<forall>a. s_type (S a) = S_BOOLEAN \<longrightarrow> s_tri (S a) \<noteq> T_mod)"

lemma symbols_okD:
  assumes "symbols_ok S"
  shows "s_tri (S symbol_no) = T_no" "s_tri (S symbol_mod) = T_mod" "s_tri (S symbol_yes) = T_yes"
    "s_type (S symbol_no) = S_TRISTATE" "s_type (S symbol_mod) = S_TRISTATE" "s_type (S symbol_yes) = S_TRISTATE"
    "s_const (S symbol_no)" "s_const (S symbol_mod)" "s_const (S symbol_yes)"
  using assms by (simp_all add: symbols_ok_def symbol_constants_def)

lemma neutral_value [simp]:
  "symbols_ok S \<Longrightarrow> oper_value t (expr_calc_node S (neutral t)) v = v" "symbols_ok S \<Longrightarrow> oper_value t v (expr_calc_node S (neutral t)) = v"
  by (cases t; simp add: symbols_okD)+

lemma value_yn: "symbols_ok S \<Longrightarrow> expr_calc_node S (expr_eliminate_yn e) = expr_calc_node S e"
proof (induction e)
  case (Or l r)
  then show ?case
    using symbols_okD [OF Or.prems] by (auto simp: Let_def EXPR_OR_sup)
next
  case (And l r)
  then show ?case
    using symbols_okD [OF And.prems] by (auto simp: Let_def EXPR_AND_inf)
qed simp_all

text \<open>The common operands, taken out of both sides.\<close>

definition common :: "symbols \<Rightarrow> oper \<Rightarrow> expr \<times> expr \<Rightarrow> expr \<times> expr \<Rightarrow> bool" where
  "common S t = (\<lambda>(e1, e2) (e1', e2'). \<exists>m.
     expr_calc_node S e1 = oper_value t m (expr_calc_node S e1') \<and> expr_calc_node S e2 = oper_value t m (expr_calc_node S e2'))"

lemma common_refl: "symbols_ok S \<Longrightarrow> common S t (e1, e2) (e1, e2)"
  unfolding common_def by (auto intro!: exI [of _ "expr_calc_node S (neutral t)"])

lemma common_right:
  assumes "common S t (e1, l) (a1, l')" "common S t (a1, r) (a2, r')"
  shows "common S t (e1, alloc_oper t l r) (a2, alloc_oper t l' r')"
proof -
  obtain m n where "expr_calc_node S e1 = oper_value t m (expr_calc_node S a1)" "expr_calc_node S l = oper_value t m (expr_calc_node S l')"
      "expr_calc_node S a1 = oper_value t n (expr_calc_node S a2)" "expr_calc_node S r = oper_value t n (expr_calc_node S r')"
    using assms by (auto simp: common_def)
  then show ?thesis
    unfolding common_def by (auto intro!: exI [of _ "oper_value t m n"] simp: oper_value_ac)
qed

lemma common_sym: "common S t (e2, e1) (e2', e1') \<Longrightarrow> common S t (e1, e2) (e1', e2')"
  by (auto simp: common_def)

lemma common_left:
  assumes "common S t (l, e2) (l', b1)" "common S t (r, b1) (r', b2)"
  shows "common S t (alloc_oper t l r, e2) (alloc_oper t l' r', b2)"
  by (rule common_sym, rule common_right) (use assms common_sym in blast)+

lemma walk_right_common:
  assumes "symbols_ok S" "\<And>x y. x \<in> {e1, neutral t} \<Longrightarrow> y \<in> leaves t e2 \<Longrightarrow> eq x y \<Longrightarrow> expr_calc_node S x = expr_calc_node S y"
    and "walk_right (eliminate_leaf eq t) t e1 e2 c = (a, b, k)"
  shows "common S t (e1, e2) (a, b)"
  using assms(2,3)
proof (induction e2 arbitrary: e1 c a b k rule: operand_induct [where t = t])
  case (leaf e2)
  have eq: "eq e1 e2 \<Longrightarrow> common S t (e1, e2) (neutral t, neutral t)"
    using leaf(2) [of e1 e2] assms(1) unfolding common_def by (auto simp: leaves_leaf [OF leaf(1)] intro!: exI [of _ "expr_calc_node S e1"])
  show ?case
    using leaf(3) eq common_refl [OF assms(1)] by (auto simp: walk_right_leaf [OF leaf(1)] eliminate_leaf_def split: if_splits)
next
  case (oper l r)
  obtain a1 l' k1 where 1: "walk_right (eliminate_leaf eq t) t e1 l c = (a1, l', k1)"
    by (cases "walk_right (eliminate_leaf eq t) t e1 l c")
  obtain a2 r' k2 where 2: "walk_right (eliminate_leaf eq t) t a1 r k1 = (a2, r', k2)"
    by (cases "walk_right (eliminate_leaf eq t) t a1 r k1")
  have "a1 \<in> {e1, neutral t}"
    using walk_right_cong [OF refl 1] by blast
  then have "common S t (e1, l) (a1, l')" "common S t (a1, r) (a2, r')"
    using oper.IH(1) [OF _ 1] oper.IH(2) [OF _ 2] oper.prems(1) by auto
  then show ?case
    using oper.prems(2) walk_right_oper [OF 1 2] common_right [of S t e1 l a1 l' r a2 r'] by simp
qed

lemma walk_common:
  assumes "symbols_ok S"
    and "\<And>x y. x \<in> insert (neutral t) (leaves t e1) \<Longrightarrow> y \<in> insert (neutral t) (leaves t e2) \<Longrightarrow> eq x y \<Longrightarrow>
      expr_calc_node S x = expr_calc_node S y"
    and "walk (eliminate_leaf eq t) t e1 e2 c = (a, b, k)"
  shows "common S t (e1, e2) (a, b)"
  using assms(2,3)
proof (induction e1 arbitrary: e2 c a b k rule: operand_induct [where t = t])
  case (leaf e1)
  have w: "walk_right (eliminate_leaf eq t) t e1 e2 c = (a, b, k)"
    using leaf by (simp add: walk_leaf)
  show ?case
    by (rule walk_right_common [OF assms(1) _ w]) (use leaf in \<open>auto simp: leaves_leaf\<close>)
next
  case (oper l r)
  obtain l' b1 k1 where 1: "walk (eliminate_leaf eq t) t l e2 c = (l', b1, k1)"
    by (cases "walk (eliminate_leaf eq t) t l e2 c")
  obtain r' b2 k2 where 2: "walk (eliminate_leaf eq t) t r b1 k1 = (r', b2, k2)"
    by (cases "walk (eliminate_leaf eq t) t r b1 k1")
  have "leaves t b1 \<subseteq> insert (neutral t) (leaves t e2)"
    using walk_cong [OF refl 1] by blast
  then have same: "\<And>x y. x \<in> insert (neutral t) (leaves t r) \<Longrightarrow> y \<in> insert (neutral t) (leaves t b1) \<Longrightarrow> eq x y \<Longrightarrow>
      expr_calc_node S x = expr_calc_node S y"
    using oper.prems(1) by (auto dest!: subsetD)
  have "common S t (l, e2) (l', b1)" "common S t (r, b1) (r', b2)"
    using oper.IH(1) [OF _ 1] oper.IH(2) [OF same 2] oper.prems(1) by auto
  then show ?case
    using oper.prems(2) walk_oper [OF 1 2] common_left [of S t l e2 l' b1 r r' b2] by simp
qed

lemma eliminate_eq_common:
  assumes "symbols_ok S"
    and "\<And>x y. x \<in> insert (neutral t) (leaves t e1) \<Longrightarrow> y \<in> insert (neutral t) (leaves t e2) \<Longrightarrow> eq x y \<Longrightarrow>
      expr_calc_node S x = expr_calc_node S y"
  shows "common S t (e1, e2) (eliminate_eq eq t e1 e2)"
  using walk_common [OF assms, where c = 0] by (auto simp: eliminate_eq_def split: prod.splits)

lemma same_symbol_common:
  assumes "symbols_ok S" "common S t (e1, e2) p" "same_symbol p"
  shows "expr_calc_node S e1 = expr_calc_node S e2"
proof -
  obtain a b where p: "p = (a, b)"
    by (cases p)
  have "expr_eliminate_yn a = expr_eliminate_yn b"
    using assms(3) by (auto simp: p same_symbol_def split: expr.splits)
  then have "expr_calc_node S a = expr_calc_node S b"
    using value_yn [OF assms(1)] by metis
  then show ?thesis
    using assms(2) by (auto simp: p common_def)
qed

lemma expr_eq_value:
  assumes "symbols_ok S" "expr_eq_node e1 e2"
  shows "expr_calc_node S e1 = expr_calc_node S e2"
  using assms(2)
proof (induction e1 e2 rule: expr_eq_node.induct)
  case (4 l r l' r')
  have "common S E_AND (And l r, And l' r') (eliminate_eq expr_eq_node E_AND (And l r) (And l' r'))"
    by (rule eliminate_eq_common [OF assms(1)]) (use 4 in auto)
  then show ?case
    by (rule same_symbol_common [OF assms(1)]) (use 4 in simp)
next
  case (5 l r l' r')
  have "common S E_OR (Or l r, Or l' r') (eliminate_eq expr_eq_node E_OR (Or l r) (Or l' r'))"
    by (rule eliminate_eq_common [OF assms(1)]) (use 5 in auto)
  then show ?case
    by (rule same_symbol_common [OF assms(1)]) (use 5 in simp)
qed simp_all

subsection \<open>Joining keeps the value\<close>

text \<open>No symbol equals two different constants. The tool's own constants are such; texts like 1 and 0x1 are
  not.\<close>

definition consts_distinct :: "symbols \<Rightarrow> bool" where
  "consts_distinct S \<longleftrightarrow> (\<forall>a b c. s_type (S a) = S_TRISTATE \<and> s_const (S b) \<and> s_const (S c) \<and> b \<noteq> c \<longrightarrow>
     \<not> (sym_cmp S a b = 0 \<and> sym_cmp S a c = 0))"

definition tri_sym :: "symbols \<Rightarrow> sym \<Rightarrow> bool" where
  "tri_sym S a \<longleftrightarrow> s_type (S a) = S_BOOLEAN \<or> s_type (S a) = S_TRISTATE"

lemma sym_cmp_tri: "tri_sym S a \<Longrightarrow> tri_sym S b \<Longrightarrow> sym_cmp S a b = 0 \<longleftrightarrow> s_tri (S a) = s_tri (S b)"
  by (cases "s_tri (S a)"; cases "s_tri (S b)")
    (auto simp: tri_sym_def sym_cmp_def sym_get_string_value_def expr_parse_string_def sgn3_def)

lemma constants_tri:
  assumes "symbols_ok S"
  shows "tri_sym S symbol_no" "tri_sym S symbol_mod" "tri_sym S symbol_yes"
  using symbols_okD [OF assms] by (simp_all add: tri_sym_def)

lemma comp_right_Some: "comp_right rel e = Some b \<longleftrightarrow> (\<exists>a. e = Comp rel a b)"
  by (cases e) (auto simp: comp_right_def)

lemma is_symbol_iff: "is_symbol e \<longleftrightarrow> (\<exists>a. e = Symbol a)" "is_not_symbol e \<longleftrightarrow> (\<exists>a. e = Not (Symbol a))"
  by (auto simp: is_symbol_def is_not_symbol_def split: expr.splits)

lemma join_sym_Some:
  assumes "join_sym S e1 e2 = Some a"
  shows "tri_sym S a" "e1 = Comp rel x b \<Longrightarrow> x = a" "e2 = Comp rel x b \<Longrightarrow> x = a" "e1 = Symbol x \<Longrightarrow> x = a"
    "e2 = Symbol x \<Longrightarrow> x = a" "e1 = Not (Symbol x) \<Longrightarrow> x = a" "e2 = Not (Symbol x) \<Longrightarrow> x = a"
  using assms
  by (auto simp: join_sym_def join_sym1_def join_sym2_def join_plain_def tri_sym_def split: option.splits if_splits)

lemma comp_value:
  assumes "tri_sym S a" "tri_sym S b"
  shows "expr_calc_node S (Comp E_EQUAL a b) = (if s_tri (S a) = s_tri (S b) then T_yes else T_no)"
    "expr_calc_node S (Comp E_UNEQUAL a b) = (if s_tri (S a) = s_tri (S b) then T_no else T_yes)"
  using sym_cmp_tri [OF assms] by (simp_all add: holds_rel_def)

lemma comp_pairE:
  assumes "comp_pair rel e1 e2 b c" "join_sym S e1 e2 = Some a"
  obtains "e1 = Comp rel a b" "e2 = Comp rel a c" | "e1 = Comp rel a c" "e2 = Comp rel a b"
  using assms join_sym_Some(2,3) [OF assms(2)] unfolding comp_pair_def comp_right_Some by blast

lemma symbol_and_compE:
  assumes "symbol_and_comp rel e1 e2 b" "join_sym S e1 e2 = Some a"
  obtains "e1 = Symbol a" "e2 = Comp rel a b" | "e1 = Comp rel a b" "e2 = Symbol a"
  using assms join_sym_Some(2-5) [OF assms(2)] unfolding symbol_and_comp_def comp_right_Some is_symbol_iff by blast

text \<open>One rule for the pairs: the values of both sides for the three values of the symbol.\<close>

lemma tristate_cases3: "(x = T_no \<Longrightarrow> P) \<Longrightarrow> (x = T_mod \<Longrightarrow> P) \<Longrightarrow> (x = T_yes \<Longrightarrow> P) \<Longrightarrow> P"
  by (cases x) auto

lemma if_SomeE: "(if c then Some x else y) = Some z \<Longrightarrow> (c \<Longrightarrow> z = x \<Longrightarrow> P) \<Longrightarrow> (y = Some z \<Longrightarrow> P) \<Longrightarrow> P"
  by (cases c) simp_all

lemma expr_join_orE:
  assumes "expr_join_or S e1 e2 = Some tmp" "\<not> expr_eq_node e1 e2" "join_sym S e1 e2 = Some a"
  obtains "comp_pair E_EQUAL e1 e2 symbol_yes symbol_mod" "tmp = Comp E_UNEQUAL a symbol_no"
    | "comp_pair E_EQUAL e1 e2 symbol_yes symbol_no" "tmp = Comp E_UNEQUAL a symbol_mod"
    | "comp_pair E_EQUAL e1 e2 symbol_mod symbol_no" "tmp = Comp E_UNEQUAL a symbol_yes"
    | "s_type (S a) = S_BOOLEAN" "is_not_symbol e1 \<and> is_symbol e2 \<or> is_not_symbol e2 \<and> is_symbol e1" "tmp = Symbol symbol_yes"
proof -
  have "(if s_type (S a) = S_TRISTATE \<and> comp_pair E_EQUAL e1 e2 symbol_yes symbol_mod then Some (Comp E_UNEQUAL a symbol_no)
      else if s_type (S a) = S_TRISTATE \<and> comp_pair E_EQUAL e1 e2 symbol_yes symbol_no then Some (Comp E_UNEQUAL a symbol_mod)
      else if s_type (S a) = S_TRISTATE \<and> comp_pair E_EQUAL e1 e2 symbol_mod symbol_no then Some (Comp E_UNEQUAL a symbol_yes)
      else if s_type (S a) = S_BOOLEAN \<and> (is_not_symbol e1 \<and> is_symbol e2 \<or> is_not_symbol e2 \<and> is_symbol e1)
      then Some (Symbol symbol_yes) else None) = Some tmp"
    using assms by (simp add: expr_join_or_def)
  then show ?thesis
    by (elim if_SomeE conjE) (rule that, assumption+ | simp)+
qed

lemma join_or_value:
  assumes "symbols_ok S" "expr_join_or S e1 e2 = Some tmp"
  shows "sup (expr_calc_node S e1) (expr_calc_node S e2) = expr_calc_node S tmp \<and> esize tmp < esize e1 + esize e2"
proof (cases "expr_eq_node e1 e2")
  case True
  then show ?thesis
    using assms(2) expr_eq_value [OF assms(1) True] by (simp add: expr_join_or_def)
next
  case False
  then obtain a where a: "join_sym S e1 e2 = Some a"
    using assms(2) by (cases "join_sym S e1 e2") (simp_all add: expr_join_or_def)
  note tri = constants_tri [OF assms(1)] join_sym_Some(1) [OF a] and vals = symbols_okD [OF assms(1)]
  note comp = comp_value [OF tri(4) tri(1)] comp_value [OF tri(4) tri(2)] comp_value [OF tri(4) tri(3)]
  from assms(2) False a show ?thesis
  proof (cases rule: expr_join_orE)
    case 1
    from 1(1) a show ?thesis
      by (rule comp_pairE) (use 1(2) in \<open>cases "s_tri (S a)"; simp add: comp vals del: expr_calc_node.simps(5)\<close>)+
  next
    case 2
    from 2(1) a show ?thesis
      by (rule comp_pairE) (use 2(2) in \<open>cases "s_tri (S a)"; simp add: comp vals del: expr_calc_node.simps(5)\<close>)+
  next
    case 3
    from 3(1) a show ?thesis
      by (rule comp_pairE) (use 3(2) in \<open>cases "s_tri (S a)"; simp add: comp vals del: expr_calc_node.simps(5)\<close>)+
  next
    case 4
    then have "e1 = Not (Symbol a) \<and> e2 = Symbol a \<or> e1 = Symbol a \<and> e2 = Not (Symbol a)"
      using join_sym_Some(4-7) [OF a] unfolding is_symbol_iff by blast
    moreover have "s_tri (S a) \<noteq> T_mod"
      using 4(1) assms(1) by (simp add: symbols_ok_def)
    ultimately show ?thesis
      using 4(3) by (cases "s_tri (S a)") (auto simp: vals)
  qed
qed

lemma join_constants_Some:
  assumes "join_constants S a e1 e2 = Some tmp" "join_sym S e1 e2 = Some a \<or> join_sym S e2 e1 = Some a"
  obtains b c where "e1 = Comp E_EQUAL a b" "e2 = Comp E_UNEQUAL a c" "s_const (S b)" "s_const (S c)"
    "tmp = (if b \<noteq> c then Comp E_EQUAL a b else Symbol symbol_no)"
proof -
  obtain b c where 1: "comp_right E_EQUAL e1 = Some b" "comp_right E_UNEQUAL e2 = Some c" "s_const (S b)" "s_const (S c)"
      "tmp = (if b \<noteq> c then Comp E_EQUAL a b else Symbol symbol_no)"
    using assms(1) unfolding join_constants_def
    by (cases "comp_right E_EQUAL e1"; cases "comp_right E_UNEQUAL e2") (auto split: if_split_asm)
  then obtain x y where 2: "e1 = Comp E_EQUAL x b" "e2 = Comp E_UNEQUAL y c"
    unfolding comp_right_Some by blast
  then have "x = a" "y = a"
    using assms(2) join_sym_Some(2,3) by blast+
  then show ?thesis
    using that 1(3-5) 2 by blast
qed

lemma join_constants_value:
  assumes "symbols_ok S" "consts_distinct S" "s_type (S a) = S_TRISTATE"
    and "e1 = Comp E_EQUAL a b" "e2 = Comp E_UNEQUAL a c" "s_const (S b)" "s_const (S c)"
    and "tmp = (if b \<noteq> c then Comp E_EQUAL a b else Symbol symbol_no)"
  shows "inf (expr_calc_node S e1) (expr_calc_node S e2) = expr_calc_node S tmp \<and> esize tmp < esize e1 + esize e2"
proof -
  have "\<not> (sym_cmp S a b = 0 \<and> sym_cmp S a c = 0)" if "b \<noteq> c"
    using assms(2,3,6,7) that by (simp add: consts_distinct_def)
  then show ?thesis
    using assms(4,5,8) symbols_okD [OF assms(1)] by (auto simp: holds_rel_def)
qed

lemma expr_join_andE:
  assumes "expr_join_and S e1 e2 = Some tmp" "\<not> expr_eq_node e1 e2" "join_sym S e1 e2 = Some a"
  obtains "symbol_and_comp E_EQUAL e1 e2 symbol_yes" "tmp = Comp E_EQUAL a symbol_yes"
    | "symbol_and_comp E_UNEQUAL e1 e2 symbol_no" "tmp = Symbol a"
    | "symbol_and_comp E_UNEQUAL e1 e2 symbol_mod" "tmp = Comp E_EQUAL a symbol_yes"
    | "s_type (S a) = S_TRISTATE" "join_constants S a e1 e2 = Some tmp"
    | "s_type (S a) = S_TRISTATE" "join_constants S a e2 e1 = Some tmp"
    | "comp_pair E_UNEQUAL e1 e2 symbol_yes symbol_no" "tmp = Comp E_EQUAL a symbol_mod"
    | "comp_pair E_UNEQUAL e1 e2 symbol_yes symbol_mod" "tmp = Comp E_EQUAL a symbol_no"
    | "comp_pair E_UNEQUAL e1 e2 symbol_mod symbol_no" "tmp = Comp E_EQUAL a symbol_yes"
proof -
  have 1: "(if symbol_and_comp E_EQUAL e1 e2 symbol_yes then Some (Comp E_EQUAL a symbol_yes)
      else if symbol_and_comp E_UNEQUAL e1 e2 symbol_no then Some (Symbol a)
      else if symbol_and_comp E_UNEQUAL e1 e2 symbol_mod then Some (Comp E_EQUAL a symbol_yes)
      else if s_type (S a) = S_TRISTATE then
        (if join_constants S a e1 e2 \<noteq> None then join_constants S a e1 e2
         else if join_constants S a e2 e1 \<noteq> None then join_constants S a e2 e1
         else if comp_pair E_UNEQUAL e1 e2 symbol_yes symbol_no then Some (Comp E_EQUAL a symbol_mod)
         else if comp_pair E_UNEQUAL e1 e2 symbol_yes symbol_mod then Some (Comp E_EQUAL a symbol_no)
         else if comp_pair E_UNEQUAL e1 e2 symbol_mod symbol_no then Some (Comp E_EQUAL a symbol_yes)
         else None)
      else None) = Some tmp"
    using assms unfolding expr_join_and_def by simp
  consider (a) "symbol_and_comp E_EQUAL e1 e2 symbol_yes"
    | (b) "\<not> symbol_and_comp E_EQUAL e1 e2 symbol_yes" "symbol_and_comp E_UNEQUAL e1 e2 symbol_no"
    | (c) "\<not> symbol_and_comp E_EQUAL e1 e2 symbol_yes" "\<not> symbol_and_comp E_UNEQUAL e1 e2 symbol_no"
        "symbol_and_comp E_UNEQUAL e1 e2 symbol_mod"
    | (d) "\<not> symbol_and_comp E_EQUAL e1 e2 symbol_yes" "\<not> symbol_and_comp E_UNEQUAL e1 e2 symbol_no"
        "\<not> symbol_and_comp E_UNEQUAL e1 e2 symbol_mod"
    by blast
  then show ?thesis
  proof cases
    case a
    with 1 show ?thesis
      by (intro that(1)) simp_all
  next
    case b
    with 1 show ?thesis
      by (intro that(2)) simp_all
  next
    case c
    with 1 show ?thesis
      by (intro that(3)) simp_all
  next
    case d
    have tri: "s_type (S a) = S_TRISTATE"
      using 1 d by (simp split: if_split_asm)
    consider (e) "join_constants S a e1 e2 \<noteq> None" | (f) "join_constants S a e1 e2 = None" "join_constants S a e2 e1 \<noteq> None"
      | (g) "join_constants S a e1 e2 = None" "join_constants S a e2 e1 = None"
      by blast
    then show ?thesis
    proof cases
      case e
      with 1 d tri show ?thesis
        by (intro that(4)) simp_all
    next
      case f
      with 1 d tri show ?thesis
        by (intro that(5)) simp_all
    next
      case g
      have "(if comp_pair E_UNEQUAL e1 e2 symbol_yes symbol_no then Some (Comp E_EQUAL a symbol_mod)
         else if comp_pair E_UNEQUAL e1 e2 symbol_yes symbol_mod then Some (Comp E_EQUAL a symbol_no)
         else if comp_pair E_UNEQUAL e1 e2 symbol_mod symbol_no then Some (Comp E_EQUAL a symbol_yes)
         else None) = Some tmp"
        using 1 d tri g by simp
      then show ?thesis
        by (elim if_SomeE) (rule that, assumption+ | simp)+
    qed
  qed
qed

lemma join_and_value:
  assumes "symbols_ok S" "consts_distinct S" "expr_join_and S e1 e2 = Some tmp"
  shows "inf (expr_calc_node S e1) (expr_calc_node S e2) = expr_calc_node S tmp \<and> esize tmp < esize e1 + esize e2"
proof (cases "expr_eq_node e1 e2")
  case True
  then show ?thesis
    using assms(3) expr_eq_value [OF assms(1) True] by (simp add: expr_join_and_def)
next
  case False
  then obtain a where a: "join_sym S e1 e2 = Some a"
    using assms(3) by (cases "join_sym S e1 e2") (simp_all add: expr_join_and_def)
  note tri = constants_tri [OF assms(1)] join_sym_Some(1) [OF a] and vals = symbols_okD [OF assms(1)]
  note comp = comp_value [OF tri(4) tri(1)] comp_value [OF tri(4) tri(2)] comp_value [OF tri(4) tri(3)]
  from assms(3) False a show ?thesis
  proof (cases rule: expr_join_andE)
    case 1
    from 1(1) a show ?thesis
      by (rule symbol_and_compE) (use 1(2) in \<open>cases "s_tri (S a)"; simp add: comp vals del: expr_calc_node.simps(5)\<close>)+
  next
    case 2
    from 2(1) a show ?thesis
      by (rule symbol_and_compE) (use 2(2) in \<open>cases "s_tri (S a)"; simp add: comp vals del: expr_calc_node.simps(5)\<close>)+
  next
    case 3
    from 3(1) a show ?thesis
      by (rule symbol_and_compE) (use 3(2) in \<open>cases "s_tri (S a)"; simp add: comp vals del: expr_calc_node.simps(5)\<close>)+
  next
    case 4
    from 4(2) a show ?thesis
      by (rule join_constants_Some [OF _ disjI1]) (rule join_constants_value [OF assms(1,2) 4(1)])
  next
    case 5
    from 5(2) a show ?thesis
      unfolding inf_commute [of "expr_calc_node S e1"] add.commute [of "esize e1"]
      by (rule join_constants_Some [OF _ disjI2]) (rule join_constants_value [OF assms(1,2) 5(1)])
  next
    case 6
    from 6(1) a show ?thesis
      by (rule comp_pairE) (use 6(2) in \<open>cases "s_tri (S a)"; simp add: comp vals del: expr_calc_node.simps(5)\<close>)+
  next
    case 7
    from 7(1) a show ?thesis
      by (rule comp_pairE) (use 7(2) in \<open>cases "s_tri (S a)"; simp add: comp vals del: expr_calc_node.simps(5)\<close>)+
  next
    case 8
    from 8(1) a show ?thesis
      by (rule comp_pairE) (use 8(2) in \<open>cases "s_tri (S a)"; simp add: comp vals del: expr_calc_node.simps(5)\<close>)+
  qed
qed

lemma join_value:
  assumes "symbols_ok S" "consts_distinct S" "join S t e1 e2 = Some tmp"
  shows "oper_value t (expr_calc_node S e1) (expr_calc_node S e2) = expr_calc_node S tmp" "esize tmp < esize e1 + esize e2"
  using join_or_value [OF assms(1)] join_and_value [OF assms(1,2)] assms(3) by (cases t; simp add: join_def)+

subsection \<open>The loop ends\<close>

text \<open>What a walk with \<^verbatim>\<open>dups_leaf\<close> does: the value of the two sides together and their size, and the count
  is left alone exactly when nothing changes; otherwise a neutral constant is among the operands of the
  first side.\<close>

definition walked :: "symbols \<Rightarrow> oper \<Rightarrow> expr \<times> expr \<times> nat \<Rightarrow> expr \<times> expr \<times> nat \<Rightarrow> bool" where
  "walked S t = (\<lambda>(e1, e2, c) (e1', e2', c').
     oper_value t (expr_calc_node S e1) (expr_calc_node S e2) = oper_value t (expr_calc_node S e1') (expr_calc_node S e2') \<and>
     esize e1' + esize e2' \<le> esize e1 + esize e2 \<and> c \<le> c' \<and> (c' = c \<longrightarrow> e1' = e1 \<and> e2' = e2))"

lemma dups_leaf_walked:
  assumes "symbols_ok S" "consts_distinct S" "dups_leaf S t e1 e2 c = (a, b, k)"
  shows "walked S t (e1, e2, c) (a, b, k) \<and> a \<in> {e1, neutral t} \<and> (c < k \<longrightarrow> a = neutral t)"
proof (cases "join S t e1 e2")
  case None
  then show ?thesis
    using assms(3) by (simp add: dups_leaf_def walked_def)
next
  case (Some tmp)
  have "a = neutral t" "b = tmp" "k = c + 1"
    using assms(3) Some by (simp_all add: dups_leaf_def)
  then show ?thesis
    using join_value [OF assms(1,2) Some] assms(1) by (simp add: walked_def)
qed

lemma oper_value_swap:
  assumes "oper_value t a l = oper_value t a1 l'" "oper_value t a1 r = oper_value t a2 r'"
  shows "oper_value t a (oper_value t l r) = oper_value t a2 (oper_value t l' r')"
proof -
  have "oper_value t a (oper_value t l r) = oper_value t (oper_value t a1 l') r"
    unfolding assms(1) [symmetric] oper_value_ac(1) ..
  also have "\<dots> = oper_value t l' (oper_value t a1 r)"
    unfolding oper_value_ac(2) [of t a1 l'] oper_value_ac(1) ..
  also have "\<dots> = oper_value t a2 (oper_value t l' r')"
    unfolding assms(2) by (rule oper_value_ac(3))
  finally show ?thesis .
qed

lemma walked_right:
  assumes "walked S t (e1, l, c) (a1, l', k1)" "walked S t (a1, r, k1) (a2, r', k2)"
  shows "walked S t (e1, alloc_oper t l r, c) (a2, alloc_oper t l' r', k2)"
proof -
  have "oper_value t (expr_calc_node S e1) (oper_value t (expr_calc_node S l) (expr_calc_node S r)) =
      oper_value t (expr_calc_node S a2) (oper_value t (expr_calc_node S l') (expr_calc_node S r'))"
    using assms by (intro oper_value_swap [of t _ _ "expr_calc_node S a1"]) (simp_all add: walked_def)
  moreover have "esize a2 + esize (alloc_oper t l' r') \<le> esize e1 + esize (alloc_oper t l r)" "c \<le> k2"
    using assms by (simp_all add: walked_def)
  moreover have "a2 = e1 \<and> l' = l \<and> r' = r" if "k2 = c"
  proof -
    have "k1 = c"
      using assms that by (simp add: walked_def)
    then show ?thesis
      using assms that by (simp add: walked_def)
  qed
  ultimately show ?thesis
    by (simp add: walked_def)
qed

lemma walked_sym: "walked S t (a, b, c) (a', b', c') \<Longrightarrow> walked S t (b, a, c) (b', a', c')"
  unfolding walked_def prod.case oper_value_ac(2) [of t "expr_calc_node S b"] oper_value_ac(2) [of t "expr_calc_node S b'"]
  by (simp add: add.commute)

lemma walked_left:
  assumes "walked S t (l, e2, c) (l', b1, k1)" "walked S t (r, b1, k1) (r', b2, k2)"
  shows "walked S t (alloc_oper t l r, e2, c) (alloc_oper t l' r', b2, k2)"
proof -
  have "walked S t (e2, alloc_oper t l r, c) (b2, alloc_oper t l' r', k2)"
    by (rule walked_right [of S t e2 l c b1 l' k1]) (use assms walked_sym in blast)+
  then show ?thesis
    by (rule walked_sym)
qed

lemma walk_right_walked:
  assumes "symbols_ok S" "consts_distinct S" "walk_right (dups_leaf S t) t e1 e2 c = (a, b, k)"
  shows "walked S t (e1, e2, c) (a, b, k) \<and> a \<in> {e1, neutral t} \<and> (c < k \<longrightarrow> a = neutral t)"
  using assms(3)
proof (induction e2 arbitrary: e1 c a b k rule: operand_induct [where t = t])
  case (leaf e2)
  then show ?case
    using dups_leaf_walked [OF assms(1,2)] by (simp add: walk_right_leaf)
next
  case (oper l r)
  obtain a1 l' k1 where 1: "walk_right (dups_leaf S t) t e1 l c = (a1, l', k1)"
    by (cases "walk_right (dups_leaf S t) t e1 l c")
  obtain a2 r' k2 where 2: "walk_right (dups_leaf S t) t a1 r k1 = (a2, r', k2)"
    by (cases "walk_right (dups_leaf S t) t a1 r k1")
  have w: "walked S t (e1, l, c) (a1, l', k1)" "walked S t (a1, r, k1) (a2, r', k2)"
    using oper.IH(1) [OF 1] oper.IH(2) [OF 2] by auto
  have "k1 < k2 \<or> c < k1" if "c < k2"
    using that by linarith
  then have "a2 \<in> {e1, neutral t} \<and> (c < k2 \<longrightarrow> a2 = neutral t)"
    using oper.IH(1) [OF 1] oper.IH(2) [OF 2] by auto
  then show ?case
    using oper.prems walk_right_oper [OF 1 2] walked_right [OF w] by simp
qed

lemma walk_walked:
  assumes "symbols_ok S" "consts_distinct S" "walk (dups_leaf S t) t e1 e2 c = (a, b, k)"
  shows "walked S t (e1, e2, c) (a, b, k) \<and> (c < k \<longrightarrow> neutral t \<in> leaves t a)"
  using assms(3)
proof (induction e1 arbitrary: e2 c a b k rule: operand_induct [where t = t])
  case (leaf e1)
  then have "walk_right (dups_leaf S t) t e1 e2 c = (a, b, k)"
    by (simp add: walk_leaf)
  then show ?case
    using walk_right_walked [OF assms(1,2)] by fastforce
next
  case (oper l r)
  obtain l' b1 k1 where 1: "walk (dups_leaf S t) t l e2 c = (l', b1, k1)"
    by (cases "walk (dups_leaf S t) t l e2 c")
  obtain r' b2 k2 where 2: "walk (dups_leaf S t) t r b1 k1 = (r', b2, k2)"
    by (cases "walk (dups_leaf S t) t r b1 k1")
  have w: "walked S t (l, e2, c) (l', b1, k1)" "walked S t (r, b1, k1) (r', b2, k2)"
    using oper.IH(1) [OF 1] oper.IH(2) [OF 2] by auto
  have "k1 < k2 \<or> c < k1" if "c < k2"
    using that by linarith
  then have "c < k2 \<longrightarrow> neutral t \<in> leaves t l' \<union> leaves t r'"
    using oper.IH(1) [OF 1] oper.IH(2) [OF 2] by auto
  then show ?case
    using oper.prems walk_oper [OF 1 2] walked_left [OF w] by auto
qed

text \<open>An expression without constants as operands of && and ||.\<close>

definition yn :: "expr \<Rightarrow> bool" where
  "yn e \<longleftrightarrow> e = Symbol symbol_yes \<or> e = Symbol symbol_no"

primrec clean :: "expr \<Rightarrow> bool" where
  "clean (Or l r) \<longleftrightarrow> clean l \<and> clean r \<and> \<not> yn l \<and> \<not> yn r"
| "clean (And l r) \<longleftrightarrow> clean l \<and> clean r \<and> \<not> yn l \<and> \<not> yn r"
| "clean (Not e) \<longleftrightarrow> True"
| "clean (Comp rel a b) \<longleftrightarrow> True"
| "clean (Symbol a) \<longleftrightarrow> True"
| "clean (Range a b) \<longleftrightarrow> True"

lemma clean_oper [simp]: "clean (alloc_oper t l r) \<longleftrightarrow> clean l \<and> clean r \<and> \<not> yn l \<and> \<not> yn r"
  by (cases t) simp_all

lemma yn_neutral [simp]: "yn (neutral t)"
  by (cases t) (simp_all add: yn_def)

lemma yn_props: "yn e \<Longrightarrow> clean e" "\<not> yn (alloc_oper t l r)" "yn e \<Longrightarrow> esize e = 1"
  by (cases t; auto simp: yn_def)+

lemma neutral_leaf: "neutral t \<in> leaves t e \<Longrightarrow> yn e \<or> \<not> clean e"
proof (induction e rule: operand_induct [where t = t])
  case (leaf e)
  then show ?case
    by (auto simp: leaves_leaf)
qed auto

lemma yn_size: "esize (expr_eliminate_yn e) \<le> esize e"
  by (induction e) (auto simp: Let_def)

lemma yn_clean: "clean e \<Longrightarrow> expr_eliminate_yn e = e"
  by (induction e) (auto simp: Let_def yn_def)

text \<open>At the top: the same node, or one that is smaller.\<close>

lemma yn_top:
  "expr_eliminate_yn (alloc_oper t l r) = alloc_oper t l r \<and> \<not> yn l \<and> \<not> yn r \<or>
   esize (expr_eliminate_yn (alloc_oper t l r)) < esize (alloc_oper t l r)"
proof -
  have "yn l \<Longrightarrow> expr_eliminate_yn l = l" "yn r \<Longrightarrow> expr_eliminate_yn r = r"
    by (auto simp: yn_def)
  then show ?thesis
    using yn_size [of l] yn_size [of r] by (cases t) (auto simp: Let_def yn_def)
qed

definition simplified :: "symbols \<Rightarrow> expr \<Rightarrow> expr \<Rightarrow> bool" where
  "simplified S e e' \<longleftrightarrow> expr_calc_node S e' = expr_calc_node S e \<and> clean e' \<and> esize e' \<le> esize e \<and>
     (clean e \<or> esize e' < esize e) \<and> (yn e \<longrightarrow> e' = e)"

lemma dups_round:
  assumes "symbols_ok S" "consts_distinct S" "simplified S l0 l" "simplified S r0 r"
    and "expr_eliminate_dups1 S t l r = (l1, r1, k)" "e' = expr_eliminate_yn (alloc_oper t l1 r1)"
  shows "expr_calc_node S e' = expr_calc_node S (alloc_oper t l0 r0)" "esize e' \<le> Suc (esize l + esize r)"
    "k = 0 \<Longrightarrow> simplified S (alloc_oper t l0 r0) e'"
    "k \<noteq> 0 \<Longrightarrow> esize e' < Suc (esize l + esize r) \<or> (\<exists>l1 r1. e' = alloc_oper t l1 r1 \<and> (\<not> clean l1 \<or> \<not> clean r1))"
proof -
  have w: "walked S t (l, r, 0) (l1, r1, k)" "0 < k \<Longrightarrow> neutral t \<in> leaves t l1"
    using walk_walked [OF assms(1,2), of t l r 0 l1 r1 k] assms(5) by (auto simp: expr_eliminate_dups1_def)
  have size: "esize (alloc_oper t l1 r1) \<le> Suc (esize l + esize r)"
    using w(1) by (simp add: walked_def)
  then show e': "esize e' \<le> Suc (esize l + esize r)"
    using yn_size [of "alloc_oper t l1 r1"] assms(6) by simp
  have "oper_value t (expr_calc_node S l0) (expr_calc_node S r0) = oper_value t (expr_calc_node S l1) (expr_calc_node S r1)"
    using w(1) assms(3,4) by (simp add: walked_def simplified_def)
  then show val: "expr_calc_node S e' = expr_calc_node S (alloc_oper t l0 r0)"
    using value_yn [OF assms(1), of "alloc_oper t l1 r1"] assms(6) by simp
  show "simplified S (alloc_oper t l0 r0) e'" if "k = 0"
  proof -
    have same: "l1 = l" "r1 = r"
      using w(1) that by (simp_all add: walked_def)
    have lr: "clean l" "clean r" "esize l \<le> esize l0" "esize r \<le> esize r0" "clean l0 \<or> esize l < esize l0" "clean r0 \<or> esize r < esize r0"
      using assms(3,4) by (simp_all add: simplified_def)
    have "clean e'"
      using lr(1,2) unfolding assms(6) same by (cases t) (auto simp: Let_def yn_clean yn_def)
    moreover have "clean (alloc_oper t l0 r0) \<or> esize e' < esize (alloc_oper t l0 r0)"
    proof (cases "yn l0 \<or> yn r0")
      case False
      then show ?thesis
        using lr(3-6) e' by auto
    next
      case True
      then have "yn l \<or> yn r"
        using assms(3,4) by (auto simp: simplified_def)
      then have "esize e' < esize (alloc_oper t l r)"
        using yn_top [of t l r] unfolding assms(6) same by blast
      then show ?thesis
        using lr(3,4) by simp
    qed
    ultimately show ?thesis
      using val lr(3,4) e' by (simp add: simplified_def yn_props(2))
  qed
  show "esize e' < Suc (esize l + esize r) \<or> (\<exists>l1 r1. e' = alloc_oper t l1 r1 \<and> (\<not> clean l1 \<or> \<not> clean r1))" if "k \<noteq> 0"
    using yn_top [of t l1 r1] neutral_leaf [OF w(2)] that size assms(6) by auto
qed

lemma oper_of_Some: "oper_of e = Some t \<longleftrightarrow> (\<exists>l r. e = alloc_oper t l r)"
  by (cases t; cases e) (auto simp: oper_of_def)

lemma eliminate_dups_oper:
  assumes "eliminate_dups S l0 = Some l" "eliminate_dups S r0 = Some r" "expr_eliminate_dups1 S t l r = (l1, r1, k)"
    and "e' = expr_eliminate_yn (alloc_oper t l1 r1)"
  shows "eliminate_dups S (alloc_oper t l0 r0) = (if k \<noteq> 0 then eliminate_dups S e' else Some e')"
proof -
  have "oper_of (alloc_oper t l0 r0) = Some t"
    by (auto simp: oper_of_Some)
  then show ?thesis
    using assms by (subst eliminate_dups.simps) simp
qed

lemma eliminate_dups_leaf:
  assumes "oper_of e = None"
  shows "eliminate_dups S e = Some e" "clean e"
proof -
  show "clean e"
    using assms by (cases e) (simp_all add: oper_of_def)
  show "eliminate_dups S e = Some e"
    using assms by (subst eliminate_dups.simps, cases e) (simp_all add: oper_of_def)
qed

lemma simplified_trans: "expr_calc_node S e' = expr_calc_node S e \<Longrightarrow> esize e' < esize e \<Longrightarrow> \<not> yn e \<Longrightarrow> simplified S e' e'' \<Longrightarrow> simplified S e e''"
  by (auto simp: simplified_def)

lemma eliminate_dups_total:
  assumes "symbols_ok S" "consts_distinct S"
  shows "\<exists>e'. eliminate_dups S e = Some e' \<and> simplified S e e'"
proof (induction "esize e" arbitrary: e rule: less_induct)
  case less
  show ?case
  proof (cases "oper_of e")
    case None
    then show ?thesis
      using eliminate_dups_leaf [OF None] by (simp add: simplified_def)
  next
    case (Some t)
    then obtain l0 r0 where e: "e = alloc_oper t l0 r0"
      by (auto simp: oper_of_Some)
    then obtain l r where lr: "eliminate_dups S l0 = Some l" "simplified S l0 l" "eliminate_dups S r0 = Some r" "simplified S r0 r"
      using less [of l0] less [of r0] by auto
    obtain l1 r1 k where w: "expr_eliminate_dups1 S t l r = (l1, r1, k)"
      by (cases "expr_eliminate_dups1 S t l r")
    define e1 where "e1 = expr_eliminate_yn (alloc_oper t l1 r1)"
    note step = eliminate_dups_oper [OF lr(1,3) w e1_def] and round = dups_round [OF assms lr(2,4) w e1_def]
    have lr_size: "Suc (esize l + esize r) \<le> esize e"
      using lr(2,4) by (simp add: e simplified_def)
    have smaller: "\<exists>e''. eliminate_dups S e' = Some e'' \<and> simplified S e e''"
      if "esize e' < esize e" "expr_calc_node S e' = expr_calc_node S e" for e'
      using less [OF that(1)] simplified_trans [OF that(2,1)] by (auto simp: e yn_props(2))
    consider "k = 0" | "k \<noteq> 0" "esize e1 < esize e" | "k \<noteq> 0" "\<not> esize e1 < esize e"
      by blast
    then show ?thesis
    proof cases
      case 1
      then show ?thesis
        using step round(3) by (simp add: e)
    next
      case 2
      then show ?thesis
        using step smaller [of e1] round(1) by (simp add: e)
    next
      case 3
      then obtain x y where e1: "e1 = alloc_oper t x y" "\<not> clean x \<or> \<not> clean y"
        using round(4) lr_size by auto
      have e1_size: "esize e1 \<le> esize e"
        using round(2) lr_size by simp
      then obtain l2 r2 where lr2: "eliminate_dups S x = Some l2" "simplified S x l2" "eliminate_dups S y = Some r2" "simplified S y r2"
        using less [of x] less [of y] by (auto simp: e1(1))
      obtain l3 r3 k2 where w2: "expr_eliminate_dups1 S t l2 r2 = (l3, r3, k2)"
        by (cases "expr_eliminate_dups1 S t l2 r2")
      define e2 where "e2 = expr_eliminate_yn (alloc_oper t l3 r3)"
      note step2 = eliminate_dups_oper [OF lr2(1,3) w2 e2_def] and round2 = dups_round [OF assms lr2(2,4) w2 e2_def]
      have "Suc (esize l2 + esize r2) < esize e1"
        using lr2(2,4) e1(2) by (auto simp: e1(1) simplified_def)
      then have "esize e2 < esize e"
        using round2(2) e1_size by simp
      moreover have val: "expr_calc_node S e2 = expr_calc_node S e"
        using round(1) round2(1) by (simp add: e e1(1))
      moreover have "eliminate_dups S e = (if k2 \<noteq> 0 then eliminate_dups S e2 else Some e2)"
        using step step2 3(1) by (simp add: e e1(1))
      moreover have "simplified S e e2" if "k2 = 0"
        using round2(3) [OF that] calculation(1) val by (auto simp: simplified_def e yn_props(2))
      ultimately show ?thesis
        using smaller [of e2] by auto
    qed
  qed
qed

subsection \<open>Results\<close>

text \<open>A table with the three constants as its only constants is one of distinct constants.\<close>

lemma only_three_constants:
  assumes "symbols_ok S" "\<And>b. s_const (S b) \<Longrightarrow> b \<in> {symbol_no, symbol_mod, symbol_yes}"
  shows "consts_distinct S"
proof -
  have "\<not> (sym_cmp S a b = 0 \<and> sym_cmp S a c = 0)"
    if "s_type (S a) = S_TRISTATE" "s_const (S b)" "s_const (S c)" "b \<noteq> c" for a b c
  proof -
    have "tri_sym S a"
      using that(1) by (simp add: tri_sym_def)
    moreover have "tri_sym S b" "tri_sym S c"
      using assms(2) [OF that(2)] assms(2) [OF that(3)] constants_tri [OF assms(1)] by auto
    moreover have "s_tri (S b) \<noteq> s_tri (S c)"
      using assms(2) [OF that(2)] assms(2) [OF that(3)] that(4) symbols_okD(1-3) [OF assms(1)] by auto
    ultimately show ?thesis
      by (simp add: sym_cmp_tri)
  qed
  then show ?thesis
    by (auto simp: consts_distinct_def)
qed

text \<open>A small configuration for the examples: two tristate options with the values m and n, two bool ones.\<close>

definition sample_symbols :: symbols where
  "sample_symbols = symbol_constants
     (5 := \<lparr> s_name = Some ''WOL'', s_type = S_TRISTATE, s_const = False, s_tri = T_mod, s_val = [] \<rparr>,
      6 := \<lparr> s_name = Some ''DEBUG'', s_type = S_BOOLEAN, s_const = False, s_tri = T_yes, s_val = [] \<rparr>,
      7 := \<lparr> s_name = Some ''RADAR'', s_type = S_TRISTATE, s_const = False, s_tri = T_no, s_val = [] \<rparr>,
      8 := \<lparr> s_name = Some ''EXPERIMENTAL'', s_type = S_BOOLEAN, s_const = False, s_tri = T_no, s_val = [] \<rparr>)"

lemma sample_symbols_ok: "symbols_ok sample_symbols"
  by (auto simp: symbols_ok_def sample_symbols_def symbol_constants_def)

lemma sample_consts_distinct: "consts_distinct sample_symbols"
  by (rule only_three_constants [OF sample_symbols_ok])
    (auto simp: sample_symbols_def symbol_constants_def split: if_splits)

text \<open>Two expressions that \<^verbatim>\<open>expr_eq\<close> takes for equal have the same value, whatever the values of the
  symbols.\<close>

theorem expr_eq_same_value:
  assumes "symbols_ok S" "expr_eq e1 e2"
  shows "expr_calc_value S e1 = expr_calc_value S e2"
  using assms(2) expr_eq_value [OF assms(1)] symbols_okD(3) [OF assms(1)]
  by (auto simp: expr_eq_def expr_calc_value_def expr_is_yes_def split: option.splits)

text \<open>The operands of && and || may come in another order and with other parentheses.\<close>

lemma expr_eq_sample:
  "expr_eq (Some (And (Symbol 5) (And (Or (Symbol 6) (Symbol 7)) (Symbol 8))))
     (Some (And (And (Symbol 8) (Symbol 5)) (Or (Symbol 7) (Symbol 6))))"
  by code_simp

theorem expr_eq_same_value_witness:
  "expr_calc_value sample_symbols (Some (And (Symbol 5) (And (Or (Symbol 6) (Symbol 7)) (Symbol 8)))) =
   expr_calc_value sample_symbols (Some (And (And (Symbol 8) (Symbol 5)) (Or (Symbol 7) (Symbol 6))))"
  by (rule expr_eq_same_value [OF sample_symbols_ok expr_eq_sample])

text \<open>\<^verbatim>\<open>expr_eliminate_eq\<close> on expressions of one type takes the same operands out of both: with their value put
  back, the values are the old ones.\<close>

lemma walk_right_shape:
  "walk_right (eliminate_leaf eq t) t e1 e2 c = (a, b, k) \<Longrightarrow> operands t e2 = None \<and> b \<in> {e2, neutral t} \<or>
     operands t e2 \<noteq> None \<and> (\<exists>l r. b = alloc_oper t l r)"
proof (cases "operands t e2")
  case (Some lr)
  assume "walk_right (eliminate_leaf eq t) t e1 e2 c = (a, b, k)"
  then show ?thesis
    using Some by (subst (asm) walk_right.simps) (auto split: prod.splits)
qed (auto simp: walk_right_leaf eliminate_leaf_def split: if_splits)

lemma eliminate_eq_shape:
  assumes "eliminate_eq eq t (alloc_oper t l r) e2 = (a, b)"
  shows "oper_of a = Some t" "oper_of e2 = None \<Longrightarrow> oper_of b = None" "oper_of e2 = Some t \<Longrightarrow> oper_of b = Some t"
proof -
  obtain k where w: "walk (eliminate_leaf eq t) t (alloc_oper t l r) e2 0 = (a, b, k)"
    using assms by (auto simp: eliminate_eq_def split: prod.splits)
  then show "oper_of a = Some t"
    by (subst (asm) walk.simps) (auto simp: oper_of_Some split: prod.splits)
  have none: "oper_of e = None \<Longrightarrow> operands t e = None" and yn: "oper_of (neutral t) = None" for e
    by (cases t; cases e; simp add: oper_of_def)+
  have "walk (eliminate_leaf eq t) t e1 e2 c = (a, b, k) \<Longrightarrow>
      (oper_of e2 = None \<longrightarrow> oper_of b = None) \<and> (oper_of e2 = Some t \<longrightarrow> oper_of b = Some t)" for e1 e2 a b c k
  proof (induction e1 arbitrary: e2 a b c k rule: operand_induct [where t = t])
    case (leaf e1)
    then have "walk_right (eliminate_leaf eq t) t e1 e2 c = (a, b, k)"
      by (simp add: walk_leaf)
    from walk_right_shape [OF this] show ?case
    proof (elim disjE conjE exE)
      assume "operands t e2 = None" "b \<in> {e2, neutral t}"
      then show ?thesis
        using yn by (auto simp: oper_of_Some)
    next
      fix l r
      assume "operands t e2 \<noteq> None" "b = alloc_oper t l r"
      then show ?thesis
        using none by (auto simp: oper_of_Some)
    qed
  next
    case (oper l r)
    obtain l' b1 k1 where 1: "walk (eliminate_leaf eq t) t l e2 c = (l', b1, k1)"
      by (cases "walk (eliminate_leaf eq t) t l e2 c")
    obtain r' b2 k2 where 2: "walk (eliminate_leaf eq t) t r b1 k1 = (r', b2, k2)"
      by (cases "walk (eliminate_leaf eq t) t r b1 k1")
    show ?case
      using oper.IH(1) [OF 1] oper.IH(2) [OF 2] oper.prems walk_oper [OF 1 2] by auto
  qed
  from this [OF w] show "oper_of e2 = None \<Longrightarrow> oper_of b = None" "oper_of e2 = Some t \<Longrightarrow> oper_of b = Some t"
    by blast+
qed

lemma oper_kind: "oper_of a = Some t \<Longrightarrow> oper_of b = Some t \<Longrightarrow> expr_kind a = expr_kind b"
  by (cases t) (auto simp: oper_of_Some)

lemma expr_eliminate_eq_common:
  assumes "symbols_ok S" "oper_of e1 = Some t" "oper_of e2 = None \<or> oper_of e2 = Some t"
    and "expr_eliminate_eq (Some e1) (Some e2) = (Some a, Some b)"
  shows "common S t (e1, e2) (a, b)"
proof -
  obtain l r where e1: "e1 = alloc_oper t l r"
    using assms(2) by (auto simp: oper_of_Some)
  obtain a' b' where w: "eliminate_eq expr_eq_node t e1 e2 = (a', b')"
    by (cases "eliminate_eq expr_eq_node t e1 e2")
  note shape = eliminate_eq_shape [OF w [unfolded e1]]
  have "expr_kind a' = expr_kind b' \<or> oper_of b' = None"
    using assms(3)
  proof
    assume "oper_of e2 = Some t"
    then show ?thesis
      using oper_kind [OF shape(1) shape(3)] by blast
  qed (simp add: shape(2))
  then have "a = expr_eliminate_yn a'" "b = expr_eliminate_yn b'"
    using assms(2,4) w by (auto simp: expr_eliminate_eq_def split: if_splits)
  moreover have "common S t (e1, e2) (a', b')"
    unfolding w [symmetric] by (rule eliminate_eq_common [OF assms(1) expr_eq_value [OF assms(1)]])
  ultimately show ?thesis
    by (simp add: common_def value_yn [OF assms(1)])
qed

text \<open>C34. When no two constants are equal to one and the same tristate symbol (\<^verbatim>\<open>consts_distinct\<close>, which holds if y, m
  and n are the only constants), \<^verbatim>\<open>expr_eliminate_dups\<close> ends on every expression; the result has the same value, is
  not larger, and no operand of an && or || in it, outside of negations, is the constant y or n. Without that hypothesis the value may be
  lost (\<^verbatim>\<open>join_and_constants\<close> below).\<close>

theorem expr_eliminate_dups_keeps_value:
  assumes "symbols_ok S" "consts_distinct S"
  shows "\<exists>e'. expr_eliminate_dups S (Some e) = Some (Some e') \<and> expr_calc_value S (Some e') = expr_calc_value S (Some e) \<and>
    clean e' \<and> esize e' \<le> esize e"
  using eliminate_dups_total [OF assms, of e] by (auto simp: expr_eliminate_dups_def expr_calc_value_def simplified_def)

theorem expr_eliminate_dups_keeps_value_witness:
  "\<exists>e'. expr_eliminate_dups sample_symbols (Some (Or (Comp E_EQUAL 5 symbol_yes) (Or (Symbol 8) (Comp E_EQUAL 5 symbol_mod)))) = Some (Some e') \<and>
    expr_calc_value sample_symbols (Some e') =
      expr_calc_value sample_symbols (Some (Or (Comp E_EQUAL 5 symbol_yes) (Or (Symbol 8) (Comp E_EQUAL 5 symbol_mod)))) \<and>
    clean e' \<and> esize e' \<le> esize (Or (Comp E_EQUAL 5 symbol_yes) (Or (Symbol 8) (Comp E_EQUAL 5 symbol_mod)))"
  by (rule expr_eliminate_dups_keeps_value [OF sample_symbols_ok sample_consts_distinct])

text \<open>The result there: the two tests of the first option become one.\<close>

lemma expr_eliminate_dups_sample:
  "expr_eliminate_dups sample_symbols (Some (Or (Comp E_EQUAL 5 symbol_yes) (Or (Symbol 8) (Comp E_EQUAL 5 symbol_mod)))) =
   Some (Some (Or (Symbol 8) (Comp E_UNEQUAL 5 symbol_no)))"
  by code_simp

text \<open>The second hypothesis is needed: with two constants of the same value the comparison with one of them goes
  missing.\<close>

lemma join_and_constants:
  assumes "s_type (S 5) = S_TRISTATE" "s_const (S 9)" "s_const (S 10)"
  shows "expr_join_and S (Comp E_EQUAL 5 9) (Comp E_UNEQUAL 5 10) = Some (Comp E_EQUAL 5 9)"
  using assms by (simp add: expr_join_and_def join_sym_def join_sym1_def join_sym2_def join_plain_def symbol_and_comp_def
      is_symbol_def join_constants_def comp_right_def)

text \<open>Only the top of an expression is simplified by \<^verbatim>\<open>expr_eliminate_yn\<close>.\<close>

lemma eliminate_yn_top: "expr_eliminate_yn (And (And (Symbol 5) (Symbol symbol_yes)) (Symbol 6)) = And (And (Symbol 5) (Symbol symbol_yes)) (Symbol 6)"
  by simp

end
