(* ===== verification/KconfigTrans.thy ===== *)
theory KconfigTrans
  imports KconfigSimp
begin

text \<open>The other operations on configuration expressions (config/expr.c): negations moved inwards, explicit
  comparisons, the symbols of an expression, and the text of an expression.\<close>

subsection \<open>expr_transform\<close>

text \<open>A comparison of a bool with a constant. For \<^verbatim>\<open>A != y\<close> the code makes a negation of
  \<^verbatim>\<open>e->left.expr\<close>, but the left side of a comparison is a symbol: the result is no expression.\<close>

definition transform_comp :: "symbols \<Rightarrow> relation \<Rightarrow> sym \<Rightarrow> sym \<Rightarrow> expr option" where
  "transform_comp S rel a b =
     (if s_type (S a) \<noteq> S_BOOLEAN then Some (Comp rel a b)
      else case rel of
          E_EQUAL \<Rightarrow> Some (if b = symbol_no then Not (Symbol a) else if b = symbol_mod then Symbol symbol_no
                       else if b = symbol_yes then Symbol a else Comp rel a b)
        | E_UNEQUAL \<Rightarrow> (if b = symbol_no then Some (Symbol a) else if b = symbol_mod then Some (Symbol symbol_yes)
                       else if b = symbol_yes then None else Some (Comp rel a b))
        | _ \<Rightarrow> Some (Comp rel a b))"

primrec negated :: "relation \<Rightarrow> relation" where
  "negated E_EQUAL = E_UNEQUAL"
| "negated E_UNEQUAL = E_EQUAL"
| "negated E_LEQ = E_GTH"
| "negated E_GEQ = E_LTH"
| "negated E_LTH = E_GEQ"
| "negated E_GTH = E_LEQ"

partial_function (option) transform :: "symbols \<Rightarrow> expr \<Rightarrow> expr option" where
  "transform S e =
     (case e of
        Comp rel a b \<Rightarrow> transform_comp S rel a b
      | Symbol a \<Rightarrow> Some e
      | Range a b \<Rightarrow> None
      | Or l r \<Rightarrow> do { l \<leftarrow> transform S l; r \<leftarrow> transform S r; Some (Or l r) }
      | And l r \<Rightarrow> do { l \<leftarrow> transform S l; r \<leftarrow> transform S r; Some (And l r) }
      | Not x \<Rightarrow> do {
          x \<leftarrow> transform S x;
          (case x of
             Not y \<Rightarrow> Some y
           | Comp rel a b \<Rightarrow> Some (Comp (negated rel) a b)
           | Or l r \<Rightarrow> transform S (And (Not l) (Not r))
           | And l r \<Rightarrow> transform S (Or (Not l) (Not r))
           | Symbol a \<Rightarrow>
               Some (if a = symbol_yes then Symbol symbol_no else if a = symbol_mod then Symbol symbol_mod
                     else if a = symbol_no then Symbol symbol_yes else Not x)
           | Range a b \<Rightarrow> Some (Not x)) })"

declare transform.simps [code]

definition expr_transform :: "symbols \<Rightarrow> expr option \<Rightarrow> expr option option" where
  "expr_transform S e = (case e of None \<Rightarrow> Some None | Some e \<Rightarrow> map_option Some (transform S e))"

text \<open>The expressions for which the result is one: no ranges, and no \<^verbatim>\<open>A != y\<close> of a bool.\<close>

primrec transformable :: "symbols \<Rightarrow> expr \<Rightarrow> bool" where
  "transformable S (Or l r) \<longleftrightarrow> transformable S l \<and> transformable S r"
| "transformable S (And l r) \<longleftrightarrow> transformable S l \<and> transformable S r"
| "transformable S (Not e) \<longleftrightarrow> transformable S e"
| "transformable S (Comp rel a b) \<longleftrightarrow> \<not> (rel = E_UNEQUAL \<and> s_type (S a) = S_BOOLEAN \<and> b = symbol_yes)"
| "transformable S (Symbol a) \<longleftrightarrow> True"
| "transformable S (Range a b) \<longleftrightarrow> False"

text \<open>The form of a result: negations only at symbols other than the constants, and no bool is compared with
  a constant.\<close>

primrec transformed :: "symbols \<Rightarrow> expr \<Rightarrow> bool" where
  "transformed S (Or l r) \<longleftrightarrow> transformed S l \<and> transformed S r"
| "transformed S (And l r) \<longleftrightarrow> transformed S l \<and> transformed S r"
| "transformed S (Not e) \<longleftrightarrow> (\<exists>a. e = Symbol a \<and> a \<notin> {symbol_no, symbol_mod, symbol_yes})"
| "transformed S (Comp rel a b) \<longleftrightarrow>
     \<not> (rel \<in> {E_EQUAL, E_UNEQUAL} \<and> s_type (S a) = S_BOOLEAN \<and> b \<in> {symbol_no, symbol_mod, symbol_yes})"
| "transformed S (Symbol a) \<longleftrightarrow> True"
| "transformed S (Range a b) \<longleftrightarrow> False"

lemma transformed_transformable: "transformed S e \<Longrightarrow> transformable S e"
  by (induction e) auto

primrec weight :: "expr \<Rightarrow> nat" where
  "weight (Or l r) = weight l + weight r + 2"
| "weight (And l r) = weight l + weight r + 2"
| "weight (Not e) = 2 * weight e + 1"
| "weight (Comp rel a b) = 3"
| "weight (Symbol a) = 1"
| "weight (Range a b) = 1"

lemma weight_pos [simp]: "0 < weight e"
  by (induction e) simp_all

definition transforms :: "symbols \<Rightarrow> expr \<Rightarrow> expr \<Rightarrow> bool" where
  "transforms S e e' \<longleftrightarrow> transformed S e' \<and> weight e' \<le> weight e \<and> expr_calc_node S e' = expr_calc_node S e"

lemma holds_negated [simp]: "holds_rel (negated rel) n \<longleftrightarrow> \<not> holds_rel rel n"
  by (cases rel) (auto simp: holds_rel_def)

lemma transform_comp_ok:
  assumes "symbols_ok S" "transformable S (Comp rel a b)"
  shows "\<exists>e'. transform_comp S rel a b = Some e' \<and> transforms S (Comp rel a b) e'"
proof (cases "s_type (S a) = S_BOOLEAN \<and> rel \<in> {E_EQUAL, E_UNEQUAL} \<and> b \<in> {symbol_no, symbol_mod, symbol_yes}")
  case False
  then have "transform_comp S rel a b = Some (Comp rel a b)"
    by (cases rel) (auto simp: transform_comp_def)
  then show ?thesis
    using False by (auto simp: transforms_def)
next
  case True
  then have a: "tri_sym S a" "s_tri (S a) \<noteq> T_mod" "s_type (S a) = S_BOOLEAN"
    using assms(1) by (simp_all add: tri_sym_def symbols_ok_def)
  note tri = constants_tri [OF assms(1)] and vals = symbols_okD [OF assms(1)]
  note comp = comp_value [OF a(1) tri(1)] comp_value [OF a(1) tri(2)] comp_value [OF a(1) tri(3)]
  have neq: "a \<noteq> symbol_no" "a \<noteq> symbol_mod" "a \<noteq> symbol_yes"
    using a(3) vals(4-6) by auto
  have t: "transforms S (Comp E_EQUAL a symbol_no) (Not (Symbol a))" "transforms S (Comp E_EQUAL a symbol_mod) (Symbol symbol_no)"
      "transforms S (Comp E_EQUAL a symbol_yes) (Symbol a)" "transforms S (Comp E_UNEQUAL a symbol_no) (Symbol a)"
      "transforms S (Comp E_UNEQUAL a symbol_mod) (Symbol symbol_yes)"
    unfolding transforms_def comp vals using a(2) neq by (cases "s_tri (S a)"; simp add: vals)+
  consider "rel = E_EQUAL" "b = symbol_no" | "rel = E_EQUAL" "b = symbol_mod" | "rel = E_EQUAL" "b = symbol_yes"
    | "rel = E_UNEQUAL" "b = symbol_no" | "rel = E_UNEQUAL" "b = symbol_mod"
    using True assms(2) by auto
  then show ?thesis
    by cases (use t a(3) in \<open>simp_all add: transform_comp_def\<close>)
qed

lemma transform_simps:
  "transform S (Comp rel a b) = transform_comp S rel a b" "transform S (Symbol a) = Some (Symbol a)"
  "transform S l = Some l' \<Longrightarrow> transform S r = Some r' \<Longrightarrow> transform S (Or l r) = Some (Or l' r')"
  "transform S l = Some l' \<Longrightarrow> transform S r = Some r' \<Longrightarrow> transform S (And l r) = Some (And l' r')"
  "transform S x = Some x' \<Longrightarrow> transform S (Not x) = (case x' of
      Not y \<Rightarrow> Some y
    | Comp rel a b \<Rightarrow> Some (Comp (negated rel) a b)
    | Or l r \<Rightarrow> transform S (And (Not l) (Not r))
    | And l r \<Rightarrow> transform S (Or (Not l) (Not r))
    | Symbol a \<Rightarrow>
        Some (if a = symbol_yes then Symbol symbol_no else if a = symbol_mod then Symbol symbol_mod
              else if a = symbol_no then Symbol symbol_yes else Not (Symbol a))
    | Range a b \<Rightarrow> Some (Not (Range a b)))"
  by (subst transform.simps; auto split: expr.splits)+

lemma transforms_trans:
  "transforms S e1 e2 \<Longrightarrow> weight e1 \<le> weight e \<Longrightarrow> expr_calc_node S e1 = expr_calc_node S e \<Longrightarrow> transforms S e e2"
  by (simp add: transforms_def)

lemma transform_not_symbol:
  assumes "symbols_ok S"
  shows "transforms S (Not (Symbol a)) (if a = symbol_yes then Symbol symbol_no else if a = symbol_mod then Symbol symbol_mod
      else if a = symbol_no then Symbol symbol_yes else Not (Symbol a))"
  using symbols_okD [OF assms] by (simp add: transforms_def)

lemma negated_cases: "negated rel \<in> {E_EQUAL, E_UNEQUAL} \<longleftrightarrow> rel \<in> {E_EQUAL, E_UNEQUAL}"
  by (cases rel) simp_all

lemma transform_total:
  assumes "symbols_ok S"
  shows "transformable S e \<Longrightarrow> \<exists>e'. transform S e = Some e' \<and> transforms S e e'"
proof (induction "weight e" arbitrary: e rule: less_induct)
  case less
  show ?case
  proof (cases e)
    case (Or l r)
    then obtain l' r' where "transform S l = Some l'" "transforms S l l'" "transform S r = Some r'" "transforms S r r'"
      using less(1) [of l] less(1) [of r] less(2) by auto
    then show ?thesis
      using transform_simps(3) [of S l l' r r'] by (simp add: Or transforms_def)
  next
    case (And l r)
    then obtain l' r' where "transform S l = Some l'" "transforms S l l'" "transform S r = Some r'" "transforms S r r'"
      using less(1) [of l] less(1) [of r] less(2) by auto
    then show ?thesis
      using transform_simps(4) [of S l l' r r'] by (simp add: And transforms_def)
  next
    case (Comp rel a b)
    then show ?thesis
      using transform_comp_ok [OF assms, of rel a b] less(2) by (simp add: transform_simps(1))
  next
    case (Symbol a)
    then show ?thesis
      by (simp add: transform_simps(2) transforms_def)
  next
    case (Range a b)
    then show ?thesis
      using less(2) by simp
  next
    case (Not x)
    then obtain x' where x': "transform S x = Some x'" "transforms S x x'"
      using less(1) [of x] less(2) by auto
    note step = transform_simps(5) [OF x'(1)]
    have up: "transforms S e e2" if "transforms S (Not x') e2" for e2
      using transforms_trans [OF that, of e] x'(2) by (simp add: Not transforms_def)
    show ?thesis
    proof (cases x')
      case x: (Or l r)
      have "transformable S (And (Not l) (Not r))" "weight (And (Not l) (Not r)) < weight e"
        using x'(2) transformed_transformable [of S] by (auto simp: Not x transforms_def)
      then obtain e2 where e2: "transform S (And (Not l) (Not r)) = Some e2" "transforms S (And (Not l) (Not r)) e2"
        using less(1) by blast
      have "transforms S (Not x') e2"
        by (rule transforms_trans [OF e2(2)]) (simp_all add: x EXPR_AND_inf EXPR_OR_sup)
      then show ?thesis
        using up step e2(1) by (simp add: Not x)
    next
      case x: (And l r)
      have "transformable S (Or (Not l) (Not r))" "weight (Or (Not l) (Not r)) < weight e"
        using x'(2) transformed_transformable [of S] by (auto simp: Not x transforms_def)
      then obtain e2 where e2: "transform S (Or (Not l) (Not r)) = Some e2" "transforms S (Or (Not l) (Not r)) e2"
        using less(1) by blast
      have "transforms S (Not x') e2"
        by (rule transforms_trans [OF e2(2)]) (simp_all add: x EXPR_AND_inf EXPR_OR_sup)
      then show ?thesis
        using up step e2(1) by (simp add: Not x)
    next
      case x: (Not y)
      have "transformed S (Not y)"
        using x'(2) by (simp add: x transforms_def)
      then have "transforms S (Not x') y"
        unfolding x transforms_def by auto
      then show ?thesis
        using up step by (simp add: Not x)
    next
      case x: (Comp rel a b)
      have "transforms S (Not x') (Comp (negated rel) a b)"
        using x'(2) negated_cases [of rel] by (auto simp: x transforms_def)
      then show ?thesis
        using up step by (simp add: Not x)
    next
      case x: (Symbol a)
      show ?thesis
        using up transform_not_symbol [OF assms, of a] step by (simp add: Not x)
    next
      case x: (Range a b)
      show ?thesis
        using x'(2) by (simp add: x transforms_def)
    qed
  qed
qed

lemma transform_none: "\<not> transformable S e \<Longrightarrow> transform S e = None"
proof (induction e)
  case (Comp rel a b)
  then show ?case
    by (simp add: transform_simps(1) transform_comp_def)
qed (subst transform.simps; force simp: bind_eq_None_conv)+



lemma expr_transform_sample:
  "expr_transform sample_symbols (Some (Not (And (Comp E_EQUAL 6 symbol_yes) (Or (Symbol 5) (Not (Comp E_LTH 5 7)))))) =
   Some (Some (Or (Not (Symbol 6)) (And (Not (Symbol 5)) (Comp E_LTH 5 7))))"
  by code_simp

subsection \<open>expr_trans_compare\<close>

primrec trans_compare :: "expr \<Rightarrow> relation \<Rightarrow> sym \<Rightarrow> expr option" where
  "trans_compare (And l r) type s = do {
     e1 \<leftarrow> trans_compare l E_EQUAL s;
     e2 \<leftarrow> trans_compare r E_EQUAL s;
     let e = (if s = symbol_no then Or e1 e2 else if s = symbol_yes then And e1 e2 else And l r);
     Some (if type = E_UNEQUAL then Not e else e) }"
| "trans_compare (Or l r) type s = do {
     e1 \<leftarrow> trans_compare l E_EQUAL s;
     e2 \<leftarrow> trans_compare r E_EQUAL s;
     let e = (if s = symbol_no then And e1 e2 else if s = symbol_yes then Or e1 e2 else Or l r);
     Some (if type = E_UNEQUAL then Not e else e) }"
| "trans_compare (Not e) type s = trans_compare e (if type = E_EQUAL then E_UNEQUAL else E_EQUAL) s"
| "trans_compare (Comp rel a b) type s =
     (if type = E_EQUAL
      then (if s = symbol_yes then Some (Comp rel a b) else if s = symbol_mod then Some (Symbol symbol_no)
            else if s = symbol_no then Some (Not (Comp rel a b)) else None)
      else (if s = symbol_yes then Some (Not (Comp rel a b)) else if s = symbol_mod then Some (Symbol symbol_yes)
            else if s = symbol_no then Some (Comp rel a b) else None))"
| "trans_compare (Symbol a) type s = Some (Comp type a s)"
| "trans_compare (Range a b) type s = None"

definition expr_trans_compare :: "expr option \<Rightarrow> relation \<Rightarrow> sym \<Rightarrow> expr option" where
  "expr_trans_compare e type s =
     (case e of
        None \<Rightarrow> Some (if type = E_UNEQUAL then Not (Symbol s) else Symbol s)
      | Some e \<Rightarrow> trans_compare e type s)"

text \<open>The expressions for which the comparison is right: nothing that is negated has the value m, and the
  symbols are bool or tristate.\<close>

primrec comparable :: "symbols \<Rightarrow> expr \<Rightarrow> bool" where
  "comparable S (Or l r) \<longleftrightarrow> comparable S l \<and> comparable S r"
| "comparable S (And l r) \<longleftrightarrow> comparable S l \<and> comparable S r"
| "comparable S (Not e) \<longleftrightarrow> comparable S e \<and> expr_calc_node S e \<noteq> T_mod"
| "comparable S (Comp rel a b) \<longleftrightarrow> True"
| "comparable S (Symbol a) \<longleftrightarrow> tri_sym S a"
| "comparable S (Range a b) \<longleftrightarrow> False"

lemma inf_extremes: "inf a b = T_yes \<longleftrightarrow> a = T_yes \<and> b = T_yes" "inf a b = T_no \<longleftrightarrow> a = T_no \<or> b = T_no"
  for a b :: tristate
  by (cases a; cases b; simp add: EXPR_AND_inf [symmetric] EXPR_AND_def less_tristate_def)+

lemma sup_extremes: "sup a b = T_yes \<longleftrightarrow> a = T_yes \<or> b = T_yes" "sup a b = T_no \<longleftrightarrow> a = T_no \<and> b = T_no"
  for a b :: tristate
  by (cases a; cases b; simp add: EXPR_OR_sup [symmetric] EXPR_OR_def less_tristate_def)+

lemma trans_compare_value:
  assumes "symbols_ok S" "s \<in> {symbol_no, symbol_yes}"
  shows "comparable S e \<Longrightarrow> type \<in> {E_EQUAL, E_UNEQUAL} \<Longrightarrow>
    \<exists>e'. trans_compare e type s = Some e' \<and>
      expr_calc_node S e' = (if (expr_calc_node S e = s_tri (S s)) = (type = E_EQUAL) then T_yes else T_no)"
proof (induction e arbitrary: type)
  case (Or l r)
  obtain l' r' where "trans_compare l E_EQUAL s = Some l'" "trans_compare r E_EQUAL s = Some r'"
      "expr_calc_node S l' = (if expr_calc_node S l = s_tri (S s) then T_yes else T_no)"
      "expr_calc_node S r' = (if expr_calc_node S r = s_tri (S s) then T_yes else T_no)"
    using Or.IH [of E_EQUAL] Or.prems(1) by auto
  then show ?case
    using assms(2) Or.prems(2) symbols_okD [OF assms(1)] by (auto simp: EXPR_OR_sup EXPR_AND_inf sup_extremes)
next
  case (And l r)
  obtain l' r' where "trans_compare l E_EQUAL s = Some l'" "trans_compare r E_EQUAL s = Some r'"
      "expr_calc_node S l' = (if expr_calc_node S l = s_tri (S s) then T_yes else T_no)"
      "expr_calc_node S r' = (if expr_calc_node S r = s_tri (S s) then T_yes else T_no)"
    using And.IH [of E_EQUAL] And.prems(1) by auto
  then show ?case
    using assms(2) And.prems(2) symbols_okD [OF assms(1)] by (auto simp: EXPR_OR_sup EXPR_AND_inf inf_extremes)
next
  case (Not e)
  have "EXPR_NOT (expr_calc_node S e) = s_tri (S s) \<longleftrightarrow> expr_calc_node S e \<noteq> s_tri (S s)"
    using Not.prems(1) assms(2) symbols_okD [OF assms(1)] by (cases "expr_calc_node S e") auto
  then show ?case
    using Not.IH [of "if type = E_EQUAL then E_UNEQUAL else E_EQUAL"] Not.prems by (auto split: if_splits)
next
  case (Comp rel a b)
  then show ?case
    using assms(2) symbols_okD [OF assms(1)] by auto
next
  case (Symbol a)
  have "tri_sym S s"
    using assms constants_tri by auto
  then show ?case
    using Symbol comp_value [of S a s] by (auto simp del: expr_calc_node.simps(5))
qed simp

text \<open>\<^verbatim>\<open>expr_trans_compare\<close> with the constants n and y gives an expression whose value says whether the
  expression has that value, provided that nothing with the value m is negated in it.\<close>

theorem expr_trans_compare_decides:
  assumes "symbols_ok S" "s \<in> {symbol_no, symbol_yes}" "type \<in> {E_EQUAL, E_UNEQUAL}" "comparable S e"
  shows "\<exists>e'. expr_trans_compare (Some e) type s = Some e' \<and>
    expr_calc_value S (Some e') = (if (expr_calc_value S (Some e) = s_tri (S s)) = (type = E_EQUAL) then T_yes else T_no)"
  using trans_compare_value [OF assms(1,2,4,3)] by (auto simp: expr_trans_compare_def expr_calc_value_def)

theorem expr_trans_compare_decides_witness:
  "\<exists>e'. expr_trans_compare (Some (And (Symbol 5) (Or (Symbol 6) (Not (Symbol 7))))) E_UNEQUAL symbol_no = Some e' \<and>
    expr_calc_value sample_symbols (Some e') =
      (if (expr_calc_value sample_symbols (Some (And (Symbol 5) (Or (Symbol 6) (Not (Symbol 7))))) = s_tri (sample_symbols symbol_no)) =
          (E_UNEQUAL = E_EQUAL) then T_yes else T_no)"
  by (rule expr_trans_compare_decides [OF sample_symbols_ok])
    (simp_all add: tri_sym_def sample_symbols_def)

text \<open>Under a negation m is lost: A = m makes !A = m, which is not n, but the test of A against n that the
  code puts in its place says so.\<close>

lemma trans_compare_mod:
  "expr_trans_compare (Some (Not (Symbol a))) E_UNEQUAL symbol_no = Some (Comp E_EQUAL a symbol_no)"
  by (simp add: expr_trans_compare_def)

lemma trans_compare_mod_value:
  assumes "symbols_ok S" "tri_sym S a" "s_tri (S a) = T_mod"
  shows "expr_calc_value S (Some (Not (Symbol a))) \<noteq> T_no" "expr_calc_value S (Some (Comp E_EQUAL a symbol_no)) = T_no"
  using assms comp_value(1) [OF assms(2) constants_tri(1) [OF assms(1)]] symbols_okD(1) [OF assms(1)]
  by (simp_all add: expr_calc_value_def del: expr_calc_node.simps(5))

subsection \<open>The symbols of an expression\<close>

primrec contains_symbol :: "expr \<Rightarrow> sym \<Rightarrow> bool" where
  "contains_symbol (And l r) s \<longleftrightarrow> contains_symbol l s \<or> contains_symbol r s"
| "contains_symbol (Or l r) s \<longleftrightarrow> contains_symbol l s \<or> contains_symbol r s"
| "contains_symbol (Symbol a) s \<longleftrightarrow> a = s"
| "contains_symbol (Comp rel a b) s \<longleftrightarrow> a = s \<or> b = s"
| "contains_symbol (Not e) s \<longleftrightarrow> contains_symbol e s"
| "contains_symbol (Range a b) s \<longleftrightarrow> False"

definition expr_contains_symbol :: "expr option \<Rightarrow> sym \<Rightarrow> bool" where
  "expr_contains_symbol dep s = (case dep of None \<Rightarrow> False | Some e \<Rightarrow> contains_symbol e s)"

primrec depends_symbol :: "expr \<Rightarrow> sym \<Rightarrow> bool" where
  "depends_symbol (And l r) s \<longleftrightarrow> depends_symbol l s \<or> depends_symbol r s"
| "depends_symbol (Or l r) s \<longleftrightarrow> False"
| "depends_symbol (Symbol a) s \<longleftrightarrow> a = s"
| "depends_symbol (Comp rel a b) s \<longleftrightarrow>
     (rel = E_EQUAL \<and> a = s \<and> (b = symbol_yes \<or> b = symbol_mod)) \<or> (rel = E_UNEQUAL \<and> a = s \<and> b = symbol_no)"
| "depends_symbol (Not e) s \<longleftrightarrow> False"
| "depends_symbol (Range a b) s \<longleftrightarrow> False"

definition expr_depends_symbol :: "expr option \<Rightarrow> sym \<Rightarrow> bool" where
  "expr_depends_symbol dep s = (case dep of None \<Rightarrow> False | Some e \<Rightarrow> depends_symbol e s)"

lemma sym_cmp_other: "a \<noteq> s \<Longrightarrow> b \<noteq> s \<Longrightarrow> sym_cmp (S(s := r)) a b = sym_cmp S a b"
  by (simp only: sym_cmp_def fun_upd_apply if_False)

lemma contains_value: "\<not> contains_symbol e s \<Longrightarrow> expr_calc_node (S(s := r)) e = expr_calc_node S e"
  by (induction e) (auto simp: sym_cmp_other)

lemma depends_value:
  assumes "symbols_ok S" "tri_sym S s" "s_tri (S s) = T_no"
  shows "depends_symbol e s \<Longrightarrow> expr_calc_node S e = T_no"
proof (induction e)
  case (And l r)
  then show ?case
    by (auto simp: EXPR_AND_inf)
next
  case (Comp rel a b)
  have "expr_calc_node S (Comp E_EQUAL s symbol_yes) = T_no" "expr_calc_node S (Comp E_EQUAL s symbol_mod) = T_no"
      "expr_calc_node S (Comp E_UNEQUAL s symbol_no) = T_no"
    unfolding comp_value [OF assms(2) constants_tri(1) [OF assms(1)]] comp_value [OF assms(2) constants_tri(2) [OF assms(1)]]
      comp_value [OF assms(2) constants_tri(3) [OF assms(1)]] using assms(3) symbols_okD [OF assms(1)] by simp_all
  then show ?case
    using Comp by (auto simp del: expr_calc_node.simps(5))
qed (use assms in simp_all)

text \<open>\<^verbatim>\<open>expr_contains_symbol\<close> and \<^verbatim>\<open>expr_depends_symbol\<close> mean what they say: the value of an expression that
  does not contain a symbol does not change with the symbol, and one that depends on a symbol is n when the
  symbol is.\<close>

theorem contains_and_depends:
  assumes "symbols_ok S" "tri_sym S s"
  shows "(\<not> expr_contains_symbol e s \<longrightarrow> expr_calc_value (S(s := r)) e = expr_calc_value S e) \<and>
    (expr_depends_symbol e s \<and> s_tri (S s) = T_no \<longrightarrow> expr_calc_value S e = T_no)"
  using contains_value depends_value [OF assms]
  by (auto simp: expr_contains_symbol_def expr_depends_symbol_def expr_calc_value_def split: option.splits)

theorem contains_and_depends_witness:
  "expr_calc_value (sample_symbols(7 := sample_symbols 5)) (Some (Or (Symbol 5) (Symbol 6))) =
     expr_calc_value sample_symbols (Some (Or (Symbol 5) (Symbol 6))) \<and>
   expr_calc_value sample_symbols (Some (And (Symbol 5) (Comp E_EQUAL 7 symbol_mod))) = T_no"
proof -
  have tri: "tri_sym sample_symbols 7" "s_tri (sample_symbols 7) = T_no"
    by (simp_all add: tri_sym_def sample_symbols_def)
  show ?thesis
    using contains_and_depends [OF sample_symbols_ok tri(1), of "Some (Or (Symbol 5) (Symbol 6))" "sample_symbols 5"]
      contains_and_depends [OF sample_symbols_ok tri(1), of "Some (And (Symbol 5) (Comp E_EQUAL 7 symbol_mod))" "sample_symbols 5"] tri(2)
    by (simp add: expr_contains_symbol_def expr_depends_symbol_def)
qed

end
