(* ===== verification/KconfigPrint.thy ===== *)
theory KconfigPrint
  imports KconfigTrans "HOL-Library.Monad_Syntax"
begin

text \<open>The text of a configuration expression: \<^verbatim>\<open>expr_print\<close> (config/expr.c), and the rules for \<^verbatim>\<open>expr\<close> of
  the grammar (config/parser.y), which read it back. An item is what \<^verbatim>\<open>expr_print\<close> passes to its callback: the
  symbol, if any, and the text. What the items look like as characters is up to the callback and the
  lexer.\<close>

subsection \<open>expr_print\<close>

type_synonym item = "sym option \<times> string option"

abbreviation punct :: "string \<Rightarrow> item" where
  "punct t \<equiv> (None, Some t)"

definition expr_compare_type :: "nat \<Rightarrow> nat \<Rightarrow> nat" where
  "expr_compare_type t1 t2 =
     (let order = t1 \<in> {6, 7, 8, 9}; equality = order \<or> t1 \<in> {4, 5}; negation = equality \<or> t1 = 3
      in if t1 = t2 then 0
         else if order \<and> (t2 = 4 \<or> t2 = 5) then 1
         else if equality \<and> t2 = 3 then 1
         else if negation \<and> t2 = 2 then 1
         else if (negation \<or> t1 = 2) \<and> t2 = 1 then 1
         else 0)"

definition left_item :: "symbols \<Rightarrow> sym \<Rightarrow> item" where
  "left_item S a = (case s_name (S a) of Some n \<Rightarrow> (Some a, Some n) | None \<Rightarrow> punct ''<choice>'')"

definition right_item :: "symbols \<Rightarrow> sym \<Rightarrow> item" where
  "right_item S a = (Some a, s_name (S a))"

primrec relation_text :: "relation \<Rightarrow> string" where
  "relation_text E_EQUAL = ''=''"
| "relation_text E_UNEQUAL = ''!=''"
| "relation_text E_LEQ = ''<=''"
| "relation_text E_LTH = ''<''"
| "relation_text E_GEQ = ''>=''"
| "relation_text E_GTH = ''>''"

definition in_parens :: "bool \<Rightarrow> item list \<Rightarrow> item list" where
  "in_parens c ts = (if c then punct ''('' # ts @ [punct '')''] else ts)"

primrec print_node :: "symbols \<Rightarrow> expr \<Rightarrow> nat \<Rightarrow> item list" where
  "print_node S (Symbol a) prevtoken = in_parens (expr_compare_type prevtoken 10 > 0) [left_item S a]"
| "print_node S (Not e) prevtoken = in_parens (expr_compare_type prevtoken 3 > 0) (punct ''!'' # print_node S e 3)"
| "print_node S (Comp rel a b) prevtoken =
     in_parens (expr_compare_type prevtoken (expr_kind (Comp rel a b)) > 0)
       [left_item S a, punct (relation_text rel), right_item S b]"
| "print_node S (Or l r) prevtoken =
     in_parens (expr_compare_type prevtoken 1 > 0) (print_node S l 1 @ punct '' || '' # print_node S r 1)"
| "print_node S (And l r) prevtoken =
     in_parens (expr_compare_type prevtoken 2 > 0) (print_node S l 2 @ punct '' && '' # print_node S r 2)"
| "print_node S (Range a b) prevtoken =
     in_parens (expr_compare_type prevtoken 11 > 0)
       [punct ''['', right_item S a, punct '' '', right_item S b, punct '']'']"

definition expr_print :: "symbols \<Rightarrow> expr option \<Rightarrow> nat \<Rightarrow> item list" where
  "expr_print S e prevtoken = (case e of None \<Rightarrow> [punct ''y''] | Some e \<Rightarrow> print_node S e prevtoken)"

subsection \<open>The rules for expr\<close>

text \<open>The precedences make && stronger than ||, both group from the left, and ! is stronger than both. A comparison
  is between two symbols.\<close>

definition relation_of :: "string \<Rightarrow> relation option" where
  "relation_of t = map_of (map (\<lambda>rel. (relation_text rel, rel)) [E_EQUAL, E_UNEQUAL, E_LEQ, E_LTH, E_GEQ, E_GTH]) t"

datatype rule_pos = P_or | P_or_more expr | P_and | P_and_more expr | P_operand

partial_function (option) read_expr :: "rule_pos \<Rightarrow> item list \<Rightarrow> (expr \<times> item list) option" where
  "read_expr p ts =
     (case p of
        P_or \<Rightarrow> do { (e, ts) \<leftarrow> read_expr P_and ts; read_expr (P_or_more e) ts }
      | P_or_more e \<Rightarrow>
          if ts \<noteq> [] \<and> hd ts = punct '' || ''
          then do { (e2, ts) \<leftarrow> read_expr P_and (tl ts); read_expr (P_or_more (Or e e2)) ts }
          else Some (e, ts)
      | P_and \<Rightarrow> do { (e, ts) \<leftarrow> read_expr P_operand ts; read_expr (P_and_more e) ts }
      | P_and_more e \<Rightarrow>
          if ts \<noteq> [] \<and> hd ts = punct '' && ''
          then do { (e2, ts) \<leftarrow> read_expr P_operand (tl ts); read_expr (P_and_more (And e e2)) ts }
          else Some (e, ts)
      | P_operand \<Rightarrow>
          (case ts of
             [] \<Rightarrow> None
           | (None, t) # ts \<Rightarrow>
               if t = Some ''!'' then do { (e, ts) \<leftarrow> read_expr P_operand ts; Some (Not e, ts) }
               else if t = Some ''('' then do {
                 (e, ts) \<leftarrow> read_expr P_or ts;
                 if ts \<noteq> [] \<and> hd ts = punct '')'' then Some (e, tl ts) else None }
               else None
           | (Some a, _) # ts \<Rightarrow>
               (case ts of
                  (None, Some t) # ts' \<Rightarrow>
                    (case relation_of t of
                       None \<Rightarrow> Some (Symbol a, ts)
                     | Some rel \<Rightarrow> (case ts' of (Some b, _) # ts' \<Rightarrow> Some (Comp rel a b, ts') | _ \<Rightarrow> None))
                | _ \<Rightarrow> Some (Symbol a, ts))))"

text \<open>The same operands, grouped from the left.\<close>

primrec or_left :: "expr \<Rightarrow> expr \<Rightarrow> expr" where
  "or_left l (Or a b) = Or (or_left l a) b"
| "or_left l (And a b) = Or l (And a b)"
| "or_left l (Not e) = Or l (Not e)"
| "or_left l (Comp rel a b) = Or l (Comp rel a b)"
| "or_left l (Symbol a) = Or l (Symbol a)"
| "or_left l (Range a b) = Or l (Range a b)"

primrec and_left :: "expr \<Rightarrow> expr \<Rightarrow> expr" where
  "and_left l (And a b) = And (and_left l a) b"
| "and_left l (Or a b) = And l (Or a b)"
| "and_left l (Not e) = And l (Not e)"
| "and_left l (Comp rel a b) = And l (Comp rel a b)"
| "and_left l (Symbol a) = And l (Symbol a)"
| "and_left l (Range a b) = And l (Range a b)"

primrec group_left :: "expr \<Rightarrow> expr" where
  "group_left (Or l r) = or_left (group_left l) (group_left r)"
| "group_left (And l r) = and_left (group_left l) (group_left r)"
| "group_left (Not e) = Not (group_left e)"
| "group_left (Comp rel a b) = Comp rel a b"
| "group_left (Symbol a) = Symbol a"
| "group_left (Range a b) = Range a b"

primrec printable :: "symbols \<Rightarrow> expr \<Rightarrow> bool" where
  "printable S (Or l r) \<longleftrightarrow> printable S l \<and> printable S r"
| "printable S (And l r) \<longleftrightarrow> printable S l \<and> printable S r"
| "printable S (Not e) \<longleftrightarrow> printable S e"
| "printable S (Comp rel a b) \<longleftrightarrow> s_name (S a) \<noteq> None"
| "printable S (Symbol a) \<longleftrightarrow> s_name (S a) \<noteq> None"
| "printable S (Range a b) \<longleftrightarrow> False"

lemma left_value [simp]:
  "expr_calc_node S (or_left l e) = sup (expr_calc_node S l) (expr_calc_node S e)"
  "expr_calc_node S (and_left l e) = inf (expr_calc_node S l) (expr_calc_node S e)"
  by (induction e) (simp_all add: EXPR_OR_sup EXPR_AND_inf sup_assoc inf_assoc)

lemma group_left_value: "expr_calc_node S (group_left e) = expr_calc_node S e"
  by (induction e) (simp_all add: EXPR_OR_sup EXPR_AND_inf)

lemma left_assoc: "or_left (or_left a b) c = or_left a (or_left b c)" "and_left (and_left a b) c = and_left a (and_left b c)"
  by (induction c) simp_all

definition is_or :: "expr \<Rightarrow> bool" where "is_or e \<longleftrightarrow> oper_of e = Some E_OR"
definition is_and :: "expr \<Rightarrow> bool" where "is_and e \<longleftrightarrow> oper_of e = Some E_AND"

lemma is_oper [simp]:
  "is_or (Or l r)" "\<not> is_or (And l r)" "\<not> is_or (Not e)" "\<not> is_or (Comp rel a b)" "\<not> is_or (Symbol a)" "\<not> is_or (Range a b)"
  "is_and (And l r)" "\<not> is_and (Or l r)" "\<not> is_and (Not e)" "\<not> is_and (Comp rel a b)" "\<not> is_and (Symbol a)" "\<not> is_and (Range a b)"
  by (simp_all add: is_or_def is_and_def oper_of_def)

lemma is_or_left [simp]: "is_or (or_left l e)" "is_and (and_left l e)" "\<not> is_and (or_left l e)" "\<not> is_or (and_left l e)"
  by (cases e; simp)+

lemma is_group_left [simp]: "is_or (group_left e) = is_or e" "is_and (group_left e) = is_and e"
  by (cases e; simp)+

lemma left_leaf: "\<not> is_or e \<Longrightarrow> or_left l e = Or l e" "\<not> is_and e \<Longrightarrow> and_left l e = And l e"
  by (cases e; simp)+

subsection \<open>Reading what was printed\<close>

text \<open>What can follow an expression.\<close>

definition follows :: "item list \<Rightarrow> bool" where
  "follows ts \<longleftrightarrow> ts = [] \<or> hd ts \<in> {punct '' || '', punct '' && '', punct '')''}"

lemma read_or: "read_expr P_and ts = Some (e, ts') \<Longrightarrow> read_expr P_or ts = read_expr (P_or_more e) ts'"
  by (subst read_expr.simps) simp

lemma read_and: "read_expr P_operand ts = Some (e, ts') \<Longrightarrow> read_expr P_and ts = read_expr (P_and_more e) ts'"
  by (subst read_expr.simps) simp

lemma read_or_more:
  "read_expr P_and ts = Some (e2, ts') \<Longrightarrow> read_expr (P_or_more e) (punct '' || '' # ts) = read_expr (P_or_more (Or e e2)) ts'"
  by (subst read_expr.simps) simp

lemma read_or_end: "ts = [] \<or> hd ts \<noteq> punct '' || '' \<Longrightarrow> read_expr (P_or_more e) ts = Some (e, ts)"
  by (subst read_expr.simps) auto

lemma read_and_more:
  "read_expr P_operand ts = Some (e2, ts') \<Longrightarrow> read_expr (P_and_more e) (punct '' && '' # ts) = read_expr (P_and_more (And e e2)) ts'"
  by (subst read_expr.simps) simp

lemma read_and_end: "ts = [] \<or> hd ts \<noteq> punct '' && '' \<Longrightarrow> read_expr (P_and_more e) ts = Some (e, ts)"
  by (subst read_expr.simps) auto

lemma read_not: "read_expr P_operand ts = Some (e, ts') \<Longrightarrow> read_expr P_operand (punct ''!'' # ts) = Some (Not e, ts')"
  by (subst read_expr.simps) simp

lemma read_parens:
  "read_expr P_or ts = Some (e, punct '')'' # ts') \<Longrightarrow> read_expr P_operand (punct ''('' # ts) = Some (e, ts')"
  by (subst read_expr.simps) simp

lemma relation_of_text [simp]: "relation_of (relation_text rel) = Some rel"
  by (cases rel) (simp_all add: relation_of_def)

lemma read_comp: "read_expr P_operand ((Some a, n) # punct (relation_text rel) # (Some b, m) # ts) = Some (Comp rel a b, ts)"
  by (subst read_expr.simps) simp

lemma read_symbol: "follows ts \<Longrightarrow> read_expr P_operand ((Some a, n) # ts) = Some (Symbol a, ts)"
  by (subst read_expr.simps, cases ts) (auto simp: follows_def relation_of_def)

lemma compare_types [simp]:
  "expr_compare_type 1 t = 0" "expr_compare_type (Suc 0) t = 0" "expr_compare_type 0 t = 0" "expr_compare_type t 10 = 0" "expr_compare_type 2 t = (if t = 1 then 1 else 0)"
  "expr_compare_type 3 t = (if t = 1 \<or> t = 2 then 1 else 0)"
  by (simp_all add: expr_compare_type_def Let_def)

lemma kinds [simp]: "case_relation 4 5 6 7 8 9 rel \<noteq> (1 :: nat)" "case_relation 4 5 6 7 8 9 rel \<noteq> (2 :: nat)"
    "case_relation 4 5 6 7 8 9 rel \<noteq> Suc 0"
  by (cases rel; simp)+

lemma print_and_operand: "\<not> is_and e \<Longrightarrow> print_node S e 2 = print_node S e 3"
  by (cases e) simp_all

lemma print_or_operand: "\<not> is_or e \<Longrightarrow> print_node S e (Suc 0) = print_node S e 2"
  by (cases e) simp_all

definition reads_operand :: "symbols \<Rightarrow> expr \<Rightarrow> bool" where
  "reads_operand S e \<longleftrightarrow> (\<forall>ts. follows ts \<longrightarrow> read_expr P_operand (print_node S e 3 @ ts) = Some (group_left e, ts))"

definition reads_and :: "symbols \<Rightarrow> expr \<Rightarrow> bool" where
  "reads_and S e \<longleftrightarrow> (\<forall>ts. follows ts \<longrightarrow>
     read_expr P_and (print_node S e 2 @ ts) = read_expr (P_and_more (group_left e)) ts \<and>
     (\<forall>l. read_expr (P_and_more l) (punct '' && '' # print_node S e 2 @ ts) = read_expr (P_and_more (and_left l (group_left e))) ts))"

definition reads_or :: "symbols \<Rightarrow> expr \<Rightarrow> bool" where
  "reads_or S e \<longleftrightarrow> (\<forall>ts. follows ts \<and> (ts \<noteq> [] \<longrightarrow> hd ts \<noteq> punct '' && '') \<longrightarrow>
     read_expr P_or (print_node S e 1 @ ts) = read_expr (P_or_more (group_left e)) ts \<and>
     (\<forall>l. read_expr (P_or_more l) (punct '' || '' # print_node S e 1 @ ts) = read_expr (P_or_more (or_left l (group_left e))) ts))"

lemma operand_and: "\<not> is_and e \<Longrightarrow> reads_operand S e \<Longrightarrow> reads_and S e"
  by (auto simp: reads_and_def reads_operand_def print_and_operand read_and read_and_more left_leaf)

lemma and_or: "\<not> is_or e \<Longrightarrow> reads_and S e \<Longrightarrow> reads_or S e"
  by (auto simp: reads_or_def reads_and_def print_or_operand read_or read_or_more left_leaf read_and_end)

lemma or_parens:
  assumes "reads_or S e" "print_node S e 3 = punct ''('' # print_node S e 1 @ [punct '')'']"
  shows "reads_operand S e"
proof -
  have "read_expr P_operand (print_node S e 3 @ ts) = Some (group_left e, ts)" if "follows ts" for ts
  proof -
    have "read_expr P_or (print_node S e 1 @ punct '')'' # ts) = read_expr (P_or_more (group_left e)) (punct '')'' # ts)"
      using assms(1) by (simp add: reads_or_def follows_def)
    also have "\<dots> = Some (group_left e, punct '')'' # ts)"
      by (rule read_or_end) simp
    finally show ?thesis
      using assms(2) read_parens by simp
  qed
  then show ?thesis
    by (simp add: reads_operand_def)
qed

lemma follows_items [simp]: "follows (punct '' && '' # ts)" "follows (punct '' || '' # ts)"
  by (simp_all add: follows_def)

lemma printed_reads: "printable S e \<Longrightarrow> reads_operand S e \<and> reads_and S e \<and> reads_or S e"
proof (induction e)
  case (And l r)
  have a: "reads_and S (And l r)"
    using And by (simp add: reads_and_def in_parens_def left_assoc)
  then have o: "reads_or S (And l r)"
    by (intro and_or) simp_all
  have "reads_operand S (And l r)"
    using o by (rule or_parens) (simp add: in_parens_def)
  with a o show ?case
    by blast
next
  case (Or l r)
  have o: "reads_or S (Or l r)"
    using Or by (simp add: reads_or_def in_parens_def left_assoc)
  have p: "reads_operand S (Or l r)"
    using o by (rule or_parens) (simp add: in_parens_def)
  then have "reads_and S (Or l r)"
    by (intro operand_and) simp_all
  with o p show ?case
    by blast
next
  case (Not e)
  have "reads_operand S (Not e)"
    using Not by (auto simp: reads_operand_def in_parens_def read_not)
  then show ?case
    using operand_and [of "Not e"] and_or [of "Not e"] by simp
next
  case (Comp rel a b)
  have "reads_operand S (Comp rel a b)"
    using Comp by (auto simp: reads_operand_def in_parens_def left_item_def right_item_def read_comp)
  then show ?case
    using operand_and [of "Comp rel a b"] and_or [of "Comp rel a b"] by simp
next
  case (Symbol a)
  have "reads_operand S (Symbol a)"
    using Symbol by (auto simp: reads_operand_def in_parens_def left_item_def read_symbol)
  then show ?case
    using operand_and [of "Symbol a"] and_or [of "Symbol a"] by simp
qed simp

text \<open>C36. What \<^verbatim>\<open>expr_print\<close> writes for an expression of named symbols, the rules of the grammar read back to the
  end: the same operands, grouped from the left, with the same value for every assignment of the symbols.
  So the parentheses it leaves out are not needed.\<close>

theorem expr_print_reads_back:
  assumes "printable S e"
  shows "read_expr P_or (expr_print S (Some e) 0) = Some (group_left e, []) \<and>
    expr_calc_value V (Some (group_left e)) = expr_calc_value V (Some e)"
proof -
  have "print_node S e 0 = print_node S e 1"
    by (cases e) simp_all
  moreover have "read_expr P_or (print_node S e 1 @ []) = read_expr (P_or_more (group_left e)) []"
    using printed_reads [OF assms] unfolding reads_or_def follows_def by blast
  ultimately show ?thesis
    by (simp add: expr_print_def expr_calc_value_def group_left_value read_or_end)
qed

theorem expr_print_reads_back_witness:
  "read_expr P_or (expr_print sample_symbols (Some (And (Symbol 5) (And (Or (Symbol 6) (Not (Comp E_LEQ 7 5))) (Not (And (Symbol 8) (Symbol 5)))))) 0) =
     Some (And (And (Symbol 5) (Or (Symbol 6) (Not (Comp E_LEQ 7 5)))) (Not (And (Symbol 8) (Symbol 5))), []) \<and>
   expr_calc_value sample_symbols (Some (And (And (Symbol 5) (Or (Symbol 6) (Not (Comp E_LEQ 7 5)))) (Not (And (Symbol 8) (Symbol 5))))) =
     expr_calc_value sample_symbols (Some (And (Symbol 5) (And (Or (Symbol 6) (Not (Comp E_LEQ 7 5))) (Not (And (Symbol 8) (Symbol 5))))))"
  using expr_print_reads_back [of sample_symbols
      "And (Symbol 5) (And (Or (Symbol 6) (Not (Comp E_LEQ 7 5))) (Not (And (Symbol 8) (Symbol 5))))" sample_symbols]
  by (simp add: sample_symbols_def)

end
