(* ===== verification/KconfigValue.thy ===== *)
theory KconfigValue
  imports KconfigSimp
begin

text \<open>The values of the configuration symbols (config/symbol.c): \<^verbatim>\<open>sym_calc_value\<close> computes a value when it is
  asked for, with the values it depends on, and keeps it in the symbol (SYMBOL_VALID) and in the nodes of the
  expressions. The definitions pass \<^verbatim>\<open>sym_calc_value\<close> along as the argument \<^verbatim>\<open>calc\<close>; the recursion is tied in
  \<^verbatim>\<open>calc_value\<close> by a bound on its depth. The flag of a symbol is set before its dependencies are visited, so
  the depth is at most the number of symbols.

  Not in the model: the texts of warnings, and that two equal texts at different addresses count as a change
  for the flag MENU_CHANGED, which only front ends read.\<close>

subsection \<open>The table of symbols\<close>

datatype prop_type = P_UNKNOWN | P_PROMPT | P_COMMENT | P_MENU | P_DEFAULT | P_SELECT | P_IMPLY | P_RANGE

record property =
  p_type :: prop_type
  p_text :: "string option"
  p_visible :: "expr option"
  p_expr :: "expr option"

text \<open>The rest of \<^verbatim>\<open>struct symbol\<close>: the value of the user (\<^verbatim>\<open>def[S_DEF_USER]\<close>, valid with SYMBOL_DEF_USER), the
  visibility, the three kinds of dependencies, the flags. \<^verbatim>\<open>y_choice_menu\<close> is what
  \<^verbatim>\<open>sym_get_choice_menu\<close> finds in the menus, which do not change any more.\<close>

record entry = symbol +
  y_has_value :: bool
  y_user_tri :: tristate
  y_user_val :: string
  y_visible :: tristate
  y_dir_dep :: "expr option"
  y_dir_tri :: tristate
  y_rev_dep :: "expr option"
  y_rev_tri :: tristate
  y_implied :: "expr option"
  y_implied_tri :: tristate
  y_props :: "property list"
  y_choice_link :: bool
  y_choice_menu :: "nat option"
  y_valid :: bool
  y_write :: bool
  y_changed :: bool

record choice =
  c_sym :: sym
  c_members :: "sym list"
  c_entries :: "sym list"

record ktab =
  k_syms :: "sym \<Rightarrow> entry"
  k_all :: "sym list"
  k_choices :: "nat \<Rightarrow> choice"
  k_modules :: sym
  k_modules_val :: tristate
  k_cache :: "expr \<Rightarrow> tristate option"
  k_warnings :: nat

definition upd_sym :: "sym \<Rightarrow> (entry \<Rightarrow> entry) \<Rightarrow> ktab \<Rightarrow> ktab" where
  "upd_sym a f K = K\<lparr> k_syms := (k_syms K)(a := f (k_syms K a)) \<rparr>"

definition table :: "ktab \<Rightarrow> symbols" where
  "table K = (\<lambda>a. symbol.truncate (k_syms K a))"

definition sym_get_type :: "ktab \<Rightarrow> sym \<Rightarrow> symbol_type" where
  "sym_get_type K a =
     (if s_type (k_syms K a) = S_TRISTATE \<and> k_modules_val K = T_no then S_BOOLEAN else s_type (k_syms K a))"

definition sym_is_choice :: "ktab \<Rightarrow> sym \<Rightarrow> bool" where
  "sym_is_choice K a \<longleftrightarrow> s_name (k_syms K a) = None"

definition prop_get_symbol :: "property \<Rightarrow> sym option" where
  "prop_get_symbol p = (case p_expr p of Some (Symbol a) \<Rightarrow> Some a | _ \<Rightarrow> None)"

subsection \<open>Expressions\<close>

type_synonym calc = "sym \<Rightarrow> ktab \<Rightarrow> ktab option"

type_synonym 'a op = "ktab \<Rightarrow> ('a \<times> ktab) option"

text \<open>\<^verbatim>\<open>expr_calc_value\<close>, with the value kept in the node.\<close>

definition with_cache :: "expr \<Rightarrow> tristate op \<Rightarrow> tristate op" where
  "with_cache e f K =
     (case k_cache K e of
        Some v \<Rightarrow> Some (v, K)
      | None \<Rightarrow> do { (v, K) \<leftarrow> f K; Some (v, K\<lparr> k_cache := (k_cache K)(e := Some v) \<rparr>) })"

primrec calc_expr :: "calc \<Rightarrow> expr \<Rightarrow> tristate op" where
  "calc_expr calc (Symbol a) = with_cache (Symbol a) (\<lambda>K. do { K \<leftarrow> calc a K; Some (s_tri (k_syms K a), K) })"
| "calc_expr calc (And l r) = with_cache (And l r)
     (\<lambda>K. do { (v1, K) \<leftarrow> calc_expr calc l K; (v2, K) \<leftarrow> calc_expr calc r K; Some (EXPR_AND v1 v2, K) })"
| "calc_expr calc (Or l r) = with_cache (Or l r)
     (\<lambda>K. do { (v1, K) \<leftarrow> calc_expr calc l K; (v2, K) \<leftarrow> calc_expr calc r K; Some (EXPR_OR v1 v2, K) })"
| "calc_expr calc (Not e) = with_cache (Not e) (\<lambda>K. do { (v1, K) \<leftarrow> calc_expr calc e K; Some (EXPR_NOT v1, K) })"
| "calc_expr calc (Comp rel a b) = with_cache (Comp rel a b)
     (\<lambda>K. do { K \<leftarrow> calc a K; K \<leftarrow> calc b K;
               Some (if holds_rel rel (sym_cmp (table K) a b) then T_yes else T_no, K) })"
| "calc_expr calc (Range a b) = with_cache (Range a b) (\<lambda>K. Some (T_no, K))"

definition calc_opt :: "calc \<Rightarrow> expr option \<Rightarrow> tristate op" where
  "calc_opt calc e K = (case e of None \<Rightarrow> Some (T_yes, K) | Some e \<Rightarrow> calc_expr calc e K)"

subsection \<open>Properties of a symbol\<close>

text \<open>The first property of a kind whose condition is not n, with the value of the condition.\<close>

primrec first_visible :: "calc \<Rightarrow> property list \<Rightarrow> (property \<times> tristate) option op" where
  "first_visible calc [] K = Some (None, K)"
| "first_visible calc (p # ps) K = do {
     (tri, K) \<leftarrow> calc_opt calc (p_visible p) K;
     if tri \<noteq> T_no then Some (Some (p, tri), K) else first_visible calc ps K }"

definition props_of :: "prop_type \<Rightarrow> entry \<Rightarrow> property list" where
  "props_of t y = filter (\<lambda>p. p_type p = t) (y_props y)"

definition sym_get_default_prop :: "calc \<Rightarrow> sym \<Rightarrow> (property \<times> tristate) option op" where
  "sym_get_default_prop calc a K = first_visible calc (props_of P_DEFAULT (k_syms K a)) K"

definition sym_get_range_prop :: "calc \<Rightarrow> sym \<Rightarrow> (property \<times> tristate) option op" where
  "sym_get_range_prop calc a K = first_visible calc (props_of P_RANGE (k_syms K a)) K"

definition strtoll :: "nat \<Rightarrow> string \<Rightarrow> int" where
  "strtoll base s = max (-9223372036854775808) (min 9223372036854775807 (fst (strto base s)))"

definition base_of :: "symbol_type \<Rightarrow> nat option" where
  "base_of t = (if t = S_INT then Some 10 else if t = S_HEX then Some 16 else None)"

definition sym_get_range_val :: "calc \<Rightarrow> sym \<Rightarrow> nat \<Rightarrow> int op" where
  "sym_get_range_val calc a base K = do {
     K \<leftarrow> calc a K;
     let base = (case base_of (s_type (k_syms K a)) of Some b \<Rightarrow> b | None \<Rightarrow> base);
     Some (strtoll base (s_val (k_syms K a)), K) }"

text \<open>A value out of its range becomes the bound that it violates. The parser gives a range two symbols.\<close>

definition sym_validate_range :: "calc \<Rightarrow> sym \<Rightarrow> ktab \<Rightarrow> ktab option" where
  "sym_validate_range calc a K =
     (case base_of (s_type (k_syms K a)) of
        None \<Rightarrow> Some K
      | Some base \<Rightarrow> do {
          (p, K) \<leftarrow> sym_get_range_prop calc a K;
          (case p of
             None \<Rightarrow> Some K
           | Some (p, _) \<Rightarrow>
               (case p_expr p of
                  Some (Range l r) \<Rightarrow> do {
                    let val = strtoll base (s_val (k_syms K a));
                    (val2, K) \<leftarrow> sym_get_range_val calc l base K;
                    if val \<ge> val2 then do {
                      (val2, K) \<leftarrow> sym_get_range_val calc r base K;
                      if val \<le> val2 then Some K
                      else Some (upd_sym a (s_val_update (\<lambda>_. s_val (k_syms K r))) K) }
                    else Some (upd_sym a (s_val_update (\<lambda>_. s_val (k_syms K l))) K) }
                | _ \<Rightarrow> None)) })"

subsection \<open>Visibility\<close>

primrec prompts_visible :: "calc \<Rightarrow> property list \<Rightarrow> tristate \<Rightarrow> tristate op" where
  "prompts_visible calc [] tri K = Some (tri, K)"
| "prompts_visible calc (p # ps) tri K = do {
     (v, K) \<leftarrow> calc_opt calc (p_visible p) K;
     prompts_visible calc ps (EXPR_OR tri v) K }"

definition promote :: "ktab \<Rightarrow> sym \<Rightarrow> tristate \<Rightarrow> tristate" where
  "promote K a tri = (if tri = T_mod \<and> sym_get_type K a = S_BOOLEAN then T_yes else tri)"

text \<open>Without an expression the direct dependency is y, the reverse ones are n. \<^verbatim>\<open>get\<close> and \<^verbatim>\<open>put\<close> name the
  member that keeps the value.\<close>

definition calc_dep ::
  "calc \<Rightarrow> sym \<Rightarrow> (entry \<Rightarrow> expr option) \<Rightarrow> tristate \<Rightarrow> (entry \<Rightarrow> tristate) \<Rightarrow> ((tristate \<Rightarrow> tristate) \<Rightarrow> entry \<Rightarrow> entry) \<Rightarrow>
   ktab \<Rightarrow> ktab option" where
  "calc_dep calc a dep none get put K = do {
     (tri, K) \<leftarrow> (case dep (k_syms K a) of None \<Rightarrow> Some (none, K) | Some e \<Rightarrow> calc_expr calc e K);
     let tri = promote K a tri;
     Some (upd_sym a (\<lambda>y. put (\<lambda>_. tri) (y\<lparr> y_changed := y_changed y \<or> get y \<noteq> tri \<rparr>)) K) }"

definition sym_calc_visibility :: "calc \<Rightarrow> sym \<Rightarrow> ktab \<Rightarrow> ktab option" where
  "sym_calc_visibility calc a K = do {
     (tri, K) \<leftarrow> prompts_visible calc (filter (\<lambda>p. p_text p \<noteq> None) (y_props (k_syms K a))) T_no K;
     let tri = (if tri = T_mod \<and> (s_type (k_syms K a) \<noteq> S_TRISTATE \<or> k_modules_val K = T_no) then T_yes else tri);
     let K = upd_sym a (\<lambda>y. y\<lparr> y_visible := tri, y_changed := y_changed y \<or> y_visible y \<noteq> tri \<rparr>) K;
     if y_choice_link (k_syms K a) then Some K
     else do {
       K \<leftarrow> calc_dep calc a y_dir_dep T_yes y_dir_tri y_dir_tri_update K;
       K \<leftarrow> calc_dep calc a y_rev_dep T_no y_rev_tri y_rev_tri_update K;
       calc_dep calc a y_implied T_no y_implied_tri y_implied_tri_update K } }"

subsection \<open>Choices\<close>

definition shown :: "ktab \<Rightarrow> sym \<Rightarrow> bool" where
  "shown K a \<longleftrightarrow> y_visible (k_syms K a) \<noteq> T_no"

primrec choice_default :: "calc \<Rightarrow> property list \<Rightarrow> sym option op" where
  "choice_default calc [] K = Some (None, K)"
| "choice_default calc (p # ps) K = do {
     (tri, K) \<leftarrow> calc_opt calc (p_visible p) K;
     if tri = T_no then choice_default calc ps K
     else (case prop_get_symbol p of
             None \<Rightarrow> None
           | Some d \<Rightarrow> if shown K d then Some (Some d, K) else choice_default calc ps K) }"

definition sym_choice_default :: "calc \<Rightarrow> choice \<Rightarrow> sym option op" where
  "sym_choice_default calc c K = do {
     (d, K) \<leftarrow> choice_default calc (props_of P_DEFAULT (k_syms K (c_sym c))) K;
     Some (if d \<noteq> None then d else List.find (shown K) (c_entries c), K) }"

primrec choice_user :: "calc \<Rightarrow> sym list \<Rightarrow> sym option op" where
  "choice_user calc [] K = Some (None, K)"
| "choice_user calc (a # as) K = do {
     K \<leftarrow> sym_calc_visibility calc a K;
     if shown K a \<and> y_has_value (k_syms K a) \<and> y_user_tri (k_syms K a) = T_yes then Some (Some a, K)
     else choice_user calc as K }"

definition set_choice :: "sym option \<Rightarrow> sym \<Rightarrow> ktab \<Rightarrow> ktab" where
  "set_choice res a K =
     (if shown K a
      then let val = (if Some a = res then T_yes else T_no)
           in upd_sym a (\<lambda>y. y\<lparr> s_tri := val, y_changed := y_changed y \<or> s_tri y \<noteq> val, y_valid := True, y_write := True \<rparr>) K
      else K)"

definition sym_calc_choice :: "calc \<Rightarrow> choice \<Rightarrow> sym option op" where
  "sym_calc_choice calc c K = do {
     (res, K) \<leftarrow> choice_user calc (c_members c) K;
     (res, K) \<leftarrow>
       (if res \<noteq> None then Some (res, K)
        else do {
          (d, K) \<leftarrow> sym_choice_default calc c K;
          Some (case d of None \<Rightarrow> None
                | Some a \<Rightarrow> if y_has_value (k_syms K a) \<and> y_user_tri (k_syms K a) = T_no then None else d, K) });
     let res = (if res \<noteq> None then res else List.find (\<lambda>a. shown K a \<and> \<not> y_has_value (k_syms K a)) (c_entries c));
     let res = (if res \<noteq> None then res else List.find (shown K) (rev (c_members c)));
     Some (res, fold (set_choice res) (c_entries c) K) }"

subsection \<open>sym_calc_value\<close>

definition initial_val :: "symbol_type \<Rightarrow> string" where
  "initial_val t = (case t of S_INT \<Rightarrow> ''0'' | S_HEX \<Rightarrow> ''0x0'' | S_STRING \<Rightarrow> '''' | _ \<Rightarrow> ''n'')"

abbreviation set_write :: "sym \<Rightarrow> ktab \<Rightarrow> ktab" where
  "set_write a \<equiv> upd_sym a (y_write_update (\<lambda>_. True))"

text \<open>The value of a bool or tristate that is neither visible with a value of the user nor in a choice.\<close>

definition calc_default_tri :: "calc \<Rightarrow> sym \<Rightarrow> tristate op" where
  "calc_default_tri calc a K =
     (let K = (if y_rev_tri (k_syms K a) \<noteq> T_no then set_write a K else K)
      in if sym_is_choice K a then Some (T_no, K)
         else do {
           (p, K) \<leftarrow> sym_get_default_prop calc a K;
           (tri, K) \<leftarrow>
             (case p of
                None \<Rightarrow> Some (T_no, K)
              | Some (p, cond) \<Rightarrow> do {
                  (v, K) \<leftarrow> calc_opt calc (p_expr p) K;
                  let tri = EXPR_AND v cond;
                  Some (tri, if tri \<noteq> T_no then set_write a K else K) });
           let y = k_syms K a;
           if y_implied_tri y \<noteq> T_no
           then Some (EXPR_AND (EXPR_OR tri (y_implied_tri y)) (y_dir_tri y), set_write a K)
           else Some (tri, K) })"

definition calc_tristate :: "calc \<Rightarrow> sym \<Rightarrow> tristate op" where
  "calc_tristate calc a K = do {
     (tri, K) \<leftarrow>
       (case y_choice_menu (k_syms K a) of
          Some c \<Rightarrow> do {
            (_, K) \<leftarrow> sym_calc_choice calc (k_choices K c) K;
            Some (s_tri (k_syms K a), K) }
        | None \<Rightarrow> do {
            (tri, K) \<leftarrow>
              (if shown K a \<and> y_has_value (k_syms K a)
               then Some (EXPR_AND (y_user_tri (k_syms K a)) (y_visible (k_syms K a)), K)
               else calc_default_tri calc a K);
            let y = k_syms K a;
            let K = (if y_dir_tri y < y_rev_tri y then K\<lparr> k_warnings := k_warnings K + 1 \<rparr> else K);
            Some (EXPR_OR tri (y_rev_tri y), K) });
     Some (promote K a tri, K) }"

definition calc_text :: "calc \<Rightarrow> sym \<Rightarrow> string \<Rightarrow> string op" where
  "calc_text calc a val K =
     (if shown K a \<and> y_has_value (k_syms K a) then Some (y_user_val (k_syms K a), K)
      else do {
        (p, K) \<leftarrow> sym_get_default_prop calc a K;
        (case p of
           None \<Rightarrow> Some (val, K)
         | Some (p, _) \<Rightarrow>
             (case prop_get_symbol p of
                None \<Rightarrow> Some (val, K)
              | Some ds \<Rightarrow> do {
                  K \<leftarrow> calc ds (set_write a K);
                  Some (s_val (k_syms K ds), K) })) })"

definition is_tri :: "symbol_type \<Rightarrow> bool" where
  "is_tri t \<longleftrightarrow> t = S_BOOLEAN \<or> t = S_TRISTATE"

definition set_curr :: "sym \<Rightarrow> tristate \<Rightarrow> string \<Rightarrow> ktab \<Rightarrow> ktab" where
  "set_curr a tri val = upd_sym a (\<lambda>y. y\<lparr> s_tri := tri, s_val := val \<rparr>)"

text \<open>The changed flags, and what the value of the symbol MODULES switches.\<close>

definition finish_value :: "sym \<Rightarrow> tristate \<times> string \<Rightarrow> ktab \<Rightarrow> ktab" where
  "finish_value a oldval K =
     (let y = k_syms K a;
          K = (if oldval = (s_tri y, s_val y) then K
               else let K = upd_sym a (y_changed_update (\<lambda>_. True)) K
                    in if k_modules K = a
                       then (fold (\<lambda>b. upd_sym b (y_changed_update (\<lambda>_. True))) (k_all K) K)\<lparr> k_modules_val := s_tri y \<rparr>
                       else K)
      in if sym_is_choice K a then upd_sym a (y_write_update (\<lambda>_. False)) K else K)"

definition calc_new :: "calc \<Rightarrow> sym \<Rightarrow> string \<Rightarrow> (tristate \<times> string) op" where
  "calc_new calc a val K =
     (if is_tri (sym_get_type K a)
      then do { (tri, K) \<leftarrow> calc_tristate calc a K; Some ((tri, val), K) }
      else do { (val, K) \<leftarrow> calc_text calc a val K; Some ((T_no, val), K) })"

definition calc_known :: "calc \<Rightarrow> sym \<Rightarrow> ktab \<Rightarrow> ktab option" where
  "calc_known calc a K = do {
     let oldval = (s_tri (k_syms K a), s_val (k_syms K a));
     let val = initial_val (s_type (k_syms K a));
     K \<leftarrow> sym_calc_visibility calc a (upd_sym a (y_write_update (\<lambda>_. False)) K);
     let K = (if shown K a then set_write a K else K);
     let K = set_curr a T_no val K;
     (new, K) \<leftarrow> calc_new calc a val K;
     K \<leftarrow> sym_validate_range calc a (set_curr a (fst new) (snd new) K);
     Some (finish_value a oldval K) }"

primrec calc_value :: "nat \<Rightarrow> calc" where
  "calc_value 0 a K = None"
| "calc_value (Suc n) a K =
     (if y_valid (k_syms K a) then Some K
      else let K = upd_sym a (y_valid_update (\<lambda>_. True)) K; y = k_syms K a
           in if s_type y = S_UNKNOWN
              then Some (set_curr a T_no (case s_name y of Some n \<Rightarrow> n | None \<Rightarrow> '''') K)
              else calc_known (calc_value n) a K)"

definition sym_calc_value :: "sym \<Rightarrow> ktab \<Rightarrow> ktab option" where
  "sym_calc_value a K = calc_value (Suc (length (k_all K))) a K"

definition sym_clear_all_valid :: "ktab \<Rightarrow> ktab option" where
  "sym_clear_all_valid K =
     sym_calc_value (k_modules K)
       ((fold (\<lambda>a. upd_sym a (y_valid_update (\<lambda>_. False))) (k_all K) K)\<lparr> k_cache := \<lambda>_. None \<rparr>)"

subsection \<open>What a calculation keeps\<close>

text \<open>The part of the table that no calculation changes.\<close>

definition static_entry :: "entry \<Rightarrow> entry" where
  "static_entry y = y\<lparr> s_tri := T_no, s_val := [], y_visible := T_no, y_dir_tri := T_no, y_rev_tri := T_no,
     y_implied_tri := T_no, y_valid := False, y_write := False, y_changed := False \<rparr>"

definition static :: "ktab \<Rightarrow> ktab" where
  "static K = K\<lparr> k_syms := (\<lambda>a. static_entry (k_syms K a)), k_modules_val := T_no, k_cache := (\<lambda>_. None), k_warnings := 0 \<rparr>"

definition valid :: "ktab \<Rightarrow> sym \<Rightarrow> bool" where
  "valid K a \<longleftrightarrow> y_valid (k_syms K a)"

definition same_entry :: "entry \<Rightarrow> entry \<Rightarrow> bool" where
  "same_entry y y' \<longleftrightarrow> y\<lparr> y_changed := False \<rparr> = y'\<lparr> y_changed := False \<rparr>"

definition bool_ok :: "ktab \<Rightarrow> bool" where
  "bool_ok K \<longleftrightarrow> (\<forall>a. s_type (k_syms K a) = S_BOOLEAN \<longrightarrow> s_tri (k_syms K a) \<noteq> T_mod)"

definition keeps :: "sym set \<Rightarrow> ktab \<Rightarrow> ktab \<Rightarrow> bool" where
  "keeps X K K' \<longleftrightarrow> static K' = static K \<and> (\<forall>a. valid K a \<longrightarrow> valid K' a) \<and> (bool_ok K \<longrightarrow> bool_ok K') \<and>
     (\<forall>a. valid K a \<and> a \<notin> X \<and> \<not> y_choice_link (k_syms K a) \<longrightarrow> same_entry (k_syms K' a) (k_syms K a))"

text \<open>What the parser guarantees: the members and entries of a choice are linked to it, the defaults of a choice are
  symbols, and a range is between two symbols.\<close>

definition wf_tab :: "ktab \<Rightarrow> bool" where
  "wf_tab K \<longleftrightarrow>
     (\<forall>a c. y_choice_menu (k_syms K a) = Some c \<longrightarrow>
        (\<forall>b \<in> set (c_members (k_choices K c)) \<union> set (c_entries (k_choices K c)). y_choice_link (k_syms K b)) \<and>
        (\<forall>p \<in> set (props_of P_DEFAULT (k_syms K (c_sym (k_choices K c)))). prop_get_symbol p \<noteq> None)) \<and>
     (\<forall>a. \<forall>p \<in> set (props_of P_RANGE (k_syms K a)). \<exists>l r. p_expr p = Some (Range l r))"

lemma static_entry_sel:
  "s_name (static_entry y) = s_name y"
  "s_type (static_entry y) = s_type y"
  "s_const (static_entry y) = s_const y"
  "y_has_value (static_entry y) = y_has_value y"
  "y_user_tri (static_entry y) = y_user_tri y"
  "y_user_val (static_entry y) = y_user_val y"
  "y_dir_dep (static_entry y) = y_dir_dep y"
  "y_rev_dep (static_entry y) = y_rev_dep y"
  "y_implied (static_entry y) = y_implied y"
  "y_props (static_entry y) = y_props y"
  "y_choice_link (static_entry y) = y_choice_link y"
  "y_choice_menu (static_entry y) = y_choice_menu y"
  "props_of t (static_entry y) = props_of t y"
  by (simp_all add: static_entry_def props_of_def)

lemma static_dyn [simp]:
  "static_entry (y\<lparr> s_tri := v0 \<rparr>) = static_entry y"
  "static_entry (y\<lparr> s_val := v1 \<rparr>) = static_entry y"
  "static_entry (y\<lparr> y_visible := v2 \<rparr>) = static_entry y"
  "static_entry (y\<lparr> y_dir_tri := v3 \<rparr>) = static_entry y"
  "static_entry (y\<lparr> y_rev_tri := v4 \<rparr>) = static_entry y"
  "static_entry (y\<lparr> y_implied_tri := v5 \<rparr>) = static_entry y"
  "static_entry (y\<lparr> y_valid := v6 \<rparr>) = static_entry y"
  "static_entry (y\<lparr> y_write := v7 \<rparr>) = static_entry y"
  "static_entry (y\<lparr> y_changed := v8 \<rparr>) = static_entry y"
  by (simp_all add: static_entry_def)

lemma static_entryD:
  assumes "static_entry y' = static_entry y"
  shows "s_name y' = s_name y" "s_type y' = s_type y" "s_const y' = s_const y" "y_has_value y' = y_has_value y" "y_user_tri y' = y_user_tri y" "y_user_val y' = y_user_val y" "y_dir_dep y' = y_dir_dep y" "y_rev_dep y' = y_rev_dep y" "y_implied y' = y_implied y" "y_props y' = y_props y" "y_choice_link y' = y_choice_link y" "y_choice_menu y' = y_choice_menu y"
    "props_of t y' = props_of t y"
  using arg_cong [OF assms, of s_name] arg_cong [OF assms, of s_type] arg_cong [OF assms, of s_const] arg_cong [OF assms, of y_has_value] arg_cong [OF assms, of y_user_tri] arg_cong [OF assms, of y_user_val] arg_cong [OF assms, of y_dir_dep] arg_cong [OF assms, of y_rev_dep] arg_cong [OF assms, of y_implied] arg_cong [OF assms, of y_props] arg_cong [OF assms, of y_choice_link] arg_cong [OF assms, of y_choice_menu]
    arg_cong [OF assms, of "props_of t"]
  by (simp_all only: static_entry_sel)

lemma static_sel:
  "k_all (static K) = k_all K" "k_choices (static K) = k_choices K" "k_modules (static K) = k_modules K"
  "k_syms (static K) a = static_entry (k_syms K a)"
  by (simp_all add: static_def)

lemma staticD:
  assumes "static K' = static K"
  shows "k_all K' = k_all K" "k_choices K' = k_choices K" "k_modules K' = k_modules K"
    "static_entry (k_syms K' a) = static_entry (k_syms K a)"
  using arg_cong [OF assms, of k_all] arg_cong [OF assms, of k_choices] arg_cong [OF assms, of k_modules]
    arg_cong [OF assms, of "\<lambda>K. k_syms K a"]
  by (simp_all only: static_sel)

lemma staticI:
  assumes "k_all K' = k_all K" "k_choices K' = k_choices K" "k_modules K' = k_modules K"
    "\<And>a. static_entry (k_syms K' a) = static_entry (k_syms K a)"
  shows "static K' = static K"
  using assms by (simp add: static_def)

lemmas keeps_same = staticD static_entryD [OF staticD(4)]

lemma keeps_static: "keeps X K K' \<Longrightarrow> static K' = static K"
  by (simp add: keeps_def)

lemma same_entryD:
  assumes "same_entry y' y"
  shows "static_entry y' = static_entry y"
    "s_tri y' = s_tri y" "s_val y' = s_val y" "y_visible y' = y_visible y" "y_dir_tri y' = y_dir_tri y" "y_rev_tri y' = y_rev_tri y" "y_implied_tri y' = y_implied_tri y" "y_valid y' = y_valid y" "y_write y' = y_write y"
proof -
  have eq: "y'\<lparr> y_changed := False \<rparr> = y\<lparr> y_changed := False \<rparr>"
    using assms by (simp add: same_entry_def)
  show "s_tri y' = s_tri y" "s_val y' = s_val y" "y_visible y' = y_visible y" "y_dir_tri y' = y_dir_tri y" "y_rev_tri y' = y_rev_tri y" "y_implied_tri y' = y_implied_tri y" "y_valid y' = y_valid y" "y_write y' = y_write y"
    using arg_cong [OF eq, of s_tri] arg_cong [OF eq, of s_val] arg_cong [OF eq, of y_visible] arg_cong [OF eq, of y_dir_tri] arg_cong [OF eq, of y_rev_tri] arg_cong [OF eq, of y_implied_tri] arg_cong [OF eq, of y_valid] arg_cong [OF eq, of y_write] by simp_all
  show "static_entry y' = static_entry y"
    using arg_cong [OF eq, of static_entry] by (simp add: static_entry_def)
qed

lemma same_entry_refl [simp]: "same_entry y y"
  by (simp add: same_entry_def)

lemma keeps_refl [simp]: "keeps X K K"
  by (simp add: keeps_def)

lemma keeps_trans: "keeps X K K1 \<Longrightarrow> keeps X K1 K2 \<Longrightarrow> keeps X K K2"
  unfolding keeps_def same_entry_def by (metis keeps_same(15))

lemma keeps_mono: "keeps X K K' \<Longrightarrow> X \<subseteq> Y \<Longrightarrow> keeps Y K K'"
  by (auto simp: keeps_def)

lemma wf_static: "static K' = static K \<Longrightarrow> wf_tab K' = wf_tab K"
  unfolding wf_tab_def by (simp only: keeps_same [of K' K])

lemma syms_upd [simp]: "k_syms (upd_sym a f K) b = (if b = a then f (k_syms K a) else k_syms K b)"
  by (simp add: upd_sym_def)

lemma tab_upd [simp]:
  "k_all (upd_sym a f K) = k_all K" "k_choices (upd_sym a f K) = k_choices K" "k_modules (upd_sym a f K) = k_modules K"
  "k_modules_val (upd_sym a f K) = k_modules_val K" "k_cache (upd_sym a f K) = k_cache K" "k_warnings (upd_sym a f K) = k_warnings K"
  by (simp_all add: upd_sym_def)

lemma keeps_upd:
  assumes "static_entry (f (k_syms K a)) = static_entry (k_syms K a)" "y_valid (k_syms K a) \<longrightarrow> y_valid (f (k_syms K a))"
    and "s_type (k_syms K a) = S_BOOLEAN \<longrightarrow> s_tri (k_syms K a) \<noteq> T_mod \<longrightarrow> s_tri (f (k_syms K a)) \<noteq> T_mod"
    and "a \<in> X \<or> \<not> y_valid (k_syms K a) \<or> y_choice_link (k_syms K a) \<or> same_entry (f (k_syms K a)) (k_syms K a)"
  shows "keeps X K (upd_sym a f K)"
proof -
  have "static (upd_sym a f K) = static K"
    using assms(1) by (intro staticI) simp_all
  then show ?thesis
    using assms(2-4) static_entryD(2) [OF assms(1)] by (auto simp: keeps_def valid_def bool_ok_def)
qed

lemma keeps_other:
  "keeps X K (K\<lparr> k_cache := c \<rparr>)" "keeps X K (K\<lparr> k_warnings := n \<rparr>)" "keeps X K (K\<lparr> k_modules_val := v \<rparr>)"
  by (simp_all add: keeps_def valid_def bool_ok_def static_def)

end
