(* ===== verification/KconfigCalc.thy ===== *)
theory KconfigCalc
  imports KconfigValue
begin

text \<open>Properties of \<^verbatim>\<open>sym_calc_value\<close>: it returns, whatever the dependencies are. The locale \<^verbatim>\<open>calculation\<close> states what
  the operations of KconfigValue need of their argument; they meet it themselves, one level up, so that the
  interpretation at the end is by induction on the depth.\<close>

text \<open>An operation that returns, with or without a value, keeps the table, and gives what \<^verbatim>\<open>Q\<close> says.\<close>

definition goes :: "sym set \<Rightarrow> ktab \<Rightarrow> ('a \<times> ktab) option \<Rightarrow> ('a \<Rightarrow> ktab \<Rightarrow> bool) \<Rightarrow> bool" where
  "goes X K r Q \<longleftrightarrow> (\<exists>x K'. r = Some (x, K') \<and> keeps X K K' \<and> Q x K')"

definition runs :: "sym set \<Rightarrow> ktab \<Rightarrow> ktab option \<Rightarrow> (ktab \<Rightarrow> bool) \<Rightarrow> bool" where
  "runs X K r Q \<longleftrightarrow> (\<exists>K'. r = Some K' \<and> keeps X K K' \<and> Q K')"

named_theorems going

lemma goes_Some [going]: "keeps X K K' \<Longrightarrow> Q x K' \<Longrightarrow> goes X K (Some (x, K')) Q"
  by (simp add: goes_def)

lemma runs_Some [going]: "keeps X K K' \<Longrightarrow> Q K' \<Longrightarrow> runs X K (Some K') Q"
  by (simp add: runs_def)

lemma goes_bind:
  assumes "goes X K r Q" "\<And>x K'. keeps X K K' \<Longrightarrow> Q x K' \<Longrightarrow> goes X K' (f (x, K')) R"
  shows "goes X K (r \<bind> f) R"
  using assms unfolding goes_def by (auto intro: keeps_trans) (blast intro: keeps_trans)

lemma goes_runs_bind:
  assumes "goes X K r Q" "\<And>x K'. keeps X K K' \<Longrightarrow> Q x K' \<Longrightarrow> runs X K' (f (x, K')) R"
  shows "runs X K (r \<bind> f) R"
  using assms unfolding goes_def runs_def by (auto intro: keeps_trans) (blast intro: keeps_trans)

lemma runs_bind:
  assumes "runs X K r Q" "\<And>K'. keeps X K K' \<Longrightarrow> Q K' \<Longrightarrow> runs X K' (f K') R"
  shows "runs X K (r \<bind> f) R"
  using assms unfolding runs_def by (auto intro: keeps_trans) (blast intro: keeps_trans)

lemma runs_goes_bind:
  assumes "runs X K r Q" "\<And>K'. keeps X K K' \<Longrightarrow> Q K' \<Longrightarrow> goes X K' (f K') R"
  shows "goes X K (r \<bind> f) R"
  using assms unfolding goes_def runs_def by (auto intro: keeps_trans) (blast intro: keeps_trans)

lemma goes_from: "keeps X K K1 \<Longrightarrow> goes X K1 r Q \<Longrightarrow> goes X K r Q"
  unfolding goes_def by (blast intro: keeps_trans)

lemma runs_from: "keeps X K K1 \<Longrightarrow> runs X K1 r Q \<Longrightarrow> runs X K r Q"
  unfolding runs_def by (blast intro: keeps_trans)

lemma goes_mono: "goes X K r Q \<Longrightarrow> X \<subseteq> Y \<Longrightarrow> (\<And>x K'. keeps X K K' \<Longrightarrow> Q x K' \<Longrightarrow> R x K') \<Longrightarrow> goes Y K r R"
  unfolding goes_def by (blast intro: keeps_mono)

lemma runs_mono: "runs X K r Q \<Longrightarrow> X \<subseteq> Y \<Longrightarrow> (\<And>K'. keeps X K K' \<Longrightarrow> Q K' \<Longrightarrow> R K') \<Longrightarrow> runs Y K r R"
  unfolding runs_def by (blast intro: keeps_mono)

locale calculation =
  fixes calc :: calc and P :: "ktab \<Rightarrow> bool"
  assumes calc_runs: "P K \<Longrightarrow> runs {} K (calc a K) (\<lambda>K'. valid K' a)"
    and P_keeps: "P K \<Longrightarrow> keeps X K K' \<Longrightarrow> P K'"
    and P_wf: "P K \<Longrightarrow> wf_tab K"
begin

lemma calc_runs_X: "P K \<Longrightarrow> runs X K (calc a K) (\<lambda>K'. P K' \<and> valid K' a)"
  by (rule runs_mono [OF calc_runs]) (auto intro: P_keeps)

lemma with_cache_goes:
  assumes "P K" "\<And>K. P K \<Longrightarrow> goes X K (f K) (\<lambda>_. P)"
  shows "goes X K (with_cache e f K) (\<lambda>_. P)"
proof (cases "k_cache K e")
  case None
  then have "with_cache e f K = f K \<bind> (\<lambda>(v, K). Some (v, K\<lparr> k_cache := (k_cache K)(e := Some v) \<rparr>))"
    by (simp add: with_cache_def)
  then show ?thesis
    by (auto intro!: goes_bind [OF assms(2) [OF assms(1)]] goes_Some keeps_other intro: P_keeps [OF _ keeps_other(1)])
qed (use assms in \<open>simp add: with_cache_def goes_Some\<close>)

lemma calc_expr_goes: "P K \<Longrightarrow> goes X K (calc_expr calc e K) (\<lambda>_. P)"
proof (induction e arbitrary: K)
  case (Comp rel a b)
  show ?case
    by (auto intro!: with_cache_goes Comp runs_goes_bind [OF calc_runs_X] goes_Some)
next
  case (Symbol a)
  show ?case
    by (auto intro!: with_cache_goes Symbol runs_goes_bind [OF calc_runs_X] goes_Some)
qed (auto intro!: with_cache_goes goes_bind goes_Some)

lemma calc_opt_goes: "P K \<Longrightarrow> goes X K (calc_opt calc e K) (\<lambda>_. P)"
  by (cases e) (auto simp: calc_opt_def intro: calc_expr_goes goes_Some)

definition found :: "property list \<Rightarrow> (property \<times> tristate) option \<Rightarrow> bool" where
  "found ps r = (case r of None \<Rightarrow> True | Some (p, v) \<Rightarrow> p \<in> set ps)"

lemma first_visible_goes: "P K \<Longrightarrow> goes X K (first_visible calc ps K) (\<lambda>r K'. P K' \<and> found ps r)"
proof (induction ps arbitrary: K)
  case (Cons q ps)
  have "found (q # ps) r" if "found ps r" for r
    using that by (auto simp: found_def split: option.splits)
  then show ?case
    by (auto intro!: goes_bind [OF calc_opt_goes [OF Cons.prems]] goes_Some goes_mono [OF Cons.IH] simp: found_def [of _ "Some _"])
qed (simp add: goes_Some found_def)

lemma first_visible_P: "P K \<Longrightarrow> goes X K (first_visible calc ps K) (\<lambda>_. P)"
  by (rule goes_mono [OF first_visible_goes]) auto

lemma prompts_visible_goes: "P K \<Longrightarrow> goes X K (prompts_visible calc ps tri K) (\<lambda>_. P)"
  by (induction ps arbitrary: K tri) (auto intro!: goes_bind [OF calc_opt_goes] goes_Some)

lemma calc_dep_runs:
  assumes "P K" "a \<in> X \<or> y_choice_link (k_syms K a)"
    and "\<And>y v. static_entry (put (\<lambda>_. v) y) = static_entry y" "\<And>y v. y_valid (put (\<lambda>_. v) y) = y_valid y"
      "\<And>y v. s_tri (put (\<lambda>_. v) y) = s_tri y"
  shows "runs X K (calc_dep calc a dep none get put K) P"
proof -
  have e: "goes X K (case dep (k_syms K a) of None \<Rightarrow> Some (none, K) | Some e \<Rightarrow> calc_expr calc e K) (\<lambda>_. P)"
    using assms(1) by (auto split: option.splits intro: goes_Some calc_expr_goes)
  show ?thesis
    unfolding calc_dep_def Let_def
  proof (rule goes_runs_bind [OF e], unfold prod.case)
    fix tri K'
    assume K': "keeps X K K'" "P K'"
    have "keeps X K' (upd_sym a (\<lambda>y. put (\<lambda>_. v) (y\<lparr> y_changed := y_changed y \<or> get y \<noteq> v \<rparr>)) K')" for v
      using assms(2) keeps_same(15) [OF keeps_static [OF K'(1)], of a]
      by (intro keeps_upd) (auto simp: assms(3-5))
    then show "runs X K' (Some (upd_sym a (\<lambda>y. put (\<lambda>_. promote K' a tri)
        (y\<lparr> y_changed := y_changed y \<or> get y \<noteq> promote K' a tri \<rparr>)) K')) P"
      using P_keeps [OF K'(2)] by (auto intro!: runs_Some)
  qed
qed

lemma sym_calc_visibility_runs:
  assumes "P K" "a \<in> X \<or> y_choice_link (k_syms K a)"
  shows "runs X K (sym_calc_visibility calc a K) P"
  unfolding sym_calc_visibility_def Let_def
proof (rule goes_runs_bind [OF prompts_visible_goes [OF assms(1)]], unfold prod.case)
  fix tri K1
  assume K1: "keeps X K K1" "P K1"
  define v where "v = (if tri = T_mod \<and> (s_type (k_syms K1 a) \<noteq> S_TRISTATE \<or> k_modules_val K1 = T_no) then T_yes else tri)"
  define K2 where "K2 = upd_sym a (\<lambda>y. y\<lparr> y_visible := v, y_changed := y_changed y \<or> y_visible y \<noteq> v \<rparr>) K1"
  have K2: "keeps X K1 K2"
    unfolding K2_def using assms(2) keeps_same(15) [OF keeps_static [OF K1(1)], of a]
    by (intro keeps_upd) auto
  have dep: "runs X K2 (do {
       K \<leftarrow> calc_dep calc a y_dir_dep T_yes y_dir_tri y_dir_tri_update K2;
       K \<leftarrow> calc_dep calc a y_rev_dep T_no y_rev_tri y_rev_tri_update K;
       calc_dep calc a y_implied T_no y_implied_tri y_implied_tri_update K }) P"
  proof -
    have 1: "runs X K' (calc_dep calc a dep none get put K') P"
      if "keeps X K K'" "P K'" "\<And>y v. static_entry (put (\<lambda>_. v) y) = static_entry y" "\<And>y v. y_valid (put (\<lambda>_. v) y) = y_valid y"
        "\<And>y v. s_tri (put (\<lambda>_. v) y) = s_tri y" for dep none get put K'
      using assms(2) keeps_same(15) [OF keeps_static [OF that(1)], of a] by (intro calc_dep_runs that) auto
    have K: "keeps X K K2" "P K2"
      using K1 K2 by (auto intro: keeps_trans P_keeps)
    show ?thesis
      by (rule runs_bind [OF 1], rule K, rule K, simp_all, rule runs_bind [OF 1])
        (auto intro!: 1 intro: keeps_trans [OF K(1)] keeps_trans)
  qed
  show "runs X K1 (if y_choice_link (k_syms K2 a) then Some K2 else do {
       K \<leftarrow> calc_dep calc a y_dir_dep T_yes y_dir_tri y_dir_tri_update K2;
       K \<leftarrow> calc_dep calc a y_rev_dep T_no y_rev_tri y_rev_tri_update K;
       calc_dep calc a y_implied T_no y_implied_tri y_implied_tri_update K }) P"
    using runs_from [OF K2 dep] K1(2) K2 by (auto intro!: runs_Some intro: P_keeps)
qed

lemma choice_default_goes:
  "P K \<Longrightarrow> (\<forall>p \<in> set ps. prop_get_symbol p \<noteq> None) \<Longrightarrow> goes X K (choice_default calc ps K) (\<lambda>_. P)"
  by (induction ps arbitrary: K) (auto intro!: goes_bind [OF calc_opt_goes] goes_Some)

lemma choice_user_goes:
  "P K \<Longrightarrow> (\<forall>b \<in> set bs. y_choice_link (k_syms K b)) \<Longrightarrow> goes X K (choice_user calc bs K) (\<lambda>_. P)"
proof (induction bs arbitrary: K)
  case (Cons b bs)
  show ?case
    unfolding choice_user.simps
  proof (rule runs_goes_bind [OF sym_calc_visibility_runs])
    fix K'
    assume "keeps X K K'" "P K'"
    then show "goes X K' (if shown K' b \<and> y_has_value (k_syms K' b) \<and> y_user_tri (k_syms K' b) = T_yes then Some (Some b, K')
        else choice_user calc bs K') (\<lambda>_. P)"
      using Cons.prems(2) keeps_same(15) [OF keeps_static] by (auto intro!: goes_Some Cons.IH)
  qed (use Cons.prems in auto)
qed (simp add: goes_Some)

lemma set_choice_keeps: "y_choice_link (k_syms K b) \<Longrightarrow> keeps X K (set_choice res b K)"
  by (auto simp: set_choice_def Let_def intro!: keeps_upd)

lemma set_choices_keeps: "(\<forall>b \<in> set bs. y_choice_link (k_syms K b)) \<Longrightarrow> keeps X K (fold (set_choice res) bs K)"
proof (induction bs arbitrary: K)
  case (Cons b bs)
  have 1: "keeps X K (set_choice res b K)"
    using Cons.prems by (intro set_choice_keeps) simp
  then show ?case
    using Cons keeps_same(15) [OF keeps_static [OF 1]] by (auto intro: keeps_trans [OF 1])
qed simp

definition choice_wf :: "ktab \<Rightarrow> choice \<Rightarrow> bool" where
  "choice_wf K c \<longleftrightarrow> (\<forall>b \<in> set (c_members c) \<union> set (c_entries c). y_choice_link (k_syms K b)) \<and>
     (\<forall>p \<in> set (props_of P_DEFAULT (k_syms K (c_sym c))). prop_get_symbol p \<noteq> None)"

lemma choice_wf_keeps: "keeps X K K' \<Longrightarrow> choice_wf K' c = choice_wf K c"
  by (simp add: choice_wf_def keeps_same(15,17) [OF keeps_static])

lemma sym_choice_default_goes:
  assumes "P K" "choice_wf K c"
  shows "goes X K (sym_choice_default calc c K) (\<lambda>_. P)"
  unfolding sym_choice_default_def
  by (rule goes_bind [OF choice_default_goes]) (use assms in \<open>auto simp: choice_wf_def intro!: goes_Some\<close>)

lemma sym_calc_choice_goes:
  assumes "P K" "choice_wf K c"
  shows "goes X K (sym_calc_choice calc c K) (\<lambda>_. P)"
  unfolding sym_calc_choice_def
proof (rule goes_bind [OF choice_user_goes], rule assms, use assms in \<open>simp add: choice_wf_def\<close>, unfold prod.case)
  fix res K1
  assume K1: "keeps X K K1" "P K1"
  have last: "goes X K2 (Some (res', fold (set_choice res') (c_entries c) K2)) (\<lambda>_. P)" if "keeps X K1 K2" "P K2" for res' K2
  proof -
    have "choice_wf K2 c"
      using assms(2) choice_wf_keeps [OF keeps_trans [OF K1(1) that(1)], of c] by simp
    then have "keeps X K2 (fold (set_choice res') (c_entries c) K2)"
      by (intro set_choices_keeps) (simp add: choice_wf_def)
    then show ?thesis
      using that(2) by (auto intro: goes_Some P_keeps)
  qed
  have mid: "goes X K1 (if res \<noteq> None then Some (res, K1) else do {
      (d, K) \<leftarrow> sym_choice_default calc c K1;
      Some (case d of None \<Rightarrow> None
            | Some a \<Rightarrow> if y_has_value (k_syms K a) \<and> y_user_tri (k_syms K a) = T_no then None else d, K) }) (\<lambda>_. P)"
    using assms(2) K1(2) by (auto intro!: goes_Some goes_bind [OF sym_choice_default_goes] simp: choice_wf_keeps [OF K1(1)])
  show "goes X K1 (do {
      (res, K) \<leftarrow> (if res \<noteq> None then Some (res, K1) else do {
        (d, K) \<leftarrow> sym_choice_default calc c K1;
        Some (case d of None \<Rightarrow> None
              | Some a \<Rightarrow> if y_has_value (k_syms K a) \<and> y_user_tri (k_syms K a) = T_no then None else d, K) });
      let res = (if res \<noteq> None then res else List.find (\<lambda>a. shown K a \<and> \<not> y_has_value (k_syms K a)) (c_entries c));
      let res = (if res \<noteq> None then res else List.find (shown K) (rev (c_members c)));
      Some (res, fold (set_choice res) (c_entries c) K) }) (\<lambda>_. P)"
    by (rule goes_bind [OF mid]) (simp only: prod.case Let_def, rule last)
qed

lemma set_write_keeps: "a \<in> X \<Longrightarrow> keeps X K (set_write a K)"
  by (rule keeps_upd) auto

lemma calc_default_tri_goes:
  assumes "P K" "a \<in> X"
  shows "goes X K (calc_default_tri calc a K) (\<lambda>_. P)"
proof -
  have w: "keeps X K' (set_write a K')" "P K' \<Longrightarrow> P (set_write a K')" for K'
    using set_write_keeps [OF assms(2)] P_keeps by auto
  have "goes X K' (if sym_is_choice K' a then Some (T_no, K') else do {
         (p, K) \<leftarrow> sym_get_default_prop calc a K';
         (tri, K) \<leftarrow> (case p of None \<Rightarrow> Some (T_no, K) | Some (p, cond) \<Rightarrow> do {
             (v, K) \<leftarrow> calc_opt calc (p_expr p) K;
             let tri = EXPR_AND v cond;
             Some (tri, if tri \<noteq> T_no then set_write a K else K) });
         let y = k_syms K a;
         if y_implied_tri y \<noteq> T_no
         then Some (EXPR_AND (EXPR_OR tri (y_implied_tri y)) (y_dir_tri y), set_write a K)
         else Some (tri, K) }) (\<lambda>_. P)" if "P K'" for K'
    using that w unfolding sym_get_default_prop_def Let_def
    by (auto split: option.splits intro!: goes_Some first_visible_P calc_opt_goes goes_bind [where Q = "\<lambda>_. P"])
  note body = this [unfolded Let_def]
  have 1: "keeps X K (if y_rev_tri (k_syms K a) \<noteq> T_no then set_write a K else K)"
      "P (if y_rev_tri (k_syms K a) \<noteq> T_no then set_write a K else K)"
    using assms(1) w by auto
  show ?thesis
    unfolding calc_default_tri_def Let_def by (rule goes_from [OF 1(1) body [OF 1(2)]])
qed

lemma calc_tristate_goes:
  assumes "P K" "a \<in> X" "\<And>c. y_choice_menu (k_syms K a) = Some c \<Longrightarrow> choice_wf K (k_choices K c)"
  shows "goes X K (calc_tristate calc a K) (\<lambda>tri K'. P K' \<and> (s_type (k_syms K' a) = S_BOOLEAN \<longrightarrow> tri \<noteq> T_mod))"
proof -
  have warn: "keeps X K' (K'\<lparr> k_warnings := n \<rparr>)" "P K' \<Longrightarrow> P (K'\<lparr> k_warnings := n \<rparr>)" for K' n
    using keeps_other(2) P_keeps by auto
  have user: "goes X K (if shown K a \<and> y_has_value (k_syms K a)
      then Some (EXPR_AND (y_user_tri (k_syms K a)) (y_visible (k_syms K a)), K) else calc_default_tri calc a K) (\<lambda>_. P)"
    using assms(1,2) by (auto intro!: goes_Some calc_default_tri_goes)
  have "goes X K (case y_choice_menu (k_syms K a) of
          Some c \<Rightarrow> do { (_, K) \<leftarrow> sym_calc_choice calc (k_choices K c) K; Some (s_tri (k_syms K a), K) }
        | None \<Rightarrow> do {
            (tri, K) \<leftarrow> (if shown K a \<and> y_has_value (k_syms K a)
               then Some (EXPR_AND (y_user_tri (k_syms K a)) (y_visible (k_syms K a)), K) else calc_default_tri calc a K);
            let y = k_syms K a;
            let K = (if y_dir_tri y < y_rev_tri y then K\<lparr> k_warnings := k_warnings K + 1 \<rparr> else K);
            Some (EXPR_OR tri (y_rev_tri y), K) }) (\<lambda>_. P)"
  proof (cases "y_choice_menu (k_syms K a)")
    case None
    show ?thesis
      unfolding None option.case Let_def
      by (rule goes_bind [OF user]) (auto intro!: goes_Some warn)
  next
    case (Some c)
    show ?thesis
      unfolding Some option.case
      by (rule goes_bind [OF sym_calc_choice_goes]) (use assms Some in \<open>auto intro!: goes_Some\<close>)
  qed
  then show ?thesis
    unfolding calc_tristate_def
    by (rule goes_bind) (auto intro!: goes_Some simp: promote_def sym_get_type_def)
qed

lemma calc_text_goes:
  assumes "P K" "a \<in> X"
  shows "goes X K (calc_text calc a val K) (\<lambda>_. P)"
proof -
  have "goes X K' (calc d (set_write a K') \<bind> (\<lambda>K. Some (s_val (k_syms K d), K))) (\<lambda>_. P)" if "P K'" for d K'
  proof (rule goes_from [OF set_write_keeps [OF assms(2)]])
    have "P (set_write a K')"
      using P_keeps [OF that set_write_keeps [OF assms(2)]] .
    then show "goes X (set_write a K') (calc d (set_write a K') \<bind> (\<lambda>K. Some (s_val (k_syms K d), K))) (\<lambda>_. P)"
      by (rule runs_goes_bind [OF calc_runs_X]) (simp add: goes_Some)
  qed
  then have "goes X K (do {
        (p, K) \<leftarrow> sym_get_default_prop calc a K;
        (case p of None \<Rightarrow> Some (val, K)
         | Some (p, _) \<Rightarrow> (case prop_get_symbol p of None \<Rightarrow> Some (val, K)
              | Some ds \<Rightarrow> do { K \<leftarrow> calc ds (set_write a K); Some (s_val (k_syms K ds), K) })) }) (\<lambda>_. P)"
    unfolding sym_get_default_prop_def
    by (intro goes_bind [OF first_visible_P [OF assms(1)]]) (simp split: option.split add: goes_Some)
  then show ?thesis
    using assms(1) by (simp add: calc_text_def goes_Some)
qed

lemma sym_get_range_val_goes: "P K \<Longrightarrow> goes X K (sym_get_range_val calc a base K) (\<lambda>_. P)"
  unfolding sym_get_range_val_def by (auto intro!: runs_goes_bind [OF calc_runs_X] goes_Some)

lemma set_val_runs: "P K \<Longrightarrow> a \<in> X \<Longrightarrow> runs X K (Some (upd_sym a (s_val_update (\<lambda>_. v)) K)) P"
proof -
  assume "P K" "a \<in> X"
  moreover from this have "keeps X K (upd_sym a (s_val_update (\<lambda>_. v)) K)"
    by (intro keeps_upd) auto
  ultimately show ?thesis
    by (auto intro: runs_Some P_keeps)
qed

lemma sym_validate_range_runs:
  assumes "P K" "a \<in> X"
  shows "runs X K (sym_validate_range calc a K) P"
proof (cases "base_of (s_type (k_syms K a))")
  case (Some base)
  show ?thesis
    unfolding sym_validate_range_def Some option.case sym_get_range_prop_def
  proof (rule goes_runs_bind [OF first_visible_goes [OF assms(1)]], unfold prod.case)
    fix r K1
    assume K1: "keeps X K K1" "P K1 \<and> found (props_of P_RANGE (k_syms K a)) r"
    have "\<exists>l u. p_expr p = Some (Range l u)" if "r = Some (p, v)" for p v
      using P_wf [OF assms(1)] K1(2) that by (auto simp: wf_tab_def found_def)
    then show "runs X K1 (case r of
             None \<Rightarrow> Some K1
           | Some (p, _) \<Rightarrow>
               (case p_expr p of
                  Some (Range l r) \<Rightarrow> do {
                    let val = strtoll base (s_val (k_syms K1 a));
                    (val2, K) \<leftarrow> sym_get_range_val calc l base K1;
                    if val \<ge> val2 then do {
                      (val2, K) \<leftarrow> sym_get_range_val calc r base K;
                      if val \<le> val2 then Some K
                      else Some (upd_sym a (s_val_update (\<lambda>_. s_val (k_syms K r))) K) }
                    else Some (upd_sym a (s_val_update (\<lambda>_. s_val (k_syms K l))) K) }
                | _ \<Rightarrow> None)) P"
      using K1(2) assms(2)
    proof (cases r)
      case (Some pv)
      then obtain p v l u where r: "r = Some (p, v)" "p_expr p = Some (Range l u)"
        using \<open>\<And>v p. r = Some (p, v) \<Longrightarrow> _\<close> by (cases pv) blast
      show ?thesis
        unfolding r option.case prod.case expr.case Let_def
        using K1(2) assms(2) by (auto intro!: runs_Some set_val_runs goes_runs_bind [OF sym_get_range_val_goes])
    qed (simp add: runs_Some)
  qed
qed (use assms in \<open>simp add: sym_validate_range_def runs_Some\<close>)

lemma set_curr_keeps: "a \<in> X \<Longrightarrow> (s_type (k_syms K a) = S_BOOLEAN \<longrightarrow> tri \<noteq> T_mod) \<Longrightarrow> keeps X K (set_curr a tri v K)"
  unfolding set_curr_def by (rule keeps_upd) auto

lemma set_changed_keeps: "keeps X K (upd_sym b (y_changed_update (\<lambda>_. True)) K)"
  by (rule keeps_upd) (auto simp: same_entry_def)

lemma all_changed_keeps: "keeps X K (fold (\<lambda>b. upd_sym b (y_changed_update (\<lambda>_. True))) bs K)"
  by (induction bs arbitrary: K) (auto intro: keeps_trans [OF set_changed_keeps])

lemma finish_value_keeps:
  assumes "a \<in> X"
  shows "keeps X K (finish_value a oldval K)"
proof -
  have w: "keeps X K' (upd_sym a (y_write_update (\<lambda>_. False)) K')" for K'
    by (rule keeps_upd) (use assms in auto)
  have 1: "keeps X K (if oldval = (s_tri (k_syms K a), s_val (k_syms K a)) then K
               else let K' = upd_sym a (y_changed_update (\<lambda>_. True)) K
                    in if k_modules K' = a
                       then (fold (\<lambda>b. upd_sym b (y_changed_update (\<lambda>_. True))) (k_all K') K')\<lparr> k_modules_val := s_tri (k_syms K a) \<rparr>
                       else K')"
    unfolding Let_def
    by (auto intro: set_changed_keeps keeps_trans [OF keeps_trans [OF set_changed_keeps all_changed_keeps] keeps_other(3)])
  show ?thesis
    unfolding finish_value_def Let_def using 1 w by (auto simp: Let_def intro: keeps_trans)
qed

lemma calc_new_goes:
  assumes "P K" "a \<in> X"
  shows "goes X K (calc_new calc a val K) (\<lambda>new K'. P K' \<and> (s_type (k_syms K' a) = S_BOOLEAN \<longrightarrow> fst new \<noteq> T_mod))"
proof -
  have "choice_wf K (k_choices K c)" if "y_choice_menu (k_syms K a) = Some c" for c
    using P_wf [OF assms(1)] that by (auto simp: wf_tab_def choice_wf_def)
  then show ?thesis
    unfolding calc_new_def using assms
    by (auto intro!: goes_bind [OF calc_tristate_goes] goes_bind [OF calc_text_goes] goes_Some)
qed

lemma calc_known_runs:
  assumes "P K" "a \<in> X"
  shows "runs X K (calc_known calc a K) (\<lambda>_. True)"
proof -
  let ?K0 = "upd_sym a (y_write_update (\<lambda>_. False)) K"
  have K0: "keeps X K ?K0"
    by (rule keeps_upd) (use assms(2) in auto)
  have vis: "runs X ?K0 (sym_calc_visibility calc a ?K0) P"
    using P_keeps [OF assms(1) K0] assms(2) by (intro sym_calc_visibility_runs) auto
  show ?thesis
    unfolding calc_known_def Let_def
  proof (rule runs_from [OF K0 runs_bind [OF vis]])
    fix K1
    assume K1: "keeps X ?K0 K1" "P K1"
    let ?K2 = "set_curr a T_no (initial_val (s_type (k_syms K a))) (if shown K1 a then set_write a K1 else K1)"
    have "keeps X K1 (if shown K1 a then set_write a K1 else K1)"
      using assms(2) by (auto intro: set_write_keeps)
    then have k2: "keeps X K1 ?K2"
      using assms(2) by (auto intro: keeps_trans set_curr_keeps)
    note new = calc_new_goes [OF P_keeps [OF K1(2) k2] assms(2)]
    show "runs X K1 (do {
         (new, K') \<leftarrow> calc_new calc a (initial_val (s_type (k_syms K a))) ?K2;
         K' \<leftarrow> sym_validate_range calc a (set_curr a (fst new) (snd new) K');
         Some (finish_value a (s_tri (k_syms K a), s_val (k_syms K a)) K') }) (\<lambda>_. True)"
    proof (rule runs_from [OF k2 goes_runs_bind [OF new]], unfold prod.case)
      fix new :: "tristate \<times> string" and K3
      assume K3: "keeps X ?K2 K3" "P K3 \<and> (s_type (k_syms K3 a) = S_BOOLEAN \<longrightarrow> fst new \<noteq> T_mod)"
      have k4: "keeps X K3 (set_curr a (fst new) (snd new) K3)"
        using K3(2) assms(2) by (intro set_curr_keeps) auto
      show "runs X K3 (sym_validate_range calc a (set_curr a (fst new) (snd new) K3) \<bind>
          (\<lambda>K'. Some (finish_value a (s_tri (k_syms K a), s_val (k_syms K a)) K'))) (\<lambda>_. True)"
        by (rule runs_from [OF k4 runs_bind [OF sym_validate_range_runs]])
          (use K3(2) k4 assms(2) P_keeps in \<open>auto intro!: runs_Some finish_value_keeps\<close>)
    qed
  qed
qed

end

subsection \<open>The recursion ends\<close>

definition bounded :: "nat \<Rightarrow> ktab \<Rightarrow> bool" where
  "bounded n K \<longleftrightarrow> wf_tab K \<and> finite {a. \<not> valid K a} \<and> card {a. \<not> valid K a} < n"

lemma bounded_keeps:
  assumes "bounded n K" "keeps X K K'"
  shows "bounded n K'"
proof -
  have "{a. \<not> valid K' a} \<subseteq> {a. \<not> valid K a}"
    using assms(2) by (auto simp: keeps_def)
  then show ?thesis
    using assms wf_static [OF keeps_static [OF assms(2)]] card_mono [of "{a. \<not> valid K a}" "{a. \<not> valid K' a}"]
    by (auto simp: bounded_def intro: finite_subset)
qed

lemma bounded_valid:
  assumes "bounded (Suc n) K" "\<not> valid K a"
  shows "bounded n (upd_sym a (y_valid_update (\<lambda>_. True)) K)"
proof -
  have "{b. \<not> valid (upd_sym a (y_valid_update (\<lambda>_. True)) K) b} = {b. \<not> valid K b} - {a}"
    by (auto simp: valid_def)
  moreover have "wf_tab (upd_sym a (y_valid_update (\<lambda>_. True)) K)"
    using assms(1) by (subst wf_static [of _ K]) (auto intro: staticI simp: bounded_def)
  moreover have fin: "finite {b. \<not> valid K b}"
    using assms(1) by (simp add: bounded_def)
  moreover have "card ({b. \<not> valid K b} - {a}) < card {b. \<not> valid K b}"
    by (rule card_Diff1_less [OF fin]) (use assms(2) in simp)
  ultimately show ?thesis
    using assms(1) by (simp add: bounded_def)
qed

lemma keeps_fresh: "\<not> valid K a \<Longrightarrow> keeps {a} K K' \<Longrightarrow> keeps {} K K'"
  by (auto simp: keeps_def)

lemma calc_value_level: "calculation (calc_value n) (bounded n)"
proof (induction n)
  case 0
  then show ?case
    by unfold_locales (simp_all add: bounded_def)
next
  case (Suc n)
  show ?case
  proof (rule calculation.intro)
    fix K a
    assume K: "bounded (Suc n) K"
    let ?K1 = "upd_sym a (y_valid_update (\<lambda>_. True)) K"
    show "runs {} K (calc_value (Suc n) a K) (\<lambda>K'. valid K' a)"
    proof (cases "valid K a")
      case True
      then show ?thesis
        by (simp add: runs_Some valid_def)
    next
      case False
      have K1: "keeps {a} K ?K1" "bounded n ?K1"
        by (auto intro: keeps_upd bounded_valid [OF K False])
      have "runs {a} ?K1 (calc_known (calc_value n) a ?K1) (\<lambda>_. True)"
        by (rule calculation.calc_known_runs [OF Suc.IH K1(2)]) simp
      moreover have "keeps {a} ?K1 (set_curr a T_no v ?K1)" for v
        unfolding set_curr_def by (rule keeps_upd) auto
      ultimately have "runs {a} ?K1 (calc_value (Suc n) a K) (\<lambda>_. True)"
        using False by (auto simp: valid_def Let_def intro!: runs_Some)
      then obtain K' where K': "calc_value (Suc n) a K = Some K'" "keeps {a} ?K1 K'"
        by (auto simp: runs_def)
      then have "valid K' a" "keeps {a} K K'"
        using keeps_trans [OF K1(1)] by (auto simp: keeps_def valid_def)
      then show ?thesis
        using K' keeps_fresh [OF False] by (simp add: runs_def)
    qed
  qed (rule bounded_keeps, assumption+, simp add: bounded_def)
qed

interpretation levels: calculation "calc_value n" "bounded n" for n
  by (rule calc_value_level)

text \<open>What holds in every table that the tool works on.\<close>

definition tab_ok :: "ktab \<Rightarrow> bool" where
  "tab_ok K \<longleftrightarrow> wf_tab K \<and> (\<forall>b. valid K b \<or> b \<in> set (k_all K))"

lemma tab_ok_bounded:
  assumes "tab_ok K"
  shows "bounded (Suc (length (k_all K))) K"
proof -
  have sub: "{b. \<not> valid K b} \<subseteq> set (k_all K)"
    using assms by (auto simp: tab_ok_def)
  then have "card {b. \<not> valid K b} \<le> card (set (k_all K))" "finite {b. \<not> valid K b}"
    by (auto intro: card_mono finite_subset)
  then show ?thesis
    using assms card_length [of "k_all K"] by (simp add: bounded_def tab_ok_def)
qed

lemma tab_ok_keeps: "tab_ok K \<Longrightarrow> keeps X K K' \<Longrightarrow> tab_ok K'"
  using wf_static [OF keeps_static, of X K K'] keeps_same(1) [OF keeps_static, of X K K'] unfolding tab_ok_def keeps_def by metis

lemma sym_calc_value_runs: "tab_ok K \<Longrightarrow> runs {} K (sym_calc_value a K) (\<lambda>K'. valid K' a)"
  unfolding sym_calc_value_def by (rule levels.calc_runs [OF tab_ok_bounded])

lemma keeps_symbols_ok:
  assumes "symbols_ok (table K)" "keeps {} K K'" "bool_ok K"
    and "\<And>a. a \<in> {symbol_no, symbol_mod, symbol_yes} \<Longrightarrow> valid K a \<and> \<not> y_choice_link (k_syms K a)"
  shows "symbols_ok (table K')"
proof -
  have "symbol.truncate (k_syms K' a) = symbol.truncate (k_syms K a)" if "a \<in> {symbol_no, symbol_mod, symbol_yes}" for a
  proof -
    have "k_syms K' a\<lparr> y_changed := False \<rparr> = k_syms K a\<lparr> y_changed := False \<rparr>"
      using assms(2) assms(4) [OF that] by (auto simp: keeps_def same_entry_def)
    from arg_cong [OF this, of symbol.truncate] show ?thesis
      by (simp add: symbol.truncate_def)
  qed
  moreover have "bool_ok K'"
    using assms(2,3) by (simp add: keeps_def)
  ultimately show ?thesis
    using assms(1) by (auto simp: symbols_ok_def table_def bool_ok_def symbol.truncate_def)
qed

text \<open>C37. \<^verbatim>\<open>sym_calc_value\<close> returns for every symbol, also when symbols depend on each other in a circle. It changes
  neither the values of the user nor the dependencies, a symbol whose value is known keeps it unless it is in
  a choice, and no bool gets the value m.\<close>

theorem sym_calc_value_returns:
  assumes "tab_ok K"
  shows "\<exists>K'. sym_calc_value a K = Some K' \<and> valid K' a \<and> tab_ok K' \<and> static K' = static K \<and> (bool_ok K \<longrightarrow> bool_ok K') \<and>
    (\<forall>b. valid K b \<and> \<not> y_choice_link (k_syms K b) \<longrightarrow> same_entry (k_syms K' b) (k_syms K b))"
  using sym_calc_value_runs [OF assms, of a] tab_ok_keeps [OF assms] by (auto simp: runs_def keeps_def)

text \<open>A configuration for the examples: a tristate WOL that the user can set; a bool DEBUG that is RADAR by default;
  a tristate RADAR that WOL selects; a bool EXPERT; and a choice between the bools HIGH and LOW, of which LOW
  needs EXPERT. The value of the user is m for WOL and y for HIGH. The configuration \<^verbatim>\<open>sample_circle\<close> has in
  addition DEBUG as the default of RADAR.\<close>

definition plain :: "string option \<Rightarrow> symbol_type \<Rightarrow> entry" where
  "plain n t = \<lparr> s_name = n, s_type = t, s_const = False, s_tri = T_no, s_val = [], y_has_value = False, y_user_tri = T_no,
     y_user_val = [], y_visible = T_no, y_dir_dep = None, y_dir_tri = T_no, y_rev_dep = None, y_rev_tri = T_no,
     y_implied = None, y_implied_tri = T_no, y_props = [], y_choice_link = False, y_choice_menu = None, y_valid = False,
     y_write = False, y_changed = False \<rparr>"

definition const_entry :: "string \<Rightarrow> tristate \<Rightarrow> entry" where
  "const_entry n v = (plain (Some n) S_TRISTATE)\<lparr> s_const := True, s_tri := v, s_val := n, y_valid := True \<rparr>"

definition prompt :: "expr option \<Rightarrow> property" where
  "prompt e = \<lparr> p_type = P_PROMPT, p_text = Some ''prompt'', p_visible = e, p_expr = None \<rparr>"

definition default_value :: "expr \<Rightarrow> expr option \<Rightarrow> property" where
  "default_value e c = \<lparr> p_type = P_DEFAULT, p_text = None, p_visible = c, p_expr = Some e \<rparr>"

definition sample_tab :: ktab where
  "sample_tab = \<lparr> k_syms = (\<lambda>_. (plain None S_UNKNOWN)\<lparr> y_valid := True \<rparr>)
     (symbol_no := const_entry ''n'' T_no, symbol_mod := const_entry ''m'' T_mod, symbol_yes := const_entry ''y'' T_yes,
      5 := (plain (Some ''WOL'') S_TRISTATE)\<lparr> y_props := [prompt None], y_has_value := True, y_user_tri := T_mod \<rparr>,
      6 := (plain (Some ''DEBUG'') S_BOOLEAN)\<lparr> y_props := [default_value (Symbol 7) (Some (Symbol 5))] \<rparr>,
      7 := (plain (Some ''RADAR'') S_TRISTATE)\<lparr> y_props := [default_value (Symbol 11) None], y_rev_dep := Some (Symbol 5) \<rparr>,
      8 := plain None S_BOOLEAN,
      9 := (plain (Some ''HIGH'') S_BOOLEAN)\<lparr> y_props := [prompt None], y_has_value := True, y_user_tri := T_yes,
        y_choice_link := True, y_choice_menu := Some 0 \<rparr>,
      10 := (plain (Some ''LOW'') S_BOOLEAN)\<lparr> y_props := [prompt (Some (Symbol 11))], y_choice_link := True,
        y_choice_menu := Some 0 \<rparr>,
      11 := plain (Some ''EXPERT'') S_BOOLEAN),
     k_all = [5, 6, 7, 8, 9, 10, 11], k_choices = (\<lambda>_. \<lparr> c_sym = 8, c_members = [9, 10], c_entries = [9, 10] \<rparr>),
     k_modules = symbol_yes, k_modules_val = T_yes, k_cache = (\<lambda>_. None), k_warnings = 0 \<rparr>"

definition sample_circle :: ktab where
  "sample_circle = upd_sym 7 (\<lambda>y. y\<lparr> y_props := [default_value (Symbol 6) None] \<rparr>) sample_tab"

lemma sample_tab_ok: "tab_ok sample_tab" "tab_ok sample_circle"
  by (auto simp: tab_ok_def wf_tab_def valid_def sample_tab_def sample_circle_def plain_def const_entry_def prompt_def default_value_def props_of_def)

lemma sample_bool_ok: "bool_ok sample_circle"
  by (auto simp: bool_ok_def sample_tab_def sample_circle_def plain_def const_entry_def)

theorem sym_calc_value_returns_witness:
  "\<exists>K'. sym_calc_value 6 sample_circle = Some K' \<and> valid K' 6 \<and> tab_ok K' \<and> static K' = static sample_circle \<and> bool_ok K' \<and>
    same_entry (k_syms K' symbol_mod) (k_syms sample_circle symbol_mod)"
proof -
  have "valid sample_circle symbol_mod \<and> \<not> y_choice_link (k_syms sample_circle symbol_mod)"
    by (simp add: valid_def sample_tab_def sample_circle_def const_entry_def plain_def)
  then show ?thesis
    using sym_calc_value_returns [OF sample_tab_ok(2), of 6] sample_bool_ok by blast
qed

end
