(* ===== verification/KconfigSpec.thy ===== *)
theory KconfigSpec
  imports KconfigCalc
begin

text \<open>What the values of the symbols should be: the equations of the configuration language, over a table that
  may be known in part (a map from symbols to their values). A value is None as long as a symbol that it needs
  is not known; knowing more symbols never changes a value.\<close>

subsection \<open>The equations\<close>

type_synonym known = "sym \<Rightarrow> symbol option"

primrec peval :: "known \<Rightarrow> expr \<Rightarrow> tristate option" where
  "peval l (Symbol a) = map_option s_tri (l a)"
| "peval l (And e1 e2) = do { v1 \<leftarrow> peval l e1; v2 \<leftarrow> peval l e2; Some (EXPR_AND v1 v2) }"
| "peval l (Or e1 e2) = do { v1 \<leftarrow> peval l e1; v2 \<leftarrow> peval l e2; Some (EXPR_OR v1 v2) }"
| "peval l (Not e) = do { v \<leftarrow> peval l e; Some (EXPR_NOT v) }"
| "peval l (Comp rel a b) = do {
     x \<leftarrow> l a; y \<leftarrow> l b;
     Some (if holds_rel rel (sym_cmp (\<lambda>c. the (l c)) a b) then T_yes else T_no) }"
| "peval l (Range a b) = Some T_no"

definition peval_opt :: "known \<Rightarrow> expr option \<Rightarrow> tristate option" where
  "peval_opt l e = (case e of None \<Rightarrow> Some T_yes | Some e \<Rightarrow> peval l e)"

primrec first_true :: "known \<Rightarrow> property list \<Rightarrow> (property \<times> tristate) option option" where
  "first_true l [] = Some None"
| "first_true l (p # ps) = do {
     tri \<leftarrow> peval_opt l (p_visible p);
     if tri \<noteq> T_no then Some (Some (p, tri)) else first_true l ps }"

primrec any_true :: "known \<Rightarrow> property list \<Rightarrow> tristate \<Rightarrow> tristate option" where
  "any_true l [] tri = Some tri"
| "any_true l (p # ps) tri = do { v \<leftarrow> peval_opt l (p_visible p); any_true l ps (EXPR_OR tri v) }"

text \<open>Without modules a tristate is a bool, and m becomes y for a bool.\<close>

definition promoted :: "tristate \<Rightarrow> entry \<Rightarrow> tristate \<Rightarrow> tristate" where
  "promoted mods y tri =
     (if tri = T_mod \<and> (s_type y = S_BOOLEAN \<or> s_type y = S_TRISTATE \<and> mods = T_no) then T_yes else tri)"

definition prompts_of :: "entry \<Rightarrow> property list" where
  "prompts_of y = filter (\<lambda>p. p_text p \<noteq> None) (y_props y)"

definition spec_visible :: "known \<Rightarrow> tristate \<Rightarrow> entry \<Rightarrow> tristate option" where
  "spec_visible l mods y = do {
     tri \<leftarrow> any_true l (prompts_of y) T_no;
     Some (if tri = T_mod \<and> (s_type y \<noteq> S_TRISTATE \<or> mods = T_no) then T_yes else tri) }"

definition spec_dep :: "known \<Rightarrow> tristate \<Rightarrow> entry \<Rightarrow> expr option \<Rightarrow> tristate \<Rightarrow> tristate option" where
  "spec_dep l mods y dep none = do {
     tri \<leftarrow> (case dep of None \<Rightarrow> Some none | Some e \<Rightarrow> peval l e);
     Some (promoted mods y tri) }"

text \<open>A bool or tristate: the value of the user up to the visibility, else the first default that applies, and
  what implies it within its dependencies; never less than what selects it.\<close>

definition spec_default :: "known \<Rightarrow> entry \<Rightarrow> tristate option" where
  "spec_default l y = do {
     p \<leftarrow> first_true l (props_of P_DEFAULT y);
     tri \<leftarrow> (case p of None \<Rightarrow> Some T_no
            | Some (p, cond) \<Rightarrow> do { v \<leftarrow> peval_opt l (p_expr p); Some (EXPR_AND v cond) });
     Some (if y_implied_tri y \<noteq> T_no then EXPR_AND (EXPR_OR tri (y_implied_tri y)) (y_dir_tri y) else tri) }"

definition spec_tri :: "known \<Rightarrow> tristate \<Rightarrow> entry \<Rightarrow> tristate option" where
  "spec_tri l mods y = do {
     tri \<leftarrow>
       (if y_visible y \<noteq> T_no \<and> y_has_value y then Some (EXPR_AND (y_user_tri y) (y_visible y))
        else if s_name y = None then Some T_no else spec_default l y);
     Some (promoted mods y (EXPR_OR tri (y_rev_tri y))) }"

text \<open>A number or a text: the value of the user, else the first default that applies, brought into the first
  range that applies.\<close>

definition spec_text :: "known \<Rightarrow> entry \<Rightarrow> string option" where
  "spec_text l y =
     (if y_visible y \<noteq> T_no \<and> y_has_value y then Some (y_user_val y)
      else do {
        p \<leftarrow> first_true l (props_of P_DEFAULT y);
        (case p of
           None \<Rightarrow> Some (initial_val (s_type y))
         | Some (p, _) \<Rightarrow>
             (case prop_get_symbol p of
                None \<Rightarrow> Some (initial_val (s_type y))
              | Some d \<Rightarrow> map_option s_val (l d))) })"

definition bound_val :: "nat \<Rightarrow> symbol \<Rightarrow> int" where
  "bound_val base s = strtoll (case base_of (s_type s) of Some b \<Rightarrow> b | None \<Rightarrow> base) (s_val s)"

definition spec_range :: "known \<Rightarrow> entry \<Rightarrow> string \<Rightarrow> string option" where
  "spec_range l y v =
     (case base_of (s_type y) of
        None \<Rightarrow> Some v
      | Some base \<Rightarrow> do {
          p \<leftarrow> first_true l (props_of P_RANGE y);
          (case p of
             None \<Rightarrow> Some v
           | Some (p, _) \<Rightarrow>
               (case p_expr p of
                  Some (Range a b) \<Rightarrow> do {
                    lo \<leftarrow> l a;
                    if strtoll base v \<ge> bound_val base lo then do {
                      hi \<leftarrow> l b;
                      Some (if strtoll base v \<le> bound_val base hi then v else s_val hi) }
                    else Some (s_val lo) }
                | _ \<Rightarrow> None)) })"

definition spec_curr :: "known \<Rightarrow> tristate \<Rightarrow> entry \<Rightarrow> (tristate \<times> string) option" where
  "spec_curr l mods y =
     (if is_tri (s_type y)
      then do { tri \<leftarrow> spec_tri l mods y; Some (tri, initial_val (s_type y)) }
      else do { v \<leftarrow> spec_text l y; v \<leftarrow> spec_range l y v; Some (T_no, v) })"

definition deps_settled :: "known \<Rightarrow> tristate \<Rightarrow> entry \<Rightarrow> bool" where
  "deps_settled l mods y \<longleftrightarrow> spec_visible l mods y = Some (y_visible y) \<and>
     spec_dep l mods y (y_dir_dep y) T_yes = Some (y_dir_tri y) \<and>
     spec_dep l mods y (y_rev_dep y) T_no = Some (y_rev_tri y) \<and>
     spec_dep l mods y (y_implied y) T_no = Some (y_implied_tri y)"

text \<open>An entry in which everything that is calculated is what the equations say.\<close>

definition settled :: "known \<Rightarrow> tristate \<Rightarrow> entry \<Rightarrow> bool" where
  "settled l mods y \<longleftrightarrow>
     (if s_type y = S_UNKNOWN then s_tri y = T_no \<and> s_val y = (case s_name y of Some n \<Rightarrow> n | None \<Rightarrow> '''')
      else deps_settled l mods y \<and> spec_curr l mods y = Some (s_tri y, s_val y))"

subsection \<open>The symbols that a value needs\<close>

primrec expr_syms :: "expr \<Rightarrow> sym set" where
  "expr_syms (Symbol a) = {a}"
| "expr_syms (And l r) = expr_syms l \<union> expr_syms r"
| "expr_syms (Or l r) = expr_syms l \<union> expr_syms r"
| "expr_syms (Not e) = expr_syms e"
| "expr_syms (Comp rel a b) = {a, b}"
| "expr_syms (Range a b) = {a, b}"

definition opt_syms :: "expr option \<Rightarrow> sym set" where
  "opt_syms e = (case e of None \<Rightarrow> {} | Some e \<Rightarrow> expr_syms e)"

definition cond_syms :: "property list \<Rightarrow> sym set" where
  "cond_syms ps = (\<Union>p \<in> set ps. opt_syms (p_visible p))"

definition prop_syms :: "property list \<Rightarrow> sym set" where
  "prop_syms ps = (\<Union>p \<in> set ps. opt_syms (p_visible p) \<union> opt_syms (p_expr p))"

definition needs :: "entry \<Rightarrow> sym set" where
  "needs y = cond_syms (prompts_of y) \<union> opt_syms (y_dir_dep y) \<union> opt_syms (y_rev_dep y) \<union> opt_syms (y_implied y) \<union>
     prop_syms (props_of P_DEFAULT y) \<union> prop_syms (props_of P_RANGE y)"

text \<open>Knowing more, as far as the symbols in \<^verbatim>\<open>D\<close> are concerned.\<close>

definition more :: "sym set \<Rightarrow> known \<Rightarrow> known \<Rightarrow> bool" where
  "more D l l' \<longleftrightarrow> (\<forall>a \<in> D. \<forall>s. l a = Some s \<longrightarrow> l' a = Some s)"

lemma more_subset: "more D l l' \<Longrightarrow> D' \<subseteq> D \<Longrightarrow> more D' l l'"
  by (auto simp: more_def)

lemma sym_cmp_cong: "S a = S' a \<Longrightarrow> S b = S' b \<Longrightarrow> sym_cmp S a b = sym_cmp S' a b"
  by (simp only: sym_cmp_def)

lemma peval_more: "more (expr_syms e) l l' \<Longrightarrow> peval l e = Some v \<Longrightarrow> peval l' e = Some v"
proof (induction e arbitrary: v)
  case (Comp rel a b)
  then have "l' a = l a" "l' b = l b"
    by (auto simp: more_def bind_eq_Some_conv)
  then show ?case
    using Comp.prems(2) sym_cmp_cong [of "\<lambda>c. the (l c)" a "\<lambda>c. the (l' c)" b] by (auto simp: bind_eq_Some_conv)
qed (fastforce simp: more_def bind_eq_Some_conv)+

lemma peval_opt_more: "more (opt_syms e) l l' \<Longrightarrow> peval_opt l e = Some v \<Longrightarrow> peval_opt l' e = Some v"
  by (cases e) (auto simp: peval_opt_def opt_syms_def intro: peval_more)

lemma more_cond: "more (cond_syms (p # ps)) l l' \<Longrightarrow> more (opt_syms (p_visible p)) l l' \<and> more (cond_syms ps) l l'"
  by (auto simp: more_def cond_syms_def)

lemma first_true_more: "more (cond_syms ps) l l' \<Longrightarrow> first_true l ps = Some r \<Longrightarrow> first_true l' ps = Some r"
proof (induction ps)
  case (Cons p ps)
  obtain v where v: "peval_opt l (p_visible p) = Some v"
    using Cons.prems(2) by (auto simp: bind_eq_Some_conv)
  then show ?case
    using Cons peval_opt_more [OF _ v, of l'] more_cond [OF Cons.prems(1)] by (auto split: if_splits)
qed simp

lemma any_true_more: "more (cond_syms ps) l l' \<Longrightarrow> any_true l ps t = Some r \<Longrightarrow> any_true l' ps t = Some r"
proof (induction ps arbitrary: t)
  case (Cons p ps)
  obtain v where v: "peval_opt l (p_visible p) = Some v"
    using Cons.prems(2) by (auto simp: bind_eq_Some_conv)
  then show ?case
    using Cons peval_opt_more [OF _ v, of l'] more_cond [OF Cons.prems(1)] by auto
qed simp

lemma first_true_in: "first_true l ps = Some (Some (p, v)) \<Longrightarrow> p \<in> set ps"
  by (induction ps) (auto simp: bind_eq_Some_conv split: if_splits)

lemma prop_syms_in: "p \<in> set ps \<Longrightarrow> opt_syms (p_expr p) \<subseteq> prop_syms ps" "cond_syms ps \<subseteq> prop_syms ps"
  by (auto simp: prop_syms_def cond_syms_def)

lemma prop_symbol_syms: "prop_get_symbol p = Some d \<Longrightarrow> d \<in> opt_syms (p_expr p)"
  by (auto simp: prop_get_symbol_def opt_syms_def split: option.splits expr.splits)

lemma needs_parts:
  "cond_syms (prompts_of y) \<subseteq> needs y" "opt_syms (y_dir_dep y) \<subseteq> needs y" "opt_syms (y_rev_dep y) \<subseteq> needs y"
  "opt_syms (y_implied y) \<subseteq> needs y" "prop_syms (props_of P_DEFAULT y) \<subseteq> needs y" "prop_syms (props_of P_RANGE y) \<subseteq> needs y"
  by (auto simp: needs_def)

lemma spec_visible_more: "more (needs y) l l' \<Longrightarrow> spec_visible l m y = Some v \<Longrightarrow> spec_visible l' m y = Some v"
  using any_true_more [OF more_subset [OF _ needs_parts(1)]] by (auto simp: spec_visible_def bind_eq_Some_conv)

lemma spec_dep_more: "more (opt_syms dep) l l' \<Longrightarrow> spec_dep l m y dep none = Some v \<Longrightarrow> spec_dep l' m y dep none = Some v"
  by (cases dep) (auto simp: spec_dep_def bind_eq_Some_conv opt_syms_def dest: peval_more)

lemma deps_settled_more:
  assumes "more (needs y) l l'" "deps_settled l m y"
  shows "deps_settled l' m y"
  using assms(2) spec_visible_more [OF assms(1)] spec_dep_more [OF more_subset [OF assms(1) needs_parts(2)]]
    spec_dep_more [OF more_subset [OF assms(1) needs_parts(3)]] spec_dep_more [OF more_subset [OF assms(1) needs_parts(4)]]
  by (simp add: deps_settled_def)

lemma default_more:
  assumes "more (needs y) l l'" "first_true l (props_of P_DEFAULT y) = Some r"
  shows "first_true l' (props_of P_DEFAULT y) = Some r" "r = Some (p, v) \<Longrightarrow> more (opt_syms (p_expr p)) l l'"
proof -
  note D = more_subset [OF assms(1) needs_parts(5)]
  show "first_true l' (props_of P_DEFAULT y) = Some r"
    by (rule first_true_more [OF more_subset [OF D prop_syms_in(2)] assms(2)])
  show "more (opt_syms (p_expr p)) l l'" if "r = Some (p, v)"
    using more_subset [OF D prop_syms_in(1)] first_true_in assms(2) that by blast
qed

lemma spec_default_more:
  assumes "more (needs y) l l'" "spec_default l y = Some v"
  shows "spec_default l' y = Some v"
proof -
  obtain r where r: "first_true l (props_of P_DEFAULT y) = Some r"
    using assms(2) by (auto simp: spec_default_def bind_eq_Some_conv)
  note r' = default_more [OF assms(1) r]
  show ?thesis
  proof (cases r)
    case None
    then show ?thesis
      using assms(2) r r'(1) by (simp add: spec_default_def)
  next
    case (Some pc)
    obtain p c where pc: "pc = (p, c)"
      by (cases pc)
    obtain u where u: "peval_opt l (p_expr p) = Some u"
      using assms(2) r Some pc by (auto simp: spec_default_def bind_eq_Some_conv)
    then have "peval_opt l' (p_expr p) = Some u"
      using peval_opt_more [OF r'(2)] Some pc by blast
    then show ?thesis
      using assms(2) r r'(1) Some pc u by (simp add: spec_default_def)
  qed
qed

lemma spec_tri_more: "more (needs y) l l' \<Longrightarrow> spec_tri l m y = Some v \<Longrightarrow> spec_tri l' m y = Some v"
  unfolding spec_tri_def using spec_default_more by (auto simp: bind_eq_Some_conv split: if_splits)

lemma spec_text_more:
  assumes "more (needs y) l l'" "spec_text l y = Some v"
  shows "spec_text l' y = Some v"
proof (cases "y_visible y \<noteq> T_no \<and> y_has_value y")
  case True
  then show ?thesis
    using assms(2) by (simp add: spec_text_def)
next
  case False
  then obtain r where r: "first_true l (props_of P_DEFAULT y) = Some r"
    using assms(2) by (auto simp: spec_text_def bind_eq_Some_conv)
  have "l' d = Some s" if "r = Some (p, c)" "prop_get_symbol p = Some d" "l d = Some s" for p c d s
    using default_more(2) [OF assms(1) r that(1)] prop_symbol_syms [OF that(2)] that(3) by (auto simp: more_def)
  then show ?thesis
    using False assms(2) r default_more(1) [OF assms(1) r] by (auto simp: spec_text_def split: option.splits)
qed

lemma spec_range_more:
  assumes "more (needs y) l l'" "spec_range l y w = Some v"
  shows "spec_range l' y w = Some v"
proof (cases "base_of (s_type y)")
  case None
  then show ?thesis
    using assms(2) by (simp add: spec_range_def)
next
  case (Some base)
  then obtain r where r: "first_true l (props_of P_RANGE y) = Some r"
    using assms(2) by (auto simp: spec_range_def bind_eq_Some_conv)
  note D = more_subset [OF assms(1) needs_parts(6)]
  have r': "first_true l' (props_of P_RANGE y) = Some r"
    by (rule first_true_more [OF more_subset [OF D prop_syms_in(2)] r])
  show ?thesis
  proof (cases r)
    case None
    then show ?thesis
      using assms(2) Some r r' by (simp add: spec_range_def)
  next
    case (Some pc)
    obtain p c where pc: "pc = (p, c)"
      by (cases pc)
    obtain a b lo where ab: "p_expr p = Some (Range a b)" "l a = Some lo"
      using assms(2) \<open>base_of _ = _\<close> r Some pc
      by (auto simp: spec_range_def bind_eq_Some_conv split: option.splits expr.splits)
    have "more {a, b} l l'"
      using more_subset [OF D prop_syms_in(1)] first_true_in r Some pc ab(1) by (fastforce simp: opt_syms_def)
    then show ?thesis
      using assms(2) \<open>base_of _ = _\<close> r r' Some pc ab
      by (auto simp: spec_range_def more_def bind_eq_Some_conv split: if_splits)
  qed
qed

lemma spec_curr_more: "more (needs y) l l' \<Longrightarrow> spec_curr l m y = Some v \<Longrightarrow> spec_curr l' m y = Some v"
  unfolding spec_curr_def using spec_tri_more [of y l l' m] spec_text_more [of y l l'] spec_range_more [of y l l']
  by (auto simp: bind_eq_Some_conv split: if_splits)

lemma settled_more: "more (needs y) l l' \<Longrightarrow> settled l m y \<Longrightarrow> settled l' m y"
  unfolding settled_def using deps_settled_more spec_curr_more by (auto split: if_splits)

text \<open>Entries that differ in flags only.\<close>

lemma settled_same:
  assumes "same_entry y' y"
  shows "settled l m y' = settled l m y" "deps_settled l m y' = deps_settled l m y" "spec_curr l m y' = spec_curr l m y"
proof -
  note s = static_entryD [OF same_entryD(1) [OF assms]] same_entryD(2-9) [OF assms]
  have p: "promoted m y' = promoted m y" "prompts_of y' = prompts_of y" "props_of t y' = props_of t y" for t
    by (simp_all add: promoted_def prompts_of_def props_of_def s fun_eq_iff)
  show d: "deps_settled l m y' = deps_settled l m y"
    by (simp add: deps_settled_def spec_visible_def spec_dep_def p s)
  show c: "spec_curr l m y' = spec_curr l m y"
    unfolding spec_curr_def spec_tri_def spec_default_def spec_text_def spec_range_def p s ..
  show "settled l m y' = settled l m y"
    by (simp add: settled_def d c s)
qed

text \<open>With the whole table known, expressions have the value that \<^verbatim>\<open>expr_calc_value\<close> gives.\<close>

lemma peval_total: "peval (\<lambda>a. Some (S a)) e = Some (expr_calc_node S e)"
  by (induction e) simp_all

end
