(* ===== verification/KconfigFix.thy ===== *)
theory KconfigFix
  imports KconfigSpec
begin

text \<open>\<^verbatim>\<open>sym_calc_value\<close> computes the equations: for symbols that do not depend on each other in a circle and are not
  in a choice, everything it stores is what KconfigSpec says, however the calculations are interleaved and
  whatever is kept in the nodes of the expressions. The locale \<^verbatim>\<open>ordered\<close> extends \<^verbatim>\<open>calculation\<close>.\<close>

subsection \<open>Consistent tables\<close>

abbreviation (input) consts3 :: "sym set" where
  "consts3 \<equiv> {symbol_no, symbol_mod, symbol_yes}"

text \<open>The symbols of \<^verbatim>\<open>A\<close> whose value is known, without those in \<^verbatim>\<open>Q\<close>, whose calculation is under way.\<close>

definition known_in :: "sym set \<Rightarrow> sym set \<Rightarrow> ktab \<Rightarrow> known" where
  "known_in A Q K = (\<lambda>a. if valid K a \<and> a \<in> A \<and> a \<notin> Q then Some (table K a) else None)"

definition consistent :: "sym set \<Rightarrow> sym set \<Rightarrow> ktab \<Rightarrow> bool" where
  "consistent A Q K \<longleftrightarrow>
     (\<forall>b \<in> A - consts3 - Q. valid K b \<longrightarrow> settled (known_in A Q K) (k_modules_val K) (k_syms K b)) \<and>
     (\<forall>e v. k_cache K e = Some v \<and> expr_syms e \<subseteq> A \<longrightarrow> peval (known_in A Q K) e = Some v)"

text \<open>The set is closed under dependencies, which go down in the rank; none of its symbols is in a choice; the
  constants and the symbol MODULES are known.\<close>

definition ranked :: "sym set \<Rightarrow> (sym \<Rightarrow> nat) \<Rightarrow> ktab \<Rightarrow> bool" where
  "ranked A r K \<longleftrightarrow>
     (\<forall>a \<in> A. \<not> y_choice_link (k_syms K a) \<and> y_choice_menu (k_syms K a) = None \<and> needs (k_syms K a) \<subseteq> A \<and>
        (\<forall>b \<in> needs (k_syms K a). r b < r a)) \<and>
     valid K (k_modules K) \<and> (\<forall>a \<in> consts3. valid K a)"

text \<open>Entries with the same dependencies, visibility and user value.\<close>

definition same_deps :: "entry \<Rightarrow> entry \<Rightarrow> bool" where
  "same_deps y' y \<longleftrightarrow> static_entry y' = static_entry y \<and> y_visible y' = y_visible y \<and> y_dir_tri y' = y_dir_tri y \<and>
     y_rev_tri y' = y_rev_tri y \<and> y_implied_tri y' = y_implied_tri y"

text \<open>Progress while the symbols in \<^verbatim>\<open>Q\<close> are being calculated; \<^verbatim>\<open>steps\<close> leaves the dependencies of the symbols in \<^verbatim>\<open>X\<close>
  alone.\<close>

definition loose :: "sym set \<Rightarrow> sym set \<Rightarrow> sym set \<Rightarrow> ktab \<Rightarrow> ktab \<Rightarrow> bool" where
  "loose X A Q K K' \<longleftrightarrow> keeps X K K' \<and> consistent A Q K' \<and> k_modules_val K' = k_modules_val K"

definition steps :: "sym set \<Rightarrow> sym set \<Rightarrow> sym set \<Rightarrow> ktab \<Rightarrow> ktab \<Rightarrow> bool" where
  "steps X A Q K K' \<longleftrightarrow> loose X A Q K K' \<and> (\<forall>a \<in> X. same_deps (k_syms K' a) (k_syms K a))"

definition below :: "sym set \<Rightarrow> (sym \<Rightarrow> nat) \<Rightarrow> sym set \<Rightarrow> sym set \<Rightarrow> bool" where
  "below A r Q X \<longleftrightarrow> X \<subseteq> A \<and> (\<forall>x \<in> X. \<forall>q \<in> Q. r x < r q)"

lemma below_subset: "below A r Q X \<Longrightarrow> Y \<subseteq> X \<Longrightarrow> below A r Q Y"
  by (auto simp: below_def)

lemma needs_static: "static_entry y' = static_entry y \<Longrightarrow> needs y' = needs y"
  using static_entryD [of y' y] by (simp add: needs_def prompts_of_def)

lemma ranked_keeps:
  assumes "ranked A r K" "keeps X K K'"
  shows "ranked A r K'"
proof -
  note s = keeps_static [OF assms(2)]
  show ?thesis
    using assms keeps_same(3,15,16) [OF s] needs_static [OF keeps_same(4) [OF s]] by (auto simp: ranked_def keeps_def)
qed

lemma table_same: "same_entry (k_syms K' a) (k_syms K a) \<Longrightarrow> table K' a = table K a"
proof -
  assume same: "same_entry (k_syms K' a) (k_syms K a)"
  show "table K' a = table K a"
    using static_entryD(1-3) [OF same_entryD(1) [OF same]] same_entryD(2,3) [OF same] by (simp add: table_def symbol.truncate_def)
qed

lemma known_other [simp]:
  "known_in A Q (K\<lparr> k_cache := c \<rparr>) = known_in A Q K" "known_in A Q (K\<lparr> k_warnings := n \<rparr>) = known_in A Q K"
  by (auto simp: known_in_def valid_def table_def fun_eq_iff)

lemma known_more:
  assumes "ranked A r K" "keeps X K K'" "X \<subseteq> Q"
  shows "more D (known_in A Q K) (known_in A Q K')"
proof -
  have "valid K' a \<and> table K' a = table K a" if "valid K a" "a \<in> A" "a \<notin> Q" for a
    using assms that table_same [of K' a K] by (auto simp: ranked_def keeps_def)
  then show ?thesis
    by (auto simp: more_def known_in_def)
qed

lemma same_deps_refl [simp]: "same_deps y y"
  by (simp add: same_deps_def)

lemma same_deps_trans: "same_deps y2 y1 \<Longrightarrow> same_deps y1 y \<Longrightarrow> same_deps y2 y"
  by (simp add: same_deps_def)

lemma same_deps_same: "same_entry y' y \<Longrightarrow> same_deps y' y"
  using same_entryD [of y' y] by (simp add: same_deps_def)

lemma same_deps_upd [simp]:
  "same_deps (y\<lparr> s_tri := t \<rparr>) y" "same_deps (y\<lparr> s_val := v \<rparr>) y" "same_deps (y\<lparr> s_tri := t, s_val := v \<rparr>) y"
  "same_deps (y\<lparr> y_write := w \<rparr>) y" "same_deps (y\<lparr> y_valid := w \<rparr>) y" "same_deps (y\<lparr> y_changed := w \<rparr>) y"
  by (simp_all add: same_deps_def)

lemma same_deps_eqs:
  assumes "same_deps y' y"
  shows "promoted m y' = promoted m y" "prompts_of y' = prompts_of y" "deps_settled l m y' = deps_settled l m y"
    "spec_curr l m y' = spec_curr l m y" "spec_default l y' = spec_default l y" "spec_tri l m y' = spec_tri l m y"
    "spec_text l y' = spec_text l y" "spec_range l y' v = spec_range l y v" "needs y' = needs y"
proof -
  have st: "static_entry y' = static_entry y" "y_visible y' = y_visible y" "y_dir_tri y' = y_dir_tri y"
      "y_rev_tri y' = y_rev_tri y" "y_implied_tri y' = y_implied_tri y"
    using assms by (simp_all add: same_deps_def)
  note s = st(2-5) static_entryD [OF st(1)]
  show p: "promoted m y' = promoted m y" "prompts_of y' = prompts_of y"
    by (simp_all add: promoted_def prompts_of_def s fun_eq_iff)
  have props: "props_of t y' = props_of t y" for t
    by (simp add: props_of_def s)
  show "deps_settled l m y' = deps_settled l m y" "spec_curr l m y' = spec_curr l m y" "spec_default l y' = spec_default l y"
      "spec_tri l m y' = spec_tri l m y" "spec_text l y' = spec_text l y" "spec_range l y' v = spec_range l y v"
    unfolding deps_settled_def spec_visible_def spec_dep_def spec_curr_def spec_tri_def spec_default_def spec_text_def
      spec_range_def promoted_def prompts_of_def props s by (rule refl)+
  show "needs y' = needs y"
    by (rule needs_static [OF st(1)])
qed

lemma loose_trans: "loose X A Q K K1 \<Longrightarrow> loose X A Q K1 K2 \<Longrightarrow> loose X A Q K K2"
  by (auto simp: loose_def intro: keeps_trans)

lemma steps_refl: "consistent A Q K \<Longrightarrow> steps X A Q K K"
  by (simp add: steps_def loose_def)

lemma steps_trans: "steps X A Q K K1 \<Longrightarrow> steps X A Q K1 K2 \<Longrightarrow> steps X A Q K K2"
  unfolding steps_def using loose_trans same_deps_trans by blast

lemma steps_loose: "steps X A Q K K' \<Longrightarrow> loose X A Q K K'"
  by (simp add: steps_def)

lemma steps_own:
  assumes "steps {} A Q K K'" "ranked A r K" "\<And>a. a \<in> X \<Longrightarrow> valid K a \<and> a \<in> A"
  shows "steps X A Q K K'" "\<And>a. a \<in> X \<Longrightarrow> same_entry (k_syms K' a) (k_syms K a)"
proof -
  show same: "same_entry (k_syms K' a) (k_syms K a)" if "a \<in> X" for a
    using assms(1,2) assms(3) [OF that] by (auto simp: steps_def loose_def keeps_def ranked_def)
  show "steps X A Q K K'"
    using assms(1) same keeps_mono [of "{}" K K' X] by (auto simp: steps_def loose_def same_deps_same)
qed

text \<open>Changing a symbol whose calculation is under way disturbs nothing.\<close>

lemma loose_upd:
  assumes "consistent A Q K" "ranked A r K" "a \<in> Q" "keeps {a} K (upd_sym a f K)"
  shows "loose {a} A Q K (upd_sym a f K)"
proof -
  have m: "more D (known_in A Q K) (known_in A Q (upd_sym a f K))" for D
    by (rule known_more [OF assms(2,4)]) (use assms(3) in simp)
  have "settled (known_in A Q (upd_sym a f K)) (k_modules_val K) (k_syms K b)" if "b \<in> A - consts3 - Q" "valid K b" for b
    using assms(1) that settled_more [OF m] by (auto simp: consistent_def)
  moreover have "valid K b" if "b \<in> A - consts3 - Q" "valid (upd_sym a f K) b" for b
    using that assms(3) by (auto simp: valid_def split: if_splits)
  moreover have "peval (known_in A Q (upd_sym a f K)) e = Some v" if "k_cache K e = Some v" "expr_syms e \<subseteq> A" for e v
    using assms(1) that peval_more [OF m] by (auto simp: consistent_def)
  ultimately show ?thesis
    using assms(3,4) by (auto simp: loose_def consistent_def)
qed

lemma steps_upd:
  assumes "consistent A Q K" "ranked A r K" "a \<in> Q" "same_deps (f (k_syms K a)) (k_syms K a)"
    and "y_valid (k_syms K a) \<longrightarrow> y_valid (f (k_syms K a))"
      "s_type (k_syms K a) = S_BOOLEAN \<longrightarrow> s_tri (k_syms K a) \<noteq> T_mod \<longrightarrow> s_tri (f (k_syms K a)) \<noteq> T_mod"
  shows "steps {a} A Q K (upd_sym a f K)"
  using assms unfolding steps_def by (auto intro!: loose_upd keeps_upd simp: same_deps_def)

lemma steps_cache:
  assumes "consistent A Q K" "peval (known_in A Q K) e = Some v"
  shows "steps X A Q K (K\<lparr> k_cache := (k_cache K)(e := Some v) \<rparr>)"
  using assms by (auto simp: steps_def loose_def consistent_def valid_def keeps_other)

lemma steps_warnings: "consistent A Q K \<Longrightarrow> steps X A Q K (K\<lparr> k_warnings := n \<rparr>)"
  by (auto simp: steps_def loose_def consistent_def keeps_other valid_def)

text \<open>An operation that gives the value of an equation.\<close>

definition gives :: "sym set \<Rightarrow> sym set \<Rightarrow> sym set \<Rightarrow> ktab \<Rightarrow> ('a \<times> ktab) option \<Rightarrow> (known \<Rightarrow> 'a option) \<Rightarrow> bool" where
  "gives X A Q K p s \<longleftrightarrow> (\<exists>x K'. p = Some (x, K') \<and> steps X A Q K K' \<and> s (known_in A Q K') = Some x)"

lemma gives_Some: "steps X A Q K K' \<Longrightarrow> s (known_in A Q K') = Some x \<Longrightarrow> gives X A Q K (Some (x, K')) s"
  by (simp add: gives_def)

subsection \<open>Expressions and properties\<close>

locale ordered = calculation calc P for calc :: calc and P :: "ktab \<Rightarrow> bool" +
  fixes A :: "sym set" and r :: "sym \<Rightarrow> nat"
  assumes calc_steps: "P K \<Longrightarrow> ranked A r K \<Longrightarrow> consistent A Q K \<Longrightarrow> b \<in> A \<Longrightarrow> (\<forall>q \<in> Q. r b < r q) \<Longrightarrow>
      k_modules K \<notin> Q \<Longrightarrow> \<exists>K'. calc b K = Some K' \<and> steps {} A Q K K' \<and> valid K' b"
begin

definition env :: "sym set \<Rightarrow> ktab \<Rightarrow> bool" where
  "env Q K \<longleftrightarrow> P K \<and> ranked A r K \<and> consistent A Q K \<and> k_modules K \<notin> Q"

lemma env_loose: "env Q K \<Longrightarrow> loose X A Q K K' \<Longrightarrow> env Q K'"
  using P_keeps ranked_keeps keeps_same(3) [OF keeps_static] by (auto simp: env_def loose_def)

lemma env_steps: "env Q K \<Longrightarrow> steps X A Q K K' \<Longrightarrow> env Q K'"
  using env_loose steps_loose by blast

lemma calc_gives:
  assumes "env Q K" "below A r Q {b}"
  shows "\<exists>K'. calc b K = Some K' \<and> steps {} A Q K K' \<and> known_in A Q K' b = Some (table K' b)"
proof -
  have b: "b \<in> A" "\<forall>q \<in> Q. r b < r q" "b \<notin> Q"
    using assms(2) by (auto simp: below_def)
  then obtain K' where "calc b K = Some K'" "steps {} A Q K K'" "valid K' b"
    using calc_steps [of K Q b] assms(1) by (auto simp: env_def)
  then show ?thesis
    using b by (auto simp: known_in_def)
qed

lemma with_cache_gives:
  assumes "env Q K" "below A r Q (expr_syms e)" "gives {} A Q K (f K) (\<lambda>l. peval l e)"
  shows "gives {} A Q K (with_cache e f K) (\<lambda>l. peval l e)"
proof (cases "k_cache K e")
  case None
  obtain v K' where "f K = Some (v, K')" "steps {} A Q K K'" "peval (known_in A Q K') e = Some v"
    using assms(3) by (auto simp: gives_def)
  moreover from this have "steps {} A Q K' (K'\<lparr> k_cache := (k_cache K')(e := Some v) \<rparr>)"
    by (intro steps_cache) (auto simp: steps_def loose_def)
  ultimately show ?thesis
    using None by (auto simp: with_cache_def gives_def intro: steps_trans)
next
  case (Some v)
  then have "peval (known_in A Q K) e = Some v"
    using assms(1,2) by (auto simp: env_def consistent_def below_def)
  then show ?thesis
    using Some assms(1) by (simp add: with_cache_def gives_def steps_refl env_def)
qed

lemma env_ranked: "env Q K \<Longrightarrow> ranked A r K"
  by (simp add: env_def)

lemma peval_known:
  assumes "env Q K" "loose X A Q K K'" "X \<subseteq> Q" "peval (known_in A Q K) e = Some v"
  shows "peval (known_in A Q K') e = Some v"
  using peval_more [OF known_more assms(4)] assms by (auto simp: env_def loose_def)

lemma expr2_gives:
  assumes "\<And>K. env Q K \<Longrightarrow> gives {} A Q K (calc_expr calc e1 K) (\<lambda>l. peval l e1)"
    and "\<And>K. env Q K \<Longrightarrow> gives {} A Q K (calc_expr calc e2 K) (\<lambda>l. peval l e2)" and "env Q K"
  shows "gives {} A Q K (do { (v1, K) \<leftarrow> calc_expr calc e1 K; (v2, K) \<leftarrow> calc_expr calc e2 K; Some (g v1 v2, K) })
      (\<lambda>l. do { v1 \<leftarrow> peval l e1; v2 \<leftarrow> peval l e2; Some (g v1 v2) })"
proof -
  obtain v1 K1 where 1: "calc_expr calc e1 K = Some (v1, K1)" "steps {} A Q K K1" "peval (known_in A Q K1) e1 = Some v1"
    using assms(1) [OF assms(3)] by (auto simp: gives_def)
  note env1 = env_steps [OF assms(3) 1(2)]
  obtain v2 K2 where 2: "calc_expr calc e2 K1 = Some (v2, K2)" "steps {} A Q K1 K2" "peval (known_in A Q K2) e2 = Some v2"
    using assms(2) [OF env1] by (auto simp: gives_def)
  show ?thesis
    using 1 2 steps_trans [OF 1(2) 2(2)] peval_known [OF env1 steps_loose [OF 2(2)] _ 1(3)] by (simp add: gives_def)
qed

lemma calc_expr_gives: "env Q K \<Longrightarrow> below A r Q (expr_syms e) \<Longrightarrow> gives {} A Q K (calc_expr calc e K) (\<lambda>l. peval l e)"
proof (induction e arbitrary: K)
  case (Symbol a)
  obtain K' where K': "calc a K = Some K'" "steps {} A Q K K'" "known_in A Q K' a = Some (table K' a)"
    using calc_gives [OF Symbol(1)] Symbol(2) by auto
  show ?case
    unfolding calc_expr.simps
    by (rule with_cache_gives [OF Symbol]) (use K' in \<open>simp add: gives_def table_def symbol.truncate_def\<close>)
next
  case (Comp rel a b)
  have ab: "below A r Q {a}" "below A r Q {b}"
    using Comp(2) by (auto intro: below_subset)
  obtain K1 where K1: "calc a K = Some K1" "steps {} A Q K K1" "known_in A Q K1 a = Some (table K1 a)"
    using calc_gives [OF Comp(1) ab(1)] by auto
  obtain K2 where K2: "calc b K1 = Some K2" "steps {} A Q K1 K2" "known_in A Q K2 b = Some (table K2 b)"
    using calc_gives [OF env_steps [OF Comp(1) K1(2)] ab(2)] by auto
  have a: "known_in A Q K2 a = Some (table K2 a)"
    using K1(3) K2(2) ab(1) by (auto simp: known_in_def steps_def loose_def keeps_def below_def split: if_splits)
  then have "sym_cmp (\<lambda>c. the (known_in A Q K2 c)) a b = sym_cmp (table K2) a b"
    using K2(3) by (intro sym_cmp_cong) simp_all
  then show ?case
    unfolding calc_expr.simps using a K1(1) K2(1,3) steps_trans [OF K1(2) K2(2)]
    by (intro with_cache_gives [OF Comp]) (simp add: gives_def)
next
  case (And e1 e2)
  have ab: "below A r Q (expr_syms e1)" "below A r Q (expr_syms e2)"
    using And.prems(2) by (auto intro: below_subset)
  show ?case
    unfolding calc_expr.simps
    by (rule with_cache_gives [OF And.prems], unfold peval.simps)
      (rule expr2_gives [OF And.IH(1) [OF _ ab(1)] And.IH(2) [OF _ ab(2)] And.prems(1)])
next
  case (Or e1 e2)
  have ab: "below A r Q (expr_syms e1)" "below A r Q (expr_syms e2)"
    using Or.prems(2) by (auto intro: below_subset)
  show ?case
    unfolding calc_expr.simps
    by (rule with_cache_gives [OF Or.prems], unfold peval.simps)
      (rule expr2_gives [OF Or.IH(1) [OF _ ab(1)] Or.IH(2) [OF _ ab(2)] Or.prems(1)])
next
  case (Not e)
  have "gives {} A Q K (calc_expr calc e K) (\<lambda>l. peval l e)"
    using Not by simp
  then show ?case
    unfolding calc_expr.simps by (intro with_cache_gives [OF Not.prems]) (auto simp: gives_def)
next
  case (Range a b)
  show ?case
    unfolding calc_expr.simps
    by (rule with_cache_gives [OF Range]) (use Range(1) in \<open>simp add: gives_def steps_refl env_def\<close>)
qed

lemma calc_opt_gives: "env Q K \<Longrightarrow> below A r Q (opt_syms e) \<Longrightarrow> gives {} A Q K (calc_opt calc e K) (\<lambda>l. peval_opt l e)"
  using calc_expr_gives [of Q K] by (cases e) (auto simp: calc_opt_def peval_opt_def opt_syms_def gives_def steps_refl env_def)

lemma peval_opt_known:
  assumes "env Q K" "loose X A Q K K'" "X \<subseteq> Q" "peval_opt (known_in A Q K) e = Some v"
  shows "peval_opt (known_in A Q K') e = Some v"
  using peval_opt_more [OF known_more assms(4)] assms by (auto simp: env_def loose_def)

lemma first_visible_gives:
  "env Q K \<Longrightarrow> below A r Q (cond_syms ps) \<Longrightarrow> gives {} A Q K (first_visible calc ps K) (\<lambda>l. first_true l ps)"
proof (induction ps arbitrary: K)
  case (Cons p ps)
  have b: "below A r Q (opt_syms (p_visible p))" "below A r Q (cond_syms ps)"
    using Cons.prems(2) by (auto simp: cond_syms_def intro: below_subset)
  obtain v K1 where 1: "calc_opt calc (p_visible p) K = Some (v, K1)" "steps {} A Q K K1"
      "peval_opt (known_in A Q K1) (p_visible p) = Some v"
    using calc_opt_gives [OF Cons.prems(1) b(1)] by (auto simp: gives_def)
  note env1 = env_steps [OF Cons.prems(1) 1(2)]
  show ?case
  proof (cases "v = T_no")
    case True
    obtain x K2 where 2: "first_visible calc ps K1 = Some (x, K2)" "steps {} A Q K1 K2" "first_true (known_in A Q K2) ps = Some x"
      using Cons.IH [OF env1 b(2)] by (auto simp: gives_def)
    show ?thesis
      using True 1 2 steps_trans [OF 1(2) 2(2)] peval_opt_known [OF env1 steps_loose [OF 2(2)] _ 1(3)] by (simp add: gives_def)
  qed (use 1 in \<open>simp add: gives_def\<close>)
qed (simp add: gives_def steps_refl env_def)

lemma prompts_visible_gives:
  "env Q K \<Longrightarrow> below A r Q (cond_syms ps) \<Longrightarrow> gives {} A Q K (prompts_visible calc ps t K) (\<lambda>l. any_true l ps t)"
proof (induction ps arbitrary: K t)
  case (Cons p ps)
  have b: "below A r Q (opt_syms (p_visible p))" "below A r Q (cond_syms ps)"
    using Cons.prems(2) by (auto simp: cond_syms_def intro: below_subset)
  obtain v K1 where 1: "calc_opt calc (p_visible p) K = Some (v, K1)" "steps {} A Q K K1"
      "peval_opt (known_in A Q K1) (p_visible p) = Some v"
    using calc_opt_gives [OF Cons.prems(1) b(1)] by (auto simp: gives_def)
  note env1 = env_steps [OF Cons.prems(1) 1(2)]
  obtain x K2 where 2: "prompts_visible calc ps (EXPR_OR t v) K1 = Some (x, K2)" "steps {} A Q K1 K2"
      "any_true (known_in A Q K2) ps (EXPR_OR t v) = Some x"
    using Cons.IH [OF env1 b(2), of "EXPR_OR t v"] unfolding gives_def by blast
  show ?case
    using 1 2 steps_trans [OF 1(2) 2(2)] peval_opt_known [OF env1 steps_loose [OF 2(2)] _ 1(3)] by (simp add: gives_def)
qed (simp add: gives_def steps_refl env_def)

subsection \<open>The symbol itself\<close>

text \<open>From here on \<^verbatim>\<open>a\<close> is a symbol whose calculation is under way.\<close>

definition own :: "sym set \<Rightarrow> sym \<Rightarrow> ktab \<Rightarrow> bool" where
  "own Q a K \<longleftrightarrow> env Q K \<and> a \<in> Q \<and> a \<in> A \<and> valid K a \<and> below A r Q (needs (k_syms K a))"

lemma own_loose:
  assumes "own Q a K" "loose X A Q K K'"
  shows "own Q a K'"
proof -
  have st: "static K' = static K"
    using assms(2) by (simp add: loose_def keeps_def)
  have "needs (k_syms K' a) = needs (k_syms K a)"
    by (rule needs_static [OF keeps_same(4) [OF st]])
  then show ?thesis
    using assms env_loose [OF _ assms(2)] by (auto simp: own_def loose_def keeps_def)
qed

lemma own_parts:
  assumes "own Q a K"
  shows "env Q K" "consistent A Q K" "ranked A r K" "a \<in> Q" "valid K a" "P K"
    "below A r Q (cond_syms (prompts_of (k_syms K a)))" "below A r Q (opt_syms (y_dir_dep (k_syms K a)))"
    "below A r Q (opt_syms (y_rev_dep (k_syms K a)))" "below A r Q (opt_syms (y_implied (k_syms K a)))"
    "below A r Q (prop_syms (props_of P_DEFAULT (k_syms K a)))" "below A r Q (prop_syms (props_of P_RANGE (k_syms K a)))"
  using assms below_subset [OF _ needs_parts(1)] below_subset [OF _ needs_parts(2)] below_subset [OF _ needs_parts(3)]
    below_subset [OF _ needs_parts(4)] below_subset [OF _ needs_parts(5)] below_subset [OF _ needs_parts(6)]
  by (auto simp: own_def env_def)

lemma own_steps:
  assumes "own Q a K" "steps {} A Q K K'"
  shows "steps {a} A Q K K'" "same_entry (k_syms K' a) (k_syms K a)" "own Q a K'"
  using steps_own [OF assms(2) own_parts(3) [OF assms(1)], of "{a}"] assms own_loose [OF assms(1) steps_loose [OF assms(2)]]
  by (auto simp: own_def)

lemma own_more: "own Q a K \<Longrightarrow> loose {a} A Q K K' \<Longrightarrow> more D (known_in A Q K) (known_in A Q K')"
  using known_more own_parts by (fastforce simp: loose_def)

text \<open>A change of the entry of \<^verbatim>\<open>a\<close> itself.\<close>

lemma own_upd:
  assumes "own Q a K" "static_entry (f (k_syms K a)) = static_entry (k_syms K a)"
    and "y_valid (f (k_syms K a)) = y_valid (k_syms K a)" "s_tri (f (k_syms K a)) = s_tri (k_syms K a)"
  shows "loose {a} A Q K (upd_sym a f K)" "own Q a (upd_sym a f K)"
proof -
  have "keeps {a} K (upd_sym a f K)"
    by (rule keeps_upd) (use assms in simp_all)
  then show 1: "loose {a} A Q K (upd_sym a f K)"
    using own_parts(2-4) [OF assms(1)] by (intro loose_upd)
  show "own Q a (upd_sym a f K)"
    by (rule own_loose [OF assms(1) 1])
qed

lemma promote_promoted: "promote K a t = promoted (k_modules_val K) (k_syms K a) t"
  by (auto simp: promote_def promoted_def sym_get_type_def)

lemma promoted_static: "static_entry y' = static_entry y \<Longrightarrow> promoted m y' t = promoted m y t"
  using static_entryD(2) [of y' y] by (simp add: promoted_def)

definition field :: "((tristate \<Rightarrow> tristate) \<Rightarrow> entry \<Rightarrow> entry) \<Rightarrow> bool" where
  "field put \<longleftrightarrow> (\<forall>y w. static_entry (put (\<lambda>_. w) y) = static_entry y \<and> y_valid (put (\<lambda>_. w) y) = y_valid y \<and>
     s_tri (put (\<lambda>_. w) y) = s_tri y) \<and>
     (\<forall>y' y w c. same_entry y' y \<longrightarrow> same_entry (put (\<lambda>_. w) (y'\<lparr> y_changed := c \<rparr>)) (put (\<lambda>_. w) y))"

lemma same_entry_field:
  assumes "same_entry y' y" "\<And>z b. (F z)\<lparr> y_changed := b \<rparr> = F (z\<lparr> y_changed := b \<rparr>)"
  shows "same_entry (F (y'\<lparr> y_changed := c \<rparr>)) (F y)"
  using assms unfolding same_entry_def assms(2) by simp

lemma same_entry_visible:
  assumes "same_entry y' y"
  shows "same_entry (y'\<lparr> y_visible := v, y_changed := c \<rparr>) (y\<lparr> y_visible := v \<rparr>)"
proof -
  have comm: "z\<lparr> y_changed := False, y_visible := v \<rparr> = z\<lparr> y_visible := v, y_changed := False \<rparr>" for z :: entry
    by simp
  show ?thesis
    using arg_cong [OF assms [unfolded same_entry_def], of "y_visible_update (\<lambda>_. v)"] unfolding comm
    by (simp add: same_entry_def)
qed

lemma fields: "field y_dir_tri_update" "field y_rev_tri_update" "field y_implied_tri_update"
  unfolding field_def by (auto intro!: same_entry_field)

lemma calc_dep_gives:
  assumes "own Q a K" "below A r Q (opt_syms (dep (k_syms K a)))" "field put"
  shows "\<exists>w K'. calc_dep calc a dep none get put K = Some K' \<and> loose {a} A Q K K' \<and>
    same_entry (k_syms K' a) (put (\<lambda>_. w) (k_syms K a)) \<and>
    spec_dep (known_in A Q K') (k_modules_val K) (k_syms K a) (dep (k_syms K a)) none = Some w"
proof -
  obtain t K1 where 1: "(case dep (k_syms K a) of None \<Rightarrow> Some (none, K) | Some e \<Rightarrow> calc_expr calc e K) = Some (t, K1)"
      "steps {} A Q K K1" "(case dep (k_syms K a) of None \<Rightarrow> Some none | Some e \<Rightarrow> peval (known_in A Q K1) e) = Some t"
  proof (cases "dep (k_syms K a)")
    case None
    then show thesis
      using that [of none K] own_parts(2) [OF assms(1)] by (simp add: steps_refl)
  next
    case (Some e)
    then have "gives {} A Q K (calc_expr calc e K) (\<lambda>l. peval l e)"
      using calc_expr_gives own_parts(1) [OF assms(1)] assms(2) by (simp add: opt_syms_def)
    then show thesis
      using that Some by (auto simp: gives_def)
  qed
  note own1 = own_steps [OF assms(1) 1(2)]
  define w where "w = promote K1 a t"
  define K2 where "K2 = upd_sym a (\<lambda>y. put (\<lambda>_. w) (y\<lparr> y_changed := y_changed y \<or> get y \<noteq> w \<rparr>)) K1"
  have K2: "loose {a} A Q K1 K2"
    unfolding K2_def by (rule own_upd(1) [OF own1(3)]) (use assms(3) in \<open>simp_all add: field_def\<close>)
  have "same_entry (k_syms K2 a) (put (\<lambda>_. w) (k_syms K a))"
    using assms(3) own1(2) by (simp add: K2_def field_def)
  moreover have "w = promoted (k_modules_val K) (k_syms K a) t"
    using 1(2) promoted_static [OF same_entryD(1) [OF own1(2)]] by (simp add: w_def promote_promoted steps_def loose_def)
  moreover have "(case dep (k_syms K a) of None \<Rightarrow> Some none | Some e \<Rightarrow> peval (known_in A Q K2) e) = Some t"
    using 1(3) peval_more [OF own_more [OF own1(3) K2]] by (auto split: option.splits)
  ultimately have "spec_dep (known_in A Q K2) (k_modules_val K) (k_syms K a) (dep (k_syms K a)) none = Some w"
    by (simp add: spec_dep_def)
  moreover have "calc_dep calc a dep none get put K = Some K2"
    using 1(1) by (simp add: calc_dep_def K2_def w_def Let_def)
  moreover have "loose {a} A Q K K2"
    using loose_trans [OF steps_loose [OF own1(1)] K2] .
  ultimately show ?thesis
    using \<open>same_entry (k_syms K2 a) _\<close> by blast
qed

lemma spec_dep_static: "static_entry y' = static_entry y \<Longrightarrow> spec_dep l m y' d none = spec_dep l m y d none"
proof -
  assume st: "static_entry y' = static_entry y"
  show "spec_dep l m y' d none = spec_dep l m y d none"
    unfolding spec_dep_def promoted_def static_entryD(2) [OF st] ..
qed

lemma spec_visible_static: "static_entry y' = static_entry y \<Longrightarrow> spec_visible l m y' = spec_visible l m y"
proof -
  assume st: "static_entry y' = static_entry y"
  show "spec_visible l m y' = spec_visible l m y"
    unfolding spec_visible_def prompts_of_def static_entryD(2,10) [OF st] ..
qed

lemma sym_calc_visibility_gives:
  assumes "own Q a K"
  shows "\<exists>K'. sym_calc_visibility calc a K = Some K' \<and> loose {a} A Q K K' \<and>
    deps_settled (known_in A Q K') (k_modules_val K) (k_syms K' a)"
proof -
  let ?y = "k_syms K a"
  have link: "\<not> y_choice_link ?y"
    using assms by (auto simp: own_def env_def ranked_def)
  obtain t K1 where 1: "prompts_visible calc (prompts_of ?y) T_no K = Some (t, K1)" "steps {} A Q K K1"
      "any_true (known_in A Q K1) (prompts_of ?y) T_no = Some t"
    using prompts_visible_gives [OF own_parts(1,7) [OF assms], of T_no] by (auto simp: gives_def)
  note own1 = own_steps [OF assms 1(2)]
  define v where "v = (if t = T_mod \<and> (s_type (k_syms K1 a) \<noteq> S_TRISTATE \<or> k_modules_val K1 = T_no) then T_yes else t)"
  define K2 where "K2 = upd_sym a (\<lambda>y. y\<lparr> y_visible := v, y_changed := y_changed y \<or> y_visible y \<noteq> v \<rparr>) K1"
  have k2: "loose {a} A Q K1 K2" and own2: "own Q a K2"
    unfolding K2_def by (rule own_upd [OF own1(3)]; simp)+
  have y2: "same_entry (k_syms K2 a) (?y\<lparr> y_visible := v \<rparr>)"
    using own1(2) by (simp add: K2_def same_entry_visible)
  have st2: "static_entry (k_syms K2 a) = static_entry ?y"
    using same_entryD(1) [OF y2] by simp
  have "s_type (k_syms K1 a) = s_type ?y" "k_modules_val K1 = k_modules_val K"
    using static_entryD(2) [OF same_entryD(1) [OF own1(2)]] 1(2) by (simp_all add: steps_def loose_def)
  then have vis1: "spec_visible (known_in A Q K1) (k_modules_val K) ?y = Some v"
    using 1(3) by (simp add: spec_visible_def v_def)
  obtain wd K3 where 3: "calc_dep calc a y_dir_dep T_yes y_dir_tri y_dir_tri_update K2 = Some K3" "loose {a} A Q K2 K3"
      "same_entry (k_syms K3 a) ((k_syms K2 a)\<lparr> y_dir_tri := wd \<rparr>)"
      "spec_dep (known_in A Q K3) (k_modules_val K2) (k_syms K2 a) (y_dir_dep (k_syms K2 a)) T_yes = Some wd"
    using calc_dep_gives [of Q a _ y_dir_dep, OF own2 own_parts(8) [OF own2] fields(1)] by blast
  note own3 = own_loose [OF own2 3(2)]
  obtain wr K4 where 4: "calc_dep calc a y_rev_dep T_no y_rev_tri y_rev_tri_update K3 = Some K4" "loose {a} A Q K3 K4"
      "same_entry (k_syms K4 a) ((k_syms K3 a)\<lparr> y_rev_tri := wr \<rparr>)"
      "spec_dep (known_in A Q K4) (k_modules_val K3) (k_syms K3 a) (y_rev_dep (k_syms K3 a)) T_no = Some wr"
    using calc_dep_gives [of Q a _ y_rev_dep, OF own3 own_parts(9) [OF own3] fields(2)] by blast
  note own4 = own_loose [OF own3 4(2)]
  obtain wi K5 where 5: "calc_dep calc a y_implied T_no y_implied_tri y_implied_tri_update K4 = Some K5" "loose {a} A Q K4 K5"
      "same_entry (k_syms K5 a) ((k_syms K4 a)\<lparr> y_implied_tri := wi \<rparr>)"
      "spec_dep (known_in A Q K5) (k_modules_val K4) (k_syms K4 a) (y_implied (k_syms K4 a)) T_no = Some wi"
    using calc_dep_gives [of Q a _ y_implied, OF own4 own_parts(10) [OF own4] fields(3)] by blast
  have st: "static_entry (k_syms K3 a) = static_entry ?y" "static_entry (k_syms K4 a) = static_entry ?y" "static_entry (k_syms K5 a) = static_entry ?y"
    using same_entryD(1) [OF 3(3)] same_entryD(1) [OF 4(3)] same_entryD(1) [OF 5(3)] st2 by simp_all
  have m: "k_modules_val K2 = k_modules_val K" "k_modules_val K3 = k_modules_val K" "k_modules_val K4 = k_modules_val K"
    using 1(2) k2 3(2) 4(2) by (simp_all add: steps_def loose_def)
  note m15 = own_more [OF own1(3) loose_trans [OF k2 loose_trans [OF 3(2) loose_trans [OF 4(2) 5(2)]]]]
  note m35 = own_more [OF own3 loose_trans [OF 4(2) 5(2)]] and m45 = own_more [OF own4 5(2)]
  have "y_visible (k_syms K5 a) = v" "y_dir_tri (k_syms K5 a) = wd" "y_rev_tri (k_syms K5 a) = wr" "y_implied_tri (k_syms K5 a) = wi"
    using same_entryD(4-7) [OF 5(3)] same_entryD(4-7) [OF 4(3)] same_entryD(4-7) [OF 3(3)] same_entryD(4) [OF y2] by simp_all
  moreover have "spec_visible (known_in A Q K5) (k_modules_val K) (k_syms K5 a) = Some v"
    unfolding spec_visible_static [OF st(3)] by (rule spec_visible_more [OF m15 vis1])
  moreover have "spec_dep (known_in A Q K5) (k_modules_val K) (k_syms K5 a) (y_dir_dep (k_syms K5 a)) T_yes = Some wd"
    using spec_dep_more [OF m35 3(4)] st2 st(3) static_entryD(7) spec_dep_static m(1) by metis
  moreover have "spec_dep (known_in A Q K5) (k_modules_val K) (k_syms K5 a) (y_rev_dep (k_syms K5 a)) T_no = Some wr"
    using spec_dep_more [OF m45 4(4)] st(1,3) static_entryD(8) spec_dep_static m(2) by metis
  moreover have "spec_dep (known_in A Q K5) (k_modules_val K) (k_syms K5 a) (y_implied (k_syms K5 a)) T_no = Some wi"
    using 5(4) st(2,3) static_entryD(9) spec_dep_static m(3) by metis
  ultimately have "deps_settled (known_in A Q K5) (k_modules_val K) (k_syms K5 a)"
    by (simp add: deps_settled_def)
  moreover have "sym_calc_visibility calc a K = Some K5"
    using 1(1) 3(1) 4(1) 5(1) link static_entryD(11) [OF st2]
    by (simp add: sym_calc_visibility_def prompts_of_def Let_def K2_def v_def)
  moreover have "loose {a} A Q K K5"
    using loose_trans [OF steps_loose [OF own1(1)] loose_trans [OF k2 loose_trans [OF 3(2) loose_trans [OF 4(2) 5(2)]]]] .
  ultimately show ?thesis
    by blast
qed

lemma own_more_steps: "own Q a K \<Longrightarrow> steps {a} A Q K K' \<Longrightarrow> more D (known_in A Q K) (known_in A Q K')"
  using own_more steps_loose by blast

lemma own_keep: "own Q a K \<Longrightarrow> steps {a} A Q K K' \<Longrightarrow> own Q a K'"
  using own_loose steps_loose by blast

lemma steps_deps: "steps {a} A Q K K' \<Longrightarrow> same_deps (k_syms K' a) (k_syms K a)" "steps X A Q K K' \<Longrightarrow> k_modules_val K' = k_modules_val K"
  by (simp_all add: steps_def loose_def)

lemma set_write_steps: "own Q a K \<Longrightarrow> steps {a} A Q K (set_write a K)"
  using own_parts by (intro steps_upd) auto

lemma set_curr_steps:
  "own Q a K \<Longrightarrow> (s_type (k_syms K a) = S_BOOLEAN \<longrightarrow> t \<noteq> T_mod) \<Longrightarrow> steps {a} A Q K (set_curr a t v K)"
  unfolding set_curr_def using own_parts by (intro steps_upd) auto

lemma default_gives:
  assumes "own Q a K"
  shows "\<exists>p K'. sym_get_default_prop calc a K = Some (p, K') \<and> steps {a} A Q K K' \<and>
    first_true (known_in A Q K') (props_of P_DEFAULT (k_syms K a)) = Some p"
proof -
  have "below A r Q (cond_syms (props_of P_DEFAULT (k_syms K a)))"
    by (rule below_subset [OF own_parts(11) [OF assms] prop_syms_in(2)])
  then obtain p K' where "sym_get_default_prop calc a K = Some (p, K')" "steps {} A Q K K'"
      "first_true (known_in A Q K') (props_of P_DEFAULT (k_syms K a)) = Some p"
    using first_visible_gives [OF own_parts(1) [OF assms]] unfolding gives_def sym_get_default_prop_def by blast
  then show ?thesis
    using own_steps(1) [OF assms] by blast
qed

lemma calc_default_tri_gives:
  assumes "own Q a K"
  shows "gives {a} A Q K (calc_default_tri calc a K)
    (\<lambda>l. if s_name (k_syms K a) = None then Some T_no else spec_default l (k_syms K a))"
proof -
  let ?y = "k_syms K a"
  define K0 where "K0 = (if y_rev_tri ?y \<noteq> T_no then set_write a K else K)"
  have s0: "steps {a} A Q K K0"
    using set_write_steps [OF assms] steps_refl own_parts(2) [OF assms] by (simp add: K0_def)
  note own0 = own_keep [OF assms s0]
  have y0: "s_name (k_syms K0 a) = s_name ?y" "props_of t (k_syms K0 a) = props_of t ?y" for t
    by (simp_all add: K0_def props_of_def)
  show ?thesis
  proof (cases "s_name ?y = None")
    case True
    then show ?thesis
      using s0 y0(1) by (simp add: calc_default_tri_def K0_def [symmetric] Let_def sym_is_choice_def gives_def)
  next
    case False
    then obtain n where n: "s_name ?y = Some n"
      by blast
    obtain p K1 where 1: "sym_get_default_prop calc a K0 = Some (p, K1)" "steps {a} A Q K0 K1"
        "first_true (known_in A Q K1) (props_of P_DEFAULT ?y) = Some p"
      using default_gives [OF own0] y0(2) by auto
    note own1 = own_keep [OF own0 1(2)]
    define get where "get = (\<lambda>K. case p of None \<Rightarrow> Some (T_no, K)
        | Some (p, cond) \<Rightarrow> do {
            (v, K) \<leftarrow> calc_opt calc (p_expr p) K;
            let tri = EXPR_AND v cond;
            Some (tri, if tri \<noteq> T_no then set_write a K else K) })"
    define spec where "spec = (\<lambda>l. case p of None \<Rightarrow> Some T_no
        | Some (p, cond) \<Rightarrow> do { v \<leftarrow> peval_opt l (p_expr p); Some (EXPR_AND v cond) })"
    have "\<exists>t K2. get K1 = Some (t, K2) \<and> steps {a} A Q K1 K2 \<and> spec (known_in A Q K2) = Some t \<and>
        first_true (known_in A Q K2) (props_of P_DEFAULT ?y) = Some p"
    proof (cases p)
      case None
      then show ?thesis
        using 1(3) steps_refl own_parts(2) [OF own1] by (simp add: get_def spec_def)
    next
      case (Some pc)
      obtain q c where pc: "pc = (q, c)"
        by (cases pc)
      have "q \<in> set (props_of P_DEFAULT ?y)"
        using first_true_in 1(3) Some pc by blast
      then have "below A r Q (opt_syms (p_expr q))"
        using own_parts(11) [OF assms] below_subset prop_syms_in(1) by blast
      then obtain v K2 where 2: "calc_opt calc (p_expr q) K1 = Some (v, K2)" "steps {} A Q K1 K2"
          "peval_opt (known_in A Q K2) (p_expr q) = Some v"
        using calc_opt_gives [OF own_parts(1) [OF own1]] unfolding gives_def by blast
      note own2 = own_steps [OF own1 2(2)]
      define K3 where "K3 = (if EXPR_AND v c \<noteq> T_no then set_write a K2 else K2)"
      have s3: "steps {a} A Q K2 K3"
        using set_write_steps [OF own2(3)] steps_refl own_parts(2) [OF own2(3)] by (simp add: K3_def)
      have "spec (known_in A Q K3) = Some (EXPR_AND v c)"
        using peval_opt_more [OF own_more_steps [OF own2(3) s3] 2(3)] by (simp add: spec_def Some pc)
      moreover have "get K1 = Some (EXPR_AND v c, K3)"
        using 2(1) by (simp add: get_def Some pc K3_def Let_def)
      moreover have "first_true (known_in A Q K3) (props_of P_DEFAULT ?y) = Some p"
        using first_true_more [OF own_more_steps [OF own1 steps_trans [OF own2(1) s3]] 1(3)] .
      ultimately show ?thesis
        using steps_trans [OF own2(1) s3] by blast
    qed
    then obtain t K2 where 2: "get K1 = Some (t, K2)" "steps {a} A Q K1 K2" "spec (known_in A Q K2) = Some t"
        "first_true (known_in A Q K2) (props_of P_DEFAULT ?y) = Some p"
      by blast
    note own2 = own_keep [OF own1 2(2)]
    have s2: "steps {a} A Q K K2"
      using steps_trans [OF s0 steps_trans [OF 1(2) 2(2)]] .
    have y2: "y_implied_tri (k_syms K2 a) = y_implied_tri ?y" "y_dir_tri (k_syms K2 a) = y_dir_tri ?y"
      using steps_deps(1) [OF s2] by (simp_all add: same_deps_def)
    define t' where "t' = (if y_implied_tri ?y \<noteq> T_no then EXPR_AND (EXPR_OR t (y_implied_tri ?y)) (y_dir_tri ?y) else t)"
    define K3 where "K3 = (if y_implied_tri ?y \<noteq> T_no then set_write a K2 else K2)"
    have s3: "steps {a} A Q K2 K3"
      using set_write_steps [OF own2] steps_refl own_parts(2) [OF own2] by (simp add: K3_def)
    have "spec_default (known_in A Q K2) ?y = Some t'"
      using 2(3,4) by (simp add: spec_default_def spec_def t'_def)
    then have "spec_default (known_in A Q K3) ?y = Some t'"
      by (rule spec_default_more [OF own_more_steps [OF own2 s3]])
    moreover have "calc_default_tri calc a K = Some (t', K3)"
      using n 1(1) 2(1) [unfolded get_def] y0(1) y2
      by (simp add: calc_default_tri_def K0_def [symmetric] Let_def sym_is_choice_def t'_def K3_def)
    ultimately show ?thesis
      using n steps_trans [OF s2 s3] by (simp add: gives_def)
  qed
qed

lemma calc_tristate_gives:
  assumes "own Q a K"
  shows "gives {a} A Q K (calc_tristate calc a K) (\<lambda>l. spec_tri l (k_modules_val K) (k_syms K a))"
proof -
  let ?y = "k_syms K a"
  have menu: "y_choice_menu ?y = None"
    using assms by (auto simp: own_def env_def ranked_def)
  define base where "base = (\<lambda>l. if shown K a \<and> y_has_value ?y then Some (EXPR_AND (y_user_tri ?y) (y_visible ?y))
      else if s_name ?y = None then Some T_no else spec_default l ?y)"
  have "gives {a} A Q K (if shown K a \<and> y_has_value ?y then Some (EXPR_AND (y_user_tri ?y) (y_visible ?y), K)
      else calc_default_tri calc a K) base"
  proof (cases "shown K a \<and> y_has_value ?y")
    case True
    then show ?thesis
      using steps_refl own_parts(2) [OF assms] by (simp add: base_def gives_def)
  next
    case False
    then show ?thesis
      using calc_default_tri_gives [OF assms] by (simp only: base_def if_not_P [OF False] if_False)
  qed
  then obtain t K1 where 1: "(if shown K a \<and> y_has_value ?y then Some (EXPR_AND (y_user_tri ?y) (y_visible ?y), K)
      else calc_default_tri calc a K) = Some (t, K1)" "steps {a} A Q K K1" "base (known_in A Q K1) = Some t"
    unfolding gives_def by blast
  have y1: "same_deps (k_syms K1 a) ?y" "k_modules_val K1 = k_modules_val K"
    using steps_deps [OF 1(2)] by blast+
  define K2 where "K2 = (if y_dir_tri (k_syms K1 a) < y_rev_tri (k_syms K1 a) then K1\<lparr> k_warnings := k_warnings K1 + 1 \<rparr> else K1)"
  have s2: "steps {a} A Q K1 K2"
    using own_parts(2) [OF own_keep [OF assms 1(2)]] steps_warnings steps_refl by (simp add: K2_def)
  have k2: "known_in A Q K2 = known_in A Q K1" "k_syms K2 = k_syms K1" "k_modules_val K2 = k_modules_val K1"
    by (simp_all add: K2_def)
  have "calc_tristate calc a K = Some (promoted (k_modules_val K) ?y (EXPR_OR t (y_rev_tri ?y)), K2)"
    using 1(1) y1 menu k2(2,3) same_deps_eqs(1) [OF y1(1)]
    by (simp add: calc_tristate_def K2_def Let_def promote_promoted same_deps_def)
  moreover have "spec_tri (known_in A Q K2) (k_modules_val K) ?y = Some (promoted (k_modules_val K) ?y (EXPR_OR t (y_rev_tri ?y)))"
    using 1(3) by (simp add: spec_tri_def k2(1) base_def shown_def)
  ultimately show ?thesis
    using steps_trans [OF 1(2) s2] by (simp add: gives_def)
qed

lemma calc_text_gives:
  assumes "own Q a K" "val = initial_val (s_type (k_syms K a))"
  shows "gives {a} A Q K (calc_text calc a val K) (\<lambda>l. spec_text l (k_syms K a))"
proof -
  let ?y = "k_syms K a"
  show ?thesis
  proof (cases "shown K a \<and> y_has_value ?y")
    case True
    then show ?thesis
      using steps_refl own_parts(2) [OF assms(1)] by (simp add: calc_text_def spec_text_def gives_def shown_def)
  next
    case False
    note user = if_not_P [OF False] if_not_P [OF False [unfolded shown_def]]
    obtain p K1 where 1: "sym_get_default_prop calc a K = Some (p, K1)" "steps {a} A Q K K1"
        "first_true (known_in A Q K1) (props_of P_DEFAULT ?y) = Some p"
      using default_gives [OF assms(1)] by blast
    note own1 = own_keep [OF assms(1) 1(2)]
    consider "p = None" | q c where "p = Some (q, c)" "prop_get_symbol q = None"
      | q c d where "p = Some (q, c)" "prop_get_symbol q = Some d"
      by (cases p; cases "prop_get_symbol (fst (the p))") auto
    then show ?thesis
    proof cases
      case 3
      have "q \<in> set (props_of P_DEFAULT ?y)"
        using first_true_in 1(3) 3(1) by blast
      then have "below A r Q {d}"
        using own_parts(11) [OF assms(1)] prop_symbol_syms [OF 3(2)] prop_syms_in(1) by (blast intro: below_subset)
      note w = set_write_steps [OF own1]
      note own2 = own_keep [OF own1 w]
      obtain K2 where 2: "calc d (set_write a K1) = Some K2" "steps {} A Q (set_write a K1) K2"
          "known_in A Q K2 d = Some (table K2 d)"
        using calc_gives [OF own_parts(1) [OF own2] \<open>below A r Q {d}\<close>] by blast
      have s: "steps {a} A Q K K2" "steps {a} A Q K1 K2"
        using steps_trans [OF w own_steps(1) [OF own2 2(2)]] steps_trans [OF 1(2)] by blast+
      have "first_true (known_in A Q K2) (props_of P_DEFAULT ?y) = Some p"
        by (rule first_true_more [OF own_more_steps [OF own1 s(2)] 1(3)])
      then show ?thesis
        unfolding calc_text_def spec_text_def user
        using 1(1) 2(1,3) s(1) 3 by (simp add: gives_def table_def symbol.truncate_def)
    next
      case 1
      then show ?thesis
        unfolding calc_text_def spec_text_def user
        using \<open>sym_get_default_prop calc a K = _\<close> \<open>steps {a} A Q K K1\<close> \<open>first_true _ _ = _\<close> assms(2) by (simp add: gives_def)
    next
      case 2
      then show ?thesis
        unfolding calc_text_def spec_text_def user
        using \<open>sym_get_default_prop calc a K = _\<close> \<open>steps {a} A Q K K1\<close> \<open>first_true _ _ = _\<close> assms(2) by (simp add: gives_def)
    qed
  qed
qed

lemma range_val_gives:
  assumes "env Q K" "below A r Q {b}"
  shows "\<exists>K'. sym_get_range_val calc b base K = Some (bound_val base (table K' b), K') \<and> steps {} A Q K K' \<and>
    known_in A Q K' b = Some (table K' b)"
  using calc_gives [OF assms] by (auto simp: sym_get_range_val_def bound_val_def table_def symbol.truncate_def)

lemma sym_validate_range_gives:
  assumes "own Q a K"
  shows "\<exists>K'. sym_validate_range calc a K = Some K' \<and> steps {a} A Q K K' \<and> s_tri (k_syms K' a) = s_tri (k_syms K a) \<and>
    spec_range (known_in A Q K') (k_syms K a) (s_val (k_syms K a)) = Some (s_val (k_syms K' a))"
proof (cases "base_of (s_type (k_syms K a))")
  case None
  then show ?thesis
    using steps_refl own_parts(2) [OF assms] by (simp add: sym_validate_range_def spec_range_def)
next
  case base: (Some base)
  let ?y = "k_syms K a"
  have "below A r Q (cond_syms (props_of P_RANGE ?y))"
    by (rule below_subset [OF own_parts(12) [OF assms] prop_syms_in(2)])
  then obtain p K1 where 1: "sym_get_range_prop calc a K = Some (p, K1)" "steps {} A Q K K1"
      "first_true (known_in A Q K1) (props_of P_RANGE ?y) = Some p"
    using first_visible_gives [OF own_parts(1) [OF assms]] unfolding gives_def sym_get_range_prop_def by blast
  note own1 = own_steps [OF assms 1(2)]
  have y1: "s_val (k_syms K1 a) = s_val ?y" "s_tri (k_syms K1 a) = s_tri ?y"
    using same_entryD(2,3) [OF own1(2)] by simp_all
  show ?thesis
  proof (cases p)
    case None
    then show ?thesis
      using base 1(1,3) own1(1) y1 by (simp add: sym_validate_range_def spec_range_def)
  next
    case (Some pc)
    obtain q c where pc: "p = Some (q, c)"
      using Some by (cases pc) simp
    have q: "q \<in> set (props_of P_RANGE ?y)"
      using first_true_in 1(3) pc by blast
    then obtain lo hi where lh: "p_expr q = Some (Range lo hi)"
      using P_wf [OF own_parts(6) [OF assms]] unfolding wf_tab_def by blast
    have "opt_syms (p_expr q) \<subseteq> prop_syms (props_of P_RANGE ?y)"
      by (rule prop_syms_in(1) [OF q])
    then have b: "below A r Q {lo}" "below A r Q {hi}"
      using own_parts(12) [OF assms] lh by (auto simp: opt_syms_def intro: below_subset)
    let ?v = "strtoll base (s_val ?y)"
    obtain K2 where 2: "sym_get_range_val calc lo base K1 = Some (bound_val base (table K2 lo), K2)" "steps {} A Q K1 K2"
        "known_in A Q K2 lo = Some (table K2 lo)"
      using range_val_gives [OF own_parts(1) [OF own1(3)] b(1)] by blast
    note own2 = own_steps [OF own1(3) 2(2)]
    have first2: "first_true (known_in A Q K2) (props_of P_RANGE ?y) = Some p"
      by (rule first_true_more [OF own_more_steps [OF own1(3) own2(1)] 1(3)])
    have upd: "steps {a} A Q K' (upd_sym a (s_val_update (\<lambda>_. w)) K')" if "own Q a K'" for K' w
      using own_parts [OF that] by (intro steps_upd) auto
    have val: "s_val (table K' b) = s_val (k_syms K' b)" for K' b
      by (simp add: table_def symbol.truncate_def)
    have s2: "steps {a} A Q K K2"
      using steps_trans [OF own1(1) own2(1)] .
    have y2: "s_val (k_syms K2 a) = s_val ?y" "s_tri (k_syms K2 a) = s_tri ?y"
      using same_entryD(2,3) [OF own2(2)] y1 by simp_all
    show ?thesis
    proof (cases "?v \<ge> bound_val base (table K2 lo)")
      case low: False
      let ?K3 = "upd_sym a (s_val_update (\<lambda>_. s_val (k_syms K2 lo))) K2"
      have m: "more D (known_in A Q K2) (known_in A Q ?K3)" for D
        by (rule own_more_steps [OF own2(3) upd [OF own2(3)]])
      have "known_in A Q ?K3 lo = Some (table K2 lo)" "first_true (known_in A Q ?K3) (props_of P_RANGE ?y) = Some p"
        using m [of UNIV] 2(3) first_true_more [OF m first2] by (auto simp: more_def)
      then show ?thesis
        using base 1(1) 2(1) low pc lh y1 y2 steps_trans [OF s2 upd [OF own2(3)]]
        by (simp add: sym_validate_range_def spec_range_def val)
    next
      case ge: True
      obtain K3 where 3: "sym_get_range_val calc hi base K2 = Some (bound_val base (table K3 hi), K3)" "steps {} A Q K2 K3"
          "known_in A Q K3 hi = Some (table K3 hi)"
        using range_val_gives [OF own_parts(1) [OF own2(3)] b(2)] by blast
      note own3 = own_steps [OF own2(3) 3(2)]
      have s3: "steps {a} A Q K K3"
        using steps_trans [OF s2 own3(1)] .
      have y3: "s_val (k_syms K3 a) = s_val ?y" "s_tri (k_syms K3 a) = s_tri ?y"
        using same_entryD(2,3) [OF own3(2)] y2 by simp_all
      have m3: "more D (known_in A Q K2) (known_in A Q K3)" for D
        by (rule own_more_steps [OF own2(3) own3(1)])
      have lo3: "known_in A Q K3 lo = Some (table K2 lo)" "first_true (known_in A Q K3) (props_of P_RANGE ?y) = Some p"
        using m3 [of UNIV] 2(3) first_true_more [OF m3 first2] by (auto simp: more_def)
      show ?thesis
      proof (cases "?v \<le> bound_val base (table K3 hi)")
        case True
        then show ?thesis
          using base 1(1) 2(1) 3(1,3) ge pc lh y1 y3 s3 lo3 by (simp add: sym_validate_range_def spec_range_def)
      next
        case False
        let ?K4 = "upd_sym a (s_val_update (\<lambda>_. s_val (k_syms K3 hi))) K3"
        have m: "more D (known_in A Q K3) (known_in A Q ?K4)" for D
          by (rule own_more_steps [OF own3(3) upd [OF own3(3)]])
        have "known_in A Q ?K4 lo = Some (table K2 lo)" "known_in A Q ?K4 hi = Some (table K3 hi)"
            "first_true (known_in A Q ?K4) (props_of P_RANGE ?y) = Some p"
          using m [of UNIV] lo3(1) 3(3) first_true_more [OF m lo3(2)] by (auto simp: more_def)
        then show ?thesis
          using base 1(1) 2(1) 3(1) ge False pc lh y1 y3 steps_trans [OF s3 upd [OF own3(3)]]
          by (simp add: sym_validate_range_def spec_range_def val)
      qed
    qed
  qed
qed

lemma promoted_bool: "s_type y = S_BOOLEAN \<Longrightarrow> promoted m y t \<noteq> T_mod"
  by (simp add: promoted_def)

lemma calc_new_gives:
  assumes "own Q a K" "val = initial_val (s_type (k_syms K a))"
  shows "\<exists>t v K'. calc_new calc a val K = Some ((t, v), K') \<and> steps {a} A Q K K' \<and>
    (s_type (k_syms K a) = S_BOOLEAN \<longrightarrow> t \<noteq> T_mod) \<and>
    (if is_tri (s_type (k_syms K a)) then spec_tri (known_in A Q K') (k_modules_val K) (k_syms K a) = Some t \<and> v = val
     else spec_text (known_in A Q K') (k_syms K a) = Some v \<and> t = T_no)"
proof -
  have tri: "is_tri (sym_get_type K a) = is_tri (s_type (k_syms K a))"
    by (auto simp: sym_get_type_def is_tri_def)
  show ?thesis
  proof (cases "is_tri (s_type (k_syms K a))")
    case True
    then obtain t K' where 1: "calc_tristate calc a K = Some (t, K')" "steps {a} A Q K K'"
        "spec_tri (known_in A Q K') (k_modules_val K) (k_syms K a) = Some t"
      using calc_tristate_gives [OF assms(1)] unfolding gives_def by blast
    moreover have "s_type (k_syms K a) = S_BOOLEAN \<longrightarrow> t \<noteq> T_mod"
      using 1(3) promoted_bool by (fastforce simp: spec_tri_def bind_eq_Some_conv)
    ultimately show ?thesis
      using True tri by (simp add: calc_new_def)
  next
    case False
    then obtain v K' where "calc_text calc a val K = Some (v, K')" "steps {a} A Q K K'"
        "spec_text (known_in A Q K') (k_syms K a) = Some v"
      using calc_text_gives [OF assms] unfolding gives_def by blast
    then show ?thesis
      using False tri by (auto simp: calc_new_def)
  qed
qed

lemma finish_value_steps:
  assumes "own Q a K"
  shows "steps {a} A Q K (finish_value a old K)" "s_tri (k_syms (finish_value a old K) a) = s_tri (k_syms K a)"
    "s_val (k_syms (finish_value a old K) a) = s_val (k_syms K a)"
proof -
  have "k_modules K \<noteq> a"
    using assms by (auto simp: own_def env_def)
  then have eq: "finish_value a old K =
      (let K = (if old = (s_tri (k_syms K a), s_val (k_syms K a)) then K else upd_sym a (y_changed_update (\<lambda>_. True)) K)
       in if sym_is_choice K a then upd_sym a (y_write_update (\<lambda>_. False)) K else K)"
    by (simp add: finish_value_def Let_def)
  have 1: "steps {a} A Q K' (upd_sym a (y_write_update (\<lambda>_. False)) K')" "steps {a} A Q K' (upd_sym a (y_changed_update (\<lambda>_. True)) K')"
      "steps {a} A Q K' K'" if "own Q a K'" for K'
    using own_parts [OF that] by (auto intro: steps_upd steps_refl)
  define K1 where "K1 = (if old = (s_tri (k_syms K a), s_val (k_syms K a)) then K else upd_sym a (y_changed_update (\<lambda>_. True)) K)"
  have k1: "steps {a} A Q K K1"
    using 1 [OF assms] by (simp add: K1_def)
  show "steps {a} A Q K (finish_value a old K)"
    unfolding eq K1_def [symmetric] Let_def using steps_trans [OF k1] 1 [OF own_keep [OF assms k1]] k1 by auto
  show "s_tri (k_syms (finish_value a old K) a) = s_tri (k_syms K a)" "s_val (k_syms (finish_value a old K) a) = s_val (k_syms K a)"
    by (simp_all add: eq Let_def)
qed

lemma calc_known_settles:
  assumes "own Q a K" "s_type (k_syms K a) \<noteq> S_UNKNOWN"
  shows "\<exists>K'. calc_known calc a K = Some K' \<and> loose {a} A Q K K' \<and> settled (known_in A Q K') (k_modules_val K) (k_syms K' a)"
proof -
  let ?y = "k_syms K a" and ?m = "k_modules_val K"
  let ?val = "initial_val (s_type ?y)"
  let ?K0 = "upd_sym a (y_write_update (\<lambda>_. False)) K"
  have own0: "loose {a} A Q K ?K0" "own Q a ?K0"
    by (rule own_upd [OF assms(1)]; simp)+
  obtain K1 where 1: "sym_calc_visibility calc a ?K0 = Some K1" "loose {a} A Q ?K0 K1"
      "deps_settled (known_in A Q K1) ?m (k_syms K1 a)"
    using sym_calc_visibility_gives [OF own0(2)] by auto
  note own1 = own_loose [OF own0(2) 1(2)]
  define K2 where "K2 = set_curr a T_no ?val (if shown K1 a then set_write a K1 else K1)"
  have "steps {a} A Q K1 (if shown K1 a then set_write a K1 else K1)"
    using set_write_steps [OF own1] steps_refl own_parts(2) [OF own1] by simp
  from steps_trans [OF this set_curr_steps [OF own_keep [OF own1 this]]] have 2: "steps {a} A Q K1 K2"
    by (simp add: K2_def)
  note own2 = own_keep [OF own1 2]
  have l2: "loose {a} A Q K K2"
    using loose_trans [OF own0(1) loose_trans [OF 1(2) steps_loose [OF 2]]] .
  have "static_entry (k_syms K2 a) = static_entry ?y"
    using l2 keeps_same(4) [OF keeps_static [of "{a}" K K2]] by (simp add: loose_def)
  then have type: "s_type (k_syms K2 a) = s_type ?y"
    by (rule static_entryD(2))
  have m2: "k_modules_val K2 = ?m"
    using l2 by (simp add: loose_def)
  obtain t v K3 where 3: "calc_new calc a ?val K2 = Some ((t, v), K3)" "steps {a} A Q K2 K3"
      "s_type ?y = S_BOOLEAN \<longrightarrow> t \<noteq> T_mod"
      "if is_tri (s_type ?y) then spec_tri (known_in A Q K3) ?m (k_syms K2 a) = Some t \<and> v = ?val
       else spec_text (known_in A Q K3) (k_syms K2 a) = Some v \<and> t = T_no"
    using calc_new_gives [OF own2 arg_cong [OF type [symmetric], of initial_val]] unfolding type m2 by (elim exE conjE) (rule that)
  note own3 = own_keep [OF own2 3(2)]
  let ?K4 = "set_curr a t v K3"
  have "static_entry (k_syms K3 a) = static_entry (k_syms K2 a)"
    using steps_deps(1) [OF 3(2)] by (simp add: same_deps_def)
  from static_entryD(2) [OF this] type have type3: "s_type (k_syms K3 a) = s_type ?y"
    by simp
  have 4: "steps {a} A Q K3 ?K4"
    using set_curr_steps [OF own3] 3(3) type3 by simp
  note own4 = own_keep [OF own3 4]
  obtain K5 where 5: "sym_validate_range calc a ?K4 = Some K5" "steps {a} A Q ?K4 K5" "s_tri (k_syms K5 a) = t"
      "spec_range (known_in A Q K5) (k_syms ?K4 a) v = Some (s_val (k_syms K5 a))"
    using sym_validate_range_gives [OF own4] by (auto simp: set_curr_def)
  note own5 = own_keep [OF own4 5(2)]
  define K6 where "K6 = finish_value a (s_tri ?y, s_val ?y) K5"
  note 6 = finish_value_steps [OF own5, of "(s_tri ?y, s_val ?y)", folded K6_def]
  have s: "steps {a} A Q K2 K6" "steps {a} A Q K3 K6"
    using steps_trans [OF 3(2)] steps_trans [OF 4 steps_trans [OF 5(2) 6(1)]] by blast+
  have d: "same_deps (k_syms K6 a) (k_syms K2 a)" "same_deps (k_syms ?K4 a) (k_syms K2 a)" "same_deps (k_syms K6 a) (k_syms K1 a)"
    using steps_deps(1) [OF s(1)] steps_deps(1) [OF steps_trans [OF 3(2) 4]] steps_deps(1) [OF steps_trans [OF 2 s(1)]] by blast+
  have deps: "deps_settled (known_in A Q K6) ?m (k_syms K6 a)"
    unfolding same_deps_eqs(3) [OF d(3)]
    by (rule deps_settled_more [OF own_more_steps [OF own1 steps_trans [OF 2 s(1)]] 1(3)])
  have range: "spec_range (known_in A Q K6) (k_syms K6 a) v = Some (s_val (k_syms K6 a))"
    using spec_range_more [OF own_more_steps [OF own5 6(1)] 5(4)]
    unfolding same_deps_eqs(8) [OF d(1)] same_deps_eqs(8) [OF d(2)] 6(3) .
  have curr: "spec_curr (known_in A Q K6) ?m (k_syms K6 a) = Some (s_tri (k_syms K6 a), s_val (k_syms K6 a))"
  proof (cases "is_tri (s_type ?y)")
    case True
    then have "spec_tri (known_in A Q K6) ?m (k_syms K2 a) = Some t" "v = ?val"
      using spec_tri_more [OF own_more_steps [OF own3 s(2)]] 3(4) by auto
    moreover have "base_of (s_type (k_syms K6 a)) = None"
      using True d(1) type static_entryD(2) [of "k_syms K6 a" "k_syms K2 a"] by (auto simp: same_deps_def is_tri_def base_of_def)
    then have "s_val (k_syms K6 a) = v"
      using range by (simp add: spec_range_def)
    ultimately show ?thesis
      unfolding same_deps_eqs(4) [OF d(1)] using True type 5(3) 6(2) by (simp add: spec_curr_def)
  next
    case False
    then have "spec_text (known_in A Q K6) (k_syms K2 a) = Some v" "t = T_no"
      using spec_text_more [OF own_more_steps [OF own3 s(2)]] 3(4) by auto
    then show ?thesis
      unfolding same_deps_eqs(4) [OF d(1)] using False type 5(3) 6(2) range same_deps_eqs(8) [OF d(1)]
      by (simp add: spec_curr_def)
  qed
  have "calc_known calc a K = Some K6"
    using 1(1) 3(1) 5(1) by (simp add: calc_known_def Let_def K2_def K6_def)
  moreover have "loose {a} A Q K K6"
    using loose_trans [OF l2 steps_loose [OF s(1)]] .
  moreover have "s_type (k_syms K6 a) = s_type ?y"
    using d(1) type static_entryD(2) [of "k_syms K6 a" "k_syms K2 a"] by (simp add: same_deps_def)
  ultimately show ?thesis
    using deps curr assms(2) by (auto simp: settled_def)
qed

end

subsection \<open>The recursion\<close>

lemma known_less: "more D (known_in A (insert a Q) K) (known_in A Q K)"
  by (auto simp: more_def known_in_def)

text \<open>A calculation begins and ends.\<close>

lemma consistent_begin:
  assumes "consistent A Q K" "\<not> valid K a"
  shows "consistent A (insert a Q) (upd_sym a (y_valid_update (\<lambda>_. True)) K)"
proof -
  let ?K1 = "upd_sym a (y_valid_update (\<lambda>_. True)) K"
  have known: "known_in A (insert a Q) ?K1 = known_in A Q K"
  proof
    fix b
    show "known_in A (insert a Q) ?K1 b = known_in A Q K b"
      using assms(2) by (cases "b = a") (simp_all add: known_in_def valid_def table_def)
  qed
  have "settled (known_in A Q K) (k_modules_val K) (k_syms ?K1 b)" if "b \<in> A - consts3 - insert a Q" "valid ?K1 b" for b
    using that assms(1) unfolding consistent_def valid_def by simp
  then show ?thesis
    using assms(1) unfolding consistent_def known by simp
qed

lemma consistent_end:
  assumes "consistent A (insert a Q) K" "settled (known_in A (insert a Q) K) (k_modules_val K) (k_syms K a)"
  shows "consistent A Q K"
  unfolding consistent_def
proof (intro conjI ballI allI impI)
  fix b
  assume b: "b \<in> A - consts3 - Q" "valid K b"
  have "settled (known_in A (insert a Q) K) (k_modules_val K) (k_syms K b)"
  proof (cases "b = a")
    case False
    then show ?thesis
      using assms(1) b unfolding consistent_def by blast
  qed (use assms(2) in simp)
  then show "settled (known_in A Q K) (k_modules_val K) (k_syms K b)"
    by (rule settled_more [OF known_less])
next
  fix e v
  assume "k_cache K e = Some v \<and> expr_syms e \<subseteq> A"
  then show "peval (known_in A Q K) e = Some v"
    using assms(1) peval_more [OF known_less] unfolding consistent_def by blast
qed

lemma ordered_begin:
  assumes "ranked A r K" "consistent A Q K" "a \<in> A" "\<forall>q \<in> Q. r a < r q" "\<not> valid K a"
    and "ordered calc P A r" "P (upd_sym a (y_valid_update (\<lambda>_. True)) K)" "k_modules K \<notin> Q"
  shows "ordered.own P A r (insert a Q) a (upd_sym a (y_valid_update (\<lambda>_. True)) K)"
proof -
  let ?K1 = "upd_sym a (y_valid_update (\<lambda>_. True)) K"
  have "keeps {a} K ?K1"
    by (rule keeps_upd) auto
  then have "ranked A r ?K1"
    by (rule ranked_keeps [OF assms(1)])
  moreover have "k_modules K \<noteq> a"
    using assms(1,5) by (auto simp: ranked_def)
  moreover have "needs (k_syms ?K1 a) = needs (k_syms K a)"
    by (rule needs_static) simp
  then have "below A r (insert a Q) (needs (k_syms ?K1 a))"
    using assms(1,3,4) by (fastforce simp: below_def ranked_def)
  ultimately show ?thesis
    using assms consistent_begin [OF assms(2,5)]
    by (simp add: ordered.own_def [OF assms(6)] ordered.env_def [OF assms(6)] valid_def)
qed

lemma calc_value_ordered: "ordered (calc_value n) (bounded n) A r"
proof (induction n)
  case 0
  show ?case
    by (intro ordered.intro ordered_axioms.intro calc_value_level) (simp add: bounded_def)
next
  case (Suc n)
  show ?case
  proof (intro ordered.intro ordered_axioms.intro calc_value_level)
    fix K Q b
    assume K: "bounded (Suc n) K" "ranked A r K" "consistent A Q K" "b \<in> A" "\<forall>q \<in> Q. r b < r q" "k_modules K \<notin> Q"
    show "\<exists>K'. calc_value (Suc n) b K = Some K' \<and> steps {} A Q K K' \<and> valid K' b"
    proof (cases "valid K b")
      case True
      then show ?thesis
        using K(3) by (simp add: steps_refl valid_def)
    next
      case False
      let ?K1 = "upd_sym b (y_valid_update (\<lambda>_. True)) K" and ?Q = "insert b Q"
      have own: "ordered.own (bounded n) A r ?Q b ?K1"
        using ordered_begin [OF K(2-5) False Suc bounded_valid [OF K(1) False] K(6)] .
      have k1: "keeps {b} K ?K1"
        by (rule keeps_upd) auto
      have "\<exists>K'. calc_value (Suc n) b K = Some K' \<and> loose {b} A ?Q ?K1 K' \<and>
          settled (known_in A ?Q K') (k_modules_val ?K1) (k_syms K' b)"
      proof (cases "s_type (k_syms K b) = S_UNKNOWN")
        case True
        let ?v = "case s_name (k_syms K b) of Some n \<Rightarrow> n | None \<Rightarrow> []"
        have "loose {b} A ?Q ?K1 (set_curr b T_no ?v ?K1)"
          using ordered.set_curr_steps [OF Suc own, of T_no] by (simp add: steps_def)
        moreover have "settled l m (k_syms (set_curr b T_no ?v ?K1) b)" for l m
          using True by (simp add: settled_def set_curr_def)
        ultimately show ?thesis
          using True False by (simp add: valid_def Let_def)
      next
        case known: False
        then show ?thesis
          using ordered.calc_known_settles [OF Suc own] False by (simp add: valid_def Let_def)
      qed
      then obtain K' where K': "calc_value (Suc n) b K = Some K'" "loose {b} A ?Q ?K1 K'"
          "settled (known_in A ?Q K') (k_modules_val K') (k_syms K' b)"
        by (auto simp: loose_def)
      have "keeps {} K K'"
        using keeps_fresh [OF False keeps_trans [OF k1]] K'(2) by (simp add: loose_def)
      moreover have "consistent A Q K'"
        using consistent_end [OF _ K'(3)] K'(2) by (simp add: loose_def)
      moreover have "valid K' b"
        using K'(2) by (auto simp: loose_def keeps_def valid_def)
      ultimately show ?thesis
        using K'(1,2) by (auto simp: steps_def loose_def)
    qed
  qed
qed

interpretation ordered_levels: ordered "calc_value n" "bounded n" A r for n A r
  by (rule calc_value_ordered)

text \<open>C38. For symbols that depend on each other without circles and are in no choice, \<^verbatim>\<open>sym_calc_value\<close> computes
  the equations of the configuration language: the visibility, the dependencies and the value of every symbol
  that is then known are those that the equations give on the table of the known symbols. What was known and
  what was kept in the nodes of expressions stays right.\<close>

theorem sym_calc_value_solves:
  assumes "tab_ok K" "ranked A r K" "consistent A {} K" "a \<in> A"
  shows "\<exists>K'. sym_calc_value a K = Some K' \<and> valid K' a \<and> consistent A {} K' \<and>
    (a \<notin> consts3 \<longrightarrow> settled (known_in A {} K') (k_modules_val K') (k_syms K' a))"
proof -
  obtain K' where "sym_calc_value a K = Some K'" "steps {} A {} K K'" "valid K' a"
    using ordered_levels.calc_steps [OF tab_ok_bounded [OF assms(1)] assms(2,3,4)] by (auto simp: sym_calc_value_def)
  then show ?thesis
    using assms(4) by (auto simp: steps_def loose_def consistent_def)
qed

definition sample_set :: "sym set" where
  "sample_set = {2, 3, 4, 5, 6, 7, 11}"

definition sample_rank :: "sym \<Rightarrow> nat" where
  "sample_rank a = (if a = 6 then 2 else if a = 7 then 1 else 0)"

lemma sample_ranked: "ranked sample_set sample_rank sample_tab"
  by (simp add: ranked_def sample_set_def sample_rank_def sample_tab_def plain_def const_entry_def prompt_def default_value_def
      needs_def prompts_of_def props_of_def cond_syms_def prop_syms_def opt_syms_def valid_def)

lemma sample_consistent: "consistent sample_set {} sample_tab"
  by (simp add: consistent_def sample_set_def sample_tab_def plain_def const_entry_def valid_def)

theorem sym_calc_value_solves_witness:
  "\<exists>K'. sym_calc_value 6 sample_tab = Some K' \<and> valid K' 6 \<and> consistent sample_set {} K' \<and>
    settled (known_in sample_set {} K') (k_modules_val K') (k_syms K' 6)"
  using sym_calc_value_solves [OF sample_tab_ok(1) sample_ranked sample_consistent, of 6] by (simp add: sample_set_def)

end
