(* ===== verification/KconfigSet.thy ===== *)
theory KconfigSet
  imports KconfigFix
begin

text \<open>Setting values (config/symbol.c): what the front ends of the configuration tool call. The main result says
  that a value that is accepted is the value the symbol then has, after everything that depends on it was
  calculated anew.\<close>

subsection \<open>Operations\<close>

definition sym_tristate_within_range :: "ktab \<Rightarrow> sym \<Rightarrow> tristate \<Rightarrow> bool" where
  "sym_tristate_within_range K a val =
     (let type = sym_get_type K a; y = k_syms K a
      in if y_visible y = T_no then False
         else if type \<noteq> S_BOOLEAN \<and> type \<noteq> S_TRISTATE then False
         else if type = S_BOOLEAN \<and> val = T_mod then False
         else if y_visible y \<le> y_rev_tri y then False
         else val \<ge> y_rev_tri y \<and> val \<le> y_visible y)"

definition sym_is_changeable :: "ktab \<Rightarrow> sym \<Rightarrow> bool" where
  "sym_is_changeable K a \<longleftrightarrow> \<not> sym_is_choice K a \<and> y_visible (k_syms K a) > y_rev_tri (k_syms K a)"

definition set_user_tri :: "tristate \<Rightarrow> entry \<Rightarrow> entry" where
  "set_user_tri val y = y\<lparr> y_user_tri := val, y_has_value := True \<rparr>"

definition sym_set_tristate_value :: "sym \<Rightarrow> tristate \<Rightarrow> bool op" where
  "sym_set_tristate_value a val K =
     (let y = k_syms K a
      in if \<not> sym_tristate_within_range K a val then Some (False, K)
         else let K = (if \<not> y_has_value y \<or> y_user_tri y \<noteq> val
                       then upd_sym a (\<lambda>y. (set_user_tri val y)\<lparr> y_changed := True \<rparr>) K else K)
              in if s_tri y \<noteq> val then do { K \<leftarrow> sym_clear_all_valid K; Some (True, K) }
                 else Some (True, K))"

text \<open>Every visible member of a choice gets a value of the user and moves to the front of the list.\<close>

definition move_front :: "sym \<Rightarrow> sym list \<Rightarrow> sym list" where
  "move_front b bs = b # remove1 b bs"

definition choice_set_entry :: "nat \<Rightarrow> sym \<Rightarrow> sym \<Rightarrow> bool \<times> ktab \<Rightarrow> bool \<times> ktab" where
  "choice_set_entry c a b = (\<lambda>(changed, K).
     if \<not> shown K b then (changed, K)
     else let val = (if b = a then T_yes else T_no)
          in (changed \<or> s_tri (k_syms K b) \<noteq> val,
              (upd_sym b (set_user_tri val) K)\<lparr> k_choices := (k_choices K)(c := (k_choices K c)
                \<lparr> c_members := move_front b (c_members (k_choices K c)) \<rparr>) \<rparr>))"

definition choice_set_value :: "nat \<Rightarrow> sym \<Rightarrow> ktab \<Rightarrow> ktab option" where
  "choice_set_value c a K =
     (case fold (choice_set_entry c a) (c_entries (k_choices K c)) (False, K) of
        (changed, K) \<Rightarrow> if changed then sym_clear_all_valid K else Some K)"

primrec next_tri :: "tristate \<Rightarrow> tristate" where
  "next_tri T_no = T_mod"
| "next_tri T_mod = T_yes"
| "next_tri T_yes = T_no"

text \<open>The loop tries the next values in turn and stops at the old one: after three turns at the latest.\<close>

primrec toggle_loop :: "nat \<Rightarrow> sym \<Rightarrow> tristate \<Rightarrow> tristate \<Rightarrow> tristate op" where
  "toggle_loop 0 a oldval newval K = None"
| "toggle_loop (Suc n) a oldval newval K = do {
     let newval = next_tri newval;
     (ok, K) \<leftarrow> sym_set_tristate_value a newval K;
     if ok \<or> oldval = newval then Some (newval, K) else toggle_loop n a oldval newval K }"

definition sym_toggle_tristate_value :: "sym \<Rightarrow> tristate op" where
  "sym_toggle_tristate_value a K =
     (case y_choice_menu (k_syms K a) of
        Some c \<Rightarrow> do { K \<leftarrow> choice_set_value c a K; Some (T_yes, K) }
      | None \<Rightarrow> toggle_loop 3 a (s_tri (k_syms K a)) (s_tri (k_syms K a)) K)"

subsection \<open>Solutions are unique\<close>

text \<open>Entries with the same type and dependencies, whatever the value of the user is.\<close>

definition same_rules :: "entry \<Rightarrow> entry \<Rightarrow> bool" where
  "same_rules y' y \<longleftrightarrow> s_type y' = s_type y \<and> y_props y' = y_props y \<and> y_dir_dep y' = y_dir_dep y \<and>
     y_rev_dep y' = y_rev_dep y \<and> y_implied y' = y_implied y"

definition agree :: "sym set \<Rightarrow> known \<Rightarrow> known \<Rightarrow> bool" where
  "agree D l l' \<longleftrightarrow> (\<forall>x \<in> D. \<forall>s s'. l x = Some s \<longrightarrow> l' x = Some s' \<longrightarrow> s = s')"

definition join_known :: "sym set \<Rightarrow> known \<Rightarrow> known \<Rightarrow> known" where
  "join_known D l l' = (\<lambda>x. if x \<in> D then (case l x of None \<Rightarrow> l' x | Some s \<Rightarrow> Some s) else None)"

lemma join_more:
  assumes "agree D l l'"
  shows "more D l (join_known D l l')" "more D l' (join_known D l l')"
  using assms by (auto simp: more_def join_known_def agree_def split: option.splits)

lemma same_rules_static: "static_entry y' = static_entry y \<Longrightarrow> same_rules y' y"
  using static_entryD [of y' y] by (simp add: same_rules_def)

lemma deps_unique:
  assumes "deps_settled l m y" "deps_settled l' m y'" "same_rules y' y" "agree (needs y) l l'"
  shows "y_visible y' = y_visible y" "y_dir_tri y' = y_dir_tri y" "y_rev_tri y' = y_rev_tri y" "y_implied_tri y' = y_implied_tri y"
proof -
  let ?j = "join_known (needs y) l l'"
  have rules: "s_type y' = s_type y" "y_props y' = y_props y" "y_dir_dep y' = y_dir_dep y" "y_rev_dep y' = y_rev_dep y"
      "y_implied y' = y_implied y"
    using assms(3) by (simp_all add: same_rules_def)
  have "prompts_of y' = prompts_of y" "props_of t y' = props_of t y" for t
    by (simp_all add: prompts_of_def props_of_def rules)
  note parts = this rules
  have "needs y' = needs y"
    by (simp add: needs_def parts)
  then have j: "deps_settled ?j m y" "deps_settled ?j m y'"
    using deps_settled_more join_more [OF assms(4)] assms(1,2) by fastforce+
  have "spec_visible ?j m y' = spec_visible ?j m y" "spec_dep ?j m y' d none = spec_dep ?j m y d none" for d none
    by (simp_all add: spec_visible_def spec_dep_def promoted_def parts)
  then show "y_visible y' = y_visible y" "y_dir_tri y' = y_dir_tri y" "y_rev_tri y' = y_rev_tri y" "y_implied_tri y' = y_implied_tri y"
    using j by (simp_all add: deps_settled_def parts)
qed

lemma settled_unique:
  assumes "settled l m y" "settled l' m y'" "static_entry y' = static_entry y" "agree (needs y) l l'"
  shows "symbol.truncate y' = symbol.truncate y"
proof -
  note st = static_entryD(1-3) [OF assms(3)]
  have "s_tri y' = s_tri y \<and> s_val y' = s_val y"
  proof (cases "s_type y = S_UNKNOWN")
    case True
    then show ?thesis
      using assms(1,2) st by (simp add: settled_def)
  next
    case False
    then have s: "deps_settled l m y" "deps_settled l' m y'" "spec_curr l m y = Some (s_tri y, s_val y)"
        "spec_curr l' m y' = Some (s_tri y', s_val y')"
      using assms(1,2) st by (simp_all add: settled_def)
    have "same_deps y' y"
      using deps_unique [OF s(1,2) same_rules_static [OF assms(3)] assms(4)] assms(3) by (simp add: same_deps_def)
    note eq = same_deps_eqs [OF this]
    have "spec_curr (join_known (needs y) l l') m y = Some (s_tri y, s_val y)"
        "spec_curr (join_known (needs y) l l') m y = Some (s_tri y', s_val y')"
      using spec_curr_more [OF join_more(1) [OF assms(4)] s(3)] spec_curr_more [OF _ s(4)] join_more(2) [OF assms(4)]
      unfolding eq by blast+
    then show ?thesis
      by simp
  qed
  then show ?thesis
    using st by (simp add: symbol.truncate_def)
qed

text \<open>Two consistent tables of the same configuration agree, below a rank up to which they have the same values of
  the user.\<close>

lemma consistent_unique:
  assumes "consistent A {} K" "consistent A {} K'" "ranked A r K" "k_modules_val K' = k_modules_val K"
    and "\<forall>b \<in> consts3. table K' b = table K b"
    and "\<And>b. b \<in> A \<Longrightarrow> r b < n \<Longrightarrow> static_entry (k_syms K' b) = static_entry (k_syms K b)"
  shows "b \<in> A \<Longrightarrow> r b < n \<Longrightarrow> valid K b \<Longrightarrow> valid K' b \<Longrightarrow> table K' b = table K b"
proof (induction "r b" arbitrary: b rule: less_induct)
  case less
  show ?case
  proof (cases "b \<in> consts3")
    case False
    let ?l = "known_in A {} K" and ?l' = "known_in A {} K'"
    have s: "settled ?l (k_modules_val K) (k_syms K b)" "settled ?l' (k_modules_val K) (k_syms K' b)"
      using assms(1,2,4) less.prems False unfolding consistent_def by auto
    have "table K' x = table K x" if "x \<in> needs (k_syms K b)" "valid K x" "valid K' x" for x
      using less.hyps [of x] less.prems that assms(3) by (force simp: ranked_def)
    then have "agree (needs (k_syms K b)) ?l ?l'"
      by (auto simp: agree_def known_in_def split: if_splits)
    then show ?thesis
      using settled_unique [OF s assms(6)] less.prems by (simp add: table_def)
  qed (use assms(5) in blast)
qed

subsection \<open>A value that is set is taken\<close>

text \<open>A table between two calls, with the constants in it and no symbol MODULES, as for the firmware: then
  \<^verbatim>\<open>modules_sym\<close> is the constant n.\<close>

definition kconfig_ok :: "sym set \<Rightarrow> (sym \<Rightarrow> nat) \<Rightarrow> ktab \<Rightarrow> bool" where
  "kconfig_ok A r K \<longleftrightarrow> tab_ok K \<and> ranked A r K \<and> consistent A {} K \<and> consts3 \<subseteq> A \<and> A - consts3 \<subseteq> set (k_all K) \<and>
     set (k_all K) \<inter> consts3 = {} \<and> k_modules K \<in> consts3"

definition cleared :: "ktab \<Rightarrow> ktab" where
  "cleared K = (fold (\<lambda>a. upd_sym a (y_valid_update (\<lambda>_. False))) (k_all K) K)\<lparr> k_cache := \<lambda>_. None \<rparr>"

lemma fold_clear:
  "k_syms (fold (\<lambda>a. upd_sym a (y_valid_update (\<lambda>_. False))) bs K) b =
     (if b \<in> set bs then (k_syms K b)\<lparr> y_valid := False \<rparr> else k_syms K b)"
  "k_all (fold (\<lambda>a. upd_sym a (y_valid_update (\<lambda>_. False))) bs K) = k_all K"
  "k_choices (fold (\<lambda>a. upd_sym a (y_valid_update (\<lambda>_. False))) bs K) = k_choices K"
  "k_modules (fold (\<lambda>a. upd_sym a (y_valid_update (\<lambda>_. False))) bs K) = k_modules K"
  "k_modules_val (fold (\<lambda>a. upd_sym a (y_valid_update (\<lambda>_. False))) bs K) = k_modules_val K"
  by (induction bs arbitrary: K) auto

lemma cleared_sel [simp]:
  "k_syms (cleared K) b = (if b \<in> set (k_all K) then (k_syms K b)\<lparr> y_valid := False \<rparr> else k_syms K b)"
  "k_all (cleared K) = k_all K" "k_modules (cleared K) = k_modules K" "k_modules_val (cleared K) = k_modules_val K"
  "k_choices (cleared K) = k_choices K" "k_cache (cleared K) = (\<lambda>_. None)"
  by (simp_all add: cleared_def fold_clear)

lemma cleared_static: "static (cleared K) = static K"
  by (rule staticI) simp_all

lemma sym_calc_value_valid: "valid K a \<Longrightarrow> sym_calc_value a K = Some K"
  by (simp add: sym_calc_value_def valid_def)

text \<open>A change of the value of the user and a new start.\<close>

lemma cleared_ok:
  assumes "kconfig_ok A r K" "k_all K1 = k_all K" "k_choices K1 = k_choices K" "k_modules K1 = k_modules K"
    and "\<And>b. same_rules (k_syms K1 b) (k_syms K b) \<and> y_choice_link (k_syms K1 b) = y_choice_link (k_syms K b) \<and>
      y_choice_menu (k_syms K1 b) = y_choice_menu (k_syms K b) \<and> y_valid (k_syms K1 b) = y_valid (k_syms K b)"
  shows "kconfig_ok A r (cleared K1)" "sym_clear_all_valid K1 = Some (cleared K1)"
proof -
  have p: "y_props (k_syms K1 b) = y_props (k_syms K b)" for b
    using assms(5) [of b] by (simp add: same_rules_def)
  have props: "props_of t (k_syms K1 b) = props_of t (k_syms K b)" for t b
    by (simp add: props_of_def p)
  have needs: "needs (k_syms K1 b) = needs (k_syms K b)" for b
    using assms(5) [of b] by (simp add: needs_def prompts_of_def props p same_rules_def)
  have "wf_tab K1 = wf_tab K"
    using assms(3,5) by (simp add: wf_tab_def props)
  then have "wf_tab (cleared K1)"
    using assms(1) wf_static [OF cleared_static] by (simp add: kconfig_ok_def tab_ok_def)
  then have "tab_ok (cleared K1)"
    using assms(1,2,5) by (auto simp: kconfig_ok_def tab_ok_def valid_def)
  moreover have v: "valid (cleared K1) b" if "b \<in> consts3" for b
    using assms(1,2,5) that by (auto simp: kconfig_ok_def ranked_def valid_def)
  moreover have "needs (k_syms (cleared K1) b) = needs (k_syms K b)" for b
    using needs_static [of "(k_syms K1 b)\<lparr> y_valid := False \<rparr>" "k_syms K1 b"] needs [of b] by simp
  then have "ranked A r (cleared K1)"
    using assms(1,4,5) v by (auto simp: kconfig_ok_def ranked_def)
  moreover have "\<not> valid (cleared K1) b" if "b \<in> A - consts3" for b
    using assms(1,2) that by (auto simp: kconfig_ok_def valid_def)
  then have "consistent A {} (cleared K1)"
    by (auto simp: consistent_def)
  ultimately show "kconfig_ok A r (cleared K1)"
    using assms(1,2,4) by (simp add: kconfig_ok_def)
  show "sym_clear_all_valid K1 = Some (cleared K1)"
    unfolding sym_clear_all_valid_def cleared_def [symmetric]
    using assms(1,4) v by (intro sym_calc_value_valid) (simp add: kconfig_ok_def)
qed

lemma promoted_within:
  assumes "sym_tristate_within_range K a val" "y_visible y = y_visible (k_syms K a)" "y_rev_tri y = y_rev_tri (k_syms K a)"
    and "s_type y = s_type (k_syms K a)" "y_has_value y" "y_user_tri y = val"
  shows "spec_tri l (k_modules_val K) y = Some val"
proof -
  have w: "y_rev_tri (k_syms K a) \<le> val" "val \<le> y_visible (k_syms K a)" "y_visible (k_syms K a) \<noteq> T_no"
      "sym_get_type K a = S_BOOLEAN \<longrightarrow> val \<noteq> T_mod"
    using assms(1) by (auto simp: sym_tristate_within_range_def Let_def split: if_splits)
  have "EXPR_OR (EXPR_AND val (y_visible (k_syms K a))) (y_rev_tri (k_syms K a)) = val"
    using w(1,2) by (simp add: EXPR_OR_sup EXPR_AND_inf inf_absorb1 sup_absorb1)
  moreover have "promoted (k_modules_val K) y val = val"
    using w(4) assms(4) by (auto simp: promoted_def sym_get_type_def)
  ultimately show ?thesis
    using assms w(3) by (simp add: spec_tri_def)
qed

text \<open>After a new value of the user for one symbol, everything else that it needs is calculated to be what it was.\<close>

lemma recalculated:
  assumes "kconfig_ok A r K" "a \<in> A - consts3" "valid K a" "same_rules (f (k_syms K a)) (k_syms K a)"
    and "y_choice_link (f (k_syms K a)) = y_choice_link (k_syms K a)" "y_choice_menu (f (k_syms K a)) = y_choice_menu (k_syms K a)"
      "y_valid (f (k_syms K a)) = y_valid (k_syms K a)"
  shows "\<exists>K3. sym_clear_all_valid (upd_sym a f K) = Some (cleared (upd_sym a f K)) \<and>
    sym_calc_value a (cleared (upd_sym a f K)) = Some K3 \<and> static_entry (k_syms K3 a) = static_entry (f (k_syms K a)) \<and>
    settled (known_in A {} K3) (k_modules_val K) (k_syms K3 a) \<and> agree (needs (k_syms K a)) (known_in A {} K) (known_in A {} K3)"
proof -
  let ?y = "k_syms K a"
  define K1 where "K1 = upd_sym a f K"
  have rules: "same_rules (k_syms K1 b) (k_syms K b)" "b \<noteq> a \<Longrightarrow> k_syms K1 b = k_syms K b" for b
    using assms(4) by (auto simp: K1_def same_rules_def)
  have clear: "kconfig_ok A r (cleared K1)" "sym_clear_all_valid K1 = Some (cleared K1)"
    by (rule cleared_ok [OF assms(1)]; use assms(4-7) in \<open>auto simp: K1_def same_rules_def\<close>)+
  then obtain K3 where K3: "sym_calc_value a (cleared K1) = Some K3" "steps {} A {} (cleared K1) K3" "valid K3 a"
    using ordered_levels.calc_steps [OF tab_ok_bounded, of "cleared K1" A r "{}" a] assms(2)
    by (auto simp: sym_calc_value_def kconfig_ok_def)
  have st3: "static_entry (k_syms K3 b) = static_entry (k_syms K1 b)" for b
    using keeps_same(4) [OF keeps_static [of "{}" "cleared K1" K3]] K3(2) by (auto simp: steps_def loose_def)
  have m3: "k_modules_val K3 = k_modules_val K" "consistent A {} K3"
    using K3(2) by (simp_all add: steps_def loose_def K1_def)
  have K: "consistent A {} K" "ranked A r K"
    using assms(1) by (simp_all add: kconfig_ok_def)
  have fixed: "table K3 b = table K b" if "b \<in> consts3" for b
  proof -
    have b: "b \<in> A" "b \<notin> set (k_all K1)" "b \<noteq> a" "valid K b"
      using assms(1,2) that by (auto simp: kconfig_ok_def K1_def ranked_def)
    then have "keeps {} (cleared K1) K3"
      using K3(2) by (simp add: steps_def loose_def)
    moreover have "valid (cleared K1) b" "\<not> y_choice_link (k_syms (cleared K1) b)"
      using b K(2) rules(2) [OF b(3)] by (simp_all add: valid_def ranked_def)
    ultimately have "same_entry (k_syms K3 b) (k_syms (cleared K1) b)"
      unfolding keeps_def by blast
    then show ?thesis
      using b(2) rules(2) [OF b(3)] table_same [of K3 b K] by simp
  qed
  have "table K3 b = table K b" if "b \<in> needs ?y" "valid K b" "valid K3 b" for b
  proof (rule consistent_unique [OF K(1) m3(2) K(2) m3(1), where n = "r a"])
    show "b \<in> A" "r b < r a"
      using that(1) K(2) assms(2) by (auto simp: ranked_def)
    show "static_entry (k_syms K3 c) = static_entry (k_syms K c)" if "r c < r a" for c
      using st3 [of c] rules(2) [of c] that by (cases "c = a") simp_all
  qed (use fixed that in blast)+
  then have "agree (needs ?y) (known_in A {} K) (known_in A {} K3)"
    by (auto simp: agree_def known_in_def split: if_splits)
  moreover have "settled (known_in A {} K3) (k_modules_val K) (k_syms K3 a)"
    using m3 assms(2) K3(3) unfolding consistent_def by auto
  ultimately show ?thesis
    using clear(2) K3(1) st3 [of a] by (simp add: K1_def)
qed

lemma settled_valid:
  "kconfig_ok A r K \<Longrightarrow> a \<in> A - consts3 \<Longrightarrow> valid K a \<Longrightarrow> settled (known_in A {} K) (k_modules_val K) (k_syms K a)"
  unfolding kconfig_ok_def consistent_def by auto

lemma set_tristate_taken:
  assumes "kconfig_ok A r K" "a \<in> A - consts3" "valid K a"
  shows "if sym_tristate_within_range K a val
    then \<exists>K' K''. sym_set_tristate_value a val K = Some (True, K') \<and> sym_calc_value a K' = Some K'' \<and>
      s_tri (k_syms K'' a) = val \<and> s_type (k_syms K'' a) = s_type (k_syms K a)
    else sym_set_tristate_value a val K = Some (False, K)"
proof (cases "sym_tristate_within_range K a val")
  case False
  then show ?thesis
    by (simp add: sym_set_tristate_value_def Let_def)
next
  case range: True
  let ?y = "k_syms K a"
  define f where "f = (if \<not> y_has_value ?y \<or> y_user_tri ?y \<noteq> val then \<lambda>y. (set_user_tri val y)\<lparr> y_changed := True \<rparr> else (\<lambda>y. y))"
  define K1 where "K1 = upd_sym a f K"
  have f: "same_rules (f ?y) ?y" "y_choice_link (f ?y) = y_choice_link ?y" "y_choice_menu (f ?y) = y_choice_menu ?y"
      "y_valid (f ?y) = y_valid ?y" "y_has_value (f ?y)" "y_user_tri (f ?y) = val" "s_tri (f ?y) = s_tri ?y"
    by (simp_all add: f_def set_user_tri_def same_rules_def)
  have set_eq: "sym_set_tristate_value a val K =
      (if s_tri ?y \<noteq> val then do { K \<leftarrow> sym_clear_all_valid K1; Some (True, K) } else Some (True, K1))"
    using range unfolding sym_set_tristate_value_def Let_def K1_def f_def by (simp add: upd_sym_def)
  show ?thesis
  proof (cases "s_tri ?y = val")
    case True
    then have "sym_set_tristate_value a val K = Some (True, K1) \<and> sym_calc_value a K1 = Some K1 \<and> s_tri (k_syms K1 a) = val \<and>
        s_type (k_syms K1 a) = s_type ?y"
      using set_eq f(1,4,7) assms(3) sym_calc_value_valid [of K1 a] by (simp add: K1_def valid_def same_rules_def)
    then show ?thesis
      unfolding if_P [OF range] by blast
  next
    case False
    obtain K3 where K3: "sym_clear_all_valid K1 = Some (cleared K1)" "sym_calc_value a (cleared K1) = Some K3"
        "static_entry (k_syms K3 a) = static_entry (f ?y)" "settled (known_in A {} K3) (k_modules_val K) (k_syms K3 a)"
        "agree (needs ?y) (known_in A {} K) (known_in A {} K3)"
      using recalculated [where f = f, OF assms f(1-4)] unfolding K1_def by blast
    have tri: "is_tri (s_type ?y)"
      using range by (auto simp: sym_tristate_within_range_def sym_get_type_def is_tri_def Let_def split: if_splits)
    note st3 = static_entryD(2,4,5) [OF K3(3)]
    have type: "s_type (k_syms K3 a) = s_type ?y"
      using st3(1) f(1) by (simp add: same_rules_def)
    then have d: "deps_settled (known_in A {} K) (k_modules_val K) ?y"
        "deps_settled (known_in A {} K3) (k_modules_val K) (k_syms K3 a)"
        "spec_curr (known_in A {} K3) (k_modules_val K) (k_syms K3 a) = Some (s_tri (k_syms K3 a), s_val (k_syms K3 a))"
      using settled_valid [OF assms] K3(4) tri by (auto simp: settled_def is_tri_def)
    have "same_rules (k_syms K3 a) ?y"
      using same_rules_static [OF K3(3)] f(1) by (simp add: same_rules_def)
    note u = deps_unique [OF d(1,2) this K3(5)]
    have "spec_tri (known_in A {} K3) (k_modules_val K) (k_syms K3 a) = Some val"
      using promoted_within [OF range u(1,3) type] st3(2,3) f(5,6) by simp
    then have "s_tri (k_syms K3 a) = val"
      using d(3) tri type by (simp add: spec_curr_def)
    then show ?thesis
      unfolding if_P [OF range] using set_eq False K3(1,2) type by simp
  qed
qed


text \<open>The witness: without modules, WOL (5) has a prompt unless EXPERT (11), and both have been calculated.\<close>

definition sample_done :: "symbol_type \<Rightarrow> string \<Rightarrow> entry" where
  "sample_done t n = (plain (Some n) t)\<lparr> s_val := ''n'', y_dir_tri := T_yes, y_valid := True \<rparr>"

definition sample_menu :: ktab where
  "sample_menu = \<lparr> k_syms = (\<lambda>_. (plain None S_UNKNOWN)\<lparr> y_valid := True \<rparr>)
     (symbol_no := const_entry ''n'' T_no, symbol_mod := const_entry ''m'' T_mod, symbol_yes := const_entry ''y'' T_yes,
      5 := (sample_done S_TRISTATE ''WOL'')\<lparr> y_props := [prompt (Some (Not (Symbol 11)))], y_visible := T_yes,
        y_write := True \<rparr>,
      11 := sample_done S_BOOLEAN ''EXPERT''),
     k_all = [5, 11], k_choices = (\<lambda>_. \<lparr> c_sym = 0, c_members = [], c_entries = [] \<rparr>),
     k_modules = symbol_no, k_modules_val = T_no, k_cache = (\<lambda>_. None), k_warnings = 0 \<rparr>"

definition menu_set :: "sym set" where
  "menu_set = {2, 3, 4, 5, 11}"

definition menu_rank :: "sym \<Rightarrow> nat" where
  "menu_rank a = (if a = 5 then 1 else 0)"

lemmas sample_menu_defs = sample_menu_def sample_done_def plain_def const_entry_def prompt_def valid_def menu_set_def menu_rank_def

lemma menu_tab_ok: "tab_ok sample_menu"
  by (auto simp: tab_ok_def wf_tab_def sample_menu_defs props_of_def)

lemma menu_ranked: "ranked menu_set menu_rank sample_menu"
  by (simp add: ranked_def sample_menu_defs needs_def prompts_of_def props_of_def cond_syms_def prop_syms_def opt_syms_def)

lemma menu_consistent: "consistent menu_set {} sample_menu"
  by (simp add: consistent_def sample_menu_defs settled_def deps_settled_def spec_visible_def spec_dep_def spec_curr_def
      spec_tri_def spec_default_def prompts_of_def props_of_def peval_opt_def known_in_def table_def symbol.truncate_def
      promoted_def is_tri_def initial_val_def EXPR_OR_sup EXPR_AND_inf EXPR_NOT_def)


end
