(* ===== verification/KconfigText.thy ===== *)
theory KconfigText
  imports KconfigSet
begin

text \<open>Setting the value of a symbol from a text (config/symbol.c), as the front ends do with what the user types: the
  check of the text, the check of the range, and the assignment. A value of the user that the flag
  SYMBOL_DEF_USER does not announce is NULL, as \<^verbatim>\<open>conf_read_simple\<close> leaves it.\<close>

subsection \<open>Operations\<close>

definition letter_tri :: "string \<Rightarrow> tristate option" where
  "letter_tri s =
     (case s of
        [] \<Rightarrow> None
      | c # _ \<Rightarrow> if c = CHR ''y'' \<or> c = CHR ''Y'' then Some T_yes
                 else if c = CHR ''m'' \<or> c = CHR ''M'' then Some T_mod
                 else if c = CHR ''n'' \<or> c = CHR ''N'' then Some T_no else None)"

definition has_hex_prefix :: "string \<Rightarrow> bool" where
  "has_hex_prefix s \<longleftrightarrow> length s \<ge> 2 \<and> s ! 0 = CHR ''0'' \<and> (s ! 1 = CHR ''x'' \<or> s ! 1 = CHR ''X'')"

definition sym_string_valid :: "symbol_type \<Rightarrow> string \<Rightarrow> bool" where
  "sym_string_valid type str =
     (case type of
        S_STRING \<Rightarrow> True
      | S_INT \<Rightarrow>
          let s = (if str \<noteq> [] \<and> hd str = CHR ''-'' then tl str else str)
          in s \<noteq> [] \<and> is_digit 10 (hd s) \<and> \<not> (hd s = CHR ''0'' \<and> tl s \<noteq> []) \<and> list_all (is_digit 10) (tl s)
      | S_HEX \<Rightarrow>
          let s = (if has_hex_prefix str then drop 2 str else str)
          in s \<noteq> [] \<and> list_all isxdigit s
      | S_BOOLEAN \<Rightarrow> letter_tri str \<noteq> None
      | S_TRISTATE \<Rightarrow> letter_tri str \<noteq> None
      | S_UNKNOWN \<Rightarrow> False)"

definition sym_string_within_range :: "sym \<Rightarrow> string \<Rightarrow> bool op" where
  "sym_string_within_range a str K =
     (let type = s_type (k_syms K a)
      in case base_of type of
           Some base \<Rightarrow>
             if \<not> sym_string_valid type str then Some (False, K)
             else do {
               (p, K) \<leftarrow> sym_get_range_prop sym_calc_value a K;
               (case p of
                  None \<Rightarrow> Some (True, K)
                | Some (p, _) \<Rightarrow>
                    (case p_expr p of
                       Some (Range l r) \<Rightarrow> do {
                         let val = strtoll base str;
                         (val2, K) \<leftarrow> sym_get_range_val sym_calc_value l base K;
                         if val \<ge> val2 then do {
                           (val2, K) \<leftarrow> sym_get_range_val sym_calc_value r base K;
                           Some (val \<le> val2, K) }
                         else Some (False, K) }
                     | _ \<Rightarrow> None)) }
         | None \<Rightarrow>
             if type = S_STRING then Some (sym_string_valid type str, K)
             else Some (is_tri type \<and> (case letter_tri str of None \<Rightarrow> False | Some v \<Rightarrow> sym_tristate_within_range K a v), K))"

definition set_user_val :: "string \<Rightarrow> entry \<Rightarrow> entry" where
  "set_user_val val y = y\<lparr> y_user_val := val, y_has_value := True, y_changed := y_changed y \<or> \<not> y_has_value y \<rparr>"

definition sym_set_string_value :: "sym \<Rightarrow> string \<Rightarrow> bool op" where
  "sym_set_string_value a newval K =
     (if is_tri (s_type (k_syms K a))
      then (case letter_tri newval of
              Some v \<Rightarrow> sym_set_tristate_value a v K
            | None \<Rightarrow> Some (False, K))
      else do {
        (ok, K) \<leftarrow> sym_string_within_range a newval K;
        if \<not> ok then Some (False, K)
        else let y = k_syms K a
             in if s_type y = S_HEX \<and> \<not> has_hex_prefix newval
                then do {
                  K \<leftarrow> sym_clear_all_valid (upd_sym a (set_user_val (''0x'' @ newval)) K);
                  Some (True, K) }
                else if \<not> y_has_value y \<or> y_user_val y \<noteq> newval
                then do {
                  K \<leftarrow> sym_clear_all_valid (upd_sym a (set_user_val newval) K);
                  Some (True, K) }
                else Some (True, K) })"

text \<open>The default that the front ends write into a minimal configuration. \<^verbatim>\<open>symbol_no\<close> has the value n.\<close>

definition sym_get_string_default :: "sym \<Rightarrow> string op" where
  "sym_get_string_default a K = do {
     K \<leftarrow> sym_calc_visibility sym_calc_value a K;
     K \<leftarrow> sym_calc_value (k_modules K) K;
     (p, K) \<leftarrow> sym_get_default_prop sym_calc_value a K;
     (val, str, K) \<leftarrow>
       (case p of
          None \<Rightarrow> Some (T_no, '''', K)
        | Some (p, cond) \<Rightarrow>
            if is_tri (s_type (k_syms K a))
            then do { (v, K) \<leftarrow> calc_opt sym_calc_value (p_expr p) K; Some (EXPR_AND v cond, '''', K) }
            else (case prop_get_symbol p of
                    None \<Rightarrow> Some (T_no, '''', K)
                  | Some ds \<Rightarrow> do { K \<leftarrow> sym_calc_value ds K; Some (T_no, s_val (k_syms K ds), K) }));
     let y = k_syms K a;
     let val = EXPR_OR val (y_rev_tri y);
     let val = (if val = T_mod \<and> \<not> y_choice_link y \<and> s_tri (k_syms K (k_modules K)) = T_no then T_yes else val);
     let val = (if s_type y = S_BOOLEAN \<and> val = T_mod then T_yes else val);
     let val = (if val < y_implied_tri y then y_implied_tri y else val);
     Some (if is_tri (s_type y) then (case val of T_no \<Rightarrow> ''n'' | T_mod \<Rightarrow> ''m'' | T_yes \<Rightarrow> ''y'')
           else if s_type y = S_INT \<and> str = [] then ''0''
           else if s_type y = S_HEX \<and> str = [] then ''0x0'' else str, K) }"

subsection \<open>Texts of numbers\<close>

lemma hex_digits: "isxdigit c \<Longrightarrow> \<not> isspace c \<and> c \<noteq> CHR ''-'' \<and> c \<noteq> CHR ''+''"
  by (auto simp: isspace_def isxdigit_def is_digit_def digit_value_def split: if_splits)

text \<open>The prefix that is put in front of a hexadecimal number does not change it.\<close>

lemma strto_hex_prefix:
  assumes "s \<noteq> []" "list_all isxdigit s" "\<not> has_hex_prefix s"
  shows "strtoll 16 (''0x'' @ s) = strtoll 16 s"
proof -
  obtain c t where s: "s = c # t"
    using assms(1) by (cases s) auto
  then have c: "isxdigit c" "\<not> isspace c" "c \<noteq> CHR ''-''" "c \<noteq> CHR ''+''"
    using assms(2) hex_digits [of c] by auto
  have all: "\<forall>x \<in> set s. is_digit 16 x"
    using assms(2) by (simp add: list_all_iff isxdigit_def)
  then have take: "takeWhile (is_digit 16) t = t"
    by (simp add: takeWhile_eq_all_conv s)
  have "number_prefix 16 (''0x'' @ s) = (16, s)"
    using c(1) by (simp add: number_prefix_def s)
  moreover have "number_prefix 16 s = (16, s)"
    using assms(3) by (auto simp: number_prefix_def has_hex_prefix_def)
  moreover have "\<not> isspace (CHR ''0'')"
    by (simp add: isspace_def)
  ultimately have "fst (strto 16 (''0x'' @ s)) = int (digits_value 16 s)" "fst (strto 16 s) = int (digits_value 16 s)"
    using c all by (simp_all add: strto_def Let_def s take)
  then show ?thesis
    by (simp add: strtoll_def)
qed

subsection \<open>A value that is set is taken\<close>

lemma sym_calc_value_ordered: "ordered sym_calc_value tab_ok A r"
proof (intro ordered.intro calculation.intro ordered_axioms.intro)
  fix K Q b
  assume K: "tab_ok K" "ranked A r K" "consistent A Q K" "b \<in> A" "\<forall>q \<in> Q. r b < r q" "k_modules K \<notin> Q"
  then show "\<exists>K'. sym_calc_value b K = Some K' \<and> steps {} A Q K K' \<and> valid K' b"
    unfolding sym_calc_value_def by (intro ordered_levels.calc_steps tab_ok_bounded)
qed (erule sym_calc_value_runs, erule (1) tab_ok_keeps, simp add: tab_ok_def)

interpretation solver: ordered sym_calc_value tab_ok A r for A r
  by (rule sym_calc_value_ordered)

lemma kconfig_ok_steps:
  assumes "kconfig_ok A r K" "steps {} A {} K K'"
  shows "kconfig_ok A r K'"
proof -
  have k: "keeps {} K K'" "consistent A {} K'"
    using assms(2) by (simp_all add: steps_def loose_def)
  then show ?thesis
    using assms(1) tab_ok_keeps [OF _ k(1)] ranked_keeps [OF _ k(1)] keeps_same(1,3) [OF keeps_static [OF k(1)]]
    by (simp add: kconfig_ok_def)
qed

text \<open>A text in the range: the equations leave every text with the same number as it is.\<close>

lemma within_range_gives:
  assumes "kconfig_ok A r K" "a \<in> A" "\<not> is_tri (s_type (k_syms K a))"
  shows "\<exists>ok K'. sym_string_within_range a str K = Some (ok, K') \<and> steps {} A {} K K' \<and>
    (ok \<longrightarrow> sym_string_valid (s_type (k_syms K a)) str \<and>
      (\<forall>w. (\<forall>base. base_of (s_type (k_syms K a)) = Some base \<longrightarrow> strtoll base w = strtoll base str) \<longrightarrow>
         spec_range (known_in A {} K') (k_syms K a) w = Some w))"
proof -
  let ?y = "k_syms K a"
  have env: "solver.env A r {} K" and need: "needs ?y \<subseteq> A"
    using assms(1,2) by (simp_all add: solver.env_def kconfig_ok_def ranked_def)
  have refl: "steps {} A {} K K"
    using assms(1) by (intro steps_refl) (simp add: kconfig_ok_def)
  show ?thesis
  proof (cases "base_of (s_type ?y)")
    case None
    then show ?thesis
      using refl assms(3) by (auto simp: sym_string_within_range_def Let_def spec_range_def)
  next
    case base: (Some base)
    have b: "below A r {} X" if "X \<subseteq> prop_syms (props_of P_RANGE ?y)" for X
      using that need by (auto simp: below_def needs_def)
    obtain p K1 where 1: "sym_get_range_prop sym_calc_value a K = Some (p, K1)" "steps {} A {} K K1"
        "first_true (known_in A {} K1) (props_of P_RANGE ?y) = Some p"
      using solver.first_visible_gives [OF env b [OF prop_syms_in(2)]] unfolding gives_def sym_get_range_prop_def by blast
    show ?thesis
    proof (cases p)
      case None
      then show ?thesis
        using base 1 refl by (auto simp: sym_string_within_range_def Let_def spec_range_def)
    next
      case (Some pc)
      obtain q c where pc: "p = Some (q, c)"
        using Some by (cases pc) simp
      have q: "q \<in> set (props_of P_RANGE ?y)"
        using first_true_in 1(3) pc by blast
      moreover have "wf_tab K"
        using assms(1) by (simp add: kconfig_ok_def tab_ok_def)
      ultimately obtain lo hi where lh: "p_expr q = Some (Range lo hi)"
        unfolding wf_tab_def by blast
      have bounds: "below A r {} {lo}" "below A r {} {hi}"
        using prop_syms_in(1) [OF q] lh by (auto intro!: b simp: opt_syms_def)
      note env1 = solver.env_steps [OF env 1(2)]
      obtain K2 where 2: "sym_get_range_val sym_calc_value lo base K1 = Some (bound_val base (table K2 lo), K2)" "steps {} A {} K1 K2"
          "known_in A {} K2 lo = Some (table K2 lo)"
        using solver.range_val_gives [OF env1 bounds(1)] by blast
      note env2 = solver.env_steps [OF env1 2(2)]
      obtain K3 where 3: "sym_get_range_val sym_calc_value hi base K2 = Some (bound_val base (table K3 hi), K3)" "steps {} A {} K2 K3"
          "known_in A {} K3 hi = Some (table K3 hi)"
        using solver.range_val_gives [OF env2 bounds(2)] by blast
      have keeps: "keeps {} K2 K3" "keeps {} K1 K3"
        using 3(2) steps_trans [OF 2(2) 3(2)] by (simp_all add: steps_def loose_def)
      have more: "more UNIV (known_in A {} K2) (known_in A {} K3)" "more UNIV (known_in A {} K1) (known_in A {} K3)"
        using known_more [OF solver.env_ranked [OF env2] keeps(1)] known_more [OF solver.env_ranked [OF env1] keeps(2)] by blast+
      have l: "known_in A {} K3 lo = Some (table K2 lo)"
        using more(1) 2(3) unfolding more_def by blast
      have first: "first_true (known_in A {} K3) (props_of P_RANGE ?y) = Some p"
        by (rule first_true_more [OF more_subset [OF more(2) subset_UNIV] 1(3)])
      have s: "steps {} A {} K K2" "steps {} A {} K K3"
        using steps_trans [OF 1(2) 2(2)] steps_trans [OF 1(2) steps_trans [OF 2(2) 3(2)]] by blast+
      have "spec_range (known_in A {} K3) ?y w = Some w"
        if "strtoll base w = strtoll base str" "strtoll base str \<ge> bound_val base (table K2 lo)"
          "strtoll base str \<le> bound_val base (table K3 hi)" for w
        using that first pc lh l 3(3) by (simp add: spec_range_def base)
      moreover have "sym_string_within_range a str K =
          (if \<not> sym_string_valid (s_type ?y) str then Some (False, K)
           else if strtoll base str \<ge> bound_val base (table K2 lo) then Some (strtoll base str \<le> bound_val base (table K3 hi), K3)
           else Some (False, K2))"
        by (simp add: sym_string_within_range_def base 1(1) pc lh 2(1) 3(1))
      ultimately show ?thesis
        using s refl base
        by (cases "sym_string_valid (s_type ?y) str"; cases "strtoll base str \<ge> bound_val base (table K2 lo)"; force)
    qed
  qed
qed

text \<open>The text that a symbol has after the assignment.\<close>

definition taken_text :: "symbol_type \<Rightarrow> string \<Rightarrow> string" where
  "taken_text type s =
     (if is_tri type then (case letter_tri s of Some T_yes \<Rightarrow> ''y'' | Some T_mod \<Rightarrow> ''m'' | _ \<Rightarrow> ''n'')
      else if type = S_HEX \<and> \<not> has_hex_prefix s then ''0x'' @ s else s)"

lemma taken_number:
  assumes "sym_string_valid t s" "base_of t = Some base"
  shows "strtoll base (taken_text t s) = strtoll base s"
  using assms strto_hex_prefix [of s]
  by (auto simp: base_of_def taken_text_def is_tri_def sym_string_valid_def Let_def split: if_splits)

lemma text_settled:
  assumes "settled l' m y'" "agree (needs y) l l'" "same_rules y' y" "deps_settled l m y" "\<not> is_tri (s_type y)" "s_type y \<noteq> S_UNKNOWN"
    and "y_visible y \<noteq> T_no" "y_has_value y'" "y_user_val y' = w" "spec_range l y w = Some w"
  shows "s_val y' = w"
proof -
  have type: "s_type y' = s_type y" "y_props y' = y_props y"
    using assms(3) by (simp_all add: same_rules_def)
  then have s: "deps_settled l' m y'" "spec_curr l' m y' = Some (s_tri y', s_val y')"
    using assms(1,6) by (simp_all add: settled_def)
  have "y_visible y' \<noteq> T_no"
    using deps_unique(1) [OF assms(4) s(1) assms(3,2)] assms(7) by simp
  then have 1: "spec_range l' y' w = Some (s_val y')"
    using s(2) type assms(5,8,9) by (auto simp: spec_curr_def spec_text_def bind_eq_Some_conv)
  have eq: "spec_range k y' w = spec_range k y w" for k
    unfolding spec_range_def type(1) props_of_def type(2) ..
  have "spec_range (join_known (needs y) l l') y w = Some w"
    by (rule spec_range_more [OF join_more(1) [OF assms(2)] assms(10)])
  moreover have "spec_range (join_known (needs y) l l') y w = Some (s_val y')"
    using 1 unfolding eq by (rule spec_range_more [OF join_more(2) [OF assms(2)]])
  ultimately show ?thesis
    by simp
qed

text \<open>In a configuration without circles, choices and modules: the assignment of a text returns; if it accepts the
  text and the symbol is visible, the text of the symbol is then the one assigned, with the prefix of a
  hexadecimal number, or the letter of a tristate. (A tristate that is not visible accepts nothing; a number or a
  text is accepted also when the symbol is not visible, and has no effect then.)\<close>

theorem sym_set_string_value_takes:
  assumes "kconfig_ok A r K" "a \<in> A - consts3" "valid K a"
  shows "\<exists>ok K'. sym_set_string_value a str K = Some (ok, K') \<and>
    (ok \<and> (is_tri (s_type (k_syms K a)) \<or> shown K a) \<longrightarrow>
      (\<exists>K''. sym_calc_value a K' = Some K'' \<and> sym_get_string_value (table K'' a) = taken_text (s_type (k_syms K a)) str))"
proof (cases "is_tri (s_type (k_syms K a))")
  case True
  then show ?thesis
  proof (cases "letter_tri str")
    case (Some v)
    then have eq: "sym_set_string_value a str K = sym_set_tristate_value a v K"
      using True by (simp add: sym_set_string_value_def)
    show ?thesis
    proof (cases "sym_tristate_within_range K a v")
      case within: True
      then obtain K' K'' where "sym_set_tristate_value a v K = Some (True, K')" "sym_calc_value a K' = Some K''"
          "s_tri (k_syms K'' a) = v" "s_type (k_syms K'' a) = s_type (k_syms K a)"
        using set_tristate_taken [OF assms, of v] by auto
      then show ?thesis
        using Some True by (cases v) (auto simp: eq taken_text_def sym_get_string_value_def table_def symbol.truncate_def is_tri_def)
    next
      case False
      then show ?thesis
        using set_tristate_taken [OF assms, of v] by (auto simp: eq)
    qed
  qed (auto simp: sym_set_string_value_def True)
next
  case plain: False
  let ?t = "s_type (k_syms K a)" and ?w = "taken_text (s_type (k_syms K a)) str"
  have A: "a \<in> A"
    using assms(2) by blast
  obtain ok K0 where 0: "sym_string_within_range a str K = Some (ok, K0)" "steps {} A {} K K0"
      "ok \<Longrightarrow> sym_string_valid ?t str \<and> (\<forall>w. (\<forall>base. base_of ?t = Some base \<longrightarrow> strtoll base w = strtoll base str) \<longrightarrow>
         spec_range (known_in A {} K0) (k_syms K a) w = Some w)"
    using within_range_gives [OF assms(1) A plain, of str] by blast
  note ok0 = kconfig_ok_steps [OF assms(1) 0(2)]
  let ?y = "k_syms K0 a"
  have same: "same_entry ?y (k_syms K a)"
    using steps_own(2) [OF 0(2), of r "{a}" a] assms A by (auto simp: kconfig_ok_def)
  note st = static_entryD [OF same_entryD(1) [OF same]] and dyn = same_entryD [OF same]
  have valid0: "valid K0 a"
    using assms(3) dyn(8) by (simp add: valid_def)
  show ?thesis
  proof (cases ok)
    case False
    then show ?thesis
      using 0(1) plain by (auto simp: sym_set_string_value_def)
  next
    case True
    then have v: "sym_string_valid ?t str"
      using 0(3) by blast
    then have t: "?t \<noteq> S_UNKNOWN"
      by (auto simp: sym_string_valid_def)
    have "spec_range (known_in A {} K0) (k_syms K a) ?w = Some ?w"
      using 0(3) [OF True] taken_number [OF v] by blast
    then have range: "spec_range (known_in A {} K0) ?y ?w = Some ?w"
      unfolding spec_range_def st .
    have set0: "settled (known_in A {} K0) (k_modules_val K0) ?y"
      by (rule settled_valid [OF ok0 assms(2) valid0])
    then have d: "deps_settled (known_in A {} K0) (k_modules_val K0) ?y"
      using t by (simp add: settled_def st)
    have take: "s_val y' = ?w"
      if "settled l' (k_modules_val K0) y'" "agree (needs ?y) (known_in A {} K0) l'" "same_rules y' ?y"
        "y_has_value y'" "y_user_val y' = ?w" "shown K a" for y' l'
      using text_settled [OF that(1-3) d _ _ _ that(4,5) range] plain t that(6) by (simp add: st dyn shown_def)
    have result: "sym_get_string_value (table K'' a) = s_val (k_syms K'' a)" if "s_type (k_syms K'' a) = ?t" for K''
      using that plain by (simp add: sym_get_string_value_def table_def symbol.truncate_def is_tri_def)
    show ?thesis
    proof (cases "(?t = S_HEX \<and> \<not> has_hex_prefix str) \<or> \<not> y_has_value ?y \<or> y_user_val ?y \<noteq> str")
      case change: True
      let ?K1 = "upd_sym a (set_user_val ?w) K0"
      have same1: "same_rules (set_user_val ?w ?y) ?y"
        by (simp add: set_user_val_def same_rules_def)
      obtain K3 where K3: "sym_clear_all_valid ?K1 = Some (cleared ?K1)" "sym_calc_value a (cleared ?K1) = Some K3"
          "static_entry (k_syms K3 a) = static_entry (set_user_val ?w ?y)"
          "settled (known_in A {} K3) (k_modules_val K0) (k_syms K3 a)" "agree (needs ?y) (known_in A {} K0) (known_in A {} K3)"
        using recalculated [where f = "set_user_val ?w", OF ok0 assms(2) valid0 same1] by (auto simp: set_user_val_def)
      note st3 = static_entryD [OF K3(3)]
      have "same_rules (k_syms K3 a) ?y"
        using same_rules_static [OF K3(3)] same1 by (simp add: same_rules_def)
      then have "s_val (k_syms K3 a) = ?w" if "shown K a"
        using take [OF K3(4,5) _ _ _ that] st3 by (simp add: set_user_val_def)
      moreover have "s_type (k_syms K3 a) = ?t"
        using st3 by (simp add: set_user_val_def st)
      moreover have "sym_set_string_value a str K = Some (True, cleared ?K1)"
        using 0(1) True plain change K3(1) by (auto simp: sym_set_string_value_def Let_def st taken_text_def)
      ultimately show ?thesis
        using K3(2) plain result by auto
    next
      case False
      have "agree (needs ?y) (known_in A {} K0) (known_in A {} K0)"
        by (simp add: agree_def)
      moreover have "?w = str"
        using False plain by (auto simp: taken_text_def)
      ultimately have "s_val ?y = ?w" if "shown K a"
        using take [OF set0 _ _ _ _ that] False by (simp add: same_rules_def)
      moreover have "sym_set_string_value a str K = Some (True, K0)"
        using 0(1) True plain False by (auto simp: sym_set_string_value_def Let_def st)
      ultimately show ?thesis
        using sym_calc_value_valid [OF valid0] plain result [of K0] st(2) by auto
    qed
  qed
qed

theorem sym_set_string_value_takes_witness:
  "\<exists>ok K'. sym_set_string_value 5 ''Yes'' sample_menu = Some (ok, K') \<and>
    (ok \<longrightarrow> (\<exists>K''. sym_calc_value 5 K' = Some K'' \<and> sym_get_string_value (table K'' 5) = ''y''))"
proof -
  have "kconfig_ok menu_set menu_rank sample_menu"
    by (simp add: kconfig_ok_def menu_tab_ok menu_ranked menu_consistent) (simp add: sample_menu_defs)
  moreover have "is_tri (s_type (k_syms sample_menu 5))" "taken_text (s_type (k_syms sample_menu 5)) ''Yes'' = ''y''"
    by (simp_all add: sample_menu_defs is_tri_def taken_text_def letter_tri_def)
  ultimately show ?thesis
    using sym_set_string_value_takes [of menu_set menu_rank sample_menu 5 "''Yes''"] by (simp add: sample_menu_defs)
qed

end
