(* ===== verification/KconfigCheck.thy ===== *)
theory KconfigCheck
  imports KconfigFix
begin

text \<open>The search for circles (\<^verbatim>\<open>sym_check_deps\<close> of config/symbol.c), which the parser runs over all symbols before
  any value is calculated: a search in depth with the flags SYMBOL_CHECK (being visited) and SYMBOL_CHECKED. The
  main result says that it finds no circle exactly when the symbols can be ranked, which is what
  \<^verbatim>\<open>sym_calc_value_solves\<close> asks for. The stack that the error message is printed from is not in the model.\<close>

subsection \<open>Operations\<close>

record marks =
  on_stack :: "sym \<Rightarrow> bool"
  checked :: "sym \<Rightarrow> bool"

type_synonym checker = "sym \<Rightarrow> marks \<Rightarrow> (sym option \<times> marks) option"

definition or_else ::
  "(marks \<Rightarrow> (sym option \<times> marks) option) \<Rightarrow> (marks \<Rightarrow> (sym option \<times> marks) option) \<Rightarrow> marks \<Rightarrow> (sym option \<times> marks) option" where
  "or_else f g M = do { (sym2, M) \<leftarrow> f M; if sym2 \<noteq> None then Some (sym2, M) else g M }"

primrec sym_check_expr_deps :: "checker \<Rightarrow> expr \<Rightarrow> marks \<Rightarrow> (sym option \<times> marks) option" where
  "sym_check_expr_deps check (Symbol a) = check a"
| "sym_check_expr_deps check (And l r) = or_else (sym_check_expr_deps check l) (sym_check_expr_deps check r)"
| "sym_check_expr_deps check (Or l r) = or_else (sym_check_expr_deps check l) (sym_check_expr_deps check r)"
| "sym_check_expr_deps check (Not e) = sym_check_expr_deps check e"
| "sym_check_expr_deps check (Comp rel a b) = or_else (check a) (check b)"
| "sym_check_expr_deps check (Range a b) = (\<lambda>M. Some (None, M))"

definition check_opt :: "checker \<Rightarrow> expr option \<Rightarrow> marks \<Rightarrow> (sym option \<times> marks) option" where
  "check_opt check e = (case e of None \<Rightarrow> (\<lambda>M. Some (None, M)) | Some e \<Rightarrow> sym_check_expr_deps check e)"

text \<open>The loop over the properties: all conditions but those of select and imply, and the values of defaults.\<close>

primrec check_props :: "checker \<Rightarrow> bool \<Rightarrow> property list \<Rightarrow> marks \<Rightarrow> (sym option \<times> marks) option" where
  "check_props check is_choice [] = (\<lambda>M. Some (None, M))"
| "check_props check is_choice (p # ps) =
     (if p_type p = P_SELECT \<or> p_type p = P_IMPLY then check_props check is_choice ps
      else or_else (check_opt check (p_visible p))
        (if p_type p \<noteq> P_DEFAULT \<or> is_choice then check_props check is_choice ps
         else or_else (check_opt check (p_expr p)) (check_props check is_choice ps)))"

definition sym_check_sym_deps :: "checker \<Rightarrow> ktab \<Rightarrow> sym \<Rightarrow> marks \<Rightarrow> (sym option \<times> marks) option" where
  "sym_check_sym_deps check K a =
     (let y = k_syms K a
      in or_else (check_opt check (y_dir_dep y)) (or_else (check_opt check (y_rev_dep y))
           (or_else (check_opt check (y_implied y)) (check_props check (sym_is_choice K a) (y_props y)))))"

definition set_checks :: "sym list \<Rightarrow> marks \<Rightarrow> marks" where
  "set_checks bs M = M\<lparr> on_stack := (\<lambda>b. b \<in> set bs \<or> on_stack M b), checked := (\<lambda>b. b \<in> set bs \<or> checked M b) \<rparr>"

definition clear_check :: "sym list \<Rightarrow> marks \<Rightarrow> marks" where
  "clear_check bs M = M\<lparr> on_stack := (\<lambda>b. b \<notin> set bs \<and> on_stack M b) \<rparr>"

primrec check_entries :: "checker \<Rightarrow> ktab \<Rightarrow> sym list \<Rightarrow> marks \<Rightarrow> (sym option \<times> marks) option" where
  "check_entries check K [] = (\<lambda>M. Some (None, M))"
| "check_entries check K (b # bs) = or_else (sym_check_sym_deps check K b) (check_entries check K bs)"

text \<open>The choice \<^verbatim>\<open>c\<close> of the choice symbol \<^verbatim>\<open>a\<close>: a circle that ends in one of its members ends in it.\<close>

definition sym_check_choice_deps :: "checker \<Rightarrow> ktab \<Rightarrow> nat \<Rightarrow> sym \<Rightarrow> marks \<Rightarrow> (sym option \<times> marks) option" where
  "sym_check_choice_deps check K c a M = do {
     let bs = c_entries (k_choices K c);
     (sym2, M) \<leftarrow> sym_check_sym_deps check K a (set_checks [a] (set_checks bs M));
     let M = clear_check [a] M;
     (sym2, M) \<leftarrow> (if sym2 \<noteq> None then Some (sym2, M) else check_entries check K bs M);
     let M = clear_check bs M;
     Some (case sym2 of
             None \<Rightarrow> None
           | Some b \<Rightarrow> if y_choice_menu (k_syms K b) = Some c then Some a else Some b, M) }"

text \<open>\<^verbatim>\<open>sym_check_deps\<close> with a bound on the depth; \<^verbatim>\<open>menu_of\<close> gives the first menu of a choice symbol.\<close>

primrec check_deps :: "nat \<Rightarrow> ktab \<Rightarrow> (sym \<Rightarrow> nat) \<Rightarrow> checker" where
  "check_deps 0 K menu_of a M = None"
| "check_deps (Suc n) K menu_of a M =
     (if on_stack M a then Some (Some a, M)
      else if checked M a then Some (None, M)
      else case y_choice_menu (k_syms K a) of
             Some c \<Rightarrow> check_deps n K menu_of (c_sym (k_choices K c)) M
           | None \<Rightarrow>
               if sym_is_choice K a then sym_check_choice_deps (check_deps n K menu_of) K (menu_of a) a M
               else do {
                 (sym2, M) \<leftarrow> sym_check_sym_deps (check_deps n K menu_of) K a (set_checks [a] M);
                 Some (sym2, clear_check [a] M) })"

definition sym_check_deps :: "ktab \<Rightarrow> (sym \<Rightarrow> nat) \<Rightarrow> checker" where
  "sym_check_deps K menu_of = check_deps (2 * (length (k_all K) + 3) + 1) K menu_of"

text \<open>What the parser does at the end: the number of symbols for which a circle is found. In the first marks the
  symbols that do not exist count as checked.\<close>

primrec check_all :: "ktab \<Rightarrow> (sym \<Rightarrow> nat) \<Rightarrow> sym list \<Rightarrow> marks \<Rightarrow> (nat \<times> marks) option" where
  "check_all K menu_of [] M = Some (0, M)"
| "check_all K menu_of (a # as) M = do {
     (sym2, M) \<leftarrow> sym_check_deps K menu_of a M;
     (n, M) \<leftarrow> check_all K menu_of as M;
     Some (if sym2 \<noteq> None then n + 1 else n, M) }"

definition no_marks :: "ktab \<Rightarrow> marks" where
  "no_marks K = \<lparr> on_stack = (\<lambda>_. False), checked = (\<lambda>a. a \<notin> set (k_all K) \<union> consts3) \<rparr>"

subsection \<open>The dependencies as a list\<close>

primrec visit :: "checker \<Rightarrow> sym list \<Rightarrow> marks \<Rightarrow> (sym option \<times> marks) option" where
  "visit check [] = (\<lambda>M. Some (None, M))"
| "visit check (b # bs) = or_else (check b) (visit check bs)"

primrec expr_deps :: "expr \<Rightarrow> sym list" where
  "expr_deps (Symbol a) = [a]"
| "expr_deps (And l r) = expr_deps l @ expr_deps r"
| "expr_deps (Or l r) = expr_deps l @ expr_deps r"
| "expr_deps (Not e) = expr_deps e"
| "expr_deps (Comp rel a b) = [a, b]"
| "expr_deps (Range a b) = []"

definition opt_deps :: "expr option \<Rightarrow> sym list" where
  "opt_deps e = (case e of None \<Rightarrow> [] | Some e \<Rightarrow> expr_deps e)"

definition prop_deps :: "bool \<Rightarrow> property \<Rightarrow> sym list" where
  "prop_deps is_choice p =
     (if p_type p = P_SELECT \<or> p_type p = P_IMPLY then []
      else opt_deps (p_visible p) @ (if p_type p \<noteq> P_DEFAULT \<or> is_choice then [] else opt_deps (p_expr p)))"

definition deps :: "ktab \<Rightarrow> sym \<Rightarrow> sym list" where
  "deps K a =
     (let y = k_syms K a
      in opt_deps (y_dir_dep y) @ opt_deps (y_rev_dep y) @ opt_deps (y_implied y) @
         concat (map (prop_deps (sym_is_choice K a)) (y_props y)))"

lemma or_else_assoc: "or_else (or_else f g) h = or_else f (or_else g h)"
  by (rule ext) (auto simp: or_else_def split: option.splits Option.bind_splits)

lemma or_else_None [simp]: "or_else (\<lambda>M. Some (None, M)) f = f" "or_else f (\<lambda>M. Some (None, M)) = f"
  by (rule ext; auto simp: or_else_def split: Option.bind_splits)+

lemma visit_append: "visit check (bs @ cs) = or_else (visit check bs) (visit check cs)"
  by (induction bs) (simp_all add: or_else_assoc)

lemma check_expr_visit: "sym_check_expr_deps check e = visit check (expr_deps e)"
  by (induction e) (simp_all add: visit_append)

lemma check_opt_visit: "check_opt check e = visit check (opt_deps e)"
  by (cases e) (simp_all add: check_opt_def opt_deps_def check_expr_visit)

lemma check_props_visit: "check_props check c ps = visit check (concat (map (prop_deps c) ps))"
  by (cases c; induction ps) (simp_all add: prop_deps_def visit_append check_opt_visit or_else_assoc)

lemma check_sym_visit: "sym_check_sym_deps check K a = visit check (deps K a)"
  by (simp add: sym_check_sym_deps_def deps_def Let_def visit_append check_opt_visit check_props_visit)

lemma check_entries_visit: "check_entries check K bs = visit check (concat (map (deps K) bs))"
  by (induction bs) (simp_all add: visit_append check_sym_visit)

lemma marks_sel [simp]:
  "on_stack (set_checks bs M) b \<longleftrightarrow> b \<in> set bs \<or> on_stack M b" "checked (set_checks bs M) b \<longleftrightarrow> b \<in> set bs \<or> checked M b"
  "on_stack (clear_check bs M) b \<longleftrightarrow> b \<notin> set bs \<and> on_stack M b" "checked (clear_check bs M) = checked M"
  by (simp_all add: set_checks_def clear_check_def)

subsection \<open>The search ends\<close>

definition open_syms :: "marks \<Rightarrow> sym set" where
  "open_syms M = {a. \<not> checked M a}"

definition ends :: "nat \<Rightarrow> marks \<Rightarrow> (sym option \<times> marks) option \<Rightarrow> bool" where
  "ends k M r \<longleftrightarrow> finite (open_syms M) \<longrightarrow> card (open_syms M) \<le> k \<longrightarrow> (\<exists>s M'. r = Some (s, M') \<and> open_syms M' \<subseteq> open_syms M)"

lemma open_sel [simp]:
  "open_syms (set_checks bs M) = open_syms M - set bs" "open_syms (clear_check bs M) = open_syms M"
  by (auto simp: open_syms_def)

lemma ends_bind:
  assumes "ends k M r" "\<And>s M'. r = Some (s, M') \<Longrightarrow> open_syms M' \<subseteq> open_syms M \<Longrightarrow> ends k M' (f s M')"
  shows "ends k M (do { (s, M') \<leftarrow> r; f s M' })"
  unfolding ends_def
proof (intro impI)
  assume M: "finite (open_syms M)" "card (open_syms M) \<le> k"
  then obtain s M' where r: "r = Some (s, M')" "open_syms M' \<subseteq> open_syms M"
    using assms(1) by (auto simp: ends_def)
  moreover have "finite (open_syms M')" "card (open_syms M') \<le> k"
    using M r(2) card_mono [OF M(1) r(2)] by (auto intro: finite_subset)
  ultimately show "\<exists>s M'. (do { (s, M') \<leftarrow> r; f s M' }) = Some (s, M') \<and> open_syms M' \<subseteq> open_syms M"
    using assms(2) [OF r] by (auto simp: ends_def)
qed

lemma ends_Some [simp]: "open_syms M' \<subseteq> open_syms M \<Longrightarrow> ends k M (Some (s, M'))"
  by (simp add: ends_def)

lemma ends_clear: "ends k (clear_check bs M) r \<Longrightarrow> ends k M r"
  by (simp add: ends_def)

lemma ends_visit: "(\<And>b M. ends k M (check b M)) \<Longrightarrow> ends k M (visit check bs M)"
  by (induction bs arbitrary: M) (auto simp: or_else_def intro!: ends_bind)

lemma ends_smaller:
  assumes "ends k M r" "open_syms M \<subset> open_syms M0"
  shows "ends (Suc k) M0 r"
  unfolding ends_def
proof (intro impI)
  assume M: "finite (open_syms M0)" "card (open_syms M0) \<le> Suc k"
  then have "finite (open_syms M)" "card (open_syms M) \<le> k"
    using psubset_card_mono [OF M(1) assms(2)] assms(2) by (auto intro: finite_subset)
  then show "\<exists>s M'. r = Some (s, M') \<and> open_syms M' \<subseteq> open_syms M0"
    using assms by (fastforce simp: ends_def)
qed

text \<open>What the parser guarantees: a member of a choice has a choice symbol, which is in no choice itself.\<close>

definition choices_ok :: "ktab \<Rightarrow> bool" where
  "choices_ok K \<longleftrightarrow> (\<forall>a c. y_choice_menu (k_syms K a) = Some c \<longrightarrow> y_choice_menu (k_syms K (c_sym (k_choices K c))) = None)"

lemma check_symbol_ends:
  assumes "\<And>b M. ends k M (check_deps n K menu_of b M)" "y_choice_menu (k_syms K a) = None"
  shows "ends (Suc k) M (check_deps (Suc n) K menu_of a M)"
proof (cases "on_stack M a \<or> checked M a")
  case True
  then show ?thesis
    by auto
next
  case False
  then have a: "open_syms M - {a} \<subset> open_syms M"
    by (auto simp: open_syms_def)
  note visit = ends_visit [of k "check_deps n K menu_of", OF assms(1)]
  show ?thesis
  proof (cases "sym_is_choice K a")
    case True
    let ?bs = "c_entries (k_choices K (menu_of a))"
    have "ends k (set_checks [a] (set_checks ?bs M)) (sym_check_choice_deps (check_deps n K menu_of) K (menu_of a) a M)"
      unfolding sym_check_choice_deps_def Let_def check_sym_visit check_entries_visit
      by (intro ends_bind visit) (auto intro!: ends_bind visit ends_clear [of _ "[a]"])
    then show ?thesis
      using False assms(2) True ends_smaller [of k "set_checks [a] (set_checks ?bs M)" _ M] a by auto
  next
    case plain: False
    have "ends k (set_checks [a] M) (do { (sym2, M) \<leftarrow> visit (check_deps n K menu_of) (deps K a) (set_checks [a] M);
        Some (sym2, clear_check [a] M) })"
      by (intro ends_bind visit) simp
    then show ?thesis
      using False assms(2) plain ends_smaller [of k "set_checks [a] M" _ M] a by (simp add: check_sym_visit)
  qed
qed

lemma check_deps_ends:
  assumes "choices_ok K"
  shows "2 * k + 1 \<le> n \<Longrightarrow> ends k M (check_deps n K menu_of a M)"
proof (induction k arbitrary: n M a)
  case 0
  then show ?case
    by (cases n) (auto simp: ends_def open_syms_def)
next
  case (Suc k)
  then obtain m where n: "n = Suc (Suc m)" "2 * k + 1 \<le> m"
    by (metis Suc_1 add_2_eq_Suc' add_Suc le_iff_add mult_Suc_right nat_add_left_cancel_le plus_1_eq_Suc)
  show ?case
  proof (cases "y_choice_menu (k_syms K a)")
    case None
    then show ?thesis
      unfolding n using n(2) by (intro check_symbol_ends Suc.IH) auto
  next
    case (Some c)
    have "ends (Suc k) M (check_deps (Suc m) K menu_of (c_sym (k_choices K c)) M)"
      using Some assms n(2) by (intro check_symbol_ends Suc.IH) (auto simp: choices_ok_def)
    then show ?thesis
      unfolding n using Some by auto
  qed
qed

subsection \<open>The search is right\<close>

text \<open>Symbols outside of choices, closed under the dependencies that the search follows.\<close>

definition searchable :: "ktab \<Rightarrow> sym set \<Rightarrow> bool" where
  "searchable K A \<longleftrightarrow> (\<forall>a \<in> A. y_choice_menu (k_syms K a) = None \<and> \<not> sym_is_choice K a \<and> set (deps K a) \<subseteq> A)"

definition finished :: "sym set \<Rightarrow> marks \<Rightarrow> sym set" where
  "finished A M = {a \<in> A. checked M a \<and> \<not> on_stack M a}"

definition ordered_deps :: "ktab \<Rightarrow> sym set \<Rightarrow> bool" where
  "ordered_deps K D \<longleftrightarrow> (\<exists>r :: sym \<Rightarrow> nat. \<forall>a \<in> D. \<forall>b \<in> set (deps K a). b \<in> D \<and> r b < r a)"

text \<open>One visit: the stack is as before; without a circle the symbol is finished, and the finished symbols stay in
  order; and when there is an order in which the symbol comes before all symbols on the stack, no circle is
  found.\<close>

definition visited :: "ktab \<Rightarrow> sym set \<Rightarrow> (sym \<Rightarrow> nat) \<Rightarrow> sym set \<Rightarrow> marks \<Rightarrow> sym option \<times> marks \<Rightarrow> bool" where
  "visited K A r B M = (\<lambda>(s, M').
     on_stack M' = on_stack M \<and> (\<forall>b. checked M b \<longrightarrow> checked M' b) \<and>
     (s = None \<longrightarrow> B \<subseteq> finished A M' \<and> (ordered_deps K (finished A M) \<longrightarrow> ordered_deps K (finished A M'))) \<and>
     ((\<forall>a \<in> A. \<forall>b \<in> set (deps K a). r b < r a) \<longrightarrow> (\<forall>q \<in> A. on_stack M q \<longrightarrow> (\<forall>b \<in> B. r b < r q)) \<longrightarrow> s = None))"

lemma visited_finished: "visited K A r B M (s, M') \<Longrightarrow> finished A M \<subseteq> finished A M'"
  by (auto simp: visited_def finished_def)

lemma visited_list:
  assumes "\<And>b M r'. b \<in> A \<Longrightarrow> check b M = Some r' \<Longrightarrow> visited K A r {b} M r'"
  shows "set bs \<subseteq> A \<Longrightarrow> visit check bs M = Some (s, M') \<Longrightarrow> visited K A r (set bs) M (s, M')"
proof (induction bs arbitrary: M)
  case Nil
  then show ?case
    by (simp add: visited_def)
next
  case (Cons b bs)
  obtain s1 M1 where 1: "check b M = Some (s1, M1)"
    using Cons.prems(2) by (auto simp: or_else_def bind_eq_Some_conv)
  have v: "visited K A r {b} M (s1, M1)"
    using assms [OF _ 1] Cons.prems(1) by simp
  show ?case
  proof (cases s1)
    case None
    then have w: "visited K A r (set bs) M1 (s, M')"
      using Cons 1 by (simp add: or_else_def)
    show ?thesis
      using v None w visited_finished [OF w] unfolding visited_def by auto
  next
    case (Some x)
    then have "s = Some x" "M' = M1"
      using Cons.prems(2) 1 by (auto simp: or_else_def)
    then show ?thesis
      using v Some by (fastforce simp: visited_def)
  qed
qed

lemma ordered_insert:
  assumes "ordered_deps K D" "set (deps K a) \<subseteq> D" "a \<notin> D"
  shows "ordered_deps K (insert a D)"
proof -
  obtain r :: "sym \<Rightarrow> nat" where r: "\<forall>c \<in> D. \<forall>b \<in> set (deps K c). b \<in> D \<and> r b < r c"
    using assms(1) by (auto simp: ordered_deps_def)
  let ?r = "r(a := Suc (sum_list (map r (deps K a))))"
  have "r b < Suc (sum_list (map r (deps K a)))" if "b \<in> set (deps K a)" for b
    using member_le_sum_list [of "r b" "map r (deps K a)"] that by simp
  then have "\<forall>c \<in> insert a D. \<forall>b \<in> set (deps K c). b \<in> insert a D \<and> ?r b < ?r c"
    using r assms(2,3) by (auto simp del: fun_upd_apply) (auto simp: fun_upd_def)
  then show ?thesis
    unfolding ordered_deps_def by blast
qed

lemma check_deps_visited:
  assumes "searchable K A"
  shows "a \<in> A \<Longrightarrow> check_deps n K menu_of a M = Some res \<Longrightarrow> visited K A r {a} M res"
proof (induction n arbitrary: a M res)
  case (Suc n)
  have a: "y_choice_menu (k_syms K a) = None" "\<not> sym_is_choice K a" "set (deps K a) \<subseteq> A"
    using assms Suc.prems(1) by (simp_all add: searchable_def)
  show ?case
  proof (cases "on_stack M a \<or> checked M a")
    case True
    then have "res = (if on_stack M a then Some a else None, M)"
      using Suc.prems(2) by (auto split: if_splits)
    then show ?thesis
      using True Suc.prems(1) by (auto simp: visited_def finished_def)
  next
    case False
    then obtain s M1 where res: "visit (check_deps n K menu_of) (deps K a) (set_checks [a] M) = Some (s, M1)"
        "res = (s, clear_check [a] M1)"
      using Suc.prems(2) a(1,2) by (auto simp: check_sym_visit bind_eq_Some_conv)
    have v: "visited K A r (set (deps K a)) (set_checks [a] M) (s, M1)"
      using visited_list [OF Suc.IH a(3) res(1)] .
    then have stack: "on_stack M1 = (\<lambda>b. b = a \<or> on_stack M b)"
      by (auto simp: visited_def)
    have f0: "finished A (set_checks [a] M) = finished A M"
      using False by (auto simp: finished_def)
    have "checked M1 a" and mono: "\<forall>b. checked M b \<longrightarrow> checked M1 b"
      using v by (auto simp: visited_def)
    then have f1: "finished A (clear_check [a] M1) = insert a (finished A M1)" "a \<notin> finished A M1"
      using Suc.prems(1) stack by (auto simp: finished_def)
    have "on_stack (clear_check [a] M1) = on_stack M"
      using stack False by auto
    moreover have "ordered_deps K (finished A M) \<longrightarrow> ordered_deps K (insert a (finished A M1))" if "s = None"
      using v that f0 f1(2) ordered_insert [of K "finished A M1" a] by (simp add: visited_def)
    moreover have "s = None" if "\<forall>c \<in> A. \<forall>b \<in> set (deps K c). r b < r c" "\<forall>q \<in> A. on_stack M q \<longrightarrow> r a < r q"
    proof -
      have "\<forall>q \<in> A. on_stack (set_checks [a] M) q \<longrightarrow> (\<forall>b \<in> set (deps K a). r b < r q)"
        using that Suc.prems(1) by (auto dest: less_trans)
      then show ?thesis
        using v that(1) by (simp add: visited_def)
    qed
    ultimately show ?thesis
      using mono f1(1) res(2) by (auto simp: visited_def)
  qed
qed simp

lemma check_all_ends:
  assumes "choices_ok K" "finite (open_syms M)" "card (open_syms M) \<le> length (k_all K) + 3"
  shows "\<exists>n M'. check_all K menu_of as M = Some (n, M')"
  using assms(2,3)
proof (induction as arbitrary: M)
  case (Cons a as)
  obtain s M1 where 1: "sym_check_deps K menu_of a M = Some (s, M1)" "open_syms M1 \<subseteq> open_syms M"
    using check_deps_ends [OF assms(1) order.refl, of "length (k_all K) + 3" M menu_of a] Cons.prems
    by (auto simp: ends_def sym_check_deps_def)
  then have "finite (open_syms M1)" "card (open_syms M1) \<le> length (k_all K) + 3"
    using Cons.prems card_mono [of "open_syms M" "open_syms M1"] by (auto intro: finite_subset)
  then show ?case
    using Cons.IH [of M1] 1(1) by auto
qed simp

lemma check_all_visited:
  assumes "searchable K A"
  shows "set as \<subseteq> A \<Longrightarrow> check_all K menu_of as M = Some (n, M') \<Longrightarrow> \<forall>b \<in> A. \<not> on_stack M b \<Longrightarrow>
    (n = 0 \<longrightarrow> ordered_deps K (finished A M) \<longrightarrow> ordered_deps K (finished A M') \<and> finished A M \<union> set as \<subseteq> finished A M') \<and>
    ((\<forall>a \<in> A. \<forall>b \<in> set (deps K a). r b < (r a :: nat)) \<longrightarrow> n = 0)"
proof (induction "as" arbitrary: M n)
  case (Cons a as)
  then obtain s M1 n1 where 1: "sym_check_deps K menu_of a M = Some (s, M1)" "check_all K menu_of as M1 = Some (n1, M')"
      "n = (if s \<noteq> None then n1 + 1 else n1)"
    by (auto simp: bind_eq_Some_conv)
  have v: "visited K A r {a} M (s, M1)"
    using check_deps_visited [OF assms] Cons.prems(1) 1(1) by (simp add: sym_check_deps_def)
  then have M1: "\<forall>b \<in> A. \<not> on_stack M1 b" "finished A M \<subseteq> finished A M1"
    using Cons.prems(3) by (auto simp: visited_def finished_def)
  have "set as \<subseteq> A"
    using Cons.prems(1) by simp
  then show ?case
    using Cons.IH [OF _ 1(2) M1(1)] v 1(3) M1(2) Cons.prems(3) unfolding visited_def by auto
qed simp

subsection \<open>Circles and ranks\<close>

text \<open>What the parser makes of a symbol that is not in a choice: prompts have texts, and ranges stand only in
  properties of that kind. The search does not look at the bounds of a range, so they have to be symbols
  without dependencies, as constants are.\<close>

primrec no_range :: "expr \<Rightarrow> bool" where
  "no_range (Symbol a) = True"
| "no_range (And l r) = (no_range l \<and> no_range r)"
| "no_range (Or l r) = (no_range l \<and> no_range r)"
| "no_range (Not e) = no_range e"
| "no_range (Comp rel a b) = True"
| "no_range (Range a b) = False"

definition parsed_prop :: "property \<Rightarrow> bool" where
  "parsed_prop p \<longleftrightarrow> p_type p \<noteq> P_UNKNOWN \<and> (p_text p \<noteq> None \<longleftrightarrow> p_type p \<in> {P_PROMPT, P_COMMENT, P_MENU}) \<and>
     pred_option no_range (p_visible p) \<and> (p_type p = P_DEFAULT \<longrightarrow> pred_option no_range (p_expr p))"

definition parsed :: "ktab \<Rightarrow> sym set \<Rightarrow> bool" where
  "parsed K A \<longleftrightarrow> (\<forall>a \<in> A. let y = k_syms K a in
     s_name y \<noteq> None \<and> \<not> y_choice_link y \<and> y_choice_menu y = None \<and> needs y \<subseteq> A \<and>
     pred_option no_range (y_dir_dep y) \<and> pred_option no_range (y_rev_dep y) \<and> pred_option no_range (y_implied y) \<and>
     (\<forall>p \<in> set (y_props y). parsed_prop p \<and>
        (p_type p = P_RANGE \<longrightarrow> (\<forall>b \<in> opt_syms (p_expr p). needs (k_syms K b) = {}))))"

lemma expr_deps_syms: "no_range e \<Longrightarrow> set (expr_deps e) = expr_syms e"
  by (induction e) simp_all

lemma opt_deps_syms: "pred_option no_range e \<Longrightarrow> set (opt_deps e) = opt_syms e"
  by (cases e) (simp_all add: opt_deps_def opt_syms_def expr_deps_syms)

definition prop_needs :: "property \<Rightarrow> sym set" where
  "prop_needs p = (if p_text p \<noteq> None then opt_syms (p_visible p) else {}) \<union>
     (if p_type p = P_DEFAULT \<or> p_type p = P_RANGE then opt_syms (p_visible p) \<union> opt_syms (p_expr p) else {})"

lemma needs_props:
  "needs y = opt_syms (y_dir_dep y) \<union> opt_syms (y_rev_dep y) \<union> opt_syms (y_implied y) \<union> (\<Union>p \<in> set (y_props y). prop_needs p)"
proof -
  have "cond_syms (prompts_of y) \<union> (prop_syms (props_of P_DEFAULT y) \<union> prop_syms (props_of P_RANGE y)) =
      (\<Union>p \<in> set (y_props y). prop_needs p)"
    by (auto simp: cond_syms_def prop_syms_def prompts_of_def props_of_def prop_needs_def split: if_splits)
  then show ?thesis
    unfolding needs_def by blast
qed

lemma prop_deps_needs:
  assumes "parsed_prop p"
  shows "set (prop_deps False p) \<subseteq> prop_needs p"
    "p_type p \<noteq> P_RANGE \<Longrightarrow> prop_needs p \<subseteq> set (prop_deps False p)"
    "prop_needs p \<subseteq> set (prop_deps False p) \<union> opt_syms (p_expr p)"
  using assms by (cases "p_type p"; auto simp: parsed_prop_def prop_deps_def prop_needs_def opt_deps_syms)+

lemma deps_needs:
  assumes "parsed K A" "a \<in> A"
  shows "set (deps K a) \<subseteq> needs (k_syms K a)" "b \<in> needs (k_syms K a) \<Longrightarrow> needs (k_syms K b) \<noteq> {} \<Longrightarrow> b \<in> set (deps K a)"
proof -
  let ?y = "k_syms K a"
  have y: "pred_option no_range (y_dir_dep ?y)" "pred_option no_range (y_rev_dep ?y)" "pred_option no_range (y_implied ?y)"
      "\<And>p. p \<in> set (y_props ?y) \<Longrightarrow> parsed_prop p" "\<not> sym_is_choice K a"
      "\<And>p b. p \<in> set (y_props ?y) \<Longrightarrow> p_type p = P_RANGE \<Longrightarrow> b \<in> opt_syms (p_expr p) \<Longrightarrow> needs (k_syms K b) = {}"
    using assms by (simp_all add: parsed_def Let_def sym_is_choice_def)
  have d: "set (deps K a) = opt_syms (y_dir_dep ?y) \<union> opt_syms (y_rev_dep ?y) \<union> opt_syms (y_implied ?y) \<union>
      (\<Union>p \<in> set (y_props ?y). set (prop_deps False p))"
    using y(1-3,5) by (simp add: deps_def Let_def opt_deps_syms Un_assoc)
  show "set (deps K a) \<subseteq> needs ?y"
    unfolding d needs_props using prop_deps_needs(1) [OF y(4)] by blast
  show "b \<in> set (deps K a)" if b: "b \<in> needs ?y" "needs (k_syms K b) \<noteq> {}"
  proof -
    have "b \<in> set (prop_deps False p)" if "p \<in> set (y_props ?y)" "b \<in> prop_needs p" for p
      using prop_deps_needs(2,3) [OF y(4) [OF that(1)]] y(6) [OF that(1), of b] that(2) b(2) by blast
    then show ?thesis
      using b(1) unfolding d needs_props by blast
  qed
qed

lemma ranked_finished:
  assumes "parsed K A" "ordered_deps K D" "D \<subseteq> A" "\<forall>a \<in> A - D. needs (k_syms K a) = {}"
    and "valid K (k_modules K)" "\<forall>a \<in> consts3. valid K a"
  shows "\<exists>r. ranked A r K"
proof -
  obtain r :: "sym \<Rightarrow> nat" where r: "\<forall>a \<in> D. \<forall>b \<in> set (deps K a). b \<in> D \<and> r b < r a"
    using assms(2) by (auto simp: ordered_deps_def)
  let ?r = "\<lambda>a. if needs (k_syms K a) = {} then 0 else Suc (r a)"
  have "?r b < ?r a" if "a \<in> A" "b \<in> needs (k_syms K a)" for a b
    using that r assms(4) deps_needs(2) [OF assms(1), of a b] by auto
  then have "ranked A ?r K"
    using assms(1,5,6) unfolding ranked_def parsed_def Let_def by blast
  then show ?thesis
    by (rule exI [of "\<lambda>r. ranked A r K"])
qed

text \<open>C40. For symbols outside of choices, closed under their dependencies, whose ranges have bounds without dependencies
  (\<^verbatim>\<open>parsed\<close>): the search for circles that the parser runs over all of them returns, and reports none exactly when
  the symbols can be ranked along their dependencies, which is what \<^verbatim>\<open>sym_calc_value_solves\<close> asks for. So it misses no
  circle, and gives no false alarm.\<close>

theorem sym_check_deps_finds_circles:
  assumes "choices_ok K" "parsed K A" "A \<subseteq> set (k_all K) \<union> consts3" "set as \<subseteq> A"
    and "\<forall>a \<in> A - set as. needs (k_syms K a) = {}" "valid K (k_modules K)" "\<forall>a \<in> consts3. valid K a"
  shows "\<exists>n M. check_all K menu_of as (no_marks K) = Some (n, M) \<and> (n = 0 \<longleftrightarrow> (\<exists>r. ranked A r K))"
proof -
  have op: "open_syms (no_marks K) = set (k_all K) \<union> consts3"
    by (auto simp: open_syms_def no_marks_def)
  have "card (open_syms (no_marks K)) \<le> length (k_all K) + card consts3"
    unfolding op using card_Un_le [of "set (k_all K)" consts3] card_length [of "k_all K"] by linarith
  then obtain n M where ends: "check_all K menu_of as (no_marks K) = Some (n, M)"
    using check_all_ends [OF assms(1), of "no_marks K" menu_of "as"] op by auto
  have A: "searchable K A"
    using assms(2) deps_needs(1) [OF assms(2)] unfolding searchable_def parsed_def Let_def sym_is_choice_def by blast
  have start: "finished A (no_marks K) = {}" "\<forall>b \<in> A. \<not> on_stack (no_marks K) b"
    using assms(3) by (auto simp: finished_def no_marks_def)
  note visited = check_all_visited [OF A assms(4) ends start(2)]
  have "\<exists>r. ranked A r K" if "n = 0"
  proof -
    have fin: "ordered_deps K (finished A M)" "set as \<subseteq> finished A M"
      using visited [of "\<lambda>_. 0"] that start(1) by (simp_all add: ordered_deps_def)
    then show ?thesis
      using assms(5) by (intro ranked_finished [OF assms(2) fin(1) _ _ assms(6,7)]) (auto simp: finished_def)
  qed
  moreover have "n = 0" if "ranked A r K" for r
    using visited [of r] that deps_needs(1) [OF assms(2)] unfolding ranked_def by blast
  ultimately show ?thesis
    using ends by blast
qed

lemma sample_parsed: "parsed sample_tab sample_set"
  by (simp add: parsed_def sample_set_def sample_tab_def plain_def const_entry_def prompt_def default_value_def
      parsed_prop_def Let_def needs_def prompts_of_def props_of_def cond_syms_def prop_syms_def opt_syms_def)

theorem sym_check_deps_finds_circles_witness:
  "\<exists>M. check_all sample_tab (\<lambda>_. 0) [5, 6, 7, 11] (no_marks sample_tab) = Some (0, M)"
proof -
  have "choices_ok sample_tab"
    by (auto simp: choices_ok_def sample_tab_def plain_def const_entry_def)
  moreover have "sample_set - set [5, 6, 7, 11] \<subseteq> consts3"
    by (auto simp: sample_set_def)
  then have "\<forall>a \<in> sample_set - set [5, 6, 7, 11]. needs (k_syms sample_tab a) = {}"
    by (auto simp: sample_tab_def plain_def const_entry_def needs_props opt_syms_def)
  moreover have "valid sample_tab (k_modules sample_tab)" "\<forall>a \<in> consts3. valid sample_tab a"
    using sample_ranked by (simp_all add: ranked_def)
  moreover have "sample_set \<subseteq> set (k_all sample_tab) \<union> consts3" "set [5, 6, 7, 11] \<subseteq> sample_set"
    by (simp_all add: sample_set_def sample_tab_def)
  ultimately show ?thesis
    using sym_check_deps_finds_circles [of sample_tab sample_set "[5, 6, 7, 11]" "\<lambda>_. 0"] sample_parsed sample_ranked by blast
qed

text \<open>The condition on ranges is needed. The bounds of the ranges of HIGH (5) and LOW (6) are each other: the search
  reports no circle, but the symbols cannot be ranked.\<close>

definition range_prop :: "sym \<Rightarrow> sym \<Rightarrow> property" where
  "range_prop l r = \<lparr> p_type = P_RANGE, p_text = None, p_visible = None, p_expr = Some (Range l r) \<rparr>"

definition range_tab :: ktab where
  "range_tab = \<lparr> k_syms = (\<lambda>_. (plain None S_UNKNOWN)\<lparr> y_valid := True \<rparr>)
     (symbol_no := const_entry ''n'' T_no, symbol_mod := const_entry ''m'' T_mod, symbol_yes := const_entry ''y'' T_yes,
      5 := (plain (Some ''HIGH'') S_INT)\<lparr> y_has_value := True, y_user_val := ''10'', y_props := [prompt None, range_prop 7 6] \<rparr>,
      6 := (plain (Some ''LOW'') S_INT)\<lparr> y_has_value := True, y_user_val := ''3'', y_props := [prompt None, range_prop 5 8] \<rparr>,
      7 := (plain (Some ''0'') S_UNKNOWN)\<lparr> s_const := True, s_val := ''0'', y_valid := True \<rparr>,
      8 := (plain (Some ''20'') S_UNKNOWN)\<lparr> s_const := True, s_val := ''20'', y_valid := True \<rparr>),
     k_all = [5, 6], k_choices = (\<lambda>_. \<lparr> c_sym = 0, c_members = [], c_entries = [] \<rparr>),
     k_modules = symbol_no, k_modules_val = T_no, k_cache = (\<lambda>_. None), k_warnings = 0 \<rparr>"

lemma range_circle_unreported:
  "\<exists>M. check_all range_tab menu_of [5, 6] (no_marks range_tab) = Some (0, M)" "\<not> ranked {5, 6, 7, 8} r range_tab"
proof -
  have tab: "k_all range_tab = [5, 6]" "deps range_tab 5 = []" "deps range_tab 6 = []"
      "\<And>a. a = 5 \<or> a = 6 \<Longrightarrow> \<not> sym_is_choice range_tab a \<and> y_choice_menu (k_syms range_tab a) = None"
    by (auto simp: range_tab_def range_prop_def plain_def prompt_def deps_def prop_deps_def opt_deps_def sym_is_choice_def)
  have one: "\<exists>M'. sym_check_deps range_tab menu_of a M = Some (None, M') \<and> on_stack M' = on_stack M"
    if "a = 5 \<or> a = 6" "\<not> on_stack M a" for a M
    using check_deps.simps(2) [of 10 range_tab menu_of a M] tab that
    by (auto simp: sym_check_deps_def check_sym_visit fun_eq_iff)
  have "\<not> on_stack (no_marks range_tab) b" for b
    by (simp add: no_marks_def)
  then obtain M where M: "sym_check_deps range_tab menu_of 5 (no_marks range_tab) = Some (None, M)" "\<not> on_stack M 6"
    using one [of 5 "no_marks range_tab"] by auto
  then obtain M' where "sym_check_deps range_tab menu_of 6 M = Some (None, M')"
    using one [of 6 M] by auto
  with M show "\<exists>M. check_all range_tab menu_of [5, 6] (no_marks range_tab) = Some (0, M)"
    by simp
  have "6 \<in> needs (k_syms range_tab 5)" "5 \<in> needs (k_syms range_tab 6)"
    by (simp_all add: range_tab_def range_prop_def plain_def prompt_def needs_props prop_needs_def opt_syms_def)
  then show "\<not> ranked {5, 6, 7, 8} r range_tab"
    by (force simp: ranked_def)
qed

end
