(* ===== verification/Spec2Isabelle.thy ===== *)
theory Spec2Isabelle
  imports System Uart FwInfo FrameQueue KconfigPrint KconfigText KconfigCheck
begin

text \<open>Verification of the carl9170 firmware.

The firmware runs on the SH-2 core of the AR9170 USB WLAN chip (carlfw/): it moves frames between the
USB engine and the 802.11 MAC by passing DMA descriptors between queues, reports the outcome of
transmissions, answers commands of the driver, and watches the hardware. Beside it stand the host tools
(tools/), which rewrite and inspect firmware images.

\<^bold>\<open>State.\<close> \<^verbatim>\<open>fw_state\<close> (theory State) is \<^verbatim>\<open>struct firmware_context_struct\<close> of carlfw/include/carl9170.h, one
record per nested struct and one field per member, with the machine around it: the DMA descriptors
(\<^verbatim>\<open>f_descs\<close>, by address), the transmit headers (\<^verbatim>\<open>f_supers\<close>, typed, by the address of the superframe), the byte
memory (\<^verbatim>\<open>f_ram\<close>), and the registers (\<^verbatim>\<open>f_hw\<close>: what was written last, what the device answers instead, and
the log of writes). The queue members of the context are named by the datatype \<^verbatim>\<open>qref\<close>. Integers are words of
the width of the C type; bit fields are words of their width or booleans. Hw holds the constants, generated
from the headers.

\<^bold>\<open>Operations.\<close> An operation is a function on the state; a read of a register gives the value and the state
after it, since reading advances the time at which the device answers. The result type is an option where a
loop may not end (\<^verbatim>\<open>partial_function (option)\<close>) or the C code has no defined behaviour; a theorem that an operation
returns says that it is Some. Fuel is used in \<^verbatim>\<open>calc_value\<close> (KconfigValue), \<^verbatim>\<open>toggle_loop\<close>
(KconfigSet) and \<^verbatim>\<open>check_deps\<close> (KconfigCheck) only. A static variable of a C function (the letter case of
\<^verbatim>\<open>tfp_printf\<close>, \<^verbatim>\<open>f_printf_uc\<close>) is a field of the state. \<^verbatim>\<open>reboot\<close> leaves the firmware, which the datatype \<^verbatim>\<open>flow\<close> shows.

\<^bold>\<open>Theories.\<close>
\<^item> Prelude, Ring: words, byte memory, shared lemmas; the interface of a ring buffer (locale \<^verbatim>\<open>ring\<close>).
\<^item> State, Hw, Io: the context, the constants, register access (carlfw/include/io.h).
\<^item> Dma, Queues, Drain, Ownership: the descriptor queues (carlfw/src/dma.c, include/dma.h). Dma proves that every
  operation refines the operation on a list of packets; Queues is the interface \<^verbatim>\<open>packet_fifo\<close> of the
  queues together, interpreted on the firmware state; Drain is the loop that takes finished packets; Ownership says
  which packets are in queues and which are in the hands of the code.
\<^item> HostChannel, Printf: messages to the host (usb/main.c, src/printf.c); the ring of messages meets \<^verbatim>\<open>ring\<close> and
  comes out in order.
\<^item> Timer, Wl: clock, delays, GPIO (src/timer.c, src/gpio.c), access to frames and MAC registers
  (include/wl.h).
\<^item> WlanTx, TxStatus, TxPath, TxCompletion, Beacon: the transmit path (src/wlantx.c): the operations, the status
  reports, the frames held back for the DTIM beacon, the completion interrupt, sequence numbers and beacons.
\<^item> WlanRx, Wol, Cam, Rf: reception (src/wlanrx.c), wake on WLAN (src/wol.c), the key memory (src/cam.c), the
  radio (src/rf.c).
\<^item> Wlan: the WLAN interrupt, the janitor, the hang check and the MAC reset (src/wlan.c, timer interrupt).
\<^item> HostIf, UsbFifo, UsbCtrl, UsbMain: commands and data from the host (src/hostif.c), the FIFO set up of the mode
  switch (usb/fifo.c, include/usb_fifo.h), endpoint 0 (usb/usb.c), the USB interrupt (usb/main.c). The option
  CONFIG_CARL9170FW_USB_MODESWITCH is the field \<^verbatim>\<open>cf_usb_modeswitch\<close> of the configuration.
\<^item> Uart: the debug port (src/uart.c).
\<^item> Firmware, View, System: start and main loop (src/main.c); which part of the state each operation leaves alone;
  and the invariant of the whole device.
\<^item> ListHead: the linked lists of the host (tools/include/list.h) and their interface \<^verbatim>\<open>node_list\<close>, interpreted on
  the pointer operations; FrameQueue: frame buffers and frame queues (tools/include/frame.h), which rest on that
  interpretation and refine a list of frames.
\<^item> Carlfw, HostTools, FwDesc, FwInfo: the image library (tools/lib/carlfw.c), the programs checksum, miniboot and wol
  (tools/src/), the descriptors that a build carries (carlfw/src/fw.c) with what the programs do to such a build, and
  fwinfo (tools/src/fwinfo.c).
\<^item> KconfigExpr, KconfigSimp, KconfigTrans, KconfigPrint: the expressions in which the options of a build depend on
  each other (config/expr.c): their values, equality and simplification, the transformations, printing.
\<^item> KconfigValue, KconfigCalc, KconfigSpec, KconfigFix, KconfigSet: the values of the options (config/symbol.c).
  \<^verbatim>\<open>ktab\<close> is the table of symbols, an entry per \<^verbatim>\<open>struct symbol\<close>; \<^verbatim>\<open>sym_calc_value\<close> calls itself through the
  expressions, with fuel for one more call than there are symbols: a symbol is marked before its dependencies are
  visited, so the calls that do something are nested at most once per symbol, and KconfigCalc proves in the locale
  \<^verbatim>\<open>calculation\<close> that the fuel is enough for every table, also with circles. KconfigSpec states the equations of the
  configuration language on tables that are known in part; KconfigFix proves in \<^verbatim>\<open>ordered\<close>, which extends
  \<^verbatim>\<open>calculation\<close>, that the values computed on demand solve them, for symbols without circles and outside of choices;
  KconfigSet is setting values, where the equations have one solution, and KconfigText setting them from a text.
\<^item> KconfigCheck: the search for circles that the parser runs at its end (\<^verbatim>\<open>sym_check_deps\<close> of config/symbol.c). It is
  depth-first; a symbol is marked when it is entered, so the calls are nested at most twice per symbol (once more for a choice
  and its members), and the fuel of 2 * (symbols + 3) + 1 is proved to be enough. When the search reports no circle,
  the symbols can be ranked, which is the hypothesis of KconfigFix.

\<^bold>\<open>The device.\<close> \<^verbatim>\<open>device_step\<close> (System) is a round of the main loop or a step of the hardware. Between rounds the
hardware may write any memory outside of the links of the queues, give packets back, change every register,
and join a received block to the packet before it. Within a round the device shows itself through the
answers to register reads, which are arbitrary (\<^verbatim>\<open>hw_dev\<close>).

\<^bold>\<open>Lemma groups.\<close> The rules \<^verbatim>\<open>mem_simps\<close> and \<^verbatim>\<open>fw_simps\<close> evaluate straight-line code; \<^verbatim>\<open>queue_ok\<close>,
\<^verbatim>\<open>queues_ok\<close>, \<^verbatim>\<open>owned\<close> and \<^verbatim>\<open>holds\<close> are the invariant at the levels of one queue, all queues, the packets in
hand, and the service descriptors; the collection \<^verbatim>\<open>safe\<close> has one rule per operation saying that it returns and
keeps \<^verbatim>\<open>holds\<close>. On the host, \<^verbatim>\<open>linked\<close> relates pointers to the list of nodes and \<^verbatim>\<open>carlfw_ok\<close> an image to its
list of descriptors.

\<^bold>\<open>Assumptions.\<close> The registers are apart from memory. Superframe headers and descriptors are not
aliased by raw byte writes, except through the encoders of State. Writing beyond the end of an array of the
context leaves the array as it is; where the code can do this, a finding says so. Host tools: the n-th allocation
gives a new address, an oracle says which ones fail; files are byte lists; uninitialised memory is an argument.

\<^bold>\<open>Not modelled.\<close> The rest of the configuration tool (config/, the kconfig of the Linux kernel: parser, menus, files, front ends, the
lookup and search of symbols), the kernel headers beyond
what the firmware uses, assembly (memcpy, memset, division, the jump to the boot code, minifw), build scripts, code
that needs a configuration marked as broken (debug dumps of queues), the sockets and the command line of wol, and the
messages of checksum, miniboot and wol. The SDL mutexes of the frame queues are an argument.\<close>

end
